(* ===== verification/Prelude.thy ===== *)
theory Prelude
  imports Main "HOL-Library.Word"
begin

text \<open>
  Shared ground of the development: bytes and machine words, the outcomes of a C routine,
  little-endian integers as they lie in memory, and the counted loop that every wire parser of
  the library runs. The collections \<open>bytes_simps\<close> and \<open>res_simps\<close> carry the automation
  of the component theories.
\<close>

named_theorems bytes_simps "little-endian encoding and memory slices"
named_theorems res_simps "outcomes of C routines"

section \<open>Bytes and words\<close>

type_synonym byte = "8 word"
type_synonym bytes = "byte list"
type_synonym u16 = "16 word"
type_synonym u32 = "32 word"
type_synonym u64 = "64 word"

section \<open>Outcomes\<close>

text \<open>
  A C routine that does not deliver its result ends in one of three ways: it reports an error
  to its caller (\<open>-1\<close> or \<open>NULL\<close>), it stops the process (a failed \<open>assert\<close>,
  \<open>abort\<close>; the Makefile never defines \<open>NDEBUG\<close>), or it has no defined behaviour (it reads
  or writes outside the memory it was given, follows a null pointer, uses indeterminate bytes).
  Routines whose loops may not end at all are run with a bound on their steps; the bound running
  out is \<open>Unfinished\<close>.
\<close>

datatype fault = Reject | Abort | Undefined | Unfinished

type_synonym 'a res = "fault + 'a"

definition andThen :: "'a res \<Rightarrow> ('a \<Rightarrow> 'b res) \<Rightarrow> 'b res" where
  "andThen m f = (case m of Inl e \<Rightarrow> Inl e | Inr x \<Rightarrow> f x)"

definition require :: "bool \<Rightarrow> fault \<Rightarrow> unit res" where
  "require P e = (if P then Inr () else Inl e)"

lemma andThen_simps [simp, res_simps]:
  "andThen (Inr x) f = f x"
  "andThen (Inl e) f = Inl e"
  by (simp_all add: andThen_def)

lemma andThen_cong [fundef_cong]:
  "m = m' \<Longrightarrow> (\<And>x. m' = Inr x \<Longrightarrow> f x = g x) \<Longrightarrow> andThen m f = andThen m' g"
  by (cases m') simp_all

lemma andThen_Inr_iff [res_simps]:
  "andThen m f = Inr y \<longleftrightarrow> (\<exists>x. m = Inr x \<and> f x = Inr y)"
  by (cases m) simp_all

lemma andThen_Inl_iff [res_simps]:
  "andThen m f = Inl e \<longleftrightarrow> m = Inl e \<or> (\<exists>x. m = Inr x \<and> f x = Inl e)"
  by (cases m) simp_all

lemma require_simps [simp, res_simps]:
  "require P e = Inr u \<longleftrightarrow> P"
  "require P e = Inl e' \<longleftrightarrow> \<not> P \<and> e' = e"
  "require True e = Inr ()"
  "require False e = Inl e"
  by (auto simp: require_def)

lemma case_Inr_iff [res_simps]:
  "(if c then Inl e else r) = Inr y \<longleftrightarrow> \<not> c \<and> r = Inr y"
  "(if c then r else Inl e) = Inr y \<longleftrightarrow> c \<and> r = Inr y"
  "(case l of [] \<Rightarrow> Inl e | b # t \<Rightarrow> f b t) = Inr y \<longleftrightarrow> (\<exists>b t. l = b # t \<and> f b t = Inr y)"
  "(case v of None \<Rightarrow> Inl e | Some x \<Rightarrow> g x) = Inr y \<longleftrightarrow> (\<exists>x. v = Some x \<and> g x = Inr y)"
  by (auto split: list.splits option.splits)

text \<open>A condition on the result when there is one.\<close>

definition post :: "('a \<Rightarrow> bool) \<Rightarrow> 'a res \<Rightarrow> bool" where
  "post Q r = (case r of Inl _ \<Rightarrow> True | Inr x \<Rightarrow> Q x)"

lemma post_simps [simp]:
  "post Q (Inl e)" "post Q (Inr x) = Q x" "post Q (andThen r f) = post (\<lambda>x. post Q (f x)) r"
  by (simp_all add: post_def) (cases r; simp)

lemma postI: "(\<And>x. r = Inr x \<Longrightarrow> Q x) \<Longrightarrow> post Q r"
  by (cases r) simp_all

lemma postD: "post Q r \<Longrightarrow> r = Inr x \<Longrightarrow> Q x"
  by simp

lemma post_mono: "post Q r \<Longrightarrow> (\<And>x. Q x \<Longrightarrow> Q' x) \<Longrightarrow> post Q' r"
  by (cases r) simp_all

section \<open>Memory slices\<close>

text \<open>
  A pointer with the bytes that may be read behind it is a byte list. Reading past its end is
  undefined behaviour, never a default value.
\<close>

definition mem_read :: "nat \<Rightarrow> bytes \<Rightarrow> bytes res" where
  "mem_read n m = (if n \<le> length m then Inr (take n m) else Inl Undefined)"

text \<open>Writing a block at the start of a buffer; a block longer than the buffer overruns it.\<close>

definition mem_write :: "bytes \<Rightarrow> bytes \<Rightarrow> bytes res" where
  "mem_write d m = (if length d \<le> length m then Inr (d @ drop (length d) m) else Inl Undefined)"

lemma mem_read_append [simp]: "length a = n \<Longrightarrow> mem_read n (a @ b) = Inr a"
  by (auto simp: mem_read_def)

lemma mem_read_Inr_iff [res_simps]: "mem_read n m = Inr x \<longleftrightarrow> n \<le> length m \<and> x = take n m"
  by (auto simp: mem_read_def)

lemma mem_write_Inr_iff [res_simps]:
  "mem_write d m = Inr x \<longleftrightarrow> length d \<le> length m \<and> x = d @ drop (length d) m"
  by (auto simp: mem_write_def)

lemma take_append_len: "length a = n \<Longrightarrow> take n (a @ b) = a"
  by simp

lemma drop_append_len: "length a = n \<Longrightarrow> drop n (a @ b) = b"
  by simp

text \<open>Comparing blocks of the same size, byte by byte.\<close>

fun memcmp :: "bytes \<Rightarrow> bytes \<Rightarrow> int" where
  "memcmp (x # xs) (y # ys) = (if x = y then memcmp xs ys else if x < y then - 1 else 1)"
| "memcmp _ _ = 0"

lemma memcmp_eq: "length a = length b \<Longrightarrow> memcmp a b = 0 \<longleftrightarrow> a = b"
  by (induction a b rule: memcmp.induct) auto

section \<open>Signed sizes\<close>

lemma sint_nonneg_unat:
  fixes s :: "'a::len word"
  assumes "0 \<le> sint s"
  shows "sint s = int (unat s)"
proof -
  define B where "B = (of_bool (bit (uint s) (LENGTH('a) - 1)) :: int)"
  have eq: "sint s = uint s - 2 ^ LENGTH('a) * B"
    by (simp add: B_def sint_uint signed_take_bit_eq_take_bit_minus take_bit_int_eq_self
        unsigned_less)
  have lt: "uint s < 2 ^ LENGTH('a)" by (rule unsigned_less)
  have "B \<noteq> 1"
  proof
    assume "B = 1"
    with eq have "sint s = uint s - 2 ^ LENGTH('a)" by simp
    with lt assms show False by linarith
  qed
  then have "B = 0" by (simp add: B_def)
  with eq show ?thesis by simp
qed

lemma sint_le_unat:
  assumes "0 < sint (s :: 'a::len word)" "\<not> int n < sint s"
  shows "0 < unat s \<and> unat s \<le> n"
proof -
  have "sint s = int (unat s)" using assms(1) by (intro sint_nonneg_unat) simp
  with assms show ?thesis by linarith
qed

section \<open>Little-endian integers\<close>

primrec le_bytes :: "nat \<Rightarrow> nat \<Rightarrow> bytes" where
  "le_bytes 0 v = []"
| "le_bytes (Suc k) v = word_of_nat (v mod 256) # le_bytes k (v div 256)"

primrec le_val :: "bytes \<Rightarrow> nat" where
  "le_val [] = 0"
| "le_val (b # bs) = unat b + 256 * le_val bs"

lemma length_le_bytes [simp, bytes_simps]: "length (le_bytes k v) = k"
  by (induction k arbitrary: v) simp_all

lemma unat_byte_of_nat [simp]: "unat (word_of_nat (v mod 256) :: byte) = v mod 256"
  by (simp add: unat_of_nat)

lemma unat_lt_len: "unat (w :: 'a::len word) < 2 ^ LENGTH('a)"
  by (rule unsigned_less)

lemma unat_byte_lt [simp]: "unat (b :: byte) < 256"
  using unat_lt_len [of b] by simp

lemma le_val_le_bytes [bytes_simps]: "le_val (le_bytes k v) = v mod 256 ^ k"
proof (induction k arbitrary: v)
  case 0
  then show ?case by simp
next
  case (Suc k)
  then show ?case by (simp add: mod_mult2_eq)
qed

lemma le_val_lt: "le_val bs < 256 ^ length bs"
proof (induction bs)
  case Nil
  then show ?case by simp
next
  case (Cons b bs)
  have "unat b < 256" by simp
  moreover have "Suc (le_val bs) \<le> 256 ^ length bs" using Cons by simp
  then have "256 * Suc (le_val bs) \<le> 256 * 256 ^ length bs" by (rule mult_le_mono2)
  ultimately have "unat b + 256 * le_val bs < 256 * 256 ^ length bs" by (simp only: mult_Suc_right)
  then show ?case by simp
qed

lemma le_bytes_le_val [bytes_simps]: "le_bytes (length bs) (le_val bs) = bs"
proof (induction bs)
  case Nil
  then show ?case by simp
next
  case (Cons b bs)
  have "(unat b + 256 * le_val bs) mod 256 = unat b" by simp
  moreover have "(unat b + 256 * le_val bs) div 256 = le_val bs" by simp
  ultimately show ?case using Cons by simp
qed

lemma le_val_append: "le_val (a @ b) = le_val a + 256 ^ length a * le_val b"
  by (induction a) (simp_all add: algebra_simps)

lemma le_val_replicate_0 [simp]: "le_val (replicate n 0) = 0"
  by (induction n) simp_all

lemma le_val_replicate_ff: "Suc (le_val (replicate n 0xff)) = 256 ^ n"
  by (induction n) simp_all

lemma le_val_inj: "length a = length b \<Longrightarrow> le_val a = le_val b \<Longrightarrow> a = b"
  by (metis le_bytes_le_val)

text \<open>For evaluating concrete values.\<close>

lemma le_bytes_4:
  "le_bytes 4 v = [word_of_nat (v mod 256), word_of_nat (v div 256 mod 256),
     word_of_nat (v div 65536 mod 256), word_of_nat (v div 16777216 mod 256)]"
proof -
  have "(4 :: nat) = Suc (Suc (Suc (Suc 0)))" by simp
  then show ?thesis by (simp only: le_bytes.simps) (simp add: div_mult2_eq [symmetric])
qed

text \<open>Machine integers read from and written to memory.\<close>

definition enc16 :: "u16 \<Rightarrow> bytes" where "enc16 w = le_bytes 2 (unat w)"
definition enc32 :: "u32 \<Rightarrow> bytes" where "enc32 w = le_bytes 4 (unat w)"
definition enc64 :: "u64 \<Rightarrow> bytes" where "enc64 w = le_bytes 8 (unat w)"

definition dec16 :: "bytes \<Rightarrow> u16" where "dec16 m = word_of_nat (le_val (take 2 m))"
definition dec32 :: "bytes \<Rightarrow> u32" where "dec32 m = word_of_nat (le_val (take 4 m))"
definition dec64 :: "bytes \<Rightarrow> u64" where "dec64 m = word_of_nat (le_val (take 8 m))"

lemma length_enc [simp, bytes_simps]:
  "length (enc16 a) = 2" "length (enc32 b) = 4" "length (enc64 c) = 8"
  by (simp_all add: enc16_def enc32_def enc64_def)

lemma le_val_enc [bytes_simps]:
  "le_val (enc16 a) = unat a" "le_val (enc32 b) = unat b" "le_val (enc64 c) = unat c"
  using unat_lt_len [of a] unat_lt_len [of b] unat_lt_len [of c]
  by (simp_all add: enc16_def enc32_def enc64_def le_val_le_bytes)

lemma dec_enc [simp, bytes_simps]:
  "dec16 (enc16 a @ r) = a" "dec32 (enc32 b @ r) = b" "dec64 (enc64 c @ r) = c"
  by (simp_all add: dec16_def dec32_def dec64_def le_val_enc)

lemma dec_enc_nil [simp, bytes_simps]:
  "dec16 (enc16 a) = a" "dec32 (enc32 b) = b" "dec64 (enc64 c) = c"
  using dec_enc(1) [of a "[]"] dec_enc(2) [of b "[]"] dec_enc(3) [of c "[]"] by simp_all

lemma unat_dec:
  "2 \<le> length m \<Longrightarrow> unat (dec16 m) = le_val (take 2 m)"
  "4 \<le> length m \<Longrightarrow> unat (dec32 m) = le_val (take 4 m)"
  "8 \<le> length m \<Longrightarrow> unat (dec64 m) = le_val (take 8 m)"
  using le_val_lt [of "take 2 m"] le_val_lt [of "take 4 m"] le_val_lt [of "take 8 m"]
  by (simp_all add: dec16_def dec32_def dec64_def unat_of_nat)

lemma enc_dec [bytes_simps]:
  "2 \<le> length m \<Longrightarrow> enc16 (dec16 m) = take 2 m"
  "4 \<le> length m \<Longrightarrow> enc32 (dec32 m) = take 4 m"
  "8 \<le> length m \<Longrightarrow> enc64 (dec64 m) = take 8 m"
  using le_bytes_le_val [of "take 2 m"] le_bytes_le_val [of "take 4 m"]
    le_bytes_le_val [of "take 8 m"]
  by (simp_all add: enc16_def enc32_def enc64_def unat_dec)

lemma enc_inj:
  "enc16 a = enc16 a' \<longleftrightarrow> a = a'" "enc32 b = enc32 b' \<longleftrightarrow> b = b'" "enc64 c = enc64 c' \<longleftrightarrow> c = c'"
  by (metis dec_enc_nil(1)) (metis dec_enc_nil(2), metis dec_enc_nil(3))

section \<open>Counted loops over a buffer\<close>

text \<open>
  The loop \<open>for(i = 0; i < count; ++i) { if(p >= p_end) error; cb = parse(p); if(cb <= 0) error;
  p += cb; }\<close> that reads the inputs and outputs of a transaction and the transactions of a block.
\<close>

fun parse_n :: "(bytes \<Rightarrow> ('a \<times> nat) res) \<Rightarrow> nat \<Rightarrow> bytes \<Rightarrow> ('a list \<times> nat) res" where
  "parse_n f 0 m = Inr ([], 0)"
| "parse_n f (Suc k) m =
     (if m = [] then Inl Reject
      else andThen (f m) (\<lambda>(x, n).
        if n = 0 then Inl Reject
        else andThen (parse_n f k (drop n m)) (\<lambda>(xs, n'). Inr (x # xs, n + n'))))"

text \<open>A parser that never claims more than the buffer it was given.\<close>

locale bounded_parser =
  fixes parse :: "bytes \<Rightarrow> ('a \<times> nat) res"
  assumes parse_bound: "parse m = Inr (x, n) \<Longrightarrow> 0 < n \<and> n \<le> length m"
begin

lemma parse_n_bound:
  "parse_n parse k m = Inr (xs, n) \<Longrightarrow> n \<le> length m \<and> length xs = k \<and> k \<le> n"
proof (induction k arbitrary: m xs n)
  case 0
  then show ?case by simp
next
  case (Suc k)
  from Suc.prems obtain x a ys b where
    1: "parse m = Inr (x, a)" "parse_n parse k (drop a m) = Inr (ys, b)" "xs = x # ys" "n = a + b"
    by (auto simp: andThen_Inr_iff split: if_splits)
  from 1(1) have "0 < a" "a \<le> length m" by (auto dest: parse_bound)
  with Suc.IH [OF 1(2)] 1 show ?case by auto
qed

end

text \<open>
  A parser with a printer: what is printed is read back, and nothing behind it is touched. A
  parser may limit the size of the buffer it accepts; a smaller buffer is then accepted too.
\<close>

locale wire_codec = bounded_parser parse
  for parse :: "bytes \<Rightarrow> ('a \<times> nat) res" +
  fixes ser :: "'a \<Rightarrow> bytes" and wf :: "'a \<Rightarrow> bool" and fits :: "nat \<Rightarrow> bool"
  assumes parse_ser:
      "wf x \<Longrightarrow> fits (length (ser x @ r)) \<Longrightarrow> parse (ser x @ r) = Inr (x, length (ser x))"
    and fits_le: "fits n \<Longrightarrow> k \<le> n \<Longrightarrow> fits k"
begin

lemma ser_nonempty: "wf x \<Longrightarrow> fits (length (ser x)) \<Longrightarrow> 0 < length (ser x)"
  using parse_ser [of x "[]"] by (auto dest: parse_bound)

lemma parse_n_ser:
  "list_all wf xs \<Longrightarrow> fits (length (concat (map ser xs) @ r)) \<Longrightarrow>
   parse_n parse (length xs) (concat (map ser xs) @ r) = Inr (xs, length (concat (map ser xs)))"
proof (induction xs)
  case Nil
  then show ?case by simp
next
  case (Cons x xs)
  then have x: "wf x" and f: "fits (length (ser x @ concat (map ser xs) @ r))" by simp_all
  have IH: "parse_n parse (length xs) (concat (map ser xs) @ r)
      = Inr (xs, length (concat (map ser xs)))"
    using Cons fits_le [OF f] by simp
  have "fits (length (ser x))" by (rule fits_le [OF f]) simp
  with x have ne: "ser x \<noteq> []" using ser_nonempty [of x] by simp
  have p: "parse (ser x @ concat (map ser xs) @ r) = Inr (x, length (ser x))"
    by (rule parse_ser [OF x f])
  show ?case using ne IH by (simp add: p)
qed

lemma ser_inj:
  assumes "wf x" "wf y" "ser x = ser y" "fits (length (ser x))"
  shows "x = y"
  using parse_ser [OF assms(1), of "[]"] parse_ser [OF assms(2), of "[]"] assms(3,4) by simp

lemma length_concat_ser:
  "list_all wf xs \<Longrightarrow> fits (length (concat (map ser xs))) \<Longrightarrow>
   length xs \<le> length (concat (map ser xs))"
proof (induction xs)
  case (Cons x xs)
  then have f: "fits (length (ser x @ concat (map ser xs)))" by simp
  have "0 < length (ser x)" using Cons fits_le [OF f] by (intro ser_nonempty) simp_all
  moreover have "length xs \<le> length (concat (map ser xs))" using Cons fits_le [OF f] by simp
  ultimately show ?case unfolding list.map concat.simps length_append list.size by linarith
qed simp

end

section \<open>Last-in first-out containers\<close>

text \<open>
  The contract the containers with a stack discipline share: as long as there is room, a push puts
  the item on top, and a pop takes off the top. The items are nullable pointers in the code, so an
  entry may be null; popping an empty container gives null and leaves it alone.
\<close>

locale lifo =
  fixes push :: "'s \<Rightarrow> 'a \<Rightarrow> 's" and pop :: "'s \<Rightarrow> 'a option \<times> 's"
    and items :: "'s \<Rightarrow> 'a option list" and room :: "'s \<Rightarrow> nat \<Rightarrow> bool"
  assumes push_items: "room s (Suc n) \<Longrightarrow> items (push s x) = Some x # items s"
    and push_room: "room s (Suc n) \<Longrightarrow> room (push s x) n"
    and pop_empty: "items s = [] \<Longrightarrow> pop s = (None, s)"
    and pop_items: "items s = y # ys \<Longrightarrow> fst (pop s) = y \<and> items (snd (pop s)) = ys"
begin

lemma pushes_items: "room s (length xs) \<Longrightarrow> items (foldl push s xs) = rev (map Some xs) @ items s"
proof (induction xs arbitrary: s)
  case (Cons x xs)
  from Cons.prems have "room s (Suc (length xs))" by simp
  note r = push_items [OF this, of x] push_room [OF this, of x]
  show ?case using Cons.IH [OF r(2)] r(1) by simp
qed simp

primrec pops :: "nat \<Rightarrow> 's \<Rightarrow> 'a option list \<times> 's" where
  "pops 0 s = ([], s)"
| "pops (Suc n) s = (let (y, s') = pop s; (ys, s'') = pops n s' in (y # ys, s''))"

lemma pops_items: "n \<le> length (items s) \<Longrightarrow> fst (pops n s) = take n (items s) \<and> items (snd (pops n s)) = drop n (items s)"
proof (induction n arbitrary: s)
  case (Suc n)
  then obtain y ys where y: "items s = y # ys" by (cases "items s") auto
  from pop_items [OF y] obtain s' where s': "pop s = (y, s')" "items s' = ys"
    by (cases "pop s") simp
  show ?case using Suc.IH [of s'] Suc.prems s' y by (simp add: split_beta Let_def)
qed simp

lemma pops_pushes:
  assumes "room s (length xs)"
  shows "fst (pops (length xs) (foldl push s xs)) = rev (map Some xs)
    \<and> items (snd (pops (length xs) (foldl push s xs))) = items s"
  using pops_items [of "length xs" "foldl push s xs"] pushes_items [OF assms] by simp

end

end
