(* ===== verification/Varint.thy ===== *)
theory Varint
  imports Prelude
begin

text \<open>
  The variable length integer and string of the wire format (\<open>src/satoshi-types.c\<close>:
  \<open>varint_*\<close>, \<open>varstr_*\<close>). A \<open>varint_t *\<close> or \<open>varstr_t *\<close> is the memory it
  points to, a byte list; a nullable one is an option. Sizes are 64-bit and wrap as \<open>size_t\<close>
  does. The constant \<open>varstr_empty\<close> is the one-byte string \<open>[0]\<close>.
\<close>

section \<open>Variable length integers\<close>

definition varint_calc_size :: "u64 \<Rightarrow> nat" where
  "varint_calc_size v =
     (if v < 0xFD then 1 else if v \<le> 0xFFFF then 3 else if v \<le> 0xFFFFFFFF then 5 else 9)"

definition varint_set_data :: "u64 \<Rightarrow> bytes" where
  "varint_set_data v =
     (if v < 0xFD then [ucast v]
      else if v \<le> 0xFFFF then 0xFD # enc16 (ucast v)
      else if v \<le> 0xFFFFFFFF then 0xFE # enc32 (ucast v)
      else 0xFF # enc64 v)"

text \<open>\<open>varint_new\<close> allocates exactly \<open>varint_calc_size\<close> bytes and writes into them.\<close>

definition varint_new :: "u64 \<Rightarrow> bytes res" where
  "varint_new v = mem_write (varint_set_data v) (replicate (varint_calc_size v) 0)"

definition varint_size :: "bytes \<Rightarrow> nat res" where
  "varint_size m =
     (case m of [] \<Rightarrow> Inl Undefined
      | c # _ \<Rightarrow> Inr (if c < 0xFD then 1 else if c = 0xFD then 3 else if c = 0xFE then 5 else 9))"

definition varint_set :: "bytes option \<Rightarrow> u64 \<Rightarrow> bytes res" where
  "varint_set p v =
     (case p of None \<Rightarrow> varint_new v | Some m \<Rightarrow> mem_write (varint_set_data v) m)"

definition varint_get :: "bytes \<Rightarrow> u64 res" where
  "varint_get m =
     (case m of [] \<Rightarrow> Inl Undefined
      | c # r \<Rightarrow>
          if c < 0xFD then Inr (ucast c)
          else if c = 0xFD then andThen (mem_read 2 r) (\<lambda>b. Inr (ucast (dec16 b)))
          else if c = 0xFE then andThen (mem_read 4 r) (\<lambda>b. Inr (ucast (dec32 b)))
          else andThen (mem_read 8 r) (\<lambda>b. Inr (dec64 b)))"

section \<open>Variable length strings\<close>

text \<open>
  \<open>varstr_new(data, length)\<close>: without data the string is filled with zeros; with data,
  \<open>length\<close> bytes are copied from it.
\<close>

definition varstr_new :: "bytes option \<Rightarrow> u64 \<Rightarrow> bytes res" where
  "varstr_new d len =
     (if \<not> len < of_nat (varint_calc_size len) + len then Inl Abort
      else case d of
        None \<Rightarrow> Inr (varint_set_data len @ replicate (unat len) 0)
      | Some m \<Rightarrow> andThen (mem_read (unat len) m) (\<lambda>b. Inr (varint_set_data len @ b)))"

definition varstr_size :: "bytes \<Rightarrow> u64 res" where
  "varstr_size m =
     andThen (varint_size m) (\<lambda>s. andThen (varint_get m) (\<lambda>l. Inr (of_nat s + l)))"

definition varstr_length :: "bytes \<Rightarrow> u64 res" where
  "varstr_length m = varint_get m"

definition varstr_getdata_ptr :: "bytes \<Rightarrow> bytes res" where
  "varstr_getdata_ptr m = andThen (varint_size m) (\<lambda>s. Inr (drop s m))"

definition varstr_clone :: "bytes \<Rightarrow> bytes res" where
  "varstr_clone m =
     andThen (varstr_size m) (\<lambda>s. if sint s \<le> 0 then Inl Abort else mem_read (unat s) m)"

definition varstr_resize :: "bytes option \<Rightarrow> u64 \<Rightarrow> bytes res" where
  "varstr_resize p new_len =
     (case p of
        None \<Rightarrow> varstr_new None new_len
      | Some m \<Rightarrow>
          andThen (varstr_length m) (\<lambda>old_len.
            if old_len = new_len then Inr m
            else andThen (varstr_new None new_len) (\<lambda>new_str.
              let len = (if old_len < new_len then old_len else new_len)
              in if len = 0 then Inr new_str
                 else andThen (varstr_getdata_ptr m) (\<lambda>old_data.
                   andThen (varint_size new_str) (\<lambda>s.
                     andThen (mem_read (unat len) old_data) (\<lambda>b.
                       andThen (mem_write b (drop s new_str)) (\<lambda>w.
                         Inr (take s new_str @ w))))))))"

text \<open>The constant \<open>varstr_empty\<close>, which the code knows by its address, is given as \<open>None\<close>, like the null pointer.\<close>

definition varstr_set :: "bytes option \<Rightarrow> bytes option \<Rightarrow> u64 \<Rightarrow> bytes res" where
  "varstr_set p d len =
     (case p of
        None \<Rightarrow> varstr_new d len
      | Some m \<Rightarrow>
          andThen (varint_set (Some m) len) (\<lambda>m1.
            andThen (varint_size m1) (\<lambda>s.
              case d of
                None \<Rightarrow> Inr m1
              | Some src \<Rightarrow>
                  andThen (mem_read (unat len) src) (\<lambda>b.
                    andThen (mem_write b (drop s m1)) (\<lambda>w. Inr (take s m1 @ w))))))"

text \<open>
  \<open>varstr_get(vstr, p_data, buf_size)\<close> with a destination: the bytes copied out. A null
  \<open>*p_data\<close> (here a \<open>buf_size\<close> of \<open>None\<close>) copies everything.
\<close>

definition varstr_get :: "bytes \<Rightarrow> u64 option \<Rightarrow> bytes res" where
  "varstr_get m buf_size =
     andThen (varint_get m) (\<lambda>data_len.
       if sint data_len \<le> 0 then Inr []
       else let n = (case buf_size of
                       None \<Rightarrow> data_len
                     | Some b \<Rightarrow> if b = 0 \<or> data_len < b then data_len else b)
            in andThen (varstr_getdata_ptr m) (\<lambda>src. mem_read (unat n) src))"

text \<open>A well-formed string in memory: its length prefix and exactly that many bytes.\<close>

definition mk_varstr :: "bytes \<Rightarrow> bytes" where
  "mk_varstr d = varint_set_data (of_nat (length d)) @ d"

definition wf_varstr :: "bytes \<Rightarrow> bool" where
  "wf_varstr m \<longleftrightarrow> (\<exists>d. length d < 2 ^ 62 \<and> m = mk_varstr d)"

section \<open>Properties of the integers\<close>

lemma varint_calc_size_cases:
  "varint_calc_size v = 1 \<or> varint_calc_size v = 3 \<or> varint_calc_size v = 5 \<or> varint_calc_size v = 9"
  by (simp add: varint_calc_size_def)

lemma varint_calc_size_bounds: "0 < varint_calc_size v" "varint_calc_size v \<le> 9"
  using varint_calc_size_cases [of v] by auto

lemma length_varint_set_data [simp]: "length (varint_set_data v) = varint_calc_size v"
  by (simp add: varint_set_data_def varint_calc_size_def)

lemma varint_new_eq: "varint_new v = Inr (varint_set_data v)"
  by (simp add: varint_new_def mem_write_def)

lemma ucast_small:
  fixes v :: u64
  shows "v < 0xFD \<Longrightarrow> ucast (ucast v :: byte) = v"
    and "v \<le> 0xFFFF \<Longrightarrow> ucast (ucast v :: u16) = v"
    and "v \<le> 0xFFFFFFFF \<Longrightarrow> ucast (ucast v :: u32) = v"
  by (simp_all add: word_unat_eq_iff word_less_nat_alt word_le_nat_alt unsigned_ucast_eq
      unsigned_take_bit_eq take_bit_nat_eq_self)

lemma ucast_byte_lt: "(v :: u64) < 0xFD \<Longrightarrow> (ucast v :: byte) < 0xFD"
  by (simp add: word_less_nat_alt unsigned_ucast_eq take_bit_nat_eq_self)

lemma varint_size_set_data [simp]: "varint_size (varint_set_data v @ r) = Inr (varint_calc_size v)"
  using ucast_byte_lt [of v] by (simp add: varint_size_def varint_set_data_def varint_calc_size_def)

lemma varint_get_set_data [simp]: "varint_get (varint_set_data v @ r) = Inr v"
  using ucast_byte_lt [of v]
  by (simp add: varint_get_def varint_set_data_def ucast_small)

text \<open>The same over an empty rest.\<close>

lemma varint_set_data_alone [simp]:
  "varint_size (varint_set_data v) = Inr (varint_calc_size v)"
  "varint_get (varint_set_data v) = Inr v"
  using varint_size_set_data [of v "[]"] varint_get_set_data [of v "[]"] by simp_all

section \<open>Properties of the strings\<close>

lemma unat_of_length:
  assumes "n < 2 ^ 62"
  shows "unat (of_nat n :: u64) = n"
proof -
  have "n < 2 ^ 64" using assms by (rule less_trans) simp
  then show ?thesis by (simp add: unat_of_nat)
qed

lemma length_mk_varstr:
  "length (mk_varstr d) = varint_calc_size (of_nat (length d)) + length d"
  by (simp add: mk_varstr_def)

lemma mk_varstr_scan [simp]:
  "varint_size (mk_varstr d @ r) = Inr (varint_calc_size (of_nat (length d)))"
  "varint_get (mk_varstr d @ r) = Inr (of_nat (length d))"
  "varstr_getdata_ptr (mk_varstr d @ r) = Inr (d @ r)"
  by (simp_all add: mk_varstr_def varstr_getdata_ptr_def)

lemma mk_varstr_scan_nil [simp]:
  "varint_size (mk_varstr d) = Inr (varint_calc_size (of_nat (length d)))"
  "varint_get (mk_varstr d) = Inr (of_nat (length d))"
  "varstr_getdata_ptr (mk_varstr d) = Inr d"
  using mk_varstr_scan [of d "[]"] by simp_all

lemma varstr_size_mk [simp]: "varstr_size (mk_varstr d @ r) = Inr (of_nat (length (mk_varstr d)))"
  by (simp add: varstr_size_def length_mk_varstr)

lemma length_mk_varstr_less: "length d < 2 ^ 62 \<Longrightarrow> length (mk_varstr d) < 2 ^ 63"
  using varint_calc_size_bounds [of "of_nat (length d)"] by (simp add: length_mk_varstr)

lemma unat_length_mk_varstr:
  assumes "length d < 2 ^ 62"
  shows "unat (of_nat (length (mk_varstr d)) :: u64) = length (mk_varstr d)"
  using length_mk_varstr_less [OF assms] by (simp add: unat_of_nat)

lemma sint_u64_of_nat:
  assumes "n < 2 ^ 63"
  shows "sint (of_nat n :: u64) = int n"
proof -
  have "take_bit 64 n = n" using assms by (intro take_bit_nat_eq_self) simp
  then show ?thesis using assms by (simp add: signed_of_nat signed_take_bit_int_eq_self)
qed

lemma varstr_clone_mk:
  assumes "length d < 2 ^ 62"
  shows "varstr_clone (mk_varstr d @ r) = Inr (mk_varstr d)"
proof -
  have "0 < length (mk_varstr d)"
    using varint_calc_size_bounds [of "of_nat (length d)"] by (simp add: length_mk_varstr)
  then have "mk_varstr d \<noteq> []" by simp
  then show ?thesis
    using length_mk_varstr_less [OF assms] unat_length_mk_varstr [OF assms]
    by (simp add: varstr_clone_def sint_u64_of_nat)
qed

lemma varstr_new_guard:
  assumes "n < 2 ^ 62"
  shows "(of_nat n :: u64) < of_nat (varint_calc_size (of_nat n)) + of_nat n"
proof -
  let ?k = "varint_calc_size (of_nat n)"
  have k: "0 < ?k" "?k \<le> 9" by (rule varint_calc_size_bounds)+
  have "unat (of_nat (?k + n) :: u64) = ?k + n"
    using k assms by (simp only: unat_of_nat) simp
  then show ?thesis
    using k unat_of_length [OF assms] by (simp add: word_less_nat_alt)
qed

lemma varstr_new_some:
  "length d < 2 ^ 62 \<Longrightarrow> varstr_new (Some (d @ r)) (of_nat (length d)) = Inr (mk_varstr d)"
  using varstr_new_guard [of "length d"]
  by (simp add: varstr_new_def unat_of_length mk_varstr_def)

lemma varstr_new_none:
  "n < 2 ^ 62 \<Longrightarrow> varstr_new None (of_nat n) = Inr (mk_varstr (replicate n 0))"
  using varstr_new_guard [of n]
  by (simp add: varstr_new_def unat_of_length mk_varstr_def)

lemma of_nat_u64_eq_iff: "m < 2 ^ 62 \<Longrightarrow> n < 2 ^ 62 \<Longrightarrow> (of_nat m :: u64) = of_nat n \<longleftrightarrow> m = n"
  by (metis unat_of_length)

lemma of_nat_u64_less_iff: "m < 2 ^ 62 \<Longrightarrow> n < 2 ^ 62 \<Longrightarrow> (of_nat m :: u64) < of_nat n \<longleftrightarrow> m < n"
  by (simp add: word_less_nat_alt unat_of_length)

section \<open>What callers rely on\<close>

text \<open>A variable length integer created for any 64-bit value occupies exactly the size
  computed for it, and whatever follows it in memory, its size and its value are read back.\<close>

theorem varint_roundtrip:
  "\<exists>m. varint_new v = Inr m \<and> length m = varint_calc_size v
     \<and> varint_size (m @ r) = Inr (varint_calc_size v) \<and> varint_get (m @ r) = Inr v"
  by (simp add: varint_new_eq)

text \<open>A string made of some bytes has the size of its buffer, gives back its length and its
  bytes, and its clone is the same buffer, also when other data follows it in memory.\<close>

theorem varstr_roundtrip:
  assumes "length d < 2 ^ 62"
  shows "\<exists>m. varstr_new (Some d) (of_nat (length d)) = Inr m
     \<and> length m = varint_calc_size (of_nat (length d)) + length d
     \<and> varstr_size (m @ r) = Inr (of_nat (length m))
     \<and> varstr_length (m @ r) = Inr (of_nat (length d))
     \<and> varstr_get (m @ r) None = Inr d
     \<and> varstr_clone (m @ r) = Inr m"
proof (intro exI conjI)
  show "varstr_new (Some d) (of_nat (length d)) = Inr (mk_varstr d)"
    using varstr_new_some [OF assms, of "[]"] by simp
  have "length d < 2 ^ 63" using assms by simp
  then show "varstr_get (mk_varstr d @ r) None = Inr d"
    by (auto simp: varstr_get_def sint_u64_of_nat unat_of_length [OF assms])
qed (simp_all add: length_mk_varstr varstr_length_def varstr_clone_mk [OF assms]
      flip: length_mk_varstr)

theorem varstr_roundtrip_witness:
  "\<exists>m. varstr_new (Some [7, 8]) (of_nat (length [7 :: byte, 8])) = Inr m
     \<and> varstr_get (m @ [9]) None = Inr [7, 8]"
  using varstr_roundtrip [of "[7, 8]" "[9]"] by fastforce

text \<open>Resizing a string keeps the bytes that fit in the new length and fills the rest with
  zeros; the length prefix is rewritten, whatever its width becomes.\<close>

theorem varstr_resize_spec:
  assumes "length d < 2 ^ 62" "n < 2 ^ 62"
  shows "varstr_resize (Some (mk_varstr d)) (of_nat n)
     = Inr (mk_varstr (take n d @ replicate (n - length d) 0))"
proof (cases "n = length d")
  case True
  then show ?thesis by (simp add: varstr_resize_def varstr_length_def)
next
  case False
  define z where "z = replicate n (0 :: byte)"
  define l where "l = min (length d) n"
  have new: "varstr_new None (of_nat n) = Inr (mk_varstr z)"
    unfolding z_def by (rule varstr_new_none [OF assms(2)])
  have len: "(if (of_nat (length d) :: u64) < of_nat n then of_nat (length d) else of_nat n)
      = (of_nat l :: u64)"
    using assms by (simp add: of_nat_u64_less_iff l_def)
  have l: "l < 2 ^ 62" using assms by (simp add: l_def)
  have tk: "take l d @ drop l z = take n d @ replicate (n - length d) 0"
    by (simp add: l_def z_def min_def)
  have pre: "take (varint_calc_size (of_nat n)) (mk_varstr z) = varint_set_data (of_nat n)"
    "drop (varint_calc_size (of_nat n)) (mk_varstr z) = z"
    by (simp_all add: mk_varstr_def z_def)
  have out: "mk_varstr (take l d @ drop l z) = varint_set_data (of_nat n) @ take l d @ drop l z"
    by (simp add: mk_varstr_def tk) (use False in \<open>simp add: z_def l_def min_def\<close>)
  have zout: "mk_varstr z = varint_set_data (of_nat n) @ z" by (simp add: mk_varstr_def z_def)
  have eq: "(of_nat l :: u64) = 0 \<longleftrightarrow> l = 0" using of_nat_u64_eq_iff [OF l, of 0] by simp
  have lens: "l \<le> length d" "l \<le> length z" by (simp_all add: l_def z_def)
  have zlen: "length z = n" by (simp add: z_def)
  show ?thesis
    using False assms lens
    by (auto simp: varstr_resize_def varstr_length_def new len Let_def eq of_nat_u64_eq_iff zlen
        unat_of_length [OF l] mem_read_def mem_write_def tk [symmetric] out pre min_absorb2
        length_mk_varstr zout)
qed

theorem varstr_resize_witness:
  "varstr_resize (Some (mk_varstr [1, 2, 3])) 2 = Inr (mk_varstr [1, 2])"
  using varstr_resize_spec [of "[1, 2, 3]" 2] by simp

end
