(* ===== verification/Hashing.thy ===== *)
theory Hashing
  imports Prelude
begin

text \<open>
  The hash functions the library calls. Their code is not part of the repository, so they are a
  parameter: the streaming SHA-256 interface (\<open>sha256_init\<close>, \<open>sha256_update\<close>,
  \<open>sha256_final\<close> over a context of any type), the RIPEMD-160 one, and the one-shot
  \<open>sha256_hash\<close> and \<open>ripemd160_hash\<close>. The compositions \<open>hash256\<close> and
  \<open>hash160\<close> are the repository's (\<open>utils/utils.c\<close>). The locale \<open>hash_provider\<close>
  names what the library relies on: absorbing a message in pieces gives the hash of the whole
  message, and digests have their documented sizes. It is interpreted on the contexts that record
  the bytes absorbed so far, over any two hash functions.
\<close>

record ('c, 'd) hash_ops =
  sha256_init :: "'c"
  sha256_update :: "'c \<Rightarrow> bytes \<Rightarrow> 'c"
  sha256_final :: "'c \<Rightarrow> bytes"
  ripemd160_init :: "'d"
  ripemd160_update :: "'d \<Rightarrow> bytes \<Rightarrow> 'd"
  ripemd160_final :: "'d \<Rightarrow> bytes"
  sha256_hash :: "bytes \<Rightarrow> bytes"
  ripemd160_hash :: "bytes \<Rightarrow> bytes"

definition hash256 :: "('c, 'd) hash_ops \<Rightarrow> bytes \<Rightarrow> bytes" where
  "hash256 P data = (let temp_hash = sha256_hash P data in sha256_hash P (take 32 temp_hash))"

definition hash160 :: "('c, 'd) hash_ops \<Rightarrow> bytes \<Rightarrow> bytes" where
  "hash160 P data = (let temp_hash = sha256_hash P data in ripemd160_hash P (take 32 temp_hash))"

text \<open>A context after absorbing a sequence of blocks, and the idiom of the code that hashes twice
  with one context: finalise into a buffer, start again, absorb the 32 bytes, finalise.\<close>

definition sha_absorb :: "('c, 'd) hash_ops \<Rightarrow> bytes list \<Rightarrow> 'c" where
  "sha_absorb P bs = foldl (sha256_update P) (sha256_init P) bs"

definition sha_final2 :: "('c, 'd) hash_ops \<Rightarrow> 'c \<Rightarrow> bytes" where
  "sha_final2 P c = sha256_final P (sha256_update P (sha256_init P) (take 32 (sha256_final P c)))"

locale hash_provider =
  fixes P :: "('c, 'd) hash_ops" and sha :: "bytes \<Rightarrow> bytes" and ripemd :: "bytes \<Rightarrow> bytes"
  assumes sha_stream: "sha256_final P (foldl (sha256_update P) (sha256_init P) bs) = sha (concat bs)"
    and ripemd_stream:
      "ripemd160_final P (foldl (ripemd160_update P) (ripemd160_init P) bs) = ripemd (concat bs)"
    and sha_length: "length (sha m) = 32"
    and ripemd_length: "length (ripemd m) = 20"
    and sha_once: "sha256_hash P m = sha m"
    and ripemd_once: "ripemd160_hash P m = ripemd m"
begin

lemma hash256_twice: "hash256 P m = sha (sha m)"
  by (simp add: hash256_def Let_def sha_once sha_length)

lemma hash160_twice: "hash160 P m = ripemd (sha m)"
  by (simp add: hash160_def Let_def sha_once ripemd_once sha_length)

lemma sha_absorb_final: "sha256_final P (sha_absorb P bs) = sha (concat bs)"
  by (simp add: sha_absorb_def sha_stream)

lemma sha_absorb_final2: "sha_final2 P (sha_absorb P bs) = sha (sha (concat bs))"
  using sha_stream [of "[sha (concat bs)]"]
  by (simp add: sha_final2_def sha_absorb_final sha_length)

lemma sha_one: "sha256_final P (sha256_update P (sha256_init P) m) = sha m"
  using sha_stream [of "[m]"] by simp

lemma ripemd_one: "ripemd160_final P (ripemd160_update P (ripemd160_init P) m) = ripemd m"
  using ripemd_stream [of "[m]"] by simp

lemma hash256_length: "length (hash256 P m) = 32"
  by (simp add: hash256_twice sha_length)

end

lemma sha_absorb_snoc: "sha256_update P (sha_absorb P bs) b = sha_absorb P (bs @ [b])"
  by (simp add: sha_absorb_def)

lemma sha_absorb_nil: "sha_absorb P [] = sha256_init P"
  by (simp add: sha_absorb_def)

text \<open>Contexts that remember what they absorbed, over any hash functions cut or padded to the
  digest sizes.\<close>

definition fit :: "nat \<Rightarrow> (bytes \<Rightarrow> bytes) \<Rightarrow> bytes \<Rightarrow> bytes" where
  "fit n h m = take n (h m @ replicate n 0)"

definition recording_ops :: "(bytes \<Rightarrow> bytes) \<Rightarrow> (bytes \<Rightarrow> bytes) \<Rightarrow> (bytes, bytes) hash_ops" where
  "recording_ops h g =
     \<lparr>sha256_init = [], sha256_update = (@), sha256_final = fit 32 h,
      ripemd160_init = [], ripemd160_update = (@), ripemd160_final = fit 20 g,
      sha256_hash = fit 32 h, ripemd160_hash = fit 20 g\<rparr>"

lemma length_fit [simp]: "length (fit n h m) = n"
  by (simp add: fit_def)

lemma foldl_append_concat: "foldl (@) a bs = a @ concat bs"
  by (induction bs arbitrary: a) simp_all

interpretation recording: hash_provider "recording_ops h g" "fit 32 h" "fit 20 g" for h g
  by unfold_locales (simp_all add: recording_ops_def foldl_append_concat)

end
