(* ===== verification/Encodings.thy ===== *)
theory Encodings
  imports Prelude
begin

unbundle bit_operations_syntax

text \<open>
  Text encodings: hexadecimal (\<open>utils/utils.c\<close>), base-58 (\<open>src/base58.c\<close>) and base-64
  with its URL variant (\<open>utils/base64.c\<close>). Characters are their byte values; the digit tables
  are the ones of the code. A \<open>char\<close> is signed, so the decoders that index their table with
  \<open>(int)c\<close> leave it for characters from 0x80 on; base-64 reads unsigned characters.
\<close>

definition ascii :: "string \<Rightarrow> bytes" where
  "ascii s = map of_char s"

section \<open>Hexadecimal\<close>

definition s_hex_digits :: bytes where
  "s_hex_digits = concat (map ascii
    [''000102030405060708090a0b0c0d0e0f'',
     ''101112131415161718191a1b1c1d1e1f'',
     ''202122232425262728292a2b2c2d2e2f'',
     ''303132333435363738393a3b3c3d3e3f'',
     ''404142434445464748494a4b4c4d4e4f'',
     ''505152535455565758595a5b5c5d5e5f'',
     ''606162636465666768696a6b6c6d6e6f'',
     ''707172737475767778797a7b7c7d7e7f'',
     ''808182838485868788898a8b8c8d8e8f'',
     ''909192939495969798999a9b9c9d9e9f'',
     ''a0a1a2a3a4a5a6a7a8a9aaabacadaeaf'',
     ''b0b1b2b3b4b5b6b7b8b9babbbcbdbebf'',
     ''c0c1c2c3c4c5c6c7c8c9cacbcccdcecf'',
     ''d0d1d2d3d4d5d6d7d8d9dadbdcdddedf'',
     ''e0e1e2e3e4e5e6e7e8e9eaebecedeeef'',
     ''f0f1f2f3f4f5f6f7f8f9fafbfcfdfeff''])"

definition s_hex_table :: "byte list" where
  "s_hex_table =
    [255, 255, 255, 255, 255, 255, 255, 255, 255, 255, 255, 255, 255, 255, 255, 255,
     255, 255, 255, 255, 255, 255, 255, 255, 255, 255, 255, 255, 255, 255, 255, 255,
     255, 255, 255, 255, 255, 255, 255, 255, 255, 255, 255, 255, 255, 255, 255, 255,
     0, 1, 2, 3, 4, 5, 6, 7, 8, 9, 255, 255, 255, 255, 255, 255,
     255, 10, 11, 12, 13, 14, 15, 255, 255, 255, 255, 255, 255, 255, 255, 255,
     255, 255, 255, 255, 255, 255, 255, 255, 255, 255, 255, 255, 255, 255, 255, 255,
     255, 10, 11, 12, 13, 14, 15, 255, 255, 255, 255, 255, 255, 255, 255, 255,
     255, 255, 255, 255, 255, 255, 255, 255, 255, 255, 255, 255, 255, 255, 255, 255,
     255, 255, 255, 255, 255, 255, 255, 255, 255, 255, 255, 255, 255, 255, 255, 255,
     255, 255, 255, 255, 255, 255, 255, 255, 255, 255, 255, 255, 255, 255, 255, 255,
     255, 255, 255, 255, 255, 255, 255, 255, 255, 255, 255, 255, 255, 255, 255, 255,
     255, 255, 255, 255, 255, 255, 255, 255, 255, 255, 255, 255, 255, 255, 255, 255,
     255, 255, 255, 255, 255, 255, 255, 255, 255, 255, 255, 255, 255, 255, 255, 255,
     255, 255, 255, 255, 255, 255, 255, 255, 255, 255, 255, 255, 255, 255, 255, 255,
     255, 255, 255, 255, 255, 255, 255, 255, 255, 255, 255, 255, 255, 255, 255, 255,
     255, 255, 255, 255, 255, 255, 255, 255, 255, 255, 255, 255, 255, 255, 255, 255]"

text \<open>\<open>bin2hex\<close> with a destination, the text without its terminator (which is written only when
  the routine allocates). \<open>hex2bin\<close> on the text up to its length.\<close>

definition bin2hex :: "bytes \<Rightarrow> bytes" where
  "bin2hex data = concat (map (\<lambda>b. take 2 (drop (2 * unat b) s_hex_digits)) data)"

fun hex2bin_loop :: "bytes \<Rightarrow> bytes res" where
  "hex2bin_loop (h # l # r) =
     (if 0x80 \<le> h \<or> 0x80 \<le> l then Inl Undefined
      else let hi = s_hex_table ! unat h; lo = s_hex_table ! unat l
           in if 0x0F < hi \<or> 0x0F < lo then Inl Reject
              else andThen (hex2bin_loop r) (\<lambda>d. Inr ((push_bit 4 hi OR lo) # d)))"
| "hex2bin_loop [] = Inr []"
| "hex2bin_loop [h] = Inl Reject"

definition hex2bin :: "bytes \<Rightarrow> bytes res" where
  "hex2bin hex =
     (if hex = [] then Inr []
      else if length hex mod 2 \<noteq> 0 then Inl Reject
      else hex2bin_loop hex)"

definition hex_char :: "nat \<Rightarrow> byte" where
  "hex_char k = ascii ''0123456789abcdef'' ! k"

lemma list_all_upt: "list_all Q [0..<n] \<Longrightarrow> k < n \<Longrightarrow> Q k"
  by (simp add: list_all_iff)

lemma list_all_zip_upt:
  "list_all Q (zip [0..<n] xs) \<Longrightarrow> length xs = n \<Longrightarrow> k < n \<Longrightarrow> Q (k, xs ! k)"
  by (simp add: list_all_length nth_zip)

lemma hex_char_table:
  assumes "k < 16"
  shows "\<not> 0x80 \<le> hex_char k \<and> s_hex_table ! unat (hex_char k) = word_of_nat k"
proof -
  have "list_all (\<lambda>k. \<not> 0x80 \<le> hex_char k \<and> s_hex_table ! unat (hex_char k) = word_of_nat k) [0..<16]"
    by code_simp
  with assms show ?thesis by (simp add: list_all_iff)
qed
lemma take_drop_pairs:
  "k < length xs \<Longrightarrow> (\<And>x. length (f x) = 2) \<Longrightarrow> take 2 (drop (2 * k) (concat (map f xs))) = f (xs ! k)"
proof (induction xs arbitrary: k)
  case (Cons x xs)
  then show ?case by (cases k) simp_all
qed simp

lemma hex_nibbles:
  fixes b :: byte
  shows "push_bit 4 (word_of_nat (unat b div 16)) OR word_of_nat (unat b mod 16) = b"
proof -
  have "unat b div 16 < 256" using unat_byte_lt [of b] by linarith
  then have "(word_of_nat (unat b div 16) :: byte) = drop_bit 4 b"
    by (simp add: drop_bit_eq_div word_unat_eq_iff unat_of_nat unat_div_distrib)
  moreover have "unat b mod 16 < 256" by (rule less_trans [of _ 16]) simp_all
  then have "(word_of_nat (unat b mod 16) :: byte) = take_bit 4 b"
    by (simp add: take_bit_eq_mod word_unat_eq_iff unat_of_nat unat_mod_distrib)
  moreover have "push_bit 4 (drop_bit 4 b) OR take_bit 4 b = b"
    by (rule bit_eqI) (auto simp: bit_simps)
  ultimately show ?thesis by simp
qed

lemma hex2bin_loop_bin2hex:
  assumes D: "\<And>b. take 2 (drop (2 * unat (b :: byte)) s_hex_digits)
      = [hex_char (unat b div 16), hex_char (unat b mod 16)]"
  shows "hex2bin_loop (bin2hex d) = Inr d"
proof (induction d)
  case Nil
  then show ?case by (simp add: bin2hex_def)
next
  case (Cons b d)
  have k: "unat b div 16 < 16" using unat_byte_lt [of b] by linarith
  have k': "unat b mod 16 < 16" by simp
  have lt: "(word_of_nat j :: byte) \<le> 0x0F" if "j < 16" for j
    using that by (simp add: word_le_nat_alt unat_of_nat)
  show ?case
    using Cons hex_char_table [OF k] hex_char_table [OF k'] lt [OF k] lt [OF k']
    by (simp add: bin2hex_def D Let_def hex_nibbles not_less)
qed

lemma s_hex_digits_pairs:
  "s_hex_digits = concat (map (\<lambda>n. [hex_char (n div 16), hex_char (n mod 16)]) [0..<256])"
  by code_simp

lemma s_hex_digits_pair:
  "take 2 (drop (2 * unat (b :: byte)) s_hex_digits)
    = [hex_char (unat b div 16), hex_char (unat b mod 16)]"
  using take_drop_pairs [of "unat b" "[0..<256]" "\<lambda>n. [hex_char (n div 16), hex_char (n mod 16)]"]
  by (simp add: s_hex_digits_pairs del: upt_conv_Cons upt_rec_numeral)

lemma hex_codec: "length (bin2hex d) = 2 * length d \<and> hex2bin (bin2hex d) = Inr d"
proof -
  have len: "length (bin2hex d) = 2 * length d"
    by (induction d) (simp_all add: bin2hex_def s_hex_digits_pair)
  have "hex2bin_loop (bin2hex d) = Inr d" by (rule hex2bin_loop_bin2hex [OF s_hex_digits_pair])
  then show ?thesis using len by (auto simp: hex2bin_def)
qed

text \<open>The hexadecimal text of any bytes has two characters per byte and reads back as the same
  bytes.\<close>

theorem hex_roundtrip:
  "length (bin2hex d) = 2 * length d \<and> hex2bin (bin2hex d) = Inr d"
  by (rule hex_codec)

section \<open>Base 64\<close>

definition b64_chars :: bytes where
  "b64_chars = ascii ''ABCDEFGHIJKLMNOPQRSTUVWXYZabcdefghijklmnopqrstuvwxyz0123456789+/''"

definition b64_url_chars :: bytes where
  "b64_url_chars = ascii ''ABCDEFGHIJKLMNOPQRSTUVWXYZabcdefghijklmnopqrstuvwxyz0123456789-_''"

definition b64_digits :: "byte list" where
  "b64_digits =
    [255, 255, 255, 255, 255, 255, 255, 255, 255, 255, 255, 255, 255, 255, 255, 255,
     255, 255, 255, 255, 255, 255, 255, 255, 255, 255, 255, 255, 255, 255, 255, 255,
     255, 255, 255, 255, 255, 255, 255, 255, 255, 255, 255, 62, 255, 255, 255, 63,
     52, 53, 54, 55, 56, 57, 58, 59, 60, 61, 255, 255, 255, 255, 255, 255,
     255, 0, 1, 2, 3, 4, 5, 6, 7, 8, 9, 10, 11, 12, 13, 14,
     15, 16, 17, 18, 19, 20, 21, 22, 23, 24, 25, 255, 255, 255, 255, 255,
     255, 26, 27, 28, 29, 30, 31, 32, 33, 34, 35, 36, 37, 38, 39, 40,
     41, 42, 43, 44, 45, 46, 47, 48, 49, 50, 51, 255, 255, 255, 255, 255,
     255, 255, 255, 255, 255, 255, 255, 255, 255, 255, 255, 255, 255, 255, 255, 255,
     255, 255, 255, 255, 255, 255, 255, 255, 255, 255, 255, 255, 255, 255, 255, 255,
     255, 255, 255, 255, 255, 255, 255, 255, 255, 255, 255, 255, 255, 255, 255, 255,
     255, 255, 255, 255, 255, 255, 255, 255, 255, 255, 255, 255, 255, 255, 255, 255,
     255, 255, 255, 255, 255, 255, 255, 255, 255, 255, 255, 255, 255, 255, 255, 255,
     255, 255, 255, 255, 255, 255, 255, 255, 255, 255, 255, 255, 255, 255, 255, 255,
     255, 255, 255, 255, 255, 255, 255, 255, 255, 255, 255, 255, 255, 255, 255, 255,
     255, 255, 255, 255, 255, 255, 255, 255, 255, 255, 255, 255, 255, 255, 255, 255]"

definition b64_url_digits :: "byte list" where
  "b64_url_digits =
    [255, 255, 255, 255, 255, 255, 255, 255, 255, 255, 255, 255, 255, 255, 255, 255,
     255, 255, 255, 255, 255, 255, 255, 255, 255, 255, 255, 255, 255, 255, 255, 255,
     255, 255, 255, 255, 255, 255, 255, 255, 255, 255, 255, 255, 255, 62, 255, 255,
     52, 53, 54, 55, 56, 57, 58, 59, 60, 61, 255, 255, 255, 255, 255, 255,
     255, 0, 1, 2, 3, 4, 5, 6, 7, 8, 9, 10, 11, 12, 13, 14,
     15, 16, 17, 18, 19, 20, 21, 22, 23, 24, 25, 255, 255, 255, 255, 255,
     255, 26, 27, 28, 29, 30, 31, 32, 33, 34, 35, 36, 37, 38, 39, 40,
     41, 42, 43, 44, 45, 46, 47, 48, 49, 50, 51, 255, 255, 255, 255, 63,
     255, 255, 255, 255, 255, 255, 255, 255, 255, 255, 255, 255, 255, 255, 255, 255,
     255, 255, 255, 255, 255, 255, 255, 255, 255, 255, 255, 255, 255, 255, 255, 255,
     255, 255, 255, 255, 255, 255, 255, 255, 255, 255, 255, 255, 255, 255, 255, 255,
     255, 255, 255, 255, 255, 255, 255, 255, 255, 255, 255, 255, 255, 255, 255, 255,
     255, 255, 255, 255, 255, 255, 255, 255, 255, 255, 255, 255, 255, 255, 255, 255,
     255, 255, 255, 255, 255, 255, 255, 255, 255, 255, 255, 255, 255, 255, 255, 255,
     255, 255, 255, 255, 255, 255, 255, 255, 255, 255, 255, 255, 255, 255, 255, 255,
     255, 255, 255, 255, 255, 255, 255, 255, 255, 255, 255, 255, 255, 255, 255, 255]"


fun b64_encode_loop :: "bytes \<Rightarrow> bytes \<Rightarrow> bytes" where
  "b64_encode_loop tbl (a # b # c # r) =
     [tbl ! unat (drop_bit 2 a AND 0x3F),
      tbl ! unat (push_bit 4 (a AND 0x03) OR (drop_bit 4 b AND 0x0F)),
      tbl ! unat (push_bit 2 (b AND 0x0F) OR (drop_bit 6 c AND 0x03)),
      tbl ! unat (c AND 0x3F)] @ b64_encode_loop tbl r"
| "b64_encode_loop tbl [a, b] =
     [tbl ! unat (drop_bit 2 a AND 0x3F),
      tbl ! unat (push_bit 4 (a AND 0x03) OR (drop_bit 4 b AND 0x0F)),
      tbl ! unat (push_bit 2 (b AND 0x0F) OR 0), of_char (CHR ''='')]"
| "b64_encode_loop tbl [a] =
     [tbl ! unat (drop_bit 2 a AND 0x3F), tbl ! unat (push_bit 4 (a AND 0x03) OR 0),
      of_char (CHR ''=''), of_char (CHR ''='')]"
| "b64_encode_loop tbl [] = []"

definition b64_join :: "byte \<Rightarrow> byte \<Rightarrow> byte \<Rightarrow> byte \<Rightarrow> bytes res" where
  "b64_join c0 c1 c2 c3 =
     (if c0 = 0xff \<or> c1 = 0xff \<or> c2 = 0xff \<or> c3 = 0xff then Inl Reject
      else Inr [push_bit 2 c0 OR (drop_bit 4 c1 AND 0x3),
                push_bit 4 (c1 AND 0x0F) OR (drop_bit 2 c2 AND 0x0F),
                push_bit 6 (c2 AND 0x03) OR (c3 AND 0x3F)])"

lemma join_bits:
  fixes a b c :: byte
  shows "push_bit 2 (drop_bit 2 a AND 0x3F) OR (drop_bit 4 (push_bit 4 (a AND 0x03) OR (drop_bit 4 b AND 0x0F)) AND 0x3) = a"
   and "push_bit 4 ((push_bit 4 (a AND 0x03) OR (drop_bit 4 b AND 0x0F)) AND 0x0F) OR
     (drop_bit 2 (push_bit 2 (b AND 0x0F) OR (drop_bit 6 c AND 0x03)) AND 0x0F) = b"
   and "push_bit 6 ((push_bit 2 (b AND 0x0F) OR (drop_bit 6 c AND 0x03)) AND 0x03) OR ((c AND 0x3F) AND 0x3F) = c"
proof -
  have m: "(0x3F :: byte) = mask 6" "(0x03 :: byte) = mask 2" "(0x3 :: byte) = mask 2" "(0x0F :: byte) = mask 4"
    by (simp_all add: mask_eq_exp_minus_1)
  have S: "2 \<le> n \<Longrightarrow> Suc (Suc (n - 2)) = n" for n :: nat by linarith
  show "push_bit 2 (drop_bit 2 a AND 0x3F) OR (drop_bit 4 (push_bit 4 (a AND 0x03) OR (drop_bit 4 b AND 0x0F)) AND 0x3) = a"
    unfolding m by (rule bit_eqI, rename_tac n, case_tac "n < 2") (auto simp: bit_simps S)
  show "push_bit 4 ((push_bit 4 (a AND 0x03) OR (drop_bit 4 b AND 0x0F)) AND 0x0F) OR
     (drop_bit 2 (push_bit 2 (b AND 0x0F) OR (drop_bit 6 c AND 0x03)) AND 0x0F) = b"
    unfolding m by (rule bit_eqI, rename_tac n, case_tac "n < 4") (auto simp: bit_simps)
  show "push_bit 6 ((push_bit 2 (b AND 0x0F) OR (drop_bit 6 c AND 0x03)) AND 0x03) OR ((c AND 0x3F) AND 0x3F) = c"
    unfolding m by (rule bit_eqI, rename_tac n, case_tac "n < 6") (auto simp: bit_simps)
qed


definition base64_encode :: "bytes \<Rightarrow> bytes" where
  "base64_encode data = (if data = [] then [] else b64_encode_loop b64_chars data)"

definition base64_urlencode :: "bytes \<Rightarrow> bytes" where
  "base64_urlencode data = (if data = [] then [] else b64_encode_loop b64_url_chars data)"

fun b64_decode_loop :: "byte list \<Rightarrow> nat \<Rightarrow> bytes \<Rightarrow> bytes res" where
  "b64_decode_loop tbl 0 s = Inr []"
| "b64_decode_loop tbl (Suc count) s =
     andThen (b64_join (tbl ! unat (s ! 0)) (tbl ! unat (s ! 1)) (tbl ! unat (s ! 2)) (tbl ! unat (s ! 3)))
       (\<lambda>g. andThen (b64_decode_loop tbl count (drop 4 s)) (\<lambda>r. Inr (g @ r)))"

definition b64_decode :: "byte list \<Rightarrow> bytes \<Rightarrow> bytes res" where
  "b64_decode tbl s =
     (let n = length s; eq = of_char (CHR ''='') :: byte
      in if n = 0 then Inr []
         else if n mod 4 \<noteq> 0 then Inl Reject
         else let count = (if s ! (n - 1) = eq then n div 4 - 1 else n div 4)
         in andThen (b64_decode_loop tbl count s) (\<lambda>r.
           if s ! (n - 1) = eq
           then let q = drop (4 * count) s
                in andThen
                  (if s ! (n - 2) = eq
                   then b64_join (tbl ! unat (q ! 0)) (tbl ! unat (q ! 1)) 0 0
                   else b64_join (tbl ! unat (q ! 0)) (tbl ! unat (q ! 1)) (tbl ! unat (q ! 2)) 0)
                  (\<lambda>g. Inr (r @ g))
           else Inr r))"

definition base64_decode :: "bytes \<Rightarrow> bytes res" where
  "base64_decode s = b64_decode b64_digits s"

definition base64_urldecode :: "bytes \<Rightarrow> bytes res" where
  "base64_urldecode s = b64_decode b64_url_digits s"

definition b64_pad :: "nat \<Rightarrow> nat" where
  "b64_pad n = (3 - n mod 3) mod 3"

lemma sextet:
  fixes a b c :: byte
  shows "drop_bit 2 a AND 0x3F < 64" "push_bit 4 (a AND 0x03) OR (drop_bit 4 b AND 0x0F) < 64"
    "push_bit 2 (b AND 0x0F) OR (drop_bit 6 c AND 0x03) < 64" "c AND 0x3F < 64"
proof -
  have m: "(0x3F :: byte) = mask 6" "(0x03 :: byte) = mask 2" "(0x0F :: byte) = mask 4"
    by (simp_all add: mask_eq_exp_minus_1)
  have lt: "w < 64" if "take_bit 6 w = w" for w :: byte
  proof -
    have "unat w = take_bit 6 (unat w)"
      using arg_cong [OF that, of unat] by (simp add: unsigned_take_bit_eq)
    then have "unat w < 2 ^ 6" by (metis take_bit_nat_less_exp)
    then show ?thesis by (simp add: word_less_nat_alt)
  qed
  show "drop_bit 2 a AND 0x3F < 64" "push_bit 4 (a AND 0x03) OR (drop_bit 4 b AND 0x0F) < 64"
    "push_bit 2 (b AND 0x0F) OR (drop_bit 6 c AND 0x03) < 64" "c AND 0x3F < 64"
    unfolding m by (rule lt, rule bit_eqI, auto simp: bit_simps)+
qed

lemmas triple_induct = b64_encode_loop.induct [where P = "\<lambda>_. Q" for Q, case_names Three Two One Nil]

locale b64_alphabet =
  fixes chars :: bytes and digits :: "byte list" and good :: "byte \<Rightarrow> bool"
  assumes inverse: "k < 64 \<Longrightarrow> good (chars ! k) \<Longrightarrow> digits ! unat (chars ! k) = word_of_nat k"
    and good_zero: "good (chars ! 0)"
    and no_pad: "k < 64 \<Longrightarrow> chars ! k \<noteq> of_char (CHR ''='')"
begin

lemma lookup:
  assumes "w < 64"
  shows "good (chars ! unat w) \<Longrightarrow> digits ! unat (chars ! unat (w :: byte)) = w"
    and "chars ! unat w \<noteq> of_char (CHR ''='')"
    and "good (chars ! unat w) \<Longrightarrow> digits ! unat (chars ! unat (w :: byte)) \<noteq> 0xff"
proof -
  have k: "unat w < 64" using assms by (simp add: word_less_nat_alt)
  show "good (chars ! unat w) \<Longrightarrow> digits ! unat (chars ! unat (w :: byte)) = w"
    and "chars ! unat w \<noteq> of_char (CHR ''='')"
    using inverse [OF k] no_pad [OF k] by auto
  then show "good (chars ! unat w) \<Longrightarrow> digits ! unat (chars ! unat (w :: byte)) \<noteq> 0xff"
    using assms by auto
qed

lemma group3:
  assumes "list_all good [chars ! unat (drop_bit 2 a AND 0x3F),
      chars ! unat (push_bit 4 (a AND 0x03) OR (drop_bit 4 b AND 0x0F)),
      chars ! unat (push_bit 2 (b AND 0x0F) OR (drop_bit 6 c AND 0x03)), chars ! unat (c AND 0x3F)]"
  shows "b64_join (digits ! unat (chars ! unat (drop_bit 2 a AND 0x3F)))
    (digits ! unat (chars ! unat (push_bit 4 (a AND 0x03) OR (drop_bit 4 b AND 0x0F))))
    (digits ! unat (chars ! unat (push_bit 2 (b AND 0x0F) OR (drop_bit 6 c AND 0x03))))
    (digits ! unat (chars ! unat (c AND 0x3F))) = Inr [a, b, c]"
proof -
  from assms have g: "good (chars ! unat (drop_bit 2 a AND 0x3F))"
      "good (chars ! unat (push_bit 4 (a AND 0x03) OR (drop_bit 4 b AND 0x0F)))"
      "good (chars ! unat (push_bit 2 (b AND 0x0F) OR (drop_bit 6 c AND 0x03)))"
      "good (chars ! unat (c AND 0x3F))"
    by (simp_all only: list.pred_inject simp_thms)
  show ?thesis
    using lookup(1,3) [OF sextet(1) g(1)] lookup(1,3) [OF sextet(2) g(2)]
      lookup(1,3) [OF sextet(3) g(3)] lookup(1,3) [OF sextet(4) g(4)]
    unfolding b64_join_def by (simp only: join_bits if_False simp_thms)
qed

lemma encode_append:
  "length d mod 3 = 0 \<Longrightarrow> b64_encode_loop chars (d @ t) = b64_encode_loop chars d @ b64_encode_loop chars t"
  by (induction d rule: triple_induct) auto

lemma encode_length: "length d mod 3 = 0 \<Longrightarrow> length (b64_encode_loop chars d) = 4 * (length d div 3)"
  by (induction d rule: triple_induct) auto

lemma decode_body:
  "length d mod 3 = 0 \<Longrightarrow> list_all good (b64_encode_loop chars d) \<Longrightarrow>
   b64_decode_loop digits (length d div 3) (b64_encode_loop chars d @ r) = Inr d"
proof (induction d rule: triple_induct)
  case (Three tbl a b c d)
  have g: "b64_join (digits ! unat (chars ! unat (drop_bit 2 a AND 0x3F)))
    (digits ! unat (chars ! unat (push_bit 4 (a AND 0x03) OR (drop_bit 4 b AND 0x0F))))
    (digits ! unat (chars ! unat (push_bit 2 (b AND 0x0F) OR (drop_bit 6 c AND 0x03))))
    (digits ! unat (chars ! unat (c AND 0x3F))) = Inr [a, b, c]"
    by (rule group3) (use Three.prems(2) in simp)
  from Three have "b64_decode_loop digits (length d div 3) (b64_encode_loop chars d @ r) = Inr d"
    and "length (a # b # c # d) div 3 = Suc (length d div 3)"
    by auto
  then show ?case using g by simp
qed simp_all

lemma encode_last:
  "length d mod 3 = 0 \<Longrightarrow> d \<noteq> [] \<Longrightarrow> last (b64_encode_loop chars d) \<noteq> of_char (CHR ''='')"
proof (induction d rule: triple_induct)
  case (Three tbl a b c d)
  then show ?case using lookup(2) [OF sextet(4) [of c]] by (cases "d = []") auto
qed simp_all

lemma encode_no_pad:
  "length d mod 3 = 0 \<Longrightarrow> list_all (\<lambda>c. c \<noteq> of_char (CHR ''='')) (b64_encode_loop chars d)"
proof (induction d rule: triple_induct)
  case (Three tbl a b c d)
  then show ?case
    using lookup(2) [OF sextet(1) [of a]] lookup(2) [OF sextet(2) [of a b]]
      lookup(2) [OF sextet(3) [of b c]] lookup(2) [OF sextet(4) [of c]] by simp
qed simp_all

lemma decode_encode:
  assumes "d \<noteq> []" "list_all (\<lambda>c. good c \<or> c = of_char (CHR ''='')) (b64_encode_loop chars d)"
  shows "b64_decode digits (b64_encode_loop chars d) = Inr (d @ replicate (b64_pad (length d)) 0)"
proof -
  define q where "q = length d div 3"
  define u where "u = take (3 * q) d"
  define t where "t = drop (3 * q) d"
  have d: "d = u @ t" by (simp add: u_def t_def)
  have lu: "length u = 3 * q" by (simp add: u_def q_def)
  have u3: "length u mod 3 = 0" "length u div 3 = q" by (simp_all add: lu)
  let ?e = "of_char (CHR ''='') :: byte"
  let ?E = "b64_encode_loop chars"
  have E: "?E d = ?E u @ ?E t" by (simp only: d encode_append [OF u3(1)])
  have lE: "length (?E u) = 4 * q" using encode_length [OF u3(1)] u3(2) by simp
  have B: "b64_decode_loop digits q (?E u @ r) = Inr u" for r
  proof -
    have "list_all good (?E u)"
      using assms(2) encode_no_pad [OF u3(1)] unfolding E by (auto simp: list_all_iff)
    then show ?thesis using decode_body [OF u3(1)] u3(2) by simp
  qed
  have lt: "length t < 3" by (simp add: t_def q_def minus_mod_eq_mult_div [symmetric])
  consider "t = []" | a where "t = [a]" | a b where "t = [a, b]"
    using lt by (cases t; cases "tl t"; cases "tl (tl t)") auto
  then show ?thesis
  proof cases
    case 1
    with assms(1) d have u: "u \<noteq> []" by simp
    with lu have q: "0 < q" by (cases q) auto
    have "?E u ! (4 * q - 1) = last (?E u)" using lE q by (subst last_conv_nth) auto
    with encode_last [OF u3(1) u] have "?E u ! (4 * q - 1) \<noteq> ?e" by simp
    with 1 B [of "[]"] lE q lu show ?thesis
      by (simp add: b64_decode_def d Let_def b64_pad_def)
  next
    case (2 a)
    have n: "length (?E d) = 4 * q + 4" unfolding E by (simp add: 2 lE)
    have m: "length d = 3 * q + 1" by (simp add: d 2 lu)
    have last: "?E d ! (4 * q + 4 - 1) = ?e" "?E d ! (4 * q + 4 - 2) = ?e"
      unfolding E by (simp_all add: 2 nth_append lE)
    have g: "b64_join (digits ! unat (?E t ! 0)) (digits ! unat (?E t ! 1)) 0 0 = Inr [a, 0, 0]"
      using group3 [of a 0 0] lookup(1) [of 0] assms(2) good_zero lookup(2) [OF sextet(1) [of a]]
        lookup(2) [OF sextet(2) [of a 0]] unfolding E by (simp add: 2)
    have dr: "drop (4 * q) (?E d) = ?E t" unfolding E by (simp add: lE)
    have p: "b64_pad (length d) = 2" by (simp add: b64_pad_def m)
    show ?thesis
      using n last g dr p B [of "?E t", folded E]
      by (simp add: b64_decode_def Let_def 2) (simp add: d 2 numeral_2_eq_2)
  next
    case (3 a b)
    have n: "length (?E d) = 4 * q + 4" unfolding E by (simp add: 3 lE)
    have m: "length d = 3 * q + 2" by (simp add: d 3 lu)
    have last: "?E d ! (4 * q + 4 - 1) = ?e" unfolding E by (simp add: 3 nth_append lE)
    have "?E d ! (4 * q + 4 - 2) = chars ! unat (push_bit 2 (b AND 0x0F))"
      unfolding E by (simp add: 3 nth_append lE)
    moreover have "push_bit 2 (b AND 0x0F) < 64" using sextet(3) [of b 0] by simp
    ultimately have last2: "?E d ! (4 * q + 4 - 2) \<noteq> ?e" using lookup(2) by simp
    have g: "b64_join (digits ! unat (?E t ! 0)) (digits ! unat (?E t ! 1)) (digits ! unat (?E t ! 2)) 0
        = Inr [a, b, 0]"
      using group3 [of a b 0] lookup(1) [of 0] assms(2) good_zero lookup(2) [OF sextet(1) [of a]]
        lookup(2) [OF sextet(2) [of a b]] lookup(2) [OF sextet(3) [of b 0]]
      unfolding E by (simp add: 3)
    have dr: "drop (4 * q) (?E d) = ?E t" unfolding E by (simp add: lE)
    have "(2 + 3 * q) mod 3 = 2" by (simp only: mod_mult_self2) simp
    then have "length d mod 3 = 2" by (simp only: m add.commute)
    then have p: "b64_pad (length d) = 1" by (simp add: b64_pad_def)
    show ?thesis
      using n last last2 g dr p B [of "?E t", folded E]
      by (simp add: b64_decode_def Let_def 3) (simp add: d 3)
  qed
qed

end

interpretation std: b64_alphabet b64_chars b64_digits "\<lambda>_. True"
proof
  have "list_all (\<lambda>k. b64_digits ! unat (b64_chars ! k) = word_of_nat k) [0..<64]" by code_simp
  then show "k < 64 \<Longrightarrow> b64_digits ! unat (b64_chars ! k) = word_of_nat k" for k
    by (simp add: list_all_iff)
  have "list_all (\<lambda>k. b64_chars ! k \<noteq> of_char (CHR ''='')) [0..<64]" by code_simp
  then show "k < 64 \<Longrightarrow> b64_chars ! k \<noteq> of_char (CHR ''='')" for k by (simp add: list_all_iff)
qed simp

text \<open>The URL digit table holds the value 63 at 0x7F, not at the underscore.\<close>

interpretation url: b64_alphabet b64_url_chars b64_url_digits "\<lambda>c. c \<noteq> of_char (CHR ''_'')"
proof
  have "list_all (\<lambda>k. b64_url_chars ! k \<noteq> of_char (CHR ''_'') \<longrightarrow>
      b64_url_digits ! unat (b64_url_chars ! k) = word_of_nat k) [0..<64]" by code_simp
  then show "k < 64 \<Longrightarrow> b64_url_chars ! k \<noteq> of_char (CHR ''_'') \<Longrightarrow>
      b64_url_digits ! unat (b64_url_chars ! k) = word_of_nat k" for k
    by (simp add: list_all_iff)
  have "list_all (\<lambda>k. b64_url_chars ! k \<noteq> of_char (CHR ''='')) [0..<64]" by code_simp
  then show "k < 64 \<Longrightarrow> b64_url_chars ! k \<noteq> of_char (CHR ''='')" for k by (simp add: list_all_iff)
  show "b64_url_chars ! 0 \<noteq> of_char (CHR ''_'')" by code_simp
qed

text \<open>Decoding what the base-64 encoder produced gives the data back, followed by one zero
  byte for each padding character: the decoder always delivers three bytes for the last group.\<close>

theorem base64_roundtrip:
  "base64_decode (base64_encode d) = Inr (d @ replicate (b64_pad (length d)) 0)"
proof (cases "d = []")
  case True
  then show ?thesis by (simp add: base64_decode_def base64_encode_def b64_decode_def b64_pad_def)
next
  case False
  then show ?thesis
    by (simp add: base64_decode_def base64_encode_def std.decode_encode list_all_iff)
qed

text \<open>The URL variant gives the data back in the same way when the encoded text has no
  underscore; an underscore at the end of a group makes the decoder reject its own encoder's text.\<close>

theorem base64_url_roundtrip:
  "(list_all (\<lambda>c. c \<noteq> of_char (CHR ''_'')) (base64_urlencode d) \<longrightarrow>
     base64_urldecode (base64_urlencode d) = Inr (d @ replicate (b64_pad (length d)) 0))
   \<and> (c AND 0x3F = 0x3F \<longrightarrow> base64_urldecode (base64_urlencode [a, b, c]) = Inl Reject)"
proof (intro conjI impI)
  assume ok: "list_all (\<lambda>c. c \<noteq> of_char (CHR ''_'')) (base64_urlencode d)"
  show "base64_urldecode (base64_urlencode d) = Inr (d @ replicate (b64_pad (length d)) 0)"
  proof (cases "d = []")
    case True
    then show ?thesis
      by (simp add: base64_urldecode_def base64_urlencode_def b64_decode_def b64_pad_def)
  next
    case False
    with ok show ?thesis
      by (simp add: base64_urldecode_def base64_urlencode_def url.decode_encode list_all_iff)
  qed
next
  assume c: "c AND 0x3F = 0x3F"
  have u: "b64_url_chars ! 63 = of_char (CHR ''_'')" "b64_url_digits ! 95 = 0xff" by code_simp+
  then show "base64_urldecode (base64_urlencode [a, b, c]) = Inl Reject"
    by (simp add: base64_urldecode_def base64_urlencode_def b64_decode_def c Let_def b64_join_def)
qed

theorem base64_url_roundtrip_witness:
  "base64_urldecode (base64_urlencode [1, 2]) = Inr [1, 2, 0]
   \<and> base64_urldecode (base64_urlencode [0xff, 0xff, 0xff]) = Inl Reject"
proof -
  have "list_all (\<lambda>c. c \<noteq> of_char (CHR ''_'')) (base64_urlencode [1, 2])" by code_simp
  then show ?thesis
    using base64_url_roundtrip [of "[1, 2]" "0xff" "0xff" "0xff"] by (simp add: b64_pad_def)
qed

section \<open>Base 58\<close>

definition s_b58_digits :: bytes where
  "s_b58_digits = ascii ''123456789ABCDEFGHJKLMNPQRSTUVWXYZabcdefghijkmnopqrstuvwxyz''"

definition s_b58_table :: "byte list" where
  "s_b58_table =
    [255, 255, 255, 255, 255, 255, 255, 255, 255, 255, 255, 255, 255, 255, 255, 255,
     255, 255, 255, 255, 255, 255, 255, 255, 255, 255, 255, 255, 255, 255, 255, 255,
     255, 255, 255, 255, 255, 255, 255, 255, 255, 255, 255, 255, 255, 255, 255, 255,
     255, 0, 1, 2, 3, 4, 5, 6, 7, 8, 255, 255, 255, 255, 255, 255,
     255, 9, 10, 11, 12, 13, 14, 15, 16, 255, 17, 18, 19, 20, 21, 255,
     22, 23, 24, 25, 26, 27, 28, 29, 30, 31, 32, 255, 255, 255, 255, 255,
     255, 33, 34, 35, 36, 37, 38, 39, 40, 41, 42, 43, 255, 44, 45, 46,
     47, 48, 49, 50, 51, 52, 53, 54, 55, 56, 57, 255, 255, 255, 255, 255,
     255, 255, 255, 255, 255, 255, 255, 255, 255, 255, 255, 255, 255, 255, 255, 255,
     255, 255, 255, 255, 255, 255, 255, 255, 255, 255, 255, 255, 255, 255, 255, 255,
     255, 255, 255, 255, 255, 255, 255, 255, 255, 255, 255, 255, 255, 255, 255, 255,
     255, 255, 255, 255, 255, 255, 255, 255, 255, 255, 255, 255, 255, 255, 255, 255,
     255, 255, 255, 255, 255, 255, 255, 255, 255, 255, 255, 255, 255, 255, 255, 255,
     255, 255, 255, 255, 255, 255, 255, 255, 255, 255, 255, 255, 255, 255, 255, 255,
     255, 255, 255, 255, 255, 255, 255, 255, 255, 255, 255, 255, 255, 255, 255, 255,
     255, 255, 255, 255, 255, 255, 255, 255, 255, 255, 255, 255, 255, 255, 255, 255]"

text \<open>Little-endian digit lists hold the digits computed so far (\<open>cb_dst\<close> of them); the rest of
  the zeroed buffer is not kept, and running over its end is undefined.\<close>

fun b58_mul :: "nat list \<Rightarrow> nat \<Rightarrow> nat list \<times> nat" where
  "b58_mul [] carry = ([], carry)"
| "b58_mul (d # ds) carry =
     (let carry = carry + d * 256; (ds', out) = b58_mul ds (carry div 58)
      in (carry mod 58 # ds', out))"

fun b58_extend :: "nat \<Rightarrow> nat list" where
  "b58_extend carry = (if carry = 0 then [] else carry mod 58 # b58_extend (carry div 58))"

declare b58_extend.simps [simp del]

definition b58_step :: "nat list \<Rightarrow> nat \<Rightarrow> nat list" where
  "b58_step dst c = (let (ds, carry) = b58_mul dst c in ds @ b58_extend carry)"

definition base58_encode :: "bytes \<Rightarrow> bytes res" where
  "base58_encode data =
     (if data = [] then Inr []
      else let dst_size = length data * 138 div 100 + 1;
               zeros = length (takeWhile (\<lambda>b. b = 0) data);
               src = drop zeros data;
               dst = foldl b58_step [0] (map unat src)
      in if dst_size < length dst then Inl Undefined
         else Inr (replicate zeros (of_char (CHR ''1'')) @ map (\<lambda>x. s_b58_digits ! x) (rev dst)))"

fun b256_mul :: "nat list \<Rightarrow> nat \<Rightarrow> nat list \<times> nat" where
  "b256_mul [] carry = ([], carry)"
| "b256_mul (d # ds) carry =
     (let carry = carry + d * 58; (ds', out) = b256_mul ds (carry div 256)
      in (carry mod 256 # ds', out))"

fun b256_extend :: "nat \<Rightarrow> nat list" where
  "b256_extend carry = (if carry = 0 then [] else carry mod 256 # b256_extend (carry div 256))"

declare b256_extend.simps [simp del]

definition b256_step :: "nat list \<Rightarrow> nat \<Rightarrow> nat list" where
  "b256_step dst c = (let (ds, carry) = b256_mul dst c in ds @ b256_extend carry)"

fun base58_decode_loop :: "nat \<Rightarrow> nat list \<Rightarrow> bytes \<Rightarrow> nat list res" where
  "base58_decode_loop cb dst [] = Inr dst"
| "base58_decode_loop cb dst (c # r) =
     (if 0x80 \<le> c then Inl Undefined
      else let v = s_b58_table ! unat c
      in if v = 0xFF then Inl Reject
         else let dst' = b256_step dst (unat v)
              in if length dst < length dst' \<and> cb + 1 < length dst' then Inl Abort
                 else base58_decode_loop cb dst' r)"

definition base58_decode :: "bytes \<Rightarrow> bytes res" where
  "base58_decode b58 =
     (if b58 = [] then Inr []
      else let offset = length (takeWhile (\<lambda>c. c = of_char (CHR ''1'')) b58);
               src = drop offset b58
      in andThen (base58_decode_loop (length src) [0] src) (\<lambda>dst.
           Inr (replicate offset 0 @ map word_of_nat (rev dst))))"


section \<open>Positional numbers\<close>

primrec rval :: "nat \<Rightarrow> nat list \<Rightarrow> nat" where
  "rval B [] = 0"
| "rval B (d # ds) = d + B * rval B ds"

definition canonical :: "nat \<Rightarrow> nat list \<Rightarrow> bool" where
  "canonical B ds \<longleftrightarrow> ds \<noteq> [] \<and> list_all (\<lambda>d. d < B) ds \<and> (last ds = 0 \<longrightarrow> length ds = 1)"

lemma rval_append: "rval B (a @ b) = rval B a + B ^ length a * rval B b"
  by (induction a) (simp_all add: algebra_simps)

lemma rval_less: "list_all (\<lambda>d. d < B) ds \<Longrightarrow> rval B ds < B ^ length ds"
proof (induction ds)
  case (Cons d ds)
  then have "Suc (rval B ds) \<le> B ^ length ds" and d: "d < B" by simp_all
  then have "B * Suc (rval B ds) \<le> B * B ^ length ds" by (intro mult_le_mono2)
  with d have "d + B * rval B ds < B * B ^ length ds" unfolding mult_Suc_right by linarith
  then show ?case by simp
qed simp

lemma rval_inj:
  "length a = length b \<Longrightarrow> list_all (\<lambda>d. d < B) a \<Longrightarrow> list_all (\<lambda>d. d < B) b \<Longrightarrow>
   rval B a = rval B b \<Longrightarrow> a = b"
proof (induction a b rule: list_induct2)
  case (Cons x xs y ys)
  have xy: "x < B" "y < B" and e: "x + B * rval B xs = y + B * rval B ys" using Cons.prems by simp_all
  have "(x + B * rval B xs) mod B = (y + B * rval B ys) mod B" using e by simp
  with xy have "x = y" by simp
  with e xy have "rval B xs = rval B ys" by simp
  with \<open>x = y\<close> Cons show ?case by simp
qed simp

lemma canonical_ge:
  assumes "canonical B ds" "rval B ds \<noteq> 0"
  shows "B ^ (length ds - 1) \<le> rval B ds"
proof -
  from assms(1) have ds: "ds = butlast ds @ [last ds]" by (simp add: canonical_def)
  have "last ds \<noteq> 0"
  proof
    assume z: "last ds = 0"
    with assms(1) have "length ds = 1" by (simp add: canonical_def)
    then obtain x where "ds = [x]" by (auto simp: length_Suc_conv)
    with z assms(2) show False by simp
  qed
  then have "B ^ (length ds - 1) \<le> B ^ length (butlast ds) * last ds" by simp
  also have "\<dots> \<le> rval B ds" by (subst (2) ds) (simp add: rval_append)
  finally show ?thesis .
qed

lemma canonical_zero:
  assumes "canonical B ds" "rval B ds = 0" "0 < B"
  shows "ds = [0]"
proof -
  from assms(1) have ds: "ds = butlast ds @ [last ds]" by (simp add: canonical_def)
  have "rval B ds = rval B (butlast ds) + B ^ length (butlast ds) * last ds"
    by (subst ds) (simp add: rval_append)
  with assms(2,3) have "last ds = 0" by simp
  with assms(1) have "length ds = 1" by (simp add: canonical_def)
  then obtain x where "ds = [x]" by (auto simp: length_Suc_conv)
  with assms(2) show ?thesis by simp
qed

lemma canonical_length:
  assumes "canonical B ds" "rval B ds < B ^ n" "1 < B"
  shows "length ds \<le> max 1 n"
proof (cases "rval B ds = 0")
  case True
  with canonical_zero [OF assms(1)] assms(3) show ?thesis by simp
next
  case False
  from canonical_ge [OF assms(1) False] assms(2) have "B ^ (length ds - 1) < B ^ n" by (rule le_less_trans)
  with assms(3) have "length ds - 1 < n" by (simp add: power_less_imp_less_exp)
  then show ?thesis by simp
qed

lemma canonical_unique:
  assumes "canonical B a" "canonical B b" "rval B a = rval B b" "1 < B"
  shows "a = b"
proof (cases "rval B a = 0")
  case True
  with assms canonical_zero show ?thesis by (metis less_trans zero_less_one)
next
  case False
  have d: "list_all (\<lambda>d. d < B) a" "list_all (\<lambda>d. d < B) b" and ne: "a \<noteq> []" "b \<noteq> []"
    using assms by (simp_all add: canonical_def)
  have "B ^ (length a - 1) < B ^ length b"
    using canonical_ge [OF assms(1) False] rval_less [OF d(2)] assms(3) by linarith
  then have 1: "length a - 1 < length b" using assms(4) by (rule power_less_imp_less_exp [rotated])
  have "rval B b \<noteq> 0" using False assms(3) by simp
  then have "B ^ (length b - 1) < B ^ length a"
    using canonical_ge [OF assms(2)] rval_less [OF d(1)] assms(3) by linarith
  then have 2: "length b - 1 < length a" using assms(4) by (rule power_less_imp_less_exp [rotated])
  from ne have "0 < length a" "0 < length b" by simp_all
  with 1 2 have "length a = length b" by linarith
  from rval_inj [OF this d assms(3)] show ?thesis .
qed


text \<open>A step of a conversion to base \<open>B\<close>: multiply by \<open>C\<close>, add a digit.\<close>

locale radix_step =
  fixes step :: "nat list \<Rightarrow> nat \<Rightarrow> nat list" and B C :: nat
  assumes base: "1 < B" "1 < C"
    and step_val: "rval B (step ds c) = C * rval B ds + c"
    and step_canonical: "canonical B ds \<Longrightarrow> canonical B (step ds c)"
begin

lemma fold_val: "rval B (foldl step ds cs) = foldl (\<lambda>v c. C * v + c) (rval B ds) cs"
  by (induction cs arbitrary: ds) (simp_all add: step_val)

lemma fold_canonical: "canonical B ds \<Longrightarrow> canonical B (foldl step ds cs)"
  by (induction cs arbitrary: ds) (simp_all add: step_canonical)

lemma start: "canonical B [0]"
  using base by (simp add: canonical_def)

end

lemma be_val_rev: "foldl (\<lambda>v c. C * v + c) 0 cs = rval C (rev cs)" for C :: nat
  by (induction cs rule: rev_induct) (simp_all add: add.commute)

lemma be_val_less:
  "list_all (\<lambda>d. d < C) cs \<Longrightarrow> foldl (\<lambda>v c. C * v + c) 0 cs < C ^ length cs" for C :: nat
  using rval_less [of C "rev cs"] by (simp add: be_val_rev list_all_iff)

text \<open>The multiplication loop of both directions, over any two bases.\<close>

fun radix_mul :: "nat \<Rightarrow> nat \<Rightarrow> nat list \<Rightarrow> nat \<Rightarrow> nat list \<times> nat" where
  "radix_mul B C [] carry = ([], carry)"
| "radix_mul B C (d # ds) carry =
     (case radix_mul B C ds ((carry + d * C) div B) of
        (ds', out) \<Rightarrow> ((carry + d * C) mod B # ds', out))"

lemma radix_mul_val:
  assumes "radix_mul B C ds c = (ds', out)"
  shows "rval B ds' + B ^ length ds * out = C * rval B ds + c" "length ds' = length ds"
    and "1 < B \<Longrightarrow> list_all (\<lambda>d. d < B) ds'"
proof -
  have "rval B ds' + B ^ length ds * out = C * rval B ds + c \<and> length ds' = length ds
      \<and> (1 < B \<longrightarrow> list_all (\<lambda>d. d < B) ds')"
    using assms
  proof (induction ds arbitrary: c ds' out)
    case (Cons d ds)
    obtain es o' where e: "radix_mul B C ds ((c + d * C) div B) = (es, o')" by fastforce
    note IH = Cons.IH [OF e]
    from Cons.prems e have r: "ds' = (c + d * C) mod B # es" "out = o'" by auto
    have "rval B ds' + B ^ length (d # ds) * out
        = (c + d * C) mod B + B * (rval B es + B ^ length ds * o')"
      by (simp add: r algebra_simps)
    also have "\<dots> = (c + d * C) mod B + B * (C * rval B ds + (c + d * C) div B)"
      using IH by simp
    also have "\<dots> = C * rval B (d # ds) + c"
      by (simp add: algebra_simps)
    finally show ?case using IH r by simp
  qed simp
  then show "rval B ds' + B ^ length ds * out = C * rval B ds + c" "length ds' = length ds"
    "1 < B \<Longrightarrow> list_all (\<lambda>d. d < B) ds'" by auto
qed

lemma b58_mul_radix: "b58_mul ds c = radix_mul 58 256 ds c"
  by (induction ds arbitrary: c) (simp_all add: Let_def)

lemma b256_mul_radix: "b256_mul ds c = radix_mul 256 58 ds c"
  by (induction ds arbitrary: c) (simp_all add: Let_def)

lemma b58_extend_props:
  "rval 58 (b58_extend c) = c \<and> list_all (\<lambda>d. d < 58) (b58_extend c)
   \<and> (c \<noteq> 0 \<longrightarrow> b58_extend c \<noteq> [] \<and> last (b58_extend c) \<noteq> 0)"
proof (induction c rule: b58_extend.induct)
  case (1 c)
  then show ?case by (cases "c = 0"; cases "c div 58 = 0") (simp_all add: b58_extend.simps [of c] b58_extend.simps [of 0] div_eq_0_iff)
qed

lemma b256_extend_props:
  "rval 256 (b256_extend c) = c \<and> list_all (\<lambda>d. d < 256) (b256_extend c)
   \<and> (c \<noteq> 0 \<longrightarrow> b256_extend c \<noteq> [] \<and> last (b256_extend c) \<noteq> 0)"
proof (induction c rule: b256_extend.induct)
  case (1 c)
  then show ?case by (cases "c = 0"; cases "c div 256 = 0") (simp_all add: b256_extend.simps [of c] b256_extend.simps [of 0] div_eq_0_iff)
qed

lemma radix_step_canonical:
  assumes "canonical B ds" "radix_mul B C ds c = (ds', out)" "1 < B" "1 < C"
    and e: "rval B ex = out" "list_all (\<lambda>d. d < B) ex" "out \<noteq> 0 \<longrightarrow> ex \<noteq> [] \<and> last ex \<noteq> 0" "out = 0 \<longrightarrow> ex = []"
  shows "canonical B (ds' @ ex)" "rval B (ds' @ ex) = C * rval B ds + c"
proof -
  note m = radix_mul_val [OF assms(2)]
  show val: "rval B (ds' @ ex) = C * rval B ds + c" using m e(1) by (simp add: rval_append)
  have ne: "ds' \<noteq> []" using m(2) assms(1) by (auto simp: canonical_def)
  show "canonical B (ds' @ ex)"
  proof (cases "out = 0")
    case False
    with e m(3) assms(3) ne show ?thesis by (auto simp: canonical_def list_all_iff)
  next
    case True
    with e have ex: "ex = []" by simp
    have "last ds' = 0 \<longrightarrow> length ds' = 1"
    proof (rule ccontr)
      assume "\<not> (last ds' = 0 \<longrightarrow> length ds' = 1)"
      with ne m(2) have z: "last ds' = 0" and l: "length ds \<noteq> 1" by auto
      have ds': "ds' = butlast ds' @ [0]" using ne z by (metis append_butlast_last_id)
      have "rval B ds' = rval B (butlast ds')" by (subst ds') (simp add: rval_append)
      also have "\<dots> < B ^ length (butlast ds')"
        using m(3) [OF assms(3)] by (intro rval_less) (auto simp: list_all_iff dest: in_set_butlastD)
      finally have "C * rval B ds + c < B ^ (length ds - 1)" using val ex m(2) by simp
      moreover have "rval B ds \<noteq> 0"
      proof
        assume "rval B ds = 0"
        then have "ds = [0]" using assms(3) by (intro canonical_zero [OF assms(1)]) simp_all
        with l show False by simp
      qed
      then have "B ^ (length ds - 1) \<le> rval B ds" by (rule canonical_ge [OF assms(1)])
      moreover have "rval B ds \<le> C * rval B ds" using assms(4) by simp
      ultimately show False by linarith
    qed
    with ex m(3) assms(3) ne show ?thesis by (simp add: canonical_def)
  qed
qed

interpretation to58: radix_step b58_step 58 256
proof
  fix ds c
  obtain ds' out where m: "radix_mul 58 256 ds c = (ds', out)" by fastforce
  have z: "out = 0 \<longrightarrow> b58_extend out = []" by (simp add: b58_extend.simps)
  have a: "b58_step ds c = ds' @ b58_extend out" by (simp add: b58_step_def b58_mul_radix m)
  show "canonical 58 ds \<Longrightarrow> canonical 58 (b58_step ds c)"
    unfolding a using b58_extend_props [of out] z by (intro radix_step_canonical(1) [OF _ m]) auto
  show "rval 58 (b58_step ds c) = 256 * rval 58 ds + c"
    unfolding a using radix_mul_val(1,2) [OF m] b58_extend_props [of out] by (simp add: rval_append)
qed simp_all

interpretation to256: radix_step b256_step 256 58
proof
  fix ds c
  obtain ds' out where m: "radix_mul 256 58 ds c = (ds', out)" by fastforce
  have z: "out = 0 \<longrightarrow> b256_extend out = []" by (simp add: b256_extend.simps)
  have a: "b256_step ds c = ds' @ b256_extend out" by (simp add: b256_step_def b256_mul_radix m)
  show "canonical 256 ds \<Longrightarrow> canonical 256 (b256_step ds c)"
    unfolding a using b256_extend_props [of out] z by (intro radix_step_canonical(1) [OF _ m]) auto
  show "rval 256 (b256_step ds c) = 58 * rval 256 ds + c"
    unfolding a using radix_mul_val(1,2) [OF m] b256_extend_props [of out] by (simp add: rval_append)
qed simp_all

lemma b58_char:
  assumes "k < 58"
  shows "\<not> 0x80 \<le> s_b58_digits ! k" "s_b58_table ! unat (s_b58_digits ! k) = word_of_nat k"
    "s_b58_digits ! k = of_char (CHR ''1'') \<longleftrightarrow> k = 0"
proof -
  have len: "length s_b58_digits = 58" by (simp add: s_b58_digits_def ascii_def)
  have "list_all (\<lambda>(k, c). \<not> 0x80 \<le> c \<and> s_b58_table ! unat c = word_of_nat k
      \<and> (c = of_char (CHR ''1'')) = (k = 0)) (zip [0..<58] s_b58_digits)" by code_simp
  from list_all_zip_upt [OF this len assms]
  show "\<not> 0x80 \<le> s_b58_digits ! k" "s_b58_table ! unat (s_b58_digits ! k) = word_of_nat k"
    "s_b58_digits ! k = of_char (CHR ''1'') \<longleftrightarrow> k = 0" by simp_all
qed

lemma decode_loop_digits:
  assumes "list_all (\<lambda>d. d < 58) cs" "canonical 256 ds" "rval 256 ds < 58 ^ j" "j + length cs \<le> cb"
  shows "base58_decode_loop cb ds (map (\<lambda>x. s_b58_digits ! x) cs) = Inr (foldl b256_step ds cs)"
  using assms
proof (induction cs arbitrary: ds j)
  case (Cons c cs)
  then have c: "c < 58" by simp
  have v: "unat (word_of_nat c :: byte) = c" "(word_of_nat c :: byte) \<noteq> 0xFF"
    using c by (simp_all add: unat_of_nat word_unat_eq_iff)
  have val: "rval 256 (b256_step ds c) < 58 ^ Suc j"
  proof -
    have "rval 256 (b256_step ds c) = 58 * rval 256 ds + c" by (rule to256.step_val)
    also have "\<dots> < 58 * Suc (rval 256 ds)" using c by simp
    also have "\<dots> \<le> 58 * 58 ^ j" using Cons.prems(3) by (intro mult_le_mono2) simp
    finally show ?thesis by simp
  qed
  have can: "canonical 256 (b256_step ds c)" by (rule to256.step_canonical [OF Cons.prems(2)])
  have "rval 256 (b256_step ds c) < 256 ^ Suc j"
    using val power_mono [of "58 :: nat" 256 "Suc j"] by simp
  then have "length (b256_step ds c) \<le> max 1 (Suc j)" by (intro canonical_length [OF can]) simp_all
  with Cons.prems(4) have len: "\<not> cb + 1 < length (b256_step ds c)" by simp
  show ?case
    using Cons.IH [OF _ can val] Cons.prems b58_char(1,2) [OF c] len v by (simp add: Let_def)
qed simp

lemma takeWhile_drop: "drop (length (takeWhile Q xs)) xs = dropWhile Q xs"
  by (rule dropWhile_eq_drop [symmetric])

text \<open>Room in the encoder's buffer: 138 base-58 digits hold 100 bytes.\<close>

lemma base58_room:
  assumes "canonical 58 ds" "rval 58 ds < 256 ^ n"
  shows "length ds \<le> n * 138 div 100 + 1"
proof (cases "rval 58 ds = 0")
  case True
  with canonical_zero [OF assms(1)] show ?thesis by simp
next
  case False
  have "58 ^ (length ds - 1) < (256 :: nat) ^ n"
    using canonical_ge [OF assms(1) False] assms(2) by (rule le_less_trans)
  then have "(58 ^ (length ds - 1)) ^ 100 < ((256 :: nat) ^ n) ^ 100"
    by (rule power_strict_mono) simp_all
  also have "((256 :: nat) ^ n) ^ 100 = (256 ^ 100) ^ n"
    by (simp only: power_mult [symmetric] mult.commute)
  also have "\<dots> \<le> (58 ^ 138) ^ n" by (rule power_mono) simp_all
  also have "\<dots> = 58 ^ (n * 138)" by (simp only: power_mult [symmetric] mult.commute)
  finally have "(58 :: nat) ^ ((length ds - 1) * 100) < 58 ^ (n * 138)"
    by (simp only: power_mult)
  then have "(length ds - 1) * 100 < n * 138" by (rule power_less_imp_less_exp [rotated]) simp
  then have "length ds - 1 \<le> n * 138 div 100" by (simp add: less_eq_div_iff_mult_less_eq)
  then show ?thesis by simp
qed


lemma takeWhile_replicate_append:
  "Q a \<Longrightarrow> \<not> Q x \<Longrightarrow> takeWhile Q (replicate z a @ x # xs) = replicate z a"
  by (induction z) simp_all

text \<open>Base-58 text of data with a non-zero byte: the encoder stays inside its buffer, uses at most
  one digit per leading zero and 138 digits per 100 bytes of the rest, and decoding the text gives
  the data back, leading zeros included.\<close>

theorem base58_roundtrip:
  assumes "\<exists>b\<in>set d. b \<noteq> 0"
  shows "\<exists>s. base58_encode d = Inr s \<and> base58_decode s = Inr d"
proof -
  define z where "z = length (takeWhile (\<lambda>b. b = 0) d)"
  define src where "src = dropWhile (\<lambda>b. b = 0) d"
  define ds where "ds = foldl b58_step [0] (map unat src)"
  have drop: "drop z d = src" by (simp add: z_def src_def takeWhile_drop)
  have d: "d = replicate z 0 @ src"
  proof -
    have "takeWhile (\<lambda>b. b = 0) d = replicate z 0"
      unfolding z_def by (rule replicate_eqI) (auto dest: set_takeWhileD)
    then show ?thesis using takeWhile_dropWhile_id [of "\<lambda>b. b = 0" d] by (simp add: src_def)
  qed
  have src: "src \<noteq> []" using assms by (auto simp: src_def)
  then have src: "src \<noteq> []" "hd src \<noteq> 0"
    using hd_dropWhile [of "\<lambda>b. b = 0" d] by (simp_all add: src_def)
  have can: "canonical 58 ds" unfolding ds_def by (rule to58.fold_canonical [OF to58.start])
  have val: "rval 58 ds = rval 256 (rev (map unat src))"
    by (simp add: ds_def to58.fold_val be_val_rev)
  have b256: "list_all (\<lambda>d. d < 256) (rev (map unat src))" by (simp add: list_all_iff)
  have csrc: "canonical 256 (rev (map unat src))"
    using src b256 by (cases src) (auto simp: canonical_def unsigned_eq_0_iff)
  have "length ds \<le> length src * 138 div 100 + 1"
    using rval_less [OF b256] by (intro base58_room [OF can]) (simp add: val)
  also have "\<dots> \<le> length d * 138 div 100 + 1" by (simp add: d div_le_mono)
  finally have room: "\<not> length d * 138 div 100 + 1 < length ds" by simp
  define s where "s = replicate z (of_char (CHR ''1'')) @ map (\<lambda>x. s_b58_digits ! x) (rev ds)"
  have enc: "base58_encode d = Inr s"
  proof -
    have "d \<noteq> []" using src(1) d by auto
    then show ?thesis
      unfolding base58_encode_def Let_def z_def [symmetric] drop ds_def [symmetric] s_def [symmetric]
      using room by (simp only: if_False)
  qed
  have nz: "rval 58 ds \<noteq> 0"
  proof
    assume "rval 58 ds = 0"
    then have "rev (map unat src) = [0]" using canonical_zero [OF csrc] val by simp
    then show False using src by (cases src) (simp_all add: unsigned_eq_0_iff)
  qed
  have last: "ds \<noteq> []" "last ds \<noteq> 0" and digits: "list_all (\<lambda>d. d < 58) ds"
  proof -
    show "ds \<noteq> []" "list_all (\<lambda>d. d < 58) ds" using can by (simp_all add: canonical_def)
    show "last ds \<noteq> 0" using can nz by (auto simp: canonical_def length_Suc_conv)
  qed
  then have first: "s_b58_digits ! last ds \<noteq> of_char (CHR ''1'')"
    using b58_char(3) [of "last ds"] by (simp add: list_all_iff)
  have rds: "rev ds = last ds # tl (rev ds)" using last(1) by (metis hd_rev list.collapse rev_is_Nil_conv)
  have tw: "takeWhile (\<lambda>c. c = of_char (CHR ''1'')) s = replicate z (of_char (CHR ''1''))"
  proof -
    have "s = replicate z (of_char (CHR ''1'')) @ s_b58_digits ! last ds # map (\<lambda>x. s_b58_digits ! x) (tl (rev ds))"
      unfolding s_def by (subst rds) simp
    then show ?thesis using first by (simp add: takeWhile_replicate_append)
  qed
  have rest: "drop z s = map (\<lambda>x. s_b58_digits ! x) (rev ds)" by (simp add: s_def)
  have loop: "base58_decode_loop (length (rev ds)) [0] (map (\<lambda>x. s_b58_digits ! x) (rev ds))
      = Inr (foldl b256_step [0] (rev ds))"
    by (rule decode_loop_digits [where j = 0]) (use digits to256.start in \<open>simp_all add: list_all_iff\<close>)
  have "foldl b256_step [0] (rev ds) = rev (map unat src)"
  proof (rule canonical_unique [of 256])
    show "rval 256 (foldl b256_step [0] (rev ds)) = rval 256 (rev (map unat src))"
      by (simp add: to256.fold_val be_val_rev val)
  qed (use csrc to256.fold_canonical [OF to256.start] in simp_all)
  then have "base58_decode s = Inr (replicate z 0 @ map word_of_nat (map unat src))"
  proof -
    assume f: "foldl b256_step [0] (rev ds) = rev (map unat src)"
    have "s \<noteq> []" using last(1) by (simp add: s_def)
    then show ?thesis
      unfolding base58_decode_def tw Let_def length_replicate rest length_map
      using loop f by simp
  qed
  with enc d show ?thesis by (simp add: comp_def)
qed

theorem base58_roundtrip_witness:
  "\<exists>s. base58_encode [0, 0, 1, 2] = Inr s \<and> base58_decode s = Inr [0, 0, 1, 2]"
  by (rule base58_roundtrip) simp

text \<open>For data of zeros only the round trip fails: the encoder adds a digit, the decoder a byte.\<close>

lemma base58_zeros:
  "base58_encode [0] = Inr (ascii ''11'')" "base58_decode (ascii ''11'') = Inr [0, 0, 0]"
  by code_simp+

end
