(* ===== verification/Crypto.thy ===== *)
theory Crypto
  imports Encodings
begin

text \<open>
  The wrapper around libsecp256k1 (\<open>src/crypto.c\<close>): keys and signatures, their import and
  export, signing and verifying. The curve library is not part of the repository; its calls are
  the record \<open>secp256k1_ops\<close>, and the locale \<open>secp256k1\<close> names what its header
  documents. The lemmas of the wrapper are proved inside it; it is interpreted on a small scheme over
  256-bit numbers that keeps those promises (and no secrets).
\<close>

section \<open>The curve library\<close>

text \<open>
  Parsers return nothing on malformed input. \<open>ec_pubkey_serialize\<close> and
  \<open>ecdsa_signature_serialize_der\<close> get the size of the destination first and return nothing
  when it is too small.
\<close>

record ('k, 's) secp256k1_ops =
  ec_pubkey_parse :: "bytes \<Rightarrow> 'k option"
  ec_pubkey_serialize :: "nat \<Rightarrow> 'k \<Rightarrow> bool \<Rightarrow> bytes option"
  ec_seckey_verify :: "bytes \<Rightarrow> bool"
  ec_pubkey_create :: "bytes \<Rightarrow> 'k option"
  ecdsa_signature_parse_der :: "bytes \<Rightarrow> 's option"
  ecdsa_signature_serialize_der :: "nat \<Rightarrow> 's \<Rightarrow> bytes option"
  ecdsa_sign :: "bytes \<Rightarrow> bytes \<Rightarrow> 's option"
  ecdsa_verify :: "'s \<Rightarrow> bytes \<Rightarrow> 'k \<Rightarrow> bool"

locale secp256k1 =
  fixes S :: "('k, 's) secp256k1_ops"
  assumes pubkey_compressed: "33 \<le> n \<Longrightarrow> \<exists>d. ec_pubkey_serialize S n k True = Some d
      \<and> length d = 33 \<and> ec_pubkey_parse S d = Some k"
    and pubkey_uncompressed: "65 \<le> n \<Longrightarrow> \<exists>d. ec_pubkey_serialize S n k False = Some d
      \<and> length d = 65 \<and> ec_pubkey_parse S d = Some k"
    and signature_der: "72 \<le> n \<Longrightarrow> \<exists>d. ecdsa_signature_serialize_der S n s = Some d
      \<and> 0 < length d \<and> length d \<le> 72 \<and> ecdsa_signature_parse_der S d = Some s"
    and seckey_pubkey: "ec_seckey_verify S key \<Longrightarrow> \<exists>k. ec_pubkey_create S key = Some k"
    and sign_valid: "ec_seckey_verify S key \<Longrightarrow> length msg = 32 \<Longrightarrow> \<exists>s. ecdsa_sign S msg key = Some s"
    and verify_signed: "ecdsa_sign S msg key = Some s \<Longrightarrow> ec_pubkey_create S key = Some k
      \<Longrightarrow> length msg = 32 \<Longrightarrow> ecdsa_verify S s msg k"

section \<open>Signatures\<close>

definition MAX_PUBKEY_DATA_LENGTH :: nat where "MAX_PUBKEY_DATA_LENGTH = 65"
definition PRIVKEY_SIZE :: nat where "PRIVKEY_SIZE = 32"

text \<open>The serialized form is kept once computed; an empty one has not been.\<close>

record 's crypto_signature =
  ecsig :: 's
  sig_der :: bytes

definition crypto_signature_import ::
    "('k, 's) secp256k1_ops \<Rightarrow> bytes option \<Rightarrow> 's crypto_signature res" where
  "crypto_signature_import S der =
     (case der of
        None \<Rightarrow> Inl Abort
      | Some d \<Rightarrow>
          if d = [] then Inl Abort
          else case ecdsa_signature_parse_der S d of
              None \<Rightarrow> Inl Reject
            | Some s \<Rightarrow> Inr \<lparr>ecsig = s, sig_der = []\<rparr>)"

definition crypto_signature_import_from_string ::
    "('k, 's) secp256k1_ops \<Rightarrow> bytes \<Rightarrow> 's crypto_signature res" where
  "crypto_signature_import_from_string S hex =
     (if \<not> (0 < length hex \<and> length hex mod 2 = 0 \<and> length hex < 200) then Inl Abort
      else case hex2bin hex of
          Inl Reject \<Rightarrow> Inl Abort
        | Inl e \<Rightarrow> Inl e
        | Inr d \<Rightarrow> if length d \<noteq> length hex div 2 then Inl Abort
                   else crypto_signature_import S (Some d))"

text \<open>The signature with its cache, and the bytes.\<close>

definition crypto_signature_export ::
    "('k, 's) secp256k1_ops \<Rightarrow> 's crypto_signature \<Rightarrow> ('s crypto_signature \<times> bytes) res" where
  "crypto_signature_export S sig =
     andThen
       (if sig_der sig \<noteq> [] then Inr sig
        else case ecdsa_signature_serialize_der S 100 (ecsig sig) of
            None \<Rightarrow> Inl Reject
          | Some d \<Rightarrow> if d = [] then Inl Abort else Inr (sig\<lparr>sig_der := d\<rparr>))
       (\<lambda>sig'. Inr (sig', sig_der sig'))"

section \<open>Public keys\<close>

record 'k crypto_pubkey =
  pk_key :: 'k
  pk_data :: bytes
  cb_data :: nat
  compressed_flag :: int

definition crypto_pubkey_import ::
    "('k, 's) secp256k1_ops \<Rightarrow> bytes option \<Rightarrow> 'k crypto_pubkey res" where
  "crypto_pubkey_import S data =
     (case data of
        None \<Rightarrow> Inl Abort
      | Some d \<Rightarrow>
          if MAX_PUBKEY_DATA_LENGTH < length d then Inl Abort
          else case ec_pubkey_parse S d of
              None \<Rightarrow> Inl Reject
            | Some k \<Rightarrow> Inr \<lparr>pk_key = k, pk_data = [], cb_data = 0, compressed_flag = 0\<rparr>)"

definition crypto_pubkey_import_from_string ::
    "('k, 's) secp256k1_ops \<Rightarrow> bytes \<Rightarrow> 'k crypto_pubkey res" where
  "crypto_pubkey_import_from_string S hex =
     (if \<not> (length hex = 66 \<or> length hex = 130) then Inl Abort
      else case hex2bin hex of
          Inl Reject \<Rightarrow> Inl Abort
        | Inl e \<Rightarrow> Inl e
        | Inr d \<Rightarrow> if \<not> (length d = 33 \<or> length d = 65) then Inl Abort
                   else crypto_pubkey_import S (Some d))"

text \<open>
  The key with its cache, the returned length (\<open>-1\<close> when the library fails) and, when a
  destination was given, the bytes written. The bound on the length in the assertion is strict.
\<close>

definition crypto_pubkey_export ::
    "('k, 's) secp256k1_ops \<Rightarrow> 'k crypto_pubkey \<Rightarrow> int \<Rightarrow> bool
      \<Rightarrow> ('k crypto_pubkey \<times> int \<times> bytes option) res" where
  "crypto_pubkey_export S pubkey flag has_dst =
     (let cached = (if cb_data pubkey = 0 \<or> flag \<noteq> compressed_flag pubkey
                    then case ec_pubkey_serialize S MAX_PUBKEY_DATA_LENGTH (pk_key pubkey) (flag \<noteq> 0) of
                        None \<Rightarrow> Inl (pubkey\<lparr>cb_data := 0\<rparr>)
                      | Some d \<Rightarrow> Inr (pubkey\<lparr>pk_data := d, cb_data := length d, compressed_flag := flag\<rparr>)
                    else Inr pubkey)
      in case cached of
          Inl failed \<Rightarrow> Inr (failed, - 1, None)
        | Inr pk \<Rightarrow>
            if \<not> has_dst then Inr (pk, int (cb_data pk), None)
            else if \<not> (0 < cb_data pk \<and> cb_data pk < MAX_PUBKEY_DATA_LENGTH) then Inl Abort
            else Inr (pk, int (cb_data pk), Some (take (cb_data pk) (pk_data pk))))"

section \<open>Private keys\<close>

record 'k crypto_privkey =
  sk_key :: bytes
  sk_length :: nat
  sk_pubkey :: "'k crypto_pubkey"

definition crypto_privkey_get_pubkey :: "'k crypto_privkey option \<Rightarrow> 'k crypto_pubkey option" where
  "crypto_privkey_get_pubkey privkey =
     (case privkey of
        None \<Rightarrow> None
      | Some sk \<Rightarrow> if sk_length sk \<noteq> 32 then None else Some (sk_pubkey sk))"

text \<open>Fewer than 32 bytes are followed by zeros, that is, a short number is shifted to the left.\<close>

definition crypto_privkey_import ::
    "('k, 's) secp256k1_ops \<Rightarrow> bytes option \<Rightarrow> 'k crypto_privkey res" where
  "crypto_privkey_import S secdata =
     (case secdata of
        None \<Rightarrow> Inl Abort
      | Some d \<Rightarrow>
          if 32 < length d then Inl Abort
          else let key = d @ replicate (32 - length d) 0
               in if \<not> ec_seckey_verify S key then Inl Reject
                  else case ec_pubkey_create S key of
                      None \<Rightarrow> Inl Reject
                    | Some k \<Rightarrow> Inr \<lparr>sk_key = key, sk_length = PRIVKEY_SIZE,
                        sk_pubkey = \<lparr>pk_key = k, pk_data = [], cb_data = 0, compressed_flag = 0\<rparr>\<rparr>)"

definition crypto_privkey_export :: "'k crypto_privkey \<Rightarrow> bytes res" where
  "crypto_privkey_export privkey =
     (if sk_length privkey \<noteq> PRIVKEY_SIZE then Inl Reject
      else mem_read PRIVKEY_SIZE (sk_key privkey))"

definition crypto_privkey_import_from_string ::
    "('k, 's) secp256k1_ops \<Rightarrow> bytes \<Rightarrow> 'k crypto_privkey res" where
  "crypto_privkey_import_from_string S hex =
     (if \<not> (0 < length hex \<and> length hex \<le> 64) then Inl Abort
      else case hex2bin hex of
          Inl Reject \<Rightarrow> Inl Abort
        | Inl e \<Rightarrow> Inl e
        | Inr d \<Rightarrow> if length d \<noteq> length hex div 2 then Inl Abort
                   else crypto_privkey_import S (Some d))"

section \<open>Signing and verifying\<close>

definition crypto_sign ::
    "('k, 's) secp256k1_ops \<Rightarrow> bytes \<Rightarrow> 'k crypto_privkey \<Rightarrow> bytes res" where
  "crypto_sign S msg privkey =
     andThen (mem_read 32 msg) (\<lambda>m.
       case ecdsa_sign S m (sk_key privkey) of
           None \<Rightarrow> Inl Reject
         | Some s \<Rightarrow>
             (case ecdsa_signature_serialize_der S 100 s of
                None \<Rightarrow> Inl Reject
              | Some d \<Rightarrow> if d = [] then Inl Abort else Inr d))"

text \<open>Whether the routine returns 0. The length of the message is not looked at.\<close>

definition crypto_verify ::
    "('k, 's) secp256k1_ops \<Rightarrow> bytes \<Rightarrow> 'k crypto_pubkey \<Rightarrow> bytes \<Rightarrow> bool res" where
  "crypto_verify S msg pubkey der =
     (if der = [] then Inl Abort
      else case ecdsa_signature_parse_der S der of
          None \<Rightarrow> Inr False
        | Some s \<Rightarrow> andThen (mem_read 32 msg) (\<lambda>m. Inr (ecdsa_verify S s m (pk_key pubkey))))"

section \<open>What the wrapper promises\<close>

definition fresh_key :: "'k \<Rightarrow> 'k crypto_pubkey" where
  "fresh_key k = \<lparr>pk_key = k, pk_data = [], cb_data = 0, compressed_flag = 0\<rparr>"

context secp256k1 begin

lemma export_compressed:
  "\<exists>pk' d. crypto_pubkey_export S (fresh_key k) 1 True = Inr (pk', 33, Some d)
    \<and> crypto_pubkey_import S (Some d) = Inr (fresh_key k)"
proof -
  obtain d where "ec_pubkey_serialize S MAX_PUBKEY_DATA_LENGTH k True = Some d" "length d = 33"
      "ec_pubkey_parse S d = Some k"
    using pubkey_compressed [of MAX_PUBKEY_DATA_LENGTH k] by (auto simp: MAX_PUBKEY_DATA_LENGTH_def)
  then show ?thesis
    by (simp add: crypto_pubkey_export_def crypto_pubkey_import_def fresh_key_def MAX_PUBKEY_DATA_LENGTH_def)
qed

lemma export_uncompressed: "crypto_pubkey_export S (fresh_key k) 0 True = Inl Abort"
proof -
  obtain d where "ec_pubkey_serialize S MAX_PUBKEY_DATA_LENGTH k False = Some d" "length d = 65"
    using pubkey_uncompressed [of MAX_PUBKEY_DATA_LENGTH k] by (auto simp: MAX_PUBKEY_DATA_LENGTH_def)
  then show ?thesis by (simp add: crypto_pubkey_export_def fresh_key_def MAX_PUBKEY_DATA_LENGTH_def)
qed

lemma signature_reimport:
  assumes "crypto_signature_import S (Some d) = Inr sig"
  shows "\<exists>sig' d'. crypto_signature_export S sig = Inr (sig', d') \<and> d' \<noteq> []
    \<and> crypto_signature_import S (Some d') = Inr sig"
proof -
  from assms obtain s where s: "sig = \<lparr>ecsig = s, sig_der = []\<rparr>"
    by (auto simp: crypto_signature_import_def split: if_splits option.splits)
  obtain d' where "ecdsa_signature_serialize_der S 100 s = Some d'" "0 < length d'"
      "ecdsa_signature_parse_der S d' = Some s"
    using signature_der [of 100 s] by auto
  then show ?thesis using s by (auto simp: crypto_signature_export_def crypto_signature_import_def)
qed

lemma sign_verify:
  assumes "crypto_privkey_import S (Some key) = Inr sk" "length msg = 32"
  shows "\<exists>pk d. crypto_privkey_get_pubkey (Some sk) = Some pk \<and> crypto_sign S msg sk = Inr d
    \<and> d \<noteq> [] \<and> crypto_verify S msg pk d = Inr True"
proof -
  from assms(1) obtain k where k: "ec_seckey_verify S (sk_key sk)" "ec_pubkey_create S (sk_key sk) = Some k"
      "sk_length sk = 32" "pk_key (sk_pubkey sk) = k"
    by (auto simp: crypto_privkey_import_def Let_def PRIVKEY_SIZE_def split: if_splits option.splits)
  obtain s where s: "ecdsa_sign S msg (sk_key sk) = Some s" using sign_valid [OF k(1) assms(2)] by blast
  obtain d where "ecdsa_signature_serialize_der S 100 s = Some d" "0 < length d"
      "ecdsa_signature_parse_der S d = Some s"
    using signature_der [of 100 s] by auto
  then show ?thesis using k s verify_signed [OF s k(2) assms(2)] assms(2)
    by (auto simp: crypto_privkey_get_pubkey_def crypto_sign_def crypto_verify_def mem_read_def)
qed

end

text \<open>A scheme that keeps the promises: the public key is the private one.\<close>

definition toy_num :: "bytes \<Rightarrow> 256 word" where "toy_num d = word_of_nat (le_val (take 32 d))"
definition toy_bytes :: "256 word \<Rightarrow> bytes" where "toy_bytes w = le_bytes 32 (unat w)"

definition toy_curve :: "(256 word, 256 word \<times> 256 word) secp256k1_ops" where
  "toy_curve =
     \<lparr>ec_pubkey_parse = (\<lambda>d. if (length d = 33 \<and> d ! 0 = 2) \<or> (length d = 65 \<and> d ! 0 = 4)
                            then Some (toy_num (drop 1 d)) else None),
      ec_pubkey_serialize = (\<lambda>n k c. if c then (if n < 33 then None else Some (2 # toy_bytes k))
                                     else if n < 65 then None else Some (4 # toy_bytes k @ toy_bytes 0)),
      ec_seckey_verify = (\<lambda>key. length key = 32),
      ec_pubkey_create = (\<lambda>key. Some (toy_num key)),
      ecdsa_signature_parse_der = (\<lambda>d. if length d = 65 \<and> d ! 0 = 0x30
                                      then Some (toy_num (drop 1 d), toy_num (drop 33 d)) else None),
      ecdsa_signature_serialize_der = (\<lambda>n s. if n < 65 then None
                                            else Some (0x30 # toy_bytes (fst s) @ toy_bytes (snd s))),
      ecdsa_sign = (\<lambda>msg key. Some (toy_num key, toy_num msg)),
      ecdsa_verify = (\<lambda>s msg k. s = (k, toy_num msg))\<rparr>"

lemma toy_num_bytes [simp]: "length (toy_bytes w) = 32" "toy_num (toy_bytes w) = w" "toy_num (toy_bytes w @ r) = w"
proof -
  have "unat w < 2 ^ 256" using unsigned_less [of w, where 'a = nat] by simp
  then have "unat w mod 256 ^ 32 = unat w" by simp
  then show "toy_num (toy_bytes w) = w" "toy_num (toy_bytes w @ r) = w"
    by (simp_all add: toy_num_def toy_bytes_def le_val_le_bytes)
qed (simp add: toy_bytes_def)

interpretation toy: secp256k1 toy_curve
  by unfold_locales (auto simp: toy_curve_def)

text \<open>A private key that the library accepts signs every 32-byte digest, and the signature
  verifies under the public key stored with it.\<close>

theorem crypto_sign_verify:
  assumes "secp256k1 S" "crypto_privkey_import S (Some key) = Inr sk" "length msg = 32"
  shows "\<exists>pk d. crypto_privkey_get_pubkey (Some sk) = Some pk \<and> crypto_sign S msg sk = Inr d
    \<and> crypto_verify S msg pk d = Inr True"
  using secp256k1.sign_verify [OF assms] by blast

theorem crypto_sign_verify_witness:
  "\<exists>sk pk d. crypto_privkey_import toy_curve (Some (replicate 32 1)) = Inr sk
    \<and> crypto_privkey_get_pubkey (Some sk) = Some pk \<and> crypto_sign toy_curve (replicate 32 7) sk = Inr d
    \<and> crypto_verify toy_curve (replicate 32 7) pk d = Inr True"
proof -
  have "\<exists>sk. crypto_privkey_import toy_curve (Some (replicate 32 1)) = Inr sk"
    by (simp add: crypto_privkey_import_def toy_curve_def Let_def)
  then obtain sk where sk: "crypto_privkey_import toy_curve (Some (replicate 32 1)) = Inr sk" ..
  show ?thesis using crypto_sign_verify [OF toy.secp256k1_axioms sk, of "replicate 32 7"] sk by auto
qed

text \<open>A freshly imported public key is exported in 33 bytes in the compressed form, which import
  as the same key; writing out the uncompressed form of 65 bytes always fails an assertion, whose
  bound on the length is strict.\<close>

theorem pubkey_export_forms:
  assumes "secp256k1 S" "crypto_pubkey_import S (Some data) = Inr pk"
  shows "(\<exists>pk' d. crypto_pubkey_export S pk 1 True = Inr (pk', 33, Some d)
      \<and> crypto_pubkey_import S (Some d) = Inr pk)
    \<and> crypto_pubkey_export S pk 0 True = Inl Abort"
proof -
  from assms(2) obtain k where "pk = fresh_key k"
    by (auto simp: crypto_pubkey_import_def fresh_key_def split: if_splits option.splits)
  then show ?thesis
    using secp256k1.export_compressed [OF assms(1)] secp256k1.export_uncompressed [OF assms(1)] by blast
qed

theorem pubkey_export_forms_witness:
  "\<exists>pk pk' d. crypto_pubkey_import toy_curve (Some (2 # replicate 32 9)) = Inr pk
    \<and> crypto_pubkey_export toy_curve pk 1 True = Inr (pk', 33, Some d)
    \<and> crypto_pubkey_export toy_curve pk 0 True = Inl Abort"
proof -
  have "\<exists>pk. crypto_pubkey_import toy_curve (Some (2 # replicate 32 9)) = Inr pk"
    by (simp add: crypto_pubkey_import_def toy_curve_def MAX_PUBKEY_DATA_LENGTH_def)
  then obtain pk where pk: "crypto_pubkey_import toy_curve (Some (2 # replicate 32 9)) = Inr pk" ..
  show ?thesis using pubkey_export_forms [OF toy.secp256k1_axioms pk] pk by blast
qed

end
