(* ===== verification/Tx.thy ===== *)
theory Tx
  imports Varint Hashing
begin

text \<open>
  Transactions: the inputs and outputs of \<open>src/satoshi-types.c\<close> (\<open>satoshi_txin_*\<close>,
  \<open>satoshi_txout_*\<close>) and the transaction parser and serializer of \<open>src/satoshi-tx.c\<close>.
  A parser takes the bytes from \<open>payload\<close> to its end and gives the parsed structure with the
  number of bytes used. Structures own their strings as raw buffers; a null pointer is \<open>None\<close>.
  An array with its count is a list. Allocation is taken to succeed.
\<close>

section \<open>Data\<close>

record outpoint =
  prev_hash :: bytes
  out_index :: u32

record txin =
  txin_outpoint :: outpoint
  is_coinbase :: bool
  is_p2sh :: bool
  txin_scripts :: "bytes option"
  cb_scripts :: u64
  txin_sequence :: u32
  signatures :: "bytes list"
  redeem_scripts :: "bytes option"
  redeem_scripts_start_pos :: u64

definition txout_type_unknown :: u32 where "txout_type_unknown = 0"
definition txout_type_legacy :: u32 where "txout_type_legacy = 1"
definition txout_type_segwit :: u32 where "txout_type_segwit = 2"
definition txout_type_masks :: u32 where "txout_type_masks = 0x7FFF"
definition txout_type_p2sh_segwit_flags :: u32 where "txout_type_p2sh_segwit_flags = 0x8000"

record txout =
  txout_value :: u64
  txout_scripts :: "bytes option"
  txout_flags :: u32

record witness =
  num_items :: u64
  items :: "bytes list"

record tx =
  tx_version :: u32
  has_flag :: bool
  tx_flag :: bytes
  txins :: "txin list"
  txouts :: "txout list"
  cb_witnesses :: u64
  witnesses :: "witness list option"
  lock_time :: u32
  txid :: bytes
  wtxid :: bytes

text \<open>Zeroed memory (\<open>calloc\<close>).\<close>

definition txin_zero :: txin where
  "txin_zero = \<lparr>txin_outpoint = \<lparr>prev_hash = replicate 32 0, out_index = 0\<rparr>, is_coinbase = False,
     is_p2sh = False, txin_scripts = None, cb_scripts = 0, txin_sequence = 0, signatures = [],
     redeem_scripts = None, redeem_scripts_start_pos = 0\<rparr>"

definition txout_zero :: txout where
  "txout_zero = \<lparr>txout_value = 0, txout_scripts = None, txout_flags = txout_type_unknown\<rparr>"

definition tx_zero :: tx where
  "tx_zero = \<lparr>tx_version = 0, has_flag = False, tx_flag = [0, 0], txins = [], txouts = [],
     cb_witnesses = 0, witnesses = None, lock_time = 0, txid = replicate 32 0,
     wtxid = replicate 32 0\<rparr>"

section \<open>Inputs\<close>

definition s_coinbase_outpoint :: outpoint where
  "s_coinbase_outpoint = \<lparr>prev_hash = replicate 32 0, out_index = 0xffffffff\<rparr>"

text \<open>
  The check both parsers make of a string at the cursor: its size must not exceed the rest of the
  payload, and the clone must have the size that was read. \<open>vstr_size\<close> is a signed size.
\<close>

definition take_varstr :: "bytes \<Rightarrow> (bytes \<times> nat) res" where
  "take_varstr m =
     andThen (varstr_size m) (\<lambda>s.
       if int (length m) < sint s then Inl Reject
       else andThen (varstr_clone m) (\<lambda>v.
         andThen (varstr_size v) (\<lambda>s'.
           andThen (require (s' = s) Abort) (\<lambda>_. Inr (v, unat s)))))"

definition satoshi_txin_parse :: "txin \<Rightarrow> bytes \<Rightarrow> (txin \<times> nat) res" where
  "satoshi_txin_parse t m =
     (if m = [] then Inl Abort
      else if length m < 36 then Inl Reject
      else let op = \<lparr>prev_hash = take 32 m, out_index = dec32 (drop 32 m)\<rparr>;
               m1 = drop 36 m
           in andThen (take_varstr m1) (\<lambda>(v, n).
             let m2 = drop n m1
             in if length m2 < 4 then Inl Reject
                else andThen (varstr_length v) (\<lambda>cb.
                  Inr (t\<lparr>txin_outpoint := op, is_coinbase := (op = s_coinbase_outpoint),
                         txin_scripts := Some v, cb_scripts := cb,
                         txin_sequence := dec32 m2\<rparr>, 36 + n + 4))))"

definition outpoint_bytes :: "outpoint \<Rightarrow> bytes" where
  "outpoint_bytes op = prev_hash op @ enc32 (out_index op)"

text \<open>Without a destination (\<open>p_data\<close> null) the serializers only compute the size.\<close>

definition satoshi_txin_size :: "txin \<Rightarrow> u64 res" where
  "satoshi_txin_size t =
     (case txin_scripts t of
        None \<Rightarrow> Inl Abort
      | Some v \<Rightarrow>
          andThen (varstr_size v) (\<lambda>s. if sint s \<le> 0 then Inl Abort else Inr (36 + s + 4)))"

definition satoshi_txin_serialize :: "txin \<Rightarrow> bytes res" where
  "satoshi_txin_serialize t =
     andThen (satoshi_txin_size t) (\<lambda>cb.
       if sint cb \<le> 0 then Inl Abort
       else case txin_scripts t of
           None \<Rightarrow> Inl Abort
         | Some v \<Rightarrow>
             andThen (mem_read (unat (cb - 40)) v) (\<lambda>b.
               Inr (outpoint_bytes (txin_outpoint t) @ b @ enc32 (txin_sequence t))))"

definition satoshi_txin_cleanup :: "txin \<Rightarrow> txin" where
  "satoshi_txin_cleanup t = t\<lparr>txin_scripts := None, redeem_scripts := None\<rparr>"

text \<open>The redeem script from its start position on. The position is a signed offset that the
  script machine sets; a negative one would point before the buffer.\<close>

definition satoshi_txin_query_redeem_scripts_data :: "txin \<Rightarrow> bytes res" where
  "satoshi_txin_query_redeem_scripts_data t =
     (case redeem_scripts t of
        None \<Rightarrow> Inl Reject
      | Some v \<Rightarrow>
          andThen (varstr_getdata_ptr v) (\<lambda>p.
            andThen (varstr_length v) (\<lambda>len.
              let pos = redeem_scripts_start_pos t
              in if sint len < sint pos then Inl Reject
                 else if sint pos < 0 then Inl Undefined
                 else mem_read (unat (len - pos)) (drop (unat pos) p))))"

definition satoshi_txin_get_redeem_scripts :: "txin \<Rightarrow> bytes option res" where
  "satoshi_txin_get_redeem_scripts t =
     (case redeem_scripts t of
        None \<Rightarrow> Inr None
      | Some v \<Rightarrow>
          andThen (varstr_getdata_ptr v) (\<lambda>p.
            andThen (varstr_length v) (\<lambda>len.
              let pos = redeem_scripts_start_pos t
              in if sint len \<le> sint pos then Inr None
                 else if sint pos < 0 then Inl Undefined
                 else andThen (varstr_new (Some (drop (unat pos) p)) (len - pos)) (\<lambda>r.
                   Inr (Some r)))))"

definition satoshi_txin_set_redeem_scripts :: "txin \<Rightarrow> bytes option \<Rightarrow> u64 \<Rightarrow> txin res" where
  "satoshi_txin_set_redeem_scripts t d len =
     andThen (varstr_new d len) (\<lambda>v.
       Inr (t\<lparr>redeem_scripts := Some v, redeem_scripts_start_pos := 0\<rparr>))"

section \<open>Outputs\<close>

definition satoshi_txout_parse :: "txout \<Rightarrow> bytes \<Rightarrow> (txout \<times> nat) res" where
  "satoshi_txout_parse t m =
     (if m = [] then Inl Abort
      else if length m < 8 then Inl Reject
      else let m1 = drop 8 m
           in if m1 = [] then Inl Reject
              else andThen (take_varstr m1) (\<lambda>(v, n).
                andThen (varstr_getdata_ptr v) (\<lambda>p.
                  case p of [] \<Rightarrow> Inl Undefined
                  | b # _ \<Rightarrow>
                      Inr (t\<lparr>txout_value := dec64 m, txout_scripts := Some v,
                             txout_flags := (if b \<le> 16 then txout_type_segwit
                                             else txout_type_legacy)\<rparr>, 8 + n))))"

definition satoshi_txout_size :: "txout \<Rightarrow> u64 res" where
  "satoshi_txout_size t =
     (case txout_scripts t of
        None \<Rightarrow> Inl Undefined
      | Some v \<Rightarrow> andThen (varstr_size v) (\<lambda>s. Inr (8 + s)))"

definition satoshi_txout_serialize :: "txout \<Rightarrow> bytes res" where
  "satoshi_txout_serialize t =
     (case txout_scripts t of
        None \<Rightarrow> Inl Undefined
      | Some v \<Rightarrow>
          andThen (varstr_size v) (\<lambda>s.
            if sint s \<le> 0 then Inl Abort
            else andThen (mem_read (unat s) v) (\<lambda>b. Inr (enc64 (txout_value t) @ b))))"

definition satoshi_txout_cleanup :: "txout \<Rightarrow> txout" where
  "satoshi_txout_cleanup t = t\<lparr>txout_scripts := None\<rparr>"

section \<open>Transactions\<close>

definition parse_varint :: "bytes \<Rightarrow> (u64 \<times> nat) res" where
  "parse_varint m =
     (if m = [] then Inl Reject
      else andThen (varint_size m) (\<lambda>s.
        if length m < s then Inl Reject
        else andThen (varint_get m) (\<lambda>v. Inr (v, s))))"

definition parse_varstr :: "bytes \<Rightarrow> (bytes \<times> nat) res" where
  "parse_varstr m =
     (if m = [] then Inl Reject
      else andThen (varstr_size m) (\<lambda>s.
        if int (length m) < sint s then Inl Reject
        else andThen (varstr_clone m) (\<lambda>v. Inr (v, unat s))))"

text \<open>The sections for inputs and outputs: a positive count, then that many elements. Besides the
  elements: the size of the count and the size of the element data.\<close>

definition parse_vec :: "(bytes \<Rightarrow> ('a \<times> nat) res) \<Rightarrow> bytes \<Rightarrow> ('a list \<times> nat \<times> nat) res" where
  "parse_vec f m =
     andThen (parse_varint m) (\<lambda>(c, k).
       if sint c \<le> 0 then Inl Reject
       else andThen (parse_n f (nat (sint c)) (drop k m)) (\<lambda>(xs, n). Inr (xs, k, n)))"

definition parse_witness :: "bytes \<Rightarrow> (witness \<times> nat) res" where
  "parse_witness m =
     andThen (parse_varint m) (\<lambda>(c, k).
       if 0 < sint c
       then andThen (parse_n parse_varstr (nat (sint c)) (drop k m)) (\<lambda>(xs, n).
              Inr (\<lparr>num_items = c, items = xs\<rparr>, k + n))
       else Inr (\<lparr>num_items = c, items = []\<rparr>, k))"

definition MAX_BLOCK_SERIALIZED_SIZE :: nat where
  "MAX_BLOCK_SERIALIZED_SIZE = 4000000"

text \<open>
  \<open>satoshi_tx_parse\<close> in three parts, in the order of the code: version and marker; inputs and
  outputs; witness data, lock time and the two ids. The cursor is the number of bytes used so far
  of the whole payload \<open>m\<close>, and \<open>sha\<close> the running hash context.
\<close>

definition parse_tx_witnesses :: "tx \<Rightarrow> bytes \<Rightarrow> (tx \<times> nat) res" where
  "parse_tx_witnesses t m =
     (if has_flag t \<and> 4 < length m
      then andThen (parse_n parse_witness (length (txins t)) m) (\<lambda>(ws, n).
             Inr (t\<lparr>cb_witnesses := of_nat n, witnesses := Some ws\<rparr>, n))
      else Inr (t\<lparr>cb_witnesses := 0\<rparr>, 0))"

definition parse_tx_tail ::
    "('c, 'd) hash_ops \<Rightarrow> bytes \<Rightarrow> tx \<Rightarrow> 'c \<Rightarrow> nat \<Rightarrow> (tx \<times> nat) res" where
  "parse_tx_tail P m t sha p =
     andThen (parse_tx_witnesses t (drop p m)) (\<lambda>(t2, k).
       let m5 = drop (p + k) m
       in if length m5 < 4 then Inl Reject
          else let lt = dec32 m5;
                   cb = p + k + 4;
                   t3 = t2\<lparr>lock_time := lt, txid := sha_final2 P (sha256_update P sha (enc32 lt))\<rparr>
               in Inr (if has_flag t3 then t3\<lparr>wtxid := hash256 P (take cb m)\<rparr> else t3, cb))"

definition parse_tx_body ::
    "('c, 'd) hash_ops \<Rightarrow> bytes \<Rightarrow> tx \<Rightarrow> 'c \<Rightarrow> nat \<Rightarrow> (tx \<times> nat) res" where
  "parse_tx_body P m t sha p =
     (let m2 = drop p m
      in if m2 = [] then Inl Reject
         else andThen (parse_vec (satoshi_txin_parse txin_zero) m2) (\<lambda>(ins, k1, n1).
           let sha2 = sha256_update P (sha256_update P sha (take k1 m2)) (take n1 (drop k1 m2));
               m3 = drop (k1 + n1) m2
           in andThen (parse_vec (satoshi_txout_parse txout_zero) m3) (\<lambda>(outs, k2, n2).
             let sha3 = sha256_update P (sha256_update P sha2 (take k2 m3)) (take n2 (drop k2 m3))
             in parse_tx_tail P m (t\<lparr>txins := ins, txouts := outs\<rparr>) sha3 (p + k1 + n1 + k2 + n2))))"

definition satoshi_tx_parse :: "('c, 'd) hash_ops \<Rightarrow> tx \<Rightarrow> bytes \<Rightarrow> (tx \<times> nat) res" where
  "satoshi_tx_parse P t m =
     (if \<not> (0 < length m \<and> length m \<le> MAX_BLOCK_SERIALIZED_SIZE) then Inl Abort
      else if length m < 4 then Inl Reject
      else let ver = dec32 m;
               sha1 = sha256_update P (sha256_init P) (enc32 ver);
               m1 = drop 4 m;
               t1 = t\<lparr>tx_version := ver\<rparr>
           in if length m1 < 2 then Inl Reject
              else if m1 ! 0 = 0
                then if m1 ! 1 \<noteq> 1 then Inl Reject
                     else parse_tx_body P m (t1\<lparr>has_flag := True, tx_flag := take 2 m1\<rparr>) sha1 6
              else parse_tx_body P m t1 sha1 4)"

definition bitcoin_tx_witness_cleanup :: "witness \<Rightarrow> witness" where
  "bitcoin_tx_witness_cleanup w = w\<lparr>num_items := 0, items := []\<rparr>"

definition satoshi_tx_cleanup :: "tx \<Rightarrow> tx" where
  "satoshi_tx_cleanup t =
     t\<lparr>witnesses := (if has_flag t then None else witnesses t), txins := [], txouts := []\<rparr>"

section \<open>Serialization\<close>

text \<open>\<open>map\<close> with an early exit, for the loops that write elements one behind the other.\<close>

fun ser_all :: "('a \<Rightarrow> bytes res) \<Rightarrow> 'a list \<Rightarrow> bytes res" where
  "ser_all f [] = Inr []"
| "ser_all f (x # xs) = andThen (f x) (\<lambda>b. andThen (ser_all f xs) (\<lambda>r. Inr (b @ r)))"

definition ser_item :: "bytes \<Rightarrow> bytes res" where
  "ser_item v = andThen (varstr_size v) (\<lambda>s. mem_read (unat s) v)"

definition ser_witness :: "witness \<Rightarrow> bytes res" where
  "ser_witness w =
     (if num_items w = 0 then Inr (varint_set_data 0)
      else if items w = [] then Inl Abort
      else let n = nat (sint (num_items w)) in if length (items w) < n then Inl Undefined
      else andThen (ser_all ser_item (take n (items w))) (\<lambda>b. Inr (varint_set_data (num_items w) @ b)))"

text \<open>
  The witness section is written behind a reserved space of \<open>cb_witnesses\<close> bytes and the four
  bytes of the lock time: more than both is an overrun, any other difference is caught by the
  assertion behind the loop.
\<close>

definition ser_witnesses :: "tx \<Rightarrow> bytes res" where
  "ser_witnesses t =
     (case witnesses t of
        None \<Rightarrow> Inl Abort
      | Some ws \<Rightarrow>
          if sint (cb_witnesses t) \<le> 0 then Inl Abort
          else if length ws < length (txins t) then Inl Undefined
          else andThen (ser_all ser_witness (take (length (txins t)) ws)) (\<lambda>b.
            if unat (cb_witnesses t) + 4 < length b then Inl Undefined
            else if length b \<noteq> unat (cb_witnesses t) then Inl Abort
            else Inr b))"

text \<open>The first pass adds up the sizes, the second one writes.\<close>

fun sum_sizes :: "('a \<Rightarrow> u64 res) \<Rightarrow> 'a list \<Rightarrow> u64 res" where
  "sum_sizes f [] = Inr 0"
| "sum_sizes f (x # xs) =
     andThen (f x) (\<lambda>cb.
       if sint cb \<le> 0 then Inl Abort else andThen (sum_sizes f xs) (\<lambda>r. Inr (cb + r)))"

definition satoshi_tx_size :: "tx \<Rightarrow> u64 res" where
  "satoshi_tx_size t =
     andThen (sum_sizes satoshi_txin_size (txins t)) (\<lambda>ins.
       andThen (sum_sizes satoshi_txout_size (txouts t)) (\<lambda>outs.
         Inr (4 + (if has_flag t then 2 else 0)
           + of_nat (varint_calc_size (of_nat (length (txins t)))) + ins
           + of_nat (varint_calc_size (of_nat (length (txouts t)))) + outs
           + (if has_flag t then cb_witnesses t else 0) + 4)))"

definition satoshi_tx_serialize :: "tx \<Rightarrow> bytes res" where
  "satoshi_tx_serialize t =
     andThen (satoshi_tx_size t) (\<lambda>_.
       andThen (ser_all satoshi_txin_serialize (txins t)) (\<lambda>ins.
         andThen (ser_all satoshi_txout_serialize (txouts t)) (\<lambda>outs.
           andThen (if has_flag t then ser_witnesses t else Inr []) (\<lambda>wit.
             Inr (enc32 (tx_version t) @ (if has_flag t then [0, 1] else [])
               @ varint_set_data (of_nat (length (txins t))) @ ins
               @ varint_set_data (of_nat (length (txouts t))) @ outs
               @ wit @ enc32 (lock_time t))))))"

section \<open>Bounds\<close>

text \<open>No parser claims more bytes than it was given, and every element takes at least one.\<close>

lemma varstr_clone_pos: "varstr_clone m = Inr v \<Longrightarrow> \<exists>s. varstr_size m = Inr s \<and> 0 < sint s"
  by (auto simp: varstr_clone_def res_simps split: if_splits)

lemma take_varstr_bound: "take_varstr m = Inr (v, n) \<Longrightarrow> 0 < n \<and> n \<le> length m"
  by (auto simp: take_varstr_def res_simps dest!: varstr_clone_pos sint_le_unat)

lemma parse_varstr_bound: "parse_varstr m = Inr (v, n) \<Longrightarrow> 0 < n \<and> n \<le> length m"
  by (auto simp: parse_varstr_def res_simps dest!: varstr_clone_pos sint_le_unat)

lemma varint_size_pos: "varint_size m = Inr s \<Longrightarrow> 0 < s"
  by (auto simp: varint_size_def split: list.splits if_splits)

lemma parse_varint_bound: "parse_varint m = Inr (v, n) \<Longrightarrow> 0 < n \<and> n \<le> length m"
  by (auto simp: parse_varint_def res_simps split: if_splits dest: varint_size_pos)

lemma txin_parse_bound:
  "satoshi_txin_parse t m = Inr (x, n) \<Longrightarrow> 41 \<le> n \<and> n \<le> length m"
  by (auto simp: satoshi_txin_parse_def Let_def res_simps split: if_splits
      dest!: take_varstr_bound)

lemma txout_parse_bound:
  "satoshi_txout_parse t m = Inr (x, n) \<Longrightarrow> 9 \<le> n \<and> n \<le> length m"
  by (auto simp: satoshi_txout_parse_def Let_def res_simps dest!: take_varstr_bound)

interpretation txin_bounded: bounded_parser "satoshi_txin_parse t" for t
  by unfold_locales (auto dest: txin_parse_bound)

interpretation txout_bounded: bounded_parser "satoshi_txout_parse t" for t
  by unfold_locales (auto dest: txout_parse_bound)

interpretation varstr_bounded: bounded_parser parse_varstr
  by unfold_locales (rule parse_varstr_bound)

lemma parse_witness_bound: "parse_witness m = Inr (w, n) \<Longrightarrow> 0 < n \<and> n \<le> length m"
proof -
  assume "parse_witness m = Inr (w, n)"
  then obtain c k where ck: "parse_varint m = Inr (c, k)" and
    "n = k \<or> (\<exists>xs j. parse_n parse_varstr (nat (sint c)) (drop k m) = Inr (xs, j) \<and> n = k + j)"
    by (auto simp: parse_witness_def res_simps split: if_splits)
  with parse_varint_bound [OF ck] show ?thesis
    by (auto dest: varstr_bounded.parse_n_bound)
qed

interpretation witness_bounded: bounded_parser parse_witness
  by unfold_locales (rule parse_witness_bound)

section \<open>Well-formed parts and their wire form\<close>

lemma take_varstr_mk:
  assumes "length d < 2 ^ 62"
  shows "take_varstr (mk_varstr d @ r) = Inr (mk_varstr d, length (mk_varstr d))"
  using varstr_clone_mk [OF assms] varstr_size_mk [of d "[]"] length_mk_varstr_less [OF assms]
  by (simp add: take_varstr_def sint_u64_of_nat unat_length_mk_varstr [OF assms])

lemma mk_varstr_nonempty [simp]: "mk_varstr d \<noteq> []"
  using varint_calc_size_bounds(1) [of "of_nat (length d)"] length_mk_varstr [of d] by auto

lemma parse_varstr_mk:
  assumes "length d < 2 ^ 62"
  shows "parse_varstr (mk_varstr d @ r) = Inr (mk_varstr d, length (mk_varstr d))"
  using varstr_clone_mk [OF assms] length_mk_varstr_less [OF assms]
  by (simp add: parse_varstr_def sint_u64_of_nat unat_length_mk_varstr [OF assms])

lemma varint_set_data_nonempty [simp]: "varint_set_data v \<noteq> []"
  using varint_calc_size_bounds(1) [of v] by (metis length_varint_set_data list.size(3) less_irrefl)

lemma parse_varint_set [simp]:
  "parse_varint (varint_set_data v @ r) = Inr (v, varint_calc_size v)"
  by (simp add: parse_varint_def)

interpretation varstr_codec: wire_codec parse_varstr id wf_varstr "\<lambda>_. True"
  by unfold_locales (auto simp: wf_varstr_def parse_varstr_mk)

definition wf_txin :: "txin \<Rightarrow> bool" where
  "wf_txin t \<longleftrightarrow>
     (\<exists>op d sq. length (prev_hash op) = 32 \<and> length d < 2 ^ 62 \<and> t = txin_zero
          \<lparr>txin_outpoint := op, is_coinbase := (op = s_coinbase_outpoint),
           txin_scripts := Some (mk_varstr d), cb_scripts := of_nat (length d),
           txin_sequence := sq\<rparr>)"

definition txin_wire :: "txin \<Rightarrow> bytes" where
  "txin_wire t = outpoint_bytes (txin_outpoint t) @ the (txin_scripts t) @ enc32 (txin_sequence t)"

lemma length_outpoint_bytes: "length (prev_hash op) = 32 \<Longrightarrow> length (outpoint_bytes op) = 36"
  by (simp add: outpoint_bytes_def)

lemma outpoint_bytes_read:
  "length (prev_hash op) = 32 \<Longrightarrow> take 32 (outpoint_bytes op @ r) = prev_hash op"
  "length (prev_hash op) = 32 \<Longrightarrow> dec32 (drop 32 (outpoint_bytes op @ r)) = out_index op"
  by (simp_all add: outpoint_bytes_def)

lemma txin_parse_wire:
  assumes "wf_txin t"
  shows "satoshi_txin_parse txin_zero (txin_wire t @ r) = Inr (t, length (txin_wire t))"
proof -
  from assms obtain op d sq where d: "length d < 2 ^ 62" and l: "length (prev_hash op) = 32"
    and t: "t = txin_zero
          \<lparr>txin_outpoint := op, is_coinbase := (op = s_coinbase_outpoint),
           txin_scripts := Some (mk_varstr d), cb_scripts := of_nat (length d),
           txin_sequence := sq\<rparr>"
    by (auto simp: wf_txin_def)
  define w where "w = outpoint_bytes op @ mk_varstr d @ enc32 sq @ r"
  have w: "txin_wire t @ r = w" by (simp add: txin_wire_def t w_def)
  have rd: "take 32 w = prev_hash op" "dec32 (drop 32 w) = out_index op"
    "drop 36 w = mk_varstr d @ enc32 sq @ r" "\<not> length w < 36" "w \<noteq> []"
    using length_outpoint_bytes [OF l] l by (auto simp: w_def outpoint_bytes_def)
  have len: "length (txin_wire t) = 36 + length (mk_varstr d) + 4"
    by (simp add: txin_wire_def t length_outpoint_bytes [OF l])
  have op: "\<lparr>prev_hash = prev_hash op, out_index = out_index op\<rparr> = op" by simp
  show ?thesis
    unfolding w len satoshi_txin_parse_def
    by (simp add: Let_def rd op take_varstr_mk [OF d] varstr_length_def t)
qed

interpretation txin_codec: wire_codec "satoshi_txin_parse txin_zero" txin_wire wf_txin "\<lambda>_. True"
  by unfold_locales (simp_all add: txin_parse_wire)

lemma u64_size_ok:
  assumes "length d < 2 ^ 62" "j \<le> 40"
  shows "sint (of_nat (j + length (mk_varstr d)) :: u64) = int (j + length (mk_varstr d))"
  using varint_calc_size_bounds [of "of_nat (length d)"] assms
  by (intro sint_u64_of_nat) (simp add: length_mk_varstr)

lemma txin_serialize_wire:
  assumes "wf_txin t"
  shows "satoshi_txin_size t = Inr (of_nat (length (txin_wire t)))"
    and "0 < sint (of_nat (length (txin_wire t)) :: u64)"
    and "satoshi_txin_serialize t = Inr (txin_wire t)"
proof -
  from assms obtain op d sq where d: "length d < 2 ^ 62" and l: "length (prev_hash op) = 32"
    and t: "t = txin_zero
          \<lparr>txin_outpoint := op, is_coinbase := (op = s_coinbase_outpoint),
           txin_scripts := Some (mk_varstr d), cb_scripts := of_nat (length d),
           txin_sequence := sq\<rparr>"
    by (auto simp: wf_txin_def)
  let ?n = "length (mk_varstr d)"
  have sz: "varstr_size (mk_varstr d) = Inr (of_nat ?n)"
    using varstr_size_mk [of d "[]"] by simp
  have n0: "sint (of_nat ?n :: u64) = int ?n" using u64_size_ok [OF d, of 0] by simp
  have n40: "sint (of_nat (40 + ?n) :: u64) = int (40 + ?n)" using u64_size_ok [OF d, of 40] by simp
  have len: "length (txin_wire t) = 40 + ?n"
    by (simp add: txin_wire_def t length_outpoint_bytes [OF l])
  show 1: "satoshi_txin_size t = Inr (of_nat (length (txin_wire t)))"
    unfolding len by (simp add: satoshi_txin_size_def t sz n0)
  show 2: "0 < sint (of_nat (length (txin_wire t)) :: u64)"
    unfolding len n40 by simp
  have m: "unat (of_nat (40 + ?n) - 40 :: u64) = ?n"
    using unat_length_mk_varstr [OF d] by simp
  show "satoshi_txin_serialize t = Inr (txin_wire t)"
    unfolding satoshi_txin_serialize_def 1
    using 2 m unfolding len by (simp add: t mem_read_def txin_wire_def)
qed

definition wf_txout :: "txout \<Rightarrow> bool" where
  "wf_txout t \<longleftrightarrow>
     (\<exists>v b d. Suc (length d) < 2 ^ 62 \<and> t =
        \<lparr>txout_value = v, txout_scripts = Some (mk_varstr (b # d)),
         txout_flags = (if b \<le> 16 then txout_type_segwit else txout_type_legacy)\<rparr>)"

definition txout_wire :: "txout \<Rightarrow> bytes" where
  "txout_wire t = enc64 (txout_value t) @ the (txout_scripts t)"

lemma txout_parse_wire:
  assumes "wf_txout t"
  shows "satoshi_txout_parse txout_zero (txout_wire t @ r) = Inr (t, length (txout_wire t))"
proof -
  from assms obtain v b d where d: "length (b # d) < 2 ^ 62" and t: "t =
        \<lparr>txout_value = v, txout_scripts = Some (mk_varstr (b # d)),
         txout_flags = (if b \<le> 16 then txout_type_segwit else txout_type_legacy)\<rparr>"
    by (auto simp: wf_txout_def)
  have w: "txout_wire t @ r = enc64 v @ mk_varstr (b # d) @ r"
    by (simp add: txout_wire_def t)
  have ne: "enc64 v \<noteq> []" by (metis length_enc(3) list.size(3) zero_neq_numeral)
  show ?thesis
    unfolding w satoshi_txout_parse_def
    using take_varstr_mk [OF d] by (simp add: ne Let_def txout_zero_def t txout_wire_def)
qed

interpretation txout_codec: wire_codec "satoshi_txout_parse txout_zero" txout_wire wf_txout "\<lambda>_. True"
  by unfold_locales (simp_all add: txout_parse_wire)

lemma txout_serialize_wire:
  assumes "wf_txout t"
  shows "satoshi_txout_size t = Inr (of_nat (length (txout_wire t)))"
    and "0 < sint (of_nat (length (txout_wire t)) :: u64)"
    and "satoshi_txout_serialize t = Inr (txout_wire t)"
proof -
  from assms obtain v b d where d: "length (b # d) < 2 ^ 62" and t: "t =
        \<lparr>txout_value = v, txout_scripts = Some (mk_varstr (b # d)),
         txout_flags = (if b \<le> 16 then txout_type_segwit else txout_type_legacy)\<rparr>"
    by (auto simp: wf_txout_def)
  let ?n = "length (mk_varstr (b # d))"
  have sz: "varstr_size (mk_varstr (b # d)) = Inr (of_nat ?n)"
    using varstr_size_mk [of "b # d" "[]"] by simp
  have n0: "sint (of_nat ?n :: u64) = int ?n" using u64_size_ok [OF d, of 0] by simp
  have n8: "sint (of_nat (8 + ?n) :: u64) = int (8 + ?n)" using u64_size_ok [OF d, of 8] by simp
  have len: "length (txout_wire t) = 8 + ?n" by (simp add: txout_wire_def t)
  show 1: "satoshi_txout_size t = Inr (of_nat (length (txout_wire t)))"
    unfolding len by (simp add: satoshi_txout_size_def t sz)
  show 2: "0 < sint (of_nat (length (txout_wire t)) :: u64)" unfolding len n8 by simp
  show "satoshi_txout_serialize t = Inr (txout_wire t)"
    using unat_length_mk_varstr [OF d] n0
    by (simp add: satoshi_txout_serialize_def t sz mem_read_def txout_wire_def)
qed

context wire_codec
begin

lemma parse_vec_ser:
  assumes "list_all wf xs" "xs \<noteq> []" "length xs < 2 ^ 62"
    and "fits (length (concat (map ser xs) @ r))"
  shows "parse_vec parse (varint_set_data (of_nat (length xs)) @ concat (map ser xs) @ r)
     = Inr (xs, varint_calc_size (of_nat (length xs)), length (concat (map ser xs)))"
  using assms parse_n_ser [OF assms(1,4)] by (simp add: parse_vec_def sint_u64_of_nat)

end

definition wf_witness :: "witness \<Rightarrow> bool" where
  "wf_witness w \<longleftrightarrow> list_all wf_varstr (items w) \<and> length (items w) < 2 ^ 62
     \<and> num_items w = of_nat (length (items w))"

definition witness_wire :: "witness \<Rightarrow> bytes" where
  "witness_wire w = varint_set_data (num_items w) @ concat (items w)"

lemma parse_witness_wire:
  assumes "wf_witness w"
  shows "parse_witness (witness_wire w @ r) = Inr (w, length (witness_wire w))"
proof -
  from assms have w: "list_all wf_varstr (items w)" "length (items w) < 2 ^ 62"
      "num_items w = of_nat (length (items w))"
    by (simp_all add: wf_witness_def)
  have s: "sint (num_items w) = int (length (items w))" using w by (simp add: sint_u64_of_nat)
  show ?thesis
  proof (cases "items w = []")
    case True
    have "\<lparr>num_items = num_items w, items = []\<rparr> = w" using True by (cases w) simp
    with True s show ?thesis by (simp add: parse_witness_def witness_wire_def)
  next
    case False
    have "\<lparr>num_items = num_items w, items = items w\<rparr> = w" by simp
    with False s varstr_codec.parse_n_ser [OF w(1), of r] show ?thesis
      by (simp add: parse_witness_def witness_wire_def)
  qed
qed

interpretation witness_codec: wire_codec parse_witness witness_wire wf_witness "\<lambda>_. True"
  by unfold_locales (simp_all add: parse_witness_wire)

lemma ser_all_map: "(\<And>x. x \<in> set xs \<Longrightarrow> f x = Inr (g x)) \<Longrightarrow> ser_all f xs = Inr (concat (map g xs))"
  by (induction xs) simp_all

lemma ser_item_wf: "wf_varstr v \<Longrightarrow> ser_item v = Inr v"
proof -
  assume "wf_varstr v"
  then obtain d where d: "length d < 2 ^ 62" "v = mk_varstr d" by (auto simp: wf_varstr_def)
  have "varstr_size v = Inr (of_nat (length v))" using varstr_size_mk [of d "[]"] d(2) by simp
  with unat_length_mk_varstr [OF d(1)] d(2) show ?thesis
    by (simp add: ser_item_def mem_read_def)
qed

lemma ser_witness_wire: "wf_witness w \<Longrightarrow> ser_witness w = Inr (witness_wire w)"
proof -
  assume w: "wf_witness w"
  then have it: "\<And>v. v \<in> set (items w) \<Longrightarrow> ser_item v = Inr (id v)"
    and n: "num_items w = of_nat (length (items w))" "length (items w) < 2 ^ 62"
    by (auto simp: wf_witness_def list_all_iff ser_item_wf)
  have z: "num_items w = 0 \<longleftrightarrow> items w = []" using of_nat_u64_eq_iff [OF n(2), of 0] n(1) by simp
  have "nat (sint (num_items w)) = length (items w)" using n by (simp add: sint_u64_of_nat)
  moreover have "ser_all ser_item (items w) = Inr (concat (items w))"
    using ser_all_map [of "items w" ser_item id] it by simp
  ultimately show ?thesis using z by (auto simp: ser_witness_def witness_wire_def)
qed

section \<open>Whole transactions\<close>

definition vec_wire :: "('a \<Rightarrow> bytes) \<Rightarrow> 'a list \<Rightarrow> bytes" where
  "vec_wire f xs = varint_set_data (of_nat (length xs)) @ concat (map f xs)"

text \<open>The wire form without witness data, which the transaction id is the hash of, and the
  whole one.\<close>

definition tx_stripped :: "tx \<Rightarrow> bytes" where
  "tx_stripped t = enc32 (tx_version t) @ vec_wire txin_wire (txins t)
     @ vec_wire txout_wire (txouts t) @ enc32 (lock_time t)"

definition tx_witness_wire :: "tx \<Rightarrow> bytes" where
  "tx_witness_wire t =
     (case witnesses t of None \<Rightarrow> [] | Some ws \<Rightarrow> concat (map witness_wire ws))"

definition tx_wire :: "tx \<Rightarrow> bytes" where
  "tx_wire t = enc32 (tx_version t) @ (if has_flag t then [0, 1] else [])
     @ vec_wire txin_wire (txins t) @ vec_wire txout_wire (txouts t)
     @ tx_witness_wire t @ enc32 (lock_time t)"

definition wf_tx :: "tx \<Rightarrow> bool" where
  "wf_tx t \<longleftrightarrow> list_all wf_txin (txins t) \<and> txins t \<noteq> []
     \<and> list_all wf_txout (txouts t) \<and> txouts t \<noteq> []
     \<and> (if has_flag t
        then tx_flag t = [0, 1] \<and> (\<exists>ws. witnesses t = Some ws \<and> length ws = length (txins t)
               \<and> list_all wf_witness ws \<and> cb_witnesses t = of_nat (length (tx_witness_wire t)))
        else tx_flag t = [0, 0] \<and> witnesses t = None \<and> cb_witnesses t = 0)
     \<and> length (tx_wire t) \<le> MAX_BLOCK_SERIALIZED_SIZE"

lemma vec_count_small:
  assumes "wire_codec parse f ok (\<lambda>_. True)" "list_all ok xs"
    and "length (vec_wire f xs) \<le> MAX_BLOCK_SERIALIZED_SIZE"
  shows "length xs < 2 ^ 62"
proof -
  have "length xs \<le> length (concat (map f xs))"
    by (rule wire_codec.length_concat_ser [OF assms(1,2)]) simp
  also have "\<dots> \<le> 4000000" using assms(3) by (simp add: vec_wire_def MAX_BLOCK_SERIALIZED_SIZE_def)
  finally show ?thesis by simp
qed

lemma wf_tx_counts:
  assumes "wf_tx t"
  shows "length (txins t) < 2 ^ 62" "length (txouts t) < 2 ^ 62"
proof -
  have l: "length (vec_wire txin_wire (txins t)) \<le> MAX_BLOCK_SERIALIZED_SIZE"
    "length (vec_wire txout_wire (txouts t)) \<le> MAX_BLOCK_SERIALIZED_SIZE"
    using assms by (auto simp: wf_tx_def tx_wire_def)
  show "length (txins t) < 2 ^ 62"
    by (rule vec_count_small [OF txin_codec.wire_codec_axioms _ l(1)]) (use assms in \<open>simp add: wf_tx_def\<close>)
  show "length (txouts t) < 2 ^ 62"
    by (rule vec_count_small [OF txout_codec.wire_codec_axioms _ l(2)]) (use assms in \<open>simp add: wf_tx_def\<close>)
qed

lemma varint_first_byte:
  assumes "v \<noteq> 0"
  shows "(varint_set_data v @ r) ! 0 \<noteq> 0"
proof -
  have "ucast v \<noteq> (0 :: byte)" if "v < 0xFD"
    using ucast_small(1) [OF that] assms by (metis unsigned_0)
  then show ?thesis by (simp add: varint_set_data_def)
qed

lemma parse_vec_wire:
  assumes "wire_codec parse f ok (\<lambda>_. True)" "list_all ok xs" "xs \<noteq> []" "length xs < 2 ^ 62"
  shows "\<exists>k n. parse_vec parse (vec_wire f xs @ r) = Inr (xs, k, n)
     \<and> k + n = length (vec_wire f xs)
     \<and> take k (vec_wire f xs @ r) @ take n (drop k (vec_wire f xs @ r)) = vec_wire f xs"
  using wire_codec.parse_vec_ser [OF assms(1-4), of r] by (auto simp: vec_wire_def)

lemma sum_sizes_ok:
  assumes "\<And>x. x \<in> set xs \<Longrightarrow> \<exists>cb. f x = Inr cb \<and> 0 < sint cb"
  shows "\<exists>s. sum_sizes f xs = Inr s"
  using assms by (induction xs) force+

lemma tx_serialize_wire:
  assumes "wf_tx t"
  shows "satoshi_tx_serialize t = Inr (tx_wire t)"
proof -
  have ins: "\<And>x. x \<in> set (txins t) \<Longrightarrow> wf_txin x" and outs: "\<And>x. x \<in> set (txouts t) \<Longrightarrow> wf_txout x"
    using assms by (auto simp: wf_tx_def list_all_iff)
  have "\<exists>s. sum_sizes satoshi_txin_size (txins t) = Inr s"
    by (rule sum_sizes_ok) (use ins txin_serialize_wire in blast)
  moreover have "\<exists>s. sum_sizes satoshi_txout_size (txouts t) = Inr s"
    by (rule sum_sizes_ok) (use outs txout_serialize_wire in blast)
  ultimately obtain s where sz: "satoshi_tx_size t = Inr s" by (auto simp: satoshi_tx_size_def)
  have si: "ser_all satoshi_txin_serialize (txins t) = Inr (concat (map txin_wire (txins t)))"
    by (rule ser_all_map) (use ins txin_serialize_wire in blast)
  have so: "ser_all satoshi_txout_serialize (txouts t) = Inr (concat (map txout_wire (txouts t)))"
    by (rule ser_all_map) (use outs txout_serialize_wire in blast)
  have sw: "(if has_flag t then ser_witnesses t else Inr []) = Inr (tx_witness_wire t)"
  proof (cases "has_flag t")
    case True
    then obtain ws where ws: "witnesses t = Some ws" "length ws = length (txins t)"
      "list_all wf_witness ws" "cb_witnesses t = of_nat (length (tx_witness_wire t))"
      using assms by (auto simp: wf_tx_def)
    have ser: "ser_all ser_witness ws = Inr (concat (map witness_wire ws))"
      using ws(3) by (intro ser_all_map) (simp add: ser_witness_wire list_all_iff)
    have w: "concat (map witness_wire ws) = tx_witness_wire t"
      by (simp add: tx_witness_wire_def ws)
    have small: "length (tx_witness_wire t) < 2 ^ 62"
      using assms by (auto simp: wf_tx_def tx_wire_def MAX_BLOCK_SERIALIZED_SIZE_def)
    have "length ws \<le> length (concat (map witness_wire ws))"
      by (rule witness_codec.length_concat_ser [OF ws(3)]) simp
    moreover have "ws \<noteq> []" using ws(2) assms by (auto simp: wf_tx_def)
    then have "0 < length ws" by simp
    ultimately have "0 < length (tx_witness_wire t)" unfolding w by (rule less_le_trans [rotated])
    with small have "0 < sint (cb_witnesses t)" "unat (cb_witnesses t) = length (tx_witness_wire t)"
      by (simp_all add: ws sint_u64_of_nat unat_of_length del: length_greater_0_conv)
    then show ?thesis using True ser w ws by (simp add: ser_witnesses_def)
  next
    case False
    with assms show ?thesis by (simp add: wf_tx_def tx_witness_wire_def)
  qed
  show ?thesis
    by (simp add: satoshi_tx_serialize_def sz si so sw tx_wire_def vec_wire_def)
qed

lemma parse_witnesses_wire:
  assumes "wf_tx t" "has_flag t"
  shows "parse_n parse_witness (length (txins t)) (tx_witness_wire t @ r)
      = Inr (the (witnesses t), length (tx_witness_wire t))"
    and "tx_witness_wire t \<noteq> []"
proof -
  from assms obtain ws where ws: "witnesses t = Some ws" "length ws = length (txins t)"
      "list_all wf_witness ws" "txins t \<noteq> []"
    by (auto simp: wf_tx_def)
  have w: "concat (map witness_wire ws) = tx_witness_wire t" by (simp add: tx_witness_wire_def ws)
  show "parse_n parse_witness (length (txins t)) (tx_witness_wire t @ r)
      = Inr (the (witnesses t), length (tx_witness_wire t))"
    using witness_codec.parse_n_ser [OF ws(3), of r] ws w by simp
  have "length ws \<le> length (tx_witness_wire t)"
    using witness_codec.length_concat_ser [OF ws(3)] w by simp
  with ws(2,4) show "tx_witness_wire t \<noteq> []" by auto
qed


lemma tx_parse_wire:
  assumes H: "hash_provider P sha ripemd" and wf: "wf_tx t"
    and cap: "length (tx_wire t @ r) \<le> MAX_BLOCK_SERIALIZED_SIZE"
  shows "satoshi_tx_parse P tx_zero (tx_wire t @ r)
    = Inr (t\<lparr>txid := sha (sha (tx_stripped t)),
             wtxid := (if has_flag t then sha (sha (tx_wire t)) else replicate 32 0)\<rparr>,
           length (tx_wire t))"
proof -
  define V where "V = enc32 (tx_version t)"
  define I where "I = vec_wire txin_wire (txins t)"
  define Q where "Q = vec_wire txout_wire (txouts t)"
  define W where "W = tx_witness_wire t"
  define L where "L = enc32 (lock_time t)"
  define F where "F = (if has_flag t then [0, 1 :: byte] else [])"
  note counts = wf_tx_counts [OF wf]
  have ins: "list_all wf_txin (txins t)" "txins t \<noteq> []"
    and outs: "list_all wf_txout (txouts t)" "txouts t \<noteq> []"
    using wf by (simp_all add: wf_tx_def)
  define R3 where "R3 = W @ L @ r"
  define R2 where "R2 = Q @ R3"
  define R1 where "R1 = I @ R2"
  define M where "M = V @ F @ R1"
  have M: "tx_wire t @ r = M"
    by (simp add: M_def R1_def R2_def R3_def V_def F_def I_def Q_def W_def L_def tx_wire_def)
  obtain k1 n1 where p1: "parse_vec (satoshi_txin_parse txin_zero) R1 = Inr (txins t, k1, n1)"
    and l1: "k1 + n1 = length I" and c1: "take k1 R1 @ take n1 (drop k1 R1) = I"
    using parse_vec_wire [OF txin_codec.wire_codec_axioms ins counts(1), of R2]
    by (auto simp: R1_def I_def)
  obtain k2 n2 where p2: "parse_vec (satoshi_txout_parse txout_zero) R2 = Inr (txouts t, k2, n2)"
    and l2: "k2 + n2 = length Q" and c2: "take k2 R2 @ take n2 (drop k2 R2) = Q"
    using parse_vec_wire [OF txout_codec.wire_codec_axioms outs counts(2), of R3]
    by (auto simp: R2_def Q_def)
  have d: "drop 4 M = F @ R1" "dec32 M = tx_version t" "\<not> length M < 4"
    "drop (k1 + n1) R1 = R2" "drop (k2 + n2) R2 = R3"
    unfolding l1 l2 by (auto simp: M_def V_def R1_def R2_def)
  have R1: "R1 \<noteq> []" using ins(2) by (auto simp: R1_def I_def vec_wire_def)
  have R1_0: "R1 ! 0 \<noteq> 0"
  proof -
    have "(of_nat (length (txins t)) :: u64) \<noteq> 0"
      using of_nat_u64_eq_iff [OF counts(1), of 0] ins(2) by simp
    then show ?thesis by (simp add: R1_def I_def vec_wire_def varint_first_byte)
  qed
  have R1_len: "2 \<le> length R1"
  proof -
    have "0 < length I" "4 \<le> length R3"
      using varint_calc_size_bounds(1) by (auto simp: I_def vec_wire_def R3_def L_def)
    then show ?thesis unfolding R1_def R2_def length_append by linarith
  qed
  have fin: "sha_final2 P (sha256_update P (sha256_update P (sha256_update P (sha256_update P
      (sha256_update P (sha256_update P (sha256_init P) V) (take k1 R1)) (take n1 (drop k1 R1)))
      (take k2 R2)) (take n2 (drop k2 R2))) L) = sha (sha (tx_stripped t))"
  proof -
    have "concat [V, take k1 R1, take n1 (drop k1 R1), take k2 R2, take n2 (drop k2 R2), L]
        = V @ (take k1 R1 @ take n1 (drop k1 R1)) @ (take k2 R2 @ take n2 (drop k2 R2)) @ L"
      by simp
    also have "\<dots> = tx_stripped t"
      unfolding c1 c2 by (simp add: tx_stripped_def V_def I_def Q_def L_def)
    finally show ?thesis
      using hash_provider.sha_absorb_final2 [OF H, of "[V, take k1 R1, take n1 (drop k1 R1),
        take k2 R2, take n2 (drop k2 R2), L]"]
      by (simp only: sha_absorb_def foldl.simps)
  qed
  have cap': "0 < length M \<and> length M \<le> MAX_BLOCK_SERIALIZED_SIZE"
    using cap d(3) M by auto
  have body: "parse_tx_body P M u sha' p
      = parse_tx_tail P M (u\<lparr>txins := txins t, txouts := txouts t\<rparr>) (sha256_update P (sha256_update P
        (sha256_update P (sha256_update P sha' (take k1 R1)) (take n1 (drop k1 R1)))
          (take k2 R2)) (take n2 (drop k2 R2))) (p + k1 + n1 + k2 + n2)"
    if "drop p M = R1" for u sha' p
    using that R1 by (simp add: parse_tx_body_def Let_def p1 p2 d del: drop_drop)
  have L: "length L = 4" "dec32 (L @ r) = lock_time t" by (auto simp: L_def)
  show ?thesis
  proof (cases "has_flag t")
    case True
    then have F: "F = [0, 1]" by (simp add: F_def)
    obtain ws where ws: "witnesses t = Some ws" "tx_flag t = [0, 1]" "cb_witnesses t = of_nat (length W)"
      using wf True by (auto simp: wf_tx_def W_def)
    note pw = parse_witnesses_wire [OF wf True, folded W_def]
    have pre: "drop 6 M = R1" by (simp add: M_def V_def F)
    have e: "6 + k1 + n1 + k2 + n2 = length V + length F + length I + length Q"
      using l1 l2 by (simp add: V_def F)
    have post: "drop (6 + k1 + n1 + k2 + n2) M = R3"
      "drop (6 + k1 + n1 + k2 + n2 + length W) M = L @ r"
      unfolding e by (simp_all add: M_def R1_def R2_def R3_def)
    have wit: "parse_tx_witnesses u R3
        = Inr (u\<lparr>cb_witnesses := of_nat (length W), witnesses := Some ws\<rparr>, length W)"
      if "has_flag u" "txins u = txins t" for u
      using that pw ws by (auto simp: parse_tx_witnesses_def R3_def L_def)
    have n: "6 + k1 + n1 + k2 + n2 + length W + 4 = length (tx_wire t)"
      using l1 l2 True by (simp add: tx_wire_def I_def Q_def W_def)
    have tk: "take (length (tx_wire t)) M = tx_wire t" by (simp flip: M)
    have h: "hash256 P (tx_wire t) = sha (sha (tx_wire t))"
      by (rule hash_provider.hash256_twice [OF H])
    have hd: "drop 4 M ! 0 = 0" "drop 4 M ! 1 = 1" "take 2 (drop 4 M) = [0, 1]"
      "\<not> length (drop 4 M) < 2"
      by (simp_all add: d F)
    have "satoshi_tx_parse P tx_zero M = parse_tx_body P M
        (tx_zero\<lparr>tx_version := tx_version t, has_flag := True, tx_flag := [0, 1]\<rparr>)
        (sha256_update P (sha256_init P) V) 6"
      using cap' hd d(3) by (simp add: satoshi_tx_parse_def Let_def d V_def del: drop_drop length_drop)
    then show ?thesis
      unfolding M using fin True ws tk h
      by (simp add: body [OF pre] parse_tx_tail_def post wit Let_def L n L_def [symmetric]
          tx_zero_def del: drop_drop length_drop)
  next
    case False
    then have F: "F = []" by (simp add: F_def)
    have t: "tx_flag t = [0, 0]" "witnesses t = None" "cb_witnesses t = 0" "W = []"
      using wf False by (auto simp: wf_tx_def W_def tx_witness_wire_def)
    have pre: "drop 4 M = R1" by (simp add: M_def V_def F)
    have e: "4 + k1 + n1 + k2 + n2 = length V + length F + length I + length Q"
      using l1 l2 by (simp add: V_def F)
    have post: "drop (4 + k1 + n1 + k2 + n2) M = L @ r"
      unfolding e by (simp_all add: M_def R1_def R2_def R3_def t)
    have n: "4 + k1 + n1 + k2 + n2 + 4 = length (tx_wire t)"
      using l1 l2 False t by (simp add: tx_wire_def I_def Q_def flip: W_def)
    have "satoshi_tx_parse P tx_zero M = parse_tx_body P M (tx_zero\<lparr>tx_version := tx_version t\<rparr>)
        (sha256_update P (sha256_init P) V) 4"
      using cap' d(3) R1_len R1_0 pre
      by (simp add: satoshi_tx_parse_def Let_def d(2) V_def del: drop_drop length_drop)
    then show ?thesis
      unfolding M using fin False t
      by (simp add: body [OF pre] parse_tx_tail_def parse_tx_witnesses_def post Let_def L n
          L_def [symmetric] tx_zero_def del: drop_drop length_drop)
  qed
qed

section \<open>What callers rely on\<close>

text \<open>C1. A well-formed transaction is written as its wire form, and parsing what was written
  (whatever follows it in the payload) uses exactly those bytes and gives the transaction back,
  with the transaction id the double SHA-256 of the form without witness data and, when there is
  witness data, the witness id the double SHA-256 of everything.\<close>

theorem tx_roundtrip:
  assumes "hash_provider P sha ripemd" "wf_tx t"
    and "length (tx_wire t @ r) \<le> MAX_BLOCK_SERIALIZED_SIZE"
  shows "\<exists>m. satoshi_tx_serialize t = Inr m
    \<and> satoshi_tx_parse P tx_zero (m @ r)
      = Inr (t\<lparr>txid := sha (sha (tx_stripped t)),
               wtxid := (if has_flag t then sha (sha m) else replicate 32 0)\<rparr>, length m)"
  using tx_serialize_wire [OF assms(2)] tx_parse_wire [OF assms] by auto

definition example_txin :: txin where
  "example_txin = txin_zero\<lparr>txin_outpoint := \<lparr>prev_hash = replicate 32 7, out_index = 1\<rparr>,
     txin_scripts := Some (mk_varstr [1, 2, 3]), cb_scripts := 3, txin_sequence := 0xfffffffe\<rparr>"

definition example_txout :: txout where
  "example_txout = \<lparr>txout_value = 5000, txout_scripts = Some (mk_varstr [0x76, 0xa9]),
     txout_flags = txout_type_legacy\<rparr>"

definition example_tx :: tx where
  "example_tx = tx_zero\<lparr>tx_version := 2, has_flag := True, tx_flag := [0, 1],
     txins := [example_txin], txouts := [example_txout], cb_witnesses := 4,
     witnesses := Some [\<lparr>num_items = 1, items = [mk_varstr [9, 9]]\<rparr>], lock_time := 17\<rparr>"

lemma example_txin_wf: "wf_txin example_txin"
proof -
  have "(\<lparr>prev_hash = replicate 32 7, out_index = 1\<rparr> = s_coinbase_outpoint) = False"
    by (simp add: s_coinbase_outpoint_def)
  then show ?thesis
    unfolding wf_txin_def example_txin_def
    by (intro exI [of _ "\<lparr>prev_hash = replicate 32 7, out_index = 1\<rparr>"] exI [of _ "[1, 2, 3]"]
        exI [of _ "0xfffffffe"]) (simp add: txin_zero_def)
qed

lemma example_tx_wf: "wf_tx example_tx"
proof -
  have "wf_txout example_txout"
    unfolding wf_txout_def example_txout_def
    by (intro exI [of _ 5000] exI [of _ "0x76"] exI [of _ "[0xa9]"]) simp
  moreover have "wf_varstr (mk_varstr [9, 9])"
    unfolding wf_varstr_def by (intro exI [of _ "[9, 9]"]) simp
  then have "wf_witness \<lparr>num_items = 1, items = [mk_varstr [9, 9]]\<rparr>" by (simp add: wf_witness_def)
  ultimately show ?thesis
    using example_txin_wf
    by (simp add: wf_tx_def example_tx_def tx_zero_def tx_witness_wire_def witness_wire_def
        tx_wire_def vec_wire_def MAX_BLOCK_SERIALIZED_SIZE_def length_mk_varstr
        varint_calc_size_def txin_wire_def example_txin_def txin_zero_def txout_wire_def
        example_txout_def outpoint_bytes_def)
qed

theorem tx_roundtrip_witness:
  "\<exists>m. satoshi_tx_serialize example_tx = Inr m
    \<and> satoshi_tx_parse (recording_ops id id) tx_zero (m @ [1, 2])
      = Inr (example_tx\<lparr>txid := fit 32 id (fit 32 id (tx_stripped example_tx)),
               wtxid := fit 32 id (fit 32 id m)\<rparr>, length m)"
proof -
  have "length (tx_wire example_tx @ [1, 2]) \<le> MAX_BLOCK_SERIALIZED_SIZE"
    by (simp add: example_tx_def tx_zero_def tx_witness_wire_def witness_wire_def
        tx_wire_def vec_wire_def MAX_BLOCK_SERIALIZED_SIZE_def length_mk_varstr
        varint_calc_size_def txin_wire_def example_txin_def txin_zero_def txout_wire_def
        example_txout_def outpoint_bytes_def)
  moreover have "has_flag example_tx" by (simp add: example_tx_def)
  ultimately show ?thesis
    using tx_roundtrip [OF recording.hash_provider_axioms example_tx_wf] by simp
qed

lemma parse_vec_bound:
  assumes "bounded_parser f" "parse_vec f m = Inr (xs, k, n)"
  shows "k + n \<le> length m \<and> 0 < k \<and> xs \<noteq> [] \<and> length xs \<le> n"
proof -
  from assms(2) obtain c where c: "parse_varint m = Inr (c, k)" "0 < sint c"
    and p: "parse_n f (nat (sint c)) (drop k m) = Inr (xs, n)"
    by (auto simp: parse_vec_def res_simps)
  have "n \<le> length (drop k m) \<and> length xs = nat (sint c) \<and> nat (sint c) \<le> n"
    by (rule bounded_parser.parse_n_bound [OF assms(1) p])
  with c parse_varint_bound [OF c(1)] show ?thesis by auto
qed

lemma parse_tx_start:
  assumes "satoshi_tx_parse P t m = Inr (x, n)"
  shows "\<exists>f u p. parse_tx_body P m u (sha256_update P (sha256_init P) (enc32 (dec32 m))) p = Inr (x, n)
    \<and> (f = [] \<or> f = [0, 1]) \<and> take p m = take 4 m @ f \<and> p = 4 + length f
    \<and> has_flag u = (f \<noteq> [] \<or> has_flag t) \<and> tx_version u = dec32 m \<and> 4 \<le> length m
    \<and> witnesses u = witnesses t"
proof -
  define m1 where "m1 = drop 4 m"
  define c where "c = sha256_update P (sha256_init P) (enc32 (dec32 m))"
  have g: "4 \<le> length m" "2 \<le> length m1"
    using assms by (auto simp: satoshi_tx_parse_def Let_def m1_def split: if_splits)
  obtain a b q where m1: "m1 = a # b # q" using g(2) by (cases m1; cases "tl m1") auto
  have m: "m = take 4 m @ m1" by (simp add: m1_def)
  have t6: "take 6 m = take 4 m @ [a, b]"
    using g m1 by (subst m) (simp add: min_def)
  show ?thesis
  proof (cases "a = 0")
    case True
    then have "b = 1 \<and> parse_tx_body P m (t\<lparr>tx_version := dec32 m, has_flag := True, tx_flag := take 2 m1\<rparr>) c 6
        = Inr (x, n)"
      using assms m1 by (auto simp: satoshi_tx_parse_def Let_def c_def m1_def [symmetric]
          simp del: length_drop split: if_splits)
    with True t6 g show ?thesis
      unfolding c_def
      by (intro exI [of _ "[0, 1]"] exI [of _ "t\<lparr>tx_version := dec32 m, has_flag := True,
        tx_flag := take 2 m1\<rparr>"] exI [of _ 6]) simp
  next
    case False
    then have "parse_tx_body P m (t\<lparr>tx_version := dec32 m\<rparr>) c 4 = Inr (x, n)"
      using assms m1 by (auto simp: satoshi_tx_parse_def Let_def c_def m1_def [symmetric]
          simp del: length_drop split: if_splits)
    with g show ?thesis
      unfolding c_def
      by (intro exI [of _ "[]"] exI [of _ "t\<lparr>tx_version := dec32 m\<rparr>"] exI [of _ 4]) simp
  qed
qed

text \<open>A parser that uses exactly the text of what it gives.\<close>

locale text_parser = bounded_parser parse for parse :: "bytes \<Rightarrow> ('a \<times> nat) res" +
  fixes text_of :: "bytes \<Rightarrow> 'a \<Rightarrow> bool"
  assumes parse_text: "parse m = Inr (x, n) \<Longrightarrow> text_of (take n m) x"
begin

lemma parse_n_text:
  "parse_n parse k m = Inr (xs, n) \<Longrightarrow> \<exists>bs. take n m = concat bs \<and> list_all2 text_of bs xs"
proof (induction k arbitrary: m xs n)
  case 0
  then show ?case by simp
next
  case (Suc k)
  from Suc.prems obtain x a ys b where
    1: "parse m = Inr (x, a)" "parse_n parse k (drop a m) = Inr (ys, b)" "xs = x # ys" "n = a + b"
    by (auto simp: andThen_Inr_iff split: if_splits)
  obtain bs where "take b (drop a m) = concat bs" "list_all2 text_of bs ys" using Suc.IH [OF 1(2)] by blast
  with 1 parse_text [OF 1(1)] show ?case by (intro exI [of _ "take a m # bs"]) (simp add: take_add)
qed

end

text \<open>An integer as it stands in the payload, in the shortest form or not, and a count of elements.\<close>

definition varint_text :: "bytes \<Rightarrow> u64 \<Rightarrow> bool" where
  "varint_text c v \<longleftrightarrow> varint_size c = Inr (length c) \<and> varint_get c = Inr v"

definition witness_text :: "bytes \<Rightarrow> witness \<Rightarrow> bool" where
  "witness_text b w \<longleftrightarrow> (\<exists>c. varint_text c (num_items w) \<and> b = c @ concat (items w)
     \<and> length (items w) = nat (sint (num_items w)))"

lemma parse_varint_text: "parse_varint m = Inr (v, k) \<Longrightarrow> varint_text (take k m) v"
proof -
  assume "parse_varint m = Inr (v, k)"
  then have m: "varint_size m = Inr k" "k \<le> length m" "varint_get m = Inr v" "m \<noteq> []"
    by (auto simp: parse_varint_def res_simps split: if_splits)
  then obtain c r where r: "m = c # r" by (cases m) auto
  consider "c < 0xFD" | "\<not> c < 0xFD" "c = 0xFD" | "\<not> c < 0xFD" "c \<noteq> 0xFD" "c = 0xFE" | "\<not> c < 0xFD" "c \<noteq> 0xFD" "c \<noteq> 0xFE" by blast
  then show ?thesis
    by cases (use m r in \<open>auto simp: varint_text_def varint_size_def varint_get_def mem_read_def min_def split: if_splits\<close>)
qed

lemma take_varstr_text: "take_varstr m = Inr (v, n) \<Longrightarrow> take n m = v \<and> n \<le> length m"
  by (auto simp: take_varstr_def varstr_clone_def res_simps split: if_splits)

lemma txin_parse_text:
  assumes "satoshi_txin_parse t m = Inr (x, n)"
  shows "take n m = txin_wire x"
proof -
  obtain v k where v: "take_varstr (drop 36 m) = Inr (v, k)" "n = 36 + k + 4" "\<not> length (drop k (drop 36 m)) < 4"
    and x: "txin_outpoint x = \<lparr>prev_hash = take 32 m, out_index = dec32 (drop 32 m)\<rparr>" "txin_scripts x = Some v"
      "txin_sequence x = dec32 (drop k (drop 36 m))" "36 \<le> length m"
    using assms by (auto simp: satoshi_txin_parse_def Let_def res_simps split: if_splits)
  have "take n m = take 32 m @ take 4 (drop 32 m) @ take k (drop 36 m) @ take 4 (drop k (drop 36 m))"
  proof -
    have "take (32 + 4 + k + 4) m = ((take 32 m @ take 4 (drop 32 m)) @ take k (drop (32 + 4) m)) @ take 4 (drop (32 + 4 + k) m)"
      by (simp only: take_add)
    then show ?thesis by (simp add: v(2) add.commute)
  qed
  then show ?thesis using v take_varstr_text [OF v(1)] x by (simp add: txin_wire_def outpoint_bytes_def enc_dec)
qed

lemma txout_parse_text:
  assumes "satoshi_txout_parse t m = Inr (x, n)"
  shows "take n m = txout_wire x"
proof -
  obtain v k where v: "take_varstr (drop 8 m) = Inr (v, k)" "n = 8 + k" "8 \<le> length m"
    and x: "txout_value x = dec64 m" "txout_scripts x = Some v"
    using assms by (auto simp: satoshi_txout_parse_def Let_def res_simps split: if_splits list.splits)
  have "take n m = take 8 m @ take k (drop 8 m)" by (simp only: v(2) take_add)
  then show ?thesis using take_varstr_text [OF v(1)] v x by (simp add: txout_wire_def enc_dec)
qed

interpretation txin_texts: text_parser "satoshi_txin_parse t" "\<lambda>b x. b = txin_wire x" for t
  by unfold_locales (rule txin_parse_text)

interpretation txout_texts: text_parser "satoshi_txout_parse t" "\<lambda>b x. b = txout_wire x" for t
  by unfold_locales (rule txout_parse_text)

interpretation varstr_texts: text_parser parse_varstr "\<lambda>b x. b = x"
  by unfold_locales (auto simp: parse_varstr_def varstr_clone_def res_simps split: if_splits)

lemma list_all2_eq_map: "list_all2 (\<lambda>b x. b = f x) bs xs \<longleftrightarrow> bs = map f xs"
  by (induction xs arbitrary: bs) (auto simp: list_all2_Cons2)

lemma parse_witness_text:
  assumes "parse_witness m = Inr (w, n)"
  shows "witness_text (take n m) w"
proof -
  obtain c k where c: "parse_varint m = Inr (c, k)"
    and w: "if 0 < sint c then \<exists>xs j. parse_n parse_varstr (nat (sint c)) (drop k m) = Inr (xs, j)
        \<and> w = \<lparr>num_items = c, items = xs\<rparr> \<and> n = k + j
      else w = \<lparr>num_items = c, items = []\<rparr> \<and> n = k"
    using assms by (auto simp: parse_witness_def res_simps split: if_splits)
  show ?thesis
  proof (cases "0 < sint c")
    case True
    then obtain xs j where xs: "parse_n parse_varstr (nat (sint c)) (drop k m) = Inr (xs, j)" "w = \<lparr>num_items = c, items = xs\<rparr>" "n = k + j"
      using w by auto
    obtain bs where bs: "take j (drop k m) = concat bs" "list_all2 (\<lambda>b x. b = x) bs xs"
      using varstr_texts.parse_n_text [OF xs(1)] by blast
    then have "bs = xs" by (simp flip: list.rel_eq)
    then show ?thesis
      using xs bs(1) parse_varint_text [OF c] varstr_bounded.parse_n_bound [OF xs(1)] by (auto simp: witness_text_def take_add)
  qed (use w parse_varint_text [OF c] in \<open>auto simp: witness_text_def\<close>)
qed

interpretation witness_texts: text_parser parse_witness witness_text
  by unfold_locales (rule parse_witness_text)

text \<open>The sections of inputs and outputs.\<close>

lemma parse_vec_text:
  assumes "text_parser f (\<lambda>b x. b = wire x)" "parse_vec f m = Inr (xs, k, n)"
  shows "varint_text (take k m) (of_nat (length xs)) \<and> take n (drop k m) = concat (map wire xs)"
proof -
  from assms(2) obtain c where c: "parse_varint m = Inr (c, k)" "0 < sint c"
    and p: "parse_n f (nat (sint c)) (drop k m) = Inr (xs, n)"
    by (auto simp: parse_vec_def res_simps)
  obtain bs where "take n (drop k m) = concat bs" "list_all2 (\<lambda>b x. b = wire x) bs xs"
    using text_parser.parse_n_text [OF assms(1) p] by blast
  moreover have "length xs = nat (sint c)"
    using bounded_parser.parse_n_bound [OF text_parser.axioms(1) [OF assms(1)] p] by simp
  moreover have "(of_nat (nat (sint c)) :: u64) = c" using c(2) by simp
  ultimately show ?thesis using parse_varint_text [OF c(1)] by (simp add: list_all2_eq_map)
qed

lemma parse_tx_witnesses_inv:
  assumes "parse_tx_witnesses u m = Inr (t2, k)" "txins u \<noteq> []"
  shows "has_flag t2 = has_flag u \<and> tx_version t2 = tx_version u \<and> txins t2 = txins u \<and> txouts t2 = txouts u
    \<and> (\<exists>wits. take k m = concat wits
      \<and> (if wits = [] then witnesses t2 = witnesses u
         else has_flag u \<and> (\<exists>ws. witnesses t2 = Some ws \<and> length ws = length (txins u) \<and> list_all2 witness_text wits ws)))"
proof (cases "has_flag u \<and> 4 < length m")
  case True
  with assms obtain ws where ws: "parse_n parse_witness (length (txins u)) m = Inr (ws, k)"
    "t2 = u\<lparr>cb_witnesses := of_nat k, witnesses := Some ws\<rparr>"
    by (auto simp: parse_tx_witnesses_def res_simps)
  obtain bs where "take k m = concat bs" "list_all2 witness_text bs ws" using witness_texts.parse_n_text [OF ws(1)] by blast
  moreover have "length ws = length (txins u)" using witness_bounded.parse_n_bound [OF ws(1)] by simp
  ultimately show ?thesis using True ws(2) assms(2) by (intro conjI exI [of _ bs]) auto
next
  case False
  with assms show ?thesis by (auto simp: parse_tx_witnesses_def split: if_splits intro!: exI [of _ "[]"])
qed

lemma tx_layout:
  assumes H: "hash_provider P sha ripemd" and ok: "satoshi_tx_parse P t m = Inr (x, n)"
  shows "\<exists>f ci co wits. n \<le> length m
    \<and> take n m = enc32 (tx_version x) @ f @ ci @ concat (map txin_wire (txins x)) @ co @ concat (map txout_wire (txouts x))
        @ concat wits @ enc32 (lock_time x)
    \<and> (f = [] \<or> f = [0, 1]) \<and> has_flag x = (f \<noteq> [] \<or> has_flag t)
    \<and> varint_text ci (of_nat (length (txins x))) \<and> txins x \<noteq> [] \<and> varint_text co (of_nat (length (txouts x))) \<and> txouts x \<noteq> []
    \<and> (if wits = [] then witnesses x = witnesses t
       else has_flag x \<and> (\<exists>ws. witnesses x = Some ws \<and> length ws = length (txins x) \<and> list_all2 witness_text wits ws))
    \<and> txid x = sha (sha (enc32 (tx_version x) @ ci @ concat (map txin_wire (txins x)) @ co @ concat (map txout_wire (txouts x))
        @ enc32 (lock_time x)))
    \<and> (has_flag x \<longrightarrow> wtxid x = sha (sha (take n m)))"
proof -
  from parse_tx_start [OF ok] obtain f u p where st:
    "parse_tx_body P m u (sha256_update P (sha256_init P) (enc32 (dec32 m))) p = Inr (x, n)"
    and f: "f = [] \<or> f = [0, 1]" "take p m = take 4 m @ f" "p = 4 + length f"
      "has_flag u = (f \<noteq> [] \<or> has_flag t)" "tx_version u = dec32 m" "4 \<le> length m" "witnesses u = witnesses t"
    by blast
  define m2 where "m2 = drop p m"
  obtain ins k1 n1 outs k2 n2 c where
    p1: "parse_vec (satoshi_txin_parse txin_zero) m2 = Inr (ins, k1, n1)" and
    p2: "parse_vec (satoshi_txout_parse txout_zero) (drop (k1 + n1) m2) = Inr (outs, k2, n2)" and
    tl: "parse_tx_tail P m (u\<lparr>txins := ins, txouts := outs\<rparr>) c (p + k1 + n1 + k2 + n2) = Inr (x, n)" and
    c: "c = sha_absorb P [enc32 (dec32 m), take k1 m2, take n1 (drop k1 m2),
      take k2 (drop (k1 + n1) m2), take n2 (drop k2 (drop (k1 + n1) m2))]"
    using st by (auto simp: parse_tx_body_def Let_def res_simps sha_absorb_def m2_def
        simp del: drop_drop)
  define m3 where "m3 = drop (k1 + n1) m2"
  define s where "s = p + k1 + n1 + k2 + n2"
  obtain t2 k where w: "parse_tx_witnesses (u\<lparr>txins := ins, txouts := outs\<rparr>) (drop s m) = Inr (t2, k)"
    and len: "4 \<le> length (drop (s + k) m)" and n: "n = s + k + 4"
    and x: "x = (let t3 = t2\<lparr>lock_time := dec32 (drop (s + k) m),
        txid := sha_final2 P (sha256_update P c (enc32 (dec32 (drop (s + k) m))))\<rparr>
      in if has_flag t3 then t3\<lparr>wtxid := hash256 P (take n m)\<rparr> else t3)"
    using tl by (auto simp: parse_tx_tail_def Let_def res_simps s_def [symmetric] not_less
        simp del: length_drop)
  define l where "l = enc32 (dec32 (drop (s + k) m))"
  have b: "ins \<noteq> []" "outs \<noteq> []"
    using parse_vec_bound [OF txin_bounded.bounded_parser_axioms p1] parse_vec_bound [OF txout_bounded.bounded_parser_axioms p2] by simp_all
  have pw: "has_flag t2 = has_flag u" "tx_version t2 = dec32 m" "txins t2 = ins" "txouts t2 = outs"
      "\<exists>wits. take k (drop s m) = concat wits
        \<and> (if wits = [] then witnesses t2 = witnesses t
           else has_flag u \<and> (\<exists>ws. witnesses t2 = Some ws \<and> length ws = length ins \<and> list_all2 witness_text wits ws))"
    using parse_tx_witnesses_inv [OF w] b(1) f(5,7) by (simp_all cong: if_cong)
  then obtain wits where wi: "take k (drop s m) = concat wits"
      "if wits = [] then witnesses t2 = witnesses t
       else has_flag u \<and> (\<exists>ws. witnesses t2 = Some ws \<and> length ws = length ins \<and> list_all2 witness_text wits ws)"
    by (elim exE conjE)
  note t1 = parse_vec_text [OF txin_texts.text_parser_axioms p1] and t2 = parse_vec_text [OF txout_texts.text_parser_axioms p2, folded m3_def]
  have split: "take n m = take 4 m @ f @ take k1 m2 @ concat (map txin_wire ins) @ take k2 m3 @ concat (map txout_wire outs)
      @ concat wits @ l"
  proof -
    have e: "p + (k1 + n1) + (k2 + n2) = s" by (simp add: s_def)
    have e1: "drop (p + (k1 + n1)) m = m3" by (simp add: m2_def m3_def add.commute)
    have "n = p + (k1 + n1) + (k2 + n2) + k + 4" by (simp add: n e)
    then have "take n m = ((((take p m @ take (k1 + n1) (drop p m)) @ take (k2 + n2) (drop (p + (k1 + n1)) m))
        @ take k (drop (p + (k1 + n1) + (k2 + n2)) m)) @ take 4 (drop (p + (k1 + n1) + (k2 + n2) + k) m))"
      by (simp only: take_add)
    then have "take n m = take p m @ take (k1 + n1) m2 @ take (k2 + n2) m3 @ concat wits @ take 4 (drop (s + k) m)"
      unfolding e e1 m2_def [symmetric] wi(1) by (simp only: append_assoc)
    then show ?thesis using len f t1 t2 by (simp add: l_def enc_dec take_add)
  qed
  have ver: "take 4 m = enc32 (dec32 m)" using f by (simp add: enc_dec)
  have id: "sha_final2 P (sha256_update P c l)
      = sha (sha (take 4 m @ take k1 m2 @ concat (map txin_wire ins) @ take k2 m3 @ concat (map txout_wire outs) @ l))"
    using hash_provider.sha_absorb_final2 [OF H, of "[enc32 (dec32 m), take k1 m2,
      take n1 (drop k1 m2), take k2 m3, take n2 (drop k2 m3), l]"] t1 t2
    by (simp add: c sha_absorb_snoc m3_def ver del: drop_drop)
  have x': "tx_version x = dec32 m" "has_flag x = has_flag u" "txins x = ins" "txouts x = outs" "witnesses x = witnesses t2"
      "lock_time x = dec32 (drop (s + k) m)" "txid x = sha_final2 P (sha256_update P c l)" "has_flag u \<Longrightarrow> wtxid x = hash256 P (take n m)"
    using pw(1-4) by (simp_all add: x Let_def l_def)
  have "n \<le> length m" using len by (simp add: n)
  then show ?thesis
    unfolding x'(1-5)
    by (intro exI [of _ f] exI [of _ "take k1 m2"] exI [of _ "take k2 m3"] exI [of _ wits])
      (use split wi(2) b f(1,4) t1 t2 ver id x'(6-8) hash_provider.hash256_twice [OF H] in
        \<open>simp add: l_def split del: if_split\<close>)
qed

text \<open>C14. Whatever payload the transaction parser accepts, the bytes it uses lie inside the payload and are the
  text of the transaction that it gives: the version; the marker 00 01 or none; the count of inputs, at least one, and the
  outpoint, script and sequence number of each; the count of outputs, at least one, and the value and script of each;
  for each input the count of its witness items and the items, if there is witness data, which there is only with
  the marker (or a flag left set by the caller); and the lock time. The transaction id is the
  double SHA-256 of this text without marker and witness data, and the witness id that of all bytes used.\<close>

theorem tx_parse_layout:
  assumes H: "hash_provider P sha ripemd" and ok: "satoshi_tx_parse P t m = Inr (x, n)"
  shows "\<exists>f ci co wits. n \<le> length m
    \<and> take n m = enc32 (tx_version x) @ f @ ci @ concat (map txin_wire (txins x)) @ co @ concat (map txout_wire (txouts x))
        @ concat wits @ enc32 (lock_time x)
    \<and> (f = [] \<or> f = [0, 1]) \<and> has_flag x = (f \<noteq> [] \<or> has_flag t)
    \<and> varint_text ci (of_nat (length (txins x))) \<and> txins x \<noteq> [] \<and> varint_text co (of_nat (length (txouts x))) \<and> txouts x \<noteq> []
    \<and> (if wits = [] then witnesses x = witnesses t
       else has_flag x \<and> (\<exists>ws. witnesses x = Some ws \<and> length ws = length (txins x) \<and> list_all2 witness_text wits ws))
    \<and> txid x = sha (sha (enc32 (tx_version x) @ ci @ concat (map txin_wire (txins x)) @ co @ concat (map txout_wire (txouts x))
        @ enc32 (lock_time x)))
    \<and> (has_flag x \<longrightarrow> wtxid x = sha (sha (take n m)))"
  by (rule tx_layout [OF assms])

theorem tx_parse_layout_witness:
  "\<exists>x n f ci co wits. satoshi_tx_parse (recording_ops id id) tx_zero (tx_wire example_tx) = Inr (x, n) \<and> n \<le> length (tx_wire example_tx)
    \<and> take n (tx_wire example_tx) = enc32 (tx_version x) @ f @ ci @ concat (map txin_wire (txins x)) @ co
        @ concat (map txout_wire (txouts x)) @ concat wits @ enc32 (lock_time x)
    \<and> txid x = fit 32 id (fit 32 id (enc32 (tx_version x) @ ci @ concat (map txin_wire (txins x)) @ co
        @ concat (map txout_wire (txouts x)) @ enc32 (lock_time x)))"
proof -
  have "length (tx_wire example_tx) \<le> MAX_BLOCK_SERIALIZED_SIZE"
    using example_tx_wf by (simp add: wf_tx_def)
  then have "\<exists>x n. satoshi_tx_parse (recording_ops id id) tx_zero (tx_wire example_tx) = Inr (x, n)"
    using tx_parse_wire [OF recording.hash_provider_axioms example_tx_wf, of "[]"] by auto
  then obtain x n where
    p: "satoshi_tx_parse (recording_ops id id) tx_zero (tx_wire example_tx) = Inr (x, n)" by blast
  from tx_parse_layout [OF recording.hash_provider_axioms p] p show ?thesis by blast
qed

text \<open>A redeem script that was set is the one later queries give.\<close>

lemma redeem_scripts_set_query:
  assumes "length d < 2 ^ 62"
  shows "\<exists>t'. satoshi_txin_set_redeem_scripts t (Some d) (of_nat (length d)) = Inr t'
    \<and> satoshi_txin_query_redeem_scripts_data t' = Inr d
    \<and> satoshi_txin_get_redeem_scripts t' = Inr (if d = [] then None else Some (mk_varstr d))"
proof -
  let ?t = "t\<lparr>redeem_scripts := Some (mk_varstr d), redeem_scripts_start_pos := 0\<rparr>"
  have s: "satoshi_txin_set_redeem_scripts t (Some d) (of_nat (length d)) = Inr ?t"
    using varstr_new_some [OF assms, of "[]"] by (simp add: satoshi_txin_set_redeem_scripts_def)
  have n: "sint (of_nat (length d) :: u64) = int (length d)" using assms by (simp add: sint_u64_of_nat)
  have q: "satoshi_txin_query_redeem_scripts_data ?t = Inr d"
    using n by (simp add: satoshi_txin_query_redeem_scripts_data_def varstr_length_def
        unat_of_length [OF assms] mem_read_def)
  have g: "satoshi_txin_get_redeem_scripts ?t = Inr (if d = [] then None else Some (mk_varstr d))"
    using n varstr_new_some [OF assms, of "[]"]
    by (simp add: satoshi_txin_get_redeem_scripts_def varstr_length_def)
  from s q g show ?thesis by blast
qed

text \<open>The parser as a codec for transactions that carry their ids.\<close>

definition wf_tx_ids :: "(bytes \<Rightarrow> bytes) \<Rightarrow> tx \<Rightarrow> bool" where
  "wf_tx_ids sha t \<longleftrightarrow> wf_tx t \<and> txid t = sha (sha (tx_stripped t))
     \<and> wtxid t = (if has_flag t then sha (sha (tx_wire t)) else replicate 32 0)"

lemma tx_bounded:
  assumes "hash_provider P sha ripemd"
  shows "bounded_parser (satoshi_tx_parse P t)"
proof
  fix m x n
  assume "satoshi_tx_parse P t m = Inr (x, n)"
  from tx_layout [OF assms this] obtain v r where "take n m = enc32 v @ r" "n \<le> length m" by blast
  moreover have "enc32 v \<noteq> []" by (metis length_enc(2) list.size(3) zero_neq_numeral)
  ultimately show "0 < n \<and> n \<le> length m" by (cases n) auto
qed

lemma tx_codec:
  assumes "hash_provider P sha ripemd"
  shows "wire_codec (satoshi_tx_parse P tx_zero) tx_wire (wf_tx_ids sha) (\<lambda>n. n \<le> MAX_BLOCK_SERIALIZED_SIZE)"
proof (rule wire_codec.intro [OF tx_bounded [OF assms]], unfold_locales)
  fix x r
  assume "wf_tx_ids sha x" and "length (tx_wire x @ r) \<le> MAX_BLOCK_SERIALIZED_SIZE"
  moreover from this(1) have "x\<lparr>txid := sha (sha (tx_stripped x)),
      wtxid := (if has_flag x then sha (sha (tx_wire x)) else replicate 32 0)\<rparr> = x"
    by (simp add: wf_tx_ids_def)
  ultimately show "satoshi_tx_parse P tx_zero (tx_wire x @ r) = Inr (x, length (tx_wire x))"
    using tx_parse_wire [OF assms, of x r] by (simp add: wf_tx_ids_def)
qed simp

text \<open>The size computed without a destination is the length of what is written.\<close>

lemma sum_sizes_val:
  "(\<And>x. x \<in> set xs \<Longrightarrow> f x = Inr (of_nat (length (g x))) \<and> 0 < sint (of_nat (length (g x)) :: u64)) \<Longrightarrow>
   sum_sizes f xs = Inr (of_nat (length (concat (map g xs))))"
  by (induction xs) (simp_all add: not_le)

lemma tx_size_wire:
  assumes "wf_tx t"
  shows "satoshi_tx_size t = Inr (of_nat (length (tx_wire t)))"
    and "0 < sint (of_nat (length (tx_wire t)) :: u64)"
proof -
  have i: "sum_sizes satoshi_txin_size (txins t) = Inr (of_nat (length (concat (map txin_wire (txins t)))))"
    by (rule sum_sizes_val)
      (use assms txin_serialize_wire in \<open>simp add: wf_tx_def list_all_iff\<close>)
  have o: "sum_sizes satoshi_txout_size (txouts t) = Inr (of_nat (length (concat (map txout_wire (txouts t)))))"
    by (rule sum_sizes_val)
      (use assms txout_serialize_wire in \<open>simp add: wf_tx_def list_all_iff\<close>)
  have w: "(if has_flag t then cb_witnesses t else 0) = (of_nat (length (tx_witness_wire t)) :: u64)"
    using assms by (auto simp: wf_tx_def tx_witness_wire_def)
  show "satoshi_tx_size t = Inr (of_nat (length (tx_wire t)))"
    using w by (simp add: satoshi_tx_size_def i o tx_wire_def vec_wire_def algebra_simps)
  have "length (tx_wire t) \<le> 4000000" using assms by (simp add: wf_tx_def MAX_BLOCK_SERIALIZED_SIZE_def)
  then have "sint (of_nat (length (tx_wire t)) :: u64) = int (length (tx_wire t))"
    by (intro sint_u64_of_nat) simp
  moreover have "0 < length (tx_wire t)" by (simp add: tx_wire_def)
  ultimately show "0 < sint (of_nat (length (tx_wire t)) :: u64)" by simp
qed

end
