(* ===== verification/Uint256.thy ===== *)
theory Uint256
  imports Encodings
begin

unbundle bit_operations_syntax

text \<open>
  256-bit integers and their compact form (\<open>src/satoshi-types.c\<close>, \<open>src/compact_int.c\<close>). A
  \<open>uint256_t\<close> is its 32 bytes, read as a little-endian number (\<open>le_val\<close>); a
  \<open>compact_uint256_t\<close> is its 32 \<open>bits\<close>, of which the union names the low three bytes
  \<open>mantissa\<close> and the top one \<open>exp\<close>. The quotients that the code computes in floating point
  are not modelled.
\<close>

section \<open>Byte order and text\<close>

definition bswap_64 :: "bytes \<Rightarrow> bytes" where
  "bswap_64 w = rev (take 8 w)"

definition uint256_reverse :: "bytes \<Rightarrow> bytes" where
  "uint256_reverse v =
     bswap_64 (drop 24 v) @ bswap_64 (drop 16 v) @ bswap_64 (drop 8 v) @ bswap_64 v"

text \<open>Without a destination the routine allocates 33 bytes for 64 characters.\<close>

definition uint256_to_string :: "bytes \<Rightarrow> bool \<Rightarrow> nat option \<Rightarrow> bytes res" where
  "uint256_to_string v to_little_endian room =
     (let cap = (case room of None \<Rightarrow> 33 | Some n \<Rightarrow> n);
          text = bin2hex (if to_little_endian then uint256_reverse v else v)
      in if cap < length text then Inl Undefined else Inr text)"

definition uint256_from_string :: "bool \<Rightarrow> bytes \<Rightarrow> (bytes \<times> nat) res" where
  "uint256_from_string from_little_endian hex =
     (if \<not> (length hex \<le> 64 \<and> length hex mod 2 = 0) then Inl Abort
      else case hex2bin hex of
          Inl Reject \<Rightarrow> Inl Abort
        | Inl e \<Rightarrow> Inl e
        | Inr data \<Rightarrow>
            let cb = length data
            in Inr (if cb = 0 then replicate 32 0
                    else if from_little_endian then uint256_reverse (data @ replicate (32 - cb) 0)
                    else replicate (32 - cb) 0 @ data, cb))"

section \<open>Comparison and addition\<close>

fun uint256_compare_from :: "nat \<Rightarrow> bytes \<Rightarrow> bytes \<Rightarrow> int" where
  "uint256_compare_from 0 a b = 0"
| "uint256_compare_from (Suc i) a b =
     (let x = dec64 (drop (8 * i) a); y = dec64 (drop (8 * i) b)
      in if x = y then uint256_compare_from i a b else if y < x then 1 else -1)"

definition uint256_compare :: "bytes \<Rightarrow> bytes \<Rightarrow> int" where
  "uint256_compare a b = uint256_compare_from 4 a b"

text \<open>
  The sum is computed with unbounded integers; the export writes as many 32-byte words as the sum
  has, into room for one. The count of words written is asserted to be one, so a sum of zero
  (no words) stops the process.
\<close>

definition uint256_add :: "bytes \<Rightarrow> bytes \<Rightarrow> bytes res" where
  "uint256_add a b =
     (let s = le_val a + le_val b
      in if s = 0 then Inl Abort
         else if 2 ^ 256 \<le> s then Inl Undefined
         else Inr (le_bytes 32 s))"

section \<open>Compact integers\<close>

definition compact_exp :: "u32 \<Rightarrow> nat" where
  "compact_exp c = unat (enc32 c ! 3)"

definition compact_mantissa :: "u32 \<Rightarrow> bytes" where
  "compact_mantissa c = take 3 (enc32 c)"

definition compact_make :: "bytes \<Rightarrow> nat \<Rightarrow> u32" where
  "compact_make m e = dec32 (m @ [word_of_nat e])"

definition compact_uint256_NaN :: u32 where "compact_uint256_NaN = 0xffffffff"
definition uint256_NaN :: bytes where "uint256_NaN = replicate 32 0xff"

definition trailing_zeros :: "bytes \<Rightarrow> nat" where
  "trailing_zeros v = length (takeWhile (\<lambda>b. b = 0) (rev v))"

definition uint256_to_compact :: "bytes \<Rightarrow> u32" where
  "uint256_to_compact target =
     (let num_zeros = trailing_zeros target; p_end = 32 - num_zeros
      in if num_zeros = 32 then 0
         else let borrow = (target ! (p_end - 1) AND 0x80 \<noteq> 0)
         in if borrow \<and> num_zeros = 0 then compact_uint256_NaN
         else let p_end = (if borrow then p_end + 1 else p_end);
                  num_zeros = (if borrow then num_zeros - 1 else num_zeros);
                  exp = 32 - num_zeros;
                  num_bytes = (if 32 \<le> exp + 3 then 32 - exp else 3);
                  num_bytes = (if 32 \<le> num_zeros + num_bytes then 32 - num_zeros else num_bytes);
                  mantissa = take num_bytes (drop (p_end - num_bytes) target)
         in compact_make (mantissa @ replicate (3 - num_bytes) 0) exp)"

definition compact_to_uint256 :: "u32 \<Rightarrow> bytes" where
  "compact_to_uint256 c =
     (let exp = compact_exp c
      in if 32 < exp then uint256_NaN
         else let num_zeros = 32 - exp;
                  num_bytes = (if exp < 3 then exp else 3);
                  num_bytes = (if 32 \<le> num_zeros + num_bytes then 32 - num_zeros else num_bytes)
         in replicate (exp - num_bytes) 0 @ take num_bytes (compact_mantissa c)
            @ replicate (32 - exp) 0)"

text \<open>All arithmetic of the comparison stays far inside an \<open>int\<close>.\<close>

definition compact_uint256_compare :: "u32 \<Rightarrow> u32 \<Rightarrow> int" where
  "compact_uint256_compare a b =
     (let norm = (\<lambda>c. let v = int (le_val (compact_mantissa c)); e = int (compact_exp c)
                      in if compact_mantissa c ! 2 = 0 \<and> compact_mantissa c ! 1 AND 0x80 \<noteq> 0
                         then (v * 256, e - 1) else (v, e));
          (value_a, exp_a) = norm a;
          (value_b, exp_b) = norm b
      in if exp_a = exp_b then value_a - value_b else exp_a - exp_b)"

definition uint256_compare_with_compact :: "bytes \<Rightarrow> u32 \<Rightarrow> int" where
  "uint256_compare_with_compact hash target = uint256_compare hash (compact_to_uint256 target)"

definition compact_uint256_add :: "u32 \<Rightarrow> u32 \<Rightarrow> u32 res" where
  "compact_uint256_add a b =
     andThen (uint256_add (compact_to_uint256 a) (compact_to_uint256 b)) (\<lambda>uc.
       Inr (uint256_to_compact uc))"

section \<open>Order and byte reversal\<close>

lemma uint256_reverse_rev:
  assumes "length v = 32"
  shows "uint256_reverse v = rev v"
proof -
  have 1: "take 8 v @ drop 8 v = v" by simp
  have 2: "take 8 (drop 8 v) @ drop 16 v = drop 8 v"
    using append_take_drop_id [of 8 "drop 8 v"] by simp
  have 3: "take 8 (drop 16 v) @ drop 24 v = drop 16 v"
    using append_take_drop_id [of 8 "drop 16 v"] by simp
  have 4: "take 8 (drop 24 v) = drop 24 v" using assms by simp
  have "uint256_reverse v = rev (take 8 v @ take 8 (drop 8 v) @ take 8 (drop 16 v) @ take 8 (drop 24 v))"
    by (simp only: uint256_reverse_def bswap_64_def rev_append append_assoc)
  then show ?thesis by (simp only: 4 3 2 1)
qed

lemma compare_from_take:
  assumes "8 * k \<le> length a" "8 * k \<le> length b"
  shows "uint256_compare_from k a b = sgn (int (le_val (take (8 * k) a)) - int (le_val (take (8 * k) b)))"
  using assms
proof (induction k)
  case (Suc k)
  let ?x = "le_val (take 8 (drop (8 * k) a))" and ?y = "le_val (take 8 (drop (8 * k) b))"
  let ?l = "le_val (take (8 * k) a)" and ?m = "le_val (take (8 * k) b)"
  have x: "unat (dec64 (drop (8 * k) a)) = ?x" "unat (dec64 (drop (8 * k) b)) = ?y"
    using Suc.prems by (simp_all add: unat_dec)
  have len: "length (take (8 * k) a) = 8 * k" "length (take (8 * k) b) = 8 * k"
    using Suc.prems by simp_all
  have va: "le_val (take (8 * Suc k) a) = ?l + 256 ^ (8 * k) * ?x"
    "le_val (take (8 * Suc k) b) = ?m + 256 ^ (8 * k) * ?y"
    unfolding mult_Suc_right add.commute [of 8] take_add le_val_append len by simp_all
  have lm: "?l < 256 ^ (8 * k)" "?m < 256 ^ (8 * k)"
    using le_val_lt [of "take (8 * k) a"] le_val_lt [of "take (8 * k) b"] len by simp_all
  have key: "l + B * x < m + B * y" if "x < y" "l < B" for x y l m B :: nat
  proof -
    have "B * Suc x \<le> B * y" using that(1) by (intro mult_le_mono2) simp
    with that(2) show ?thesis unfolding mult_Suc_right by linarith
  qed
  consider "?x = ?y" | "?x < ?y" | "?y < ?x" by linarith
  then show ?case
  proof cases
    case 1
    then have "dec64 (drop (8 * k) a) = dec64 (drop (8 * k) b)" using x by (simp add: word_unat_eq_iff)
    moreover have "uint256_compare_from k a b = sgn (int ?l - int ?m)" using Suc by simp
    ultimately show ?thesis using 1 by (simp add: va Let_def del: mult_Suc_right)
  next
    case 2
    then have "dec64 (drop (8 * k) a) \<noteq> dec64 (drop (8 * k) b)"
      "\<not> dec64 (drop (8 * k) b) < dec64 (drop (8 * k) a)"
      using x by (auto simp: word_less_nat_alt)
    moreover have "le_val (take (8 * Suc k) a) < le_val (take (8 * Suc k) b)"
      unfolding va by (rule key [OF 2 lm(1)])
    ultimately show ?thesis by (simp add: Let_def del: mult_Suc_right)
  next
    case 3
    then have "dec64 (drop (8 * k) a) \<noteq> dec64 (drop (8 * k) b)"
      "dec64 (drop (8 * k) b) < dec64 (drop (8 * k) a)"
      using x by (auto simp: word_less_nat_alt)
    moreover have "le_val (take (8 * Suc k) b) < le_val (take (8 * Suc k) a)"
      unfolding va by (rule key [OF 3 lm(2)])
    ultimately show ?thesis by (simp add: Let_def del: mult_Suc_right)
  qed
qed simp

lemma uint256_compare_nonneg: "length v = 32 \<Longrightarrow> \<not> 0 < uint256_compare (replicate 32 0) v"
  using compare_from_take [of 4 "replicate 32 0" v] by (simp add: uint256_compare_def sgn_if)

text \<open>The comparison orders two 256-bit values as the numbers their bytes stand for in
  little-endian order: its result is the sign of the difference.\<close>

theorem uint256_compare_order:
  assumes "length a = 32" "length b = 32"
  shows "uint256_compare a b = sgn (int (le_val a) - int (le_val b))"
  using compare_from_take [of 4 a b] assms by (simp add: uint256_compare_def)

theorem uint256_compare_order_witness:
  "uint256_compare (replicate 31 0 @ [1]) (replicate 31 0xff @ [0]) = 1"
proof -
  have "le_val (replicate 31 0xff @ [0]) < le_val (replicate 31 0 @ [1 :: byte])"
    using le_val_lt [of "replicate 31 0xff :: bytes"] by (simp add: le_val_append)
  then show ?thesis
    using uint256_compare_order [of "replicate 31 0 @ [1]" "replicate 31 0xff @ [0]"] by simp
qed

section \<open>Compact form\<close>

lemma length_compact_mantissa [simp]: "length (compact_mantissa c) = 3"
  by (simp add: compact_mantissa_def)

lemma compact_split: "enc32 c = compact_mantissa c @ [word_of_nat (compact_exp c)]"
proof -
  have "enc32 c = take 3 (enc32 c) @ drop 3 (enc32 c)" by simp
  also have "drop 3 (enc32 c) = [enc32 c ! 3]"
    using Cons_nth_drop_Suc [of 3 "enc32 c"] by simp
  finally show ?thesis by (simp add: compact_mantissa_def compact_exp_def)
qed

lemma compact_make_eq: "compact_make (compact_mantissa c) (compact_exp c) = c"
  by (simp add: compact_make_def flip: compact_split)

lemma compact_exp_less: "compact_exp c < 256"
  by (simp add: compact_exp_def)

text \<open>The number a compact integer with an exponent of at least three stands for.\<close>

definition compact_value :: "u32 \<Rightarrow> nat" where
  "compact_value c = le_val (compact_mantissa c) * 256 ^ (compact_exp c - 3)"

lemma compact_to_uint256_bytes:
  assumes "3 \<le> compact_exp c" "compact_exp c \<le> 32"
  shows "compact_to_uint256 c
    = replicate (compact_exp c - 3) 0 @ compact_mantissa c @ replicate (32 - compact_exp c) 0"
  using assms by (simp add: compact_to_uint256_def Let_def)

lemma length_compact_to_uint256 [simp]: "length (compact_to_uint256 c) = 32"
  by (auto simp: compact_to_uint256_def Let_def uint256_NaN_def)

text \<open>The target a compact integer expands to is its mantissa shifted by whole bytes, as the
  documentation of the compact form has it, for every exponent from 3 to 32; larger exponents
  give the largest 256-bit value.\<close>

theorem compact_to_uint256_value:
  "length (compact_to_uint256 c) = 32
   \<and> (3 \<le> compact_exp c \<and> compact_exp c \<le> 32 \<longrightarrow> le_val (compact_to_uint256 c) = compact_value c)
   \<and> (32 < compact_exp c \<longrightarrow> compact_to_uint256 c = uint256_NaN)"
proof (intro conjI impI)
  assume "3 \<le> compact_exp c \<and> compact_exp c \<le> 32"
  then show "le_val (compact_to_uint256 c) = compact_value c"
    by (simp add: compact_to_uint256_bytes le_val_append compact_value_def)
next
  show "length (compact_to_uint256 c) = 32" by simp
next
  assume "32 < compact_exp c"
  then show "compact_to_uint256 c = uint256_NaN" by (simp add: compact_to_uint256_def)
qed

theorem compact_to_uint256_value_witness:
  "le_val (compact_to_uint256 0x1b0404cb) = 0x0404cb * 256 ^ 24"
proof -
  have e: "enc32 0x1b0404cb = [0xcb, 4, 4, 0x1b]" by (simp add: enc32_def le_bytes_4)
  show ?thesis
    using compact_to_uint256_value [of "0x1b0404cb"]
    by (simp add: compact_exp_def compact_value_def compact_mantissa_def e)
qed

text \<open>A canonical compact integer: no sign bit, and no leading zero byte unless it keeps the sign
  bit clear.\<close>

definition compact_canonical :: "u32 \<Rightarrow> bool" where
  "compact_canonical c \<longleftrightarrow>
     (let m = compact_mantissa c
      in m ! 2 < 0x80 \<and> (m ! 2 = 0 \<longrightarrow> 0x80 \<le> m ! 1))"

lemma msb_and: "(w AND 0x80 \<noteq> 0) \<longleftrightarrow> 0x80 \<le> (w :: byte)"
proof -
  have "(w AND 2 ^ 7 \<noteq> 0) \<longleftrightarrow> bit w 7" by (simp only: and_exp_eq_0_iff_not_bit not_not)
  also have "\<dots> \<longleftrightarrow> bit (unat w) 7" by (simp add: bit_unsigned_iff)
  also have "\<dots> \<longleftrightarrow> odd (unat w div 128)" by (simp add: bit_iff_odd)
  also have "\<dots> \<longleftrightarrow> 128 \<le> unat w"
  proof -
    have "unat w div 128 < 2" using unat_byte_lt [of w] by linarith
    then show ?thesis by (cases "128 \<le> unat w") (auto simp: less_2_cases_iff div_eq_0_iff)
  qed
  finally show ?thesis by (simp add: word_le_nat_alt)
qed

lemma length_3: "length xs = 3 \<Longrightarrow> \<exists>x y z. xs = [x, y, z]"
  by (auto simp: numeral_3_eq_3 length_Suc_conv)

lemma takeWhile_zeros:
  "x \<noteq> 0 \<Longrightarrow> length (takeWhile (\<lambda>b. b = 0) (replicate n 0 @ x # r)) = n"
  by (simp add: takeWhile_replicate_append)

lemma trailing_zeros_bytes:
  "x \<noteq> 0 \<Longrightarrow> trailing_zeros (a @ x # replicate n 0) = n"
  by (simp add: trailing_zeros_def takeWhile_zeros)

text \<open>Compressing the target that a canonical compact integer expands to gives the compact
  integer back, for exponents from 3 to 29.\<close>

theorem compact_roundtrip:
  assumes "compact_canonical c" "3 \<le> compact_exp c" "compact_exp c \<le> 29"
  shows "uint256_to_compact (compact_to_uint256 c) = c"
proof -
  obtain x y z where m: "compact_mantissa c = [x, y, z]"
    using length_3 [OF length_compact_mantissa [of c]] by blast
  define e where "e = compact_exp c"
  have e: "3 \<le> e" "e \<le> 29" using assms by (simp_all add: e_def)
  have t: "compact_to_uint256 c = replicate (e - 3) 0 @ [x, y, z] @ replicate (32 - e) 0"
    using assms by (simp add: compact_to_uint256_bytes m e_def)
  have mk: "compact_make [x, y, z] e = c" using compact_make_eq [of c] by (simp add: m e_def)
  have can: "z < 0x80" "z = 0 \<longrightarrow> 0x80 \<le> y"
    using assms(1) by (simp_all add: compact_canonical_def m numeral_2_eq_2)
  have nb1: "(if 32 \<le> e + 3 then 32 - e else 3) = 3" and nb2: "(if 32 \<le> (32 - e) + 3 then e else 3) = 3"
    and ee: "32 - (32 - e) = e"
    using e by auto
  show ?thesis
  proof (cases "z = 0")
    case False
    have tz: "trailing_zeros (compact_to_uint256 c) = 32 - e"
      using trailing_zeros_bytes [OF False, of "replicate (e - 3) 0 @ [x, y]" "32 - e"] by (simp add: t)
    have "e - 1 = (e - 3) + 2" using e by simp
    then have top: "compact_to_uint256 c ! (e - 1) = z" by (simp only: t) (simp add: nth_append)
    have seg: "take 3 (drop (e - 3) (compact_to_uint256 c)) = [x, y, z]" by (simp add: t)
    have nb: "\<not> z AND 0x80 \<noteq> 0" using can(1) msb_and [of z] by simp
    have nz: "(32 - e = 32) = False" using e by simp
    show ?thesis
      unfolding uint256_to_compact_def tz Let_def ee top nz
      using nb seg mk by (simp only: if_False simp_thms ee nb1 nb2) simp
  next
    case True
    then have y: "0x80 \<le> y" "y \<noteq> 0" using can(2) by auto
    have tz: "trailing_zeros (compact_to_uint256 c) = 33 - e"
    proof -
      have "33 - e = Suc (32 - e)" using e by simp
      then have "[x, y, z] @ replicate (32 - e) 0 = [x] @ y # replicate (33 - e) 0" by (simp add: True)
      then have "compact_to_uint256 c = (replicate (e - 3) 0 @ [x]) @ y # replicate (33 - e) 0"
        unfolding t by simp
      with trailing_zeros_bytes [OF y(2), of "replicate (e - 3) 0 @ [x]" "33 - e"]
      show ?thesis by simp
    qed
    have "e - 1 - 1 = (e - 3) + 1" using e by simp
    then have top: "compact_to_uint256 c ! (e - 1 - 1) = y" by (simp only: t) (simp add: nth_append)
    have seg: "take 3 (drop (e - 3) (compact_to_uint256 c)) = [x, y, z]" by (simp add: t)
    have b: "y AND 0x80 \<noteq> 0" using y(1) msb_and [of y] by simp
    have nz: "(33 - e = 32) = False" "(33 - e = 0) = False" "33 - e - 1 = 32 - e"
      "32 - (33 - e) = e - 1" "e - 1 + 1 = e"
      using e by auto
    show ?thesis
      unfolding uint256_to_compact_def tz Let_def nz top
      using b seg mk by (simp only: if_False if_True simp_thms ee nb1 nb2 nz) simp
  qed
qed

lemma enc32_examples:
  "enc32 0x1b0404cb = [0xcb, 4, 4, 0x1b]" "enc32 0x207fffff = [0xff, 0xff, 0x7f, 0x20]"
  "dec32 [0, 0, 0, 0x20] = 0x20000000"
  by (simp_all add: enc32_def le_bytes_4 dec32_def)

theorem compact_roundtrip_witness:
  "uint256_to_compact (compact_to_uint256 0x1b0404cb) = 0x1b0404cb"
  by (rule compact_roundtrip)
    (simp_all add: compact_canonical_def compact_exp_def compact_mantissa_def enc32_examples)

text \<open>From exponent 30 on the top bytes are lost, for instance for the target of a regression
  test network.\<close>

lemma compact_high_exponent:
  "uint256_to_compact (compact_to_uint256 0x207fffff) = 0x20000000"
proof -
  define t where "t = compact_to_uint256 0x207fffff"
  have t: "t = replicate 29 0 @ [0xff, 0xff, 0x7f]"
    by (simp add: t_def compact_to_uint256_def compact_exp_def compact_mantissa_def enc32_examples)
  have "trailing_zeros t = 0" by (simp add: t trailing_zeros_def)
  moreover have "t ! (32 - 0 - 1) AND 0x80 = 0" by (simp add: t nth_append)
  ultimately show ?thesis
    unfolding t_def [symmetric]
    by (simp add: uint256_to_compact_def Let_def compact_make_def enc32_examples numeral_3_eq_3)
qed

section \<open>Order of compact integers\<close>

definition compact_norm :: "u32 \<Rightarrow> int \<times> int" where
  "compact_norm c =
     (let v = int (le_val (compact_mantissa c)); e = int (compact_exp c)
      in if compact_mantissa c ! 2 = 0 \<and> compact_mantissa c ! 1 AND 0x80 \<noteq> 0
         then (v * 256, e - 1) else (v, e))"

lemma compact_compare_norm:
  "compact_uint256_compare a b =
     (case compact_norm a of (va, ea) \<Rightarrow> case compact_norm b of (vb, eb) \<Rightarrow>
        if ea = eb then va - vb else ea - eb)"
  unfolding compact_uint256_compare_def compact_norm_def Let_def by (rule refl)

lemma compact_norm_value:
  assumes "compact_canonical c" "3 \<le> compact_exp c"
  obtains v e where "compact_norm c = (int v, int e)" "2 ^ 16 \<le> v" "v < 2 ^ 24" "2 \<le> e"
    "256 * compact_value c = v * 256 ^ (e - 2)"
proof -
  obtain x y z where m: "compact_mantissa c = [x, y, z]"
    using length_3 [OF length_compact_mantissa [of c]] by blast
  define w where "w = le_val (compact_mantissa c)"
  have w: "w = unat x + 256 * (unat y + 256 * unat z)" by (simp add: w_def m)
  have b: "unat x < 256" "unat y < 256" by simp_all
  have can: "unat z < 128" "z = 0 \<longrightarrow> 128 \<le> unat y"
  proof -
    from assms(1) have c: "z < 0x80" "z = 0 \<longrightarrow> 0x80 \<le> y" by (simp_all add: compact_canonical_def m)
    from c(1) show "unat z < 128" by (simp add: word_less_nat_alt)
    from c(2) show "z = 0 \<longrightarrow> 128 \<le> unat y" by (simp add: word_le_nat_alt)
  qed
  show ?thesis
  proof (cases "z = 0")
    case True
    then have y: "128 \<le> unat y" "0x80 \<le> y" using can(2) by (simp_all add: word_le_nat_alt)
    have "compact_norm c = (int (w * 256), int (compact_exp c - 1))"
      using True y(2) msb_and [of y] assms(2)
      by (simp add: compact_norm_def m w of_nat_diff)
    moreover have "256 * compact_value c = (w * 256) * 256 ^ (compact_exp c - 1 - 2)"
    proof -
      have "compact_exp c - 1 - 2 = compact_exp c - 3" by linarith
      then show ?thesis by (simp only: compact_value_def w_def ac_simps)
    qed
    moreover have "2 ^ 16 \<le> w * 256" "w * 256 < 2 ^ 24" "2 \<le> compact_exp c - 1"
    proof -
      have w': "w = unat x + 256 * unat y" using w True by simp
      from w' y(1) show "2 ^ 16 \<le> w * 256" by simp
      have "w * 256 < 2 ^ 24 \<longleftrightarrow> w < 65536" by simp
      also have "\<dots>" using w' b by linarith
      finally show "w * 256 < 2 ^ 24" .
      show "2 \<le> compact_exp c - 1" using assms(2) by simp
    qed
    ultimately show ?thesis by (intro that [of "w * 256" "compact_exp c - 1"])
  next
    case False
    then have z: "1 \<le> unat z" by (simp add: Suc_le_eq unat_gt_0)
    have "compact_norm c = (int w, int (compact_exp c))"
      using False by (simp add: compact_norm_def m w)
    moreover have "256 * compact_value c = w * 256 ^ (compact_exp c - 2)"
    proof -
      have "compact_exp c - 2 = Suc (compact_exp c - 3)" using assms(2) by simp
      then show ?thesis by (simp add: compact_value_def w_def)
    qed
    moreover have "2 ^ 16 \<le> w" "w < 2 ^ 24" "2 \<le> compact_exp c"
    proof -
      have w': "w = unat x + 256 * unat y + 65536 * unat z" using w by simp
      have "65536 \<le> w" "w < 16777216" using w' z b can(1) by linarith+
      then show "2 ^ 16 \<le> w" "w < 2 ^ 24" by simp_all
      show "2 \<le> compact_exp c" using assms(2) by simp
    qed
    ultimately show ?thesis by (intro that [of w "compact_exp c"])
  qed
qed

text \<open>For canonical compact integers with exponents from 3 to 32 the comparison of the compact
  forms orders them exactly as comparing the two 256-bit targets does, also when one of the
  mantissas carries the extra zero byte that keeps its sign bit clear.\<close>

theorem compact_compare_order:
  assumes "compact_canonical a" "3 \<le> compact_exp a" "compact_exp a \<le> 32"
    and "compact_canonical b" "3 \<le> compact_exp b" "compact_exp b \<le> 32"
  shows "sgn (compact_uint256_compare a b)
    = uint256_compare (compact_to_uint256 a) (compact_to_uint256 b)"
proof -
  obtain v e where a: "compact_norm a = (int v, int e)" "2 ^ 16 \<le> v" "v < 2 ^ 24" "2 \<le> e"
      "256 * compact_value a = v * 256 ^ (e - 2)" by (rule compact_norm_value [OF assms(1,2)])
  obtain w f where b: "compact_norm b = (int w, int f)" "2 ^ 16 \<le> w" "w < 2 ^ 24" "2 \<le> f"
      "256 * compact_value b = w * 256 ^ (f - 2)" by (rule compact_norm_value [OF assms(4,5)])
  have lt: "x * 256 ^ (i - 2) < y * 256 ^ (j - 2)"
    if "x < 2 ^ 24" "2 ^ 16 \<le> y" "2 \<le> i" "i < j" for x y i j :: nat
  proof -
    have "x * 256 ^ (i - 2) < 2 ^ 24 * 256 ^ (i - 2)" using that(1) by simp
    also have "\<dots> = 2 ^ 16 * 256 ^ Suc (i - 2)" by simp
    also have "\<dots> \<le> 2 ^ 16 * 256 ^ (j - 2)" using that(3,4)
      by (intro mult_le_mono2 power_increasing) simp_all
    also have "\<dots> \<le> y * 256 ^ (j - 2)" using that(2) by (rule mult_le_mono1)
    finally show ?thesis .
  qed
  have vals: "le_val (compact_to_uint256 a) = compact_value a" "le_val (compact_to_uint256 b) = compact_value b"
    using assms by (simp_all add: compact_to_uint256_bytes le_val_append compact_value_def mult.commute)
  have cmp: "uint256_compare (compact_to_uint256 a) (compact_to_uint256 b)
      = sgn (int (compact_value a) - int (compact_value b))"
    using compare_from_take [of 4 "compact_to_uint256 a" "compact_to_uint256 b"]
    by (simp add: uint256_compare_def vals)
  consider "e = f" | "e < f" | "f < e" by linarith
  then show ?thesis
  proof cases
    case 1
    then have m: "256 * compact_value a = v * 256 ^ (e - 2)" "256 * compact_value b = w * 256 ^ (e - 2)"
      using a b by simp_all
    have ord: "compact_value a < compact_value b \<longleftrightarrow> v < w" "compact_value b < compact_value a \<longleftrightarrow> w < v"
    proof -
      have "256 * compact_value a < 256 * compact_value b \<longleftrightarrow> v < w"
        "256 * compact_value b < 256 * compact_value a \<longleftrightarrow> w < v"
        unfolding m by simp_all
      then show "compact_value a < compact_value b \<longleftrightarrow> v < w" "compact_value b < compact_value a \<longleftrightarrow> w < v"
        by simp_all
    qed
    then show ?thesis unfolding cmp compact_compare_norm a(1) b(1) using 1 by (auto simp: sgn_if)
  next
    case 2
    from lt [OF a(3) b(2) a(4) 2] have "compact_value a < compact_value b" using a(5) b(5) by linarith
    then show ?thesis unfolding cmp compact_compare_norm a(1) b(1) using 2 by simp
  next
    case 3
    from lt [OF b(3) a(2) b(4) 3] have "compact_value b < compact_value a" using a(5) b(5) by linarith
    then show ?thesis unfolding cmp compact_compare_norm a(1) b(1) using 3 by simp
  qed
qed

theorem compact_compare_order_witness:
  "sgn (compact_uint256_compare 0x1b0404cb 0x1d00ffff)
    = uint256_compare (compact_to_uint256 0x1b0404cb) (compact_to_uint256 0x1d00ffff)"
proof -
  have "enc32 0x1d00ffff = [0xff, 0xff, 0, 0x1d]" by (simp add: enc32_def le_bytes_4)
  then show ?thesis
    by (intro compact_compare_order)
      (simp_all add: compact_canonical_def compact_exp_def compact_mantissa_def enc32_examples)
qed

text \<open>Addition of targets, away from the two cases in which the code has no result.\<close>

lemma uint256_add_value:
  assumes "0 < le_val a + le_val b" "le_val a + le_val b < 2 ^ 256"
  shows "\<exists>c. uint256_add a b = Inr c \<and> length c = 32 \<and> le_val c = le_val a + le_val b"
  using assms by (auto simp: uint256_add_def Let_def le_val_le_bytes)

text \<open>Text conversion, with room for the text.\<close>

lemma uint256_string_roundtrip:
  assumes "length v = 32"
  shows "\<exists>t. uint256_to_string v False (Some 65) = Inr t \<and> uint256_from_string False t = Inr (v, 32)"
    and "\<exists>t. uint256_to_string v True (Some 65) = Inr t \<and> uint256_from_string True t = Inr (v, 32)"
    and "uint256_to_string v le None = Inl Undefined"
  using assms hex_codec [of v] hex_codec [of "rev v"]
  by (auto simp: uint256_to_string_def uint256_from_string_def Let_def uint256_reverse_rev)

end
