(* ===== verification/Merkle.thy ===== *)
theory Merkle
  imports Prelude
begin

text \<open>
  The merkle tree over transaction ids (\<open>src/merkle_tree.c\<close>). A tree keeps its leaves in a
  growing array (the list has the array's capacity, \<open>max_size\<close>; \<open>count\<close> leaves are in use)
  and 32 layers of intermediate hashes. The hash function is a field of the tree; here it is the
  parameter \<open>h\<close>. The counts of a tree are \<open>ssize_t\<close>; the calculation of the root takes an \<open>int\<close>, to
  which they are cut, and rounds it up to pairs, which overflows for \<open>2 ^ 31 - 1\<close> leaves. The leaves to add come
  with an \<open>int\<close> as their count, the length of the list. The last section states what the root is: the
  reference recursion over the leaves.
\<close>

section \<open>Data\<close>

record merkle_layer =
  layer_max_size :: int
  layer_count :: int
  layer_items :: "bytes list"

record merkle_tree =
  mt_max_size :: int
  mt_count :: int
  merkle_root :: bytes
  mt_items :: "bytes list"
  layers_count :: nat
  layers :: "merkle_layer list"

definition MERKLE_TREE_MAX_LAYERS :: nat where "MERKLE_TREE_MAX_LAYERS = 32"
definition MERKLE_TREE_ALLOC_SIZE :: int where "MERKLE_TREE_ALLOC_SIZE = 4096"

definition uint256_zero :: bytes where "uint256_zero = replicate 32 0"

definition merkle_layer_zero :: merkle_layer where
  "merkle_layer_zero = \<lparr>layer_max_size = 0, layer_count = 0, layer_items = []\<rparr>"

section \<open>Operations\<close>

definition merkle_tree_layer_resize :: "merkle_layer \<Rightarrow> int \<Rightarrow> merkle_layer" where
  "merkle_tree_layer_resize l sz =
     (let sz = sz + sz mod 2
      in if sz \<le> layer_max_size l then l
         else l\<lparr>layer_items := layer_items l @ replicate (nat (sz - layer_max_size l)) uint256_zero,
                layer_max_size := sz\<rparr>)"

definition merkle_tree_resize :: "merkle_tree \<Rightarrow> int \<Rightarrow> merkle_tree" where
  "merkle_tree_resize t sz =
     (let new_size = (sz + MERKLE_TREE_ALLOC_SIZE - 1) div MERKLE_TREE_ALLOC_SIZE
                       * MERKLE_TREE_ALLOC_SIZE
      in if new_size \<le> mt_max_size t then t
         else t\<lparr>mt_items := mt_items t @ replicate (nat (new_size - mt_max_size t)) uint256_zero,
                mt_max_size := new_size\<rparr>)"

definition uint256_merkle_tree_new :: "int \<Rightarrow> merkle_tree" where
  "uint256_merkle_tree_new max_size =
     merkle_tree_resize
       \<lparr>mt_max_size = 0, mt_count = 0, merkle_root = uint256_zero, mt_items = [], layers_count = 0,
        layers = replicate MERKLE_TREE_MAX_LAYERS merkle_layer_zero\<rparr> max_size"

definition merkle_tree_add :: "merkle_tree \<Rightarrow> bytes list \<Rightarrow> merkle_tree res" where
  "merkle_tree_add t items =
     (let count = int (length items)
      in if \<not> mt_count t < mt_count t + count then Inl Abort
         else let t1 = merkle_tree_resize t (mt_count t + count); k = nat (mt_count t)
         in if length (mt_items t1) < k + length items then Inl Undefined
            else Inr (t1\<lparr>mt_items := take k (mt_items t1) @ items
                           @ drop (k + length items) (mt_items t1),
                         mt_count := mt_count t + count\<rparr>))"

definition merkle_tree_remove :: "merkle_tree \<Rightarrow> int \<Rightarrow> merkle_tree res" where
  "merkle_tree_remove t index =
     (if mt_count t \<le> 0 \<or> index < 0 \<or> mt_count t \<le> index then Inl Reject
      else let c = mt_count t - 1;
               its = (if index < c then (mt_items t)[nat index := mt_items t ! nat c]
                      else mt_items t)
           in Inr (t\<lparr>mt_count := c, mt_items := its[nat c := uint256_zero]\<rparr>))"

definition merkle_tree_set :: "merkle_tree \<Rightarrow> int \<Rightarrow> bytes \<Rightarrow> merkle_tree res" where
  "merkle_tree_set t index item =
     (if mt_count t \<le> 0 \<or> index < 0 \<or> mt_count t \<le> index then Inl Reject
      else Inr (t\<lparr>mt_items := (mt_items t)[nat index := item]\<rparr>))"

text \<open>One layer: the hashes of the pairs of \<open>items\<close>, the last one twice when the count is odd,
  written over the front of the layer's array.\<close>

definition merkle_row :: "(bytes \<Rightarrow> bytes) \<Rightarrow> bytes list \<Rightarrow> nat \<Rightarrow> bytes list" where
  "merkle_row h items count =
     map (\<lambda>i. h (items ! (2 * i) @ items ! (2 * i + 1))) [0..<count div 2]
     @ (if odd count then [h (items ! (count - 1) @ items ! (count - 1))] else [])"

text \<open>A number cut to an \<open>int\<close>, and the half of an \<open>int\<close>, rounded towards zero.\<close>

definition int32 :: "int \<Rightarrow> int" where "int32 x = signed_take_bit 31 x"

definition c_half :: "int \<Rightarrow> int" where "c_half x = (if x < 0 then - (- x div 2) else x div 2)"

text \<open>The loop over the layers, with the new layers, the root (when a layer of size one is reached)
  and the index at which it stopped. The sum \<open>count + 1\<close> overflows for the greatest \<open>int\<close>; an odd negative
  count reads in front of the items.\<close>

fun merkle_recalc_layers ::
    "(bytes \<Rightarrow> bytes) \<Rightarrow> bytes list \<Rightarrow> int \<Rightarrow> merkle_layer list \<Rightarrow> (merkle_layer list \<times> bytes option \<times> nat) res" where
  "merkle_recalc_layers h items count [] = Inr ([], None, 0)"
| "merkle_recalc_layers h items count (l # ls) =
     (if count = 2 ^ 31 - 1 \<or> count < 0 \<and> odd count then Inl Undefined
      else let layer_size = c_half (count + 1);
          l1 = merkle_tree_layer_resize l layer_size;
          row = merkle_row h items (nat count);
          l2 = l1\<lparr>layer_items := row @ drop (length row) (layer_items l1), layer_count := layer_size\<rparr>
      in if layer_size = 1 then Inr (l2 # ls, Some (layer_items l2 ! 0), 0)
         else andThen (merkle_recalc_layers h (layer_items l2) layer_size ls) (\<lambda>(ls', root, k).
           Inr (l2 # ls', root, Suc k)))"

definition merkle_tree_recalc ::
    "(bytes \<Rightarrow> bytes) \<Rightarrow> merkle_tree \<Rightarrow> int \<Rightarrow> int \<Rightarrow> merkle_tree res" where
  "merkle_tree_recalc h t start_index count =
     (let count = (if count < 0 then int32 (mt_count t - start_index) else count)
      in if mt_count t \<le> 1
         then Inr (if mt_count t = 1 then t\<lparr>merkle_root := mt_items t ! 0\<rparr> else t)
         else if \<not> (0 \<le> start_index \<and> start_index < mt_count t) then Inl Abort
         else let count = (if count \<le> 0 then int32 (mt_count t - start_index) else count)
         in if start_index \<noteq> 0 then Inl Abort
            else if int (length (mt_items t)) < count then Inl Undefined
            else andThen (merkle_recalc_layers h (mt_items t) count (layers t)) (\<lambda>(ls, root, k).
                  Inr (t\<lparr>layers := ls, layers_count := k,
                         merkle_root := (case root of None \<Rightarrow> merkle_root t | Some r \<Rightarrow> r)\<rparr>)))"

section \<open>The invariant of a tree\<close>

definition wf_layer :: "merkle_layer \<Rightarrow> bool" where
  "wf_layer l \<longleftrightarrow> int (length (layer_items l)) = layer_max_size l"

definition wf_tree :: "merkle_tree \<Rightarrow> bool" where
  "wf_tree t \<longleftrightarrow> int (length (mt_items t)) = mt_max_size t \<and> 0 \<le> mt_count t
     \<and> mt_count t \<le> mt_max_size t
     \<and> length (layers t) = MERKLE_TREE_MAX_LAYERS \<and> list_all wf_layer (layers t)"

text \<open>The leaves in use.\<close>

definition leaves :: "merkle_tree \<Rightarrow> bytes list" where
  "leaves t = take (nat (mt_count t)) (mt_items t)"

lemma layer_resize_wf:
  "wf_layer l \<Longrightarrow> wf_layer (merkle_tree_layer_resize l (int n))
     \<and> n \<le> length (layer_items (merkle_tree_layer_resize l (int n)))"
  by (auto simp: wf_layer_def merkle_tree_layer_resize_def Let_def)

lemma resize_capacity:
  assumes "int (length (mt_items t)) = mt_max_size t"
  shows "sz \<le> mt_max_size (merkle_tree_resize t sz)"
    and "int (length (mt_items (merkle_tree_resize t sz))) = mt_max_size (merkle_tree_resize t sz)"
    and "mt_max_size t \<le> mt_max_size (merkle_tree_resize t sz)"
    and "mt_count (merkle_tree_resize t sz) = mt_count t"
    and "layers (merkle_tree_resize t sz) = layers t"
    and "\<exists>z. mt_items (merkle_tree_resize t sz) = mt_items t @ z"
proof -
  have "sz \<le> (sz + 4096 - 1) div 4096 * 4096"
  proof -
    define x where "x = sz + 4096 - 1"
    have "x div 4096 * 4096 + x mod 4096 = x" by (rule div_mult_mod_eq)
    moreover have "x mod 4096 < 4096" by simp
    ultimately have "sz \<le> x div 4096 * 4096" unfolding x_def by linarith
    then show ?thesis by (simp only: x_def)
  qed
  then show "sz \<le> mt_max_size (merkle_tree_resize t sz)"
    by (auto simp: merkle_tree_resize_def MERKLE_TREE_ALLOC_SIZE_def Let_def)
qed (use assms in \<open>simp_all add: merkle_tree_resize_def Let_def split: if_splits\<close>)

lemma new_wf: "wf_tree (uint256_merkle_tree_new n)" "leaves (uint256_merkle_tree_new n) = []"
proof -
  define z where "z = \<lparr>mt_max_size = 0, mt_count = 0, merkle_root = uint256_zero, mt_items = [],
    layers_count = 0, layers = replicate MERKLE_TREE_MAX_LAYERS merkle_layer_zero\<rparr>"
  have z: "int (length (mt_items z)) = mt_max_size z" by (simp add: z_def)
  note r = resize_capacity [OF z, of n]
  show "wf_tree (uint256_merkle_tree_new n)"
    using r unfolding uint256_merkle_tree_new_def z_def [symmetric] wf_tree_def
    by (simp add: z_def wf_layer_def merkle_layer_zero_def list_all_iff)
  show "leaves (uint256_merkle_tree_new n) = []"
    using r unfolding uint256_merkle_tree_new_def z_def [symmetric] leaves_def by (simp add: z_def)
qed

lemma add_leaves:
  assumes "wf_tree t" "items \<noteq> []"
  shows "\<exists>t'. merkle_tree_add t items = Inr t' \<and> wf_tree t' \<and> leaves t' = leaves t @ items"
proof -
  define k where "k = nat (mt_count t)"
  define u where "u = merkle_tree_resize t (mt_count t + int (length items))"
  from assms(1) have cap: "int (length (mt_items t)) = mt_max_size t" and k: "mt_count t = int k"
      "k \<le> length (mt_items t)"
    by (auto simp: wf_tree_def k_def)
  note r = resize_capacity [OF cap, of "mt_count t + int (length items)", folded u_def]
  obtain z where z: "mt_items u = mt_items t @ z" using r(6) by blast
  have room: "k + length items \<le> length (mt_items u)" using r(1,2) k by simp
  define t' where "t' = u\<lparr>mt_items := take k (mt_items u) @ items @ drop (k + length items) (mt_items u),
    mt_count := mt_count t + int (length items)\<rparr>"
  have "merkle_tree_add t items = Inr t'"
    using assms(2) room by (simp add: merkle_tree_add_def Let_def flip: u_def k_def t'_def)
  moreover have "wf_tree t'"
    using assms(1) r k room by (auto simp: wf_tree_def t'_def)
  moreover have "leaves t' = leaves t @ items"
    using k z by (simp add: leaves_def t'_def nat_int_add)
  ultimately show ?thesis by blast
qed

lemma set_leaves:
  assumes "wf_tree t" "0 \<le> index" "index < mt_count t"
  shows "\<exists>t'. merkle_tree_set t index x = Inr t' \<and> wf_tree t'
    \<and> leaves t' = (leaves t)[nat index := x]"
  using assms by (auto simp: merkle_tree_set_def wf_tree_def leaves_def take_update_swap)

lemma remove_leaves:
  assumes "wf_tree t" "0 \<le> index" "index < mt_count t"
  shows "\<exists>t'. merkle_tree_remove t index = Inr t' \<and> wf_tree t'
    \<and> leaves t' = (if index < mt_count t - 1 then (butlast (leaves t))[nat index := last (leaves t)]
                   else butlast (leaves t))"
proof -
  define c where "c = nat (mt_count t - 1)"
  from assms have c: "mt_count t = int (Suc c)" "Suc c \<le> length (mt_items t)"
    by (auto simp: wf_tree_def c_def)
  have n1: "nat (mt_count t) = Suc c" "nat (mt_count t - 1) = c" using c by simp_all
  have lv: "leaves t = take c (mt_items t) @ [mt_items t ! c]"
    unfolding leaves_def n1 using c(2) by (intro take_Suc_conv_app_nth) simp
  define its where "its = (if index < mt_count t - 1 then (mt_items t)[nat index := mt_items t ! c]
    else mt_items t)"
  define t' where "t' = t\<lparr>mt_count := mt_count t - 1, mt_items := its[c := uint256_zero]\<rparr>"
  have "merkle_tree_remove t index = Inr t'"
    using assms c by (simp add: merkle_tree_remove_def Let_def n1 t'_def its_def)
  moreover have "wf_tree t'" using assms c by (auto simp: wf_tree_def t'_def its_def)
  moreover have "leaves t' = take c its" using n1 by (simp add: leaves_def t'_def)
  ultimately show ?thesis using lv by (auto simp: its_def take_update_swap)
qed

section \<open>The root as a recursion over the leaves\<close>

fun pair_up :: "(bytes \<Rightarrow> bytes) \<Rightarrow> bytes list \<Rightarrow> bytes list" where
  "pair_up h [] = []"
| "pair_up h [x] = [h (x @ x)]"
| "pair_up h (x # y # r) = h (x @ y) # pair_up h r"

lemma length_pair_up: "length (pair_up h xs) = (length xs + 1) div 2"
  by (induction h xs rule: pair_up.induct) simp_all

lemma pair_up_shorter: "length (pair_up h r) \<le> length r"
  by (simp add: length_pair_up)

function merkle_ref :: "(bytes \<Rightarrow> bytes) \<Rightarrow> bytes list \<Rightarrow> bytes" where
  "merkle_ref h (x # y # r) = merkle_ref h (pair_up h (x # y # r))"
| "merkle_ref h [x] = x"
| "merkle_ref h [] = uint256_zero"
  by pat_completeness auto

termination
  by (relation "measure (\<lambda>(h, xs). length xs)") (auto simp: less_Suc_eq_le pair_up_shorter)

lemma merkle_ref_step: "2 \<le> length xs \<Longrightarrow> merkle_ref h xs = merkle_ref h (pair_up h xs)"
  by (cases xs; cases "tl xs") auto

lemma merkle_row_pair_up: "merkle_row h (xs @ r) (length xs) = pair_up h xs"
proof (induction h xs arbitrary: r rule: pair_up.induct)
  case (3 h x y xs)
  have "[0..<length (x # y # xs) div 2] = 0 # map Suc [0..<length xs div 2]"
    by (simp add: upt_conv_Cons map_Suc_upt del: upt_Suc)
  moreover have "odd (length xs) \<Longrightarrow> (x # y # xs @ r) ! (length (x # y # xs) - 1) = (xs @ r) ! (length xs - 1)"
    by (cases xs) simp_all
  ultimately show ?case
    using 3 [of r] by (cases "odd (length xs)") (simp_all add: merkle_row_def comp_def del: upt_Suc)
qed (simp_all add: merkle_row_def)

lemma merkle_row_take:
  "count \<le> length items \<Longrightarrow> merkle_row h items count = pair_up h (take count items)"
  using merkle_row_pair_up [of h "take count items" "drop count items"] by simp

lemma recalc_layers:
  assumes "list_all wf_layer ls" "2 \<le> count" "count \<le> 2 ^ length ls" "count \<le> length items" "count \<le> 2 ^ 31 - 2"
  shows "\<exists>ls' k. merkle_recalc_layers h items (int count) ls = Inr (ls', Some (merkle_ref h (take count items)), k)
    \<and> length ls' = length ls \<and> list_all wf_layer ls'"
  using assms
proof (induction ls arbitrary: items count)
  case Nil
  then show ?case by simp
next
  case (Cons l ls)
  define n where "n = (count + 1) div 2"
  define l1 where "l1 = merkle_tree_layer_resize l (int n)"
  define row where "row = pair_up h (take count items)"
  define its where "its = row @ drop (length row) (layer_items l1)"
  define l2 where "l2 = l1\<lparr>layer_items := its, layer_count := int n\<rparr>"
  have r: "merkle_row h items count = row" using Cons.prems(4) by (simp add: merkle_row_take row_def)
  have half: "c_half (int count + 1) = int n" by (simp add: c_half_def n_def zdiv_int)
  have lr: "length row = n" using Cons.prems(4) by (simp add: row_def length_pair_up n_def)
  have w1: "wf_layer l1" "n \<le> length (layer_items l1)"
    using layer_resize_wf [of l n] Cons.prems(1) by (simp_all add: l1_def)
  then have w2: "wf_layer l2" using lr by (simp add: wf_layer_def l2_def its_def)
  have ref: "merkle_ref h (take count items) = merkle_ref h row"
    using Cons.prems(2,4) by (simp add: merkle_ref_step row_def)
  have small: "\<not> (int count = 2 ^ 31 - 1 \<or> int count < 0 \<and> odd (int count))" using Cons.prems(5) by simp
  have unf: "merkle_recalc_layers h items (int count) (l # ls) =
     (if n = 1 then Inr (l2 # ls, Some (its ! 0), 0)
      else andThen (merkle_recalc_layers h its (int n) ls) (\<lambda>(ls', root, k). Inr (l2 # ls', root, Suc k)))"
    unfolding merkle_recalc_layers.simps if_not_P [OF small] Let_def half nat_int r l1_def [symmetric] l2_def its_def
    by simp
  show ?case
  proof (cases "n = 1")
    case True
    then obtain x where "row = [x]" using lr by (auto simp: length_Suc_conv)
    then have "its ! 0 = merkle_ref h row" by (simp add: its_def)
    then show ?thesis unfolding unf using True ref w2 Cons.prems(1) by simp
  next
    case False
    have n: "2 \<le> n" "n \<le> 2 ^ 31 - 2" using False Cons.prems(2,5) by (simp_all add: n_def)
    have "n \<le> 2 ^ length ls" using Cons.prems(3) by (simp add: n_def)
    moreover have "n \<le> length its" using lr by (simp add: its_def)
    ultimately obtain ls' k where "merkle_recalc_layers h its (int n) ls
        = Inr (ls', Some (merkle_ref h (take n its)), k)" "length ls' = length ls" "list_all wf_layer ls'"
      using Cons.IH [of n its] Cons.prems(1) n by auto
    moreover have "take n its = row" using lr by (simp add: its_def)
    ultimately show ?thesis unfolding unf using False ref w2 by simp
  qed
qed

lemma leaves_length: "wf_tree t \<Longrightarrow> length (leaves t) = nat (mt_count t)"
  by (auto simp: wf_tree_def leaves_def)

lemma int32_small: "- (2 ^ 31) \<le> x \<Longrightarrow> x < 2 ^ 31 \<Longrightarrow> int32 x = x"
  by (simp add: int32_def signed_take_bit_int_eq_self)

lemma recalc_root:
  assumes "wf_tree t" "1 \<le> mt_count t" "mt_count t \<le> 2 ^ 31 - 2"
  shows "\<exists>t'. merkle_tree_recalc h t 0 (- 1) = Inr t' \<and> wf_tree t' \<and> leaves t' = leaves t
    \<and> merkle_root t' = merkle_ref h (leaves t)"
proof (cases "mt_count t = 1")
  case True
  then obtain x xs where "mt_items t = x # xs" using assms(1) by (cases "mt_items t") (auto simp: wf_tree_def)
  with True assms(1) show ?thesis by (auto simp: merkle_tree_recalc_def Let_def wf_tree_def leaves_def)
next
  case False
  define k where "k = nat (mt_count t)"
  have k: "mt_count t = int k" "2 \<le> k" "k \<le> length (mt_items t)" "k \<le> 2 ^ length (layers t)" "k \<le> 2 ^ 31 - 2"
    and ls: "list_all wf_layer (layers t)"
    using False assms by (auto simp: k_def wf_tree_def MERKLE_TREE_MAX_LAYERS_def)
  have i: "int32 (int k) = int k" by (rule int32_small) (use k(5) in simp_all)
  from recalc_layers [OF ls k(2,4,3,5), of h] obtain ls' i where
    r: "merkle_recalc_layers h (mt_items t) (int k) (layers t) = Inr (ls', Some (merkle_ref h (leaves t)), i)"
    "length ls' = length (layers t)" "list_all wf_layer ls'"
    by (auto simp: leaves_def k(1))
  show ?thesis
    using assms(1) k r i by (auto simp: merkle_tree_recalc_def Let_def wf_tree_def leaves_def)
qed

text \<open>The counts beyond: with one leaf more the number of pairs overflows, and \<open>2 ^ 31\<close> leaves are cut
  to a negative count, for which the second layer reads in front of its items.\<close>

theorem merkle_recalc_too_many:
  assumes "wf_tree t" "mt_count t = 2 ^ 31 - 1 \<or> mt_count t = 2 ^ 31"
  shows "merkle_tree_recalc h t 0 (- 1) = Inl Undefined"
proof -
  obtain l1 l2 ls where ls: "layers t = l1 # l2 # ls"
    using assms(1) by (cases "layers t"; cases "tl (layers t)") (auto simp: wf_tree_def MERKLE_TREE_MAX_LAYERS_def)
  have "mt_count t \<le> int (length (mt_items t))" using assms(1) by (simp add: wf_tree_def)
  from assms(2) show ?thesis
  proof
    assume "mt_count t = 2 ^ 31 - 1"
    then show ?thesis using \<open>mt_count t \<le> int (length (mt_items t))\<close> ls
      by (simp add: merkle_tree_recalc_def int32_small Let_def)
  next
    assume "mt_count t = 2 ^ 31"
    moreover have "int32 (2 ^ 31) = - (2 ^ 31)" by (simp add: int32_def signed_take_bit_eq_if_negative take_bit_eq_mod bit_iff_odd)
    ultimately show ?thesis using ls by (simp add: merkle_tree_recalc_def c_half_def Let_def)
  qed
qed

text \<open>C3. Recalculating a tree with one to 2^31 - 2 leaves, all that the code can count, ends within the 32 layers, leaves the leaves
  and the invariant as they are, and sets the root to the value of the reference recursion: hash
  neighbouring pairs, the last one with itself when the row is odd, until one is left.\<close>

theorem merkle_recalc_root:
  assumes "wf_tree t" "1 \<le> mt_count t" "mt_count t \<le> 2 ^ 31 - 2"
  shows "\<exists>t'. merkle_tree_recalc h t 0 (- 1) = Inr t' \<and> wf_tree t' \<and> leaves t' = leaves t
    \<and> merkle_root t' = merkle_ref h (leaves t)"
  by (rule recalc_root [OF assms])

theorem merkle_recalc_root_witness:
  "\<exists>t t'. merkle_tree_add (uint256_merkle_tree_new 3) [[1], [2], [3]] = Inr t
    \<and> merkle_tree_recalc (\<lambda>m. 9 # m) t 0 (- 1) = Inr t'
    \<and> merkle_root t' = [9, 9, 1, 2, 9, 3, 3]"
proof -
  obtain t where t: "merkle_tree_add (uint256_merkle_tree_new 3) [[1], [2], [3]] = Inr t" "wf_tree t"
      "leaves t = [[1], [2], [3]]"
    using add_leaves [OF new_wf(1), of "[[1], [2], [3]]" 3] new_wf(2) [of 3] by auto
  have "nat (mt_count t) \<le> length (mt_items t)" using t(2) by (auto simp: wf_tree_def)
  then have "length (leaves t) = nat (mt_count t)" by (simp add: leaves_def)
  then have "1 \<le> mt_count t" "mt_count t \<le> 2 ^ 31 - 2" using t(3) by simp_all
  from merkle_recalc_root [OF t(2) this, of "\<lambda>m. 9 # m"] t(1,3) show ?thesis by auto
qed

lemma pair_up_inj:
  "(\<forall>a b. length a = 64 \<longrightarrow> length b = 64 \<longrightarrow> h a = h b \<longrightarrow> a = b) \<Longrightarrow> length xs = length ys
    \<Longrightarrow> list_all (\<lambda>x. length x = 32) xs \<Longrightarrow> list_all (\<lambda>x. length x = 32) ys
    \<Longrightarrow> pair_up h xs = pair_up h ys \<Longrightarrow> xs = ys"
proof (induction h xs arbitrary: ys rule: pair_up.induct)
  case (2 h x)
  then obtain y where ys: "ys = [y]" by (cases ys; cases "tl ys") auto
  with 2 have "x @ x = y @ y" using 2(1) [rule_format, of "x @ x" "y @ y"] by simp
  with 2 ys show ?case by simp
next
  case (3 h x y r)
  then obtain u v w where ys: "ys = u # v # w" by (cases ys; cases "tl ys") auto
  with 3 have "x @ y = u @ v" using 3(2) [rule_format, of "x @ y" "u @ v"] by simp
  with 3 ys show ?case by simp
qed simp

lemma pair_up_width:
  "(\<And>m. length (h m) = 32) \<Longrightarrow> list_all (\<lambda>x. length x = 32) (pair_up h zs)"
  by (induction h zs rule: pair_up.induct) simp_all

lemma merkle_ref_inj:
  assumes nc: "\<forall>a b. length a = 64 \<longrightarrow> length b = 64 \<longrightarrow> h a = h b \<longrightarrow> a = b"
    and len: "\<And>m. length (h m) = 32"
  shows "length xs = length ys \<Longrightarrow> list_all (\<lambda>x. length x = 32) xs \<Longrightarrow> list_all (\<lambda>x. length x = 32) ys
    \<Longrightarrow> merkle_ref h xs = merkle_ref h ys \<Longrightarrow> xs = ys"
proof (induction "length xs" arbitrary: xs ys rule: less_induct)
  case less
  have l: "list_all (\<lambda>x. length x = 32) (pair_up h zs)" for zs by (rule pair_up_width [OF len])
  consider "xs = []" | x where "xs = [x]" | "2 \<le> length xs" by (cases xs; cases "tl xs") auto
  then show ?case
  proof cases
    case 3
    have "pair_up h xs = pair_up h ys"
    proof (rule less.hyps)
      show "length (pair_up h xs) < length xs" using 3 by (simp add: length_pair_up)
      show "length (pair_up h xs) = length (pair_up h ys)" using less.prems(1) by (simp add: length_pair_up)
      show "merkle_ref h (pair_up h xs) = merkle_ref h (pair_up h ys)"
        using less.prems(1,4) 3 by (simp add: merkle_ref_step)
    qed (rule l)+
    then show ?thesis by (rule pair_up_inj [OF nc less.prems(1,2,3)])
  next
    case 1
    with less.prems(1) show ?thesis by simp
  next
    case (2 x)
    with less.prems(1) obtain y where "ys = [y]" by (cases ys; cases "tl ys") auto
    with 2 less.prems(4) show ?thesis by simp
  qed
qed

text \<open>C17. The root commits to the leaves, as many as the code can count: two different lists of the same number of 32-byte leaves
  whose recalculated roots agree exhibit two different 64-byte blocks with the same hash.\<close>

theorem merkle_root_commits:
  assumes "\<And>m. length (h m) = 32" "wf_tree t" "wf_tree u"
    and "1 \<le> mt_count t" "mt_count t \<le> 2 ^ 31 - 2" "mt_count u = mt_count t"
    and "list_all (\<lambda>x. length x = 32) (leaves t)" "list_all (\<lambda>x. length x = 32) (leaves u)"
    and "merkle_tree_recalc h t 0 (- 1) = Inr t'" "merkle_tree_recalc h u 0 (- 1) = Inr u'"
    and "merkle_root t' = merkle_root u'" "leaves t \<noteq> leaves u"
  shows "\<exists>a b. length a = 64 \<and> length b = 64 \<and> a \<noteq> b \<and> h a = h b"
proof (rule ccontr)
  assume n: "\<not> ?thesis"
  have c: "1 \<le> mt_count u" "mt_count u \<le> 2 ^ 31 - 2" using assms(4,5,6) by simp_all
  have "merkle_ref h (leaves t) = merkle_ref h (leaves u)"
    using recalc_root [OF assms(2,4,5), of h] recalc_root [OF assms(3) c, of h] assms(9-11) by auto
  moreover have "length (leaves t) = length (leaves u)"
    using assms(2,3,6) by (simp add: leaves_length)
  ultimately have "leaves t = leaves u"
    using n by (intro merkle_ref_inj [OF _ assms(1) _ assms(7,8)]) auto
  with assms(12) show False by contradiction
qed

lemma tree_of:
  assumes "items \<noteq> []"
  shows "\<exists>t. merkle_tree_add (uint256_merkle_tree_new n) items = Inr t \<and> wf_tree t
    \<and> leaves t = items \<and> mt_count t = int (length items)"
proof -
  obtain t where t: "merkle_tree_add (uint256_merkle_tree_new n) items = Inr t" "wf_tree t" "leaves t = items"
    using add_leaves [OF new_wf(1) assms, of n] new_wf(2) [of n] by auto
  moreover have "mt_count t = int (length items)"
    using leaves_length [OF t(2)] t(2,3) by (simp add: wf_tree_def)
  ultimately show ?thesis by blast
qed

text \<open>A hash that keeps the first 32 bytes of a block does not tell \<open>[p, q]\<close> from \<open>[p, r]\<close>.\<close>

theorem merkle_root_commits_witness:
  "\<exists>t u t' u'. leaves t = [replicate 32 1, replicate 32 2] \<and> leaves u = [replicate 32 1, replicate 32 3]
    \<and> merkle_tree_recalc (\<lambda>m. take 32 (m @ replicate 32 0)) t 0 (- 1) = Inr t'
    \<and> merkle_tree_recalc (\<lambda>m. take 32 (m @ replicate 32 0)) u 0 (- 1) = Inr u' \<and> merkle_root t' = merkle_root u'
    \<and> (\<exists>a b :: bytes. length a = 64 \<and> length b = 64 \<and> a \<noteq> b \<and> take 32 (a @ replicate 32 0) = take 32 (b @ replicate 32 0))"
proof -
  let ?h = "\<lambda>m :: bytes. take 32 (m @ replicate 32 0)"
  let ?i = "[replicate 32 1, replicate 32 2] :: bytes list"
  let ?j = "[replicate 32 1, replicate 32 3] :: bytes list"
  obtain t where t: "wf_tree t" "leaves t = ?i" "mt_count t = 2" using tree_of [of ?i 2] by auto
  obtain u where u: "wf_tree u" "leaves u = ?j" "mt_count u = 2" using tree_of [of ?j 2] by auto
  obtain t' where t': "merkle_tree_recalc ?h t 0 (- 1) = Inr t'" "merkle_root t' = replicate 32 1"
    using recalc_root [OF t(1), of ?h] t(2,3) by auto
  obtain u' where u': "merkle_tree_recalc ?h u 0 (- 1) = Inr u'" "merkle_root u' = replicate 32 1"
    using recalc_root [OF u(1), of ?h] u(2,3) by auto
  have "\<exists>a b. length a = 64 \<and> length b = 64 \<and> a \<noteq> b \<and> ?h a = ?h b"
    by (rule merkle_root_commits [of ?h t u t' u']) (use t u t' u' in simp_all)
  with t(2) u(2) t' u' show ?thesis by (intro exI [of _ t] exI [of _ u] exI [of _ t'] exI [of _ u']) simp
qed

lemma pair_up_duplicate: "odd (length xs) \<Longrightarrow> pair_up h (xs @ [last xs]) = pair_up h xs"
  by (induction h xs rule: pair_up.induct) auto

text \<open>The number of leaves is not committed to: repeating the last leaf of an odd number of at
  least three leaves does not change the recalculated root.\<close>

theorem merkle_duplicate_leaf:
  assumes "wf_tree t" "3 \<le> mt_count t" "odd (mt_count t)" "mt_count t < 2 ^ 31 - 2"
  shows "\<exists>u t' u'. merkle_tree_add t [last (leaves t)] = Inr u
    \<and> merkle_tree_recalc h t 0 (- 1) = Inr t' \<and> merkle_tree_recalc h u 0 (- 1) = Inr u'
    \<and> merkle_root u' = merkle_root t'"
proof -
  obtain u where u: "merkle_tree_add t [last (leaves t)] = Inr u" "wf_tree u"
      "leaves u = leaves t @ [last (leaves t)]"
    using add_leaves [OF assms(1), of "[last (leaves t)]"] by auto
  have ct: "mt_count t = int (length (leaves t))" and cu: "mt_count u = int (length (leaves u))"
    using assms(1) u(2) by (simp_all add: leaves_length) (simp_all add: wf_tree_def)
  have t2: "1 \<le> mt_count t" "mt_count t \<le> 2 ^ 31 - 2" "1 \<le> mt_count u" "mt_count u \<le> 2 ^ 31 - 2"
    using assms(2,4) ct unfolding cu u(3) by simp_all
  have "2 \<le> length (leaves t)" "2 \<le> length (leaves u)" "odd (length (leaves t))"
    using assms(2,3) ct u(3) by simp_all
  then have "merkle_ref h (leaves u) = merkle_ref h (leaves t)"
    by (simp add: merkle_ref_step u(3) pair_up_duplicate)
  with u recalc_root [OF assms(1) t2(1,2), of h] recalc_root [OF u(2) t2(3,4), of h]
  show ?thesis by auto
qed

theorem merkle_duplicate_leaf_witness:
  "\<exists>t u t' u'. leaves t = [[1], [2], [3]] \<and> merkle_tree_add t [[3]] = Inr u
    \<and> merkle_tree_recalc id t 0 (- 1) = Inr t' \<and> merkle_tree_recalc id u 0 (- 1) = Inr u'
    \<and> merkle_root u' = merkle_root t'"
proof -
  obtain t where t: "wf_tree t" "leaves t = [[1], [2], [3]]" "mt_count t = 3"
    using tree_of [of "[[1], [2], [3]]" 3] by auto
  from merkle_duplicate_leaf [OF t(1), of id] t(2,3) show ?thesis by auto
qed

end
