(* ===== verification/Block.thy ===== *)
theory Block
  imports Tx Merkle Uint256
begin

text \<open>
  Blocks (\<open>src/satoshi-block.c\<close>): the proof-of-work check of a header, the block parser with
  its merkle root check, and the serializer. The header check compares a local variable with the
  target; when the caller passes a place for the hash, that variable is never written. Its content
  is the parameter \<open>junk\<close>, so what the check does then is stated for every content.
\<close>

record block_header =
  hdr_version :: u32
  hdr_prev_hash :: bytes
  hdr_merkle_root :: bytes
  hdr_timestamp :: u32
  hdr_bits :: u32
  hdr_nonce :: u32

record block =
  hdr :: block_header
  txns :: "tx list"
  block_hash :: bytes

definition header_bytes :: "block_header \<Rightarrow> bytes" where
  "header_bytes h = enc32 (hdr_version h) @ hdr_prev_hash h @ hdr_merkle_root h
     @ enc32 (hdr_timestamp h) @ enc32 (hdr_bits h) @ enc32 (hdr_nonce h)"

definition header_of :: "bytes \<Rightarrow> block_header" where
  "header_of m =
     \<lparr>hdr_version = dec32 m, hdr_prev_hash = take 32 (drop 4 m),
      hdr_merkle_root = take 32 (drop 36 m), hdr_timestamp = dec32 (drop 68 m),
      hdr_bits = dec32 (drop 72 m), hdr_nonce = dec32 (drop 76 m)\<rparr>"

text \<open>Result: whether the check passes, and the hash written to the caller's place.\<close>

definition satoshi_block_header_verify ::
    "('c, 'd) hash_ops \<Rightarrow> bytes \<Rightarrow> bool \<Rightarrow> block_header \<Rightarrow> bool \<times> bytes option" where
  "satoshi_block_header_verify P junk has_place h =
     (let digest = hash256 P (header_bytes h);
          hash = (if has_place then junk else digest);
          compare_diff = uint256_compare_with_compact hash (hdr_bits h)
      in (\<not> 0 < compare_diff, if has_place then Some digest else None))"

definition satoshi_block_cleanup :: "block \<Rightarrow> block" where
  "satoshi_block_cleanup b = b\<lparr>txns := []\<rparr>"

fun merkle_add_all :: "merkle_tree \<Rightarrow> tx list \<Rightarrow> merkle_tree res" where
  "merkle_add_all t [] = Inr t"
| "merkle_add_all t (x # xs) = andThen (merkle_tree_add t [txid x]) (\<lambda>t'. merkle_add_all t' xs)"

definition satoshi_block_parse ::
    "('c, 'd) hash_ops \<Rightarrow> bytes \<Rightarrow> block \<Rightarrow> bytes \<Rightarrow> (block \<times> nat) res" where
  "satoshi_block_parse P junk b m =
     (if m = [] then Inl Abort
      else if length m < 80 then Inl Reject
      else let b0 = satoshi_block_cleanup b; h = header_of m
      in case satoshi_block_header_verify P junk True h of (ok, hash) \<Rightarrow>
        let b1 = b0\<lparr>hdr := h, block_hash := the hash\<rparr>
        in if \<not> ok then Inl Reject
           else if length m = 80 then Inr (b1, 80)
           else let m1 = drop 80 m
           in andThen (varint_size m1) (\<lambda>s.
             if length m1 < s then Inl Reject
             else andThen (varint_get m1) (\<lambda>count.
               if sint count \<le> 0 then Inl Reject
               else andThen (parse_n (satoshi_tx_parse P tx_zero) (nat (sint count)) (drop s m1)) (\<lambda>(txs, n).
                 andThen (merkle_add_all (uint256_merkle_tree_new (sint count)) txs) (\<lambda>mt.
                   andThen (merkle_tree_recalc (hash256 P) mt 0 (- 1)) (\<lambda>mt'.
                     if hdr_merkle_root h \<noteq> merkle_root mt' then Inl Reject
                     else if MAX_BLOCK_SERIALIZED_SIZE < 80 + s + n then Inl Abort
                     else Inr (b1\<lparr>txns := txs\<rparr>, 80 + s + n)))))))"

definition satoshi_block_size :: "block \<Rightarrow> u64 res" where
  "satoshi_block_size b =
     andThen (sum_sizes satoshi_tx_size (txns b)) (\<lambda>tx_size.
       let vint_size = (if txns b = [] then 0 else varint_calc_size (of_nat (length (txns b))));
           block_size = 80 + of_nat vint_size + tx_size
       in if sint block_size \<le> int MAX_BLOCK_SERIALIZED_SIZE then Inr block_size else Inl Abort)"

definition satoshi_block_serialize :: "block \<Rightarrow> bytes res" where
  "satoshi_block_serialize b =
     andThen (satoshi_block_size b) (\<lambda>block_size.
       if block_size = 80 then Inr (header_bytes (hdr b))
       else andThen (ser_all satoshi_tx_serialize (txns b)) (\<lambda>txs.
         Inr (header_bytes (hdr b)
           @ (if txns b = [] then [] else varint_set_data (of_nat (length (txns b)))) @ txs)))"

section \<open>Headers\<close>

definition wf_header :: "block_header \<Rightarrow> bool" where
  "wf_header h \<longleftrightarrow> length (hdr_prev_hash h) = 32 \<and> length (hdr_merkle_root h) = 32"

lemma length_header_bytes: "wf_header h \<Longrightarrow> length (header_bytes h) = 80"
  by (simp add: wf_header_def header_bytes_def)

lemma header_of_bytes:
  assumes "wf_header h"
  shows "header_of (header_bytes h @ r) = h"
proof -
  have l: "length (hdr_prev_hash h) = 32" "length (hdr_merkle_root h) = 32"
    using assms by (simp_all add: wf_header_def)
  define m where "m = header_bytes h @ r"
  have d: "drop 4 m = hdr_prev_hash h @ hdr_merkle_root h @ enc32 (hdr_timestamp h)
      @ enc32 (hdr_bits h) @ enc32 (hdr_nonce h) @ r"
    "drop 36 m = hdr_merkle_root h @ enc32 (hdr_timestamp h) @ enc32 (hdr_bits h) @ enc32 (hdr_nonce h) @ r"
    "drop 68 m = enc32 (hdr_timestamp h) @ enc32 (hdr_bits h) @ enc32 (hdr_nonce h) @ r"
    "drop 72 m = enc32 (hdr_bits h) @ enc32 (hdr_nonce h) @ r"
    "drop 76 m = enc32 (hdr_nonce h) @ r"
    by (simp_all add: m_def header_bytes_def l)
  have v: "dec32 m = hdr_version h" by (simp add: m_def header_bytes_def)
  show ?thesis unfolding m_def [symmetric] by (simp add: header_of_def d v l)
qed

lemma header_bytes_of:
  assumes "80 \<le> length m"
  shows "header_bytes (header_of m) = take 80 m" "wf_header (header_of m)"
proof -
  have "take 80 m = take 4 m @ take 32 (drop 4 m) @ take 32 (drop 36 m) @ take 4 (drop 68 m)
      @ take 4 (drop 72 m) @ take 4 (drop 76 m)"
  proof -
    have "take (4 + 32 + 32 + 4 + 4 + 4) m = ((((take 4 m @ take 32 (drop 4 m)) @ take 32 (drop (4 + 32) m))
        @ take 4 (drop (4 + 32 + 32) m)) @ take 4 (drop (4 + 32 + 32 + 4) m))
        @ take 4 (drop (4 + 32 + 32 + 4 + 4) m)"
      by (simp only: take_add)
    then show ?thesis by simp
  qed
  then show "header_bytes (header_of m) = take 80 m"
    using assms by (simp add: header_bytes_def header_of_def enc_dec)
  show "wf_header (header_of m)" using assms by (simp add: wf_header_def header_of_def)
qed

text \<open>Without a place for the hash the header check is the proof-of-work check: it passes
  exactly when the double SHA-256 of the 80 header bytes, as a little-endian number, is at most the
  target the header's compact bits expand to. With a place for the hash it stores that hash, but
  whether it passes depends only on what the uninitialised local variable held.\<close>

theorem header_verify_work:
  assumes "hash_provider P sha ripemd" "length junk = 32"
  shows "satoshi_block_header_verify P junk False h
      = (le_val (sha (sha (header_bytes h))) \<le> le_val (compact_to_uint256 (hdr_bits h)), None)
    \<and> satoshi_block_header_verify P junk True h
      = (le_val junk \<le> le_val (compact_to_uint256 (hdr_bits h)), Some (sha (sha (header_bytes h))))"
proof -
  have len: "length (hash256 P m) = 32" for m by (rule hash_provider.hash256_length [OF assms(1)])
  have cmp: "(\<not> 0 < uint256_compare_with_compact x c) = (le_val x \<le> le_val (compact_to_uint256 c))"
    if "length x = 32" for x c
    using compare_from_take [of 4 x "compact_to_uint256 c"] that
    by (simp add: uint256_compare_with_compact_def uint256_compare_def sgn_if)
  show ?thesis
    using len [of "header_bytes h"] assms(2)
    by (simp add: satoshi_block_header_verify_def Let_def cmp hash_provider.hash256_twice [OF assms(1)])
qed

definition example_header :: block_header where
  "example_header = \<lparr>hdr_version = 1, hdr_prev_hash = replicate 32 3, hdr_merkle_root = replicate 32 4,
     hdr_timestamp = 5, hdr_bits = 0x1d00ffff, hdr_nonce = 6\<rparr>"

theorem header_verify_work_witness:
  "fst (satoshi_block_header_verify (recording_ops (\<lambda>_. []) id) (replicate 32 0xff) False example_header)
    \<and> \<not> fst (satoshi_block_header_verify (recording_ops (\<lambda>_. []) id) (replicate 32 0xff) True example_header)"
proof -
  have e: "enc32 0x1d00ffff = [0xff, 0xff, 0, 0x1d]" by (simp add: enc32_def le_bytes_4)
  have "compact_to_uint256 0x1d00ffff = replicate 26 0 @ [0xff, 0xff, 0] @ replicate 3 0"
    by (simp add: compact_to_uint256_def compact_exp_def compact_mantissa_def e)
  then have t: "le_val (compact_to_uint256 0x1d00ffff) < le_val (replicate 32 (0xff :: byte))"
    using le_val_replicate_ff [of 32] by (simp add: le_val_append)
  show ?thesis
    using header_verify_work [OF recording.hash_provider_axioms [of "\<lambda>_. []" id], of "replicate 32 0xff" example_header] t
    by (simp add: fit_def example_header_def)
qed

section \<open>Blocks\<close>

lemma merkle_add_all_leaves:
  "wf_tree t \<Longrightarrow> \<exists>t'. merkle_add_all t xs = Inr t' \<and> wf_tree t' \<and> leaves t' = leaves t @ map txid xs"
proof (induction xs arbitrary: t)
  case (Cons x xs)
  obtain u where u: "merkle_tree_add t [txid x] = Inr u" "wf_tree u" "leaves u = leaves t @ [txid x]"
    using add_leaves [OF Cons.prems, of "[txid x]"] by auto
  from Cons.IH [OF u(2)] obtain v where "merkle_add_all u xs = Inr v" "wf_tree v"
      "leaves v = leaves u @ map txid xs" by blast
  with u show ?case by simp
qed simp

text \<open>The tree part of the parser: for up to 2^31 - 2 transactions it computes the reference root of
  their ids.\<close>

lemma block_merkle:
  assumes "txs \<noteq> []" "length txs \<le> 2 ^ 31 - 2"
  shows "\<exists>mt mt'. merkle_add_all (uint256_merkle_tree_new n) txs = Inr mt
    \<and> merkle_tree_recalc h mt 0 (- 1) = Inr mt' \<and> merkle_root mt' = merkle_ref h (map txid txs)"
proof -
  obtain mt where mt: "merkle_add_all (uint256_merkle_tree_new n) txs = Inr mt" "wf_tree mt"
      "leaves mt = map txid txs"
    using merkle_add_all_leaves [OF new_wf(1), of n txs] new_wf(2) [of n] by auto
  have "mt_count mt = int (length txs)"
    using leaves_length [OF mt(2)] mt(2,3) by (simp add: wf_tree_def)
  moreover have "1 \<le> length txs" using assms(1) by (cases txs) simp_all
  ultimately obtain mt' where "merkle_tree_recalc h mt 0 (- 1) = Inr mt'"
      "merkle_root mt' = merkle_ref h (leaves mt)"
    using recalc_root [OF mt(2), of h] assms(2) by auto
  with mt show ?thesis by auto
qed

lemma block_parse_inv:
  assumes H: "hash_provider P sha ripemd" and ok: "satoshi_block_parse P junk b m = Inr (x, n)"
    and len: "length m \<noteq> 80"
  shows "80 < n \<and> n \<le> length m \<and> n \<le> MAX_BLOCK_SERIALIZED_SIZE
    \<and> header_bytes (hdr x) = take 80 m \<and> block_hash x = sha (sha (take 80 m))
    \<and> txns x \<noteq> [] \<and> hdr_merkle_root (hdr x) = merkle_ref (hash256 P) (map txid (txns x))
    \<and> fst (satoshi_block_header_verify P junk True (hdr x))"
proof -
  define h where "h = header_of m"
  obtain vok hash where v: "satoshi_block_header_verify P junk True h = (vok, hash)" by fastforce
  have l: "80 \<le> length m" using ok by (auto simp: satoshi_block_parse_def split: if_splits)
  have hash: "hash = Some (sha (sha (take 80 m)))"
    using v header_bytes_of(1) [OF l]
    by (auto simp: satoshi_block_header_verify_def Let_def h_def hash_provider.hash256_twice [OF H])
  define m1 where "m1 = drop 80 m"
  obtain s count txs k mt mt' where
    s: "varint_size m1 = Inr s" "s \<le> length m1" and c: "varint_get m1 = Inr count" "0 < sint count"
    and p: "parse_n (satoshi_tx_parse P tx_zero) (nat (sint count)) (drop s m1) = Inr (txs, k)"
    and mt: "merkle_add_all (uint256_merkle_tree_new (sint count)) txs = Inr mt"
    and mt': "merkle_tree_recalc (hash256 P) mt 0 (- 1) = Inr mt'"
    and root: "hdr_merkle_root h = merkle_root mt'" and cap: "80 + s + k \<le> MAX_BLOCK_SERIALIZED_SIZE"
    and vok: vok and x: "x = b\<lparr>txns := txs, hdr := h, block_hash := the hash\<rparr>" and n: "n = 80 + s + k"
    using ok l len v by (auto simp: satoshi_block_parse_def Let_def h_def [symmetric] m1_def [symmetric]
        satoshi_block_cleanup_def res_simps not_less split: if_splits)
  have b: "k \<le> length (drop s m1) \<and> length txs = nat (sint count) \<and> nat (sint count) \<le> k"
    by (rule bounded_parser.parse_n_bound [OF tx_bounded [OF H] p])
  have "txs \<noteq> []" using b c(2) by auto
  moreover have "length txs \<le> 2 ^ 31 - 2" using b cap by (simp add: MAX_BLOCK_SERIALIZED_SIZE_def)
  ultimately have "merkle_root mt' = merkle_ref (hash256 P) (map txid txs)"
    using block_merkle [of txs "sint count" "hash256 P"] mt mt' by auto
  with \<open>txs \<noteq> []\<close> b s c(2) cap x n root vok v hash l header_bytes_of(1) [OF l]
    varint_size_pos [OF s(1)]
  show ?thesis by (auto simp: h_def m1_def)
qed

text \<open>C2. A payload that is more than a header and that the block parser accepts holds a non-empty
  list of transactions whose ids have the header's merkle root as their reference root; the bytes
  used lie inside the payload and under the block size limit, the header is its first 80 bytes, and
  the block hash is their double SHA-256.\<close>

theorem block_parse_sound:
  assumes "hash_provider P sha ripemd" "satoshi_block_parse P junk b m = Inr (x, n)" "length m \<noteq> 80"
  shows "80 < n \<and> n \<le> length m \<and> n \<le> MAX_BLOCK_SERIALIZED_SIZE
    \<and> header_bytes (hdr x) = take 80 m \<and> block_hash x = sha (sha (take 80 m))
    \<and> txns x \<noteq> [] \<and> hdr_merkle_root (hdr x) = merkle_ref (hash256 P) (map txid (txns x))"
  using block_parse_inv [OF assms] by blast

definition wf_block :: "(bytes \<Rightarrow> bytes) \<Rightarrow> block \<Rightarrow> bool" where
  "wf_block sha b \<longleftrightarrow> wf_header (hdr b) \<and> txns b \<noteq> [] \<and> list_all (wf_tx_ids sha) (txns b)
     \<and> block_hash b = sha (sha (header_bytes (hdr b)))
     \<and> hdr_merkle_root (hdr b) = merkle_ref (\<lambda>m. sha (sha m)) (map txid (txns b))
     \<and> 80 + length (vec_wire tx_wire (txns b)) \<le> MAX_BLOCK_SERIALIZED_SIZE"

definition block_wire :: "block \<Rightarrow> bytes" where
  "block_wire b = header_bytes (hdr b) @ vec_wire tx_wire (txns b)"

lemma block_parse_wire:
  assumes H: "hash_provider P sha ripemd" and wf: "wf_block sha b"
    and junk: "fst (satoshi_block_header_verify P junk True (hdr b))"
    and cap: "length (vec_wire tx_wire (txns b) @ r) \<le> MAX_BLOCK_SERIALIZED_SIZE"
  shows "satoshi_block_parse P junk b0 (block_wire b @ r) = Inr (b, length (block_wire b))"
proof -
  define n where "n = length (txns b)"
  define k where "k = varint_calc_size (of_nat n)"
  define T where "T = concat (map tx_wire (txns b))"
  define M where "M = block_wire b @ r"
  have txs: "list_all (wf_tx_ids sha) (txns b)" "txns b \<noteq> []" and hd: "wf_header (hdr b)"
    and root: "hdr_merkle_root (hdr b) = merkle_ref (hash256 P) (map txid (txns b))"
    and hash: "block_hash b = hash256 P (header_bytes (hdr b))"
  proof -
    have "(\<lambda>m. sha (sha m)) = hash256 P" by (rule ext) (simp add: hash_provider.hash256_twice [OF H])
    then show "list_all (wf_tx_ids sha) (txns b)" "txns b \<noteq> []" "wf_header (hdr b)"
      "hdr_merkle_root (hdr b) = merkle_ref (hash256 P) (map txid (txns b))"
      "block_hash b = hash256 P (header_bytes (hdr b))"
      using wf by (simp_all add: wf_block_def hash_provider.hash256_twice [OF H])
  qed
  have cap': "length (T @ r) \<le> MAX_BLOCK_SERIALIZED_SIZE"
    using cap by (simp add: vec_wire_def T_def)
  have "n \<le> length T"
    unfolding n_def T_def using cap' by (intro wire_codec.length_concat_ser [OF tx_codec [OF H] txs(1)])
      (simp add: T_def)
  then have nn: "n < 2 ^ 62" "n \<le> 2 ^ 31 - 2" using cap' by (simp_all add: MAX_BLOCK_SERIALIZED_SIZE_def)
  have M: "M = header_bytes (hdr b) @ varint_set_data (of_nat n) @ T @ r"
    by (simp add: M_def block_wire_def vec_wire_def n_def T_def)
  have l80: "length (header_bytes (hdr b)) = 80" by (rule length_header_bytes [OF hd])
  have d: "drop 80 M = varint_set_data (of_nat n) @ T @ r" "header_of M = hdr b"
    using header_of_bytes [OF hd] l80 by (simp_all add: M)
  have lM: "80 < length M" using varint_calc_size_bounds(1) [of "of_nat n"] by (simp add: M l80)
  have p: "parse_n (satoshi_tx_parse P tx_zero) n (T @ r) = Inr (txns b, length T)"
    unfolding n_def T_def using cap'
    by (intro wire_codec.parse_n_ser [OF tx_codec [OF H] txs(1)]) (simp add: T_def)
  obtain mt mt' where mt: "merkle_add_all (uint256_merkle_tree_new (int n)) (txns b) = Inr mt"
      "merkle_tree_recalc (hash256 P) mt 0 (- 1) = Inr mt'"
      "merkle_root mt' = merkle_ref (hash256 P) (map txid (txns b))"
    using block_merkle [OF txs(2), of "int n" "hash256 P"] nn(2) by (auto simp: n_def)
  have s: "sint (of_nat n :: u64) = int n" using nn by (simp add: sint_u64_of_nat)
  have n0: "0 < n" using txs(2) by (simp add: n_def)
  have bs: "80 + k + length T \<le> MAX_BLOCK_SERIALIZED_SIZE"
    using wf by (simp add: wf_block_def vec_wire_def k_def n_def T_def)
  have v: "satoshi_block_header_verify P junk True (hdr b) = (True, Some (block_hash b))"
    using junk by (simp add: satoshi_block_header_verify_def Let_def hash)
  have out: "length (block_wire b) = 80 + k + length T"
    by (simp add: block_wire_def l80 vec_wire_def k_def n_def T_def)
  have b: "b0\<lparr>txns := txns b, hdr := hdr b, block_hash := block_hash b\<rparr> = b"
    by (cases b; cases b0) simp
  show ?thesis
    unfolding M_def [symmetric] out satoshi_block_parse_def
    using lM n0 bs p mt root b
    by (auto simp: d v Let_def satoshi_block_cleanup_def s k_def)
qed

lemma block_serialize_wire:
  assumes "wf_block sha b"
  shows "satoshi_block_serialize b = Inr (block_wire b)"
proof -
  have txs: "\<And>t. t \<in> set (txns b) \<Longrightarrow> wf_tx t" and ne: "txns b \<noteq> []" and hd: "wf_header (hdr b)"
    and cap: "80 + length (vec_wire tx_wire (txns b)) \<le> 4000000"
    using assms by (auto simp: wf_block_def wf_tx_ids_def list_all_iff MAX_BLOCK_SERIALIZED_SIZE_def)
  have sz: "sum_sizes satoshi_tx_size (txns b) = Inr (of_nat (length (concat (map tx_wire (txns b)))))"
    by (rule sum_sizes_val) (use txs tx_size_wire in simp)
  have ser: "ser_all satoshi_tx_serialize (txns b) = Inr (concat (map tx_wire (txns b)))"
    by (rule ser_all_map) (use txs tx_serialize_wire in simp)
  define n where "n = 80 + length (vec_wire tx_wire (txns b))"
  have nn: "(80 :: u64) + of_nat (varint_calc_size (of_nat (length (txns b))))
      + of_nat (length (concat (map tx_wire (txns b)))) = of_nat n"
    by (simp add: n_def vec_wire_def)
  have s: "sint (of_nat n :: u64) = int n" using cap by (intro sint_u64_of_nat) (simp add: n_def)
  have "satoshi_block_size b = Inr (of_nat n)"
  proof -
    have "int n \<le> int MAX_BLOCK_SERIALIZED_SIZE" using cap by (simp add: n_def MAX_BLOCK_SERIALIZED_SIZE_def)
    then show ?thesis
      unfolding satoshi_block_size_def sz andThen_simps Let_def using ne by (simp only: if_False nn s if_True)
  qed
  moreover have "80 < n" using varint_calc_size_bounds(1) by (simp add: n_def vec_wire_def)
  then have "(of_nat n :: u64) \<noteq> 80"
    using of_nat_u64_eq_iff [of n 80] cap by (simp add: n_def)
  ultimately show ?thesis
    using ne by (simp add: satoshi_block_serialize_def ser block_wire_def vec_wire_def)
qed

text \<open>C15. A well-formed block, its merkle root the reference root of its transaction ids, is written as
  its wire form, and parsing what was written gives the block back with nothing else used,
  provided the header check passes for what the uninitialised variable holds.\<close>

theorem block_roundtrip:
  assumes "hash_provider P sha ripemd" "wf_block sha b"
    and "fst (satoshi_block_header_verify P junk True (hdr b))"
    and "length (vec_wire tx_wire (txns b) @ r) \<le> MAX_BLOCK_SERIALIZED_SIZE"
  shows "\<exists>m. satoshi_block_serialize b = Inr m
    \<and> satoshi_block_parse P junk b0 (m @ r) = Inr (b, length m)"
  using block_serialize_wire [OF assms(2)] block_parse_wire [OF assms] by blast

definition example_tx_ids :: tx where
  "example_tx_ids = example_tx\<lparr>txid := fit 32 id (fit 32 id (tx_stripped example_tx)),
     wtxid := fit 32 id (fit 32 id (tx_wire example_tx))\<rparr>"

definition example_block :: block where
  "example_block = (let h = example_header\<lparr>hdr_merkle_root := txid example_tx_ids\<rparr> in
     \<lparr>hdr = h, txns = [example_tx_ids], block_hash = fit 32 id (fit 32 id (header_bytes h))\<rparr>)"

lemma example_block_wf: "wf_block (fit 32 id) example_block"
  and example_block_size: "length (vec_wire tx_wire (txns example_block)) \<le> 1000"
proof -
  have wire: "tx_wire (t\<lparr>txid := a, wtxid := c\<rparr>) = tx_wire t"
    "tx_witness_wire (t\<lparr>txid := a, wtxid := c\<rparr>) = tx_witness_wire t" for t a c
    by (simp_all add: tx_wire_def tx_witness_wire_def)
  have same: "tx_wire example_tx_ids = tx_wire example_tx" "tx_stripped example_tx_ids = tx_stripped example_tx"
    by (simp_all add: example_tx_ids_def tx_wire_def tx_stripped_def tx_witness_wire_def)
  have "wf_tx example_tx_ids"
    using example_tx_wf by (simp add: wf_tx_def example_tx_ids_def wire)
  then have ids: "wf_tx_ids (fit 32 id) example_tx_ids"
    using same by (simp add: wf_tx_ids_def) (simp add: example_tx_ids_def example_tx_def)
  have len: "length (tx_wire example_tx) \<le> 500"
    by (simp add: example_tx_def tx_zero_def tx_witness_wire_def witness_wire_def
        tx_wire_def vec_wire_def length_mk_varstr
        varint_calc_size_def txin_wire_def example_txin_def txin_zero_def txout_wire_def
        example_txout_def outpoint_bytes_def)
  show sz: "length (vec_wire tx_wire (txns example_block)) \<le> 1000"
    using len varint_calc_size_bounds(2) [of 1] by (simp add: example_block_def Let_def vec_wire_def same)
  have "length (txid example_tx_ids) = 32" by (simp add: example_tx_ids_def)
  with ids sz show "wf_block (fit 32 id) example_block"
    by (simp add: wf_block_def wf_header_def example_header_def MAX_BLOCK_SERIALIZED_SIZE_def)
      (simp add: example_block_def Let_def example_header_def)
qed

theorem block_roundtrip_witness:
  "\<exists>m. satoshi_block_serialize example_block = Inr m
    \<and> satoshi_block_parse (recording_ops id id) (replicate 32 0) example_block (m @ [7]) = Inr (example_block, length m)"
proof -
  have "fst (satoshi_block_header_verify (recording_ops id id) (replicate 32 0) True (hdr example_block))"
    using uint256_compare_nonneg [of "compact_to_uint256 (hdr_bits (hdr example_block))"]
    by (simp add: satoshi_block_header_verify_def Let_def uint256_compare_with_compact_def)
  moreover have "length (vec_wire tx_wire (txns example_block) @ [7]) \<le> MAX_BLOCK_SERIALIZED_SIZE"
    using example_block_size by (simp add: MAX_BLOCK_SERIALIZED_SIZE_def)
  ultimately show ?thesis
    by (rule block_roundtrip [OF recording.hash_provider_axioms example_block_wf])
qed

theorem block_parse_sound_witness:
  "\<exists>m n. satoshi_block_parse (recording_ops id id) (replicate 32 0) example_block m = Inr (example_block, n)
    \<and> n \<le> length m \<and> txns example_block \<noteq> []"
proof -
  have v: "fst (satoshi_block_header_verify (recording_ops id id) (replicate 32 0) True (hdr example_block))"
    using uint256_compare_nonneg [of "compact_to_uint256 (hdr_bits (hdr example_block))"]
    by (simp add: satoshi_block_header_verify_def Let_def uint256_compare_with_compact_def)
  have c: "length (vec_wire tx_wire (txns example_block) @ []) \<le> MAX_BLOCK_SERIALIZED_SIZE"
    using example_block_size by (simp add: MAX_BLOCK_SERIALIZED_SIZE_def)
  from block_parse_wire [OF recording.hash_provider_axioms example_block_wf v c, of example_block]
  have p: "satoshi_block_parse (recording_ops id id) (replicate 32 0) example_block (block_wire example_block)
      = Inr (example_block, length (block_wire example_block))" by simp
  have "length (block_wire example_block) \<noteq> 80"
    using example_block_wf varint_calc_size_bounds(1)
    by (auto simp: block_wire_def wf_block_def length_header_bytes vec_wire_def)
  from block_parse_sound [OF recording.hash_provider_axioms p this] p show ?thesis by blast
qed

text \<open>A block whose last transaction is repeated carries the same merkle root: see
  \<open>merkle_duplicate_leaf\<close>; the parser has no check against it.\<close>

end
