(* ===== verification/Sighash.thy ===== *)
theory Sighash
  imports Tx
begin

unbundle bit_operations_syntax

text \<open>
  Signature digests: the legacy and dispatching routines of \<open>src/satoshi-tx.c\<close>
  (\<open>satoshi_rawtx_*\<close>, \<open>satoshi_utxo_get_digest\<close>, and the deprecated
  \<open>segwit_v0_generate_preimage\<close> and \<open>satoshi_tx_get_digest\<close>) and the version 0 witness
  digest of \<open>src/segwit-tx.c\<close>. A \<open>satoshi_rawtx_t\<close> keeps two running hash contexts, its own
  copy of the inputs with empty scripts, and the index of the last input absorbed; the attached
  transaction, which other code changes through its own pointer, is an argument. The last sections
  state the documented digests (the specification quoted in \<open>segwit-tx.c\<close>, the legacy
  serialization) and compare.
\<close>

definition sighash_all :: u32 where "sighash_all = 1"
definition sighash_none :: u32 where "sighash_none = 2"
definition sighash_single :: u32 where "sighash_single = 3"
definition sighash_masks :: u32 where "sighash_masks = 0x1f"
definition sighash_anyone_can_pay :: u32 where "sighash_anyone_can_pay = 0x80"

definition zero32 :: bytes where "zero32 = replicate 32 0"
definition varstr_empty :: bytes where "varstr_empty = [0]"

record 'c rawtx =
  raw_sha0 :: "'c"
  raw_sha1 :: "'c"
  raw_txins :: "txin list"
  last_hashed_txin_index :: int
  txouts_hash :: bytes

text \<open>Zeroed memory; \<open>z\<close> is a zeroed hash context.\<close>

definition rawtx_zero :: "'c \<Rightarrow> 'c rawtx" where
  "rawtx_zero z = \<lparr>raw_sha0 = z, raw_sha1 = z, raw_txins = [], last_hashed_txin_index = 0,
     txouts_hash = zero32\<rparr>"

section \<open>Hashing parts of a transaction\<close>

definition sha_feed :: "('c, 'd) hash_ops \<Rightarrow> 'c \<Rightarrow> bytes list \<Rightarrow> 'c" where
  "sha_feed P c bs = foldl (sha256_update P) c bs"

definition prehash_prevouts :: "('c, 'd) hash_ops \<Rightarrow> 'c \<Rightarrow> txin list \<Rightarrow> 'c" where
  "prehash_prevouts P sha ins =
     (if ins = [] then sha256_update P sha zero32
      else sha256_update P sha
             (sha_final2 P (sha_absorb P (map (\<lambda>t. outpoint_bytes (txin_outpoint t)) ins))))"

definition prehash_sequences :: "('c, 'd) hash_ops \<Rightarrow> 'c \<Rightarrow> txin list \<Rightarrow> 'c" where
  "prehash_sequences P sha ins =
     (if ins = [] then sha256_update P sha zero32
      else sha256_update P sha (sha_final2 P (sha_absorb P (map (\<lambda>t. enc32 (txin_sequence t)) ins))))"

definition txout_blocks :: "txout \<Rightarrow> bytes list res" where
  "txout_blocks t =
     (case txout_scripts t of
        None \<Rightarrow> Inl Undefined
      | Some v \<Rightarrow> andThen (ser_item v) (\<lambda>b. Inr [enc64 (txout_value t), b]))"

fun txouts_blocks :: "txout list \<Rightarrow> bytes list res" where
  "txouts_blocks [] = Inr []"
| "txouts_blocks (t # ts) =
     andThen (txout_blocks t) (\<lambda>b. andThen (txouts_blocks ts) (\<lambda>r. Inr (b @ r)))"

text \<open>
  With \<open>save\<close> the hash is handed out and the context left alone (unless there is nothing to
  hash); without it the context absorbs the hash. A negative index means all outputs.
\<close>

definition prehash_outputs ::
    "('c, 'd) hash_ops \<Rightarrow> 'c \<Rightarrow> txout list \<Rightarrow> int \<Rightarrow> bool \<Rightarrow> ('c \<times> bytes option) res" where
  "prehash_outputs P sha outs txin_index save =
     (if outs = [] then Inr (sha256_update P sha zero32, None)
      else if \<not> txin_index < int (length outs) then Inl Abort
      else andThen (if txin_index < 0 then txouts_blocks outs else txout_blocks (outs ! nat txin_index))
        (\<lambda>bs. let hash = sha_final2 P (sha_absorb P bs)
               in Inr (if save then (sha, Some hash) else (sha256_update P sha hash, None))))"

section \<open>Version 0 witness digests\<close>

definition satoshi_rawtx_attach_segwit_tx ::
    "('c, 'd) hash_ops \<Rightarrow> 'c rawtx \<Rightarrow> tx \<Rightarrow> 'c rawtx res" where
  "satoshi_rawtx_attach_segwit_tx P raw t =
     (if \<not> (has_flag t \<and> tx_flag t = [0, 1] \<and> txins t \<noteq> [] \<and> txouts t \<noteq> []) then Inl Abort
      else let sha = sha256_update P (sha256_init P) (enc32 (tx_version t));
               sha = prehash_prevouts P sha (txins t);
               sha = prehash_sequences P sha (txins t)
           in andThen (prehash_outputs P sha (txouts t) (- 1) True) (\<lambda>(sha, saved).
                Inr (raw\<lparr>raw_sha1 := sha,
                         txouts_hash := (case saved of None \<Rightarrow> txouts_hash raw | Some h \<Rightarrow> h)\<rparr>)))"

definition segwit_utxo_get_digest ::
    "('c, 'd) hash_ops \<Rightarrow> 'c rawtx \<Rightarrow> tx \<Rightarrow> int \<Rightarrow> u32 \<Rightarrow> txout \<Rightarrow> bytes res" where
  "segwit_utxo_get_digest P raw t cur_index hash_type utxo =
     (if \<not> (0 \<le> cur_index \<and> cur_index < int (length (txins t))) then Inl Abort
      else
        let anyone_canpay = hash_type AND 0x80;
            hash_type = hash_type AND sighash_masks;
            start = sha256_update P (sha256_init P) (enc32 (tx_version t));
            sha = (if anyone_canpay = 0
                   then if hash_type = sighash_all then raw_sha1 raw
                        else let sha = prehash_prevouts P start (txins t)
                             in if hash_type = sighash_none \<or> hash_type = sighash_single
                                then sha256_update P sha zero32
                                else prehash_sequences P sha (txins t)
                   else sha_feed P start [zero32, zero32]);
            txin = txins t ! nat cur_index;
            sha = sha256_update P sha (outpoint_bytes (txin_outpoint txin))
        in andThen (satoshi_txin_get_redeem_scripts txin) (\<lambda>redeem.
          case redeem of None \<Rightarrow> Inl Abort
          | Some v \<Rightarrow>
            andThen (ser_item v) (\<lambda>code.
              let sha = sha_feed P sha [code, enc64 (txout_value utxo), enc32 (txin_sequence txin)]
              in andThen
                (if hash_type = sighash_all then Inr (sha256_update P sha (txouts_hash raw))
                 else if hash_type = sighash_none
                   then andThen (prehash_outputs P sha [] (- 1) False) (\<lambda>(sha, _). Inr sha)
                 else if hash_type = sighash_single
                   then if int (length (txouts t)) \<le> cur_index then Inr (sha256_update P sha zero32)
                        else andThen (prehash_outputs P sha (txouts t) cur_index False)
                               (\<lambda>(sha, _). Inr sha)
                 else Inl Abort) (\<lambda>sha.
                Inr (sha_final2 P (sha_feed P sha
                  [enc32 (lock_time t), enc32 (hash_type OR anyone_canpay)]))))))"

section \<open>Legacy digests\<close>

text \<open>Attaching. A null \<open>rawtx\<close> is allocated; when the transaction is flagged, the segwit part
  allocates its own one, and the one it prepared is lost.\<close>

definition satoshi_rawtx_attach ::
    "('c, 'd) hash_ops \<Rightarrow> 'c \<Rightarrow> 'c rawtx option \<Rightarrow> tx \<Rightarrow> 'c rawtx res" where
  "satoshi_rawtx_attach P z raw t =
     (if txins t = [] then Inl Abort
      else andThen
        (if has_flag t
         then andThen (satoshi_rawtx_attach_segwit_tx P (case raw of None \<Rightarrow> rawtx_zero z | Some r \<Rightarrow> r) t)
                (\<lambda>r. Inr (case raw of None \<Rightarrow> rawtx_zero z | Some _ \<Rightarrow> r))
         else Inr (case raw of None \<Rightarrow> rawtx_zero z | Some r \<Rightarrow> r)) (\<lambda>r.
        Inr (r\<lparr>last_hashed_txin_index := 0,
               raw_txins := map (\<lambda>i. txin_zero\<lparr>txin_outpoint := txin_outpoint i,
                              txin_scripts := Some varstr_empty,
                              txin_sequence := txin_sequence i\<rparr>) (txins t),
               raw_sha0 := sha_feed P (sha256_init P)
                 [enc32 (tx_version t), varint_set_data (of_nat (length (txins t)))]\<rparr>)))"

definition satoshi_rawtx_detach :: "('c, 'd) hash_ops \<Rightarrow> 'c rawtx \<Rightarrow> 'c rawtx" where
  "satoshi_rawtx_detach P raw =
     raw\<lparr>raw_txins := [], last_hashed_txin_index := - 1, txouts_hash := zero32,
         raw_sha0 := sha256_init P, raw_sha1 := sha256_init P\<rparr>"

definition raw_txin_blocks :: "txin \<Rightarrow> bytes list res" where
  "raw_txin_blocks i =
     (case txin_scripts i of
        None \<Rightarrow> Inl Undefined
      | Some v \<Rightarrow> andThen (ser_item v) (\<lambda>b.
          Inr [outpoint_bytes (txin_outpoint i), b, enc32 (txin_sequence i)]))"

fun raw_txins_blocks :: "txin list \<Rightarrow> bytes list res" where
  "raw_txins_blocks [] = Inr []"
| "raw_txins_blocks (i # is) =
     andThen (raw_txin_blocks i) (\<lambda>b. andThen (raw_txins_blocks is) (\<lambda>r. Inr (b @ r)))"

text \<open>
  The state after the call and the digest; no digest when the routine returns -1 (single, and no
  output with the index), which it does after the state has changed.
\<close>

definition satoshi_utxo_get_digest ::
    "('c, 'd) hash_ops \<Rightarrow> 'c rawtx \<Rightarrow> tx \<Rightarrow> int \<Rightarrow> u32 \<Rightarrow> ('c rawtx \<times> bytes option) res" where
  "satoshi_utxo_get_digest P raw t cur_index hash_type =
     (if \<not> (0 \<le> cur_index \<and> cur_index < int (length (txins t))
             \<and> last_hashed_txin_index raw < int (length (txins t))) then Inl Abort
      else
        let anyone_canpay = hash_type AND sighash_anyone_can_pay;
            hash_type = hash_type AND NOT sighash_anyone_can_pay;
            start = (if last_hashed_txin_index raw < 0 then 0 else last_hashed_txin_index raw);
            cur = nat cur_index; first = nat start
        in if cur_index < start then Inl Abort
           else if length (raw_txins raw) < length (txins t) then Inl Undefined
           else andThen (satoshi_txin_get_redeem_scripts (txins t ! cur)) (\<lambda>redeem.
             let ins = (take (length (txins t)) (raw_txins raw))[cur := (raw_txins raw ! cur)\<lparr>txin_scripts := redeem\<rparr>]
             in andThen
               (if anyone_canpay \<noteq> 0
                then andThen (raw_txin_blocks (ins ! cur)) (\<lambda>bs.
                  Inr (raw\<lparr>last_hashed_txin_index := start\<rparr>,
                       sha_feed P (sha_feed P (sha256_init P) [enc32 (tx_version t)]) bs))
                else if txin_scripts (ins ! first) = None then Inl Abort
                else andThen (raw_txins_blocks (take (cur - first) (drop first ins))) (\<lambda>bs.
                  let sha0 = sha_feed P (raw_sha0 raw) bs
                  in andThen (raw_txins_blocks (drop cur ins)) (\<lambda>rest.
                    Inr (raw\<lparr>raw_sha0 := sha0, last_hashed_txin_index := cur_index - 1\<rparr>,
                         sha_feed P sha0 rest)))) (\<lambda>(raw1, sha).
               let raw' = raw1\<lparr>raw_txins := (raw_txins raw1)[cur := (raw_txins raw1 ! cur)
                            \<lparr>txin_scripts := Some varstr_empty\<rparr>]\<rparr>
               in andThen
                 (if hash_type = sighash_all
                  then andThen (txouts_blocks (txouts t)) (\<lambda>bs.
                    Inr (Some (varint_set_data (of_nat (length (txouts t))) # bs)))
                  else if hash_type = sighash_single
                  then if int (length (txouts t)) \<le> cur_index then Inr None
                       else andThen (txout_blocks (txouts t ! cur)) (\<lambda>bs. Inr (Some bs))
                  else Inr (Some [])) (\<lambda>outs.
                 Inr (raw', case outs of
                     None \<Rightarrow> None
                   | Some bs \<Rightarrow> Some (sha_final2 P (sha_feed P sha
                       (bs @ [enc32 (lock_time t), enc32 (hash_type OR anyone_canpay)]))))))))"

definition satoshi_rawtx_get_digest ::
    "('c, 'd) hash_ops \<Rightarrow> 'c rawtx \<Rightarrow> tx \<Rightarrow> int \<Rightarrow> u32 \<Rightarrow> txout \<Rightarrow> ('c rawtx \<times> bytes option) res" where
  "satoshi_rawtx_get_digest P raw t cur_index hash_type utxo =
     (let flags = txout_flags utxo AND txout_type_masks;
          p2sh_segwit_flags = txout_flags utxo AND txout_type_p2sh_segwit_flags
      in if p2sh_segwit_flags \<noteq> 0 \<or> flags = txout_type_segwit
         then andThen (segwit_utxo_get_digest P raw t cur_index hash_type utxo) (\<lambda>d. Inr (raw, Some d))
         else if flags = txout_type_legacy
         then satoshi_utxo_get_digest P raw t cur_index hash_type
         else Inr (raw, None))"

section \<open>The deprecated routines\<close>

definition segwit_v0_generate_preimage ::
    "('c, 'd) hash_ops \<Rightarrow> tx \<Rightarrow> nat \<Rightarrow> u32 \<Rightarrow> txout \<Rightarrow> bytes res" where
  "segwit_v0_generate_preimage P t cur_index hash_type utxo =
     (if length (txins t) \<le> cur_index then Inl Undefined
      else let cur_txin = txins t ! cur_index
      in case redeem_scripts cur_txin of None \<Rightarrow> Inl Undefined
      | Some v \<Rightarrow>
          andThen (varstr_size v) (\<lambda>cb_redeem_scripts.
            andThen (mem_read (unat cb_redeem_scripts) v) (\<lambda>code.
              andThen (txouts_blocks (txouts t)) (\<lambda>outs.
                if \<not> (1 \<le> hash_type AND 0x7f \<and> hash_type AND 0x7f \<le> 3) then Inl Abort
                else Inr (enc32 (tx_version t)
                  @ sha_final2 P (sha_absorb P (map (\<lambda>i. outpoint_bytes (txin_outpoint i)) (txins t)))
                  @ sha_final2 P (sha_absorb P (map (\<lambda>i. enc32 (txin_sequence i)) (txins t)))
                  @ outpoint_bytes (txin_outpoint cur_txin) @ code @ enc64 (txout_value utxo)
                  @ enc32 (txin_sequence cur_txin) @ sha_final2 P (sha_absorb P outs)
                  @ enc32 (lock_time t) @ enc32 hash_type)))))"

definition segwit_v0_tx_get_digest ::
    "('c, 'd) hash_ops \<Rightarrow> tx \<Rightarrow> nat \<Rightarrow> u32 \<Rightarrow> txout \<Rightarrow> bytes res" where
  "segwit_v0_tx_get_digest P t cur_index hash_type utxo =
     andThen (segwit_v0_generate_preimage P t cur_index hash_type utxo) (\<lambda>image.
       Inr (hash256 P image))"

text \<open>Overwriting the length prefix of an input's script in place, all inputs but one.\<close>

fun set_script_lengths :: "(txin \<Rightarrow> u64) \<Rightarrow> nat \<Rightarrow> nat \<Rightarrow> txin list \<Rightarrow> txin list res" where
  "set_script_lengths len skip i [] = Inr []"
| "set_script_lengths len skip i (t # ts) =
     andThen
       (if i = skip then Inr t
        else case txin_scripts t of
            None \<Rightarrow> Inr t
          | Some v \<Rightarrow> andThen (varint_set (Some v) (len t)) (\<lambda>v'. Inr (t\<lparr>txin_scripts := Some v'\<rparr>)))
       (\<lambda>t'. andThen (set_script_lengths len skip (Suc i) ts) (\<lambda>ts'. Inr (t' # ts')))"

text \<open>The transaction as the routine leaves it, with the digest. For an input marked as
  pay-to-script-hash the script put in its place is the redeem script of the first input.\<close>

definition satoshi_tx_get_digest ::
    "('c, 'd) hash_ops \<Rightarrow> tx \<Rightarrow> nat \<Rightarrow> u32 \<Rightarrow> txout \<Rightarrow> (tx \<times> bytes) res" where
  "satoshi_tx_get_digest P t txin_index hash_type utxo =
     (if has_flag t \<and> tx_flag t = [0, 1]
      then andThen (segwit_v0_tx_get_digest P t txin_index hash_type utxo) (\<lambda>d. Inr (t, d))
      else if txins t = [] then Inl Abort
      else if length (txins t) \<le> txin_index then Inl Undefined
      else let cur = txins t ! txin_index;
               backup = txin_scripts cur;
               code = (if is_p2sh cur then redeem_scripts (hd (txins t)) else txout_scripts utxo)
      in if code = None then Inl Abort
      else andThen (set_script_lengths (\<lambda>_. 0) txin_index 0
                      ((txins t)[txin_index := cur\<lparr>txin_scripts := code\<rparr>])) (\<lambda>ins.
        andThen (satoshi_tx_serialize (t\<lparr>txins := ins\<rparr>)) (\<lambda>image.
          andThen (set_script_lengths cb_scripts txin_index 0
                     (ins[txin_index := (ins ! txin_index)\<lparr>txin_scripts := backup\<rparr>])) (\<lambda>ins'.
            Inr (t\<lparr>txins := ins'\<rparr>, hash256 P (image @ enc32 hash_type))))))"

section \<open>The documented digests\<close>

text \<open>The ten items of the specification for version 0 witness programs, for inputs and outputs
  given by their wire forms.\<close>

definition bip143_preimage :: "(bytes \<Rightarrow> bytes) \<Rightarrow> tx \<Rightarrow> nat \<Rightarrow> u32 \<Rightarrow> u64 \<Rightarrow> bytes \<Rightarrow> bytes" where
  "bip143_preimage dsha t cur hash_type amount script_code =
     (let anyone = (hash_type AND 0x80 \<noteq> 0);
          base = hash_type AND 0x1f;
          single = (base = 3); none = (base = 2);
          txin = txins t ! cur;
          hash_prevouts = (if anyone then zero32
            else dsha (concat (map (\<lambda>i. outpoint_bytes (txin_outpoint i)) (txins t))));
          hash_sequence = (if anyone \<or> single \<or> none then zero32
            else dsha (concat (map (\<lambda>i. enc32 (txin_sequence i)) (txins t))));
          hash_outputs = (if \<not> single \<and> \<not> none then dsha (concat (map txout_wire (txouts t)))
            else if single \<and> cur < length (txouts t) then dsha (txout_wire (txouts t ! cur))
            else zero32)
      in enc32 (tx_version t) @ hash_prevouts @ hash_sequence
         @ outpoint_bytes (txin_outpoint txin) @ script_code @ enc64 amount
         @ enc32 (txin_sequence txin) @ hash_outputs @ enc32 (lock_time t) @ enc32 hash_type)"

text \<open>The legacy serialization for the type \<open>all\<close>: the inputs with empty scripts except the one
  that is signed.\<close>

definition legacy_input :: "(nat \<Rightarrow> bytes) \<Rightarrow> txin list \<Rightarrow> nat \<Rightarrow> bytes" where
  "legacy_input code ins i =
     outpoint_bytes (txin_outpoint (ins ! i)) @ code i @ enc32 (txin_sequence (ins ! i))"

definition legacy_preimage :: "tx \<Rightarrow> nat \<Rightarrow> u32 \<Rightarrow> bytes \<Rightarrow> bytes" where
  "legacy_preimage t cur hash_type script_code =
     enc32 (tx_version t) @ varint_set_data (of_nat (length (txins t)))
     @ concat (map (legacy_input (\<lambda>i. if i = cur then script_code else [0]) (txins t)) [0..<length (txins t)])
     @ vec_wire txout_wire (txouts t) @ enc32 (lock_time t) @ enc32 hash_type"

section \<open>Running contexts as absorbed blocks\<close>

lemma sha_feed_absorb: "sha_feed P (sha_absorb P as) bs = sha_absorb P (as @ bs)"
  by (simp add: sha_feed_def sha_absorb_def)

lemmas absorb_simps = sha_absorb_nil [symmetric] sha_absorb_snoc sha_feed_absorb

lemma txout_blocks_wf:
  assumes "wf_txout t"
  shows "\<exists>bs. txout_blocks t = Inr bs \<and> concat bs = txout_wire t"
proof -
  from assms obtain b d where d: "length (b # d) < 2 ^ 62" and s: "txout_scripts t = Some (mk_varstr (b # d))"
    by (auto simp: wf_txout_def)
  have "wf_varstr (mk_varstr (b # d))" using d unfolding wf_varstr_def by blast
  then show ?thesis by (simp add: txout_blocks_def s ser_item_wf txout_wire_def)
qed

lemma txouts_blocks_wf:
  "list_all wf_txout ts \<Longrightarrow> \<exists>bs. txouts_blocks ts = Inr bs \<and> concat bs = concat (map txout_wire ts)"
proof (induction ts)
  case (Cons t ts)
  with txout_blocks_wf [of t] show ?case by fastforce
qed simp

context hash_provider
begin

lemma prevouts_absorb:
  "ins \<noteq> [] \<Longrightarrow> prehash_prevouts P (sha_absorb P bs) ins
    = sha_absorb P (bs @ [sha (sha (concat (map (\<lambda>t. outpoint_bytes (txin_outpoint t)) ins)))])"
  by (simp add: prehash_prevouts_def absorb_simps sha_absorb_final2)

lemma sequences_absorb:
  "ins \<noteq> [] \<Longrightarrow> prehash_sequences P (sha_absorb P bs) ins
    = sha_absorb P (bs @ [sha (sha (concat (map (\<lambda>t. enc32 (txin_sequence t)) ins)))])"
  by (simp add: prehash_sequences_def absorb_simps sha_absorb_final2)

lemma outputs_all:
  assumes "outs \<noteq> []" "list_all wf_txout outs"
  shows "prehash_outputs P c outs (- 1) True = Inr (c, Some (sha (sha (concat (map txout_wire outs)))))"
proof -
  obtain bs where "txouts_blocks outs = Inr bs" "concat bs = concat (map txout_wire outs)"
    using txouts_blocks_wf [OF assms(2)] by blast
  with assms(1) show ?thesis by (simp add: prehash_outputs_def Let_def sha_absorb_final2)
qed

lemma outputs_single:
  assumes "i < length outs" "list_all wf_txout outs"
  shows "prehash_outputs P (sha_absorb P as) outs (int i) False
    = Inr (sha_absorb P (as @ [sha (sha (txout_wire (outs ! i)))]), None)"
proof -
  have "wf_txout (outs ! i)" using assms by (simp add: list_all_length)
  then obtain bs where "txout_blocks (outs ! i) = Inr bs" "concat bs = txout_wire (outs ! i)"
    using txout_blocks_wf by blast
  with assms(1) show ?thesis
    by (auto simp: prehash_outputs_def Let_def sha_absorb_final2 absorb_simps)
qed

lemma attach_segwit:
  assumes "has_flag t" "tx_flag t = [0, 1]" "txins t \<noteq> []" "txouts t \<noteq> []" "list_all wf_txout (txouts t)"
    and "satoshi_rawtx_attach P z (Some r0) t = Inr raw"
  shows "raw_sha1 raw = sha_absorb P [enc32 (tx_version t),
      sha (sha (concat (map (\<lambda>t. outpoint_bytes (txin_outpoint t)) (txins t)))),
      sha (sha (concat (map (\<lambda>t. enc32 (txin_sequence t)) (txins t))))]"
    and "txouts_hash raw = sha (sha (concat (map txout_wire (txouts t))))"
  using assms
  by (auto simp: satoshi_rawtx_attach_def satoshi_rawtx_attach_segwit_tx_def Let_def absorb_simps
      prevouts_absorb sequences_absorb outputs_all)

lemma segwit_digest:
  assumes "has_flag t" "tx_flag t = [0, 1]" "txouts t \<noteq> []" "list_all wf_txout (txouts t)"
    and "cur < length (txins t)" "length code < 2 ^ 62"
    and "satoshi_txin_get_redeem_scripts (txins t ! cur) = Inr (Some (mk_varstr code))"
    and "satoshi_rawtx_attach P z (Some r0) t = Inr raw"
    and "hash_type \<in> {1, 2, 3, 0x81, 0x82, 0x83}"
  shows "segwit_utxo_get_digest P raw t (int cur) hash_type utxo
    = Inr (sha (sha (bip143_preimage (\<lambda>m. sha (sha m)) t cur hash_type (txout_value utxo) (mk_varstr code))))"
proof -
  have ins: "txins t \<noteq> []" using assms(5) by auto
  note raw = attach_segwit [OF assms(1,2) ins assms(3,4,8)]
  have code: "ser_item (mk_varstr code) = Inr (mk_varstr code)"
    by (rule ser_item_wf) (use assms(6) in \<open>auto simp: wf_varstr_def\<close>)
  have none: "prehash_outputs P c [] i b = Inr (sha256_update P c zero32, None)" for c i b
    by (simp add: prehash_outputs_def)
  have single: "prehash_outputs P (sha_absorb P as) (txouts t) (int cur) False
      = Inr (sha_absorb P (as @ [sha (sha (txout_wire (txouts t ! cur)))]), None)"
    if "cur < length (txouts t)" for as
    by (rule outputs_single [OF that assms(4)])
  consider "hash_type = 1" | "hash_type = 2" | "hash_type = 3" | "hash_type = 0x81" | "hash_type = 0x82"
    | "hash_type = 0x83" using assms(9) by auto
  then show ?thesis
    by cases (use assms(5) in \<open>auto simp: segwit_utxo_get_digest_def bip143_preimage_def Let_def assms(7)
      code none single raw prevouts_absorb [OF ins] sequences_absorb [OF ins] absorb_simps sha_absorb_final2
      sighash_all_def sighash_none_def sighash_single_def sighash_masks_def not_le\<close>)
qed

end

section \<open>The legacy digest\<close>

definition raw_inputs :: "txin list \<Rightarrow> txin list" where
  "raw_inputs ins = map (\<lambda>i. txin_zero\<lparr>txin_outpoint := txin_outpoint i,
     txin_scripts := Some varstr_empty, txin_sequence := txin_sequence i\<rparr>) ins"

text \<open>An input with an empty script.\<close>

definition empty_input :: "tx \<Rightarrow> nat \<Rightarrow> bytes" where
  "empty_input t = legacy_input (\<lambda>_. [0]) (txins t)"

lemma raw_inputs_restore:
  "cur < length ins \<Longrightarrow>
    (raw_inputs ins)[cur := (raw_inputs ins ! cur)\<lparr>txin_scripts := Some varstr_empty\<rparr>] = raw_inputs ins"
  by (rule nth_equalityI) (auto simp: raw_inputs_def nth_list_update)

lemma raw_txins_blocks_map:
  "(\<And>i. i \<in> set is \<Longrightarrow> \<exists>v. txin_scripts i = Some v \<and> ser_item v = Inr v) \<Longrightarrow>
   \<exists>bs. raw_txins_blocks is = Inr bs \<and> concat bs = concat (map txin_wire is)"
proof (induction "is")
  case (Cons i "is")
  then obtain bs where bs: "raw_txins_blocks is = Inr bs" "concat bs = concat (map txin_wire is)" by auto
  from Cons.prems [of i] obtain v where "txin_scripts i = Some v" "ser_item v = Inr v" by auto
  with bs show ?case by (simp add: raw_txin_blocks_def txin_wire_def [of i])
qed simp

lemma ser_item_empty: "ser_item varstr_empty = Inr varstr_empty"
  by (simp add: ser_item_def varstr_empty_def varstr_size_def varint_size_def varint_get_def mem_read_def)

context hash_provider
begin

lemma legacy_step:
  assumes raw: "raw_txins raw = raw_inputs (txins t)" "raw_sha0 raw = sha_absorb P A"
      "last_hashed_txin_index raw \<le> int s" "0 < s \<longrightarrow> last_hashed_txin_index raw = int s"
      "- 1 \<le> last_hashed_txin_index raw"
    and idx: "s \<le> cur" "cur < length (txins t)"
    and code: "length code < 2 ^ 62"
      "satoshi_txin_get_redeem_scripts (txins t ! cur) = Inr (Some (mk_varstr code))"
    and outs: "list_all wf_txout (txouts t)"
  shows "\<exists>raw' B. satoshi_utxo_get_digest P raw t (int cur) 1 = Inr (raw', Some (sha (sha
      (concat A @ concat (map (empty_input t) [s..<cur])
       @ legacy_input (\<lambda>_. mk_varstr code) (txins t) cur
       @ concat (map (empty_input t) [Suc cur..<length (txins t)])
       @ vec_wire txout_wire (txouts t) @ enc32 (lock_time t) @ enc32 1))))
    \<and> raw_txins raw' = raw_inputs (txins t) \<and> raw_sha0 raw' = sha_absorb P (A @ B)
    \<and> concat B = concat (map (empty_input t) [s..<cur]) \<and> last_hashed_txin_index raw' = int cur - 1"
proof -
  define n where "n = length (txins t)"
  define ins where "ins = (raw_inputs (txins t))[cur := (raw_inputs (txins t) ! cur)\<lparr>txin_scripts := Some (mk_varstr code)\<rparr>]"
  have len: "length ins = n" "length (raw_inputs (txins t)) = n" by (simp_all add: ins_def raw_inputs_def n_def)
  have item: "ser_item (mk_varstr code) = Inr (mk_varstr code)"
    by (rule ser_item_wf) (use code(1) in \<open>auto simp: wf_varstr_def\<close>)
  have scr: "\<exists>v. txin_scripts i = Some v \<and> ser_item v = Inr v" if "i \<in> set ins" for i
  proof -
    have "i \<in> set (raw_inputs (txins t)) \<or> i = (raw_inputs (txins t) ! cur)\<lparr>txin_scripts := Some (mk_varstr code)\<rparr>"
      using that set_update_subset_insert by (fastforce simp: ins_def)
    then show ?thesis using item ser_item_empty by (auto simp: raw_inputs_def)
  qed
  have nth: "txin_wire (ins ! i) = (if i = cur then legacy_input (\<lambda>_. mk_varstr code) (txins t) i else empty_input t i)"
    if "i < n" for i
    using that idx by (simp add: ins_def raw_inputs_def txin_wire_def legacy_input_def empty_input_def
        varstr_empty_def n_def)
  have seg: "map txin_wire (take (j - i) (drop i ins)) = map (\<lambda>k. txin_wire (ins ! k)) [i..<j]"
    if "j \<le> n" for i j
  proof (rule nth_equalityI)
    have l: "length (take (j - i) (drop i ins)) = j - i" using that by (simp add: len min_def) arith
    then show "length (map txin_wire (take (j - i) (drop i ins))) = length (map (\<lambda>k. txin_wire (ins ! k)) [i..<j])"
      by simp
    fix k
    assume "k < length (map txin_wire (take (j - i) (drop i ins)))"
    with l have "k < j - i" "i + k < n" using that by simp_all
    then show "map txin_wire (take (j - i) (drop i ins)) ! k = map (\<lambda>k. txin_wire (ins ! k)) [i..<j] ! k"
      by (simp add: len)
  qed
  have curn: "cur < n" using idx by (simp add: n_def)
  have "map txin_wire (take (cur - s) (drop s ins)) = map (\<lambda>k. txin_wire (ins ! k)) [s..<cur]"
    using curn by (intro seg) simp
  also have "\<dots> = map (empty_input t) [s..<cur]" using curn by (auto simp: nth)
  finally have w1: "concat (map txin_wire (take (cur - s) (drop s ins))) = concat (map (empty_input t) [s..<cur])"
    by simp
  have "drop cur ins = (ins ! cur) # take (n - Suc cur) (drop (Suc cur) ins)"
    using idx len by (simp add: Cons_nth_drop_Suc n_def)
  moreover have "map txin_wire (take (n - Suc cur) (drop (Suc cur) ins)) = map (empty_input t) [Suc cur..<n]"
    by (subst seg) (auto simp: nth)
  ultimately have w2: "concat (map txin_wire (drop cur ins))
      = legacy_input (\<lambda>_. mk_varstr code) (txins t) cur @ concat (map (empty_input t) [Suc cur..<n])"
    using idx nth [of cur] by (simp add: n_def)
  obtain bs1 where b1: "raw_txins_blocks (take (cur - s) (drop s ins)) = Inr bs1"
      "concat bs1 = concat (map (empty_input t) [s..<cur])"
    using raw_txins_blocks_map [of "take (cur - s) (drop s ins)"] scr w1
    by (metis in_set_dropD in_set_takeD)
  obtain bs2 where b2: "raw_txins_blocks (drop cur ins) = Inr bs2"
      "concat bs2 = legacy_input (\<lambda>_. mk_varstr code) (txins t) cur @ concat (map (empty_input t) [Suc cur..<n])"
    using raw_txins_blocks_map [of "drop cur ins"] scr w2 by (metis in_set_dropD)
  obtain bs3 where b3: "txouts_blocks (txouts t) = Inr bs3"
      "concat bs3 = concat (map txout_wire (txouts t))"
    using txouts_blocks_wf [OF outs] by blast
  have st: "(if last_hashed_txin_index raw < 0 then 0 else last_hashed_txin_index raw) = int s"
    using raw(3-5) by auto
  have sn: "txin_scripts (ins ! s) \<noteq> None" using scr [of "ins ! s"] idx len by (auto simp: n_def)
  have g: "0 \<le> int cur \<and> int cur < int (length (txins t)) \<and> last_hashed_txin_index raw < int (length (txins t))"
    using raw(3) idx by simp
  have ht: "(1 AND sighash_anyone_can_pay) = (0 :: u32)" "(1 AND NOT sighash_anyone_can_pay) = (1 :: u32)"
    by (simp_all add: sighash_anyone_can_pay_def)
  define raw' where "raw' = raw\<lparr>raw_sha0 := sha_absorb P (A @ bs1), last_hashed_txin_index := int cur - 1,
      raw_txins := (raw_txins raw)[cur := (raw_txins raw ! cur)\<lparr>txin_scripts := Some varstr_empty\<rparr>]\<rparr>"
  have upd: "(take (length (txins t)) (raw_txins raw))[cur := (raw_txins raw ! cur)\<lparr>txin_scripts := Some (mk_varstr code)\<rparr>] = ins"
    by (simp add: raw(1) ins_def) (simp add: raw_inputs_def)
  have "satoshi_utxo_get_digest P raw t (int cur) 1 = Inr (raw', Some (sha (sha
      (concat (A @ bs1 @ bs2 @ (varint_set_data (of_nat (length (txouts t))) # bs3)
        @ [enc32 (lock_time t), enc32 1])))))"
    unfolding satoshi_utxo_get_digest_def Let_def st ht
    using g idx len(2) sn
    by (simp add: code(2) upd b1(1) b2(1) b3(1) sighash_all_def raw(2) absorb_simps sha_absorb_final2 raw'_def)
      (simp add: raw(1) n_def)
  then show ?thesis
    by (intro exI [of _ raw'] exI [of _ bs1])
      (simp add: b1(2) b2(2) b3(2) raw'_def raw(1) n_def vec_wire_def raw_inputs_restore idx)
qed

end

lemma attach_legacy:
  assumes "satoshi_rawtx_attach P z raw0 t = Inr raw"
  shows "raw_txins raw = raw_inputs (txins t)" "last_hashed_txin_index raw = 0"
    and "raw_sha0 raw = sha_absorb P [enc32 (tx_version t), varint_set_data (of_nat (length (txins t)))]"
  using assms
  by (auto simp: satoshi_rawtx_attach_def andThen_Inr_iff absorb_simps raw_inputs_def split: if_splits)

section \<open>What callers rely on\<close>

text \<open>C4. For an output marked as a version 0 witness program (directly or nested in a script hash)
  the digest of an attached flagged transaction is the double SHA-256 of the ten items of the
  specification, for all six hash types: all, none and single, each with and without
  anyone-can-pay. The prepared context and the saved output hash are used exactly where the
  specification allows it.\<close>

theorem segwit_digest_bip143:
  assumes "hash_provider P sha ripemd"
    and "has_flag t" "tx_flag t = [0, 1]" "txouts t \<noteq> []" "list_all wf_txout (txouts t)"
    and "cur < length (txins t)" "length code < 2 ^ 62"
    and "satoshi_txin_get_redeem_scripts (txins t ! cur) = Inr (Some (mk_varstr code))"
    and "satoshi_rawtx_attach P z (Some r0) t = Inr raw"
    and "hash_type \<in> {1, 2, 3, 0x81, 0x82, 0x83}"
    and "txout_flags utxo AND txout_type_p2sh_segwit_flags \<noteq> 0
      \<or> txout_flags utxo AND txout_type_masks = txout_type_segwit"
  shows "satoshi_rawtx_get_digest P raw t (int cur) hash_type utxo = Inr (raw, Some (sha (sha
    (bip143_preimage (\<lambda>m. sha (sha m)) t cur hash_type (txout_value utxo) (mk_varstr code)))))"
  using hash_provider.segwit_digest [OF assms(1-10), of utxo] assms(11)
  by (auto simp: satoshi_rawtx_get_digest_def Let_def)

lemma legacy_digest_of_attached:
  assumes "hash_provider P sha ripemd" "satoshi_rawtx_attach P z raw0 t = Inr raw"
    and "cur < length (txins t)" "length code < 2 ^ 62" "list_all wf_txout (txouts t)"
    and "satoshi_txin_get_redeem_scripts (txins t ! cur) = Inr (Some (mk_varstr code))"
  shows "\<exists>raw'. satoshi_utxo_get_digest P raw t (int cur) 1
    = Inr (raw', Some (sha (sha (legacy_preimage t cur 1 (mk_varstr code)))))"
proof -
  note a = attach_legacy [OF assms(2)]
  have split: "[0..<length (txins t)] = [0..<cur] @ cur # [Suc cur..<length (txins t)]"
    using assms(3) by (metis le_add_diff_inverse less_imp_le upt_add_eq_append upt_conv_Cons zero_le)
  have pre: "legacy_preimage t cur 1 (mk_varstr code)
      = concat [enc32 (tx_version t), varint_set_data (of_nat (length (txins t)))]
        @ concat (map (empty_input t) [0..<cur]) @ legacy_input (\<lambda>_. mk_varstr code) (txins t) cur
        @ concat (map (empty_input t) [Suc cur..<length (txins t)])
        @ vec_wire txout_wire (txouts t) @ enc32 (lock_time t) @ enc32 1"
  proof -
    have m1: "map (legacy_input (\<lambda>i. if i = cur then mk_varstr code else [0]) (txins t)) [0..<cur]
        = map (empty_input t) [0..<cur]"
      by (simp add: legacy_input_def empty_input_def)
    have m2: "map (legacy_input (\<lambda>i. if i = cur then mk_varstr code else [0]) (txins t))
        [Suc cur..<length (txins t)] = map (empty_input t) [Suc cur..<length (txins t)]"
      by (simp add: legacy_input_def empty_input_def)
    show ?thesis
      unfolding legacy_preimage_def split map_append list.map concat_append concat.simps m1 m2
      by (simp add: legacy_input_def [of _ _ cur])
  qed
  show ?thesis
    unfolding pre
    using hash_provider.legacy_step [OF assms(1) a(1,3), of 0 cur code] a(2) assms(3-6) by auto
qed

text \<open>The first legacy digest of type all taken from an attached transaction is the double SHA-256
  of the legacy serialization: version, all inputs with only the signed one carrying its script,
  all outputs, lock time and hash type.\<close>

theorem legacy_digest_first:
  assumes "hash_provider P sha ripemd" "satoshi_rawtx_attach P z raw0 t = Inr raw"
    and "cur < length (txins t)" "length code < 2 ^ 62" "list_all wf_txout (txouts t)"
    and "satoshi_txin_get_redeem_scripts (txins t ! cur) = Inr (Some (mk_varstr code))"
  shows "\<exists>raw'. satoshi_utxo_get_digest P raw t (int cur) 1
    = Inr (raw', Some (sha (sha (legacy_preimage t cur 1 (mk_varstr code)))))"
  by (rule legacy_digest_of_attached [OF assms])

text \<open>A second legacy digest from the same attached transaction, at the same or a later input, is
  the double SHA-256 of a serialization in which the input before the first signed one appears
  twice: the first call absorbs the inputs before its own and then records one of them too few. Only
  after a first call for input 0 is the second digest the documented one.\<close>

theorem legacy_digest_again:
  assumes "hash_provider P sha ripemd" "satoshi_rawtx_attach P z raw0 t = Inr raw"
    and "c1 \<le> c2" "c2 < length (txins t)" "length code1 < 2 ^ 62" "length code2 < 2 ^ 62"
    and "list_all wf_txout (txouts t)"
    and "satoshi_txin_get_redeem_scripts (txins t ! c1) = Inr (Some (mk_varstr code1))"
    and "satoshi_txin_get_redeem_scripts (txins t ! c2) = Inr (Some (mk_varstr code2))"
  shows "\<exists>raw1 d1 raw2. satoshi_utxo_get_digest P raw t (int c1) 1 = Inr (raw1, Some d1)
    \<and> satoshi_utxo_get_digest P raw1 t (int c2) 1 = Inr (raw2, Some (sha (sha
      (enc32 (tx_version t) @ varint_set_data (of_nat (length (txins t)))
       @ concat (map (empty_input t) [0..<c1]) @ concat (map (empty_input t) [c1 - 1..<c2])
       @ legacy_input (\<lambda>_. mk_varstr code2) (txins t) c2
       @ concat (map (empty_input t) [Suc c2..<length (txins t)])
       @ vec_wire txout_wire (txouts t) @ enc32 (lock_time t) @ enc32 1))))"
proof -
  note a = attach_legacy [OF assms(2)]
  obtain raw1 d1 B where 1: "satoshi_utxo_get_digest P raw t (int c1) 1 = Inr (raw1, Some d1)"
      "raw_txins raw1 = raw_inputs (txins t)"
      "raw_sha0 raw1 = sha_absorb P ([enc32 (tx_version t), varint_set_data (of_nat (length (txins t)))] @ B)"
      "concat B = concat (map (empty_input t) [0..<c1])" "last_hashed_txin_index raw1 = int c1 - 1"
    using hash_provider.legacy_step [OF assms(1) a(1,3), of 0 c1 code1] a(2) assms(3-9) by auto
  have "last_hashed_txin_index raw1 \<le> int (c1 - 1)" "0 < c1 - 1 \<longrightarrow> last_hashed_txin_index raw1 = int (c1 - 1)"
    "- 1 \<le> last_hashed_txin_index raw1" "c1 - 1 \<le> c2"
    using 1(5) assms(3) by auto
  from hash_provider.legacy_step [OF assms(1) 1(2,3) this assms(4,6,9,7)] 1(1,4) show ?thesis by auto
qed

section \<open>Concrete inputs\<close>

lemma get_redeem_whole:
  assumes "redeem_scripts i = Some (mk_varstr d)" "redeem_scripts_start_pos i = 0" "d \<noteq> []" "length d < 2 ^ 62"
  shows "satoshi_txin_get_redeem_scripts i = Inr (Some (mk_varstr d))"
proof -
  have n: "sint (of_nat (length d) :: u64) = int (length d)" using assms(4) by (simp add: sint_u64_of_nat)
  then show ?thesis
    using assms n varstr_new_some [OF assms(4), of "[]"]
    by (simp add: satoshi_txin_get_redeem_scripts_def varstr_length_def)
qed

definition example_spend :: tx where
  "example_spend = example_tx\<lparr>txins :=
     [example_txin\<lparr>redeem_scripts := Some (mk_varstr [5, 6])\<rparr>,
      example_txin\<lparr>redeem_scripts := Some (mk_varstr [7])\<rparr>]\<rparr>"

lemma example_spend_facts:
  "has_flag example_spend" "tx_flag example_spend = [0, 1]" "txouts example_spend \<noteq> []"
  "list_all wf_txout (txouts example_spend)" "length (txins example_spend) = 2"
  "satoshi_txin_get_redeem_scripts (txins example_spend ! 0) = Inr (Some (mk_varstr [5, 6]))"
  "satoshi_txin_get_redeem_scripts (txins example_spend ! 1) = Inr (Some (mk_varstr [7]))"
proof -
  have "list_all wf_txout (txouts example_tx)" using example_tx_wf by (simp add: wf_tx_def)
  then show "list_all wf_txout (txouts example_spend)" by (simp add: example_spend_def)
  show "satoshi_txin_get_redeem_scripts (txins example_spend ! 0) = Inr (Some (mk_varstr [5, 6]))"
    using get_redeem_whole [of "txins example_spend ! 0" "[5, 6]"]
    by (simp add: example_spend_def example_txin_def txin_zero_def)
  show "satoshi_txin_get_redeem_scripts (txins example_spend ! 1) = Inr (Some (mk_varstr [7]))"
    using get_redeem_whole [of "txins example_spend ! 1" "[7]"]
    by (simp add: example_spend_def example_txin_def txin_zero_def)
qed (simp_all add: example_spend_def example_tx_def)

lemma example_attach:
  "\<exists>raw. satoshi_rawtx_attach (recording_ops id id) [] (Some (rawtx_zero [])) example_spend = Inr raw"
proof -
  have ne: "txins example_spend \<noteq> []" using example_spend_facts(5) by auto
  show ?thesis
    using example_spend_facts(1-4) ne
      recording.outputs_all [OF example_spend_facts(3,4), of id id]
    by (simp add: satoshi_rawtx_attach_def satoshi_rawtx_attach_segwit_tx_def Let_def)
qed

definition example_utxo :: txout where
  "example_utxo = \<lparr>txout_value = 9, txout_scripts = Some (mk_varstr [0, 1]), txout_flags = txout_type_segwit\<rparr>"

theorem segwit_digest_bip143_witness:
  "\<exists>raw. satoshi_rawtx_attach (recording_ops id id) [] (Some (rawtx_zero [])) example_spend = Inr raw
    \<and> satoshi_rawtx_get_digest (recording_ops id id) raw example_spend 1 0x81 example_utxo
      = Inr (raw, Some (fit 32 id (fit 32 id (bip143_preimage (\<lambda>m. fit 32 id (fit 32 id m))
          example_spend 1 0x81 9 (mk_varstr [7])))))"
proof -
  obtain raw where raw: "satoshi_rawtx_attach (recording_ops id id) [] (Some (rawtx_zero [])) example_spend = Inr raw"
    using example_attach by blast
  have fl: "txout_flags example_utxo AND txout_type_masks = txout_type_segwit"
    by (simp add: example_utxo_def txout_type_segwit_def txout_type_masks_def)
  have "satoshi_rawtx_get_digest (recording_ops id id) raw example_spend (int 1) 0x81 example_utxo
      = Inr (raw, Some (fit 32 id (fit 32 id (bip143_preimage (\<lambda>m. fit 32 id (fit 32 id m))
          example_spend 1 0x81 (txout_value example_utxo) (mk_varstr [7])))))"
    by (rule segwit_digest_bip143 [OF recording.hash_provider_axioms example_spend_facts(1-4) _ _
          example_spend_facts(7) raw])
      (use fl example_spend_facts(5) in simp_all)
  with raw show ?thesis by (auto simp: example_utxo_def)
qed

theorem legacy_digest_first_witness:
  "\<exists>raw raw'. satoshi_rawtx_attach (recording_ops id id) [] (Some (rawtx_zero [])) example_spend = Inr raw
    \<and> satoshi_utxo_get_digest (recording_ops id id) raw example_spend 1 1
      = Inr (raw', Some (fit 32 id (fit 32 id (legacy_preimage example_spend 1 1 (mk_varstr [7])))))"
proof -
  obtain raw where raw: "satoshi_rawtx_attach (recording_ops id id) [] (Some (rawtx_zero [])) example_spend = Inr raw"
    using example_attach by blast
  have "\<exists>raw'. satoshi_utxo_get_digest (recording_ops id id) raw example_spend (int 1) 1
      = Inr (raw', Some (fit 32 id (fit 32 id (legacy_preimage example_spend 1 1 (mk_varstr [7])))))"
    by (rule legacy_digest_first [OF recording.hash_provider_axioms raw _ _ example_spend_facts(4,7)])
      (use example_spend_facts(5) in simp_all)
  with raw show ?thesis by auto
qed

theorem legacy_digest_again_witness:
  "\<exists>raw raw1 d1 raw2 d2. satoshi_rawtx_attach (recording_ops id id) [] (Some (rawtx_zero [])) example_spend = Inr raw
    \<and> satoshi_utxo_get_digest (recording_ops id id) raw example_spend 1 1 = Inr (raw1, Some d1)
    \<and> satoshi_utxo_get_digest (recording_ops id id) raw1 example_spend 1 1 = Inr (raw2, Some d2)"
proof -
  obtain raw where raw: "satoshi_rawtx_attach (recording_ops id id) [] (Some (rawtx_zero [])) example_spend = Inr raw"
    using example_attach by blast
  have n: "1 \<le> (1 :: nat)" "1 < length (txins example_spend)" "length [7 :: byte] < 2 ^ 62"
    using example_spend_facts(5) by simp_all
  from legacy_digest_again [OF recording.hash_provider_axioms raw n(1,2,3,3) example_spend_facts(4,7,7)] raw
  show ?thesis by fastforce
qed

text \<open>For the type all, and a redeem script used from its start, the deprecated digest that builds
  the whole preimage in a buffer agrees with the one computed from prepared contexts.\<close>

theorem segwit_digests_agree:
  assumes "hash_provider P sha ripemd"
    and "has_flag t" "tx_flag t = [0, 1]" "txouts t \<noteq> []" "list_all wf_txout (txouts t)"
    and "cur < length (txins t)" "redeem_scripts (txins t ! cur) = Some (mk_varstr code)"
    and "redeem_scripts_start_pos (txins t ! cur) = 0" "code \<noteq> []" "length code < 2 ^ 62"
    and "satoshi_rawtx_attach P z (Some r0) t = Inr raw"
  shows "satoshi_tx_get_digest P t cur 1 utxo
    = andThen (segwit_utxo_get_digest P raw t (int cur) 1 utxo) (\<lambda>d. Inr (t, d))"
proof -
  note h = hash_provider.sha_absorb_final2 [OF assms(1)] hash_provider.hash256_twice [OF assms(1)]
  have red: "satoshi_txin_get_redeem_scripts (txins t ! cur) = Inr (Some (mk_varstr code))"
    by (rule get_redeem_whole [OF assms(7-10)])
  have seg: "segwit_utxo_get_digest P raw t (int cur) 1 utxo = Inr (sha (sha
      (bip143_preimage (\<lambda>m. sha (sha m)) t cur 1 (txout_value utxo) (mk_varstr code))))"
    by (rule hash_provider.segwit_digest [OF assms(1-6,10) red assms(11)]) simp
  obtain bs where bs: "txouts_blocks (txouts t) = Inr bs" "concat bs = concat (map txout_wire (txouts t))"
    using txouts_blocks_wf [OF assms(5)] by blast
  have sz: "varstr_size (mk_varstr code) = Inr (of_nat (length (mk_varstr code)))"
    using varstr_size_mk [of code "[]"] by simp
  have "segwit_v0_generate_preimage P t cur 1 utxo
      = Inr (bip143_preimage (\<lambda>m. sha (sha m)) t cur 1 (txout_value utxo) (mk_varstr code))"
    using assms(6) unat_length_mk_varstr [OF assms(10)]
    by (simp add: segwit_v0_generate_preimage_def Let_def assms(7) sz mem_read_def bs h bip143_preimage_def)
  then show ?thesis
    using assms(2,3) by (simp add: satoshi_tx_get_digest_def segwit_v0_tx_get_digest_def seg h)
qed

theorem segwit_digests_agree_witness:
  "\<exists>raw d. satoshi_rawtx_attach (recording_ops id id) [] (Some (rawtx_zero [])) example_spend = Inr raw
    \<and> satoshi_tx_get_digest (recording_ops id id) example_spend 0 1 example_utxo
      = andThen (segwit_utxo_get_digest (recording_ops id id) raw example_spend 0 1 example_utxo)
          (\<lambda>d. Inr (example_spend, d))"
proof -
  obtain raw where raw: "satoshi_rawtx_attach (recording_ops id id) [] (Some (rawtx_zero [])) example_spend = Inr raw"
    using example_attach by blast
  have "satoshi_tx_get_digest (recording_ops id id) example_spend 0 1 example_utxo
      = andThen (segwit_utxo_get_digest (recording_ops id id) raw example_spend (int 0) 1 example_utxo)
          (\<lambda>d. Inr (example_spend, d))"
    by (rule segwit_digests_agree [where code = "[5, 6]", OF recording.hash_provider_axioms example_spend_facts(1-4) _ _ _ _ _ raw])
      (simp_all add: example_spend_facts(5), simp_all add: example_spend_def example_txin_def txin_zero_def)
  with raw show ?thesis by auto
qed

end
