(* ===== verification/ScriptData.thy ===== *)
theory ScriptData
  imports Varint Hashing
begin

text \<open>
  The items of the script machine and its stacks (\<open>src/satoshi-script.c\<close>, lines 60 to 497).
  An item is a tagged union: the inline part is 32 bytes of memory, the pointer part the bytes
  behind the pointer (nothing for a null pointer). Sizes are lengths of bytes that lie in memory, so
  they are natural numbers. The two static items for true and false carry a mark, since the code
  compares item pointers with them and must not free them.
\<close>

section \<open>Items\<close>

datatype sd_type =
    SD_unknown | SD_null | SD_bool | SD_op_code | SD_varint | SD_uint8 | SD_uint16 | SD_uint32
  | SD_uint64 | SD_hash256 | SD_hash160 | SD_varstr | SD_uchars | SD_pointer

fun sd_code :: "sd_type \<Rightarrow> int" where
  "sd_code SD_unknown = - 1" | "sd_code SD_null = 0" | "sd_code SD_bool = 1"
| "sd_code SD_op_code = 2" | "sd_code SD_varint = 3" | "sd_code SD_uint8 = 4"
| "sd_code SD_uint16 = 5" | "sd_code SD_uint32 = 6" | "sd_code SD_uint64 = 7"
| "sd_code SD_hash256 = 8" | "sd_code SD_hash160 = 9" | "sd_code SD_varstr = 10"
| "sd_code SD_uchars = 11" | "sd_code SD_pointer = 12"

lemma sd_code_inj: "sd_code a = sd_code b \<Longrightarrow> a = b"
  by (cases a; cases b) simp_all

text \<open>The order of the enumeration, which the code uses to recognise the pointer types.\<close>

instantiation sd_type :: linorder
begin

definition less_eq_sd_type :: "sd_type \<Rightarrow> sd_type \<Rightarrow> bool" where
  "less_eq_sd_type a b \<longleftrightarrow> sd_code a \<le> sd_code b"

definition less_sd_type :: "sd_type \<Rightarrow> sd_type \<Rightarrow> bool" where
  "less_sd_type a b \<longleftrightarrow> sd_code a < sd_code b"

instance
  by standard (auto simp: less_eq_sd_type_def less_sd_type_def sd_code_inj)

end

record sdata =
  sd_kind :: sd_type
  sd_union :: bytes
  sd_data :: "bytes option"
  sd_size :: nat
  sd_static :: bool

definition sdata_zero :: sdata where
  "sdata_zero = \<lparr>sd_kind = SD_null, sd_union = replicate 32 0, sd_data = None, sd_size = 0, sd_static = False\<rparr>"

definition s_sdata_true :: sdata where
  "s_sdata_true = \<lparr>sd_kind = SD_bool, sd_union = 1 # replicate 31 0, sd_data = None, sd_size = 1, sd_static = True\<rparr>"

definition s_sdata_false :: sdata where
  "s_sdata_false = \<lparr>sd_kind = SD_bool, sd_union = replicate 32 0, sd_data = None, sd_size = 1, sd_static = True\<rparr>"

definition satoshi_script_data_new_boolean :: "bool \<Rightarrow> sdata" where
  "satoshi_script_data_new_boolean v = (if v then s_sdata_true else s_sdata_false)"

text \<open>
  Reading the union through the other member is only harmless as far as the pointer is compared
  with null; following an inline value as a pointer, or taking a pointer's bytes for a number, is
  undefined.
\<close>

definition sd_is_ptr :: "sdata \<Rightarrow> bool" where
  "sd_is_ptr d \<longleftrightarrow> SD_varstr \<le> sd_kind d"

definition sd_ptr_null :: "sdata \<Rightarrow> bool" where
  "sd_ptr_null d \<longleftrightarrow>
     (if sd_is_ptr d then sd_data d = None else take 8 (sd_union d) = replicate 8 0)"

definition sd_ptr_read :: "sdata \<Rightarrow> nat \<Rightarrow> bytes res" where
  "sd_ptr_read d n =
     (if \<not> sd_is_ptr d then Inl Undefined
      else case sd_data d of None \<Rightarrow> (if n = 0 then Inr [] else Inl Undefined) | Some m \<Rightarrow> mem_read n m)"

definition sd_b :: "sdata \<Rightarrow> int res" where
  "sd_b d = (if sd_is_ptr d then Inl Undefined
             else andThen (mem_read 1 (sd_union d)) (\<lambda>b. Inr (sint (b ! 0))))"

text \<open>Where an item's bytes are, and how many; nothing and a non-positive size for an item without.\<close>

definition scripts_data_get_ptr :: "sdata \<Rightarrow> bytes option \<times> int" where
  "scripts_data_get_ptr d =
     (if sd_kind d = SD_unknown then (None, - 1)
      else if sd_kind d = SD_null then (None, 0)
      else (if sd_is_ptr d then sd_data d else Some (sd_union d), int (sd_size d)))"

definition satoshi_script_data_compare :: "sdata \<Rightarrow> sdata \<Rightarrow> int res" where
  "satoshi_script_data_compare d1 d2 =
     (case (scripts_data_get_ptr d1, scripts_data_get_ptr d2) of ((p1, c1), (p2, c2)) \<Rightarrow>
        if c1 \<le> 0 \<or> c2 \<le> 0 \<or> c1 \<noteq> c2 then Inr (- 1)
        else case (p1, p2) of
            (Some m1, Some m2) \<Rightarrow>
              andThen (mem_read (nat c1) m1) (\<lambda>b1. andThen (mem_read (nat c1) m2) (\<lambda>b2.
                Inr (memcmp b1 b2)))
          | _ \<Rightarrow> Inl Undefined)"

text \<open>Writing at the start of the union.\<close>

definition sd_put :: "bytes \<Rightarrow> sdata \<Rightarrow> sdata" where
  "sd_put b d = d\<lparr>sd_union := b @ drop (length b) (sd_union d)\<rparr>"

text \<open>
  The item and the returned size. For a string the final size is the one of the encoded string,
  prefix included, although only the characters are stored.
\<close>

definition satoshi_script_data_set :: "sdata \<Rightarrow> sd_type \<Rightarrow> bytes option \<Rightarrow> nat \<Rightarrow> (sdata \<times> int) res" where
  "satoshi_script_data_set d ty data len =
     (if ty = SD_unknown then Inl Abort
      else let d0 = d\<lparr>sd_kind := ty\<rparr>
      in if ty = SD_null then Inr (d0, 0)
      else case data of None \<Rightarrow> Inl Abort
      | Some p \<Rightarrow>
          let fin = (\<lambda>(d1, n). Inr (d1\<lparr>sd_size := n\<rparr>, int n));
              word = (\<lambda>k. andThen (mem_read k p) (\<lambda>b. fin (sd_put (b @ replicate (8 - k) 0) d0, k)));
              raw = (\<lambda>k. andThen (mem_read k p) (\<lambda>b. fin (sd_put b d0, k)))
          in case ty of
              SD_bool \<Rightarrow> raw 1
            | SD_op_code \<Rightarrow> raw 1
            | SD_varint \<Rightarrow> andThen (varint_size p) (\<lambda>k.
                andThen (varint_get p) (\<lambda>v. fin (sd_put (enc64 v) d0, k)))
            | SD_varstr \<Rightarrow> andThen (varint_size p) (\<lambda>k.
                andThen (varint_get p) (\<lambda>v.
                  if 0 < len \<and> len < k + unat v then Inl Abort
                  else if 0 < unat v
                    then andThen (mem_read (unat v) (drop k p)) (\<lambda>b.
                      fin (d0\<lparr>sd_data := Some b\<rparr>, k + unat v))
                    else fin (d0, k)))
            | SD_uint8 \<Rightarrow> word 1
            | SD_uint16 \<Rightarrow> word 2
            | SD_uint32 \<Rightarrow> word 4
            | SD_uint64 \<Rightarrow> word 8
            | SD_hash256 \<Rightarrow> raw 32
            | SD_hash160 \<Rightarrow> raw 20
            | SD_uchars \<Rightarrow> fin (d0\<lparr>sd_data := Some p\<rparr>, len)
            | SD_pointer \<Rightarrow>
                if 0 < len then andThen (mem_read len p) (\<lambda>b. fin (d0\<lparr>sd_data := Some b\<rparr>, len))
                else fin (d0, len)
            | _ \<Rightarrow> Inl Abort)"

definition satoshi_script_data_new :: "sd_type \<Rightarrow> bytes option \<Rightarrow> nat \<Rightarrow> sdata res" where
  "satoshi_script_data_new ty data len =
     andThen (satoshi_script_data_set sdata_zero ty data len) (\<lambda>(d, cb).
       if cb < 0 then Inl Abort else Inr d)"

text \<open>The type, and the bytes allocated and written with their number.\<close>

definition satoshi_script_data_get :: "sdata \<Rightarrow> (sd_type \<times> bytes option \<times> nat) res" where
  "satoshi_script_data_get d =
     (let out = (\<lambda>b. Inr (sd_kind d, Some b, length b))
      in case sd_kind d of
          SD_unknown \<Rightarrow> Inl Abort
        | SD_null \<Rightarrow> Inr (SD_null, None, 0)
        | SD_bool \<Rightarrow> out (take 1 (sd_union d))
        | SD_op_code \<Rightarrow> out (take 1 (sd_union d))
        | SD_varint \<Rightarrow> out (varint_set_data (dec64 (sd_union d)))
        | SD_varstr \<Rightarrow> andThen (sd_ptr_read d (sd_size d)) (\<lambda>b.
            out (varint_set_data (of_nat (sd_size d)) @ b))
        | SD_hash256 \<Rightarrow> out (take 32 (sd_union d))
        | SD_hash160 \<Rightarrow> out (take 20 (sd_union d))
        | SD_uchars \<Rightarrow>
            if sd_data d = None \<or> sd_size d = 0 then Inr (SD_uchars, None, sd_size d)
            else andThen (sd_ptr_read d (sd_size d)) out
        | SD_pointer \<Rightarrow>
            if sd_data d = None \<or> sd_size d = 0 then Inr (SD_pointer, None, sd_size d)
            else andThen (sd_ptr_read d (sd_size d)) out
        | _ \<Rightarrow> out (take 8 (sd_union d)))"

text \<open>Strings and pointers are set again from their bytes, everything else is a copy of the memory.\<close>

definition satoshi_script_data_clone :: "sdata \<Rightarrow> sdata res" where
  "satoshi_script_data_clone d =
     (if sd_kind d = SD_unknown then Inl Abort
      else if sd_kind d = SD_varstr \<or> sd_kind d = SD_pointer
        then andThen (satoshi_script_data_set sdata_zero (sd_kind d) (sd_data d) (sd_size d)) (\<lambda>(d', _). Inr d')
      else Inr (d\<lparr>sd_static := False\<rparr>))"

definition satoshi_script_data_cleanup :: "sdata \<Rightarrow> sdata" where
  "satoshi_script_data_cleanup d =
     (if sd_static d then d
      else if sd_kind d = SD_pointer \<or> sd_kind d = SD_varstr then d\<lparr>sd_data := None\<rparr>
      else d)"

text \<open>The code that pushes a string: short strings are copied with their one-byte prefix.\<close>

definition satoshi_script_pushdata_code_from_varstr :: "bytes \<Rightarrow> bytes res" where
  "satoshi_script_pushdata_code_from_varstr v =
     andThen (varstr_length v) (\<lambda>n.
       let len = (ucast n :: u32)
       in if len < 0x4c then mem_read (unat len + 1) v
          else andThen (varstr_getdata_ptr v) (\<lambda>p.
            andThen (mem_read (unat len) p) (\<lambda>d.
              Inr ((if 0xffff < len then 0x4e # enc32 len
                    else if 0xff < len then 0x4d # enc16 (ucast len)
                    else [0x4c, ucast len]) @ d))))"

section \<open>Stacks\<close>

text \<open>
  The array of item pointers, the top first; the bottom of the stack is the start of the array. A
  slot can hold a null pointer.
\<close>

record sstack =
  st_items :: "sdata option list"
  st_max :: nat

definition SATOSHI_SCRIPT_STACK_ALLOC_SIZE :: nat where "SATOSHI_SCRIPT_STACK_ALLOC_SIZE = 64"

text \<open>Growing clears as many slots as were added, but at the start of the array.\<close>

definition satoshi_script_stack_resize :: "sstack \<Rightarrow> int \<Rightarrow> sstack" where
  "satoshi_script_stack_resize st n_new =
     (let new_size = (if n_new \<le> 0 then SATOSHI_SCRIPT_STACK_ALLOC_SIZE
            else (nat n_new + SATOSHI_SCRIPT_STACK_ALLOC_SIZE - 1)
                  div SATOSHI_SCRIPT_STACK_ALLOC_SIZE * SATOSHI_SCRIPT_STACK_ALLOC_SIZE)
      in if new_size \<le> st_max st then st
         else let n = length (st_items st); cleared = min n (new_size - st_max st)
         in st\<lparr>st_items := take (n - cleared) (st_items st) @ replicate cleared None, st_max := new_size\<rparr>)"

definition stack_push :: "sstack \<Rightarrow> sdata \<Rightarrow> sstack" where
  "stack_push st d =
     (let st1 = satoshi_script_stack_resize st (int (length (st_items st)) + 1)
      in st1\<lparr>st_items := Some d # st_items st1\<rparr>)"

definition stack_pop :: "sstack \<Rightarrow> sdata option \<times> sstack" where
  "stack_pop st = (case st_items st of [] \<Rightarrow> (None, st) | d # r \<Rightarrow> (d, st\<lparr>st_items := r\<rparr>))"

definition satoshi_script_stack_init :: "sstack \<Rightarrow> int \<Rightarrow> sstack" where
  "satoshi_script_stack_init st n_new = satoshi_script_stack_resize st n_new"

definition satoshi_script_stack_cleanup :: "sstack \<Rightarrow> sstack" where
  "satoshi_script_stack_cleanup st = st\<lparr>st_items := [], st_max := 0\<rparr>"

section \<open>Facts\<close>

lemma sd_ptr_types [simp]:
  "\<not> SD_varstr \<le> SD_bool" "\<not> SD_varstr \<le> SD_uint8" "\<not> SD_varstr \<le> SD_hash256"
  "\<not> SD_varstr \<le> SD_hash160" "SD_varstr \<le> SD_pointer" "\<not> SD_pointer < SD_varstr"
  by (simp_all add: less_eq_sd_type_def less_sd_type_def)

text \<open>The items the machine makes: data behind a pointer, and digests.\<close>

definition ptr_item :: "bytes \<Rightarrow> sdata" where
  "ptr_item d = sdata_zero\<lparr>sd_kind := SD_pointer, sd_data := (if d = [] then None else Some d), sd_size := length d\<rparr>"

definition h160_item :: "bytes \<Rightarrow> sdata" where
  "h160_item h = sdata_zero\<lparr>sd_kind := SD_hash160, sd_union := h @ replicate 12 0, sd_size := 20\<rparr>"

definition h256_item :: "bytes \<Rightarrow> sdata" where
  "h256_item h = sdata_zero\<lparr>sd_kind := SD_hash256, sd_union := h, sd_size := 32\<rparr>"

definition u8_item :: "byte \<Rightarrow> sdata" where
  "u8_item b = sdata_zero\<lparr>sd_kind := SD_uint8, sd_union := b # replicate 31 0, sd_size := 1\<rparr>"

lemma new_pointer: "satoshi_script_data_new SD_pointer (Some (d @ r)) (length d) = Inr (ptr_item d)"
  by (simp add: satoshi_script_data_new_def satoshi_script_data_set_def ptr_item_def sdata_zero_def Let_def mem_read_def)

lemma new_hash160: "length h = 20 \<Longrightarrow> satoshi_script_data_new SD_hash160 (Some (h @ r)) n = Inr (h160_item h)"
  by (simp add: satoshi_script_data_new_def satoshi_script_data_set_def h160_item_def sdata_zero_def Let_def sd_put_def)

lemma new_hash256: "length h = 32 \<Longrightarrow> satoshi_script_data_new SD_hash256 (Some h) n = Inr (h256_item h)"
  by (simp add: satoshi_script_data_new_def satoshi_script_data_set_def h256_item_def sdata_zero_def Let_def sd_put_def mem_read_def)

lemma new_uint8: "satoshi_script_data_new SD_uint8 (Some [b]) n = Inr (u8_item b)"
  by (simp add: satoshi_script_data_new_def satoshi_script_data_set_def u8_item_def sdata_zero_def Let_def sd_put_def mem_read_def flip: replicate_add)

lemma ptr_item_simps [simp]:
  "sd_kind (ptr_item d) = SD_pointer" "sd_size (ptr_item d) = length d" "sd_is_ptr (ptr_item d)"
  "sd_data (ptr_item d) = (if d = [] then None else Some d)" "\<not> sd_static (ptr_item d)"
  by (simp_all add: ptr_item_def sdata_zero_def sd_is_ptr_def)

lemma ptr_item_read [simp]: "n \<le> length d \<Longrightarrow> sd_ptr_read (ptr_item d) n = Inr (take n d)"
  by (auto simp: sd_ptr_read_def mem_read_def)

lemma hash_item_simps [simp]:
  "sd_kind (h160_item h) = SD_hash160" "sd_kind (h256_item h) = SD_hash256"
  "sd_size (h160_item h) = 20" "sd_size (h256_item h) = 32"
  "\<not> sd_static (h160_item h)" "\<not> sd_static (h256_item h)" "sd_union (h160_item h) = h @ replicate 12 0"
  "sd_union (h256_item h) = h"
  by (simp_all add: h160_item_def h256_item_def sdata_zero_def)

lemma get_pointer: "satoshi_script_data_get (ptr_item d) = Inr (SD_pointer, if d = [] then None else Some d, length d)"
  by (simp add: satoshi_script_data_get_def)

lemma clone_pointer: "d \<noteq> [] \<Longrightarrow> satoshi_script_data_clone (ptr_item d) = Inr (ptr_item d)"
  by (simp add: satoshi_script_data_clone_def satoshi_script_data_set_def Let_def mem_read_def)
    (simp add: ptr_item_def sdata_zero_def)

lemma compare_pointer_hash160:
  assumes "length d = 20" "length h = 20"
  shows "\<exists>c. satoshi_script_data_compare (ptr_item d) (h160_item h) = Inr c \<and> (c = 0 \<longleftrightarrow> d = h)"
    and "\<exists>c. satoshi_script_data_compare (h160_item h) (ptr_item d) = Inr c \<and> (c = 0 \<longleftrightarrow> d = h)"
  using assms memcmp_eq [of d h] memcmp_eq [of h d]
  by (auto simp: satoshi_script_data_compare_def scripts_data_get_ptr_def mem_read_def sd_is_ptr_def)

text \<open>A stack keeps to the contract of \<open>lifo\<close> as long as it need not grow.\<close>

definition sstack_room :: "sstack \<Rightarrow> nat \<Rightarrow> bool" where
  "sstack_room st n \<longleftrightarrow> length (st_items st) + n \<le> st_max st \<and> 64 dvd st_max st"

lemma round_up_64: "64 dvd m \<Longrightarrow> k \<le> m \<Longrightarrow> (k + 63) div 64 * 64 \<le> (m::nat)"
  by (auto elim!: dvdE)

lemma resize_room: "sstack_room st (Suc n) \<Longrightarrow> satoshi_script_stack_resize st (int (length (st_items st)) + 1) = st"
  using round_up_64 [of "st_max st" "Suc (length (st_items st))"]
  by (simp add: satoshi_script_stack_resize_def sstack_room_def SATOSHI_SCRIPT_STACK_ALLOC_SIZE_def Let_def nat_add_distrib)

interpretation sstack: lifo stack_push stack_pop st_items sstack_room
proof
  show "st_items (stack_push s x) = Some x # st_items s" if "sstack_room s (Suc n)" for s n x
    by (simp add: stack_push_def Let_def resize_room [OF that])
  show "sstack_room (stack_push s x) n" if "sstack_room s (Suc n)" for s n x
    using that by (simp add: stack_push_def Let_def resize_room [OF that]) (simp add: sstack_room_def)
qed (simp_all add: stack_pop_def)

lemma stack_push_room: "sstack_room st (Suc n) \<Longrightarrow> stack_push st d = st\<lparr>st_items := Some d # st_items st\<rparr>"
  by (simp add: stack_push_def Let_def resize_room)

lemma sstack_room_mono: "sstack_room st n \<Longrightarrow> m \<le> n \<Longrightarrow> sstack_room st m"
  by (simp add: sstack_room_def)

definition sstack_empty :: sstack where "sstack_empty = \<lparr>st_items = [], st_max = 0\<rparr>"

lemma stack_init: "satoshi_script_stack_init sstack_empty 0 = \<lparr>st_items = [], st_max = 64\<rparr>"
  by (simp add: satoshi_script_stack_init_def satoshi_script_stack_resize_def sstack_empty_def
      SATOSHI_SCRIPT_STACK_ALLOC_SIZE_def)

text \<open>On a freshly initialised stack up to 64 items come back in the reverse order of their
  pushes, and the stack is empty afterwards.\<close>

theorem script_stack_lifo:
  assumes "length xs \<le> 64"
  shows "st_items (foldl stack_push (satoshi_script_stack_init sstack_empty 0) xs) = rev (map Some xs)
    \<and> fst (sstack.pops (length xs) (foldl stack_push (satoshi_script_stack_init sstack_empty 0) xs))
        = rev (map Some xs)"
proof -
  have "sstack_room (satoshi_script_stack_init sstack_empty 0) (length xs)"
    using assms by (simp add: stack_init sstack_room_def)
  from sstack.pushes_items [OF this] sstack.pops_pushes [OF this] show ?thesis by (simp add: stack_init)
qed

theorem script_stack_lifo_witness:
  "fst (sstack.pops 2 (foldl stack_push (satoshi_script_stack_init sstack_empty 0) [s_sdata_true, s_sdata_false]))
    = [Some s_sdata_false, Some s_sdata_true]"
  using script_stack_lifo [of "[s_sdata_true, s_sdata_false]"] by (simp add: numeral_2_eq_2)

text \<open>C40. The push that makes a full stack of 64 items grow clears all of them: above the new item
  nothing is lost, below it there are only null slots.\<close>

theorem script_stack_growth:
  assumes "length xs = 64"
  shows "st_items (foldl stack_push (satoshi_script_stack_init sstack_empty 0) (xs @ [x]))
    = Some x # replicate 64 None"
proof -
  define st where "st = foldl stack_push (satoshi_script_stack_init sstack_empty 0) xs"
  have r: "sstack_room (satoshi_script_stack_init sstack_empty 0) (length xs)"
    using assms by (simp add: stack_init sstack_room_def)
  have items: "st_items st = rev (map Some xs)"
    using sstack.pushes_items [OF r] by (simp add: st_def stack_init)
  have "st_max (foldl stack_push s ys) = st_max s" if "sstack_room s (length ys)" for s ys
    using that
  proof (induction ys arbitrary: s)
    case (Cons y ys)
    from Cons.prems have "sstack_room s (Suc (length ys))" by simp
    then show ?case
      using Cons.IH [of "stack_push s y"] sstack.push_room [of s "length ys" y] stack_push_room [of s "length ys" y]
      by simp
  qed simp
  from this [OF r] have "st_max st = 64" by (simp add: st_def stack_init)
  with items have "st_items (stack_push st x) = Some x # replicate 64 None"
    using assms by (simp add: stack_push_def satoshi_script_stack_resize_def SATOSHI_SCRIPT_STACK_ALLOC_SIZE_def
        Let_def nat_add_distrib)
  then show ?thesis by (simp add: st_def)
qed

theorem script_stack_growth_witness:
  "st_items (foldl stack_push (satoshi_script_stack_init sstack_empty 0) (replicate 64 s_sdata_true @ [s_sdata_false]))
    = Some s_sdata_false # replicate 64 None"
  by (rule script_stack_growth) simp

end
