(* ===== verification/ScriptOps.thy ===== *)
theory ScriptOps
  imports ScriptData Crypto Sighash
begin

text \<open>
  The operations of the script machine (\<open>src/satoshi-script.c\<close>, \<open>parse_op_*\<close> and
  \<open>scripts_verify\<close>). The state is the machine with its private part: the two stacks, the
  attached transaction with its digest contexts, the input being spent, the output it spends and
  the depth of open conditionals. An operation delivers the new state and whether it returned 0;
  after an error code the machine keeps what the operation had done so far.
\<close>

section \<open>The machine\<close>

datatype script_type = Type_unknown | Type_txin | Type_txout

record 'c script =
  main_stack :: sstack
  alt_stack :: sstack
  sc_digest :: "bytes option"
  sc_tx :: "tx option"
  sc_rawtx :: "'c rawtx"
  txin_index :: int
  sc_utxo :: "txout option"
  sc_type :: script_type
  if_statement_depth :: int

type_synonym 'c ret = "('c script \<times> bool) res"

text \<open>Going on after a routine that returned 0, handing on its error code otherwise.\<close>

definition onward :: "'c ret \<Rightarrow> ('c script \<Rightarrow> 'c ret) \<Rightarrow> 'c ret" where
  "onward r f = andThen r (\<lambda>(s, ok). if ok then f s else Inr (s, False))"

text \<open>A call whose error code is looked at instead of handed on.\<close>

definition attempt :: "'a res \<Rightarrow> 'a option res" where
  "attempt r = (case r of Inl Reject \<Rightarrow> Inr None | Inl e \<Rightarrow> Inl e | Inr x \<Rightarrow> Inr (Some x))"

lemma onward_simps [simp, res_simps]:
  "onward (Inl e) f = Inl e" "onward (Inr (s, True)) f = f s" "onward (Inr (s, False)) f = Inr (s, False)"
  "onward (andThen r g) f = andThen r (\<lambda>x. onward (g x) f)"
  by (simp_all add: onward_def) (cases r; simp add: onward_def)

lemma attempt_simps [simp, res_simps]:
  "attempt (Inr x) = Inr (Some x)" "attempt (Inl Reject) = Inr None"
  "attempt (Inl Abort) = Inl Abort" "attempt (Inl Undefined) = Inl Undefined"
  by (simp_all add: attempt_def)

definition script_push :: "'c script \<Rightarrow> sdata \<Rightarrow> 'c script" where
  "script_push s d = s\<lparr>main_stack := stack_push (main_stack s) d\<rparr>"

definition script_pop :: "'c script \<Rightarrow> sdata option \<times> 'c script" where
  "script_pop s = (case stack_pop (main_stack s) of (d, st) \<Rightarrow> (d, s\<lparr>main_stack := st\<rparr>))"

section \<open>Opcodes\<close>

abbreviation op_pushdata1 :: byte where "op_pushdata1 \<equiv> 0x4c"
abbreviation op_pushdata2 :: byte where "op_pushdata2 \<equiv> 0x4d"
abbreviation op_pushdata4 :: byte where "op_pushdata4 \<equiv> 0x4e"
abbreviation op_1 :: byte where "op_1 \<equiv> 0x51"
abbreviation op_16 :: byte where "op_16 \<equiv> 0x60"
abbreviation op_nop :: byte where "op_nop \<equiv> 0x61"
abbreviation op_if :: byte where "op_if \<equiv> 0x63"
abbreviation op_notif :: byte where "op_notif \<equiv> 0x64"
abbreviation op_else :: byte where "op_else \<equiv> 0x67"
abbreviation op_endif :: byte where "op_endif \<equiv> 0x68"
abbreviation op_verify :: byte where "op_verify \<equiv> 0x69"
abbreviation op_return :: byte where "op_return \<equiv> 0x6a"
abbreviation op_dup :: byte where "op_dup \<equiv> 0x76"
abbreviation op_equal :: byte where "op_equal \<equiv> 0x87"
abbreviation op_equalverify :: byte where "op_equalverify \<equiv> 0x88"
abbreviation op_ripemd160 :: byte where "op_ripemd160 \<equiv> 0xa6"
abbreviation op_sha256 :: byte where "op_sha256 \<equiv> 0xa8"
abbreviation op_hash160 :: byte where "op_hash160 \<equiv> 0xa9"
abbreviation op_hash256 :: byte where "op_hash256 \<equiv> 0xaa"
abbreviation op_codeseparator :: byte where "op_codeseparator \<equiv> 0xab"
abbreviation op_checksig :: byte where "op_checksig \<equiv> 0xac"
abbreviation op_checksigverify :: byte where "op_checksigverify \<equiv> 0xad"
abbreviation op_checkmultisig :: byte where "op_checkmultisig \<equiv> 0xae"
abbreviation op_nop1 :: byte where "op_nop1 \<equiv> 0xb0"
abbreviation op_nop4 :: byte where "op_nop4 \<equiv> 0xb3"
abbreviation op_nop10 :: byte where "op_nop10 \<equiv> 0xb9"

section \<open>Data and hashes\<close>

text \<open>The new stack and the number of bytes used, none for an error.\<close>

definition parse_op_push_data :: "sstack \<Rightarrow> byte \<Rightarrow> bytes \<Rightarrow> (sstack \<times> nat option) res" where
  "parse_op_push_data st op p =
     (if op_pushdata4 < op then Inl Abort
      else let offset = (if op = op_pushdata1 then 1 else if op = op_pushdata2 then 2
                         else if op = op_pushdata4 then 4 else 0)
      in if length p < offset then Inr (st, None)
         else let data_size = (if offset = 0 then unat op else le_val (take offset p));
                  p = drop offset p
         in if length p < data_size then Inr (st, None)
            else andThen (satoshi_script_data_new SD_pointer (Some p) data_size) (\<lambda>d.
              Inr (stack_push st d, Some (offset + data_size))))"

definition parse_op_hash :: "('c, 'd) hash_ops \<Rightarrow> sstack \<Rightarrow> byte \<Rightarrow> (sstack \<times> bool) res" where
  "parse_op_hash P st op =
     (case stack_pop st of
        (None, st1) \<Rightarrow> Inr (st1, False)
      | (Some d, st1) \<Rightarrow>
          andThen (satoshi_script_data_get d) (\<lambda>(_, data, len).
            andThen (case data of Some b \<Rightarrow> Inr b | None \<Rightarrow> if len = 0 then Inr [] else Inl Undefined) (\<lambda>m.
              let push = (\<lambda>ty hash n. andThen (satoshi_script_data_new ty (Some hash) n) (\<lambda>d'.
                            Inr (stack_push st1 d', True)));
                  sha = sha256_final P (sha256_update P (sha256_init P) m)
              in if op = op_ripemd160 then push SD_hash160 (ripemd160_hash P m) 20
                 else if op = op_sha256 then push SD_hash256 sha 32
                 else if op = op_hash160 then push SD_hash160 (ripemd160_hash P (take 32 sha)) 20
                 else if op = op_hash256 then push SD_hash256 (sha256_hash P (take 32 sha)) 32
                 else Inr (st1, False))))"

definition parse_op_dup :: "sstack \<Rightarrow> (sstack \<times> bool) res" where
  "parse_op_dup st =
     (case st_items st of
        [] \<Rightarrow> Inr (st, False)
      | None # _ \<Rightarrow> Inl Abort
      | Some d # _ \<Rightarrow> andThen (satoshi_script_data_clone d) (\<lambda>d'. Inr (stack_push st d', True)))"

text \<open>Both items are freed, the static ones too.\<close>

definition parse_op_equalverify :: "sstack \<Rightarrow> (sstack \<times> bool) res" where
  "parse_op_equalverify st =
     (if length (st_items st) < 2 then Inr (st, False)
      else case stack_pop st of (d1, st1) \<Rightarrow> case stack_pop st1 of (d2, st2) \<Rightarrow>
        (case (d1, d2) of
           (Some d1, Some d2) \<Rightarrow>
             andThen (satoshi_script_data_compare d1 d2) (\<lambda>c.
               if sd_static d1 \<or> sd_static d2 then Inl Undefined else Inr (st2, c = 0))
         | _ \<Rightarrow> Inl Abort))"

definition parse_op_equal :: "sstack \<Rightarrow> (sstack \<times> bool) res" where
  "parse_op_equal st =
     andThen (parse_op_equalverify st) (\<lambda>(st1, ok).
       Inr (stack_push st1 (satoshi_script_data_new_boolean ok), True))"

section \<open>Signatures\<close>

definition script_get_digest ::
    "('c, 'd) hash_ops \<Rightarrow> 'c script \<Rightarrow> u32 \<Rightarrow> ('c script \<times> bytes option) res" where
  "script_get_digest P s hash_type =
     (case sc_tx s of
        None \<Rightarrow> Inl Undefined
      | Some t \<Rightarrow>
          (case sc_utxo s of
             None \<Rightarrow> Inl Abort
           | Some u \<Rightarrow>
               andThen (satoshi_rawtx_get_digest P (sc_rawtx s) t (txin_index s) hash_type u) (\<lambda>(raw, d).
                 Inr (s\<lparr>sc_rawtx := raw\<rparr>, d))))"

definition item_pubkey :: "('k, 'g) secp256k1_ops \<Rightarrow> sdata \<Rightarrow> 'k crypto_pubkey option res" where
  "item_pubkey S d =
     (if sd_ptr_null d \<or> MAX_PUBKEY_DATA_LENGTH < sd_size d then Inl Abort
      else andThen (sd_ptr_read d (sd_size d)) (\<lambda>m. attempt (crypto_pubkey_import S (Some m))))"

text \<open>
  The return code starts as 0 and is what the error label returns: of the errors on the way, only a
  failed digest and a failed verification set it.
\<close>

definition parse_op_checksigverify ::
    "('c, 'd) hash_ops \<Rightarrow> ('k, 'g) secp256k1_ops \<Rightarrow> 'c script \<Rightarrow> 'c ret" where
  "parse_op_checksigverify P S s =
     (if length (st_items (main_stack s)) < 2 then Inr (s, True)
      else case script_pop s of
          (None, s1) \<Rightarrow> Inr (s1, True)
        | (Some d_key, s1) \<Rightarrow>
            andThen (item_pubkey S d_key) (\<lambda>key.
              case key of None \<Rightarrow> Inr (s1, True)
              | Some key \<Rightarrow>
                  (case script_pop s1 of
                     (None, s2) \<Rightarrow> Inr (s2, True)
                   | (Some d_sig, s2) \<Rightarrow>
                       let cb_sig = sd_size d_sig - 1
                       in if sd_ptr_null d_sig \<or> cb_sig = 0 then Inl Abort
                          else andThen (sd_ptr_read d_sig (sd_size d_sig)) (\<lambda>m.
                            andThen (attempt (crypto_signature_import S (Some (take cb_sig m)))) (\<lambda>sig.
                              case sig of None \<Rightarrow> Inr (s2, True)
                              | Some sig \<Rightarrow>
                                  andThen (case sc_digest s2 of
                                      Some g \<Rightarrow> andThen (mem_read 32 g) (\<lambda>g. Inr (s2, Some g))
                                    | None \<Rightarrow> script_get_digest P s2 (ucast (m ! cb_sig))) (\<lambda>(s3, digest).
                                    case digest of None \<Rightarrow> Inr (s3, False)
                                    | Some g \<Rightarrow>
                                        andThen (attempt (crypto_signature_export S sig)) (\<lambda>der.
                                          case der of None \<Rightarrow> Inr (s3, True)
                                          | Some (_, der) \<Rightarrow>
                                              andThen (crypto_verify S g key der) (\<lambda>ok. Inr (s3, ok)))))))))"

definition parse_op_checksig ::
    "('c, 'd) hash_ops \<Rightarrow> ('k, 'g) secp256k1_ops \<Rightarrow> 'c script \<Rightarrow> 'c ret" where
  "parse_op_checksig P S s =
     andThen (parse_op_checksigverify P S s) (\<lambda>(s1, ok).
       Inr (script_push s1 (satoshi_script_data_new_boolean ok), True))"

text \<open>The keys in the order they are popped; none for an error.\<close>

primrec multisig_keys ::
    "('k, 'g) secp256k1_ops \<Rightarrow> nat \<Rightarrow> 'c script \<Rightarrow> ('c script \<times> 'k crypto_pubkey list option) res" where
  "multisig_keys S 0 s = Inr (s, Some [])"
| "multisig_keys S (Suc n) s =
     (case script_pop s of
        (None, s1) \<Rightarrow> Inr (s1, None)
      | (Some d, s1) \<Rightarrow>
          if \<not> (sd_size d = 33 \<or> sd_size d = 65) then Inr (s1, None)
          else andThen (item_pubkey S d) (\<lambda>key.
            case key of None \<Rightarrow> Inr (s1, None)
            | Some key \<Rightarrow> andThen (multisig_keys S n s1) (\<lambda>(s2, keys).
                Inr (s2, map_option (Cons key) keys))))"

text \<open>The keys from the first one that verifies on; that key stays at the front.\<close>

primrec multisig_find ::
    "('k, 'g) secp256k1_ops \<Rightarrow> bytes option \<Rightarrow> bytes \<Rightarrow> 'k crypto_pubkey list
      \<Rightarrow> ('k crypto_pubkey list \<times> bool) res" where
  "multisig_find S digest der [] = Inr ([], False)"
| "multisig_find S digest der (k # ks) =
     (case digest of None \<Rightarrow> Inl Undefined
      | Some g \<Rightarrow> andThen (crypto_verify S g k der) (\<lambda>ok.
          if ok then Inr (k # ks, True) else multisig_find S digest der ks))"

text \<open>
  The loop over the signatures, with the hash type and digest of the previous one, the current
  return code and the number verified. It ends early with the return code, or with the number.
\<close>

primrec multisig_sigs ::
    "('c, 'd) hash_ops \<Rightarrow> ('k, 'g) secp256k1_ops \<Rightarrow> nat \<Rightarrow> 'c script \<Rightarrow> 'k crypto_pubkey list
      \<Rightarrow> u32 \<Rightarrow> bytes option \<Rightarrow> bool \<Rightarrow> nat \<Rightarrow> ('c script \<times> (bool + nat)) res" where
  "multisig_sigs P S 0 s keys prev digest rc verified = Inr (s, Inr verified)"
| "multisig_sigs P S (Suc n) s keys prev digest rc verified =
     (case script_pop s of
        (None, s1) \<Rightarrow> Inr (s1, Inl rc)
      | (Some d, s1) \<Rightarrow>
          if sd_size d < 1 then Inr (s1, Inl rc)
          else andThen (sd_ptr_read d (sd_size d)) (\<lambda>m.
            let cb = sd_size d - 1; sighash_type = ucast (m ! cb)
            in andThen (attempt (crypto_signature_import S (Some (take cb m)))) (\<lambda>sig.
              case sig of None \<Rightarrow> Inr (s1, Inl rc)
              | Some sig \<Rightarrow>
                  andThen (attempt (crypto_signature_export S sig)) (\<lambda>der.
                    case der of None \<Rightarrow> Inl Abort
                    | Some (_, der) \<Rightarrow>
                        andThen (if sighash_type \<noteq> prev then script_get_digest P s1 sighash_type
                                 else Inr (s1, digest)) (\<lambda>(s2, digest).
                          if sighash_type \<noteq> prev \<and> digest = None then Inr (s2, Inl False)
                          else andThen (multisig_find S digest der keys) (\<lambda>(keys, ok).
                            multisig_sigs P S n s2 keys sighash_type digest ok
                              (if ok then Suc verified else verified)))))))"

definition parse_op_checkmultisig ::
    "('c, 'd) hash_ops \<Rightarrow> ('k, 'g) secp256k1_ops \<Rightarrow> 'c script \<Rightarrow> 'c ret" where
  "parse_op_checkmultisig P S s =
     (case script_pop s of
        (None, s1) \<Rightarrow> Inr (s1, False)
      | (Some d, s1) \<Rightarrow>
          andThen (sd_b d) (\<lambda>num_pubkeys.
            if num_pubkeys < 1 \<or> 16 < num_pubkeys then Inr (s1, False)
            else andThen (multisig_keys S (nat num_pubkeys) s1) (\<lambda>(s2, keys).
              case keys of None \<Rightarrow> Inr (s2, False)
              | Some keys \<Rightarrow>
                  (case script_pop s2 of
                     (None, s3) \<Rightarrow> Inr (s3, False)
                   | (Some d, s3) \<Rightarrow>
                       andThen (sd_b d) (\<lambda>num_sigs.
                         if num_sigs < 0 \<or> num_pubkeys < num_sigs then Inr (s3, False)
                         else andThen (multisig_sigs P S (nat num_sigs) s3 keys 0 None False 0) (\<lambda>(s4, r).
                           case r of Inl rc \<Rightarrow> Inr (s4, rc)
                           | Inr verified \<Rightarrow>
                               Inr (script_push s4
                                 (satoshi_script_data_new_boolean (int verified = num_sigs)), True)))))))"

section \<open>Control\<close>

text \<open>The top item as a condition: only booleans and small numbers can hold.\<close>

definition scripts_verify :: "'c script \<Rightarrow> 'c ret" where
  "scripts_verify s =
     (if st_items (main_stack s) = [] then Inr (s, False)
      else case script_pop s of
          (None, s1) \<Rightarrow> Inr (s1, False)
        | (Some d, s1) \<Rightarrow>
            if sd_kind d = SD_bool \<or> sd_kind d = SD_uint8 \<or> sd_kind d = SD_op_code
            then andThen (sd_b d) (\<lambda>b. Inr (s1, b \<noteq> 0))
            else Inr (s1, False))"

definition MAX_IF_STATEMENT_DEPTH :: int where "MAX_IF_STATEMENT_DEPTH = 256"

text \<open>
  The scan for the matching \<open>OP_ELSE\<close> and \<open>OP_ENDIF\<close> behind an \<open>OP_IF\<close>, stepping over
  pushed data: offsets just behind the last \<open>OP_ELSE\<close> of this level and behind the
  \<open>OP_ENDIF\<close>. Nothing is found when the script ends first.
\<close>

function (sequential) if_scan :: "nat \<Rightarrow> nat \<Rightarrow> nat option \<Rightarrow> bytes \<Rightarrow> (nat option \<times> nat) option" where
  "if_scan off depth els [] = None"
| "if_scan off depth els (op # p) =
     (if op = op_if \<or> op = op_notif then if_scan (Suc off) (Suc depth) els p
      else if op = op_else then if_scan (Suc off) depth (if depth = 0 then Some (Suc off) else els) p
      else if op = op_endif
        then if depth = 0 then Some (els, Suc off) else if_scan (Suc off) (depth - 1) els p
      else if op \<le> op_pushdata4
        then let k = (if op < op_pushdata1 then 0 else if op = op_pushdata1 then 1
                      else if op = op_pushdata2 then 2 else 4)
             in if length p < k then None
                else let n = (if op < op_pushdata1 then unat op else le_val (take k p))
                     in if_scan (Suc off + k + n) depth els (drop (k + n) p)
      else if_scan (Suc off) depth els p)"
  by pat_completeness auto
termination by (relation "measure (\<lambda>(off, depth, els, p). length p)") auto

text \<open>
  The part of \<open>parse_op_if_notif\<close> before the nested run: the condition is taken off the stack
  and the branch to run is chosen, as offset and length within the rest of the script, with the
  offset behind \<open>OP_ENDIF\<close>.
\<close>

definition if_select ::
    "'c script \<Rightarrow> byte \<Rightarrow> bytes \<Rightarrow> ('c script \<times> ((nat \<times> nat) option \<times> nat) option) res" where
  "if_select s op p =
     (if MAX_IF_STATEMENT_DEPTH < if_statement_depth s \<or> if_statement_depth s < 1 then Inr (s, None)
      else andThen (scripts_verify s) (\<lambda>(s1, ok).
        let condition_matched = ((op = op_notif) \<noteq> ok)
        in case if_scan 0 0 None p of
            None \<Rightarrow> Inr (s1, None)
          | Some (els, endif) \<Rightarrow>
              let branch = (if condition_matched
                    then Some (0, (case els of Some e \<Rightarrow> e - 1 | None \<Rightarrow> endif - 1))
                    else map_option (\<lambda>e. (e, endif - 1 - e)) els)
              in Inr (s1, Some (branch, endif))))"

text \<open>
  \<open>pos\<close> is the offset of the next opcode within the redeem script of the input, when the code
  being run lies in it.
\<close>

definition script_set_txin :: "'c script \<Rightarrow> tx \<Rightarrow> txin \<Rightarrow> 'c script" where
  "script_set_txin s t i = s\<lparr>sc_tx := Some (t\<lparr>txins := (txins t)[nat (txin_index s) := i]\<rparr>)\<rparr>"

definition parse_op_codeseparator :: "'c script \<Rightarrow> nat option \<Rightarrow> 'c ret" where
  "parse_op_codeseparator s pos =
     (case sc_tx s of
        None \<Rightarrow> Inl Abort
      | Some t \<Rightarrow>
          if \<not> (0 \<le> txin_index s \<and> txin_index s < int (length (txins t))) then Inr (s, False)
          else let i = txins t ! nat (txin_index s)
          in case redeem_scripts i of
              None \<Rightarrow> Inr (s, False)
            | Some v \<Rightarrow> andThen (varstr_length v) (\<lambda>len.
                case pos of
                  None \<Rightarrow> Inl Abort
                | Some k \<Rightarrow>
                    if \<not> k < unat len then Inl Abort
                    else Inr (script_set_txin s t (i\<lparr>redeem_scripts_start_pos := of_nat k\<rparr>), True)))"

definition satoshi_script_generate_p2pkh_script :: "bytes \<Rightarrow> bytes res" where
  "satoshi_script_generate_p2pkh_script h160 =
     (if length h160 \<noteq> 20 then Inl Abort
      else Inr ([0x19, op_dup, op_hash160, 20] @ h160 @ [op_equalverify, op_checksig]))"

end
