(* ===== verification/Script.thy ===== *)
theory Script
  imports ScriptOps
begin

text \<open>
  Running scripts (\<open>src/satoshi-script.c\<close>, \<open>scripts_parse\<close> and what it calls to prepare and
  finish a run): the interpreter loop with its conditionals, pay-to-script-hash inputs, witness
  programs, attaching a transaction and choosing the input. A run that returns the length of the
  script is the value \<open>True\<close>, one that returns -1 is \<open>False\<close>; both come with the machine as it
  is left.
\<close>

section \<open>The interpreter\<close>

text \<open>The operation on the main stack alone.\<close>

definition on_stack :: "'c script \<Rightarrow> (sstack \<times> bool) res \<Rightarrow> 'c ret" where
  "on_stack s r = andThen r (\<lambda>(st, ok). Inr (s\<lparr>main_stack := st\<rparr>, ok))"

text \<open>The opcodes without operands. \<open>OP_RETURN\<close> does nothing; everything not listed fails.\<close>

definition script_step ::
    "('c, 'd) hash_ops \<Rightarrow> ('k, 'g) secp256k1_ops \<Rightarrow> 'c script \<Rightarrow> byte \<Rightarrow> nat option \<Rightarrow> 'c ret" where
  "script_step P S s op pos =
     (if op = op_ripemd160 \<or> op = op_hash160 \<or> op = op_sha256 \<or> op = op_hash256
        then on_stack s (parse_op_hash P (main_stack s) op)
      else if op = op_dup then on_stack s (parse_op_dup (main_stack s))
      else if op = op_equalverify then on_stack s (parse_op_equalverify (main_stack s))
      else if op = op_equal then on_stack s (parse_op_equal (main_stack s))
      else if op = op_checksig then parse_op_checksig P S s
      else if op = op_checksigverify then parse_op_checksigverify P S s
      else if op = op_checkmultisig then parse_op_checkmultisig P S s
      else if op = op_nop then Inr (s, True)
      else if op = op_verify then scripts_verify s
      else if op = op_return then Inr (s, True)
      else if op = op_codeseparator then parse_op_codeseparator s pos
      else if op = op_nop1 \<or> (op_nop4 \<le> op \<and> op \<le> op_nop10) then Inr (s, True)
      else Inr (s, False))"

text \<open>
  The loop. \<open>only_push\<close> is set for input scripts. The branch of a conditional is run by a nested
  call, which asserts that it is not empty; the depth goes down again when it succeeded.
\<close>

function (sequential) script_loop ::
    "('c, 'd) hash_ops \<Rightarrow> ('k, 'g) secp256k1_ops \<Rightarrow> bool \<Rightarrow> nat option \<Rightarrow> 'c script \<Rightarrow> bytes \<Rightarrow> 'c ret" where
  "script_loop P S only_push pos s [] = Inr (s, True)"
| "script_loop P S only_push pos s (op # p) =
     (let move = (\<lambda>n. map_option ((+) (Suc n)) pos)
      in if op = 0 then script_loop P S only_push (move 0) (script_push s s_sdata_false) p
      else if op \<le> op_pushdata4
        then if op = op_pushdata4 then Inl Abort
             else andThen (parse_op_push_data (main_stack s) op p) (\<lambda>(st, used).
               case used of
                 None \<Rightarrow> Inr (s\<lparr>main_stack := st\<rparr>, False)
               | Some n \<Rightarrow> script_loop P S only_push (move n) (s\<lparr>main_stack := st\<rparr>) (drop n p))
      else if only_push then Inr (s, False)
      else if op_1 \<le> op \<and> op \<le> op_16
        then andThen (satoshi_script_data_new SD_uint8 (Some [op - 0x50]) 1) (\<lambda>d.
               script_loop P S only_push (move 0) (script_push s d) p)
      else if op = op_if \<or> op = op_notif
        then andThen (if_select (s\<lparr>if_statement_depth := if_statement_depth s + 1\<rparr>) op p) (\<lambda>(s1, sel).
          case sel of
            None \<Rightarrow> Inr (s1, False)
          | Some (branch, endif) \<Rightarrow>
              onward
                (case branch of
                   None \<Rightarrow> Inr (s1, True)
                 | Some (start, len) \<Rightarrow>
                     if len = 0 then Inl Abort
                     else script_loop P S False (move start) (s1\<lparr>sc_type := Type_unknown\<rparr>)
                            (take len (drop start p))) (\<lambda>s2.
                if if_statement_depth s2 - 1 < 0 then Inl Abort
                else script_loop P S only_push (move endif)
                       (s2\<lparr>if_statement_depth := if_statement_depth s2 - 1\<rparr>) (drop endif p)))
      else onward (script_step P S s op (move 0)) (\<lambda>s1. script_loop P S only_push (move 0) s1 p))"
  by pat_completeness auto
termination
  by (relation "measure (\<lambda>(P, S, only_push, pos, s, p). length p)") auto

text \<open>The call without preparation; \<open>pos\<close> is 0 when the script is the redeem script of the input.\<close>

definition scripts_parse_plain ::
    "('c, 'd) hash_ops \<Rightarrow> ('k, 'g) secp256k1_ops \<Rightarrow> nat option \<Rightarrow> 'c script \<Rightarrow> bytes \<Rightarrow> 'c ret" where
  "scripts_parse_plain P S pos s p =
     (if p = [] then Inl Abort
      else script_loop P S False pos (s\<lparr>sc_type := Type_unknown\<rparr>) p)"

section \<open>Pay to script hash\<close>

definition txin_p2sh_scripts_post_process ::
    "('c, 'd) hash_ops \<Rightarrow> ('k, 'g) secp256k1_ops \<Rightarrow> 'c script \<Rightarrow> 'c ret" where
  "txin_p2sh_scripts_post_process P S s =
     (case sc_tx s of
        None \<Rightarrow> Inl Abort
      | Some t \<Rightarrow>
          if \<not> (0 \<le> txin_index s \<and> txin_index s < int (length (txins t))) then Inl Abort
          else let i = (txins t ! nat (txin_index s))\<lparr>is_p2sh := True\<rparr>; s0 = script_set_txin s t i
          in case script_pop s0 of
              (None, s1) \<Rightarrow> Inr (s1, False)
            | (Some d, s1) \<Rightarrow>
                if sd_kind d < SD_varstr then Inr (s1, False)
                else andThen (satoshi_txin_set_redeem_scripts i (sd_data d) (of_nat (sd_size d))) (\<lambda>i1.
                  case redeem_scripts i1 of
                    None \<Rightarrow> Inl Abort
                  | Some v \<Rightarrow>
                      andThen (varstr_getdata_ptr v) (\<lambda>code. andThen (varstr_length v) (\<lambda>len.
                        andThen (mem_read (unat len) code) (\<lambda>code.
                          onward (scripts_parse_plain P S (Some 0) (script_set_txin s1 t i1) code) (\<lambda>s2.
                            if unat len \<noteq> sd_size d then Inr (s2, False)
                            else onward (scripts_verify s2) (\<lambda>s3. Inr (script_push s3 d, True))))))))"

section \<open>Witness programs\<close>

text \<open>Running the redeem script of the input, set to the standard one for the key hash when there is
  none. A failure fails an assertion.\<close>

definition run_key_hash_program ::
    "('c, 'd) hash_ops \<Rightarrow> ('k, 'g) secp256k1_ops \<Rightarrow> 'c script \<Rightarrow> bytes \<Rightarrow> 'c ret" where
  "run_key_hash_program P S s program =
     (case sc_tx s of
        None \<Rightarrow> Inl Undefined
      | Some t \<Rightarrow>
          if \<not> (0 \<le> txin_index s \<and> txin_index s < int (length (txins t))) then Inl Undefined
          else let i = txins t ! nat (txin_index s)
          in andThen (case redeem_scripts i of
              Some v \<Rightarrow> Inr v
            | None \<Rightarrow> satoshi_script_generate_p2pkh_script program) (\<lambda>v.
               andThen (varstr_getdata_ptr v) (\<lambda>code. andThen (varstr_length v) (\<lambda>len.
                 andThen (mem_read (unat len) code) (\<lambda>code.
                   andThen (scripts_parse_plain P S (Some 0) (script_set_txin s t (i\<lparr>redeem_scripts := Some v\<rparr>)) code)
                     (\<lambda>(s1, ok). if ok then Inr (s1, True) else Inl Abort))))))"

definition parse_segwit_script ::
    "('c, 'd) hash_ops \<Rightarrow> ('k, 'g) secp256k1_ops \<Rightarrow> 'c script \<Rightarrow> bytes \<Rightarrow> 'c ret" where
  "parse_segwit_script P S s p =
     (case p of
        [] \<Rightarrow> Inl Undefined
      | [version_byte] \<Rightarrow> Inr (s, False)
      | version_byte # program_length # p1 \<Rightarrow>
          if version_byte \<noteq> 0 then Inr (s, False)
          else if length p1 < unat program_length then Inr (s, False)
          else let witness_program = take (unat program_length) p1
          in if program_length = 20 then run_key_hash_program P S s witness_program
             else if program_length = 32
             then onward (txin_p2sh_scripts_post_process P S s) (\<lambda>s1.
               case script_pop s1 of
                 (None, _) \<Rightarrow> Inl Abort
               | (Some d, s2) \<Rightarrow>
                   andThen (sd_ptr_read d (sd_size d)) (\<lambda>m.
                     let hash = sha256_final P (sha256_update P (sha256_init P) m)
                     in Inr (script_push s2
                          (satoshi_script_data_new_boolean (take 32 hash = witness_program)), True)))
             else Inr (s, False))"

text \<open>Pushing the witness items of the input; empty ones are passed over.\<close>

fun push_witness_items :: "'c script \<Rightarrow> bytes list \<Rightarrow> 'c script res" where
  "push_witness_items s [] = Inr s"
| "push_witness_items s (v # vs) =
     andThen (varstr_getdata_ptr v) (\<lambda>d. andThen (varstr_length v) (\<lambda>n.
       if sint n < 0 then Inl Abort
       else if n = 0 then push_witness_items s vs
       else andThen (satoshi_script_data_new SD_pointer (Some d) (unat n)) (\<lambda>x.
         push_witness_items (script_push s x) vs)))"

definition input_witness :: "tx \<Rightarrow> nat \<Rightarrow> bytes list option res" where
  "input_witness t i =
     (if \<not> has_flag t then Inr None
      else case witnesses t of
          None \<Rightarrow> Inl Undefined
        | Some ws \<Rightarrow>
            if length ws \<le> i then Inl Undefined
            else if \<not> 0 < sint (num_items (ws ! i))
              then Inr (if num_items (ws ! i) = 0 then None else Some [])
            else if length (items (ws ! i)) < unat (num_items (ws ! i)) then Inl Undefined
            else Inr (Some (take (unat (num_items (ws ! i))) (items (ws ! i)))))"

text \<open>
  Preparing an output script. The machine with the rest of the script to run (nothing left after a
  native witness program), or none for an error. For an output that is not a witness program, an
  input with witness data is taken to be pay-to-script-hash around a witness program: the program,
  on top of the stack, is run, what is then on top is dropped, and the program is put back.
\<close>

definition txout_scripts_pre_process ::
    "('c, 'd) hash_ops \<Rightarrow> ('k, 'g) secp256k1_ops \<Rightarrow> 'c script \<Rightarrow> bytes
      \<Rightarrow> ('c script \<times> bytes option) res" where
  "txout_scripts_pre_process P S s p =
     (case sc_tx s of
        None \<Rightarrow> Inl Abort
      | Some t \<Rightarrow>
          if txins t = [] \<or> \<not> txin_index s < int (length (txins t)) \<or> p = [] then Inl Abort
          else if txin_index s < 0 then Inl Undefined
          else let i = txins t ! nat (txin_index s)
          in if is_p2sh i then Inr (s, Some p)
          else andThen (input_witness t (nat (txin_index s))) (\<lambda>wit.
            if 16 < p ! 0
            then (case wit of
                None \<Rightarrow>
                  andThen (case redeem_scripts i of
                      Some _ \<Rightarrow> Inr s
                    | None \<Rightarrow> andThen (varstr_new (Some p) (of_nat (length p))) (\<lambda>v.
                        Inr (script_set_txin s t (i\<lparr>redeem_scripts := Some v\<rparr>)))) (\<lambda>s1. Inr (s1, Some p))
              | Some ws \<Rightarrow>
                  (case sc_utxo s of
                     None \<Rightarrow> Inl Undefined
                   | Some u \<Rightarrow>
                       let s1 = s\<lparr>sc_utxo := Some (u\<lparr>txout_flags := txout_flags u OR txout_type_p2sh_segwit_flags\<rparr>)\<rparr>
                       in if st_items (main_stack s1) = [] then Inr (s1, None)
                          else (case script_pop s1 of
                              (None, _) \<Rightarrow> Inl Abort
                            | (Some d, s2) \<Rightarrow>
                                if sd_ptr_null d \<or> sd_size d = 0 then Inl Abort
                                else andThen (push_witness_items s2 ws) (\<lambda>s3.
                                  if sd_size d \<le> 2 then Inr (s3, None)
                                  else andThen (sd_ptr_read d (sd_size d)) (\<lambda>program.
                                    andThen (parse_segwit_script P S s3 program) (\<lambda>(s4, ok).
                                      if \<not> ok \<or> st_items (main_stack s4) = [] then Inr (s4, None)
                                      else Inr (script_push (snd (script_pop s4)) d, Some p)))))))
            else andThen (push_witness_items s (case wit of None \<Rightarrow> [] | Some ws \<Rightarrow> ws)) (\<lambda>s1.
              andThen (parse_segwit_script P S s1 p) (\<lambda>(s2, ok).
                Inr (s2, if ok then Some [] else None)))))"

section \<open>The entry points\<close>

definition scripts_parse ::
    "('c, 'd) hash_ops \<Rightarrow> ('k, 'g) secp256k1_ops \<Rightarrow> 'c script \<Rightarrow> script_type \<Rightarrow> bytes \<Rightarrow> 'c ret" where
  "scripts_parse P S s ty payload =
     (if payload = [] then Inl Abort
      else let s0 = s\<lparr>sc_type := ty\<rparr>
      in case ty of
          Type_txin \<Rightarrow>
            let is_p2sh = (payload ! 0 = 0)
            in onward (script_loop P S True None s0 (if is_p2sh then drop 1 payload else payload)) (\<lambda>s1.
                 if is_p2sh then txin_p2sh_scripts_post_process P S s1 else Inr (s1, True))
        | Type_txout \<Rightarrow>
            andThen (txout_scripts_pre_process P S s0 payload) (\<lambda>(s1, rest).
              case rest of None \<Rightarrow> Inr (s1, False) | Some p \<Rightarrow> script_loop P S False None s1 p)
        | Type_unknown \<Rightarrow> script_loop P S False None s0 payload)"

definition scripts_detach_tx :: "'c \<Rightarrow> 'c script \<Rightarrow> 'c script" where
  "scripts_detach_tx z s =
     (case sc_tx s of None \<Rightarrow> s | Some _ \<Rightarrow> s\<lparr>sc_rawtx := rawtx_zero z, sc_tx := None\<rparr>)"

definition scripts_attach_tx :: "('c, 'd) hash_ops \<Rightarrow> 'c \<Rightarrow> 'c script \<Rightarrow> tx option \<Rightarrow> 'c script res" where
  "scripts_attach_tx P z s t =
     (let s1 = scripts_detach_tx z s
      in case t of
          None \<Rightarrow> Inr (s1\<lparr>sc_tx := None\<rparr>)
        | Some t' \<Rightarrow> andThen (satoshi_rawtx_attach P z (Some (sc_rawtx s1)) t') (\<lambda>raw.
            Inr (s1\<lparr>sc_tx := Some t', sc_rawtx := raw\<rparr>)))"

definition scripts_set_txin_info :: "'c script \<Rightarrow> int \<Rightarrow> txout option \<Rightarrow> 'c ret" where
  "scripts_set_txin_info s index utxo =
     (case sc_tx s of
        None \<Rightarrow> Inr (s, False)
      | Some t \<Rightarrow>
          if \<not> (0 \<le> index \<and> index < int (length (txins t))) then Inl Abort
          else Inr (s\<lparr>txin_index := index, sc_utxo := utxo\<rparr>, True))"

text \<open>From zeroed memory.\<close>

definition satoshi_script_init :: "'c \<Rightarrow> 'c script" where
  "satoshi_script_init z =
     \<lparr>main_stack = satoshi_script_stack_init sstack_empty 0,
      alt_stack = satoshi_script_stack_init sstack_empty 0,
      sc_digest = None, sc_tx = None, sc_rawtx = rawtx_zero z, txin_index = 0, sc_utxo = None,
      sc_type = Type_unknown, if_statement_depth = 0\<rparr>"

definition satoshi_script_reset :: "'c script \<Rightarrow> 'c script" where
  "satoshi_script_reset s =
     s\<lparr>main_stack := satoshi_script_stack_cleanup (main_stack s),
       alt_stack := satoshi_script_stack_cleanup (alt_stack s)\<rparr>"

definition satoshi_script_cleanup :: "'c \<Rightarrow> 'c script \<Rightarrow> 'c script" where
  "satoshi_script_cleanup z s = satoshi_script_reset (scripts_detach_tx z s)"

end
