(* ===== verification/ScriptProps.thy ===== *)
theory ScriptProps
  imports Script
begin

text \<open>
  What the script machine does (the properties of \<open>Script\<close>): pushes and the code that makes them,
  conditionals, the standard payments, and what a run leaves alone.
\<close>

section \<open>Pushing\<close>

declare script_loop.simps [simp del]

lemma script_loop_nil [simp]: "script_loop P S only pos s [] = Inr (s, True)"
  by (simp add: script_loop.simps)

definition with_items :: "'c script \<Rightarrow> sdata option list \<Rightarrow> 'c script" where
  "with_items s xs = s\<lparr>main_stack := (main_stack s)\<lparr>st_items := xs\<rparr>\<rparr>"

definition room :: "'c script \<Rightarrow> nat \<Rightarrow> bool" where
  "room s n \<longleftrightarrow> sstack_room (main_stack s) n"

abbreviation items_of :: "'c script \<Rightarrow> sdata option list" where
  "items_of s \<equiv> st_items (main_stack s)"

lemma with_items_simps [simp]:
  "items_of (with_items s xs) = xs" "with_items (with_items s xs) ys = with_items s ys"
  "with_items s (items_of s) = s" "sc_tx (with_items s xs) = sc_tx s"
  "txin_index (with_items s xs) = txin_index s" "sc_utxo (with_items s xs) = sc_utxo s"
  "sc_digest (with_items s xs) = sc_digest s" "sc_rawtx (with_items s xs) = sc_rawtx s"
  "if_statement_depth (with_items s xs) = if_statement_depth s"
  "st_max (main_stack (with_items s xs)) = st_max (main_stack s)"
  by (simp_all add: with_items_def)

lemma room_with_items: "room (with_items s xs) n \<longleftrightarrow> length xs + n \<le> st_max (main_stack s) \<and> 64 dvd st_max (main_stack s)"
  by (simp add: room_def sstack_room_def)

lemma script_push_room: "room s (Suc n) \<Longrightarrow> script_push s d = with_items s (Some d # items_of s)"
  by (simp add: script_push_def with_items_def room_def stack_push_room)

lemma script_pop_items: "script_pop (with_items s (d # r)) = (d, with_items s r)"
  by (simp add: script_pop_def stack_pop_def with_items_def)

lemma unat_small_byte: "n < 256 \<Longrightarrow> unat (of_nat n :: byte) = n"
  by (simp add: unat_of_nat)

lemma parse_push_short:
  assumes "0 < length d" "length d < 0x4c"
  shows "parse_op_push_data st (of_nat (length d)) (d @ r) = Inr (stack_push st (ptr_item d), Some (length d))"
proof -
  have u: "unat (of_nat (length d) :: byte) = length d" using assms by (simp add: unat_small_byte)
  have "\<not> op_pushdata4 < (of_nat (length d) :: byte)" "(of_nat (length d) :: byte) \<noteq> op_pushdata1"
    "(of_nat (length d) :: byte) \<noteq> op_pushdata2" "(of_nat (length d) :: byte) \<noteq> op_pushdata4"
    using assms u by (auto simp: word_less_nat_alt word_unat_eq_iff)
  then show ?thesis using u new_pointer [of d r] by (simp add: parse_op_push_data_def)
qed

lemma parse_push_1:
  assumes "length d < 256"
  shows "parse_op_push_data st op_pushdata1 (of_nat (length d) # d @ r) = Inr (stack_push st (ptr_item d), Some (1 + length d))"
  using assms unat_small_byte [of "length d"] new_pointer [of d r] by (simp add: parse_op_push_data_def)

lemma parse_push_2:
  assumes "length d < 65536"
  shows "parse_op_push_data st op_pushdata2 (enc16 (of_nat (length d)) @ d @ r) = Inr (stack_push st (ptr_item d), Some (2 + length d))"
proof -
  have "unat (of_nat (length d) :: u16) = length d" using assms by (simp add: unat_of_nat)
  then have "le_val (enc16 (of_nat (length d))) = length d" "length (enc16 (of_nat (length d))) = 2"
    by (simp_all add: bytes_simps)
  then show ?thesis using new_pointer [of d r] by (simp add: parse_op_push_data_def)
qed

text \<open>The shortest code that pushes the bytes, and running it.\<close>

definition push_code :: "bytes \<Rightarrow> bytes" where
  "push_code d =
     (if length d < 0x4c then of_nat (length d) # d
      else if length d \<le> 0xff then op_pushdata1 # of_nat (length d) # d
      else op_pushdata2 # enc16 (of_nat (length d)) @ d)"

lemma ucast_of_nat_32: "n < 2 ^ 32 \<Longrightarrow> (ucast (of_nat n :: u64) :: u32) = of_nat n"
  by (simp add: word_unat_eq_iff unsigned_ucast_eq take_bit_eq_mod unat_of_nat)

lemma ucast_of_nat_16: "n < 2 ^ 16 \<Longrightarrow> (ucast (of_nat n :: u32) :: u16) = of_nat n"
  by (simp add: word_unat_eq_iff unsigned_ucast_eq take_bit_eq_mod unat_of_nat)

lemma ucast_of_nat_8: "n < 256 \<Longrightarrow> (ucast (of_nat n :: 'a::len word) :: byte) = of_nat n" if "8 \<le> LENGTH('a)"
proof -
  assume n: "n < 256"
  have "(256 :: nat) = 2 ^ 8" by simp
  also have "\<dots> \<le> 2 ^ LENGTH('a)" using that by (rule power_increasing) simp
  finally show ?thesis using n by (simp add: word_unat_eq_iff unsigned_ucast_eq take_bit_eq_mod unat_of_nat)
qed

lemma mk_varstr_short:
  assumes "length d < 0x4c"
  shows "mk_varstr d = of_nat (length d) # d"
proof -
  have "unat (of_nat (length d) :: u64) = length d" using assms by (simp add: unat_of_nat)
  then have "(of_nat (length d) :: u64) < 0xFD" using assms by (simp add: word_less_nat_alt)
  moreover have "(ucast (of_nat (length d) :: u64) :: byte) = of_nat (length d)"
    using assms by (simp add: ucast_of_nat_8)
  ultimately show ?thesis by (simp add: mk_varstr_def varint_set_data_def)
qed

lemma pushdata_code:
  assumes "length d \<le> 0xffff"
  shows "satoshi_script_pushdata_code_from_varstr (mk_varstr d) = Inr (push_code d)"
proof -
  define n where "n = length d"
  have c: "(ucast (of_nat n :: u64) :: u32) = of_nat n" using assms by (simp add: n_def ucast_of_nat_32)
  have u: "unat (of_nat n :: u32) = n" using assms by (simp add: n_def unat_of_nat)
  have scan: "varstr_length (mk_varstr d) = Inr (of_nat n)" "varstr_getdata_ptr (mk_varstr d) = Inr d"
    by (simp_all add: mk_varstr_def varstr_length_def varstr_getdata_ptr_def n_def)
  have lt: "(of_nat n :: u32) < 0x4c \<longleftrightarrow> n < 0x4c" "\<not> 0xffff < (of_nat n :: u32)" "0xff < (of_nat n :: u32) \<longleftrightarrow> 0xff < n"
    using assms u by (simp_all add: word_less_nat_alt n_def)
  show ?thesis
  proof (cases "n < 0x4c")
    case True
    have "mem_read (unat (of_nat n :: u32) + 1) (mk_varstr d) = Inr (of_nat n # d)"
      using True u mk_varstr_short [of d] by (simp add: n_def mem_read_def)
    then show ?thesis using True lt
      by (simp add: satoshi_script_pushdata_code_from_varstr_def scan c push_code_def n_def [symmetric])
  next
    case False
    have "n \<le> 0xff \<Longrightarrow> (ucast (of_nat n :: u32) :: byte) = of_nat n"
      by (rule ucast_of_nat_8) simp_all
    moreover have "(ucast (of_nat n :: u32) :: u16) = of_nat n" using assms by (simp add: n_def ucast_of_nat_16)
    ultimately show ?thesis using False lt u
      by (simp add: satoshi_script_pushdata_code_from_varstr_def scan c push_code_def n_def [symmetric] mem_read_def not_le)
  qed
qed

lemma loop_push:
  assumes "op \<noteq> 0" "op < op_pushdata4"
    and "parse_op_push_data (main_stack s) op p = Inr (stack_push (main_stack s) d, Some n)"
  shows "script_loop P S only pos s (op # p)
    = script_loop P S only (map_option ((+) (Suc n)) pos) (script_push s d) (drop n p)"
proof -
  have "op \<le> op_pushdata4" "op \<noteq> op_pushdata4" using assms(2) by auto
  then show ?thesis using assms(1,3) by (simp add: script_loop.simps script_push_def)
qed

lemma loop_push_code:
  assumes "d \<noteq> []" "length d \<le> 0xffff"
  shows "script_loop P S only pos s (push_code d @ r)
    = script_loop P S only (map_option ((+) (length (push_code d))) pos) (script_push s (ptr_item d)) r"
proof -
  consider "length d < 0x4c" | "0x4c \<le> length d" "length d \<le> 0xff" | "0xff < length d" by linarith
  then show ?thesis
  proof cases
    case 1
    have u: "unat (of_nat (length d) :: byte) = length d" using 1 by (simp add: unat_small_byte)
    have "(of_nat (length d) :: byte) \<noteq> 0" "(of_nat (length d) :: byte) < op_pushdata4"
      using assms(1) 1 u by (auto simp: word_unat_eq_iff word_less_nat_alt)
    from loop_push [OF this parse_push_short] 1 assms(1)
    show ?thesis by (simp add: push_code_def)
  next
    case 2
    have len: "length d < 256" using 2 by simp
    have "op_pushdata1 < op_pushdata4" by simp
    then show ?thesis using loop_push [OF _ _ parse_push_1] 2 len by (simp add: push_code_def)
  next
    case 3
    have len: "length d < 65536" using assms(2) by simp
    have "op_pushdata2 < op_pushdata4" by simp
    moreover have "length (enc16 (of_nat (length d))) = 2" by (simp add: bytes_simps)
    ultimately show ?thesis
      using loop_push [OF _ _ parse_push_2] 3 len by (simp add: push_code_def)
  qed
qed

text \<open>The code made from a string of 1 to 65535 bytes, run anywhere in a script (input scripts
  included), pushes exactly that string and goes on behind the code.\<close>

theorem push_code_runs:
  assumes "d \<noteq> []" "length d \<le> 0xffff"
  shows "\<exists>code. satoshi_script_pushdata_code_from_varstr (mk_varstr d) = Inr code
    \<and> length code \<le> length d + 3
    \<and> script_loop P S only pos s (code @ r)
      = script_loop P S only (map_option ((+) (length code)) pos) (script_push s (ptr_item d)) r"
proof -
  have "length (push_code d) \<le> length d + 3" by (simp add: push_code_def bytes_simps)
  then show ?thesis using pushdata_code [OF assms(2)] loop_push_code [OF assms] by blast
qed

theorem push_code_runs_witness:
  "\<exists>code. satoshi_script_pushdata_code_from_varstr (mk_varstr [7, 8]) = Inr code
    \<and> script_loop (recording_ops id id) toy_curve True None (satoshi_script_init []) (code @ [])
      = script_loop (recording_ops id id) toy_curve True None
          (script_push (satoshi_script_init []) (ptr_item [7, 8])) []"
  using push_code_runs [of "[7, 8]" "recording_ops id id" toy_curve True None "satoshi_script_init []" "[]"]
  by auto

section \<open>Single operations\<close>

lemma room_mono: "room s n \<Longrightarrow> m \<le> n \<Longrightarrow> room s m"
  by (simp add: room_def sstack_room_def)

lemma loop_step:
  assumes "op \<noteq> 0" "\<not> op \<le> op_pushdata4" "\<not> (op_1 \<le> op \<and> op \<le> op_16)" "op \<noteq> op_if" "op \<noteq> op_notif"
  shows "script_loop P S False pos s (op # p)
    = onward (script_step P S s op (map_option Suc pos)) (\<lambda>s1. script_loop P S False (map_option Suc pos) s1 p)"
proof -
  have "(+) (Suc 0) = Suc" by auto
  then show ?thesis using assms by (auto simp: script_loop.simps)
qed

lemma stack_push_items:
  assumes "room s n" "0 < n + length (items_of s) - length r"
  shows "stack_push ((main_stack s)\<lparr>st_items := r\<rparr>) d = (main_stack s)\<lparr>st_items := Some d # r\<rparr>"
proof -
  have "sstack_room ((main_stack s)\<lparr>st_items := r\<rparr>) (Suc 0)"
    using assms by (auto simp: room_def sstack_room_def)
  from stack_push_room [OF this] show ?thesis by simp
qed

lemma step_dup:
  assumes "items_of s = Some (ptr_item d) # r" "d \<noteq> []" "room s 1"
  shows "script_step P S s op_dup pos = Inr (with_items s (Some (ptr_item d) # items_of s), True)"
proof -
  have "stack_push (main_stack s) (ptr_item d) = (main_stack s)\<lparr>st_items := Some (ptr_item d) # items_of s\<rparr>"
    using stack_push_items [OF assms(3), of "items_of s"] by simp
  then show ?thesis
    using assms(1,2) clone_pointer [OF assms(2)]
    by (simp add: script_step_def on_stack_def parse_op_dup_def with_items_def)
qed

lemma pop_items: "items_of s = d # r \<Longrightarrow> stack_pop (main_stack s) = (d, (main_stack s)\<lparr>st_items := r\<rparr>)"
  by (simp add: stack_pop_def)

lemma step_hash160:
  assumes "hash_provider P sha ripemd" "items_of s = Some (ptr_item d) # r" "room s 0"
  shows "script_step P S s op_hash160 pos = Inr (with_items s (Some (h160_item (ripemd (sha d))) # r), True)"
proof -
  note h = hash_provider.sha_one [OF assms(1)] hash_provider.sha_length [OF assms(1)]
    hash_provider.ripemd_length [OF assms(1)] hash_provider.ripemd_once [OF assms(1)]
  have p: "stack_push ((main_stack s)\<lparr>st_items := r\<rparr>) x = (main_stack s)\<lparr>st_items := Some x # r\<rparr>" for x
    by (rule stack_push_items [OF assms(3)]) (simp add: assms(2))
  have n: "satoshi_script_data_new SD_hash160 (Some (ripemd x)) 20 = Inr (h160_item (ripemd x))" for x
    using new_hash160 [of "ripemd x" "[]"] h by simp
  show ?thesis
    using pop_items [OF assms(2)] get_pointer [of d]
    by (cases "d = []")
      (simp_all add: script_step_def on_stack_def parse_op_hash_def Let_def h n p with_items_def)
qed

lemma step_equalverify:
  assumes "items_of s = Some (ptr_item d) # Some (h160_item h) # r" "length d = 20" "length h = 20"
  shows "script_step P S s op_equalverify pos = Inr (with_items s r, d = h)"
proof -
  obtain c where "satoshi_script_data_compare (ptr_item d) (h160_item h) = Inr c" "c = 0 \<longleftrightarrow> d = h"
    using compare_pointer_hash160(1) [OF assms(2,3)] by blast
  then show ?thesis using pop_items [OF assms(1)] assms(1)
    by (simp add: script_step_def on_stack_def parse_op_equalverify_def stack_pop_def with_items_def)
qed

lemma step_equal:
  assumes "items_of s = Some (ptr_item d) # Some (h160_item h) # r" "length d = 20" "length h = 20" "room s 0"
  shows "script_step P S s op_equal pos
    = Inr (with_items s (Some (satoshi_script_data_new_boolean (d = h)) # r), True)"
proof -
  obtain c where "satoshi_script_data_compare (ptr_item d) (h160_item h) = Inr c" "c = 0 \<longleftrightarrow> d = h"
    using compare_pointer_hash160(1) [OF assms(2,3)] by blast
  moreover have "stack_push ((main_stack s)\<lparr>st_items := r\<rparr>) x = (main_stack s)\<lparr>st_items := Some x # r\<rparr>" for x
    by (rule stack_push_items [OF assms(4)]) (simp add: assms(1))
  ultimately show ?thesis using pop_items [OF assms(1)] assms(1)
    by (simp add: script_step_def on_stack_def parse_op_equal_def parse_op_equalverify_def stack_pop_def with_items_def)
qed

section \<open>Signature checks\<close>

text \<open>The digest a check uses: the preset one, or the one of the attached transaction.\<close>

definition digest_for :: "('c, 'd) hash_ops \<Rightarrow> 'c script \<Rightarrow> u32 \<Rightarrow> ('c script \<times> bytes option) res" where
  "digest_for P s hash_type =
     (case sc_digest s of
        Some g \<Rightarrow> andThen (mem_read 32 g) (\<lambda>g. Inr (s, Some g))
      | None \<Rightarrow> script_get_digest P s hash_type)"

definition raw_set :: "'c script \<Rightarrow> 'c rawtx \<Rightarrow> 'c script" where
  "raw_set s raw = s\<lparr>sc_rawtx := raw\<rparr>"

lemma raw_set_simps [simp]:
  "main_stack (raw_set s raw) = main_stack s" "if_statement_depth (raw_set s raw) = if_statement_depth s"
  "raw_set (with_items s xs) raw = with_items (raw_set s raw) xs" "room (raw_set s raw) n = room s n"
  "sc_tx (raw_set s raw) = sc_tx s"
  by (simp_all add: raw_set_def with_items_def room_def)

lemma digest_for_items:
  "digest_for P (with_items s xs) ht = andThen (digest_for P s ht) (\<lambda>(s', d). Inr (with_items s' xs, d))"
  by (simp add: digest_for_def script_get_digest_def with_items_def mem_read_def andThen_def
      split: option.split sum.split prod.split)

text \<open>What a signature check decides when everything is well formed.\<close>

definition sig_valid :: "('k, 'g) secp256k1_ops \<Rightarrow> bytes \<Rightarrow> bytes \<Rightarrow> bytes \<Rightarrow> bool" where
  "sig_valid S g key sg \<longleftrightarrow>
     (case (ec_pubkey_parse S key, ecdsa_signature_parse_der S sg) of
        (Some k, Some e) \<Rightarrow> ecdsa_verify S e g k
      | _ \<Rightarrow> False)"

lemma item_pubkey_ptr:
  assumes "key \<noteq> []" "length key \<le> 65"
  shows "item_pubkey S (ptr_item key) = Inr (map_option fresh_key (ec_pubkey_parse S key))"
  using assms
  by (auto simp: item_pubkey_def sd_ptr_null_def MAX_PUBKEY_DATA_LENGTH_def crypto_pubkey_import_def
      fresh_key_def split: option.split)

lemma import_sig:
  assumes "sg \<noteq> []"
  shows "attempt (crypto_signature_import S (Some sg))
    = Inr (map_option (\<lambda>e. \<lparr>ecsig = e, sig_der = []\<rparr>) (ecdsa_signature_parse_der S sg))"
  using assms by (auto simp: crypto_signature_import_def split: option.split)

lemma checksig_two:
  assumes "items_of s = Some (ptr_item key) # Some (ptr_item (sg @ [ht])) # r"
    and "key \<noteq> []" "length key \<le> 65" "sg \<noteq> []"
  shows "parse_op_checksigverify P S s =
    (case ec_pubkey_parse S key of
       None \<Rightarrow> Inr (with_items s (tl (items_of s)), True)
     | Some k \<Rightarrow>
         (case ecdsa_signature_parse_der S sg of
            None \<Rightarrow> Inr (with_items s r, True)
          | Some e \<Rightarrow> andThen (digest_for P (with_items s r) (ucast ht)) (\<lambda>(s3, digest).
              case digest of None \<Rightarrow> Inr (s3, False)
              | Some g \<Rightarrow> andThen (attempt (crypto_signature_export S \<lparr>ecsig = e, sig_der = []\<rparr>)) (\<lambda>der.
                  case der of None \<Rightarrow> Inr (s3, True)
                  | Some (_, der) \<Rightarrow> andThen (crypto_verify S g (fresh_key k) der) (\<lambda>ok. Inr (s3, ok))))))"
proof -
  have p1: "script_pop s = (Some (ptr_item key), with_items s (tl (items_of s)))"
    using assms(1) by (simp add: script_pop_def stack_pop_def with_items_def)
  have p2: "script_pop (with_items s (tl (items_of s))) = (Some (ptr_item (sg @ [ht])), with_items s r)"
    using assms(1) by (simp add: script_pop_items)
  have "\<not> length (items_of s) < 2" using assms(1) by simp
  then show ?thesis
    using assms(4) item_pubkey_ptr [OF assms(2,3), of S]
    by (simp add: parse_op_checksigverify_def p1 p2 sd_ptr_null_def import_sig digest_for_def Let_def
        split: option.split)
qed

lemma script_push_items:
  assumes "room s n" "0 < n + length (items_of s) - length r"
  shows "script_push (with_items s r) d = with_items s (Some d # r)"
  using stack_push_items [OF assms] by (simp add: script_push_def with_items_def)

lemma verify_reexported:
  assumes "secp256k1 S" "ecdsa_signature_parse_der S sg = Some e" "length g = 32"
  shows "\<exists>sig' der. crypto_signature_export S \<lparr>ecsig = e, sig_der = []\<rparr> = Inr (sig', der)
    \<and> crypto_verify S g (fresh_key k) der = Inr (ecdsa_verify S e g k)"
proof -
  obtain d where "ecdsa_signature_serialize_der S 100 e = Some d" "0 < length d"
      "ecdsa_signature_parse_der S d = Some e"
    using secp256k1.signature_der [OF assms(1), of 100 e] by auto
  then show ?thesis using assms(3)
    by (auto simp: crypto_signature_export_def crypto_verify_def fresh_key_def mem_read_def)
qed

lemma checksig_run:
  assumes "secp256k1 S" "items_of s = Some (ptr_item key) # Some (ptr_item (sg @ [ht])) # r" "room s 0"
    and "key \<noteq> []" "length key \<le> 65" "sg \<noteq> []"
    and "ec_pubkey_parse S key = Some k" "ecdsa_signature_parse_der S sg = Some e"
    and "digest_for P s (ucast ht) = Inr (raw_set s raw, Some g)" "length g = 32"
  shows "parse_op_checksig P S s
    = Inr (with_items (raw_set s raw) (Some (satoshi_script_data_new_boolean (sig_valid S g key sg)) # r), True)"
proof -
  obtain sig' der where e: "crypto_signature_export S \<lparr>ecsig = e, sig_der = []\<rparr> = Inr (sig', der)"
      "crypto_verify S g (fresh_key k) der = Inr (ecdsa_verify S e g k)"
    using verify_reexported [OF assms(1,8,10)] by blast
  have "room (raw_set s raw) 0" using assms(3) by simp
  then have p: "script_push (with_items (raw_set s raw) r) d = with_items (raw_set s raw) (Some d # r)" for d
    by (rule script_push_items) (simp add: assms(2))
  show ?thesis
    by (simp add: parse_op_checksig_def checksig_two [OF assms(2,4,5,6)] assms(7-9) digest_for_items e p sig_valid_def)
qed

lemma checksig_bad_signature:
  assumes "items_of s = Some (ptr_item key) # Some (ptr_item (sg @ [ht])) # r" "room s 0"
    and "key \<noteq> []" "length key \<le> 65" "sg \<noteq> []"
    and "ec_pubkey_parse S key = Some k" "ecdsa_signature_parse_der S sg = None"
  shows "parse_op_checksig P S s = Inr (with_items s (Some s_sdata_true # r), True)"
proof -
  have p: "script_push (with_items s r) d = with_items s (Some d # r)" for d
    using assms(2) by (rule script_push_items) (simp add: assms(1))
  show ?thesis
    by (simp add: parse_op_checksig_def checksig_two [OF assms(1,3,4,5)] assms(6,7) p satoshi_script_data_new_boolean_def)
qed

lemma checksig_bad_key:
  assumes "items_of s = Some (ptr_item key) # Some (ptr_item (sg @ [ht])) # r" "room s 0"
    and "key \<noteq> []" "length key \<le> 65" "sg \<noteq> []" "ec_pubkey_parse S key = None"
  shows "parse_op_checksig P S s = Inr (with_items s (Some s_sdata_true # Some (ptr_item (sg @ [ht])) # r), True)"
proof -
  have p: "script_push (with_items s (tl (items_of s))) d = with_items s (Some d # tl (items_of s))" for d
    using assms(2) by (rule script_push_items) (simp add: assms(1))
  show ?thesis
    using p assms(1)
    by (simp add: parse_op_checksig_def checksig_two [OF assms(1,3,4,5)] assms(6) satoshi_script_data_new_boolean_def)
qed

section \<open>Paying to a key hash\<close>

definition p2pkh_script :: "bytes \<Rightarrow> bytes" where
  "p2pkh_script h = [op_dup, op_hash160] @ push_code h @ [op_equalverify, op_checksig]"

lemma p2pkh_script_bytes: "length h = 20 \<Longrightarrow> p2pkh_script h = [op_dup, op_hash160, 20] @ h @ [op_equalverify, op_checksig]"
  by (simp add: p2pkh_script_def push_code_def)

lemma generate_p2pkh:
  assumes "length h = 20"
  shows "satoshi_script_generate_p2pkh_script h = Inr (mk_varstr (p2pkh_script h))"
proof -
  have "length (p2pkh_script h) = 25" using assms by (simp add: p2pkh_script_bytes)
  then show ?thesis using assms mk_varstr_short [of "p2pkh_script h"]
    by (simp add: satoshi_script_generate_p2pkh_script_def p2pkh_script_bytes)
qed

text \<open>The script up to the signature check.\<close>

lemma p2pkh_prefix:
  assumes "hash_provider P sha ripemd" "items_of s = Some (ptr_item key) # r" "room s 2"
    and "key \<noteq> []" "length h = 20"
  shows "script_loop P S False pos s (p2pkh_script h)
    = (if h = ripemd (sha key)
       then onward (parse_op_checksig P S s) (\<lambda>s1. Inr (s1, True))
       else Inr (s, False))"
proof -
  have len: "length (ripemd (sha key)) = 20" by (rule hash_provider.ripemd_length [OF assms(1)])
  have h: "h \<noteq> []" "length h \<le> 0xffff" using assms(5) by auto
  let ?s1 = "with_items s (Some (ptr_item key) # items_of s)"
  let ?s2 = "with_items s (Some (h160_item (ripemd (sha key))) # items_of s)"
  let ?s3 = "with_items s (Some (ptr_item h) # Some (h160_item (ripemd (sha key))) # items_of s)"
  have r1: "room s 1" and r2: "room ?s1 0" and r3: "room ?s2 1"
    using assms(3) by (simp_all add: room_with_items) (simp_all add: room_def sstack_room_def)
  have d: "script_step P S s op_dup q = Inr (?s1, True)" for q
    by (rule step_dup [OF assms(2,4) r1])
  have a: "script_step P S ?s1 op_hash160 q = Inr (?s2, True)" for q
    using step_hash160 [OF assms(1), of ?s1 key "items_of s"] r2 by simp
  have b: "script_push ?s2 (ptr_item h) = ?s3"
    using script_push_room [of ?s2 0] r3 by simp
  have c: "script_step P S ?s3 op_equalverify q = Inr (s, h = ripemd (sha key))" for q
    using step_equalverify [of ?s3 h "ripemd (sha key)" "items_of s"] assms(5) len by simp
  have e: "script_step P S s op_checksig q = parse_op_checksig P S s" for q
    by (simp add: script_step_def)
  show ?thesis
    by (simp add: p2pkh_script_def loop_step d a b c e loop_push_code [OF h] onward_def)
qed

lemma script_set_txin_simps [simp]:
  "main_stack (script_set_txin s t i) = main_stack s" "room (script_set_txin s t i) n = room s n"
  "txin_index (script_set_txin s t i) = txin_index s" "sc_digest (script_set_txin s t i) = sc_digest s"
  "sc_tx (script_set_txin s t i) = Some (t\<lparr>txins := (txins t)[nat (txin_index s) := i]\<rparr>)"
  "script_set_txin (with_items s xs) t i = with_items (script_set_txin s t i) xs"
  by (simp_all add: script_set_txin_def room_def with_items_def)

text \<open>The machine before an output script that is not a witness program is run for an input without
  witness data: the script becomes the redeem script of the input.\<close>

definition legacy_start :: "'c script \<Rightarrow> tx \<Rightarrow> bytes \<Rightarrow> 'c script" where
  "legacy_start s t code =
     script_set_txin (s\<lparr>sc_type := Type_txout\<rparr>) t
       ((txins t ! nat (txin_index s))\<lparr>redeem_scripts := Some (mk_varstr code)\<rparr>)"

definition plain_input :: "'c script \<Rightarrow> tx \<Rightarrow> bool" where
  "plain_input s t \<longleftrightarrow> sc_tx s = Some t \<and> 0 \<le> txin_index s \<and> txin_index s < int (length (txins t))
     \<and> \<not> is_p2sh (txins t ! nat (txin_index s)) \<and> redeem_scripts (txins t ! nat (txin_index s)) = None"

lemma legacy_start_simps [simp]:
  "main_stack (legacy_start s t code) = main_stack s" "room (legacy_start s t code) n = room s n"
  by (simp_all add: legacy_start_def room_def)

lemma parse_legacy_output:
  assumes "plain_input s t" "\<not> has_flag t" "code \<noteq> []" "16 < code ! 0" "length code < 2 ^ 62"
  shows "scripts_parse P S s Type_txout code = script_loop P S False None (legacy_start s t code) code"
proof -
  have v: "varstr_new (Some code) (of_nat (length code)) = Inr (mk_varstr code)"
    using varstr_new_some [OF assms(5), of "[]"] by simp
  have "0 < length (txins t)" using assms(1) by (auto simp: plain_input_def)
  then show ?thesis
    using assms v
    by (simp add: scripts_parse_def txout_scripts_pre_process_def plain_input_def input_witness_def Let_def legacy_start_def)
qed

text \<open>What the callers do with an output script: run it, then look at the top of the stack.\<close>

definition run_output :: "('c, 'd) hash_ops \<Rightarrow> ('k, 'g) secp256k1_ops \<Rightarrow> 'c script \<Rightarrow> bytes \<Rightarrow> 'c ret" where
  "run_output P S s code = onward (scripts_parse P S s Type_txout code) scripts_verify"

lemma boolean_item [simp]:
  "sd_kind (satoshi_script_data_new_boolean b) = SD_bool" "sd_b (satoshi_script_data_new_boolean b) = Inr (of_bool b)"
  by (simp_all add: satoshi_script_data_new_boolean_def s_sdata_true_def s_sdata_false_def sd_b_def
      sd_is_ptr_def mem_read_def)

lemma verify_boolean: "scripts_verify (with_items s (Some (satoshi_script_data_new_boolean b) # r)) = Inr (with_items s r, b)"
  by (simp add: scripts_verify_def script_pop_items)

lemma p2pkh_script_head:
  "p2pkh_script h \<noteq> []" "16 < p2pkh_script h ! 0" "length h = 20 \<Longrightarrow> length (p2pkh_script h) < 2 ^ 62"
  by (simp_all add: p2pkh_script_def push_code_def)

text \<open>C5. Spending a pay-to-key-hash output of a transaction without witness data, with a well-formed
  key and signature on the stack: it is accepted exactly when the key hashes to the hash in the
  script and the signature verifies for the transaction's digest, with the script as redeem script.\<close>

theorem p2pkh_spend:
  assumes "hash_provider P sha ripemd" "secp256k1 S" "plain_input s t" "\<not> has_flag t"
    and "items_of s = Some (ptr_item key) # Some (ptr_item (sg @ [ht])) # r" "room s 2"
    and "key \<noteq> []" "length key \<le> 65" "sg \<noteq> []" "length h = 20"
    and "ec_pubkey_parse S key = Some k" "ecdsa_signature_parse_der S sg = Some e"
    and "digest_for P (legacy_start s t (p2pkh_script h)) (ucast ht)
      = Inr (raw_set (legacy_start s t (p2pkh_script h)) raw, Some g)" "length g = 32"
  shows "\<exists>s'. run_output P S s (p2pkh_script h) = Inr (s', h = ripemd (sha key) \<and> sig_valid S g key sg)"
proof -
  let ?s = "legacy_start s t (p2pkh_script h)"
  have it: "items_of ?s = Some (ptr_item key) # Some (ptr_item (sg @ [ht])) # r" "room ?s 2" "room ?s 0"
    using assms(5,6) by (simp_all add: room_mono)
  have c: "parse_op_checksig P S ?s
      = Inr (with_items (raw_set ?s raw) (Some (satoshi_script_data_new_boolean (sig_valid S g key sg)) # r), True)"
    by (rule checksig_run [OF assms(2) it(1,3) assms(7-9,11-14)])
  define b where "b \<longleftrightarrow> h = ripemd (sha key)"
  have "script_loop P S False None ?s (p2pkh_script h)
      = (if b then onward (parse_op_checksig P S ?s) (\<lambda>s1. Inr (s1, True)) else Inr (?s, False))"
    unfolding b_def by (rule p2pkh_prefix [OF assms(1) it(1,2) assms(7,10)])
  with c have "\<exists>s'. run_output P S s (p2pkh_script h) = Inr (s', b \<and> sig_valid S g key sg)"
    by (simp add: run_output_def parse_legacy_output [OF assms(3,4) p2pkh_script_head(1,2) p2pkh_script_head(3) [OF assms(10)]]
        verify_boolean)
  then show ?thesis by (simp only: b_def)
qed

text \<open>A pay-to-key-hash output is also spent by bytes that are no signature at all, with the
  public key alone: when the signature does not parse, the check returns the code it started with,
  which is success.\<close>

theorem p2pkh_malformed_signature:
  assumes "hash_provider P sha ripemd" "plain_input s t" "\<not> has_flag t"
    and "items_of s = Some (ptr_item key) # Some (ptr_item (sg @ [ht])) # r" "room s 2"
    and "key \<noteq> []" "length key \<le> 65" "sg \<noteq> []"
    and "ec_pubkey_parse S key = Some k" "ecdsa_signature_parse_der S sg = None"
  shows "\<exists>s'. run_output P S s (p2pkh_script (ripemd (sha key))) = Inr (s', True)"
proof -
  have h: "length (ripemd (sha key)) = 20" by (rule hash_provider.ripemd_length [OF assms(1)])
  let ?s = "legacy_start s t (p2pkh_script (ripemd (sha key)))"
  have it: "items_of ?s = Some (ptr_item key) # Some (ptr_item (sg @ [ht])) # r" "room ?s 2" "room ?s 0"
    using assms(4,5) by (simp_all add: room_mono)
  have c: "parse_op_checksig P S ?s = Inr (with_items ?s (Some s_sdata_true # r), True)"
    by (rule checksig_bad_signature [OF it(1,3) assms(6-10)])
  have v: "scripts_verify (with_items ?s (Some s_sdata_true # r)) = Inr (with_items ?s r, True)"
    using verify_boolean [of ?s True r] by (simp add: satoshi_script_data_new_boolean_def)
  show ?thesis
    using p2pkh_prefix [OF assms(1) it(1,2) assms(6) h, of S None] c v
    by (simp add: run_output_def parse_legacy_output [OF assms(2,3) p2pkh_script_head(1,2) p2pkh_script_head(3) [OF h]])
qed

text \<open>A machine with a transaction of one empty input and a preset digest, for the examples.\<close>

definition example_legacy :: tx where
  "example_legacy = tx_zero\<lparr>txins := [txin_zero]\<rparr>"

definition example_machine :: "sdata option list \<Rightarrow> bytes script" where
  "example_machine xs =
     with_items ((satoshi_script_init [])\<lparr>sc_tx := Some example_legacy, sc_digest := Some (replicate 32 5)\<rparr>) xs"

definition example_key :: bytes where "example_key = 2 # replicate 32 9"
definition example_sig :: bytes where "example_sig = 0x30 # replicate 64 9"

lemma example_machine_facts:
  "items_of (example_machine xs) = xs" "plain_input (example_machine xs) example_legacy"
  "\<not> has_flag example_legacy" "length xs + n \<le> 64 \<Longrightarrow> room (example_machine xs) n"
  "sc_digest (example_machine xs) = Some (replicate 32 5)"
  by (simp_all add: example_machine_def plain_input_def example_legacy_def tx_zero_def txin_zero_def
      satoshi_script_init_def room_def sstack_room_def stack_init with_items_def)

lemma preset_digest:
  assumes "sc_digest s = Some g" "length g = 32"
  shows "digest_for P s ht = Inr (raw_set s (sc_rawtx s), Some g)"
  using assms by (simp add: digest_for_def mem_read_def raw_set_def)

lemma example_key_facts:
  "example_key \<noteq> []" "length example_key \<le> 65" "example_sig \<noteq> []"
  "ec_pubkey_parse toy_curve example_key = Some (toy_num (replicate 32 9))"
  "ecdsa_signature_parse_der toy_curve example_sig
    = Some (toy_num (replicate 64 9), toy_num (replicate 32 9))"
  by (simp_all add: example_key_def example_sig_def toy_curve_def)

theorem p2pkh_spend_witness:
  "\<exists>s'. run_output (recording_ops id id) toy_curve
      (example_machine [Some (ptr_item example_key), Some (ptr_item (example_sig @ [1]))])
      (p2pkh_script (fit 20 id (fit 32 id example_key)))
    = Inr (s', sig_valid toy_curve (replicate 32 5) example_key example_sig)"
proof -
  let ?m = "example_machine [Some (ptr_item example_key), Some (ptr_item (example_sig @ [1]))]"
  let ?h = "fit 20 id (fit 32 id example_key)"
  have d: "digest_for P (legacy_start ?m example_legacy c) ht
      = Inr (raw_set (legacy_start ?m example_legacy c) (sc_rawtx (legacy_start ?m example_legacy c)), Some (replicate 32 5))" for P c ht
    by (rule preset_digest) (simp_all add: legacy_start_def example_machine_facts)
  have "\<exists>s'. run_output (recording_ops id id) toy_curve ?m (p2pkh_script ?h)
      = Inr (s', ?h = fit 20 id (fit 32 id example_key) \<and> sig_valid toy_curve (replicate 32 5) example_key example_sig)"
    by (rule p2pkh_spend [OF recording.hash_provider_axioms toy.secp256k1_axioms example_machine_facts(2,3,1)
          example_machine_facts(4) example_key_facts(1,2,3) _ example_key_facts(4,5) d]) simp_all
  then show ?thesis by simp
qed

theorem p2pkh_malformed_signature_witness:
  "\<exists>s'. run_output (recording_ops id id) toy_curve
      (example_machine [Some (ptr_item example_key), Some (ptr_item ([7] @ [1]))])
      (p2pkh_script (fit 20 id (fit 32 id example_key))) = Inr (s', True)"
proof -
  have "ecdsa_signature_parse_der toy_curve [7] = None" by (simp add: toy_curve_def)
  then show ?thesis
    by (intro p2pkh_malformed_signature [OF recording.hash_provider_axioms example_machine_facts(2,3,1)
          example_machine_facts(4) example_key_facts(1,2) _ example_key_facts(4)]) simp_all
qed

section \<open>Witness data\<close>

lemma varstr_parts:
  assumes "length d < 2 ^ 62"
  shows "varstr_getdata_ptr (mk_varstr d) = Inr d" "varstr_length (mk_varstr d) = Inr (of_nat (length d))"
    "unat (of_nat (length d) :: u64) = length d" "sint (of_nat (length d) :: u64) = int (length d)"
  using assms
  by (simp_all add: mk_varstr_def varstr_getdata_ptr_def varstr_length_def sint_u64_of_nat unat_of_length)

text \<open>The non-empty items, the last one on top.\<close>

lemma push_witness_items_mk:
  assumes "room s (length ds)" "\<forall>d \<in> set ds. length d < 2 ^ 62"
  shows "push_witness_items s (map mk_varstr ds)
    = Inr (with_items s (rev (map (\<lambda>d. Some (ptr_item d)) (filter (\<lambda>d. d \<noteq> []) ds)) @ items_of s))"
  using assms
proof (induction ds arbitrary: s)
  case (Cons d ds)
  note p = varstr_parts [of d]
  have n0: "(of_nat (length d) :: u64) = 0 \<longleftrightarrow> d = []"
  proof -
    have "unat (of_nat (length d) :: u64) = length d" using p(3) Cons.prems(2) by simp
    moreover have "(of_nat (length d) :: u64) = 0 \<longleftrightarrow> unat (of_nat (length d) :: u64) = 0"
      by (rule unsigned_eq_0_iff [symmetric])
    ultimately show ?thesis by (simp only: length_0_conv)
  qed
  show ?case
  proof (cases "d = []")
    case True
    have "room s (length ds)" using Cons.prems(1) by (rule room_mono) simp
    with Cons.IH [of s] Cons.prems(2) True p n0 show ?thesis by simp
  next
    case False
    have "room s (Suc (length ds))" using Cons.prems(1) by simp
    note q = script_push_room [OF this, of "ptr_item d"]
    have "room (with_items s (Some (ptr_item d) # items_of s)) (length ds)"
      using Cons.prems(1) by (simp add: room_with_items) (simp add: room_def sstack_room_def)
    with Cons.IH [of "with_items s (Some (ptr_item d) # items_of s)"] Cons.prems(2)
    have ih: "push_witness_items (script_push s (ptr_item d)) (map mk_varstr ds)
      = Inr (with_items s (rev (map (\<lambda>d. Some (ptr_item d)) (filter (\<lambda>d. d \<noteq> []) ds)) @ Some (ptr_item d) # items_of s))"
      by (simp add: q o_def)
    have "satoshi_script_data_new SD_pointer (Some d) (length d) = Inr (ptr_item d)"
      using new_pointer [of d "[]"] by simp
    with ih False n0 show ?thesis using p Cons.prems(2) by simp
  qed
qed simp

text \<open>Running the program of a key hash.\<close>

lemma run_key_hash:
  assumes "plain_input s t" "length h = 20"
  shows "run_key_hash_program P S s h
    = andThen (script_loop P S False (Some 0)
        ((script_set_txin s t
          ((txins t ! nat (txin_index s))\<lparr>redeem_scripts := Some (mk_varstr (p2pkh_script h))\<rparr>))
            \<lparr>sc_type := Type_unknown\<rparr>) (p2pkh_script h))
        (\<lambda>(s1, ok). if ok then Inr (s1, True) else Inl Abort)"
proof -
  have "length (p2pkh_script h) < 2 ^ 62" using assms(2) by (rule p2pkh_script_head(3))
  note p = varstr_parts [OF this]
  show ?thesis
    using assms(1) p
    by (simp add: run_key_hash_program_def plain_input_def generate_p2pkh [OF assms(2)] mem_read_def
        scripts_parse_plain_def p2pkh_script_head script_set_txin_def)
qed

definition witness_program :: "bytes \<Rightarrow> bytes" where
  "witness_program h = [0, of_nat (length h)] @ h"

definition p2sh_script :: "bytes \<Rightarrow> bytes" where
  "p2sh_script h = [op_hash160] @ push_code h @ [op_equal]"

lemma segwit_key_hash:
  assumes "length h = 20"
  shows "parse_segwit_script P S s (witness_program h) = run_key_hash_program P S s h"
  using assms by (simp add: parse_segwit_script_def witness_program_def)

lemma p2sh_run:
  assumes "hash_provider P sha ripemd" "items_of s = Some (ptr_item d) # r" "room s 1" "length h = 20"
  shows "script_loop P S False pos s (p2sh_script h)
    = Inr (with_items s (Some (satoshi_script_data_new_boolean (h = ripemd (sha d))) # r), True)"
proof -
  have len: "length (ripemd (sha d)) = 20" by (rule hash_provider.ripemd_length [OF assms(1)])
  have h: "h \<noteq> []" "length h \<le> 0xffff" using assms(4) by auto
  let ?s1 = "with_items s (Some (h160_item (ripemd (sha d))) # r)"
  let ?s2 = "with_items s (Some (ptr_item h) # Some (h160_item (ripemd (sha d))) # r)"
  have r: "room s 0" "room ?s1 1" "room ?s2 0"
    using assms(2,3) by (simp_all add: room_with_items) (simp_all add: room_def sstack_room_def)
  have a: "script_step P S s op_hash160 q = Inr (?s1, True)" for q
    by (rule step_hash160 [OF assms(1,2) r(1)])
  have b: "script_push ?s1 (ptr_item h) = ?s2" using script_push_room [of ?s1 0] r(2) by simp
  have c: "script_step P S ?s2 op_equal q
      = Inr (with_items s (Some (satoshi_script_data_new_boolean (h = ripemd (sha d))) # r), True)" for q
    using step_equal [of ?s2 h "ripemd (sha d)" r] assms(4) len r(3) by simp
  show ?thesis by (simp add: p2sh_script_def loop_step a b c loop_push_code [OF h])
qed

text \<open>The machine before the program of a key hash inside a script hash is run.\<close>

definition nested_start :: "'c script \<Rightarrow> tx \<Rightarrow> txout \<Rightarrow> bytes \<Rightarrow> 'c script" where
  "nested_start s t u h =
     (script_set_txin
        (s\<lparr>sc_type := Type_txout,
           sc_utxo := Some (u\<lparr>txout_flags := txout_flags u OR txout_type_p2sh_segwit_flags\<rparr>)\<rparr>) t
        ((txins t ! nat (txin_index s))\<lparr>redeem_scripts := Some (mk_varstr (p2pkh_script h))\<rparr>))
     \<lparr>sc_type := Type_unknown\<rparr>"

lemma nested_start_simps [simp]:
  "main_stack (nested_start s t u h) = main_stack s" "room (nested_start s t u h) n = room s n"
  by (simp_all add: nested_start_def room_def)

lemma input_witness_at:
  assumes "has_flag t" "witnesses t = Some ws" "i < length ws" "ws ! i = \<lparr>num_items = of_nat (length vs), items = vs\<rparr>"
    and "vs \<noteq> []" "length vs < 2 ^ 62"
  shows "input_witness t i = Inr (Some vs)"
  using assms by (simp add: input_witness_def sint_u64_of_nat unat_of_length)

lemma key_hash_program_run:
  assumes "hash_provider P sha ripemd" "secp256k1 S" "h = ripemd (sha key)"
    and "items_of q = Some (ptr_item key) # Some (ptr_item (sg @ [ht])) # r" "room q 2"
    and "key \<noteq> []" "length key \<le> 65" "sg \<noteq> []"
    and "ec_pubkey_parse S key = Some k" "ecdsa_signature_parse_der S sg = Some e"
    and "digest_for P q (ucast ht) = Inr (raw_set q raw, Some g)" "length g = 32"
  shows "script_loop P S False pos q (p2pkh_script h)
    = Inr (with_items (raw_set q raw) (Some (satoshi_script_data_new_boolean (sig_valid S g key sg)) # r), True)"
proof -
  have h: "length h = 20" using hash_provider.ripemd_length [OF assms(1)] assms(3) by simp
  have "parse_op_checksig P S q
      = Inr (with_items (raw_set q raw) (Some (satoshi_script_data_new_boolean (sig_valid S g key sg)) # r), True)"
    by (rule checksig_run [OF assms(2,4) room_mono [OF assms(5)] assms(6-12)]) simp
  with p2pkh_prefix [OF assms(1,4,5,6) h, of S pos] assms(3) show ?thesis by simp
qed

text \<open>C39. A script-hash output around the witness program of a key hash is spent by any well-formed
  signature with the right public key: what the signature check leaves on the stack is dropped, so
  the outcome is success whether or not the signature verifies.\<close>

theorem p2sh_p2wpkh_any_signature:
  assumes "hash_provider P sha ripemd" "secp256k1 S" "plain_input s t" "has_flag t"
    and "witnesses t = Some ws" "nat (txin_index s) < length ws"
    and "ws ! nat (txin_index s) = \<lparr>num_items = 2, items = [mk_varstr (sg @ [ht]), mk_varstr key]\<rparr>"
    and "sc_utxo s = Some u" "items_of s = Some (ptr_item (witness_program h)) # r" "room s 3"
    and "key \<noteq> []" "length key \<le> 65" "sg \<noteq> []" "length sg < 100" "h = ripemd (sha key)"
    and "ec_pubkey_parse S key = Some k" "ecdsa_signature_parse_der S sg = Some e"
    and "digest_for P (nested_start s t u h) (ucast ht) = Inr (raw_set (nested_start s t u h) raw, Some g)"
    and "length g = 32"
  shows "\<exists>s'. run_output P S s (p2sh_script (ripemd (sha (witness_program h)))) = Inr (s', True)"
proof -
  let ?wp = "witness_program h" and ?sc = "p2sh_script (ripemd (sha (witness_program h)))"
  let ?u = "Some (u\<lparr>txout_flags := txout_flags u OR txout_type_p2sh_segwit_flags\<rparr>)"
  let ?s1 = "s\<lparr>sc_type := Type_txout, sc_utxo := ?u\<rparr>"
  let ?its = "Some (ptr_item key) # Some (ptr_item (sg @ [ht])) # r"
  let ?q = "with_items (nested_start s t u h) ?its"
  have len: "length h = 20" "length (ripemd (sha ?wp)) = 20"
    using hash_provider.ripemd_length [OF assms(1)] assms(15) by simp_all
  have wp: "length ?wp = 22" "?wp \<noteq> []" using len by (simp_all add: witness_program_def)
  have "input_witness t (nat (txin_index s)) = Inr (Some [mk_varstr (sg @ [ht]), mk_varstr key])"
    by (rule input_witness_at [OF assms(4-6)]) (simp_all add: assms(7))
  note wit = this
  have pop: "script_pop ?s1 = (Some (ptr_item ?wp), with_items ?s1 r)"
    using assms(9) by (simp add: script_pop_def stack_pop_def with_items_def)
  have push: "push_witness_items (with_items ?s1 r) [mk_varstr (sg @ [ht]), mk_varstr key] = Inr (with_items ?s1 ?its)"
  proof -
    have "room (with_items ?s1 r) (length [sg @ [ht], key])"
      using assms(9,10) by (simp add: room_with_items) (simp add: room_def sstack_room_def)
    from push_witness_items_mk [OF this] assms(11-14) show ?thesis by simp
  qed
  have prog: "parse_segwit_script P S (with_items ?s1 ?its) ?wp
      = Inr (with_items (raw_set (nested_start s t u h) raw) (Some (satoshi_script_data_new_boolean (sig_valid S g key sg)) # r), True)"
  proof -
    have pl: "plain_input (with_items ?s1 ?its) t" using assms(3) by (simp add: plain_input_def with_items_def)
    have "(script_set_txin (with_items ?s1 ?its) t
          ((txins t ! nat (txin_index (with_items ?s1 ?its)))\<lparr>redeem_scripts := Some (mk_varstr (p2pkh_script h))\<rparr>))
            \<lparr>sc_type := Type_unknown\<rparr> = ?q"
      by (simp add: nested_start_def with_items_def script_set_txin_def)
    moreover have "room ?q 2"
      using assms(9,10) by (simp add: room_with_items) (simp add: room_def sstack_room_def)
    moreover have "digest_for P ?q (ucast ht) = Inr (raw_set ?q raw, Some g)"
      using assms(18) by (simp add: digest_for_items)
    ultimately show ?thesis
      using key_hash_program_run [OF assms(1,2,15), of ?q sg ht r k e raw g "Some 0"] assms(11-13,16,17,19)
      by (simp add: segwit_key_hash [OF len(1)] run_key_hash [OF pl len(1)])
  qed
  have pre: "txout_scripts_pre_process P S (s\<lparr>sc_type := Type_txout\<rparr>) ?sc
      = Inr (with_items (raw_set (nested_start s t u h) raw) (Some (ptr_item ?wp) # r), Some ?sc)"
  proof -
    have "?sc \<noteq> []" "16 < ?sc ! 0" by (simp_all add: p2sh_script_def)
    moreover have "0 < length (txins t)" using assms(3) by (auto simp: plain_input_def)
    moreover have "script_push (with_items (raw_set (nested_start s t u h) raw) r) (ptr_item ?wp)
        = with_items (raw_set (nested_start s t u h) raw) (Some (ptr_item ?wp) # r)"
      by (rule script_push_items [where n = 0]) (use assms(9,10) in \<open>simp_all add: room_mono\<close>)
    ultimately show ?thesis
      using assms(3,8,9) wit pop push prog wp
      by (simp add: txout_scripts_pre_process_def plain_input_def Let_def sd_ptr_null_def script_pop_items)
  qed
  have "room (with_items (raw_set (nested_start s t u h) raw) (Some (ptr_item ?wp) # r)) 1"
    using assms(9,10) by (simp add: room_with_items raw_set_def) (simp add: room_def sstack_room_def)
  from p2sh_run [OF assms(1) _ this len(2), of ?wp r S None] pre
  show ?thesis
    by (simp add: run_output_def scripts_parse_def p2sh_script_def verify_boolean)
qed

lemma toy_num_inj: "length a = 32 \<Longrightarrow> length b = 32 \<Longrightarrow> toy_num a = toy_num b \<Longrightarrow> a = b"
proof -
  assume len: "length a = 32" "length b = 32" and eq: "toy_num a = toy_num b"
  have "unat (toy_num c) = le_val c" if "length c = 32" for c
  proof -
    have "le_val c < 2 ^ 256" using le_val_lt [of c] that by simp
    then show ?thesis using that by (simp add: toy_num_def unat_of_nat)
  qed
  then have "le_val a = le_val b" using len eq by metis
  then show "a = b" using le_val_inj len by metis
qed

definition example_nested :: tx where
  "example_nested = tx_zero\<lparr>has_flag := True, txins := [txin_zero],
     witnesses := Some [\<lparr>num_items = 2, items = [mk_varstr (example_sig @ [1]), mk_varstr example_key]\<rparr>]\<rparr>"

definition example_nested_machine :: "sdata option list \<Rightarrow> bytes script" where
  "example_nested_machine xs =
     with_items ((satoshi_script_init [])\<lparr>sc_tx := Some example_nested, sc_digest := Some (replicate 32 5),
       sc_utxo := Some txout_zero\<rparr>) xs"

lemma example_sig_invalid: "\<not> sig_valid toy_curve (replicate 32 5) example_key example_sig"
proof
  assume "sig_valid toy_curve (replicate 32 5) example_key example_sig"
  then have "(toy_num (replicate 64 9), toy_num (replicate 32 9)) = (toy_num (replicate 32 9), toy_num (replicate 32 5))"
    by (simp add: sig_valid_def example_key_facts) (simp add: toy_curve_def)
  then have "toy_num (replicate 32 9) = toy_num (replicate 32 5)" by simp
  from toy_num_inj [OF _ _ this] have "replicate 32 (9 :: byte) = replicate 32 5" by simp
  then show False by (simp add: replicate_eq_replicate)
qed

theorem p2sh_p2wpkh_any_signature_witness:
  "\<not> sig_valid toy_curve (replicate 32 5) example_key example_sig
    \<and> (\<exists>s'. run_output (recording_ops id id) toy_curve
        (example_nested_machine [Some (ptr_item (witness_program (fit 20 id (fit 32 id example_key))))])
        (p2sh_script (fit 20 id (fit 32 id (witness_program (fit 20 id (fit 32 id example_key))))))
      = Inr (s', True))"
proof
  let ?h = "fit 20 id (fit 32 id example_key)"
  let ?m = "example_nested_machine [Some (ptr_item (witness_program ?h))]"
  have m: "plain_input ?m example_nested" "has_flag example_nested" "sc_utxo ?m = Some txout_zero"
      "items_of ?m = [Some (ptr_item (witness_program ?h))]" "room ?m 3" "txin_index ?m = 0"
      "sc_digest ?m = Some (replicate 32 5)"
    by (simp_all add: example_nested_machine_def plain_input_def example_nested_def tx_zero_def txin_zero_def
        satoshi_script_init_def room_def sstack_room_def stack_init with_items_def)
  have d: "digest_for P (nested_start ?m example_nested txout_zero ?h) ht
      = Inr (raw_set (nested_start ?m example_nested txout_zero ?h)
          (sc_rawtx (nested_start ?m example_nested txout_zero ?h)), Some (replicate 32 5))" for P ht
    by (rule preset_digest) (simp_all add: nested_start_def m)
  have w: "witnesses example_nested = Some [\<lparr>num_items = 2, items = [mk_varstr (example_sig @ [1]), mk_varstr example_key]\<rparr>]"
    by (simp add: example_nested_def)
  show "\<exists>s'. run_output (recording_ops id id) toy_curve ?m
      (p2sh_script (fit 20 id (fit 32 id (witness_program ?h)))) = Inr (s', True)"
    by (rule p2sh_p2wpkh_any_signature [OF recording.hash_provider_axioms toy.secp256k1_axioms m(1,2) w _ _ m(3-5)
          example_key_facts(1,2,3) _ refl example_key_facts(4,5) d])
      (simp_all add: m(6) example_sig_def)
qed (rule example_sig_invalid)

section \<open>Multiple signatures\<close>

text \<open>
  The number of signatures that find a key. A signature takes the first key from the current one on
  that it verifies under, and that key stays the current one.
\<close>

fun matched :: "('g \<Rightarrow> 'k \<Rightarrow> bool) \<Rightarrow> 'g list \<Rightarrow> 'k list \<Rightarrow> nat" where
  "matched V [] ks = 0"
| "matched V (x # xs) ks =
     (case dropWhile (\<lambda>k. \<not> V x k) ks of [] \<Rightarrow> matched V xs [] | k # ks' \<Rightarrow> Suc (matched V xs (k # ks')))"

lemma matched_nil [simp]: "matched V xs [] = 0"
  by (induction xs) simp_all

lemma matched_le: "matched V xs ks \<le> length xs"
  by (induction V xs ks rule: matched.induct) (auto split: list.split)

text \<open>All signatures find a key exactly when keys can be assigned to them in ascending order,
  repetitions allowed.\<close>

definition ascending :: "('g \<Rightarrow> 'k \<Rightarrow> bool) \<Rightarrow> 'g list \<Rightarrow> 'k list \<Rightarrow> bool" where
  "ascending V xs ks \<longleftrightarrow>
     (\<exists>f. (\<forall>i < length xs. f i < length ks \<and> V (xs ! i) (ks ! f i)) \<and> (\<forall>i. Suc i < length xs \<longrightarrow> f i \<le> f (Suc i)))"

lemma ascending_step:
  assumes "n < length ks" "V x (ks ! n)" "\<And>j. j < n \<Longrightarrow> \<not> V x (ks ! j)"
  shows "ascending V (x # xs) ks \<longleftrightarrow> ascending V xs (drop n ks)"
proof
  assume "ascending V xs (drop n ks)"
  then obtain f where f: "\<forall>i < length xs. f i < length (drop n ks) \<and> V (xs ! i) (drop n ks ! f i)"
    "\<forall>i. Suc i < length xs \<longrightarrow> f i \<le> f (Suc i)" by (auto simp: ascending_def)
  define g where "g i = (case i of 0 \<Rightarrow> n | Suc j \<Rightarrow> n + f j)" for i
  have "\<forall>i < length (x # xs). g i < length ks \<and> V ((x # xs) ! i) (ks ! g i)"
    using f(1) assms(1,2) by (auto simp: g_def nth_Cons split: nat.split)
  moreover have "\<forall>i. Suc i < length (x # xs) \<longrightarrow> g i \<le> g (Suc i)"
    using f(2) by (auto simp: g_def split: nat.split)
  ultimately show "ascending V (x # xs) ks" unfolding ascending_def by blast
next
  assume "ascending V (x # xs) ks"
  then obtain g where g: "\<forall>i < length (x # xs). g i < length ks \<and> V ((x # xs) ! i) (ks ! g i)"
    "\<forall>i. Suc i < length (x # xs) \<longrightarrow> g i \<le> g (Suc i)" unfolding ascending_def by blast
  have "V x (ks ! g 0)" using g(1) by force
  with assms(3) have g0: "n \<le> g 0" by (meson not_le)
  have ge: "i < length (x # xs) \<Longrightarrow> n \<le> g i" for i
  proof (induction i)
    case (Suc i) then show ?case using g(2) by (meson Suc_lessD le_trans)
  qed (use g0 in simp)
  have "\<forall>i < length xs. g (Suc i) - n < length (drop n ks) \<and> V (xs ! i) (drop n ks ! (g (Suc i) - n))"
  proof (intro allI impI)
    fix i assume i: "i < length xs"
    then have "g (Suc i) < length ks \<and> V (xs ! i) (ks ! g (Suc i))" "n \<le> g (Suc i)"
      using g(1) ge [of "Suc i"] by auto
    then show "g (Suc i) - n < length (drop n ks) \<and> V (xs ! i) (drop n ks ! (g (Suc i) - n))"
      by (simp add: diff_less_mono)
  qed
  moreover have "\<forall>i. Suc i < length xs \<longrightarrow> g (Suc i) - n \<le> g (Suc (Suc i)) - n"
    using g(2) by (simp add: diff_le_mono)
  ultimately show "ascending V xs (drop n ks)"
    unfolding ascending_def by (intro exI [of _ "\<lambda>i. g (Suc i) - n"]) simp
qed

lemma matched_all: "matched V xs ks = length xs \<longleftrightarrow> ascending V xs ks"
proof (induction xs arbitrary: ks)
  case Nil
  then show ?case by (simp add: ascending_def)
next
  case (Cons x xs)
  let ?n = "length (takeWhile (\<lambda>k. \<not> V x k) ks)"
  have drop: "dropWhile (\<lambda>k. \<not> V x k) ks = drop ?n ks" by (rule dropWhile_eq_drop)
  show ?case
  proof (cases "?n < length ks")
    case False
    then have d: "dropWhile (\<lambda>k. \<not> V x k) ks = []" using drop by simp
    then have "\<forall>k \<in> set ks. \<not> V x k" by (simp add: dropWhile_eq_Nil_conv)
    then have "\<not> ascending V (x # xs) ks" using nth_mem by (fastforce simp: ascending_def)
    moreover have "matched V (x # xs) ks = 0" by (simp only: matched.simps d list.case matched_nil)
    ultimately show ?thesis by simp
  next
    case True
    have hit: "V x (ks ! ?n)" using nth_length_takeWhile [OF True] by simp
    have miss: "\<not> V x (ks ! j)" if "j < ?n" for j
      using set_takeWhileD [OF nth_mem [OF that]] takeWhile_nth [OF that] by simp
    obtain k ks' where d: "drop ?n ks = k # ks'" using True by (cases "drop ?n ks") auto
    have "matched V (x # xs) ks = length (x # xs) \<longleftrightarrow> matched V xs (drop ?n ks) = length xs" using drop d by simp
    moreover have "ascending V (x # xs) ks \<longleftrightarrow> ascending V xs (drop ?n ks)"
      by (rule ascending_step [of ?n ks V x]) (use True hit miss in auto)
    ultimately show ?thesis using Cons.IH [of "drop ?n ks"] by simp
  qed
qed

text \<open>Popping the keys.\<close>

lemma multisig_keys_run:
  assumes "list_all2 (\<lambda>d k. (length d = 33 \<or> length d = 65) \<and> ec_pubkey_parse S d = Some k) ds ks"
  shows "multisig_keys S (length ds) (with_items s (map (\<lambda>d. Some (ptr_item d)) ds @ r))
    = Inr (with_items s r, Some (map fresh_key ks))"
  using assms
proof (induction ds ks rule: list_all2_induct)
  case (Cons d ds k ks)
  have "d \<noteq> []" "length d \<le> 65" using Cons(1) by auto
  from item_pubkey_ptr [OF this, of S] Cons show ?case
    by (auto simp: script_pop_items)
qed simp

lemma multisig_find_run:
  assumes "secp256k1 S" "ecdsa_signature_parse_der S sg = Some e" "length g = 32"
  shows "\<exists>sig' der. crypto_signature_export S \<lparr>ecsig = e, sig_der = []\<rparr> = Inr (sig', der)
    \<and> (\<forall>ks. multisig_find S (Some g) der (map fresh_key ks)
      = Inr (map fresh_key (dropWhile (\<lambda>k. \<not> ecdsa_verify S e g k) ks), \<exists>k \<in> set ks. ecdsa_verify S e g k))"
proof -
  obtain d where d: "ecdsa_signature_serialize_der S 100 e = Some d" "0 < length d"
      "ecdsa_signature_parse_der S d = Some e"
    using secp256k1.signature_der [OF assms(1), of 100 e] by auto
  have v: "crypto_verify S g (fresh_key k) d = Inr (ecdsa_verify S e g k)" for k
    using d assms(3) by (auto simp: crypto_verify_def fresh_key_def mem_read_def)
  have "multisig_find S (Some g) d (map fresh_key ks)
      = Inr (map fresh_key (dropWhile (\<lambda>k. \<not> ecdsa_verify S e g k) ks), \<exists>k \<in> set ks. ecdsa_verify S e g k)" for ks
    by (induction ks) (simp_all add: v)
  moreover have "crypto_signature_export S \<lparr>ecsig = e, sig_der = []\<rparr> = Inr (\<lparr>ecsig = e, sig_der = d\<rparr>, d)"
    using d by (auto simp: crypto_signature_export_def)
  ultimately show ?thesis by blast
qed

lemma multisig_sigs_run:
  assumes "secp256k1 S" "length g = 32"
    and "list_all2 (\<lambda>d e. d \<noteq> [] \<and> ecdsa_signature_parse_der S d = Some e) sgs es"
  shows "multisig_sigs P S (length sgs) (with_items s (map (\<lambda>d. Some (ptr_item (d @ [ht]))) sgs @ r))
      (map fresh_key ks) (ucast ht) (Some g) rc v
    = Inr (with_items s r, Inr (v + matched (\<lambda>e k. ecdsa_verify S e g k) es ks))"
  using assms(3)
proof (induction sgs es arbitrary: ks rc v rule: list_all2_induct)
  case (Cons d sgs e es)
  note hd = Cons(1) and ih = Cons(3)
  let ?V = "\<lambda>e k. ecdsa_verify S e g k"
  let ?ks = "dropWhile (\<lambda>k. \<not> ?V e k) ks" and ?ok = "\<exists>k \<in> set ks. ?V e k"
  obtain sig' der where x: "crypto_signature_export S \<lparr>ecsig = e, sig_der = []\<rparr> = Inr (sig', der)"
      "multisig_find S (Some g) der (map fresh_key ks) = Inr (map fresh_key ?ks, ?ok)"
    using multisig_find_run [OF assms(1) conjunct2 [OF hd] assms(2)] by blast
  have i: "attempt (crypto_signature_import S (Some d)) = Inr (Some \<lparr>ecsig = e, sig_der = []\<rparr>)"
    using import_sig [of d S] hd by simp
  have step: "multisig_sigs P S (length (d # sgs)) (with_items s (map (\<lambda>d. Some (ptr_item (d @ [ht]))) (d # sgs) @ r))
      (map fresh_key ks) (ucast ht) (Some g) rc v
    = multisig_sigs P S (length sgs) (with_items s (map (\<lambda>d. Some (ptr_item (d @ [ht]))) sgs @ r))
      (map fresh_key ?ks) (ucast ht) (Some g) ?ok (if ?ok then Suc v else v)"
    by (simp add: script_pop_items Let_def i x del: bex_simps ball_simps)
  have "(if ?ok then Suc v else v) + matched ?V es ?ks = v + matched ?V (e # es) ks"
  proof (cases ?ks)
    case Nil
    then have nok: "\<not> ?ok" by (simp add: dropWhile_eq_Nil_conv)
    have m: "matched ?V (e # es) ks = 0" "matched ?V es ?ks = 0"
      by (simp_all only: matched.simps Nil list.case matched_nil)
    show ?thesis by (simp only: if_not_P [OF nok] m)
  next
    case (Cons k ks')
    then have ok: "?ok" by (metis dropWhile_eq_Nil_conv list.discI)
    have m: "matched ?V (e # es) ks = Suc (matched ?V es ?ks)" by (simp only: matched.simps Cons list.case)
    show ?thesis by (simp only: if_P [OF ok] m add_Suc add_Suc_right)
  qed
  with step ih [of ?ks ?ok "if ?ok then Suc v else v"] show ?case by (simp only:)
qed simp

lemma script_digest_items:
  "script_get_digest P (with_items s xs) ht = andThen (script_get_digest P s ht) (\<lambda>(s', d). Inr (with_items s' xs, d))"
  by (simp add: script_get_digest_def with_items_def andThen_def split: option.split sum.split prod.split)

text \<open>The first signature has the digest computed, the following ones reuse it.\<close>

lemma multisig_first:
  assumes "secp256k1 S" "ht \<noteq> 0" "d \<noteq> []" "ecdsa_signature_parse_der S d = Some e"
    and "script_get_digest P s (ucast ht) = Inr (raw_set s raw, Some g)"
  shows "multisig_sigs P S (Suc n) (with_items s (Some (ptr_item (d @ [ht])) # r)) keys 0 None False 0
    = multisig_sigs P S (Suc n) (with_items (raw_set s raw) (Some (ptr_item (d @ [ht])) # r)) keys
        (ucast ht) (Some g) False 0"
proof -
  have "(ucast ht :: u32) \<noteq> 0"
  proof
    assume "(ucast ht :: u32) = 0"
    then have "unat (ucast ht :: u32) = 0" by simp
    moreover have "unat ht < 2 ^ 8" using unsigned_less [of ht, where 'a = nat] by simp
    then have "unat ht mod 2 ^ 32 = unat ht" by (intro mod_less) (erule less_le_trans, simp)
    ultimately have "unat ht = 0" by (simp add: unsigned_ucast_eq take_bit_eq_mod)
    then show False using assms(2) by (simp add: unsigned_eq_0_iff)
  qed
  moreover have "attempt (crypto_signature_import S (Some d)) = Inr (Some \<lparr>ecsig = e, sig_der = []\<rparr>)"
    using import_sig [OF assms(3), of S] assms(4) by simp
  moreover obtain d' where "crypto_signature_export S \<lparr>ecsig = e, sig_der = []\<rparr> = Inr (\<lparr>ecsig = e, sig_der = d'\<rparr>, d')"
  proof -
    obtain d' where "ecdsa_signature_serialize_der S 100 e = Some d'" "0 < length d'"
      using secp256k1.signature_der [OF assms(1), of 100 e] by auto
    then show ?thesis using that by (auto simp: crypto_signature_export_def)
  qed
  ultimately show ?thesis using assms(5)
    by (simp add: script_pop_items script_digest_items Let_def)
qed

lemma u8_item_b: "n \<le> 16 \<Longrightarrow> sd_b (u8_item (of_nat n)) = Inr (int n)"
proof -
  assume n: "n \<le> 16"
  then have "sint (of_nat n :: byte) = int n"
    by (simp add: sint_uint unat_of_nat signed_take_bit_eq_if_positive uint_nat not_le
        bit_iff_odd take_bit_eq_mod)
  then show ?thesis by (simp add: sd_b_def u8_item_def sdata_zero_def sd_is_ptr_def mem_read_def)
qed

lemma checkmultisig_run:
  assumes "secp256k1 S"
    and "list_all2 (\<lambda>d k. (length d = 33 \<or> length d = 65) \<and> ec_pubkey_parse S d = Some k) ds ks"
    and "list_all2 (\<lambda>d e. d \<noteq> [] \<and> ecdsa_signature_parse_der S d = Some e) sgs es"
    and "length ds \<le> 16" "sgs \<noteq> []" "length sgs \<le> length ds" "ht \<noteq> 0" "room s 0"
    and "items_of s = Some (u8_item (of_nat (length ds))) # map (\<lambda>d. Some (ptr_item d)) ds
      @ Some (u8_item (of_nat (length sgs))) # map (\<lambda>d. Some (ptr_item (d @ [ht]))) sgs @ r"
    and "script_get_digest P s (ucast ht) = Inr (raw_set s raw, Some g)" "length g = 32"
  shows "parse_op_checkmultisig P S s = Inr (with_items (raw_set s raw)
      (Some (satoshi_script_data_new_boolean (ascending (\<lambda>e k. ecdsa_verify S e g k) es ks)) # r), True)"
proof -
  let ?sig = "map (\<lambda>d. Some (ptr_item (d @ [ht]))) sgs @ r"
  let ?rest = "Some (u8_item (of_nat (length sgs))) # ?sig"
  let ?V = "\<lambda>e k. ecdsa_verify S e g k"
  have pop: "script_pop s = (Some (u8_item (of_nat (length ds))), with_items s (map (\<lambda>d. Some (ptr_item d)) ds @ ?rest))"
    using script_pop_items [of s "Some (u8_item (of_nat (length ds)))"] assms(9) by (metis with_items_simps(3))
  have n: "sd_b (u8_item (of_nat (length ds))) = Inr (int (length ds))"
      "sd_b (u8_item (of_nat (length sgs))) = Inr (int (length sgs))"
    using assms(4,6) by (simp_all add: u8_item_b)
  obtain d sgs' e where sg: "sgs = d # sgs'" "d \<noteq> []" "ecdsa_signature_parse_der S d = Some e"
    using assms(3,5) by (cases sgs; cases es) auto
  have sigs: "multisig_sigs P S (length sgs) (with_items s ?sig) (map fresh_key ks) 0 None False 0
      = Inr (with_items (raw_set s raw) r, Inr (matched ?V es ks))"
    using multisig_first [OF assms(1,7) sg(2,3) assms(10)]
      multisig_sigs_run [OF assms(1,11,3), of P "raw_set s raw" ht r ks False 0]
    by (simp add: sg(1))
  have "length es = length sgs" using assms(3) by (simp add: list_all2_lengthD)
  then have m: "matched ?V es ks = length sgs \<longleftrightarrow> ascending ?V es ks"
    using matched_all [of ?V es ks] by simp
  have "room (raw_set s raw) 0" using assms(8) by simp
  then have push: "script_push (with_items (raw_set s raw) r) x = with_items (raw_set s raw) (Some x # r)" for x
    by (rule script_push_items) (simp add: assms(9))
  have "ds \<noteq> []" using assms(5,6) by (cases sgs) auto
  then show ?thesis
    using assms(4,6) sigs multisig_keys_run [OF assms(2), of s ?rest]
    by (simp add: parse_op_checkmultisig_def pop n script_pop_items m push)
qed

text \<open>C16. For well-formed keys and signatures with a common non-zero hash type, the multiple-signature
  check pushes true exactly when the signatures can be assigned keys in ascending order, each
  verifying the transaction's digest; one key may be assigned to several signatures.\<close>

theorem checkmultisig_decides:
  assumes "secp256k1 S"
    and "list_all2 (\<lambda>d k. (length d = 33 \<or> length d = 65) \<and> ec_pubkey_parse S d = Some k) ds ks"
    and "list_all2 (\<lambda>d e. d \<noteq> [] \<and> ecdsa_signature_parse_der S d = Some e) sgs es"
    and "length ds \<le> 16" "sgs \<noteq> []" "length sgs \<le> length ds" "ht \<noteq> 0" "room s 0"
    and "items_of s = Some (u8_item (of_nat (length ds))) # map (\<lambda>d. Some (ptr_item d)) ds
      @ Some (u8_item (of_nat (length sgs))) # map (\<lambda>d. Some (ptr_item (d @ [ht]))) sgs @ r"
    and "script_get_digest P s (ucast ht) = Inr (raw_set s raw, Some g)" "length g = 32"
  shows "parse_op_checkmultisig P S s = Inr (with_items (raw_set s raw)
      (Some (satoshi_script_data_new_boolean (ascending (\<lambda>e k. ecdsa_verify S e g k) es ks)) # r), True)"
  by (rule checkmultisig_run [OF assms])

text \<open>Repeating one signature satisfies any threshold: n copies of a signature that verifies under
  one of the keys make the check push true, for every n up to the number of keys.\<close>

theorem multisig_repeated_signature:
  assumes "secp256k1 S"
    and "list_all2 (\<lambda>d k. (length d = 33 \<or> length d = 65) \<and> ec_pubkey_parse S d = Some k) ds ks"
    and "sg \<noteq> []" "ecdsa_signature_parse_der S sg = Some e" "k \<in> set ks" "ecdsa_verify S e g k"
    and "length ds \<le> 16" "0 < n" "n \<le> length ds" "ht \<noteq> 0" "room s 0"
    and "items_of s = Some (u8_item (of_nat (length ds))) # map (\<lambda>d. Some (ptr_item d)) ds
      @ Some (u8_item (of_nat n)) # replicate n (Some (ptr_item (sg @ [ht]))) @ r"
    and "script_get_digest P s (ucast ht) = Inr (raw_set s raw, Some g)" "length g = 32"
  shows "parse_op_checkmultisig P S s = Inr (with_items (raw_set s raw) (Some s_sdata_true # r), True)"
proof -
  obtain i where i: "i < length ks" "ks ! i = k" using assms(5) by (auto simp: in_set_conv_nth)
  have "ascending (\<lambda>e k. ecdsa_verify S e g k) (replicate n e) ks"
    unfolding ascending_def by (rule exI [of _ "\<lambda>_. i"]) (use i assms(6) in auto)
  moreover have "list_all2 (\<lambda>d e. d \<noteq> [] \<and> ecdsa_signature_parse_der S d = Some e) (replicate n sg) (replicate n e)"
    using assms(3,4) by (simp add: list_all2_conv_all_nth)
  ultimately show ?thesis
    using checkmultisig_run [OF assms(1,2) _ assms(7) _ _ assms(10,11) _ assms(13,14),
        of "replicate n sg" "replicate n e" r] assms(8,9,12)
    by (simp add: satoshi_script_data_new_boolean_def)
qed

text \<open>A machine with an attached transaction, its second input chosen, spending a legacy output.\<close>

definition example_attached :: "bytes rawtx \<Rightarrow> sdata option list \<Rightarrow> bytes script" where
  "example_attached raw xs =
     with_items ((satoshi_script_init [])\<lparr>sc_tx := Some example_spend, sc_rawtx := raw, txin_index := 1,
       sc_utxo := Some (txout_zero\<lparr>txout_flags := txout_type_legacy\<rparr>)\<rparr>) xs"

definition example_digest :: bytes where
  "example_digest = fit 32 id (fit 32 id (legacy_preimage example_spend 1 1 (mk_varstr [7])))"

lemma example_attached_digest:
  "\<exists>raw raw'. \<forall>xs. script_get_digest (recording_ops id id) (example_attached raw xs) 1
    = Inr (raw_set (example_attached raw xs) raw', Some example_digest)"
proof -
  obtain raw where raw: "satoshi_rawtx_attach (recording_ops id id) [] (Some (rawtx_zero [])) example_spend = Inr raw"
    using example_attach by blast
  have "1 < length (txins example_spend)" "length [7 :: byte] < 2 ^ 62" using example_spend_facts(5) by simp_all
  from legacy_digest_of_attached [OF recording.hash_provider_axioms raw this example_spend_facts(4,7)]
  obtain raw' where "satoshi_utxo_get_digest (recording_ops id id) raw example_spend 1 1 = Inr (raw', Some example_digest)"
    by (auto simp: example_digest_def)
  then have "script_get_digest (recording_ops id id) (example_attached raw xs) 1
      = Inr (raw_set (example_attached raw xs) raw', Some example_digest)" for xs
    by (simp add: script_get_digest_def example_attached_def satoshi_rawtx_get_digest_def Let_def
        txout_type_legacy_def txout_type_masks_def txout_type_segwit_def txout_type_p2sh_segwit_flags_def raw_set_def with_items_def)
  then show ?thesis by blast
qed

lemma example_attached_facts:
  "items_of (example_attached raw xs) = xs" "length xs + n \<le> 64 \<Longrightarrow> room (example_attached raw xs) n"
  by (simp_all add: example_attached_def satoshi_script_init_def room_def sstack_room_def stack_init with_items_def)

text \<open>A second key, and a signature that verifies under the first one only.\<close>

definition example_key2 :: bytes where "example_key2 = 2 # replicate 32 4"
definition example_sig1 :: bytes where "example_sig1 = 0x30 # replicate 32 9 @ example_digest"

lemma example_multisig_facts:
  "list_all2 (\<lambda>d k. (length d = 33 \<or> length d = 65) \<and> ec_pubkey_parse toy_curve d = Some k)
    [example_key2, example_key] [toy_num (replicate 32 4), toy_num (replicate 32 9)]"
  "ecdsa_signature_parse_der toy_curve example_sig1 = Some (toy_num (replicate 32 9), toy_num example_digest)"
  "example_sig1 \<noteq> []" "length example_digest = 32"
  "ecdsa_verify toy_curve (toy_num (replicate 32 9), toy_num example_digest) example_digest (toy_num (replicate 32 9))"
  by (simp_all add: toy_curve_def example_key_def example_key2_def example_sig1_def example_digest_def)
    (simp add: toy_num_def)

theorem checkmultisig_decides_witness:
  "\<exists>raw s'. parse_op_checkmultisig (recording_ops id id) toy_curve
      (example_attached raw [Some (u8_item 2), Some (ptr_item example_key2), Some (ptr_item example_key),
        Some (u8_item 1), Some (ptr_item (example_sig1 @ [1]))])
    = Inr (with_items s' [Some (satoshi_script_data_new_boolean
        (ascending (\<lambda>e k. ecdsa_verify toy_curve e example_digest k)
          [(toy_num (replicate 32 9), toy_num example_digest)] [toy_num (replicate 32 4), toy_num (replicate 32 9)]))], True)"
proof -
  obtain raw raw' where raw: "\<And>xs. script_get_digest (recording_ops id id) (example_attached raw xs) 1
      = Inr (raw_set (example_attached raw xs) raw', Some example_digest)"
    using example_attached_digest by blast
  have "list_all2 (\<lambda>d e. d \<noteq> [] \<and> ecdsa_signature_parse_der toy_curve d = Some e) [example_sig1]
      [(toy_num (replicate 32 9), toy_num example_digest)]"
    using example_multisig_facts(2,3) by simp
  note r = checkmultisig_decides [OF toy.secp256k1_axioms example_multisig_facts(1) this, of 1
      "example_attached raw [Some (u8_item 2), Some (ptr_item example_key2), Some (ptr_item example_key),
        Some (u8_item 1), Some (ptr_item (example_sig1 @ [1]))]" "[]" "recording_ops id id" raw' example_digest]
  show ?thesis
    by (intro exI, rule r) (simp_all add: example_attached_facts raw example_multisig_facts(4))
qed

theorem multisig_repeated_signature_witness:
  "\<exists>raw s'. parse_op_checkmultisig (recording_ops id id) toy_curve
      (example_attached raw [Some (u8_item 2), Some (ptr_item example_key2), Some (ptr_item example_key),
        Some (u8_item 2), Some (ptr_item (example_sig1 @ [1])), Some (ptr_item (example_sig1 @ [1]))])
    = Inr (with_items s' [Some s_sdata_true], True)"
proof -
  obtain raw raw' where raw: "\<And>xs. script_get_digest (recording_ops id id) (example_attached raw xs) 1
      = Inr (raw_set (example_attached raw xs) raw', Some example_digest)"
    using example_attached_digest by blast
  note r = multisig_repeated_signature [OF toy.secp256k1_axioms example_multisig_facts(1,3,2) _ example_multisig_facts(5), of 2 1
      "example_attached raw [Some (u8_item 2), Some (ptr_item example_key2), Some (ptr_item example_key),
        Some (u8_item 2), Some (ptr_item (example_sig1 @ [1])), Some (ptr_item (example_sig1 @ [1]))]" "[]"
      "recording_ops id id" raw']
  show ?thesis
    by (intro exI, rule r) (simp_all add: example_attached_facts raw example_multisig_facts(4) numeral_2_eq_2)
qed

end
