(* ===== verification/ScriptControl.thy ===== *)
theory ScriptControl
  imports ScriptProps
begin

text \<open>
  What holds of every run of the script machine: what a run leaves alone, input scripts, and
  conditionals.
\<close>

section \<open>What a run leaves alone\<close>

text \<open>The stack never holds more items than its array has slots, and the array is a multiple of the
  allocation unit.\<close>

definition wf_sstack :: "sstack \<Rightarrow> bool" where
  "wf_sstack st \<longleftrightarrow> length (st_items st) \<le> st_max st \<and> 64 dvd st_max st"

definition tx_shape :: "tx option \<Rightarrow> (nat \<times> txout list \<times> witness list option \<times> bool) option" where
  "tx_shape t = map_option (\<lambda>t. (length (txins t), txouts t, witnesses t, has_flag t)) t"

definition kept :: "'c script \<Rightarrow> 'c script \<Rightarrow> bool" where
  "kept s s' \<longleftrightarrow> alt_stack s' = alt_stack s \<and> sc_digest s' = sc_digest s \<and> sc_utxo s' = sc_utxo s
     \<and> txin_index s' = txin_index s \<and> tx_shape (sc_tx s') = tx_shape (sc_tx s)
     \<and> (wf_sstack (main_stack s) \<longrightarrow> wf_sstack (main_stack s'))"

named_theorems kept_intros "operations that leave the rest of the machine alone"

lemma kept_refl [simp, kept_intros]: "kept s s"
  by (simp add: kept_def)

lemma kept_trans: "kept s s' \<Longrightarrow> kept s' s'' \<Longrightarrow> kept s s''"
  by (simp add: kept_def)

lemma wf_resize: "wf_sstack st \<Longrightarrow> wf_sstack (satoshi_script_stack_resize st n)"
  by (auto simp: wf_sstack_def satoshi_script_stack_resize_def SATOSHI_SCRIPT_STACK_ALLOC_SIZE_def Let_def)

lemma wf_push: "wf_sstack st \<Longrightarrow> wf_sstack (stack_push st d)"
proof -
  assume wf: "wf_sstack st"
  let ?n = "int (length (st_items st)) + 1"
  have len: "length (st_items (satoshi_script_stack_resize st ?n)) = length (st_items st)"
    by (simp add: satoshi_script_stack_resize_def Let_def)
  have "nat ?n \<le> st_max (satoshi_script_stack_resize st ?n)"
    by (auto simp: satoshi_script_stack_resize_def SATOSHI_SCRIPT_STACK_ALLOC_SIZE_def Let_def nat_add_distrib)
  then show ?thesis using wf_resize [OF wf, of ?n] len
    by (simp add: stack_push_def Let_def wf_sstack_def nat_add_distrib)
qed

lemma wf_pop: "wf_sstack st \<Longrightarrow> wf_sstack (snd (stack_pop st))"
  by (auto simp: wf_sstack_def stack_pop_def split: list.split)

lemma kept_stack [kept_intros]: "(wf_sstack (main_stack s) \<Longrightarrow> wf_sstack st) \<Longrightarrow> kept s (s\<lparr>main_stack := st\<rparr>)"
  by (simp add: kept_def)

lemma kept_push [kept_intros]: "kept s (script_push s d)"
  unfolding script_push_def by (rule kept_stack) (rule wf_push)

lemma kept_pop: "script_pop s = (d, s') \<Longrightarrow> kept s s'"
  using wf_pop [of "main_stack s"]
  by (auto simp: script_pop_def split: prod.splits intro!: kept_stack)

lemma kept_raw [kept_intros]: "kept s (s\<lparr>sc_rawtx := raw\<rparr>)"
  by (simp add: kept_def)

lemma depth_push [simp]: "if_statement_depth (script_push s d) = if_statement_depth s"
  by (simp add: script_push_def)

lemma depth_pop: "script_pop s = (d, s') \<Longrightarrow> if_statement_depth s' = if_statement_depth s"
  by (auto simp: script_pop_def split: prod.splits)

text \<open>\<open>keeps\<close> adds the depth of open conditionals.\<close>

definition keeps :: "'c script \<Rightarrow> 'c script \<Rightarrow> bool" where
  "keeps s s' \<longleftrightarrow> kept s s' \<and> if_statement_depth s' = if_statement_depth s"

lemma keeps_refl [simp]: "keeps s s"
  by (simp add: keeps_def)

lemma keeps_trans: "keeps s s' \<Longrightarrow> keeps s' s'' \<Longrightarrow> keeps s s''"
  by (auto simp: keeps_def intro: kept_trans)

lemma keeps_pop: "script_pop s = (d, s') \<Longrightarrow> keeps s s'"
  by (simp add: keeps_def kept_pop depth_pop)

lemma keeps_push: "keeps s (script_push s d)"
  by (simp add: keeps_def kept_push)

lemma post_onward:
  assumes "post (\<lambda>(s, ok). if ok then post Q (f s) else Q (s, False)) r"
  shows "post Q (onward r f)"
  using assms by (cases r) (auto simp: onward_def)

text \<open>Calls that do not touch the machine.\<close>

lemma post_pure [intro!]:
  "(\<And>x. Q1 x) \<Longrightarrow> post Q1 (item_pubkey S d)"
  "(\<And>x. Q2 x) \<Longrightarrow> post Q2 (sd_ptr_read d n)"
  "(\<And>x. Q3 x) \<Longrightarrow> post Q3 (attempt r)"
  "(\<And>x. Q4 x) \<Longrightarrow> post Q4 (crypto_verify S g k der)"
  "(\<And>x. Q5 x) \<Longrightarrow> post Q5 (mem_read n m)"
  "(\<And>x. Q6 x) \<Longrightarrow> post Q6 (sd_b d)"
  "(\<And>x. Q7 x) \<Longrightarrow> post Q7 (satoshi_script_data_new ty data n)"
  "(\<And>x. Q8 x) \<Longrightarrow> post Q8 (multisig_find S dg der keys)"
  "(\<And>x. Q9 x) \<Longrightarrow> post Q9 (varstr_length v)"
  by (auto intro: postI)

lemma post_digest:
  "(\<And>s' d. keeps s s' \<Longrightarrow> Q (s', d)) \<Longrightarrow> post Q (script_get_digest P s ht)"
proof (rule postI)
  fix x assume Q: "\<And>s' d. keeps s s' \<Longrightarrow> Q (s', d)" and r: "script_get_digest P s ht = Inr x"
  have "keeps s (fst x)"
    using r by (auto simp: script_get_digest_def res_simps keeps_def kept_raw split: option.splits)
  then show "Q x" using Q [of "fst x" "snd x"] by simp
qed

lemma keeps_checksigverify: "post (\<lambda>(s', ok). keeps s s') (parse_op_checksigverify P S s)"
  unfolding parse_op_checksigverify_def
  by (auto simp: Let_def split!: if_splits option.splits prod.splits
      intro!: post_digest dest!: keeps_pop intro: keeps_trans)

lemma keeps_checksig: "post (\<lambda>(s', ok). keeps s s') (parse_op_checksig P S s)"
  unfolding parse_op_checksig_def
  by (auto intro!: post_mono [OF keeps_checksigverify] intro: keeps_trans [OF _ keeps_push])

lemma keeps_multisig_keys: "post (\<lambda>(s', keys). keeps s s') (multisig_keys S n s)"
proof (induction n arbitrary: s)
  case (Suc n)
  show ?case
    by (auto split!: if_splits option.splits prod.splits dest!: keeps_pop
        intro!: post_mono [OF Suc] intro: keeps_trans)
qed simp

lemma keeps_multisig_sigs: "post (\<lambda>(s', r). keeps s s') (multisig_sigs P S n s keys prev dg rc v)"
proof (induction n arbitrary: s keys prev dg rc v)
  case (Suc n)
  show ?case
    by (auto simp: Let_def split!: if_splits option.splits prod.splits dest!: keeps_pop
        intro!: post_digest post_mono [OF Suc] intro: keeps_trans)
qed simp

lemma keeps_checkmultisig: "post (\<lambda>(s', ok). keeps s s') (parse_op_checkmultisig P S s)"
  unfolding parse_op_checkmultisig_def
  by (auto split!: if_splits option.splits prod.splits sum.splits dest!: keeps_pop
      intro!: post_mono [OF keeps_multisig_keys] post_mono [OF keeps_multisig_sigs]
      intro: keeps_trans keeps_trans [OF _ keeps_push])

lemma keeps_verify: "post (\<lambda>(s', ok). keeps s s') (scripts_verify s)"
  unfolding scripts_verify_def
  by (auto split!: option.splits prod.splits dest!: keeps_pop)

lemma keeps_codeseparator: "post (\<lambda>(s', ok). keeps s s') (parse_op_codeseparator s pos)"
  unfolding parse_op_codeseparator_def
  by (auto simp: Let_def keeps_def kept_def script_set_txin_def tx_shape_def split!: option.splits)

text \<open>Operations on the main stack alone.\<close>

lemma keeps_on_stack:
  assumes "post (\<lambda>(st, ok). wf_sstack (main_stack s) \<longrightarrow> wf_sstack st) r"
  shows "post (\<lambda>(s', ok). keeps s s') (on_stack s r)"
  using assms by (cases r) (auto simp: on_stack_def keeps_def kept_def)

lemma wf_parse_op_hash: "post (\<lambda>(st', ok). wf_sstack st \<longrightarrow> wf_sstack st') (parse_op_hash P st op)"
  using wf_pop [of st] unfolding parse_op_hash_def
  by (auto simp: Let_def intro!: postI wf_push split: option.splits prod.splits if_splits)

lemma wf_parse_op_dup: "post (\<lambda>(st', ok). wf_sstack st \<longrightarrow> wf_sstack st') (parse_op_dup st)"
  unfolding parse_op_dup_def by (auto intro!: postI wf_push split: list.splits option.splits)

lemma wf_parse_op_equalverify: "post (\<lambda>(st', ok). wf_sstack st \<longrightarrow> wf_sstack st') (parse_op_equalverify st)"
proof -
  have "wf_sstack st \<Longrightarrow> wf_sstack (snd (stack_pop (snd (stack_pop st))))" by (intro wf_pop)
  then show ?thesis unfolding parse_op_equalverify_def
    by (auto intro!: postI simp: res_simps split: option.splits prod.splits if_splits)
qed

lemma wf_parse_op_equal: "post (\<lambda>(st', ok). wf_sstack st \<longrightarrow> wf_sstack st') (parse_op_equal st)"
  unfolding parse_op_equal_def by (auto intro!: post_mono [OF wf_parse_op_equalverify] wf_push)

lemma keeps_step: "post (\<lambda>(s', ok). keeps s s') (script_step P S s op pos)"
  unfolding script_step_def
  by (simp add: keeps_on_stack wf_parse_op_hash wf_parse_op_dup wf_parse_op_equalverify wf_parse_op_equal
      keeps_checksig keeps_checksigverify keeps_checkmultisig keeps_verify keeps_codeseparator)

lemma keeps_if_select: "post (\<lambda>(s', sel). keeps s s') (if_select s op p)"
  unfolding if_select_def
  by (auto simp: Let_def split!: option.splits intro!: post_mono [OF keeps_verify])

lemma wf_parse_push: "post (\<lambda>(st', n). wf_sstack st \<longrightarrow> wf_sstack st') (parse_op_push_data st op p)"
  unfolding parse_op_push_data_def by (auto simp: Let_def intro!: wf_push)

text \<open>A whole run: the depth is restored when it succeeds; after an error it may stay raised.\<close>

definition run_keeps :: "'c script \<Rightarrow> 'c script \<times> bool \<Rightarrow> bool" where
  "run_keeps s r \<longleftrightarrow> kept s (fst r) \<and> if_statement_depth s \<le> if_statement_depth (fst r)
     \<and> (snd r \<longrightarrow> if_statement_depth (fst r) = if_statement_depth s)"

lemma run_keeps_after: "keeps s s1 \<Longrightarrow> run_keeps s1 r \<Longrightarrow> run_keeps s r"
  by (auto simp: run_keeps_def keeps_def intro: kept_trans)

lemma post_onward_keeps:
  assumes "post (run_keeps s) r" "\<And>s'. run_keeps s (s', True) \<Longrightarrow> post Q (f s')" "\<And>s'. run_keeps s (s', False) \<Longrightarrow> Q (s', False)"
  shows "post Q (onward r f)"
  using assms by (cases r) (auto simp: onward_def)

lemma post_if: "(c \<Longrightarrow> post Q a) \<Longrightarrow> (\<not> c \<Longrightarrow> post Q b) \<Longrightarrow> post Q (if c then a else b)"
  by simp

lemma run_keeps_of_keeps: "post (\<lambda>(s', ok). keeps s s') r \<Longrightarrow> post (run_keeps s) r"
  by (erule post_mono) (auto simp: run_keeps_def keeps_def)

lemma run_keeps_if:
  assumes "post (\<lambda>(s1, sel). keeps (s\<lparr>if_statement_depth := if_statement_depth s + 1\<rparr>) s1) sel"
    and "\<And>s1 start len endif. post (run_keeps (s1\<lparr>sc_type := Type_unknown\<rparr>)) (nested s1 start len endif)"
    and "\<And>s2 endif. post (run_keeps (s2\<lparr>if_statement_depth := if_statement_depth s2 - 1\<rparr>)) (after s2 endif)"
  shows "post (run_keeps s) (andThen sel (\<lambda>(s1, sel).
    case sel of None \<Rightarrow> Inr (s1, False)
    | Some (branch, endif) \<Rightarrow>
        onward (case branch of None \<Rightarrow> Inr (s1, True)
          | Some (start, len) \<Rightarrow> if len = 0 then Inl Abort else nested s1 start len endif) (\<lambda>s2.
          if if_statement_depth s2 - 1 < 0 then Inl Abort else after s2 endif)))"
proof -
  let ?s0 = "s\<lparr>if_statement_depth := if_statement_depth s + 1\<rparr>"
  have "post (run_keeps s) (onward (case branch of None \<Rightarrow> Inr (s1, True)
      | Some (start, len) \<Rightarrow> if len = 0 then Inl Abort else nested s1 start len endif) (\<lambda>s2.
      if if_statement_depth s2 - 1 < 0 then Inl Abort else after s2 endif))" if k: "keeps ?s0 s1" for s1 branch endif
  proof (rule post_onward_keeps [where s = s1])
    show "post (run_keeps s1) (case branch of None \<Rightarrow> Inr (s1, True)
      | Some (start, len) \<Rightarrow> if len = 0 then Inl Abort else nested s1 start len endif)"
      using assms(2) [of s1]
      by (auto split: option.split intro!: post_mono [OF assms(2) [of s1]])
        (auto simp: run_keeps_def kept_def)
    show "post (run_keeps s) (if if_statement_depth s2 - 1 < 0 then Inl Abort else after s2 endif)"
      if "run_keeps s1 (s2, True)" for s2
      using that k by (auto intro!: post_mono [OF assms(3) [of s2]]) (auto simp: run_keeps_def keeps_def kept_def)
    show "run_keeps s (s2, False)" if "run_keeps s1 (s2, False)" for s2
      using that k by (auto simp: run_keeps_def keeps_def kept_def)
  qed
  moreover have "run_keeps s (s1, False)" if "keeps ?s0 s1" for s1
    using that by (auto simp: run_keeps_def keeps_def kept_def)
  ultimately show ?thesis
    by (auto split!: option.split intro!: post_mono [OF assms(1)])
qed

lemma script_loop_keeps: "post (run_keeps s) (script_loop P S only pos s p)"
proof (induction "length p" arbitrary: only pos s p rule: less_induct)
  case less
  note ih = less [unfolded atomize_imp, rule_format]
  show ?case
  proof (cases p)
    case Nil
    then show ?thesis by (simp add: run_keeps_def)
  next
    case (Cons op q)
    have ih: "post (run_keeps s') (script_loop P S only' pos' s' (drop n q))"
      "post (run_keeps s') (script_loop P S only' pos' s' q)"
      "post (run_keeps s') (script_loop P S only' pos' s' (take m (drop n q)))" for only' pos' n m and s' :: "'a script"
      using Cons by (auto intro!: less)
    have push: "post (run_keeps s) (script_loop P S only' pos' (script_push s d) q)" for only' pos' d
      by (rule post_mono [OF ih(2)]) (rule run_keeps_after [OF keeps_push])
    have data: "post (run_keeps s) (andThen (parse_op_push_data (main_stack s) op q) (\<lambda>(st, used).
        case used of None \<Rightarrow> Inr (s\<lparr>main_stack := st\<rparr>, False)
        | Some n \<Rightarrow> script_loop P S only (f n) (s\<lparr>main_stack := st\<rparr>) (drop n q)))" for f
    proof -
      have "keeps s (s\<lparr>main_stack := st\<rparr>)" if "wf_sstack (main_stack s) \<longrightarrow> wf_sstack st" for st
        using that by (auto simp: keeps_def intro: kept_stack)
      moreover from this have "post (run_keeps s) (script_loop P S only (f n) (s\<lparr>main_stack := st\<rparr>) (drop n q))"
        if "wf_sstack (main_stack s) \<longrightarrow> wf_sstack st" for st n
        using that by (auto intro!: post_mono [OF ih(1)] intro: run_keeps_after)
      ultimately show ?thesis
        by (auto split!: option.split intro!: post_mono [OF wf_parse_push]) (auto simp: run_keeps_def keeps_def)
    qed
    have step: "post (run_keeps s) (onward (script_step P S s op pos') (\<lambda>s1. script_loop P S only pos' s1 q))" for pos'
      by (rule post_onward_keeps [OF run_keeps_of_keeps [OF keeps_step]])
        (auto intro!: post_mono [OF ih(2)] simp: run_keeps_def intro: kept_trans)
    have small: "post (run_keeps s) (andThen (satoshi_script_data_new SD_uint8 data n) (\<lambda>d.
        script_loop P S only pos' (script_push s d) q))" for data n pos'
      using push by (auto intro!: postI dest: postD)
    have cond: "post (run_keeps s) (andThen (if_select (s\<lparr>if_statement_depth := if_statement_depth s + 1\<rparr>) op q) (\<lambda>(s1, sel).
        case sel of None \<Rightarrow> Inr (s1, False)
        | Some (branch, endif) \<Rightarrow>
            onward (case branch of None \<Rightarrow> Inr (s1, True)
              | Some (start, len) \<Rightarrow> if len = 0 then Inl Abort
                  else script_loop P S False (f start) (s1\<lparr>sc_type := Type_unknown\<rparr>) (take len (drop start q))) (\<lambda>s2.
              if if_statement_depth s2 - 1 < 0 then Inl Abort
              else script_loop P S only (f endif) (s2\<lparr>if_statement_depth := if_statement_depth s2 - 1\<rparr>) (drop endif q))))" for f
      by (rule run_keeps_if [OF keeps_if_select]) (rule ih)+
    have fail: "post (run_keeps s) (Inr (s, False))" "post (run_keeps s) (Inl e)" for e
      by (simp_all add: run_keeps_def)
    show ?thesis
      unfolding Cons script_loop.simps(2) Let_def
      by (intro post_if) (rule push data step small cond fail)+
  qed
qed

end
