(* ===== verification/ScriptSession.thy ===== *)
theory ScriptSession
  imports ScriptControl
begin

text \<open>
  A script machine over its whole life: the invariant of every sequence of calls, from its
  initialisation through attaching transactions, choosing inputs and running scripts, and what
  input scripts depend on.
\<close>

section \<open>The entry points keep the machine\<close>

text \<open>As for a run, but the flags of the output spent may change.\<close>

definition entry_kept :: "'c script \<Rightarrow> 'c script \<Rightarrow> bool" where
  "entry_kept s s' \<longleftrightarrow> alt_stack s' = alt_stack s \<and> sc_digest s' = sc_digest s
     \<and> txin_index s' = txin_index s \<and> tx_shape (sc_tx s') = tx_shape (sc_tx s)
     \<and> (wf_sstack (main_stack s) \<longrightarrow> wf_sstack (main_stack s'))
     \<and> if_statement_depth s \<le> if_statement_depth s'"

lemma entry_kept_refl [simp]: "entry_kept s s"
  by (simp add: entry_kept_def)

lemma entry_kept_trans: "entry_kept s s' \<Longrightarrow> entry_kept s' s'' \<Longrightarrow> entry_kept s s''"
  by (auto simp: entry_kept_def)

lemma entry_kept_keeps: "keeps s s' \<Longrightarrow> entry_kept s s'"
  by (auto simp: keeps_def kept_def entry_kept_def)

lemma entry_kept_pop: "script_pop s = (d, s') \<Longrightarrow> entry_kept s s'"
  by (rule entry_kept_keeps) (rule keeps_pop)

lemma entry_kept_push: "entry_kept s (script_push s d)"
  by (rule entry_kept_keeps) (rule keeps_push)

lemma entry_kept_txin:
  "entry_kept s0 s \<Longrightarrow> sc_tx s0 = Some t \<Longrightarrow> entry_kept s0 (script_set_txin s t i)"
  by (auto simp: entry_kept_def script_set_txin_def tx_shape_def)

lemma entry_kept_type: "entry_kept s (s\<lparr>sc_type := ty\<rparr>)"
  by (simp add: entry_kept_def)

lemma entry_kept_utxo: "entry_kept s (s\<lparr>sc_utxo := u\<rparr>)"
  by (simp add: entry_kept_def)

abbreviation entry_post :: "'c script \<Rightarrow> 'c ret \<Rightarrow> bool" where
  "entry_post s r \<equiv> post (\<lambda>(s', ok). entry_kept s s') r"

lemma entry_onward:
  assumes "entry_post s r" "\<And>s1. entry_kept s s1 \<Longrightarrow> entry_post s (f s1)"
  shows "entry_post s (onward r f)"
  using assms by (cases r) (auto simp: onward_def)

lemma entry_loop: "entry_kept s0 s \<Longrightarrow> entry_post s0 (script_loop P S only pos s p)"
  by (rule post_mono [OF script_loop_keeps])
    (auto simp: run_keeps_def kept_def entry_kept_def)

lemma entry_plain: "entry_kept s0 s \<Longrightarrow> entry_post s0 (scripts_parse_plain P S pos s p)"
  unfolding scripts_parse_plain_def
  by (auto intro!: entry_loop intro: entry_kept_trans entry_kept_type)

lemma entry_verify: "entry_kept s0 s \<Longrightarrow> entry_post s0 (scripts_verify s)"
  by (rule post_mono [OF keeps_verify]) (auto intro: entry_kept_trans entry_kept_keeps)

lemma post_pure2 [intro!]:
  "(\<And>x. Q1 x) \<Longrightarrow> post Q1 (varstr_getdata_ptr v)"
  "(\<And>x. Q2 x) \<Longrightarrow> post Q2 (satoshi_txin_set_redeem_scripts i b n)"
  "(\<And>x. Q3 x) \<Longrightarrow> post Q3 (satoshi_script_generate_p2pkh_script h)"
  "(\<And>x. Q4 x) \<Longrightarrow> post Q4 (varstr_new b n)"
  "(\<And>x. Q5 x) \<Longrightarrow> post Q5 (input_witness t k)"
  by (auto intro: postI)

lemma post_then: "(\<And>x. post Q (f x)) \<Longrightarrow> post Q (andThen r f)"
  by (cases r) simp_all

lemma entry_post_process: "entry_post s (txin_p2sh_scripts_post_process P S s)"
proof -
  have pushed: "entry_kept s (script_push s' d)" if "entry_kept s s'" for s' d
    using that entry_kept_push by (rule entry_kept_trans)
  have popped: "entry_kept s s'" if "script_pop (script_set_txin s t i) = (d, s')" "sc_tx s = Some t" for t i d s'
    using entry_kept_trans [OF entry_kept_txin [OF entry_kept_refl] entry_kept_pop] that by blast
  show ?thesis
    unfolding txin_p2sh_scripts_post_process_def
    by (auto simp: Let_def split!: option.splits prod.splits dest!: popped
        intro!: entry_onward entry_plain entry_verify entry_kept_txin pushed)
qed

lemma entry_key_hash: "entry_post s (run_key_hash_program P S s program)"
proof -
  have checked: "entry_post s (andThen (scripts_parse_plain P S (Some 0) (script_set_txin s t i) code)
      (\<lambda>(s1, ok). if ok then Inr (s1, True) else Inl Abort))" if "sc_tx s = Some t" for t i code
    using entry_plain [OF entry_kept_txin [OF entry_kept_refl that], of P S "Some 0" i code]
    by (auto simp: post_def split: sum.splits if_splits)
  show ?thesis
    unfolding run_key_hash_program_def
    by (auto simp: Let_def simp del: post_simps(3) split!: option.splits intro!: post_then checked)
qed

lemma entry_segwit: "entry_post s (parse_segwit_script P S s p)"
proof -
  have hash: "entry_kept s (script_push s' d')" if "script_pop s1 = (d, s')" "entry_kept s s1" for s1 d s' d'
    using that by (blast intro: entry_kept_trans entry_kept_pop entry_kept_push)
  show ?thesis
    unfolding parse_segwit_script_def
    by (auto simp: Let_def split!: list.splits option.splits prod.splits dest: hash
        intro!: entry_key_hash entry_onward entry_post_process)
qed

lemma entry_witness_items: "post (entry_kept s) (push_witness_items s ws)"
proof (induction ws arbitrary: s)
  case (Cons w ws)
  have "post (entry_kept s) (push_witness_items (script_push s d) ws)" for d
    by (rule post_mono [OF Cons]) (rule entry_kept_trans [OF entry_kept_push])
  then show ?case by (auto intro: Cons)
qed simp

lemma entry_pre_process: "post (\<lambda>(s', rest). entry_kept s s') (txout_scripts_pre_process P S s p)"
proof -
  have witness_items: "post (\<lambda>s'. entry_kept s s') (push_witness_items s1 ws)" if "entry_kept s s1" for s1 ws
    by (rule post_mono [OF entry_witness_items]) (rule entry_kept_trans [OF that])
  have program: "post (\<lambda>(s', ok). entry_kept s s') (parse_segwit_script P S s1 c)" if "entry_kept s s1" for s1 c
    by (rule post_mono [OF entry_segwit]) (auto intro: entry_kept_trans [OF that])
  have popped: "entry_kept s s2" if "script_pop (s\<lparr>sc_utxo := u\<rparr>) = (d, s2)" for u d s2
    by (rule entry_kept_trans [OF entry_kept_utxo entry_kept_pop [OF that]])
  have restored: "entry_kept s (script_push (snd (script_pop s1)) d)" if "entry_kept s s1" for s1 d
    using entry_kept_trans [OF that entry_kept_trans [OF entry_kept_pop entry_kept_push]] by (metis surjective_pairing)
  show ?thesis
    unfolding txout_scripts_pre_process_def
    by (auto simp: Let_def entry_kept_utxo split!: option.splits prod.splits
        dest: popped intro!: entry_kept_txin restored post_mono [OF witness_items] post_mono [OF program])
qed

lemma entry_parse: "entry_post s (scripts_parse P S s ty payload)"
proof -
  have typed: "entry_kept s s1" if "entry_kept (s\<lparr>sc_type := ty'\<rparr>) s1" for s1 ty'
    by (rule entry_kept_trans [OF entry_kept_type that])
  have post_process: "entry_post s (txin_p2sh_scripts_post_process P S s1)" if "entry_kept s s1" for s1
    by (rule post_mono [OF entry_post_process]) (auto intro: entry_kept_trans [OF that])
  show ?thesis
    unfolding scripts_parse_def
    by (auto simp: Let_def entry_kept_type split!: script_type.split option.splits
        intro!: entry_onward entry_loop post_process post_mono [OF entry_pre_process] dest: typed)
qed

section \<open>Every sequence of calls\<close>

inductive session :: "('c, 'd) hash_ops \<Rightarrow> ('k, 'g) secp256k1_ops \<Rightarrow> 'c \<Rightarrow> 'c script \<Rightarrow> bool"
  for P S z where
  session_init: "session P S z (satoshi_script_init z)"
| session_attach: "session P S z s \<Longrightarrow> scripts_attach_tx P z s t = Inr s' \<Longrightarrow> session P S z s'"
| session_detach: "session P S z s \<Longrightarrow> session P S z (scripts_detach_tx z s)"
| session_txin: "session P S z s \<Longrightarrow> scripts_set_txin_info s i u = Inr (s', ok) \<Longrightarrow> session P S z s'"
| session_parse: "session P S z s \<Longrightarrow> scripts_parse P S s ty payload = Inr (s', ok) \<Longrightarrow> session P S z s'"
| session_reset: "session P S z s \<Longrightarrow> session P S z (satoshi_script_reset s)"
| session_cleanup: "session P S z s \<Longrightarrow> session P S z (satoshi_script_cleanup z s)"

definition script_ok :: "'c script \<Rightarrow> bool" where
  "script_ok s \<longleftrightarrow> wf_sstack (main_stack s) \<and> st_items (alt_stack s) = [] \<and> sc_digest s = None
     \<and> 0 \<le> txin_index s \<and> 0 \<le> if_statement_depth s"

lemma script_ok_entry: "script_ok s \<Longrightarrow> entry_kept s s' \<Longrightarrow> script_ok s'"
  by (auto simp: script_ok_def entry_kept_def)

lemma wf_sstack_cleanup: "wf_sstack (satoshi_script_stack_cleanup st)"
  by (simp add: wf_sstack_def satoshi_script_stack_cleanup_def)

lemma script_ok_detach: "script_ok s \<Longrightarrow> script_ok (scripts_detach_tx z s)"
  by (simp add: script_ok_def scripts_detach_tx_def split: option.split)

lemma script_ok_reset: "script_ok s \<Longrightarrow> script_ok (satoshi_script_reset s)"
  by (simp add: script_ok_def satoshi_script_reset_def wf_sstack_cleanup)
    (simp add: satoshi_script_stack_cleanup_def)

lemma script_ok_attach: "script_ok s \<Longrightarrow> scripts_attach_tx P z s t = Inr s' \<Longrightarrow> script_ok s'"
  using script_ok_detach [of s z]
  by (auto simp: scripts_attach_tx_def Let_def script_ok_def res_simps split: option.splits)

lemma script_ok_txin: "script_ok s \<Longrightarrow> scripts_set_txin_info s i u = Inr (s', ok) \<Longrightarrow> script_ok s'"
  by (auto simp: scripts_set_txin_info_def script_ok_def split: option.splits if_splits)

text \<open>C6. Whatever is done with a script machine after its initialisation - attaching and detaching
  transactions, choosing inputs, running scripts with or without success, resetting - its main stack
  never holds more items than its array has slots, a whole number of allocation units; the alternative
  stack stays empty and the slot for a digest given from outside stays unset, so that signatures are
  always checked against a digest of the attached transaction; the input index and the depth of open
  conditionals never become negative.\<close>

theorem session_invariant:
  assumes "session P S z s"
  shows "length (st_items (main_stack s)) \<le> st_max (main_stack s) \<and> 64 dvd st_max (main_stack s)
    \<and> st_items (alt_stack s) = [] \<and> sc_digest s = None \<and> 0 \<le> txin_index s \<and> 0 \<le> if_statement_depth s"
proof -
  have "script_ok s"
    using assms
  proof induction
    case session_init
    show ?case
      by (simp add: script_ok_def satoshi_script_init_def satoshi_script_stack_init_def sstack_empty_def
          satoshi_script_stack_resize_def SATOSHI_SCRIPT_STACK_ALLOC_SIZE_def wf_sstack_def)
  next
    case (session_parse s ty payload s' ok)
    then show ?case using postD [OF entry_parse] by (fastforce intro: script_ok_entry)
  qed (auto intro: script_ok_attach script_ok_detach script_ok_txin script_ok_reset simp: satoshi_script_cleanup_def)
  then show ?thesis by (simp add: script_ok_def wf_sstack_def)
qed

theorem session_invariant_witness:
  "\<exists>s. scripts_parse (recording_ops id id) toy_curve (satoshi_script_init []) Type_unknown [op_1] = Inr (s, True)
    \<and> st_items (main_stack s) \<noteq> [] \<and> length (st_items (main_stack s)) \<le> st_max (main_stack s)
    \<and> 64 dvd st_max (main_stack s) \<and> sc_digest s = None"
proof -
  let ?s = "script_push ((satoshi_script_init [])\<lparr>sc_type := Type_unknown\<rparr>) (u8_item 1)"
  have run: "scripts_parse (recording_ops id id) toy_curve (satoshi_script_init []) Type_unknown [op_1] = Inr (?s, True)"
    by (simp add: scripts_parse_def script_loop.simps new_uint8 Let_def)
  have "session (recording_ops id id) toy_curve [] ?s"
    by (rule session_parse [OF session_init run])
  from session_invariant [OF this] run show ?thesis
    by (auto simp: script_push_def stack_push_def Let_def)
qed

section \<open>Input scripts\<close>

text \<open>The loop over an input script only takes op-codes that push data.\<close>

lemma push_only_loop:
  "script_loop P S True pos (s\<lparr>sc_tx := t, sc_rawtx := raw, sc_utxo := u\<rparr>) p
    = (case script_loop P' S' True None s p of
         Inl e \<Rightarrow> Inl e
       | Inr (s', ok) \<Rightarrow> Inr (s'\<lparr>sc_tx := t, sc_rawtx := raw, sc_utxo := u\<rparr>, ok))"
proof (induction "length p" arbitrary: pos s p rule: less_induct)
  case less
  show ?case
  proof (cases p)
    case (Cons op q)
    have push: "script_push (s\<lparr>sc_tx := t, sc_rawtx := raw, sc_utxo := u\<rparr>) d
        = (script_push s d)\<lparr>sc_tx := t, sc_rawtx := raw, sc_utxo := u\<rparr>" for d
      by (simp add: script_push_def)
    have stack: "s\<lparr>sc_tx := t, sc_rawtx := raw, sc_utxo := u, main_stack := st\<rparr>
        = (s\<lparr>main_stack := st\<rparr>)\<lparr>sc_tx := t, sc_rawtx := raw, sc_utxo := u\<rparr>" for st
      by simp
    show ?thesis
      by (cases "parse_op_push_data (main_stack s) op q")
        (auto simp: Cons script_loop.simps(2) Let_def push stack less simp del: script_push_def
          split: option.split)
  qed (simp add: script_loop.simps)
qed

text \<open>C38. An input script is data: what parsing it does to the machine, and whether it is accepted, depends neither on
  the hash functions nor on the curve nor on the attached transaction, unless it starts with a zero byte. With a zero byte
  the same is true of the rest of it; when this is accepted, the redeem script it has pushed is then run, with the given
  hash functions, curve and transaction, and decides.\<close>

theorem input_script_is_data:
  "scripts_parse P S (s\<lparr>sc_tx := t, sc_rawtx := raw, sc_utxo := u\<rparr>) Type_txin payload
    = (if take 1 payload = [0]
       then (case script_loop P' S' True None (s\<lparr>sc_type := Type_txin\<rparr>) (drop 1 payload) of
           Inl e \<Rightarrow> Inl e
         | Inr (s', ok) \<Rightarrow>
             if ok then txin_p2sh_scripts_post_process P S (s'\<lparr>sc_tx := t, sc_rawtx := raw, sc_utxo := u\<rparr>)
             else Inr (s'\<lparr>sc_tx := t, sc_rawtx := raw, sc_utxo := u\<rparr>, False))
       else (case scripts_parse P' S' s Type_txin payload of
           Inl e \<Rightarrow> Inl e
         | Inr (s', ok) \<Rightarrow> Inr (s'\<lparr>sc_tx := t, sc_rawtx := raw, sc_utxo := u\<rparr>, ok)))"
proof (cases payload)
  case (Cons b p)
  have start: "s\<lparr>sc_tx := t, sc_rawtx := raw, sc_utxo := u\<rparr>\<lparr>sc_type := Type_txin\<rparr>
      = (s\<lparr>sc_type := Type_txin\<rparr>)\<lparr>sc_tx := t, sc_rawtx := raw, sc_utxo := u\<rparr>" by simp
  note loop = push_only_loop [where P = P and S = S and pos = None and s = "s\<lparr>sc_type := Type_txin\<rparr>" and t = t and raw = raw and u = u
    and P' = P' and S' = S']
  show ?thesis
    unfolding scripts_parse_def start Let_def
    by (auto simp: Cons loop onward_def andThen_def split: sum.split)
qed (simp add: scripts_parse_def)

text \<open>A script that pushes the bytes 7 and 8, and the same after a zero byte without a transaction.\<close>

theorem input_script_is_data_witness:
  "\<forall>t raw u. (\<exists>s. scripts_parse (recording_ops id id) toy_curve ((satoshi_script_init [])\<lparr>sc_tx := Some t, sc_rawtx := raw, sc_utxo := u\<rparr>)
        Type_txin [2, 7, 8] = Inr (s, True)
      \<and> map (map_option sd_data) (st_items (main_stack s)) = [Some (Some [7, 8])] \<and> sc_tx s = Some t)
    \<and> scripts_parse (recording_ops id id) toy_curve ((satoshi_script_init [])\<lparr>sc_tx := None, sc_rawtx := raw, sc_utxo := u\<rparr>)
        Type_txin [0, 2, 7, 8] = Inl Abort"
proof -
  let ?push = "parse_op_push_data (main_stack (satoshi_script_init ([] :: bytes))) 2 [7, 8]"
  have "map_sum id (\<lambda>(st, n). (map (map_option sd_data) (st_items st), n)) ?push = Inr ([Some (Some [7, 8])], Some 2)" by code_simp
  then obtain st where "?push = Inr (st, Some 2)" "map (map_option sd_data) (st_items st) = [Some (Some [7, 8])]"
    by (cases ?push) (auto split: prod.splits)
  then show ?thesis
    unfolding input_script_is_data [where P' = "recording_ops id id" and S' = toy_curve]
    by (simp add: scripts_parse_def script_loop.simps Let_def txin_p2sh_scripts_post_process_def)
qed

end
