(* ===== verification/ScriptFlow.thy ===== *)
theory ScriptFlow
  imports ScriptSession
begin

text \<open>
  Conditionals of the script machine: nested code as an inductive predicate, the scan for the
  matching \<open>OP_ELSE\<close> and \<open>OP_ENDIF\<close>, the branch that is run, and what an unfinished
  conditional leaves behind.
\<close>

section \<open>Nested code\<close>

definition is_if :: "byte \<Rightarrow> bool" where "is_if op \<longleftrightarrow> op = op_if \<or> op = op_notif"

definition plain_op :: "byte \<Rightarrow> bool" where
  "plain_op op \<longleftrightarrow> op_pushdata4 < op \<and> \<not> is_if op \<and> op \<noteq> op_else \<and> op \<noteq> op_endif"

text \<open>A conditional in front of the rest of the code.\<close>

definition conditional :: "byte \<Rightarrow> bytes \<Rightarrow> bytes option \<Rightarrow> bytes \<Rightarrow> bytes" where
  "conditional op A els R = op # A @ (case els of None \<Rightarrow> [] | Some B \<Rightarrow> op_else # B) @ op_endif # R"

inductive balanced :: "bytes \<Rightarrow> bool" where
  balanced_Nil: "balanced []"
| balanced_data: "op < op_pushdata1 \<Longrightarrow> length d = unat op \<Longrightarrow> balanced r \<Longrightarrow> balanced (op # d @ r)"
| balanced_data1: "length d = unat n \<Longrightarrow> balanced r \<Longrightarrow> balanced (op_pushdata1 # n # d @ r)"
| balanced_data2: "length d = le_val [n, m] \<Longrightarrow> balanced r \<Longrightarrow> balanced (op_pushdata2 # n # m # d @ r)"
| balanced_op: "plain_op op \<Longrightarrow> balanced r \<Longrightarrow> balanced (op # r)"
| balanced_if: "is_if op \<Longrightarrow> balanced A \<Longrightarrow> pred_option balanced els \<Longrightarrow> balanced r
    \<Longrightarrow> balanced (conditional op A els r)"
monos option.pred_mono

declare if_scan.simps [simp del]

lemma scan_steps:
  "is_if op \<Longrightarrow> if_scan off depth els (op # p) = if_scan (Suc off) (Suc depth) els p"
  "if_scan off depth els (op_else # p) = if_scan (Suc off) depth (if depth = 0 then Some (Suc off) else els) p"
  "if_scan off (Suc depth) els (op_endif # p) = if_scan (Suc off) depth els p"
  "if_scan off 0 els (op_endif # p) = Some (els, Suc off)"
  "plain_op op \<Longrightarrow> if_scan off depth els (op # p) = if_scan (Suc off) depth els p"
  by (auto simp: if_scan.simps(2) is_if_def plain_op_def)

lemma scan_data:
  "op < op_pushdata1 \<Longrightarrow> length d = unat op \<Longrightarrow> if_scan off depth els (op # d @ p) = if_scan (Suc (off + length d)) depth els p"
  "length d = unat n \<Longrightarrow> if_scan off depth els (op_pushdata1 # n # d @ p) = if_scan (Suc (Suc (off + length d))) depth els p"
  "length d = le_val [n, m] \<Longrightarrow> if_scan off depth els (op_pushdata2 # n # m # d @ p)
    = if_scan (Suc (Suc (Suc (off + length d)))) depth els p"
proof -
  show "if_scan off depth els (op # d @ p) = if_scan (Suc (off + length d)) depth els p"
    if "op < op_pushdata1" "length d = unat op"
  proof -
    have "op \<noteq> op_if" "op \<noteq> op_notif" "op \<noteq> op_else" "op \<noteq> op_endif" "op \<le> op_pushdata4"
      using that(1) by (auto simp: word_le_nat_alt word_less_nat_alt)
    then show ?thesis using that by (simp add: if_scan.simps(2) Let_def)
  qed
qed (simp_all add: if_scan.simps(2) Let_def)

lemma if_scan_balanced:
  "balanced A \<Longrightarrow> if_scan off depth els (A @ R) = if_scan (off + length A) depth els R"
proof (induction A arbitrary: off depth els R rule: balanced.induct)
  case (balanced_if op A els' r)
  have else_part: "if_scan k (Suc depth) e ((case els' of None \<Rightarrow> [] | Some B \<Rightarrow> op_else # B) @ Q)
      = if_scan (k + length (case els' of None \<Rightarrow> [] | Some B \<Rightarrow> op_else # B)) (Suc depth) e Q" for k e Q
    using balanced_if.IH(2) by (cases els') (auto simp: scan_steps)
  have "if_scan off depth els (conditional op A els' r @ R) = if_scan (Suc (Suc
      (off + length A + length (case els' of None \<Rightarrow> [] | Some B \<Rightarrow> op_else # B) + length r))) depth els R"
    using balanced_if.hyps balanced_if.IH by (simp add: conditional_def else_part scan_steps)
  then show ?case by (simp add: conditional_def add.assoc)
qed (simp_all add: scan_steps scan_data add.assoc)

text \<open>The part of the code a condition chooses, as offset and length behind the opcode.\<close>

lemma if_scan_conditional:
  assumes "balanced A" "pred_option balanced els"
  shows "if_scan 0 0 None (A @ (case els of None \<Rightarrow> [] | Some B \<Rightarrow> op_else # B) @ op_endif # R)
    = Some (map_option (\<lambda>_. Suc (length A)) els,
        length A + length (case els of None \<Rightarrow> [] | Some B \<Rightarrow> op_else # B) + 1)"
  using assms by (cases els) (simp_all add: if_scan_balanced scan_steps)

lemma verify_depth:
  "scripts_verify s = Inr (s1, c) \<Longrightarrow> scripts_verify (s\<lparr>if_statement_depth := n\<rparr>) = Inr (s1\<lparr>if_statement_depth := n\<rparr>, c)"
  by (auto simp: scripts_verify_def script_pop_def res_simps split: prod.splits option.splits if_splits)

definition chosen :: "byte \<Rightarrow> bool \<Rightarrow> bytes \<Rightarrow> bytes option \<Rightarrow> bytes option" where
  "chosen op c A els = (if (op = op_if) = c then Some A else els)"

lemma if_select_conditional:
  assumes "is_if op" "balanced A" "pred_option balanced els"
    and "scripts_verify s = Inr (s1, c)" "0 \<le> if_statement_depth s" "if_statement_depth s < MAX_IF_STATEMENT_DEPTH"
  shows "if_select (s\<lparr>if_statement_depth := if_statement_depth s + 1\<rparr>) op (drop 1 (conditional op A els R))
    = Inr (s1\<lparr>if_statement_depth := if_statement_depth s + 1\<rparr>,
        Some (if (op = op_if) = c then Some (0, length A)
              else map_option (\<lambda>B. (Suc (length A), length B)) els,
          length A + length (case els of None \<Rightarrow> [] | Some B \<Rightarrow> op_else # B) + 1))"
proof -
  have notif: "(op = op_notif) = (op \<noteq> op_if)" using assms(1) by (auto simp: is_if_def)
  show ?thesis
    unfolding if_select_def verify_depth [OF assms(4)]
    using assms(5,6) by (auto simp: Let_def conditional_def if_scan_conditional [OF assms(2,3)] notif split: option.splits)
qed

lemma onward_cong_post:
  assumes "post Q r" "\<And>s. Q (s, True) \<Longrightarrow> f s = g s"
  shows "onward r f = onward r g"
  using assms by (cases r) (auto simp: onward_def)

lemma loop_if:
  assumes "is_if op"
  shows "script_loop P S False pos s (op # p) =
    andThen (if_select (s\<lparr>if_statement_depth := if_statement_depth s + 1\<rparr>) op p) (\<lambda>(s1, sel).
      case sel of None \<Rightarrow> Inr (s1, False)
      | Some (branch, endif) \<Rightarrow>
          onward (case branch of None \<Rightarrow> Inr (s1, True)
            | Some (start, len) \<Rightarrow> if len = 0 then Inl Abort
                else script_loop P S False (map_option ((+) (Suc start)) pos) (s1\<lparr>sc_type := Type_unknown\<rparr>)
                       (take len (drop start p))) (\<lambda>s2.
            if if_statement_depth s2 - 1 < 0 then Inl Abort
            else script_loop P S False (map_option ((+) (Suc endif)) pos)
                   (s2\<lparr>if_statement_depth := if_statement_depth s2 - 1\<rparr>) (drop endif p)))"
  using assms by (auto simp: script_loop.simps(2) is_if_def Let_def)

text \<open>C7. A conditional whose parts are properly nested takes its condition off the stack and runs the
  chosen part alone, one level deeper and with the script type unknown, and then the code behind its
  OP_ENDIF at the old level: OP_IF runs the first part when the condition holds, OP_NOTIF when it
  does not, and otherwise the part behind OP_ELSE is run, when there is one. An error in the part
  chosen is the result; a part that is chosen and empty fails an assertion.\<close>

theorem conditional_runs:
  assumes "is_if op" "balanced A" "pred_option balanced els"
    and "scripts_verify s = Inr (s1, c)" "0 \<le> if_statement_depth s" "if_statement_depth s < MAX_IF_STATEMENT_DEPTH"
  shows "script_loop P S False pos s (conditional op A els R) =
    (let rest = \<lambda>s2. script_loop P S False (map_option ((+) (length (conditional op A els []))) pos)
                       (s2\<lparr>if_statement_depth := if_statement_depth s\<rparr>) R;
         part = \<lambda>k B. if B = [] then Inl Abort
                  else onward (script_loop P S False (map_option ((+) k) pos)
                         (s1\<lparr>if_statement_depth := if_statement_depth s + 1, sc_type := Type_unknown\<rparr>) B) rest
     in if (op = op_if) = c then part 1 A
        else case els of None \<Rightarrow> rest s1 | Some B \<Rightarrow> part (length A + 2) B)"
proof -
  define s2 where "s2 = s1\<lparr>if_statement_depth := if_statement_depth s + 1\<rparr>"
  define p where "p = drop 1 (conditional op A els R)"
  define e where "e = length A + length (case els of None \<Rightarrow> [] | Some B \<Rightarrow> op_else # B) + 1"
  define rest where "rest = (\<lambda>s2. script_loop P S False (map_option ((+) (Suc e)) pos)
    (s2\<lparr>if_statement_depth := if_statement_depth s\<rparr>) R)"
  have code: "conditional op A els R = op # p" by (simp add: p_def conditional_def)
  have len: "length (conditional op A els []) = Suc e" by (cases els) (simp_all add: e_def conditional_def)
  have drop: "drop e p = R" by (cases els) (simp_all add: p_def e_def conditional_def)
  have part: "take (length A) p = A" "\<And>B. els = Some B \<Longrightarrow> take (length B) (drop (Suc (length A)) p) = B"
    by (simp_all add: p_def conditional_def)
  have sel: "if_select (s\<lparr>if_statement_depth := if_statement_depth s + 1\<rparr>) op p
    = Inr (s2, Some (if (op = op_if) = c then Some (0, length A) else map_option (\<lambda>B. (Suc (length A), length B)) els, e))"
    unfolding p_def e_def s2_def by (rule if_select_conditional [OF assms])
  have after: "onward (script_loop P S False pos' (s2\<lparr>sc_type := Type_unknown\<rparr>) B) (\<lambda>s2.
      if if_statement_depth s2 < 1 then Inl Abort
      else script_loop P S False (map_option ((+) (Suc e)) pos) (s2\<lparr>if_statement_depth := if_statement_depth s2 - 1\<rparr>) R)
    = onward (script_loop P S False pos' (s2\<lparr>sc_type := Type_unknown\<rparr>) B) rest" for pos' B
    using assms(5) by (intro onward_cong_post [OF script_loop_keeps]) (auto simp: run_keeps_def rest_def s2_def)
  have nonneg: "\<not> if_statement_depth s < 0" using assms(5) by simp
  have skip: "rest s2 = rest s1" by (simp add: rest_def s2_def)
  have "script_loop P S False pos s (op # p)
    = (let part = \<lambda>k B. if B = [] then Inl Abort
          else onward (script_loop P S False (map_option ((+) k) pos) (s2\<lparr>sc_type := Type_unknown\<rparr>) B) rest
       in if (op = op_if) = c then part 1 A else case els of None \<Rightarrow> rest s2 | Some B \<Rightarrow> part (length A + 2) B)"
    unfolding loop_if [OF assms(1)] sel
    by (cases els) (simp_all add: Let_def drop part after cong: if_cong, simp_all add: rest_def s2_def nonneg)
  then show ?thesis
    unfolding code len skip by (simp only: rest_def s2_def Let_def script.simps)
qed

lemma u8_condition:
  "scripts_verify (script_push s (u8_item b)) = Inr (snd (script_pop (script_push s (u8_item b))), b \<noteq> 0)"
  by (simp add: scripts_verify_def script_pop_def script_push_def stack_push_def stack_pop_def Let_def
      u8_item_def sdata_zero_def sd_b_def sd_is_ptr_def mem_read_def signed_eq_0_iff)

theorem conditional_runs_witness:
  "\<exists>s. script_loop (recording_ops id id) toy_curve False None
      (script_push (satoshi_script_init []) (u8_item 1)) (conditional op_notif [op_1] (Some [op_nop, 0x52]) [])
    = Inr (s, True) \<and> st_items (main_stack s) = [Some (u8_item 2)]"
proof -
  let ?s = "script_push (satoshi_script_init ([] :: bytes)) (u8_item 1)"
  have "balanced [op_1]" "balanced [op_nop, 0x52]"
    by (intro balanced_op balanced_Nil; simp add: plain_op_def is_if_def)+
  moreover have "scripts_verify ?s = Inr (snd (script_pop ?s), True)" using u8_condition [of _ 1] by simp
  ultimately show ?thesis
    using conditional_runs [of op_notif "[op_1]" "Some [op_nop, 0x52]" ?s "snd (script_pop ?s)" True
        "recording_ops id id" toy_curve None "[]"]
    by (simp add: is_if_def MAX_IF_STATEMENT_DEPTH_def satoshi_script_init_def script_loop.simps
        script_step_def new_uint8 Let_def script_pop_def script_push_def stack_push_def stack_pop_def
        satoshi_script_stack_init_def satoshi_script_stack_resize_def SATOSHI_SCRIPT_STACK_ALLOC_SIZE_def sstack_empty_def)
qed

section \<open>Conditionals left open\<close>

text \<open>A script that opens a conditional and stops, after which the stacks are emptied.\<close>

definition unfinished_run :: "('c, 'd) hash_ops \<Rightarrow> ('k, 'g) secp256k1_ops \<Rightarrow> 'c script \<Rightarrow> 'c script" where
  "unfinished_run P S s =
     (case scripts_parse P S s Type_unknown [op_1, op_if] of
        Inr (s', False) \<Rightarrow> satoshi_script_reset s'
      | _ \<Rightarrow> s)"

lemma refused_if:
  assumes "is_if op" "MAX_IF_STATEMENT_DEPTH \<le> if_statement_depth s"
  shows "script_loop P S False pos s (op # p) = Inr (s\<lparr>if_statement_depth := if_statement_depth s + 1\<rparr>, False)"
  using assms by (simp add: loop_if if_select_def)

lemma unfinished_depth:
  assumes "0 \<le> if_statement_depth s"
  shows "if_statement_depth (unfinished_run P S s) = if_statement_depth s + 1"
proof -
  let ?s = "script_push (s\<lparr>sc_type := Type_unknown\<rparr>) (u8_item 1)"
  have parse: "scripts_parse P S s Type_unknown [op_1, op_if] = script_loop P S False None ?s [op_if]"
    by (simp add: scripts_parse_def script_loop.simps(2) [of P S False None _ op_1] new_uint8 Let_def)
  have "\<exists>s'. script_loop P S False None ?s [op_if] = Inr (s', False) \<and> if_statement_depth s' = if_statement_depth s + 1"
  proof (cases "MAX_IF_STATEMENT_DEPTH \<le> if_statement_depth s")
    case True
    then show ?thesis using refused_if [of op_if ?s P S None "[]"] by (simp add: is_if_def)
  next
    case False
    have "if_select (?s\<lparr>if_statement_depth := if_statement_depth ?s + 1\<rparr>) op_if []
      = Inr ((snd (script_pop ?s))\<lparr>if_statement_depth := if_statement_depth ?s + 1\<rparr>, None)"
      unfolding if_select_def verify_depth [OF u8_condition] using False assms by (simp add: if_scan.simps(1))
    then show ?thesis by (simp add: loop_if is_if_def)
  qed
  then show ?thesis by (auto simp: unfinished_run_def parse satoshi_script_reset_def)
qed

text \<open>The depth of open conditionals outlives a failed run and a reset of the stacks: every script
  that breaks off inside a conditional raises it by one, and after 256 of them the same machine refuses
  every further conditional, with an error.\<close>

theorem unfinished_conditionals_accumulate:
  assumes "is_if op" "256 \<le> n"
  shows "\<exists>s'. if_statement_depth ((unfinished_run P S ^^ n) (satoshi_script_init z)) = int n
    \<and> script_loop P S False pos ((unfinished_run P S ^^ n) (satoshi_script_init z)) (op # p) = Inr (s', False)"
proof -
  have depth: "if_statement_depth ((unfinished_run P S ^^ k) (satoshi_script_init z)) = int k" for k
    by (induction k) (simp_all add: satoshi_script_init_def unfinished_depth)
  then show ?thesis using refused_if [OF assms(1), of "(unfinished_run P S ^^ n) (satoshi_script_init z)" P S pos p] assms(2)
    by (simp add: MAX_IF_STATEMENT_DEPTH_def)
qed

theorem unfinished_conditionals_accumulate_witness:
  "\<exists>s'. script_loop (recording_ops id id) toy_curve False None
      ((unfinished_run (recording_ops id id) toy_curve ^^ 256) (satoshi_script_init [])) [op_if, op_1, op_endif]
    = Inr (s', False)"
  using unfinished_conditionals_accumulate [of op_if 256 "recording_ops id id" toy_curve "[]" None "[op_1, op_endif]"]
  by (auto simp: is_if_def)

end
