(* ===== verification/Buffer.thy ===== *)
theory Buffer
  imports Prelude
begin

text \<open>
  Growing byte buffers (\<open>utils/auto_buffer.c\<close>): bytes are pushed at the end and popped from the
  front. The memory of a buffer is a list of cells, a cell without a value being one that was
  allocated and never written; a buffer without memory has no cells. Allocation succeeds.
\<close>

section \<open>The buffer\<close>

record auto_buffer =
  ab_size :: nat
  ab_length :: nat
  ab_start_pos :: nat
  ab_data :: "byte option list"

definition AUTO_BUFFER_ALLOC_SIZE :: nat where "AUTO_BUFFER_ALLOC_SIZE = 4096"

abbreviation SIZE_MAX :: nat where "SIZE_MAX \<equiv> 2 ^ 64 - 1"

text \<open>Arithmetic on \<open>size_t\<close>.\<close>

definition size_add :: "nat \<Rightarrow> nat \<Rightarrow> nat" where "size_add a b = (a + b) mod 2 ^ 64"

definition auto_buffer_resize :: "auto_buffer \<Rightarrow> nat \<Rightarrow> auto_buffer" where
  "auto_buffer_resize b sz =
     (let new_size = (if sz = SIZE_MAX \<or> sz = 0 then AUTO_BUFFER_ALLOC_SIZE
            else size_add sz (AUTO_BUFFER_ALLOC_SIZE - 1) div AUTO_BUFFER_ALLOC_SIZE * AUTO_BUFFER_ALLOC_SIZE)
      in if new_size \<le> ab_size b then b
         else b\<lparr>ab_size := new_size, ab_data := ab_data b @ replicate (new_size - length (ab_data b)) None\<rparr>)"

definition auto_buffer_zero :: auto_buffer where
  "auto_buffer_zero = \<lparr>ab_size = 0, ab_length = 0, ab_start_pos = 0, ab_data = []\<rparr>"

definition auto_buffer_init :: "nat \<Rightarrow> auto_buffer" where
  "auto_buffer_init sz = auto_buffer_resize auto_buffer_zero sz"

definition auto_buffer_cleanup :: "auto_buffer \<Rightarrow> auto_buffer" where
  "auto_buffer_cleanup b = auto_buffer_zero"

text \<open>Copying into and out of the cells.\<close>

definition cells_write :: "nat \<Rightarrow> bytes \<Rightarrow> byte option list \<Rightarrow> byte option list res" where
  "cells_write off d cs =
     (if off + length d \<le> length cs then Inr (take off cs @ map Some d @ drop (off + length d) cs)
      else Inl Undefined)"

definition cells_read :: "nat \<Rightarrow> nat \<Rightarrow> byte option list \<Rightarrow> bytes res" where
  "cells_read off n cs =
     (let r = take n (drop off cs)
      in if off + n \<le> length cs \<and> None \<notin> set r then Inr (map the r) else Inl Undefined)"

definition c_strlen :: "bytes \<Rightarrow> nat res" where
  "c_strlen m = (if 0 \<in> set m then Inr (length (takeWhile (\<lambda>b. b \<noteq> 0) m)) else Inl Undefined)"

text \<open>The buffer and whether 0 was returned; a null pointer pushes nothing.\<close>

definition auto_buffer_push :: "auto_buffer \<Rightarrow> bytes option \<Rightarrow> nat \<Rightarrow> (auto_buffer \<times> bool) res" where
  "auto_buffer_push b data len =
     (case data of
        None \<Rightarrow> Inr (b, True)
      | Some m \<Rightarrow>
          andThen (if len = SIZE_MAX then c_strlen m else Inr len) (\<lambda>len.
            if len = 0 then Inr (b, True)
            else let minimal_buf_size = size_add (size_add (ab_start_pos b) (ab_length b)) len
            in if minimal_buf_size < len then Inr (b, False)
               else let b1 = auto_buffer_resize b minimal_buf_size
               in andThen (mem_read len m) (\<lambda>d.
                  andThen (cells_write (ab_start_pos b1 + ab_length b1) d (ab_data b1)) (\<lambda>cs.
                    Inr (b1\<lparr>ab_data := cs, ab_length := size_add (ab_length b1) len\<rparr>, True)))))"

text \<open>
  The number returned, what is then in the memory the caller gave (or was given, when it passed a
  pointer to null), and the buffer. Without a place for the data the length is returned.
\<close>

definition auto_buffer_pop ::
    "auto_buffer \<Rightarrow> bytes option option \<Rightarrow> nat \<Rightarrow> (nat \<times> bytes option \<times> auto_buffer) res" where
  "auto_buffer_pop b p_data data_size =
     (case p_data of
        None \<Rightarrow> Inr (ab_length b, None, b)
      | Some dst \<Rightarrow>
          let data_size = (if data_size = 0 then ab_length b else data_size);
              len = min data_size (ab_length b)
          in andThen (cells_read (ab_start_pos b) len (ab_data b)) (\<lambda>d.
             andThen (mem_write d (case dst of None \<Rightarrow> replicate len 0 | Some m \<Rightarrow> m)) (\<lambda>m.
               let rest = ab_length b - len
               in Inr (len, Some m,
                    b\<lparr>ab_length := rest, ab_start_pos := (if rest = 0 then 0 else ab_start_pos b + len)\<rparr>))))"

definition auto_buffer_get_data :: "auto_buffer \<Rightarrow> byte option list option" where
  "auto_buffer_get_data b = (if ab_data b = [] then None else Some (drop (ab_start_pos b) (ab_data b)))"

section \<open>Byte pipes\<close>

text \<open>
  What users rely on: bytes come out in the order they went in. The interface is proved against
  sequences of operations, with the plain list of bytes as the reference.
\<close>

datatype pipe_op = Push bytes | Pop nat

primrec spec_step :: "bytes \<Rightarrow> pipe_op \<Rightarrow> bytes \<times> bytes" where
  "spec_step xs (Push d) = (xs @ d, [])"
| "spec_step xs (Pop n) = (drop n xs, take n xs)"

fun spec_run :: "bytes \<Rightarrow> pipe_op list \<Rightarrow> bytes list \<times> bytes" where
  "spec_run xs [] = ([], xs)"
| "spec_run xs (x # ops) =
     (let (xs', out) = spec_step xs x; (outs, rest) = spec_run xs' ops in (out # outs, rest))"

fun pushed :: "pipe_op list \<Rightarrow> nat" where
  "pushed [] = 0"
| "pushed (Push d # ops) = length d + pushed ops"
| "pushed (Pop n # ops) = pushed ops"

definition impl_step ::
    "('s \<Rightarrow> bytes \<Rightarrow> 's res) \<Rightarrow> ('s \<Rightarrow> nat \<Rightarrow> (bytes \<times> 's) res) \<Rightarrow> 's \<Rightarrow> pipe_op \<Rightarrow> ('s \<times> bytes) res" where
  "impl_step push pop s x =
     (case x of
        Push d \<Rightarrow> andThen (push s d) (\<lambda>s'. Inr (s', []))
      | Pop n \<Rightarrow> andThen (pop s n) (\<lambda>(out, s'). Inr (s', out)))"

fun impl_run ::
    "('s \<Rightarrow> bytes \<Rightarrow> 's res) \<Rightarrow> ('s \<Rightarrow> nat \<Rightarrow> (bytes \<times> 's) res) \<Rightarrow> 's \<Rightarrow> pipe_op list
      \<Rightarrow> (bytes list \<times> 's) res" where
  "impl_run push pop s [] = Inr ([], s)"
| "impl_run push pop s (x # ops) =
     andThen (impl_step push pop s x) (\<lambda>(s', out).
       andThen (impl_run push pop s' ops) (\<lambda>(outs, s''). Inr (out # outs, s'')))"

locale byte_pipe =
  fixes push :: "'s \<Rightarrow> bytes \<Rightarrow> 's res" and pop :: "'s \<Rightarrow> nat \<Rightarrow> (bytes \<times> 's) res"
    and room :: "'s \<Rightarrow> nat \<Rightarrow> bool" and content :: "'s \<Rightarrow> bytes"
  assumes push_content: "room s (length d + n) \<Longrightarrow> \<exists>s'. push s d = Inr s' \<and> room s' n \<and> content s' = content s @ d"
    and pop_content: "room s n \<Longrightarrow> 0 < k \<Longrightarrow>
      \<exists>s'. pop s k = Inr (take k (content s), s') \<and> room s' n \<and> content s' = drop k (content s)"
begin

lemma run_refines:
  assumes "room s (pushed ops)" "Pop 0 \<notin> set ops"
  shows "\<exists>s'. impl_run push pop s ops = Inr (fst (spec_run (content s) ops), s')
    \<and> content s' = snd (spec_run (content s) ops)"
  using assms
proof (induction ops arbitrary: s)
  case (Cons x ops)
  have step: ?case if "impl_step push pop s x = Inr (s', out)" "spec_step (content s) x = (content s', out)"
    "room s' (pushed ops)" for s' out
    using Cons.IH [OF that(3)] Cons.prems(2) that(1,2) by (auto simp: split_beta Let_def)
  show ?case
  proof (cases x)
    case (Push d)
    with Cons.prems have "room s (length d + pushed ops)" by simp
    then obtain s' where "push s d = Inr s'" "room s' (pushed ops)" "content s' = content s @ d"
      using push_content by blast
    then show ?thesis using step [of s' "[]"] Push by (simp add: impl_step_def)
  next
    case (Pop k)
    with Cons.prems have k: "0 < k" and r: "room s (pushed ops)" by (cases k; simp)+
    obtain s' where "pop s k = Inr (take k (content s), s')" "room s' (pushed ops)" "content s' = drop k (content s)"
      using pop_content [OF r k] by blast
    then show ?thesis using step [of s' "take k (content s)"] Pop by (simp add: impl_step_def)
  qed
qed simp

end

section \<open>The buffer is a pipe\<close>

text \<open>The cells between the start and the end of the data are written, and all positions fit.\<close>

definition ab_room :: "auto_buffer \<Rightarrow> nat \<Rightarrow> bool" where
  "ab_room b n \<longleftrightarrow> length (ab_data b) = ab_size b \<and> ab_start_pos b + ab_length b \<le> ab_size b
     \<and> None \<notin> set (take (ab_length b) (drop (ab_start_pos b) (ab_data b)))
     \<and> ab_start_pos b + ab_length b + n < 2 ^ 63"

definition ab_content :: "auto_buffer \<Rightarrow> bytes" where
  "ab_content b = map the (take (ab_length b) (drop (ab_start_pos b) (ab_data b)))"

definition push_all :: "auto_buffer \<Rightarrow> bytes \<Rightarrow> auto_buffer res" where
  "push_all b d = andThen (auto_buffer_push b (Some d) (length d)) (\<lambda>(b', ok). if ok then Inr b' else Inl Reject)"

definition pop_new :: "auto_buffer \<Rightarrow> nat \<Rightarrow> (bytes \<times> auto_buffer) res" where
  "pop_new b n = andThen (auto_buffer_pop b (Some None) n) (\<lambda>(len, m, b').
     case m of None \<Rightarrow> Inl Reject | Some d \<Rightarrow> Inr (d, b'))"

lemma round_up_ge: "n \<le> (n + 4095) div 4096 * (4096 :: nat)"
  using div_mult_mod_eq [of "n + 4095" 4096] mod_less_divisor [of 4096 "n + 4095"] by linarith

lemma resize_enough:
  assumes "n < 2 ^ 63" "length (ab_data b) = ab_size b"
  shows "n \<le> ab_size (auto_buffer_resize b n)"
    "length (ab_data (auto_buffer_resize b n)) = ab_size (auto_buffer_resize b n)"
    "\<exists>r. ab_data (auto_buffer_resize b n) = ab_data b @ r"
    "ab_length (auto_buffer_resize b n) = ab_length b" "ab_start_pos (auto_buffer_resize b n) = ab_start_pos b"
  using assms round_up_ge [of n]
  by (auto simp: auto_buffer_resize_def Let_def size_add_def AUTO_BUFFER_ALLOC_SIZE_def)

lemma map_Some_the: "None \<notin> set ys \<Longrightarrow> map Some (map the ys) = ys"
  by (induction ys) auto

lemma roomI:
  assumes "ab_data b = pre @ map Some xs @ suf" "length pre = ab_start_pos b" "length xs = ab_length b"
    and "length (ab_data b) = ab_size b" "ab_start_pos b + ab_length b + n < 2 ^ 63"
  shows "ab_room b n \<and> ab_content b = xs"
  using assms by (auto simp: ab_room_def ab_content_def comp_def)

lemma roomE:
  assumes "ab_room b n"
  obtains pre suf where "ab_data b = pre @ map Some (ab_content b) @ suf" "length pre = ab_start_pos b"
    "length (ab_content b) = ab_length b" "length (ab_data b) = ab_size b" "ab_start_pos b + ab_length b + n < 2 ^ 63"
proof -
  let ?m = "take (ab_length b) (drop (ab_start_pos b) (ab_data b))"
  have "map Some (ab_content b) = ?m" unfolding ab_content_def
    using assms by (intro map_Some_the) (simp add: ab_room_def)
  then have "ab_data b = take (ab_start_pos b) (ab_data b) @ map Some (ab_content b) @ drop (ab_length b) (drop (ab_start_pos b) (ab_data b))"
    by (simp only: append_take_drop_id)
  moreover have "length (ab_content b) = ab_length b" "length (take (ab_start_pos b) (ab_data b)) = ab_start_pos b"
    using assms by (auto simp: ab_room_def ab_content_def)
  ultimately show ?thesis using assms that by (simp add: ab_room_def)
qed

lemma buffer_push:
  assumes "ab_room b (length d + n)"
  shows "\<exists>b'. push_all b d = Inr b' \<and> ab_room b' n \<and> ab_content b' = ab_content b @ d"
proof -
  let ?need = "ab_start_pos b + ab_length b + length d"
  let ?b1 = "auto_buffer_resize b ?need"
  from assms obtain pre suf where b: "ab_data b = pre @ map Some (ab_content b) @ suf" "length pre = ab_start_pos b"
      "length (ab_content b) = ab_length b" "length (ab_data b) = ab_size b" "?need + n < 2 ^ 63"
    by (auto elim: roomE)
  from b(5) have sizes: "length d \<noteq> SIZE_MAX" "?need < 2 ^ 63"
    "size_add (size_add (ab_start_pos b) (ab_length b)) (length d) = ?need" "size_add (ab_length b) (length d) = ab_length b + length d"
    by (auto simp: size_add_def)
  note r = resize_enough [OF sizes(2) b(4)]
  from r(3) b(1) obtain suf1 where b1: "ab_data ?b1 = pre @ map Some (ab_content b) @ suf1" by auto
  show ?thesis
  proof (cases "d = []")
    case True
    with b assms show ?thesis by (auto simp: push_all_def auto_buffer_push_def ab_room_def)
  next
    case False
    have room: "length d \<le> length suf1" using r(1,2) b1 b(2,3) by simp
    let ?b' = "?b1\<lparr>ab_data := pre @ map Some (ab_content b @ d) @ drop (length d) suf1, ab_length := ab_length b + length d\<rparr>"
    have "push_all b d = Inr ?b'"
      using False sizes r room b(2,3)
      by (simp add: push_all_def auto_buffer_push_def Let_def mem_read_def cells_write_def b1)
    moreover have "ab_room ?b' n \<and> ab_content ?b' = ab_content b @ d"
      using r room b(2,3,5) b1 by (intro roomI) auto
    ultimately show ?thesis by blast
  qed
qed

lemma buffer_pop:
  assumes "ab_room b n" "0 < k"
  shows "\<exists>b'. pop_new b k = Inr (take k (ab_content b), b') \<and> ab_room b' n \<and> ab_content b' = drop k (ab_content b)"
proof -
  from assms(1) obtain pre suf where b: "ab_data b = pre @ map Some (ab_content b) @ suf" "length pre = ab_start_pos b"
      "length (ab_content b) = ab_length b" "length (ab_data b) = ab_size b" "ab_start_pos b + ab_length b + n < 2 ^ 63"
    by (auto elim: roomE)
  define m where "m = min k (ab_length b)"
  define rest where "rest = ab_length b - m"
  let ?b' = "b\<lparr>ab_length := rest, ab_start_pos := (if rest = 0 then 0 else ab_start_pos b + m)\<rparr>"
  have sz: "ab_size b = length pre + ab_length b + length suf" using b(1,3,4) by (metis add.assoc length_append length_map)
  have m: "m \<le> ab_length b" "take m (ab_content b) = take k (ab_content b)" "drop m (ab_content b) = drop k (ab_content b)"
    using b(3) by (auto simp: m_def min_def)
  have "cells_read (ab_start_pos b) m (ab_data b) = Inr (take m (ab_content b))"
    using b(1-3) m(1) by (auto simp: cells_read_def take_map comp_def)
  then have "pop_new b k = Inr (take m (ab_content b), ?b')"
    using assms(2) b(3) m(1)
    by (simp add: pop_new_def auto_buffer_pop_def mem_write_def m_def rest_def Let_def)
  moreover have "ab_room ?b' n \<and> ab_content ?b' = drop m (ab_content b)"
  proof (cases "rest = 0")
    case True
    then show ?thesis using b(3,4,5) m(1) by (intro roomI [of _ "[]" _ "ab_data b"]) (auto simp: rest_def)
  next
    case False
    have "ab_content b = take m (ab_content b) @ drop m (ab_content b)" by simp
    then have "ab_data b = (pre @ map Some (take m (ab_content b))) @ map Some (drop m (ab_content b)) @ suf"
      using b(1) by (metis append.assoc map_append)
    from roomI [of ?b', OF _ _ _ _, of "pre @ map Some (take m (ab_content b))" "drop m (ab_content b)" suf n] this
    show ?thesis using False b(2,3,4,5) m(1) by (simp add: rest_def)
  qed
  ultimately show ?thesis unfolding m(2,3) by blast
qed

interpretation abuf: byte_pipe push_all pop_new ab_room ab_content
  by unfold_locales (rule buffer_push buffer_pop; assumption)+

text \<open>Buffers in any state: memory and positions fit together.\<close>

definition ab_wf :: "auto_buffer \<Rightarrow> bool" where
  "ab_wf b \<longleftrightarrow> length (ab_data b) = ab_size b \<and> ab_size b < 2 ^ 64 \<and> ab_start_pos b + ab_length b \<le> ab_size b
     \<and> None \<notin> set (take (ab_length b) (drop (ab_start_pos b) (ab_data b)))"

lemma resize_wf:
  assumes "length (ab_data b) = ab_size b" "ab_size b < 2 ^ 64"
  shows "length (ab_data (auto_buffer_resize b n)) = ab_size (auto_buffer_resize b n)" "ab_size (auto_buffer_resize b n) < 2 ^ 64"
    "\<exists>r. ab_data (auto_buffer_resize b n) = ab_data b @ r"
    "ab_length (auto_buffer_resize b n) = ab_length b" "ab_start_pos (auto_buffer_resize b n) = ab_start_pos b"
proof -
  have "size_add n 4095 div 4096 * 4096 < 2 ^ 64" for n
    by (rule le_less_trans [OF div_times_less_eq_dividend]) (simp add: size_add_def)
  then show "length (ab_data (auto_buffer_resize b n)) = ab_size (auto_buffer_resize b n)" "ab_size (auto_buffer_resize b n) < 2 ^ 64"
    "\<exists>r. ab_data (auto_buffer_resize b n) = ab_data b @ r"
    "ab_length (auto_buffer_resize b n) = ab_length b" "ab_start_pos (auto_buffer_resize b n) = ab_start_pos b"
    using assms by (auto simp: auto_buffer_resize_def Let_def AUTO_BUFFER_ALLOC_SIZE_def)
qed

lemma wfI:
  assumes "ab_data b = pre @ map Some xs @ suf" "length pre = ab_start_pos b" "length xs = ab_length b"
    and "length (ab_data b) = ab_size b" "ab_size b < 2 ^ 64"
  shows "ab_wf b \<and> ab_content b = xs"
  using assms by (auto simp: ab_wf_def ab_content_def comp_def)

lemma wfE:
  assumes "ab_wf b"
  obtains pre suf where "ab_data b = pre @ map Some (ab_content b) @ suf" "length pre = ab_start_pos b"
    "length (ab_content b) = ab_length b" "length (ab_data b) = ab_size b" "ab_size b < 2 ^ 64"
proof -
  let ?m = "take (ab_length b) (drop (ab_start_pos b) (ab_data b))"
  have "map Some (ab_content b) = ?m" unfolding ab_content_def
    using assms by (intro map_Some_the) (simp add: ab_wf_def)
  then have "ab_data b = take (ab_start_pos b) (ab_data b) @ map Some (ab_content b) @ drop (ab_length b) (drop (ab_start_pos b) (ab_data b))"
    by (simp only: append_take_drop_id)
  moreover have "length (ab_content b) = ab_length b" "length (take (ab_start_pos b) (ab_data b)) = ab_start_pos b"
    using assms by (auto simp: ab_wf_def ab_content_def)
  ultimately show ?thesis using assms that by (simp add: ab_wf_def)
qed

text \<open>Whatever is pushed: when the call returns, the data is there in whole or nothing has changed.\<close>

lemma push_wf_len:
  assumes "ab_wf b" "auto_buffer_push b (Some d) n = Inr (b', ok)"
  shows "\<exists>len. (n \<noteq> SIZE_MAX \<longrightarrow> len = n) \<and> ab_wf b' \<and> ab_content b' = ab_content b @ (if ok then take len d else [])
    \<and> (ok \<longrightarrow> len \<le> length d)"
proof -
  obtain len where choice: "(if n = SIZE_MAX then c_strlen d else Inr n) = Inr len" and body:
    "(if len = 0 then Inr (b, True)
      else let minimal_buf_size = size_add (size_add (ab_start_pos b) (ab_length b)) len
      in if minimal_buf_size < len then Inr (b, False)
         else let b1 = auto_buffer_resize b minimal_buf_size
         in andThen (mem_read len d) (\<lambda>d.
            andThen (cells_write (ab_start_pos b1 + ab_length b1) d (ab_data b1)) (\<lambda>cs.
              Inr (b1\<lparr>ab_data := cs, ab_length := size_add (ab_length b1) len\<rparr>, True)))) = Inr (b', ok)"
    using assms(2) unfolding auto_buffer_push_def option.case andThen_Inr_iff [of "if _ then _ else _"]
    by (elim exE conjE) (rule that; assumption)
  then have len: "n \<noteq> SIZE_MAX \<longrightarrow> len = n" by (simp split: if_splits)
  let ?need = "size_add (size_add (ab_start_pos b) (ab_length b)) len"
  let ?b1 = "auto_buffer_resize b ?need"
  have "ab_wf b' \<and> ab_content b' = ab_content b @ (if ok then take len d else []) \<and> (ok \<longrightarrow> len \<le> length d)"
  proof (cases "len = 0 \<or> \<not> ok")
    case True
    then show ?thesis using body assms(1) by (auto simp: Let_def res_simps split: if_splits)
  next
    case False
    then obtain cs where cs: "cells_write (ab_start_pos ?b1 + ab_length ?b1) (take len d) (ab_data ?b1) = Inr cs" "len \<le> length d"
        "b' = ?b1\<lparr>ab_data := cs, ab_length := size_add (ab_length ?b1) len\<rparr>"
      using body by (auto simp: Let_def res_simps split: if_splits)
    obtain pre suf where b: "ab_data b = pre @ map Some (ab_content b) @ suf" "length pre = ab_start_pos b"
        "length (ab_content b) = ab_length b" "length (ab_data b) = ab_size b" "ab_size b < 2 ^ 64"
      using assms(1) by (rule wfE)
    note r = resize_wf [OF b(4,5), of ?need]
    obtain suf1 where b1: "ab_data ?b1 = pre @ map Some (ab_content b) @ suf1" using r(3) b(1) by auto
    have fits: "ab_start_pos b + ab_length b + len \<le> ab_size ?b1"
      and csx: "cs = pre @ map Some (ab_content b @ take len d) @ drop len suf1"
      using cs(1,2) b(2,3) r(1,4,5) by (auto simp: cells_write_def b1 split: if_splits)
    have sum: "size_add (ab_length b) len = ab_length b + len" using fits r(2) by (simp add: size_add_def)
    have "len \<le> length suf1" using fits r(1) b1 b(2,3) by simp
    then have "ab_wf b' \<and> ab_content b' = ab_content b @ take len d"
      using r b(2,3) cs(2) b1 sum unfolding cs(3) csx by (intro wfI) auto
    then show ?thesis using cs(2) False by simp
  qed
  with len show ?thesis by blast
qed

lemma push_wf:
  assumes "ab_wf b" "auto_buffer_push b (Some d) n = Inr (b', ok)"
  shows "ab_wf b'" "n \<noteq> SIZE_MAX \<Longrightarrow> ab_content b' = ab_content b @ (if ok then take n d else [])"
    "n \<noteq> SIZE_MAX \<Longrightarrow> ok \<Longrightarrow> n \<le> length d" "\<exists>x. ab_content b' = ab_content b @ x"
  using push_wf_len [OF assms] by auto

lemma wf_room: "ab_wf b \<Longrightarrow> ab_start_pos b + ab_length b + n < 2 ^ 63 \<Longrightarrow> ab_room b n"
  by (simp add: ab_room_def ab_wf_def)

lemma buffer_init: "n < 2 ^ 63 \<Longrightarrow> ab_room (auto_buffer_init 0) n" "ab_content (auto_buffer_init 0) = []"
  by (simp_all add: auto_buffer_init_def auto_buffer_resize_def auto_buffer_zero_def AUTO_BUFFER_ALLOC_SIZE_def
      ab_room_def ab_content_def)

text \<open>C18. A byte buffer is a queue of bytes: whatever sequence of pushes and (non-empty) pops is run on
  a freshly initialised buffer, fewer than 2^63 bytes being pushed in all, every operation succeeds
  inside the memory of the buffer, and each pop delivers exactly the bytes that a plain list of the
  bytes pushed and not yet popped would deliver; what is left at the end is the rest of that list.\<close>

theorem auto_buffer_refines:
  assumes "pushed ops < 2 ^ 63" "Pop 0 \<notin> set ops"
  shows "\<exists>b. impl_run push_all pop_new (auto_buffer_init 0) ops = Inr (fst (spec_run [] ops), b)
    \<and> ab_content b = snd (spec_run [] ops)"
  using abuf.run_refines [OF buffer_init(1) [OF assms(1)] assms(2)] by (simp add: buffer_init(2))

theorem auto_buffer_refines_witness:
  "\<exists>b. impl_run push_all pop_new (auto_buffer_init 0) [Push [1, 2, 3], Pop 2, Push [4], Pop 7]
    = Inr ([[], [1, 2], [], [3, 4]], b) \<and> ab_content b = []"
  using auto_buffer_refines [of "[Push [1, 2, 3], Pop 2, Push [4], Pop 7]"] by simp

end
