(* ===== verification/Queues.thy ===== *)
theory Queues
  imports Prelude
begin

text \<open>
  Stacks and queues of pointers: the linked lists of \<open>utils/clib-stack.c\<close> on an explicit store of
  nodes, and the ring buffer in \<open>src/chains.c\<close> that walks block trees. A data pointer is an
  option, null being none.
\<close>

section \<open>The contract\<close>

datatype 'a cont_op = Put 'a | Take

fun spec_ops :: "('a list \<Rightarrow> 'a \<Rightarrow> 'a list) \<Rightarrow> 'a list \<Rightarrow> 'a cont_op list \<Rightarrow> 'a option list \<times> 'a list" where
  "spec_ops place xs [] = ([], xs)"
| "spec_ops place xs (Put x # ops) = spec_ops place (place xs x) ops"
| "spec_ops place [] (Take # ops) = (let (outs, r) = spec_ops place [] ops in (None # outs, r))"
| "spec_ops place (x # xs) (Take # ops) = (let (outs, r) = spec_ops place xs ops in (Some x # outs, r))"

fun impl_ops ::
    "('s \<Rightarrow> 'a \<Rightarrow> 's res) \<Rightarrow> ('s \<Rightarrow> ('a option \<times> 's) res) \<Rightarrow> 's \<Rightarrow> 'a cont_op list \<Rightarrow> ('a option list \<times> 's) res" where
  "impl_ops put get s [] = Inr ([], s)"
| "impl_ops put get s (Put x # ops) = andThen (put s x) (\<lambda>s'. impl_ops put get s' ops)"
| "impl_ops put get s (Take # ops) =
     andThen (get s) (\<lambda>(out, s'). andThen (impl_ops put get s' ops) (\<lambda>(outs, s''). Inr (out # outs, s'')))"

fun puts :: "'a cont_op list \<Rightarrow> 'a list" where
  "puts [] = []"
| "puts (Put x # ops) = x # puts ops"
| "puts (Take # ops) = puts ops"

text \<open>Whether the operations fit: the number of items in the container, and how many more it can take.\<close>

fun fits :: "nat \<Rightarrow> nat \<Rightarrow> 'a cont_op list \<Rightarrow> bool" where
  "fits k n [] = True"
| "fits k n (Put x # ops) = (0 < n \<and> fits (Suc k) (n - 1) ops)"
| "fits 0 n (Take # ops) = fits 0 n ops"
| "fits (Suc k) n (Take # ops) = fits k (Suc n) ops"

lemma fits_enough: "length (puts ops) \<le> n \<Longrightarrow> fits k n ops"
  by (induction k n ops rule: fits.induct) auto

locale container =
  fixes put :: "'s \<Rightarrow> 'a \<Rightarrow> 's res" and get :: "'s \<Rightarrow> ('a option \<times> 's) res"
    and rep :: "'s \<Rightarrow> 'a list \<Rightarrow> nat \<Rightarrow> bool" and place :: "'a list \<Rightarrow> 'a \<Rightarrow> 'a list"
  assumes put_rep: "rep s xs (Suc n) \<Longrightarrow> \<exists>s'. put s x = Inr s' \<and> rep s' (place xs x) n"
    and length_place: "length (place xs x) = Suc (length xs)"
    and get_nil: "rep s [] n \<Longrightarrow> \<exists>s'. get s = Inr (None, s') \<and> rep s' [] n"
    and get_cons: "rep s (x # xs) n \<Longrightarrow> \<exists>s'. get s = Inr (Some x, s') \<and> rep s' xs (Suc n)"
begin

lemma run_refines:
  assumes "rep s xs n" "fits (length xs) n ops"
  shows "\<exists>s' m. impl_ops put get s ops = Inr (fst (spec_ops place xs ops), s') \<and> rep s' (snd (spec_ops place xs ops)) m"
  using assms
proof (induction ops arbitrary: s xs n)
  case (Cons op ops)
  show ?case
  proof (cases op)
    case (Put x)
    with Cons.prems obtain m where m: "n = Suc m" "fits (Suc (length xs)) m ops" by (cases n) auto
    with Cons.prems obtain s' where "put s x = Inr s'" "rep s' (place xs x) m"
      using put_rep by blast
    with Cons.IH [of s' "place xs x" m] m(2) Put show ?thesis by (simp add: length_place)
  next
    case Take
    show ?thesis
    proof (cases xs)
      case Nil
      with Cons.prems obtain s' where "get s = Inr (None, s')" "rep s' [] n" using get_nil by blast
      with Cons.IH [of s' "[]" n] Cons.prems(2) Take Nil show ?thesis by (auto simp: split_beta)
    next
      case (Cons y ys)
      with Cons.prems obtain s' where "get s = Inr (Some y, s')" "rep s' ys (Suc n)" using get_cons by blast
      with Cons.IH [of s' ys "Suc n"] Cons.prems(2) Take Cons show ?thesis by (auto simp: split_beta)
    qed
  qed
qed auto

end

text \<open>Queues: the items come out in the order they went in.\<close>

locale fifo = container put get rep "\<lambda>xs x. xs @ [x]"
  for put :: "'s \<Rightarrow> 'a \<Rightarrow> 's res" and get rep
begin

lemma spec_in_order:
  "xs @ puts ops = map the (filter (\<lambda>y. y \<noteq> None) (fst (spec_ops (\<lambda>xs x. xs @ [x]) xs ops)))
    @ snd (spec_ops (\<lambda>xs x. xs @ [x]) xs ops)"
proof (induction ops arbitrary: xs)
  case (Cons op ops)
  show ?case
  proof (cases op)
    case (Put x)
    then show ?thesis using Cons [of "xs @ [x]"] by simp
  next
    case Take
    then show ?thesis using Cons [of "tl xs"] by (cases xs) (simp_all add: split_beta)
  qed
qed simp

lemma in_order:
  assumes "rep s [] n" "fits 0 n ops"
  shows "\<exists>outs s' r m. impl_ops put get s ops = Inr (outs, s') \<and> rep s' r m
    \<and> puts ops = map the (filter (\<lambda>y. y \<noteq> None) outs) @ r"
proof -
  from run_refines [OF assms(1), of ops] assms(2) obtain s' m where
    "impl_ops put get s ops = Inr (fst (spec_ops (\<lambda>xs x. xs @ [x]) [] ops), s')"
    "rep s' (snd (spec_ops (\<lambda>xs x. xs @ [x]) [] ops)) m" by auto
  then show ?thesis using spec_in_order [of "[]" ops] by fastforce
qed

end

text \<open>Stacks: reversing puts and takes.\<close>

locale pile = container put get rep "\<lambda>xs x. x # xs"
  for put :: "'s \<Rightarrow> 'a \<Rightarrow> 's res" and get rep
begin

lemma spec_puts: "spec_ops (\<lambda>xs x. x # xs) ys (map Put zs @ ops) = spec_ops (\<lambda>xs x. x # xs) (rev zs @ ys) ops"
  by (induction zs arbitrary: ys) auto

lemma spec_takes: "spec_ops (\<lambda>xs x. x # xs) zs (replicate (length zs) Take) = (map Some zs, [])"
  by (induction zs) (auto simp: split_beta)

lemma reversed:
  assumes "rep s [] (length xs)"
  shows "\<exists>s'. impl_ops put get s (map Put xs @ replicate (length xs) Take) = Inr (map Some (rev xs), s')"
proof -
  have "puts (replicate n Take) = []" for n :: nat by (induction n) auto
  then have "puts (map Put zs @ replicate n Take) = zs" for zs :: "'a list" and n by (induction zs) auto
  then show ?thesis using run_refines [OF assms, of "map Put xs @ replicate (length xs) Take"] fits_enough [of "map Put xs @ replicate (length xs) Take" "length xs" 0]
      spec_puts [of "[]" xs] spec_takes [of "rev xs"] by auto
qed

end

section \<open>Linked lists\<close>

text \<open>Allocation takes the next address; a freed address is never handed out again.\<close>

record 'a clib_node =
  node_data :: "'a option"
  node_next :: "nat option"

record 'a node_heap =
  node_cells :: "nat \<Rightarrow> 'a clib_node option"
  next_addr :: nat

record clib_sq =
  sq_top :: "nat option"
  sq_bottom :: "nat option"
  sq_count :: int
  is_queue :: bool

type_synonym 'a sq_state = "'a node_heap \<times> clib_sq"

definition node_at :: "'a node_heap \<Rightarrow> nat \<Rightarrow> 'a clib_node res" where
  "node_at h a = (if a < next_addr h then case node_cells h a of None \<Rightarrow> Inl Undefined | Some n \<Rightarrow> Inr n
     else Inl Undefined)"

definition node_calloc :: "'a node_heap \<Rightarrow> 'a clib_node \<Rightarrow> nat \<times> 'a node_heap" where
  "node_calloc h n = (next_addr h, h\<lparr>node_cells := (node_cells h)(next_addr h \<mapsto> n), next_addr := Suc (next_addr h)\<rparr>)"

definition node_free :: "'a node_heap \<Rightarrow> nat \<Rightarrow> 'a node_heap" where
  "node_free h a = h\<lparr>node_cells := (node_cells h)(a := None)\<rparr>"

definition clib_stack_pop :: "'a sq_state \<Rightarrow> ('a option \<times> 'a sq_state) res" where
  "clib_stack_pop = (\<lambda>(h, sq).
     case sq_top sq of
       None \<Rightarrow> Inr (None, h, sq)
     | Some a \<Rightarrow> andThen (node_at h a) (\<lambda>n.
         Inr (node_data n, node_free h a, sq\<lparr>sq_top := node_next n, sq_count := sq_count sq - 1\<rparr>)))"

definition clib_stack_push :: "'a sq_state \<Rightarrow> 'a option \<Rightarrow> 'a sq_state res" where
  "clib_stack_push = (\<lambda>(h, sq) d.
     case node_calloc h \<lparr>node_data = d, node_next = sq_top sq\<rparr> of
       (a, h1) \<Rightarrow> Inr (h1, sq\<lparr>sq_top := Some a, sq_count := sq_count sq + 1\<rparr>))"

definition clib_queue_pop :: "'a sq_state \<Rightarrow> ('a option \<times> 'a sq_state) res" where
  "clib_queue_pop = (\<lambda>(h, sq).
     case sq_top sq of
       None \<Rightarrow> Inr (None, h, sq)
     | Some a \<Rightarrow> andThen (node_at h a) (\<lambda>n.
         Inr (node_data n, node_free h a,
           sq\<lparr>sq_top := node_next n, sq_bottom := (if node_next n = None then None else sq_bottom sq),
              sq_count := sq_count sq - 1\<rparr>)))"

definition clib_queue_push :: "'a sq_state \<Rightarrow> 'a option \<Rightarrow> 'a sq_state res" where
  "clib_queue_push = (\<lambda>(h, sq) d.
     case node_calloc h \<lparr>node_data = d, node_next = None\<rparr> of
       (a, h1) \<Rightarrow>
         if sq_top sq = None
         then Inr (h1, sq\<lparr>sq_top := Some a, sq_bottom := Some a, sq_count := sq_count sq + 1\<rparr>)
         else (case sq_bottom sq of
             None \<Rightarrow> Inl Undefined
           | Some b \<Rightarrow> andThen (node_at h1 b) (\<lambda>n.
               Inr (h1\<lparr>node_cells := (node_cells h1)(b \<mapsto> n\<lparr>node_next := Some a\<rparr>)\<rparr>,
                 sq\<lparr>sq_bottom := Some a, sq_count := sq_count sq + 1\<rparr>))))"

definition clib_stack_or_queue_init :: "bool \<Rightarrow> clib_sq" where
  "clib_stack_or_queue_init queue = \<lparr>sq_top = None, sq_bottom = None, sq_count = 0, is_queue = queue\<rparr>"

definition sq_push :: "'a sq_state \<Rightarrow> 'a option \<Rightarrow> 'a sq_state res" where
  "sq_push s = (if is_queue (snd s) then clib_queue_push s else clib_stack_push s)"

definition sq_pop :: "'a sq_state \<Rightarrow> ('a option \<times> 'a sq_state) res" where
  "sq_pop s = (if is_queue (snd s) then clib_queue_pop s else clib_stack_pop s)"

text \<open>The nodes are freed one after the other; each node freed is one less.\<close>

function free_nodes :: "'a node_heap \<Rightarrow> nat option \<Rightarrow> 'a node_heap res" where
  "free_nodes h None = Inr h"
| "free_nodes h (Some a) = andThen (node_at h a) (\<lambda>n. free_nodes (node_free h a) (node_next n))"
  by pat_completeness auto
termination
proof (relation "measure (\<lambda>(h, p). card {a. a < next_addr h \<and> node_cells h a \<noteq> None})")
  fix h :: "'a node_heap" and a n
  define S where "S = {a. a < next_addr h \<and> node_cells h a \<noteq> None}"
  assume "node_at h a = Inr n"
  then have "a \<in> S" by (auto simp: node_at_def S_def split: if_splits option.splits)
  moreover have "finite S" by (simp add: S_def)
  ultimately have "card (S - {a}) < card S" by (intro psubset_card_mono) auto
  moreover have "{b. b < next_addr (node_free h a) \<and> node_cells (node_free h a) b \<noteq> None} = S - {a}"
    by (auto simp: node_free_def S_def)
  ultimately show "((node_free h a, node_next n), h, Some a)
    \<in> measure (\<lambda>(h, p). card {a. a < next_addr h \<and> node_cells h a \<noteq> None})"
    by (simp add: S_def)
qed simp

definition clib_stack_or_queue_cleanup :: "'a sq_state \<Rightarrow> 'a sq_state res" where
  "clib_stack_or_queue_cleanup = (\<lambda>(h, sq). andThen (free_nodes h (sq_top sq)) (\<lambda>h'.
     Inr (h', sq\<lparr>sq_top := None, sq_bottom := None, sq_count := 0\<rparr>)))"

text \<open>The list of nodes from a pointer on, with their addresses.\<close>

fun node_list :: "'a node_heap \<Rightarrow> nat option \<Rightarrow> (nat \<times> 'a) list \<Rightarrow> bool" where
  "node_list h p [] = (p = None)"
| "node_list h p ((a, x) # r) = (p = Some a \<and> a < next_addr h
     \<and> (\<exists>q. node_cells h a = Some \<lparr>node_data = Some x, node_next = q\<rparr> \<and> node_list h q r))"

lemma node_list_frame:
  "node_list h p l \<Longrightarrow> (\<And>a. a \<in> fst ` set l \<Longrightarrow> node_cells h' a = node_cells h a) \<Longrightarrow> next_addr h \<le> next_addr h'
    \<Longrightarrow> node_list h' p l"
  by (induction h p l rule: node_list.induct) auto

lemma node_list_bound: "node_list h p l \<Longrightarrow> a \<in> fst ` set l \<Longrightarrow> a < next_addr h"
  by (induction h p l rule: node_list.induct) auto

text \<open>
  The nodes of one list since the store was \<open>h0\<close>: they are at the addresses \<open>A\<close>, all other nodes that were
  allocated since are freed, and the rest of the store is as it was.
\<close>

definition own :: "'a node_heap \<Rightarrow> 'a node_heap \<Rightarrow> nat set \<Rightarrow> bool" where
  "own h0 h A \<longleftrightarrow> next_addr h0 \<le> next_addr h \<and> A \<subseteq> {next_addr h0..<next_addr h}
     \<and> (\<forall>a. a \<notin> A \<longrightarrow> node_cells h a = (if next_addr h0 \<le> a \<and> a < next_addr h then None else node_cells h0 a))"

lemma own_init: "own h h {}"
  by (auto simp: own_def)

lemma own_alloc: "own h0 h A \<Longrightarrow> own h0 (snd (node_calloc h n)) (insert (next_addr h) A)"
  by (auto simp: own_def node_calloc_def)

lemma own_free: "own h0 h (insert a A) \<Longrightarrow> a \<notin> A \<Longrightarrow> own h0 (node_free h a) A"
  by (auto simp: own_def node_free_def)

lemma own_write: "own h0 h A \<Longrightarrow> b \<in> A \<Longrightarrow> own h0 (h\<lparr>node_cells := (node_cells h)(b \<mapsto> n)\<rparr>) A"
  by (auto simp: own_def)

lemma own_none: "own h0 h {} \<Longrightarrow> node_cells h = (\<lambda>a. if next_addr h0 \<le> a \<and> a < next_addr h then None else node_cells h0 a)"
  by (auto simp: own_def)

definition stack_rep :: "'a node_heap \<Rightarrow> 'a sq_state \<Rightarrow> 'a list \<Rightarrow> nat \<Rightarrow> bool" where
  "stack_rep h0 = (\<lambda>(h, sq) xs n. \<not> is_queue sq \<and> (\<exists>l. map snd l = xs \<and> distinct (map fst l)
     \<and> node_list h (sq_top sq) l \<and> sq_count sq = int (length xs) \<and> own h0 h (fst ` set l)))"

definition queue_rep :: "'a node_heap \<Rightarrow> 'a sq_state \<Rightarrow> 'a list \<Rightarrow> nat \<Rightarrow> bool" where
  "queue_rep h0 = (\<lambda>(h, sq) xs n. is_queue sq \<and> (\<exists>l. map snd l = xs \<and> distinct (map fst l)
     \<and> node_list h (sq_top sq) l \<and> (l \<noteq> [] \<longrightarrow> sq_bottom sq = Some (fst (last l))) \<and> sq_count sq = int (length xs)
     \<and> own h0 h (fst ` set l)))"

lemma node_list_alloc:
  assumes "node_list h p l"
  shows "node_list (snd (node_calloc h n)) p l" "next_addr h \<notin> fst ` set l"
proof -
  show new: "next_addr h \<notin> fst ` set l" using node_list_bound [OF assms] by blast
  show "node_list (snd (node_calloc h n)) p l"
    using new by (intro node_list_frame [OF assms]) (force simp: node_calloc_def)+
qed

lemma node_list_free:
  assumes "node_list h p l" "a \<notin> fst ` set l"
  shows "node_list (node_free h a) p l"
  using assms(2) by (intro node_list_frame [OF assms(1)]) (force simp: node_free_def)+

interpretation lstack: pile "\<lambda>s x. sq_push s (Some x)" sq_pop "stack_rep h0" for h0
proof
  fix s :: "'a sq_state" and xs and x :: 'a and n
  assume "stack_rep h0 s xs (Suc n)"
  then obtain h sq l where s: "s = (h, sq)" "\<not> is_queue sq" "map snd l = xs" "distinct (map fst l)"
      "node_list h (sq_top sq) l" "sq_count sq = int (length xs)" "own h0 h (fst ` set l)"
    by (cases s) (auto simp: stack_rep_def)
  let ?n = "\<lparr>node_data = Some x, node_next = sq_top sq\<rparr>"
  have "node_list (snd (node_calloc h ?n)) (Some (next_addr h)) ((next_addr h, x) # l)"
    using node_list_alloc(1) [OF s(5)] by (simp add: node_calloc_def)
  moreover have "own h0 (snd (node_calloc h ?n)) (fst ` set ((next_addr h, x) # l))" using own_alloc [OF s(7)] by simp
  ultimately show "\<exists>s'. sq_push s (Some x) = Inr s' \<and> stack_rep h0 s' (x # xs) n"
    using s node_list_alloc(2) [OF s(5)]
    by (auto simp: sq_push_def clib_stack_push_def stack_rep_def split: prod.split intro!: exI [of _ "(next_addr h, x) # l"])
      (auto simp: node_calloc_def)
next
  show "\<exists>s'. sq_pop s = Inr (None, s') \<and> stack_rep h0 s' [] n" if "stack_rep h0 s [] n" for s :: "'a sq_state" and n
    using that by (cases s) (auto simp: stack_rep_def sq_pop_def clib_stack_pop_def)
next
  fix s :: "'a sq_state" and x xs n
  assume "stack_rep h0 s (x # xs) n"
  then obtain h sq a l q where s: "s = (h, sq)" "\<not> is_queue sq" "map snd l = xs" "distinct (a # map fst l)"
      "sq_top sq = Some a" "node_at h a = Inr \<lparr>node_data = Some x, node_next = q\<rparr>" "node_list h q l" "sq_count sq = 1 + int (length xs)"
      "own h0 h (insert a (fst ` set l))"
    by (cases s) (auto simp: stack_rep_def node_at_def Cons_eq_map_conv)
  then show "\<exists>s'. sq_pop s = Inr (Some x, s') \<and> stack_rep h0 s' xs (Suc n)"
    using node_list_free [OF s(7), of a] own_free [OF s(9)]
    by (auto simp: sq_pop_def clib_stack_pop_def stack_rep_def intro!: exI [of _ l])
qed simp

lemma node_list_last: "node_list h p (l @ [(b, z)]) \<Longrightarrow> node_cells h b = Some \<lparr>node_data = Some z, node_next = None\<rparr>"
  by (induction h p l rule: node_list.induct) auto

lemma node_list_append:
  "node_list h p (l @ [(b, z)]) \<Longrightarrow> distinct (map fst (l @ [(b, z)])) \<Longrightarrow> a < next_addr h \<Longrightarrow> a \<notin> fst ` set (l @ [(b, z)])
    \<Longrightarrow> node_cells h a = Some \<lparr>node_data = Some x, node_next = None\<rparr>
    \<Longrightarrow> node_list (h\<lparr>node_cells := (node_cells h)(b \<mapsto> \<lparr>node_data = Some z, node_next = Some a\<rparr>)\<rparr>) p (l @ [(b, z), (a, x)])"
  by (induction h p l rule: node_list.induct) auto

interpretation lqueue: fifo "\<lambda>s x. sq_push s (Some x)" sq_pop "queue_rep h0" for h0
proof
  fix s :: "'a sq_state" and xs and x :: 'a and n
  assume "queue_rep h0 s xs (Suc n)"
  then obtain h sq l where s: "s = (h, sq)" "is_queue sq" "map snd l = xs" "distinct (map fst l)"
      "node_list h (sq_top sq) l" "l \<noteq> [] \<longrightarrow> sq_bottom sq = Some (fst (last l))" "sq_count sq = int (length xs)"
      "own h0 h (fst ` set l)"
    by (cases s) (auto simp: queue_rep_def)
  let ?n = "\<lparr>node_data = Some x, node_next = None\<rparr>" and ?a = "next_addr h"
  note alloc = node_list_alloc(1) [OF s(5), of ?n] node_list_alloc(2) [OF s(5)]
  show "\<exists>s'. sq_push s (Some x) = Inr s' \<and> queue_rep h0 s' (xs @ [x]) n"
  proof (cases l rule: rev_cases)
    case Nil
    with s own_alloc [OF s(8), of ?n] show ?thesis
      by (auto simp: sq_push_def clib_queue_push_def queue_rep_def node_calloc_def intro!: exI [of _ "[(?a, x)]"])
  next
    case (snoc l' y)
    obtain b z where y: "y = (b, z)" by (cases y)
    have bottom: "sq_bottom sq = Some b" using s(6) snoc y by simp
    let ?h = "snd (node_calloc h ?n)"
    have fresh: "b < ?a" "?a \<notin> fst ` set (l' @ [(b, z)])" using alloc(2) node_list_bound [OF s(5)] snoc y by auto
    have cells: "node_cells ?h b = Some \<lparr>node_data = Some z, node_next = None\<rparr>"
      using node_list_last [of ?h "sq_top sq" l' b z] alloc(1) snoc y by simp
    have list: "node_list (?h\<lparr>node_cells := (node_cells ?h)(b \<mapsto> \<lparr>node_data = Some z, node_next = Some ?a\<rparr>)\<rparr>)
        (sq_top sq) (l' @ [(b, z), (?a, x)])"
      using alloc(1) s(4) snoc y fresh by (intro node_list_append) (auto simp: node_calloc_def)
    have top: "sq_top sq \<noteq> None" using s(5) snoc y by (cases l') auto
    have "own h0 (?h\<lparr>node_cells := (node_cells ?h)(b \<mapsto> \<lparr>node_data = Some z, node_next = Some ?a\<rparr>)\<rparr>) (fst ` set (l' @ [(b, z), (?a, x)]))"
      using own_write [OF own_alloc [OF s(8), of ?n], of b] snoc y by (simp add: insert_commute)
    then show ?thesis
      using s(1-4,7) snoc y top bottom fresh cells list
      by (auto simp: sq_push_def clib_queue_push_def queue_rep_def node_at_def node_calloc_def Let_def
          intro!: exI [of _ "l' @ [(b, z), (?a, x)]"])
  qed
next
  show "\<exists>s'. sq_pop s = Inr (None, s') \<and> queue_rep h0 s' [] n" if "queue_rep h0 s [] n" for s :: "'a sq_state" and n
    using that by (cases s) (auto simp: queue_rep_def sq_pop_def clib_queue_pop_def)
next
  fix s :: "'a sq_state" and x xs n
  assume "queue_rep h0 s (x # xs) n"
  then obtain h sq a l q where s: "s = (h, sq)" "is_queue sq" "map snd l = xs" "distinct (a # map fst l)"
      "sq_top sq = Some a" "node_at h a = Inr \<lparr>node_data = Some x, node_next = q\<rparr>" "node_list h q l"
      "sq_bottom sq = Some (fst (last ((a, x) # l)))" "sq_count sq = 1 + int (length xs)"
      "own h0 h (insert a (fst ` set l))"
    by (cases s) (auto simp: queue_rep_def node_at_def Cons_eq_map_conv)
  moreover have "q = None \<longleftrightarrow> l = []" using s(7) by (cases l) auto
  ultimately show "\<exists>s'. sq_pop s = Inr (Some x, s') \<and> queue_rep h0 s' xs (Suc n)"
    using node_list_free [OF s(7), of a] own_free [OF s(10)]
    by (auto simp: sq_pop_def clib_queue_pop_def queue_rep_def intro!: exI [of _ l])
qed simp

lemma free_node_list:
  "node_list h p l \<Longrightarrow> distinct (map fst l) \<Longrightarrow> own h0 h (fst ` set l) \<Longrightarrow>
    \<exists>h'. free_nodes h p = Inr h' \<and> own h0 h' {} \<and> next_addr h' = next_addr h"
proof (induction l arbitrary: h p)
  case (Cons y r)
  then obtain a x q where q: "y = (a, x)" "p = Some a" "node_at h a = Inr \<lparr>node_data = Some x, node_next = q\<rparr>" "node_list h q r"
    by (cases y) (auto simp: node_at_def)
  have "node_list (node_free h a) q r" using Cons.prems q by (intro node_list_free) auto
  moreover have "own h0 (node_free h a) (fst ` set r)" using Cons.prems(2,3) q(1) by (intro own_free) auto
  moreover have "next_addr (node_free h a) = next_addr h" by (simp add: node_free_def)
  ultimately show ?case using Cons.IH [of "node_free h a" q] Cons.prems(2) q(2,3) by auto
qed simp

lemma cleanup_list:
  assumes "node_list h (sq_top sq) l" "distinct (map fst l)" "is_queue sq = queue" "own h0 h (fst ` set l)"
  shows "\<exists>h'. clib_stack_or_queue_cleanup (h, sq) = Inr (h', clib_stack_or_queue_init queue) \<and> next_addr h' = next_addr h
    \<and> node_cells h' = (\<lambda>a. if next_addr h0 \<le> a \<and> a < next_addr h' then None else node_cells h0 a)"
proof -
  obtain h' where h': "free_nodes h (sq_top sq) = Inr h'" "own h0 h' {}" "next_addr h' = next_addr h"
    using free_node_list [OF assms(1,2,4)] by blast
  then show ?thesis
    using assms(3) own_none [OF h'(2)]
    by (intro exI [of _ h']) (simp add: clib_stack_or_queue_cleanup_def clib_stack_or_queue_init_def)
qed

text \<open>Each push takes one new address.\<close>

lemma sq_addresses:
  "sq_push s d = Inr s' \<Longrightarrow> next_addr (fst s') = Suc (next_addr (fst s))"
  "sq_pop s = Inr (x, s') \<Longrightarrow> next_addr (fst s') = next_addr (fst s)"
proof -
  obtain h sq where s: "s = (h, sq)" by (cases s)
  show "sq_push s d = Inr s' \<Longrightarrow> next_addr (fst s') = Suc (next_addr (fst s))"
    by (auto simp: s sq_push_def clib_queue_push_def clib_stack_push_def node_calloc_def andThen_Inr_iff
        split: if_splits option.splits)
  show "sq_pop s = Inr (x, s') \<Longrightarrow> next_addr (fst s') = next_addr (fst s)"
    by (auto simp: s sq_pop_def clib_queue_pop_def clib_stack_pop_def node_free_def andThen_Inr_iff
        split: if_splits option.splits)
qed

lemma run_addresses:
  "impl_ops (\<lambda>s x. sq_push s (Some x)) sq_pop s ops = Inr (outs, s') \<Longrightarrow>
    next_addr (fst s') = next_addr (fst s) + length (puts ops)"
proof (induction ops arbitrary: s outs)
  case (Cons op ops)
  show ?case
  proof (cases op)
    case (Put x)
    then have "andThen (sq_push s (Some x)) (\<lambda>s1. impl_ops (\<lambda>s x. sq_push s (Some x)) sq_pop s1 ops) = Inr (outs, s')"
      using Cons.prems by simp
    then obtain s1 where s1: "sq_push s (Some x) = Inr s1" "impl_ops (\<lambda>s x. sq_push s (Some x)) sq_pop s1 ops = Inr (outs, s')"
      unfolding andThen_Inr_iff by blast
    show ?thesis using Cons.IH [OF s1(2)] sq_addresses(1) [OF s1(1)] Put by simp
  next
    case Take
    then obtain y s1 os where s1: "sq_pop s = Inr (y, s1)" "impl_ops (\<lambda>s x. sq_push s (Some x)) sq_pop s1 ops = Inr (os, s')"
      using Cons.prems by (cases "sq_pop s") (auto split: sum.splits simp: andThen_def)
    show ?thesis using Cons.IH [OF s1(2)] sq_addresses(2) [OF s1(1)] Take by simp
  qed
qed simp

text \<open>C19. The linked stack and the linked queue behave as lists whatever is done with them: after any
  sequence of pushes and pops from their initialisation, following the pointers between their nodes
  never leaves the nodes they own, every pop of the queue delivers the oldest and every pop of the stack
  the newest of the items pushed and not yet popped, null when there is none. The clean-up then
  frees the remaining nodes, each once: each push took one new address, every one of these addresses is free at the end, and
  the rest of the store is as it was.\<close>

theorem clib_stack_queue_refine:
  "\<exists>s h'. impl_ops (\<lambda>s x. sq_push s (Some x)) sq_pop (h, clib_stack_or_queue_init queue) ops
      = Inr (fst (spec_ops (\<lambda>xs x. if queue then xs @ [x] else x # xs) [] ops), s)
    \<and> clib_stack_or_queue_cleanup s = Inr (h', clib_stack_or_queue_init queue)
    \<and> next_addr h' = next_addr h + length (puts ops)
    \<and> node_cells h' = (\<lambda>a. if next_addr h \<le> a \<and> a < next_addr h' then None else node_cells h a)"
proof (cases queue)
  case True
  have "queue_rep h (h, clib_stack_or_queue_init True) [] n" for n
    using own_init [of h] by (simp add: queue_rep_def clib_stack_or_queue_init_def)
  from lqueue.run_refines [OF this [of "length (puts ops)"], of ops] fits_enough [of ops _ 0] obtain g sq m where
    run: "impl_ops (\<lambda>s x. sq_push s (Some x)) sq_pop (h, clib_stack_or_queue_init True) ops
      = Inr (fst (spec_ops (\<lambda>xs x. xs @ [x]) [] ops), g, sq)"
    and rep: "queue_rep h (g, sq) (snd (spec_ops (\<lambda>xs x. xs @ [x]) [] ops)) m" by auto
  obtain l where "node_list g (sq_top sq) l" "distinct (map fst l)" "is_queue sq" "own h g (fst ` set l)"
    using rep by (auto simp: queue_rep_def)
  from cleanup_list [OF this(1,2) _ this(4), of True] this(3) run_addresses [OF run] run True show ?thesis by auto
next
  case False
  have "stack_rep h (h, clib_stack_or_queue_init False) [] n" for n
    using own_init [of h] by (simp add: stack_rep_def clib_stack_or_queue_init_def)
  from lstack.run_refines [OF this [of "length (puts ops)"], of ops] fits_enough [of ops _ 0] obtain g sq m where
    run: "impl_ops (\<lambda>s x. sq_push s (Some x)) sq_pop (h, clib_stack_or_queue_init False) ops
      = Inr (fst (spec_ops (\<lambda>xs x. x # xs) [] ops), g, sq)"
    and rep: "stack_rep h (g, sq) (snd (spec_ops (\<lambda>xs x. x # xs) [] ops)) m" by auto
  obtain l where "node_list g (sq_top sq) l" "distinct (map fst l)" "\<not> is_queue sq" "own h g (fst ` set l)"
    using rep by (auto simp: stack_rep_def)
  from cleanup_list [OF this(1,2) _ this(4), of False] this(3) run_addresses [OF run] run False show ?thesis by auto
qed

section \<open>The ring buffer\<close>

record 'a ring =
  rq_nodes :: "'a option list"
  rq_max :: nat
  rq_start :: nat
  rq_length :: nat

definition CLIB_QUEUE_ALLOC_SIZE :: nat where "CLIB_QUEUE_ALLOC_SIZE = 4096"

definition ring_resize :: "'a ring \<Rightarrow> nat \<Rightarrow> 'a ring" where
  "ring_resize q n =
     (let new_size = (if n = 0 then CLIB_QUEUE_ALLOC_SIZE
            else (n + CLIB_QUEUE_ALLOC_SIZE - 1) div CLIB_QUEUE_ALLOC_SIZE * CLIB_QUEUE_ALLOC_SIZE)
      in if new_size \<le> rq_max q then q
         else q\<lparr>rq_nodes := rq_nodes q @ replicate (new_size - rq_max q) None, rq_max := new_size\<rparr>)"

definition ring_enter :: "'a ring \<Rightarrow> 'a option \<Rightarrow> 'a ring res" where
  "ring_enter q d =
     (let q1 = ring_resize q (rq_length q + 1); cur_pos = (rq_start q1 + rq_length q1) mod rq_max q1
      in if cur_pos < length (rq_nodes q1)
         then Inr (q1\<lparr>rq_nodes := (rq_nodes q1)[cur_pos := d], rq_length := rq_length q1 + 1\<rparr>)
         else Inl Undefined)"

definition ring_leave :: "'a ring \<Rightarrow> ('a option \<times> 'a ring) res" where
  "ring_leave q =
     (if rq_length q = 0 then Inr (None, q)
      else if rq_start q < length (rq_nodes q)
        then Inr (rq_nodes q ! rq_start q,
          q\<lparr>rq_start := (rq_start q + 1) mod rq_max q, rq_length := rq_length q - 1\<rparr>)
        else Inl Undefined)"

definition ring_zero :: "'a ring" where
  "ring_zero = \<lparr>rq_nodes = [], rq_max = 0, rq_start = 0, rq_length = 0\<rparr>"

definition clib_queue_init :: "'a ring \<Rightarrow> nat \<Rightarrow> 'a ring" where
  "clib_queue_init q n = ring_resize q n"

text \<open>Only the memory is given up.\<close>

definition clib_queue_cleanup :: "'a ring \<Rightarrow> 'a ring" where
  "clib_queue_cleanup q = q\<lparr>rq_nodes := []\<rparr>"

definition ring_rep :: "'a ring \<Rightarrow> 'a list \<Rightarrow> nat \<Rightarrow> bool" where
  "ring_rep q xs n \<longleftrightarrow> length (rq_nodes q) = rq_max q \<and> CLIB_QUEUE_ALLOC_SIZE dvd rq_max q
     \<and> rq_start q < rq_max q \<and> rq_length q = length xs \<and> length xs + n \<le> rq_max q
     \<and> (\<forall>i < length xs. rq_nodes q ! ((rq_start q + i) mod rq_max q) = Some (xs ! i))"

lemma ring_no_growth: "CLIB_QUEUE_ALLOC_SIZE dvd rq_max q \<Longrightarrow> n < rq_max q \<Longrightarrow> ring_resize q (Suc n) = q"
  by (auto simp: ring_resize_def CLIB_QUEUE_ALLOC_SIZE_def Let_def elim!: dvdE)

lemma mod_inj_lt:
  fixes m :: nat
  assumes "i < m" "j < m" "(s + i) mod m = (s + j) mod m"
  shows "i = j"
proof -
  have "i = j" if "i \<le> j" "j < m" "(s + i) mod m = (s + j) mod m" for i j
  proof -
    have "m dvd j - i" using that mod_eq_dvd_iff_nat [of "s + i" "s + j" m] by simp
    then show ?thesis using that nat_dvd_not_less [of "j - i" m] by (cases "j - i = 0") auto
  qed
  then show ?thesis using assms by (metis nat_le_linear)
qed

interpretation ring: fifo "\<lambda>q x. ring_enter q (Some x)" ring_leave ring_rep
proof
  fix q :: "'a ring" and xs and x :: 'a and n
  assume r: "ring_rep q xs (Suc n)"
  let ?p = "(rq_start q + length xs) mod rq_max q"
  have same: "ring_resize q (rq_length q + 1) = q" using r ring_no_growth [of q "length xs"] by (simp add: ring_rep_def)
  have pos: "?p < rq_max q" using r by (auto simp: ring_rep_def)
  have other: "?p \<noteq> (rq_start q + i) mod rq_max q" if "i < length xs" for i
    using that r mod_inj_lt [of i "rq_max q" "length xs" "rq_start q"] by (auto simp: ring_rep_def)
  have "ring_rep (q\<lparr>rq_nodes := (rq_nodes q)[?p := Some x], rq_length := length xs + 1\<rparr>) (xs @ [x]) n"
    using r pos other by (auto simp: ring_rep_def nth_append less_Suc_eq)
  then show "\<exists>q'. ring_enter q (Some x) = Inr q' \<and> ring_rep q' (xs @ [x]) n"
    using r same pos by (simp add: ring_enter_def Let_def ring_rep_def)
next
  show "\<exists>q'. ring_leave q = Inr (None, q') \<and> ring_rep q' [] n" if "ring_rep q [] n" for q :: "'a ring" and n
    using that by (simp add: ring_rep_def ring_leave_def)
next
  fix q :: "'a ring" and x xs n
  assume r: "ring_rep q (x # xs) n"
  then have "rq_nodes q ! rq_start q = Some x" by (auto simp: ring_rep_def)
  moreover have "rq_nodes q ! (((rq_start q + 1) mod rq_max q + i) mod rq_max q) = Some (xs ! i)" if "i < length xs" for i
    using r that by (auto simp: ring_rep_def mod_add_left_eq add.assoc dest!: spec [of _ "Suc i"])
  ultimately show "\<exists>q'. ring_leave q = Inr (Some x, q') \<and> ring_rep q' xs (Suc n)"
    using r by (auto simp: ring_leave_def ring_rep_def)
qed simp

lemma ring_rep_init: "ring_rep (clib_queue_init ring_zero 0) [] 4096"
  by (simp add: ring_rep_def clib_queue_init_def ring_zero_def ring_resize_def CLIB_QUEUE_ALLOC_SIZE_def)

text \<open>The ring buffer is a queue as long as it never holds more than 4096 items: for every sequence
  of entering and leaving from its initialisation that keeps to this bound no operation leaves the array,
  and the items that have left, followed by those still inside, are the items entered, in order.\<close>

theorem ring_in_order:
  assumes "fits 0 4096 ops"
  shows "\<exists>outs q r m. impl_ops (\<lambda>q x. ring_enter q (Some x)) ring_leave (clib_queue_init ring_zero 0) ops = Inr (outs, q)
    \<and> ring_rep q r m \<and> puts ops = map the (filter (\<lambda>y. y \<noteq> None) outs) @ r"
  by (rule ring.in_order [OF ring_rep_init assms])

theorem ring_in_order_witness:
  "\<exists>outs q r m. impl_ops (\<lambda>q x. ring_enter q (Some x)) ring_leave (clib_queue_init ring_zero 0)
      [Put (1::nat), Put 2, Take, Put 3, Take] = Inr (outs, q)
    \<and> ring_rep q r m \<and> [1, 2, 3] = map the (filter (\<lambda>y. y \<noteq> None) outs) @ r"
proof -
  have "fits 0 4096 [Put (1::nat), Put 2, Take, Put 3, Take]" by simp
  from ring_in_order [OF this] show ?thesis by simp
qed

text \<open>Leaving several times.\<close>

primrec ring_leaves :: "nat \<Rightarrow> 'a ring \<Rightarrow> ('a option list \<times> 'a ring) res" where
  "ring_leaves 0 q = Inr ([], q)"
| "ring_leaves (Suc n) q = andThen (ring_leave q) (\<lambda>(x, q1).
     andThen (ring_leaves n q1) (\<lambda>(xs, q2). Inr (x # xs, q2)))"

lemma ring_leaves_straight:
  assumes "rq_length q = n + k" "rq_start q + n \<le> length (rq_nodes q)" "length (rq_nodes q) = rq_max q" "rq_start q + n < rq_max q"
  shows "ring_leaves n q = Inr (take n (drop (rq_start q) (rq_nodes q)), q\<lparr>rq_start := rq_start q + n, rq_length := k\<rparr>)"
  using assms
proof (induction n arbitrary: q)
  case (Suc n)
  let ?q1 = "q\<lparr>rq_start := (rq_start q + 1) mod rq_max q, rq_length := rq_length q - 1\<rparr>"
  have start: "(rq_start q + 1) mod rq_max q = rq_start q + 1" using Suc.prems by simp
  have "ring_leaves n ?q1 = Inr (take n (drop (rq_start q + 1) (rq_nodes q)), ?q1\<lparr>rq_start := rq_start q + 1 + n, rq_length := k\<rparr>)"
    using Suc.IH [of ?q1] Suc.prems start by simp
  moreover have "drop (rq_start q) (rq_nodes q) = rq_nodes q ! rq_start q # drop (rq_start q + 1) (rq_nodes q)"
    using Suc.prems by (simp add: Cons_nth_drop_Suc)
  ultimately show ?case using Suc.prems by (simp add: ring_leave_def)
qed simp

text \<open>A full ring buffer whose first item is not at the start of the array loses items when it
  grows: the items stored before the first one stay where they were, the array around them is longer, and after the items up to the end of the old array have left, the next one to leave is a null
  pointer, although the buffer still counts the items that were lost and the new one.\<close>

theorem ring_growth_loses:
  assumes "ring_rep q xs 0" "length xs = rq_max q" "0 < rq_start q"
  shows "\<exists>q1 q2. ring_enter q (Some x) = Inr q1
    \<and> ring_leaves (rq_max q - rq_start q + 1) q1 = Inr (map Some (take (rq_max q - rq_start q) xs) @ [None], q2)
    \<and> rq_length q2 = rq_start q"
proof -
  let ?m = "rq_max q" and ?s = "rq_start q"
  from assms have q: "length (rq_nodes q) = ?m" "rq_length q = ?m" "?s < ?m"
    "\<And>i. i < ?m \<Longrightarrow> rq_nodes q ! ((?s + i) mod ?m) = Some (xs ! i)" "CLIB_QUEUE_ALLOC_SIZE dvd ?m"
    by (auto simp: ring_rep_def)
  have grow: "ring_resize q (?m + 1) = q\<lparr>rq_nodes := rq_nodes q @ replicate 4096 None, rq_max := ?m + 4096\<rparr>"
    using q(5) by (auto simp: ring_resize_def CLIB_QUEUE_ALLOC_SIZE_def Let_def elim!: dvdE)
  define q1 where "q1 = q\<lparr>rq_nodes := (rq_nodes q @ replicate 4096 None)[(?s + ?m) mod (?m + 4096) := Some x],
    rq_max := ?m + 4096, rq_length := ?m + 1\<rparr>"
  have enter: "ring_enter q (Some x) = Inr q1"
    unfolding ring_enter_def q(2) grow using q(1-3) by (simp add: q1_def Let_def)
  have pos: "(?s + ?m) mod (?m + 4096) > ?m \<or> (?s + ?m) mod (?m + 4096) < ?s"
  proof (cases "?s < 4096")
    case False
    then have "(?s + ?m) mod (?m + 4096) = ?s - 4096" using q(3) by (simp add: mod_if)
    with False assms(3) show ?thesis by simp
  qed (use assms(3) in simp)
  have items: "take (?m - ?s + 1) (drop ?s (rq_nodes q1)) = map Some (take (?m - ?s) xs) @ [None]"
  proof (rule nth_equalityI)
    fix i assume "i < length (take (?m - ?s + 1) (drop ?s (rq_nodes q1)))"
    then have i: "i \<le> ?m - ?s" by simp
    then have "(?s + ?m) mod (?m + 4096) \<noteq> ?s + i" using pos q(3) by auto
    then have "rq_nodes q1 ! (?s + i) = (rq_nodes q @ replicate 4096 None) ! (?s + i)" by (simp add: q1_def)
    also have "\<dots> = (map Some (take (?m - ?s) xs) @ [None]) ! i"
      using i q(1,3) q(4) [of i] assms(2) by (cases "i < ?m - ?s") (auto simp: nth_append)
    finally show "take (?m - ?s + 1) (drop ?s (rq_nodes q1)) ! i = (map Some (take (?m - ?s) xs) @ [None]) ! i"
      using i q(1,3) by (simp add: q1_def)
  qed (use q(1,3) assms(2) in \<open>simp add: q1_def\<close>)
  have "ring_leaves (?m - ?s + 1) q1 = Inr (take (?m - ?s + 1) (drop (rq_start q1) (rq_nodes q1)),
      q1\<lparr>rq_start := rq_start q1 + (?m - ?s + 1), rq_length := ?s\<rparr>)"
    by (rule ring_leaves_straight) (use q(1,3) in \<open>simp_all add: q1_def\<close>)
  then show ?thesis using enter items by (auto simp: q1_def)
qed

theorem ring_growth_loses_witness:
  "\<exists>q q1 q2. ring_enter q (Some (9 :: nat)) = Inr q1
    \<and> ring_leaves 4096 q1 = Inr (map Some (replicate 4095 7) @ [None], q2) \<and> rq_length q2 = 1"
proof -
  let ?q = "\<lparr>rq_nodes = replicate 4096 (Some (7 :: nat)), rq_max = 4096, rq_start = 1, rq_length = 4096\<rparr>"
  have "ring_rep ?q (replicate 4096 7) 0" by (auto simp: ring_rep_def CLIB_QUEUE_ALLOC_SIZE_def)
  from ring_growth_loses [OF this, of 9] show ?thesis by (auto simp del: replicate.simps)
qed

end
