(* ===== verification/AVL.thy ===== *)
theory AVL
  imports Uint256
begin

text \<open>
  Balanced search trees (\<open>utils/avl_tree.c\<close>): a tree node has its key, its two children and the
  height that is stored in it. Searching, adding and deleting use the comparison of the caller; an
  iterator keeps a stack of the nodes it is in. The paths of the original (arrays of links from the
  root down) are the recursion here, with the number of slots of the array that are left; memory for
  nodes is always granted.
\<close>

section \<open>Trees\<close>

datatype 'k avl_node = Null | Node 'k "'k avl_node" "'k avl_node" int

primrec height_of :: "'k avl_node \<Rightarrow> int" where
  "height_of Null = 0"
| "height_of (Node k l r h) = h"

text \<open>The child on one side (\<open>a[dir]\<close>), and a node put together from the child on the side \<open>dir\<close> and
  the one on the other side.\<close>

definition kid :: "'k avl_node \<Rightarrow> bool \<Rightarrow> 'k avl_node" where
  "kid n dir = (case n of Null \<Rightarrow> Null | Node k l r h \<Rightarrow> if dir then r else l)"

definition mk_node :: "bool \<Rightarrow> 'k \<Rightarrow> 'k avl_node \<Rightarrow> 'k avl_node \<Rightarrow> int \<Rightarrow> 'k avl_node" where
  "mk_node dir k near far h = (if dir then Node k far near h else Node k near far h)"

text \<open>The tree in place of the node and the change of its height.\<close>

definition avl_rot :: "'k avl_node \<Rightarrow> bool \<Rightarrow> ('k avl_node \<times> int) res" where
  "avl_rot x dir =
     (case x of
        Null \<Rightarrow> Inl Undefined
      | Node xk _ _ hx \<Rightarrow>
          let y = kid x dir
          in (case y of
                Null \<Rightarrow> Inl Undefined
              | Node yk _ _ _ \<Rightarrow>
                  let z = kid y (\<not> dir); hz = height_of z
                  in if hz > height_of (kid y dir)
                     then (case z of
                         Null \<Rightarrow> Inl Undefined
                       | Node zk _ _ _ \<Rightarrow>
                           let x1 = mk_node dir xk (kid z (\<not> dir)) (kid x (\<not> dir)) hz;
                               y1 = mk_node dir yk (kid y dir) (kid z dir) hz
                           in Inr (mk_node dir zk y1 x1 (hz + 1), hz + 1 - hx))
                     else let x1 = mk_node dir xk z (kid x (\<not> dir)) (hz + 1)
                          in Inr (mk_node dir yk (kid y dir) x1 (hz + 2), hz + 2 - hx)))"

text \<open>The test of the difference is in unsigned arithmetic.\<close>

definition avl_tree_balance :: "'k avl_node \<Rightarrow> ('k avl_node \<times> int) res" where
  "avl_tree_balance n =
     (case n of
        Null \<Rightarrow> Inl Undefined
      | Node k l r h \<Rightarrow>
          let h0 = height_of l; h1 = height_of r
          in if (h0 - h1 + 1) mod 2 ^ 32 < 3
             then let h' = (if h0 < h1 then h1 + 1 else h0 + 1) in Inr (Node k l r h', h' - h)
             else avl_rot n (h0 < h1))"

record 'k avl_tree =
  avl_root :: "'k avl_node"
  avl_count :: int
  avl_stack :: "('k avl_node \<times> nat) list option"

definition AVL_TREE_MAX_HEIGHT :: nat where "AVL_TREE_MAX_HEIGHT = 96"

section \<open>Searching, adding, deleting\<close>

primrec find_at :: "('k \<Rightarrow> 'k \<Rightarrow> int) \<Rightarrow> 'k \<Rightarrow> 'k avl_node \<Rightarrow> 'k option" where
  "find_at cmp key Null = None"
| "find_at cmp key (Node k l r h) =
     (let rc = cmp key k in if rc = 0 then Some k else if rc > 0 then find_at cmp key r else find_at cmp key l)"

definition avl_tree_find :: "('k \<Rightarrow> 'k \<Rightarrow> int) \<Rightarrow> 'k avl_tree \<Rightarrow> 'k \<Rightarrow> 'k option" where
  "avl_tree_find cmp t key = find_at cmp key (avl_root t)"

text \<open>On the way back up: whether the next ancestor has to be balanced.\<close>

definition rebalance :: "bool \<Rightarrow> 'k avl_node \<Rightarrow> ('k avl_node \<times> bool) res" where
  "rebalance go n =
     (if go then andThen (avl_tree_balance n) (\<lambda>(n', d). Inr (n', d \<noteq> 0)) else Inr (n, False))"

text \<open>The key found, or the new tree.\<close>

fun add_at ::
    "('k \<Rightarrow> 'k \<Rightarrow> int) \<Rightarrow> 'k \<Rightarrow> nat \<Rightarrow> 'k avl_node \<Rightarrow> ('k + 'k avl_node \<times> bool) res" where
  "add_at cmp key slots Null = Inr (Inr (Node key Null Null 1, True))"
| "add_at cmp key slots (Node k l r h) =
     (let c = cmp key k
      in if c = 0 then Inr (Inl k)
         else if slots = 0 then Inl Undefined
         else andThen (add_at cmp key (slots - 1) (if c > 0 then r else l)) (\<lambda>res.
           case res of
             Inl found \<Rightarrow> Inr (Inl found)
           | Inr (child, go) \<Rightarrow>
               andThen (rebalance go (if c > 0 then Node k l child h else Node k child r h)) (\<lambda>n. Inr (Inr n))))"

definition avl_tree_add :: "('k \<Rightarrow> 'k \<Rightarrow> int) \<Rightarrow> 'k avl_tree \<Rightarrow> 'k \<Rightarrow> ('k \<times> 'k avl_tree) res" where
  "avl_tree_add cmp t key =
     andThen (add_at cmp key (AVL_TREE_MAX_HEIGHT - 1) (avl_root t)) (\<lambda>res.
       case res of
         Inl found \<Rightarrow> Inr (found, t)
       | Inr (root, _) \<Rightarrow> Inr (key, t\<lparr>avl_root := root, avl_count := avl_count t + 1\<rparr>))"

text \<open>Taking out the largest key of a subtree.\<close>

fun del_max :: "nat \<Rightarrow> 'k avl_node \<Rightarrow> ('k \<times> 'k avl_node \<times> bool) res" where
  "del_max slots Null = Inl Undefined"
| "del_max slots (Node k l r h) =
     (if r = Null then Inr (k, l, True)
      else if slots = 0 then Inl Undefined
      else andThen (del_max (slots - 1) r) (\<lambda>(m, r', go).
        andThen (rebalance go (Node k l r' h)) (\<lambda>n. Inr (m, n))))"

fun del_at :: "('k \<Rightarrow> 'k \<Rightarrow> int) \<Rightarrow> 'k \<Rightarrow> nat \<Rightarrow> 'k avl_node \<Rightarrow> ('k avl_node \<times> bool) option res" where
  "del_at cmp key slots Null = Inr None"
| "del_at cmp key slots (Node k l r h) =
     (let rc = cmp key k
      in if rc = 0
         then if l = Null then Inr (Some (r, True))
              else if slots = 0 then Inl Undefined
              else andThen (del_max (slots - 1) l) (\<lambda>(m, l', go).
                andThen (rebalance go (Node m l' r h)) (\<lambda>n. Inr (Some n)))
         else if slots = 0 then Inl Undefined
         else andThen (del_at cmp key (slots - 1) (if rc > 0 then r else l)) (\<lambda>res.
           case res of
             None \<Rightarrow> Inr None
           | Some (child, go) \<Rightarrow>
               andThen (rebalance go (if rc > 0 then Node k l child h else Node k child r h)) (\<lambda>n. Inr (Some n))))"

text \<open>Whether the key was there; the pointer returned for that is never null.\<close>

definition avl_tree_del :: "('k \<Rightarrow> 'k \<Rightarrow> int) \<Rightarrow> 'k avl_tree \<Rightarrow> 'k \<Rightarrow> (bool \<times> 'k avl_tree) res" where
  "avl_tree_del cmp t key =
     andThen (del_at cmp key (AVL_TREE_MAX_HEIGHT - 1) (avl_root t)) (\<lambda>res.
       case res of
         None \<Rightarrow> Inr (False, t)
       | Some (root, _) \<Rightarrow> Inr (True, t\<lparr>avl_root := root, avl_count := avl_count t - 1\<rparr>))"

section \<open>Balanced trees\<close>

primrec inorder :: "'k avl_node \<Rightarrow> 'k list" where
  "inorder Null = []"
| "inorder (Node k l r h) = inorder l @ k # inorder r"

primrec avl_ok :: "'k avl_node \<Rightarrow> bool" where
  "avl_ok Null = True"
| "avl_ok (Node k l r h) = (avl_ok l \<and> avl_ok r \<and> h = max (height_of l) (height_of r) + 1
     \<and> \<bar>height_of l - height_of r\<bar> \<le> 1)"

lemma height_nonneg: "avl_ok t \<Longrightarrow> 0 \<le> height_of t"
  by (induction t) auto

lemma height_zero: "avl_ok t \<Longrightarrow> height_of t = 0 \<longleftrightarrow> t = Null"
  by (cases t) (auto simp: max_def dest: height_nonneg)

text \<open>A node with balanced children whose heights differ by at most two.\<close>

definition near_ok :: "'k avl_node \<Rightarrow> 'k avl_node \<Rightarrow> bool" where
  "near_ok l r \<longleftrightarrow> avl_ok l \<and> avl_ok r \<and> \<bar>height_of l - height_of r\<bar> \<le> 2"

lemma rot_left_heavy:
  assumes "avl_ok l" "avl_ok r" "height_of l = height_of r + 2"
  shows "\<exists>n. avl_rot (Node k l r h) False = Inr (n, height_of n - h) \<and> avl_ok n \<and> inorder n = inorder l @ k # inorder r
    \<and> height_of l \<le> height_of n \<and> height_of n \<le> height_of l + 1"
proof -
  have nn: "0 \<le> height_of r" using assms by (simp add: height_nonneg)
  with assms obtain yk w z hy where l: "l = Node yk w z hy" by (cases l) auto
  show ?thesis
  proof (cases "height_of z > height_of w")
    case True
    with assms l nn obtain zk b c hz where "z = Node zk b c hz" using height_nonneg [of w] by (cases z) auto
    with True l assms show ?thesis by (auto simp: avl_rot_def kid_def mk_node_def Let_def)
  next
    case False
    with l assms show ?thesis by (auto simp: avl_rot_def kid_def mk_node_def Let_def)
  qed
qed

lemma rot_right_heavy:
  assumes "avl_ok l" "avl_ok r" "height_of r = height_of l + 2"
  shows "\<exists>n. avl_rot (Node k l r h) True = Inr (n, height_of n - h) \<and> avl_ok n \<and> inorder n = inorder l @ k # inorder r
    \<and> height_of r \<le> height_of n \<and> height_of n \<le> height_of r + 1"
proof -
  have nn: "0 \<le> height_of l" using assms by (simp add: height_nonneg)
  with assms obtain yk z w hy where r: "r = Node yk z w hy" by (cases r) auto
  show ?thesis
  proof (cases "height_of z > height_of w")
    case True
    with assms r nn obtain zk b c hz where "z = Node zk b c hz" using height_nonneg [of w] by (cases z) auto
    with True r assms show ?thesis by (auto simp: avl_rot_def kid_def mk_node_def Let_def)
  next
    case False
    with r assms show ?thesis by (auto simp: avl_rot_def kid_def mk_node_def Let_def)
  qed
qed

lemma unsigned_test: "\<bar>d\<bar> \<le> 2 \<Longrightarrow> (d + 1 :: int) mod 2 ^ 32 < 3 \<longleftrightarrow> \<bar>d\<bar> \<le> 1"
proof -
  assume "\<bar>d\<bar> \<le> 2"
  then consider "d = -2" | "d = -1" | "d = 0" | "d = 1" | "d = 2" by linarith
  then show ?thesis by cases auto
qed

lemma balance_ok:
  assumes "near_ok l r"
  shows "\<exists>n. avl_tree_balance (Node k l r h) = Inr (n, height_of n - h) \<and> avl_ok n \<and> inorder n = inorder l @ k # inorder r
    \<and> max (height_of l) (height_of r) \<le> height_of n \<and> height_of n \<le> max (height_of l) (height_of r) + 1
    \<and> (\<bar>height_of l - height_of r\<bar> \<le> 1 \<longrightarrow> height_of n = max (height_of l) (height_of r) + 1)"
proof -
  have test: "(height_of l - height_of r + 1) mod 2 ^ 32 < 3 \<longleftrightarrow> \<bar>height_of l - height_of r\<bar> \<le> 1"
    using assms by (intro unsigned_test) (simp add: near_ok_def)
  consider "\<bar>height_of l - height_of r\<bar> \<le> 1" | "height_of l = height_of r + 2" | "height_of r = height_of l + 2"
    using assms unfolding near_ok_def by linarith
  then show ?thesis
  proof cases
    case 1
    with assms show ?thesis using test by (auto simp: avl_tree_balance_def near_ok_def Let_def)
  next
    case 2
    with rot_left_heavy [of l r k h] assms test show ?thesis
      by (auto simp: avl_tree_balance_def near_ok_def Let_def)
  next
    case 3
    with rot_right_heavy [of l r k h] assms test show ?thesis
      by (auto simp: avl_tree_balance_def near_ok_def Let_def)
  qed
qed

text \<open>
  One step on the way back up, after the height of one child changed by at most one: either the
  ancestor has to look at its height again or it is as before.
\<close>

lemma rebalance_ok:
  assumes "near_ok l r" "go \<or> avl_ok (Node k l r h)"
    and "h = max hl hr + 1" "\<bar>hl - hr\<bar> \<le> 1" "\<bar>height_of l - hl\<bar> \<le> 1" "\<bar>height_of r - hr\<bar> \<le> 1"
    and "height_of l = hl \<or> height_of r = hr"
  shows "\<exists>n go'. rebalance go (Node k l r h) = Inr (n, go') \<and> avl_ok n \<and> inorder n = inorder l @ k # inorder r
    \<and> \<bar>height_of n - h\<bar> \<le> 1 \<and> (\<not> go' \<longrightarrow> height_of n = h)
    \<and> (hl \<le> height_of l \<and> hr \<le> height_of r \<longrightarrow> h \<le> height_of n)
    \<and> (height_of l \<le> hl \<and> height_of r \<le> hr \<longrightarrow> height_of n \<le> h)"
proof (cases go)
  case True
  from balance_ok [OF assms(1), of k h] obtain n where n:
    "avl_tree_balance (Node k l r h) = Inr (n, height_of n - h)" "avl_ok n" "inorder n = inorder l @ k # inorder r"
    "max (height_of l) (height_of r) \<le> height_of n" "height_of n \<le> max (height_of l) (height_of r) + 1"
    "\<bar>height_of l - height_of r\<bar> \<le> 1 \<longrightarrow> height_of n = max (height_of l) (height_of r) + 1" by blast
  have "rebalance go (Node k l r h) = Inr (n, height_of n - h \<noteq> 0)" using True n(1) by (simp add: rebalance_def)
  moreover have "\<bar>height_of n - h\<bar> \<le> 1 \<and> (hl \<le> height_of l \<and> hr \<le> height_of r \<longrightarrow> h \<le> height_of n)
    \<and> (height_of l \<le> hl \<and> height_of r \<le> hr \<longrightarrow> height_of n \<le> h)"
    using n(4-6) assms(3-7) by (auto simp: max_def abs_if split: if_splits)
  ultimately show ?thesis using n(2,3) by auto
next
  case False
  with assms show ?thesis by (auto simp: rebalance_def)
qed

section \<open>Keys in order\<close>

text \<open>What adding, deleting and searching mean on the sorted list of keys.\<close>

primrec ins_keys :: "('k \<Rightarrow> 'k \<Rightarrow> int) \<Rightarrow> 'k \<Rightarrow> 'k list \<Rightarrow> 'k list" where
  "ins_keys cmp x [] = [x]"
| "ins_keys cmp x (a # xs) = (if cmp x a < 0 then x # a # xs else if cmp x a = 0 then a # xs else a # ins_keys cmp x xs)"

primrec del_keys :: "('k \<Rightarrow> 'k \<Rightarrow> int) \<Rightarrow> 'k \<Rightarrow> 'k list \<Rightarrow> 'k list" where
  "del_keys cmp x [] = []"
| "del_keys cmp x (a # xs) = (if cmp x a = 0 then xs else a # del_keys cmp x xs)"

abbreviation find_keys :: "('k \<Rightarrow> 'k \<Rightarrow> int) \<Rightarrow> 'k \<Rightarrow> 'k list \<Rightarrow> 'k option" where
  "find_keys cmp x xs \<equiv> List.find (\<lambda>a. cmp x a = 0) xs"

text \<open>A comparison function that orders the valid keys by a rank.\<close>

locale key_order =
  fixes cmp :: "'k \<Rightarrow> 'k \<Rightarrow> int" and rank :: "'k \<Rightarrow> 'r::linorder" and valid :: "'k \<Rightarrow> bool"
  assumes cmp_less: "valid a \<Longrightarrow> valid b \<Longrightarrow> cmp a b < 0 \<longleftrightarrow> rank a < rank b"
    and cmp_zero: "valid a \<Longrightarrow> valid b \<Longrightarrow> cmp a b = 0 \<longleftrightarrow> rank a = rank b"
begin

definition sorted_keys :: "'k list \<Rightarrow> bool" where
  "sorted_keys xs \<longleftrightarrow> sorted_wrt (\<lambda>a b. rank a < rank b) xs \<and> (\<forall>k \<in> set xs. valid k)"

lemma sorted_keys_simps [simp]:
  "sorted_keys []"
  "sorted_keys (a # xs) \<longleftrightarrow> valid a \<and> (\<forall>b \<in> set xs. rank a < rank b) \<and> sorted_keys xs"
  "sorted_keys (xs @ ys) \<longleftrightarrow> sorted_keys xs \<and> sorted_keys ys \<and> (\<forall>a \<in> set xs. \<forall>b \<in> set ys. rank a < rank b)"
  by (auto simp: sorted_keys_def sorted_wrt_append)

lemma find_app:
  assumes "sorted_keys (xs @ a # ys)" "valid x"
  shows "find_keys cmp x (xs @ a # ys) =
    (if cmp x a = 0 then Some a else if cmp x a > 0 then find_keys cmp x ys else find_keys cmp x xs)"
proof -
  have "cmp x b \<noteq> 0" if "b \<in> set xs" "\<not> cmp x a < 0" for b
    using that assms by (auto simp: cmp_zero cmp_less sorted_keys_def sorted_wrt_append)
  then have xs: "find_keys cmp x xs = None" if "\<not> cmp x a < 0" using that by (auto simp: find_None_iff)
  have "cmp x b \<noteq> 0" if "b \<in> set ys" "cmp x a < 0" for b
    using that assms by (auto simp: cmp_zero cmp_less sorted_keys_def sorted_wrt_append)
  then have ys: "find_keys cmp x ys = None" if "cmp x a < 0" using that by (auto simp: find_None_iff)
  have app: "find_keys cmp x (us @ vs) = (case find_keys cmp x us of None \<Rightarrow> find_keys cmp x vs | Some k \<Rightarrow> Some k)" for us vs
    by (induction us) auto
  show ?thesis using xs ys by (auto simp: app split: option.split)
qed

lemma ins_app:
  assumes "sorted_keys (xs @ a # ys)" "valid x" "find_keys cmp x (xs @ a # ys) = None"
  shows "ins_keys cmp x (xs @ a # ys) = (if cmp x a > 0 then xs @ a # ins_keys cmp x ys else ins_keys cmp x xs @ a # ys)"
  using assms
proof (induction xs)
  case (Cons b xs)
  then have "cmp x b < 0 \<longleftrightarrow> rank x < rank b" "cmp x b = 0 \<longleftrightarrow> rank x = rank b"
    "cmp x a < 0 \<longleftrightarrow> rank x < rank a" "cmp x a = 0 \<longleftrightarrow> rank x = rank a" "rank b < rank a"
    by (auto simp: cmp_less cmp_zero)
  with Cons show ?case by (auto split: if_splits)
qed (auto split: if_splits)

lemma del_app:
  assumes "sorted_keys (xs @ a # ys)" "valid x"
  shows "del_keys cmp x (xs @ a # ys) =
    (if cmp x a = 0 then xs @ ys else if cmp x a > 0 then xs @ a # del_keys cmp x ys else del_keys cmp x xs @ a # ys)"
proof -
  have skip: "del_keys cmp x us = us" if "\<forall>b \<in> set us. cmp x b \<noteq> 0" for us using that by (induction us) auto
  have app: "del_keys cmp x (us @ vs) = (if \<forall>b \<in> set us. cmp x b \<noteq> 0 then us @ del_keys cmp x vs else del_keys cmp x us @ vs)" for us vs
    by (induction us) auto
  have "cmp x b \<noteq> 0" if "b \<in> set xs" "\<not> cmp x a < 0" for b
    using that assms by (auto simp: cmp_zero cmp_less sorted_keys_def sorted_wrt_append)
  moreover have "cmp x b \<noteq> 0" if "b \<in> set ys" "cmp x a < 0" for b
    using that assms by (auto simp: cmp_zero cmp_less sorted_keys_def sorted_wrt_append)
  ultimately show ?thesis using skip by (auto simp: app)
qed

lemma find_at_keys: "sorted_keys (inorder t) \<Longrightarrow> valid x \<Longrightarrow> find_at cmp x t = find_keys cmp x (inorder t)"
proof (induction t)
  case (Node k l r h)
  then show ?case using find_app [of "inorder l" k "inorder r" x] by (auto simp: Let_def)
qed simp

lemma add_at_found:
  "sorted_keys (inorder t) \<Longrightarrow> valid x \<Longrightarrow> height_of t \<le> int slots \<Longrightarrow> avl_ok t \<Longrightarrow>
    find_keys cmp x (inorder t) = Some k \<Longrightarrow> add_at cmp x slots t = Inr (Inl k)"
proof (induction t arbitrary: slots)
  case (Node a l r h)
  then show ?case using find_app [of "inorder l" a "inorder r" x] height_nonneg [of l] height_nonneg [of r]
    by (auto simp: Let_def of_nat_diff split: if_splits)
qed simp

lemma add_at_new:
  "sorted_keys (inorder t) \<Longrightarrow> valid x \<Longrightarrow> height_of t \<le> int slots \<Longrightarrow> avl_ok t \<Longrightarrow>
    find_keys cmp x (inorder t) = None \<Longrightarrow> \<exists>t' go. add_at cmp x slots t = Inr (Inr (t', go)) \<and> avl_ok t'
      \<and> inorder t' = ins_keys cmp x (inorder t) \<and> height_of t \<le> height_of t' \<and> height_of t' \<le> height_of t + 1
      \<and> (\<not> go \<longrightarrow> height_of t' = height_of t)"
proof (induction t arbitrary: slots)
  case (Node a l r h)
  note find = find_app [of "inorder l" a "inorder r" x] and ins = ins_app [of "inorder l" a "inorder r" x]
  have heights: "0 < slots" "height_of l \<le> int (slots - 1)" "height_of r \<le> int (slots - 1)"
    using Node.prems height_nonneg [of l] height_nonneg [of r] by auto
  have c: "cmp x a \<noteq> 0" using Node.prems find by (auto split: if_splits)
  show ?case
  proof (cases "cmp x a > 0")
    case True
    then have "find_keys cmp x (inorder r) = None" using Node.prems find c by simp
    then obtain r' go where r': "add_at cmp x (slots - 1) r = Inr (Inr (r', go))" "avl_ok r'"
        "inorder r' = ins_keys cmp x (inorder r)" "height_of r \<le> height_of r'" "height_of r' \<le> height_of r + 1"
        "\<not> go \<longrightarrow> height_of r' = height_of r"
      using Node.IH(2) [of "slots - 1"] Node.prems heights by auto
    have "\<exists>n go'. rebalance go (Node a l r' h) = Inr (n, go') \<and> avl_ok n \<and> inorder n = inorder l @ a # inorder r'
        \<and> \<bar>height_of n - h\<bar> \<le> 1 \<and> (\<not> go' \<longrightarrow> height_of n = h)
        \<and> (height_of l \<le> height_of l \<and> height_of r \<le> height_of r' \<longrightarrow> h \<le> height_of n)
        \<and> (height_of l \<le> height_of l \<and> height_of r' \<le> height_of r \<longrightarrow> height_of n \<le> h)"
      using Node.prems r' by (intro rebalance_ok) (auto simp: near_ok_def)
    then show ?thesis using True c r' heights ins Node.prems by auto
  next
    case False
    then have "find_keys cmp x (inorder l) = None" using Node.prems find c by simp
    then obtain l' go where l': "add_at cmp x (slots - 1) l = Inr (Inr (l', go))" "avl_ok l'"
        "inorder l' = ins_keys cmp x (inorder l)" "height_of l \<le> height_of l'" "height_of l' \<le> height_of l + 1"
        "\<not> go \<longrightarrow> height_of l' = height_of l"
      using Node.IH(1) [of "slots - 1"] Node.prems heights by auto
    have "\<exists>n go'. rebalance go (Node a l' r h) = Inr (n, go') \<and> avl_ok n \<and> inorder n = inorder l' @ a # inorder r
        \<and> \<bar>height_of n - h\<bar> \<le> 1 \<and> (\<not> go' \<longrightarrow> height_of n = h)
        \<and> (height_of l \<le> height_of l' \<and> height_of r \<le> height_of r \<longrightarrow> h \<le> height_of n)
        \<and> (height_of l' \<le> height_of l \<and> height_of r \<le> height_of r \<longrightarrow> height_of n \<le> h)"
      using Node.prems l' by (intro rebalance_ok) (auto simp: near_ok_def)
    then show ?thesis using False c l' heights ins Node.prems by auto
  qed
qed auto

end

section \<open>Deleting\<close>

lemma del_max_ok:
  "avl_ok t \<Longrightarrow> t \<noteq> Null \<Longrightarrow> height_of t \<le> int slots + 1 \<Longrightarrow> \<exists>m t' go. del_max slots t = Inr (m, t', go) \<and> avl_ok t'
    \<and> inorder t = inorder t' @ [m] \<and> height_of t - 1 \<le> height_of t' \<and> height_of t' \<le> height_of t
    \<and> (\<not> go \<longrightarrow> height_of t' = height_of t)"
proof (induction t arbitrary: slots)
  case (Node k l r h)
  show ?case
  proof (cases "r = Null")
    case True
    with Node.prems height_nonneg [of l] show ?thesis by auto
  next
    case False
    have pos: "0 < height_of r" using False Node.prems height_zero [of r] height_nonneg [of r] by auto
    then have slots: "0 < slots" "height_of r \<le> int (slots - 1) + 1"
      using Node.prems height_nonneg [of l] by auto
    then obtain m r' go where r': "del_max (slots - 1) r = Inr (m, r', go)" "avl_ok r'" "inorder r = inorder r' @ [m]"
        "height_of r - 1 \<le> height_of r'" "height_of r' \<le> height_of r" "\<not> go \<longrightarrow> height_of r' = height_of r"
      using Node.IH(2) [of "slots - 1"] False Node.prems by auto
    have "\<exists>n go'. rebalance go (Node k l r' h) = Inr (n, go') \<and> avl_ok n \<and> inorder n = inorder l @ k # inorder r'
        \<and> \<bar>height_of n - h\<bar> \<le> 1 \<and> (\<not> go' \<longrightarrow> height_of n = h)
        \<and> (height_of l \<le> height_of l \<and> height_of r \<le> height_of r' \<longrightarrow> h \<le> height_of n)
        \<and> (height_of l \<le> height_of l \<and> height_of r' \<le> height_of r \<longrightarrow> height_of n \<le> h)"
      using Node.prems r' by (intro rebalance_ok) (auto simp: near_ok_def)
    then show ?thesis using False slots r' by auto
  qed
qed simp

context key_order
begin

lemma del_at_absent:
  "sorted_keys (inorder t) \<Longrightarrow> valid x \<Longrightarrow> height_of t \<le> int slots \<Longrightarrow> avl_ok t \<Longrightarrow>
    find_keys cmp x (inorder t) = None \<Longrightarrow> del_at cmp x slots t = Inr None"
proof (induction t arbitrary: slots)
  case (Node a l r h)
  then show ?case using find_app [of "inorder l" a "inorder r" x] height_nonneg [of l] height_nonneg [of r]
    by (auto simp: Let_def of_nat_diff split: if_splits)
qed simp

lemma del_at_present:
  "sorted_keys (inorder t) \<Longrightarrow> valid x \<Longrightarrow> height_of t \<le> int slots \<Longrightarrow> avl_ok t \<Longrightarrow>
    find_keys cmp x (inorder t) = Some b \<Longrightarrow> \<exists>t' go. del_at cmp x slots t = Inr (Some (t', go)) \<and> avl_ok t'
      \<and> inorder t' = del_keys cmp x (inorder t) \<and> height_of t - 1 \<le> height_of t' \<and> height_of t' \<le> height_of t
      \<and> (\<not> go \<longrightarrow> height_of t' = height_of t)"
proof (induction t arbitrary: slots)
  case (Node a l r h)
  note find = find_app [of "inorder l" a "inorder r" x] and del = del_app [of "inorder l" a "inorder r" x]
  have heights: "0 < slots" "height_of l \<le> int (slots - 1)" "height_of r \<le> int (slots - 1)"
    using Node.prems height_nonneg [of l] height_nonneg [of r] by auto
  consider "cmp x a = 0" "l = Null" | "cmp x a = 0" "l \<noteq> Null" | "cmp x a > 0" | "cmp x a < 0" by linarith
  then show ?case
  proof cases
    case 1
    then show ?thesis using Node.prems del height_nonneg [of r] by auto
  next
    case 2
    obtain m l' go where l': "del_max (slots - 1) l = Inr (m, l', go)" "avl_ok l'" "inorder l = inorder l' @ [m]"
        "height_of l - 1 \<le> height_of l'" "height_of l' \<le> height_of l" "\<not> go \<longrightarrow> height_of l' = height_of l"
      using del_max_ok [of l "slots - 1"] 2 Node.prems heights by auto
    have "\<exists>n go'. rebalance go (Node m l' r h) = Inr (n, go') \<and> avl_ok n \<and> inorder n = inorder l' @ m # inorder r
        \<and> \<bar>height_of n - h\<bar> \<le> 1 \<and> (\<not> go' \<longrightarrow> height_of n = h)
        \<and> (height_of l \<le> height_of l' \<and> height_of r \<le> height_of r \<longrightarrow> h \<le> height_of n)
        \<and> (height_of l' \<le> height_of l \<and> height_of r \<le> height_of r \<longrightarrow> height_of n \<le> h)"
      using Node.prems l' by (intro rebalance_ok) (auto simp: near_ok_def)
    then show ?thesis using 2 heights l' del Node.prems by auto
  next
    case 3
    then have "find_keys cmp x (inorder r) = Some b" using Node.prems find by simp
    then obtain r' go where r': "del_at cmp x (slots - 1) r = Inr (Some (r', go))" "avl_ok r'"
        "inorder r' = del_keys cmp x (inorder r)" "height_of r - 1 \<le> height_of r'" "height_of r' \<le> height_of r"
        "\<not> go \<longrightarrow> height_of r' = height_of r"
      using Node.IH(2) [of "slots - 1"] Node.prems heights by auto
    have "\<exists>n go'. rebalance go (Node a l r' h) = Inr (n, go') \<and> avl_ok n \<and> inorder n = inorder l @ a # inorder r'
        \<and> \<bar>height_of n - h\<bar> \<le> 1 \<and> (\<not> go' \<longrightarrow> height_of n = h)
        \<and> (height_of l \<le> height_of l \<and> height_of r \<le> height_of r' \<longrightarrow> h \<le> height_of n)
        \<and> (height_of l \<le> height_of l \<and> height_of r' \<le> height_of r \<longrightarrow> height_of n \<le> h)"
      using Node.prems r' by (intro rebalance_ok) (auto simp: near_ok_def)
    then show ?thesis using 3 r' heights del Node.prems by auto
  next
    case 4
    then have "find_keys cmp x (inorder l) = Some b" using Node.prems find by simp
    then obtain l' go where l': "del_at cmp x (slots - 1) l = Inr (Some (l', go))" "avl_ok l'"
        "inorder l' = del_keys cmp x (inorder l)" "height_of l - 1 \<le> height_of l'" "height_of l' \<le> height_of l"
        "\<not> go \<longrightarrow> height_of l' = height_of l"
      using Node.IH(1) [of "slots - 1"] Node.prems heights by auto
    have "\<exists>n go'. rebalance go (Node a l' r h) = Inr (n, go') \<and> avl_ok n \<and> inorder n = inorder l' @ a # inorder r
        \<and> \<bar>height_of n - h\<bar> \<le> 1 \<and> (\<not> go' \<longrightarrow> height_of n = h)
        \<and> (height_of l \<le> height_of l' \<and> height_of r \<le> height_of r \<longrightarrow> h \<le> height_of n)
        \<and> (height_of l' \<le> height_of l \<and> height_of r \<le> height_of r \<longrightarrow> height_of n \<le> h)"
      using Node.prems l' by (intro rebalance_ok) (auto simp: near_ok_def)
    then show ?thesis using 4 l' heights del Node.prems by auto
  qed
qed auto

end

section \<open>How high a tree can be\<close>

text \<open>The fewest nodes of a balanced tree of each height, with the next one.\<close>

primrec min_nodes2 :: "nat \<Rightarrow> nat \<times> nat" where
  "min_nodes2 0 = (0, 1)"
| "min_nodes2 (Suc n) = (case min_nodes2 n of (a, b) \<Rightarrow> (b, a + b + 1))"

definition min_nodes :: "nat \<Rightarrow> nat" where "min_nodes n = fst (min_nodes2 n)"

lemma min_nodes_simps [simp]:
  "min_nodes 0 = 0" "min_nodes (Suc 0) = 1" "min_nodes (Suc (Suc n)) = min_nodes n + min_nodes (Suc n) + 1"
  by (simp_all add: min_nodes_def split_beta)

lemma min_nodes_mono: "m \<le> n \<Longrightarrow> min_nodes m \<le> min_nodes n"
proof (rule lift_Suc_mono_le [of min_nodes])
  show "min_nodes n \<le> min_nodes (Suc n)" for n by (cases n) simp_all
qed

lemma min_nodes2_add16:
  assumes "min_nodes2 n = (a, b)"
  shows "min_nodes2 (n + 16) = (610 * a + 987 * b + 1596, 987 * a + 1597 * b + 2583)"
proof -
  have step: "min_nodes2 (m + 4) = (2 * a + 3 * b + 4, 3 * a + 5 * b + 7)" if "min_nodes2 m = (a, b)" for m a b
    using that by (simp add: eval_nat_numeral)
  from step [OF step [OF step [OF step [OF assms]]]] show ?thesis by (simp add: ac_simps)
qed

lemma min_nodes_96: "2 ^ 64 < min_nodes 96"
proof -
  have "min_nodes2 0 = (0, 1)" by simp
  from min_nodes2_add16 [OF min_nodes2_add16 [OF min_nodes2_add16 [OF min_nodes2_add16
      [OF min_nodes2_add16 [OF min_nodes2_add16 [OF this]]]]]]
  show ?thesis by (simp add: min_nodes_def)
qed

lemma height_nodes: "avl_ok t \<Longrightarrow> min_nodes (nat (height_of t)) \<le> length (inorder t)"
proof (induction t)
  case (Node k l r h)
  let ?l = "nat (height_of l)" and ?r = "nat (height_of r)"
  have nn: "0 \<le> height_of l" "0 \<le> height_of r" using Node.prems by (simp_all add: height_nonneg)
  have h: "nat h = Suc (max ?l ?r)" using Node.prems nn by (auto simp: max_def nat_add_distrib)
  have near: "?l \<le> Suc ?r" "?r \<le> Suc ?l" using Node.prems nn by auto
  have "min_nodes (Suc (max ?l ?r)) \<le> min_nodes ?l + min_nodes ?r + 1"
  proof (cases "max ?l ?r")
    case (Suc m)
    then have "m \<le> ?l" "m \<le> ?r" "?l = Suc m \<or> ?r = Suc m" using near by (auto simp: max_def split: if_splits)
    then show ?thesis using Suc min_nodes_mono [of m ?l] min_nodes_mono [of m ?r] by auto
  qed simp
  with Node h show ?case by simp
qed simp

text \<open>Fewer keys than there are addresses: the path never leaves its array.\<close>

lemma height_fits:
  assumes "avl_ok t" "length (inorder t) < 2 ^ 64"
  shows "height_of t \<le> int (AVL_TREE_MAX_HEIGHT - 1)"
proof (rule ccontr)
  assume "\<not> ?thesis"
  then have "min_nodes 96 \<le> min_nodes (nat (height_of t))" by (intro min_nodes_mono) (simp add: AVL_TREE_MAX_HEIGHT_def)
  with height_nodes [OF assms(1)] assms(2) min_nodes_96 show False by simp
qed

section \<open>The contract of a search tree\<close>

datatype 'k key_op = Add 'k | Del 'k | Find 'k

datatype 'k key_res = Key "'k option" | Deleted bool

primrec spec_key_op :: "('k \<Rightarrow> 'k \<Rightarrow> int) \<Rightarrow> 'k list \<Rightarrow> 'k key_op \<Rightarrow> 'k key_res \<times> 'k list" where
  "spec_key_op cmp xs (Add x) =
     (Key (Some (case find_keys cmp x xs of None \<Rightarrow> x | Some k \<Rightarrow> k)),
      if find_keys cmp x xs = None then ins_keys cmp x xs else xs)"
| "spec_key_op cmp xs (Del x) = (Deleted (find_keys cmp x xs \<noteq> None), del_keys cmp x xs)"
| "spec_key_op cmp xs (Find x) = (Key (find_keys cmp x xs), xs)"

primrec spec_keys :: "('k \<Rightarrow> 'k \<Rightarrow> int) \<Rightarrow> 'k list \<Rightarrow> 'k key_op list \<Rightarrow> 'k key_res list \<times> 'k list" where
  "spec_keys cmp xs [] = ([], xs)"
| "spec_keys cmp xs (x # ops) =
     (let (r, ys) = spec_key_op cmp xs x; (rs, zs) = spec_keys cmp ys ops in (r # rs, zs))"

primrec op_key :: "'k key_op \<Rightarrow> 'k" where
  "op_key (Add x) = x" | "op_key (Del x) = x" | "op_key (Find x) = x"

primrec tree_op ::
    "('t \<Rightarrow> 'k \<Rightarrow> ('k \<times> 't) res) \<Rightarrow> ('t \<Rightarrow> 'k \<Rightarrow> (bool \<times> 't) res) \<Rightarrow> ('t \<Rightarrow> 'k \<Rightarrow> 'k option)
      \<Rightarrow> 't \<Rightarrow> 'k key_op \<Rightarrow> ('k key_res \<times> 't) res" where
  "tree_op add del lookup t (Add x) = andThen (add t x) (\<lambda>(k, t'). Inr (Key (Some k), t'))"
| "tree_op add del lookup t (Del x) = andThen (del t x) (\<lambda>(b, t'). Inr (Deleted b, t'))"
| "tree_op add del lookup t (Find x) = Inr (Key (lookup t x), t)"

primrec tree_ops ::
    "('t \<Rightarrow> 'k \<Rightarrow> ('k \<times> 't) res) \<Rightarrow> ('t \<Rightarrow> 'k \<Rightarrow> (bool \<times> 't) res) \<Rightarrow> ('t \<Rightarrow> 'k \<Rightarrow> 'k option)
      \<Rightarrow> 't \<Rightarrow> 'k key_op list \<Rightarrow> ('k key_res list \<times> 't) res" where
  "tree_ops add del lookup t [] = Inr ([], t)"
| "tree_ops add del lookup t (x # ops) =
     andThen (tree_op add del lookup t x) (\<lambda>(r, t'). andThen (tree_ops add del lookup t' ops) (\<lambda>(rs, t''). Inr (r # rs, t'')))"

locale search_tree = key_order cmp rank valid
  for cmp :: "'k \<Rightarrow> 'k \<Rightarrow> int" and rank :: "'k \<Rightarrow> 'r::linorder" and valid :: "'k \<Rightarrow> bool" +
  fixes add :: "'t \<Rightarrow> 'k \<Rightarrow> ('k \<times> 't) res" and del :: "'t \<Rightarrow> 'k \<Rightarrow> (bool \<times> 't) res" and lookup :: "'t \<Rightarrow> 'k \<Rightarrow> 'k option"
    and tree_inv :: "'t \<Rightarrow> bool" and keys :: "'t \<Rightarrow> 'k list"
  assumes add_law: "tree_inv t \<Longrightarrow> valid x \<Longrightarrow> length (keys t) < 2 ^ 64 \<Longrightarrow>
      \<exists>t'. add t x = Inr (case find_keys cmp x (keys t) of None \<Rightarrow> x | Some k \<Rightarrow> k, t') \<and> tree_inv t'
        \<and> keys t' = (if find_keys cmp x (keys t) = None then ins_keys cmp x (keys t) else keys t)"
    and del_law: "tree_inv t \<Longrightarrow> valid x \<Longrightarrow> length (keys t) < 2 ^ 64 \<Longrightarrow>
      \<exists>t'. del t x = Inr (find_keys cmp x (keys t) \<noteq> None, t') \<and> tree_inv t' \<and> keys t' = del_keys cmp x (keys t)"
    and find_law: "tree_inv t \<Longrightarrow> valid x \<Longrightarrow> lookup t x = find_keys cmp x (keys t)"
begin

lemma op_refines:
  assumes "tree_inv t" "valid (op_key x)" "length (keys t) < 2 ^ 64"
  shows "\<exists>t'. tree_op add del lookup t x = Inr (fst (spec_key_op cmp (keys t) x), t') \<and> tree_inv t'
    \<and> keys t' = snd (spec_key_op cmp (keys t) x)"
  using assms add_law [of t "op_key x"] del_law [of t "op_key x"] find_law [of t "op_key x"]
  by (cases x) (auto split: option.splits)

lemma length_ins_keys: "length (ins_keys cmp x xs) \<le> Suc (length xs)"
  by (induction xs) auto

lemma length_del_keys: "length (del_keys cmp x xs) \<le> length xs"
  by (induction xs) auto

lemma op_length: "length (snd (spec_key_op cmp xs x)) \<le> Suc (length xs)"
  using length_ins_keys length_del_keys [THEN le_SucI] by (cases x) auto

lemma ops_refine:
  assumes "tree_inv t" "\<forall>x \<in> set ops. valid (op_key x)" "length (keys t) + length ops < 2 ^ 64"
  shows "\<exists>t'. tree_ops add del lookup t ops = Inr (fst (spec_keys cmp (keys t) ops), t') \<and> tree_inv t'
    \<and> keys t' = snd (spec_keys cmp (keys t) ops)"
  using assms
proof (induction ops arbitrary: t)
  case (Cons x ops)
  then obtain t' where t': "tree_op add del lookup t x = Inr (fst (spec_key_op cmp (keys t) x), t')" "tree_inv t'"
      "keys t' = snd (spec_key_op cmp (keys t) x)"
    using op_refines [of t x] by auto
  have "length (keys t') + length ops < 2 ^ 64"
    using op_length [of "keys t" x] Cons.prems(3) by (simp add: t'(3))
  with Cons.IH [OF t'(2)] Cons.prems t' show ?case by (auto simp: split_beta Let_def)
qed simp

end

text \<open>Every ordering of keys makes the balanced trees search trees.\<close>

context key_order
begin

definition tree_ok :: "'k avl_tree \<Rightarrow> bool" where
  "tree_ok t \<longleftrightarrow> avl_ok (avl_root t) \<and> sorted_keys (inorder (avl_root t))
     \<and> avl_count t = int (length (inorder (avl_root t)))"

lemma sorted_del: "sorted_keys xs \<Longrightarrow> sorted_keys (del_keys cmp x xs)"
proof -
  have "set (del_keys cmp x xs) \<subseteq> set xs" for xs by (induction xs) auto
  then show "sorted_keys xs \<Longrightarrow> sorted_keys (del_keys cmp x xs)" by (induction xs) auto
qed

lemma sorted_ins: "sorted_keys xs \<Longrightarrow> valid x \<Longrightarrow> sorted_keys (ins_keys cmp x xs)"
proof -
  have set: "set (ins_keys cmp x xs) \<subseteq> insert x (set xs)" for xs by (induction xs) auto
  assume "sorted_keys xs" and v: "valid x"
  then show ?thesis
  proof (induction xs)
    case (Cons a xs)
    then have "cmp x a < 0 \<longleftrightarrow> rank x < rank a" "cmp x a = 0 \<longleftrightarrow> rank x = rank a" by (auto simp: cmp_less cmp_zero)
    with Cons v set [of xs] show ?case by force
  qed (simp add: v)
qed

lemma length_ins: "find_keys cmp x xs = None \<Longrightarrow> length (ins_keys cmp x xs) = Suc (length xs)"
  by (induction xs) (auto split: if_splits)

lemma length_del: "find_keys cmp x xs = Some k \<Longrightarrow> Suc (length (del_keys cmp x xs)) = length xs"
  by (induction xs) (auto split: if_splits)

lemma del_absent: "find_keys cmp x xs = None \<Longrightarrow> del_keys cmp x xs = xs"
  by (induction xs) (auto split: if_splits)

end

sublocale key_order \<subseteq> avl: search_tree cmp rank valid "avl_tree_add cmp" "avl_tree_del cmp" "avl_tree_find cmp"
  tree_ok "\<lambda>t. inorder (avl_root t)"
proof
  fix t x
  assume t: "tree_ok t" "valid x" "length (inorder (avl_root t)) < 2 ^ 64"
  then have ok: "avl_ok (avl_root t)" "sorted_keys (inorder (avl_root t))" by (simp_all add: tree_ok_def)
  note fits = height_fits [OF ok(1) t(3)]
  show "\<exists>t'. avl_tree_add cmp t x = Inr (case find_keys cmp x (inorder (avl_root t)) of None \<Rightarrow> x | Some k \<Rightarrow> k, t') \<and> tree_ok t'
      \<and> inorder (avl_root t') = (if find_keys cmp x (inorder (avl_root t)) = None then ins_keys cmp x (inorder (avl_root t)) else inorder (avl_root t))"
  proof (cases "find_keys cmp x (inorder (avl_root t))")
    case None
    with add_at_new [OF ok(2) t(2) fits ok(1)] t show ?thesis
      by (auto simp: avl_tree_add_def tree_ok_def length_ins sorted_ins)
  next
    case (Some k)
    with add_at_found [OF ok(2) t(2) fits ok(1)] t show ?thesis by (simp add: avl_tree_add_def)
  qed
  show "\<exists>t'. avl_tree_del cmp t x = Inr (find_keys cmp x (inorder (avl_root t)) \<noteq> None, t') \<and> tree_ok t'
      \<and> inorder (avl_root t') = del_keys cmp x (inorder (avl_root t))"
  proof (cases "find_keys cmp x (inorder (avl_root t))")
    case None
    with del_at_absent [OF ok(2) t(2) fits ok(1)] t show ?thesis by (simp add: avl_tree_del_def del_absent)
  next
    case (Some k)
    with del_at_present [OF ok(2) t(2) fits ok(1)] length_del [OF Some] t show ?thesis
      by (auto simp: avl_tree_del_def tree_ok_def sorted_del)
  qed
next
  show "avl_tree_find cmp t x = find_keys cmp x (inorder (avl_root t))" if "tree_ok t" "valid x" for t x
    using that find_at_keys by (simp add: avl_tree_find_def tree_ok_def)
qed

text \<open>An addition that returns, whatever the number of keys.\<close>

lemma add_at_more: "add_at cmp key slots t = Inr r \<Longrightarrow> slots \<le> slots' \<Longrightarrow> add_at cmp key slots' t = Inr r"
proof (induction t arbitrary: slots slots' r)
  case (Node k l r' h)
  have "add_at cmp key (slots' - 1) s = Inr x" if "add_at cmp key (slots - 1) s = Inr x" "s = l \<or> s = r'" for s x
    using that Node.IH [of "slots - 1" x "slots' - 1"] Node.prems(2) by auto
  then show ?case
    using Node.prems by (auto simp: Let_def res_simps split: if_splits) 
qed simp

context key_order
begin

lemma add_returns:
  assumes "tree_ok t" "valid x"
  shows "post (\<lambda>(k, t'). k = (case find_keys cmp x (inorder (avl_root t)) of None \<Rightarrow> x | Some k \<Rightarrow> k) \<and> tree_ok t'
    \<and> inorder (avl_root t') = (if find_keys cmp x (inorder (avl_root t)) = None then ins_keys cmp x (inorder (avl_root t))
         else inorder (avl_root t))) (avl_tree_add cmp t x)"
proof (rule postI)
  fix kt assume add: "avl_tree_add cmp t x = Inr kt"
  let ?n = "max (AVL_TREE_MAX_HEIGHT - 1) (nat (height_of (avl_root t)))"
  have ok: "avl_ok (avl_root t)" "sorted_keys (inorder (avl_root t))" using assms(1) by (simp_all add: tree_ok_def)
  have fits: "height_of (avl_root t) \<le> int ?n" by simp
  obtain r where r: "add_at cmp x (AVL_TREE_MAX_HEIGHT - 1) (avl_root t) = Inr r"
    using add by (auto simp: avl_tree_add_def res_simps)
  then have big: "add_at cmp x ?n (avl_root t) = Inr r" by (rule add_at_more) simp
  show "case kt of (k, t') \<Rightarrow> k = (case find_keys cmp x (inorder (avl_root t)) of None \<Rightarrow> x | Some k \<Rightarrow> k) \<and> tree_ok t'
    \<and> inorder (avl_root t') = (if find_keys cmp x (inorder (avl_root t)) = None then ins_keys cmp x (inorder (avl_root t))
         else inorder (avl_root t))"
  proof (cases "find_keys cmp x (inorder (avl_root t))")
    case None
    with add_at_new [OF ok(2) assms(2) fits ok(1)] assms r big add show ?thesis
      by (auto simp: avl_tree_add_def tree_ok_def length_ins sorted_ins)
  next
    case (Some k)
    with add_at_found [OF ok(2) assms(2) fits ok(1)] assms r big add show ?thesis by (auto simp: avl_tree_add_def)
  qed
qed

end

section \<open>Traversal and iteration\<close>

text \<open>The values of \<open>VISIT\<close>.\<close>

abbreviation "v_preorder \<equiv> 0 :: nat"
abbreviation "v_postorder \<equiv> 1 :: nat"
abbreviation "v_endorder \<equiv> 2 :: nat"
abbreviation "v_leaf \<equiv> 3 :: nat"

text \<open>The calls of the action of a traversal: node, visit and depth.\<close>

primrec walk :: "'k avl_node \<Rightarrow> nat \<Rightarrow> ('k \<times> nat \<times> nat) list" where
  "walk Null d = []"
| "walk (Node k l r h) d =
     (if h = 1 then [(k, v_leaf, d)]
      else (k, v_preorder, d) # walk l (d + 1) @ (k, v_postorder, d) # walk r (d + 1) @ [(k, v_endorder, d)])"

definition avl_tree_traverse :: "'k avl_tree \<Rightarrow> ('k \<times> nat \<times> nat) list" where
  "avl_tree_traverse t = walk (avl_root t) 0"

text \<open>The keys in the order they are handed to \<open>on_free_data\<close>.\<close>

primrec avl_tree_destroy :: "'k avl_node \<Rightarrow> 'k list" where
  "avl_tree_destroy Null = []"
| "avl_tree_destroy (Node k l r h) = avl_tree_destroy l @ avl_tree_destroy r @ [k]"

definition avl_tree_init :: "'k avl_tree" where
  "avl_tree_init = \<lparr>avl_root = Null, avl_count = 0, avl_stack = None\<rparr>"

definition avl_tree_cleanup :: "'k avl_tree \<Rightarrow> 'k list \<times> 'k avl_tree" where
  "avl_tree_cleanup t =
     (avl_tree_destroy (avl_root t), t\<lparr>avl_root := Null, avl_count := 0, avl_stack := None\<rparr>)"

text \<open>
  The stack of an iterator: nodes with the visit that comes next. The parent of an entry is the entry
  below it; the visit of the parent is advanced when the entry is dropped.
\<close>

definition bump :: "('k avl_node \<times> nat) list \<Rightarrow> ('k avl_node \<times> nat) list" where
  "bump s = (case s of [] \<Rightarrow> [] | (n, w) # s' \<Rightarrow> (n, w + 1) # s')"

primrec iter_work :: "'k avl_node \<Rightarrow> nat" where
  "iter_work Null = 1"
| "iter_work (Node k l r h) = iter_work l + iter_work r + 3"

definition iter_left :: "'k avl_node \<times> nat \<Rightarrow> nat" where
  "iter_left e = (if snd e = 0 then iter_work (fst e) else if snd e = 1 then iter_work (kid (fst e) True) + 2 else 1)"

definition iter_weight :: "('k avl_node \<times> nat) list \<Rightarrow> nat" where
  "iter_weight s = (case s of [] \<Rightarrow> 0 | e # s' \<Rightarrow> iter_left e + (\<Sum>(n, w) \<leftarrow> s'. iter_left (n, w + 1)))"

lemma iter_weight_bump: "iter_weight (bump s) = (\<Sum>(n, w) \<leftarrow> s. iter_left (n, w + 1))"
  by (auto simp: iter_weight_def bump_def split: list.split)

lemma iter_left_pos: "0 < iter_left e"
proof -
  have "0 < iter_work n" for n :: "'a avl_node" by (cases n) auto
  then show ?thesis by (simp add: iter_left_def)
qed

lemma bump_nulls: "length (filter (\<lambda>e. fst e = Null) (bump s)) = length (filter (\<lambda>e. fst e = Null) s)"
  by (auto simp: bump_def split: list.split)

function (sequential) get_next_iter :: "('k avl_node \<times> nat) list \<Rightarrow> ('k option \<times> ('k avl_node \<times> nat) list) res" where
  "get_next_iter [] = Inr (None, [])"
| "get_next_iter ((Null, w) # s) = get_next_iter s"
| "get_next_iter ((Node k l r h, w) # s) =
     (if h = 1 \<or> w = v_leaf then Inr (Some k, bump s)
      else if w = v_preorder \<and> l \<noteq> Null then get_next_iter ((l, v_preorder) # (Node k l r h, w) # s)
      else if w = v_preorder \<or> w = v_postorder
        then if r \<noteq> Null then Inr (Some k, (r, v_preorder) # (Node k l r h, v_postorder) # s)
             else Inr (Some k, bump s)
      else if w = v_endorder then get_next_iter (bump s)
      else Inl Abort)"
  by pat_completeness auto
termination
proof (relation "measures [\<lambda>s. length (filter (\<lambda>e. fst e = Null) s), iter_weight]")
  fix k :: 'k and l r h w and s :: "('k avl_node \<times> nat) list"
  show "((l, v_preorder) # (Node k l r h, w) # s, (Node k l r h, w) # s)
      \<in> measures [\<lambda>s. length (filter (\<lambda>e. fst e = Null) s), iter_weight]"
    if "w = v_preorder \<and> l \<noteq> Null"
    using that by (simp add: iter_weight_def iter_left_def kid_def)
  show "(bump s, (Node k l r h, w) # s) \<in> measures [\<lambda>s. length (filter (\<lambda>e. fst e = Null) s), iter_weight]"
    using iter_left_pos by (simp add: bump_nulls iter_weight_bump) (simp add: iter_weight_def split_beta)
qed auto

definition avl_tree_iter_begin :: "'k avl_tree \<Rightarrow> ('k option \<times> 'k avl_tree) res" where
  "avl_tree_iter_begin t =
     (if avl_root t = Null then Inr (None, t)
      else andThen (get_next_iter [(avl_root t, v_preorder)]) (\<lambda>(k, s). Inr (k, t\<lparr>avl_stack := Some s\<rparr>)))"

definition avl_tree_iter_next :: "'k avl_tree \<Rightarrow> ('k option \<times> 'k avl_tree) res" where
  "avl_tree_iter_next t =
     (case avl_stack t of
        None \<Rightarrow> avl_tree_iter_begin t
      | Some s \<Rightarrow> andThen (get_next_iter s) (\<lambda>(k, s'). Inr (k, t\<lparr>avl_stack := Some s'\<rparr>)))"

text \<open>What is still to come from a stack.\<close>

definition to_come :: "'k avl_node \<times> nat \<Rightarrow> 'k list" where
  "to_come e = (case fst e of Null \<Rightarrow> [] | Node k l r h \<Rightarrow>
     if snd e = 0 then inorder l @ k # inorder r else if snd e = 1 then k # inorder r else [])"

definition pending :: "('k avl_node \<times> nat) list \<Rightarrow> 'k list" where
  "pending s = (case s of [] \<Rightarrow> [] | e # s' \<Rightarrow> to_come e @ concat (map (\<lambda>(n, w). to_come (n, w + 1)) s'))"

text \<open>
  The entries below the top are inside one of their children; entries of leaves are only at the top,
  before their visit.
\<close>

primrec marked :: "'k avl_node \<Rightarrow> bool" where
  "marked Null = True"
| "marked (Node k l r h) = ((h = 1 \<longleftrightarrow> l = Null \<and> r = Null) \<and> marked l \<and> marked r)"

definition below_ok :: "('k avl_node \<times> nat) list \<Rightarrow> bool" where
  "below_ok s = (\<forall>(n, w) \<in> set s. n \<noteq> Null \<and> marked n \<and> height_of n \<noteq> 1 \<and> w < 2)"

definition iter_ok :: "('k avl_node \<times> nat) list \<Rightarrow> bool" where
  "iter_ok s = (case s of [] \<Rightarrow> True
     | (n, w) # s' \<Rightarrow> n \<noteq> Null \<and> marked n \<and> w < 3 \<and> (height_of n = 1 \<longrightarrow> w = 0) \<and> below_ok s')"

lemma iter_ok_bump: "below_ok s \<Longrightarrow> iter_ok (bump s)"
  by (auto simp: iter_ok_def bump_def below_ok_def split: list.split)

lemma pending_bump: "pending (bump s) = concat (map (\<lambda>(n, w). to_come (n, w + 1)) s)"
  by (auto simp: pending_def bump_def split: list.split)

lemma next_iter_pending:
  "iter_ok s \<Longrightarrow> \<exists>s'. iter_ok s' \<and> get_next_iter s = Inr (case pending s of [] \<Rightarrow> None | k # _ \<Rightarrow> Some k, s')
    \<and> pending s' = tl (pending s)"
proof (induction s rule: get_next_iter.induct)
  case (3 k l r h w s)
  have top: "marked l" "marked r" "w < 3" "h = 1 \<longleftrightarrow> l = Null \<and> r = Null" "h = 1 \<longrightarrow> w = 0" and below: "below_ok s"
    using "3.prems" by (auto simp: iter_ok_def)
  have come: "pending ((Node k l r h, w) # s) = to_come (Node k l r h, w) @ pending (bump s)"
    by (simp add: pending_bump) (simp add: pending_def)
  consider (leaf) "h = 1" | (down) "h \<noteq> 1" "w = 0" "l \<noteq> Null" | (visit) "h \<noteq> 1" "w = 1 \<or> w = 0 \<and> l = Null" | (up) "h \<noteq> 1" "w = 2"
    using top(3) by linarith
  then show ?case
  proof cases
    case leaf
    then show ?thesis using top come iter_ok_bump [OF below] by (simp add: to_come_def)
  next
    case down
    let ?s = "(l, v_preorder) # (Node k l r h, w) # s"
    have "iter_ok ?s" using down top below by (auto simp: iter_ok_def below_ok_def)
    moreover have "pending ?s = pending ((Node k l r h, w) # s)"
      using down by (cases l) (simp_all add: pending_def to_come_def)
    ultimately show ?thesis using "3.IH"(1) down by simp
  next
    case visit
    show ?thesis
    proof (cases "r = Null")
      case True
      then show ?thesis using visit top come iter_ok_bump [OF below] by (auto simp: to_come_def)
    next
      case False
      let ?s = "(r, v_preorder) # (Node k l r h, v_postorder) # s"
      have "iter_ok ?s" using visit False top below by (auto simp: iter_ok_def below_ok_def)
      moreover have "pending ?s = inorder r @ pending (bump s)"
        using False by (cases r) (simp_all add: pending_bump, simp_all add: pending_def to_come_def)
      moreover have "to_come (Node k l r h, w) = k # inorder r" using visit by (auto simp: to_come_def)
      ultimately show ?thesis using visit False come by auto
    qed
  next
    case up
    then show ?thesis using "3.IH"(2) iter_ok_bump [OF below] come by (simp add: to_come_def)
  qed
qed (auto simp: iter_ok_def pending_def)

section \<open>Balanced trees are search trees\<close>

definition avl_run :: "('k \<Rightarrow> 'k \<Rightarrow> int) \<Rightarrow> 'k avl_tree \<Rightarrow> 'k key_op list \<Rightarrow> ('k key_res list \<times> 'k avl_tree) res" where
  "avl_run cmp = tree_ops (avl_tree_add cmp) (avl_tree_del cmp) (avl_tree_find cmp)"

text \<open>Hashes are ordered by the number made of their four 64-bit words.\<close>

primrec u256_rank :: "nat \<Rightarrow> bytes \<Rightarrow> nat" where
  "u256_rank 0 a = 0"
| "u256_rank (Suc i) a = u256_rank i a + 2 ^ (64 * i) * unat (dec64 (drop (8 * i) a))"

lemma u256_rank_lt: "u256_rank n a < 2 ^ (64 * n)"
proof (induction n)
  case (Suc n)
  have "unat (dec64 (drop (8 * n) a)) + 1 \<le> 2 ^ 64" using unat_lt_len [of "dec64 (drop (8 * n) a)"] by simp
  then have "2 ^ (64 * n) * (unat (dec64 (drop (8 * n) a)) + 1) \<le> 2 ^ (64 * n) * 2 ^ 64" by (rule mult_le_mono2)
  also have "\<dots> = 2 ^ (64 * Suc n)" by (simp add: power_add)
  finally show ?case using Suc by (simp add: algebra_simps)
qed simp

lemma compare_from_rank: "uint256_compare_from n a b = sgn (int (u256_rank n a) - int (u256_rank n b))"
proof (induction n)
  case (Suc n)
  let ?x = "dec64 (drop (8 * n) a)" and ?y = "dec64 (drop (8 * n) b)"
  have apart: "p + 2 ^ (64 * n) * x < q + 2 ^ (64 * n) * y" if "p < 2 ^ (64 * n)" "x < y" for p q x y :: nat
  proof -
    have "2 ^ (64 * n) * (x + 1) \<le> 2 ^ (64 * n) * y" using that by (intro mult_le_mono2) simp
    then show ?thesis using that by (simp add: algebra_simps)
  qed
  consider "?x = ?y" | "unat ?y < unat ?x" | "unat ?x < unat ?y"
    by (metis linorder_neqE_nat word_unat_eq_iff)
  then show ?case
  proof cases
    case 1
    then show ?thesis using Suc by (simp add: Let_def)
  next
    case 2
    then have "?x \<noteq> ?y" "?y < ?x" by (auto simp: word_less_nat_alt)
    moreover have "u256_rank (Suc n) b < u256_rank (Suc n) a" using apart [OF u256_rank_lt 2] by simp
    ultimately show ?thesis by (simp add: Let_def del: u256_rank.simps)
  next
    case 3
    then have "?x \<noteq> ?y" "\<not> ?y < ?x" by (auto simp: word_less_nat_alt)
    moreover have "u256_rank (Suc n) a < u256_rank (Suc n) b" using apart [OF u256_rank_lt 3] by simp
    ultimately show ?thesis by (simp add: Let_def del: u256_rank.simps)
  qed
qed simp

interpretation u256: key_order uint256_compare "u256_rank 4" "\<lambda>_. True"
  by unfold_locales (auto simp: uint256_compare_def compare_from_rank sgn_if)

context key_order
begin

lemma run_from_empty:
  assumes "\<forall>x \<in> set ops. valid (op_key x)" "length ops < 2 ^ 64"
  shows "\<exists>t. avl_run cmp avl_tree_init ops = Inr (fst (spec_keys cmp [] ops), t)
    \<and> inorder (avl_root t) = snd (spec_keys cmp [] ops) \<and> tree_ok t"
proof -
  have "tree_ok avl_tree_init" by (simp add: tree_ok_def avl_tree_init_def)
  from avl.ops_refine [OF this assms(1)] assms(2) show ?thesis
    by (auto simp: avl_run_def avl_tree_init_def)
qed

end

text \<open>C8. A balanced tree behaves as the sorted list of its keys: whatever sequence of adding, deleting
  and finding is run on a new tree, with a comparison that orders the keys and fewer keys than there are
  addresses, no operation follows a null pointer or leaves its array of 96 links, every result is that
  of the same operation on the sorted list, the heights in all nodes stay exact and differ by at most
  one between siblings, and the count is the number of keys.\<close>

theorem avl_tree_refines:
  assumes "key_order cmp rank valid" "\<forall>x \<in> set ops. valid (op_key x)" "length ops < 2 ^ 64"
  shows "\<exists>t. avl_run cmp avl_tree_init ops = Inr (fst (spec_keys cmp [] ops), t)
    \<and> inorder (avl_root t) = snd (spec_keys cmp [] ops) \<and> avl_ok (avl_root t)
    \<and> avl_count t = int (length (inorder (avl_root t)))"
  using key_order.run_from_empty [OF assms] key_order.tree_ok_def [OF assms(1)] by auto

theorem avl_tree_refines_witness:
  "\<exists>t. avl_run uint256_compare avl_tree_init [Add (replicate 32 3), Add (replicate 32 1), Add (replicate 32 1), Del (replicate 32 3)]
      = Inr ([Key (Some (replicate 32 3)), Key (Some (replicate 32 1)), Key (Some (replicate 32 1)), Deleted True], t)
    \<and> inorder (avl_root t) = [replicate 32 1] \<and> avl_count t = 1"
proof -
  let ?a = "replicate 32 1 :: bytes" and ?b = "replicate 32 3 :: bytes"
  have times: "le_val (replicate n 3) = 3 * le_val (replicate n 1)" for n by (induction n) auto
  have "0 < le_val (replicate (Suc n) 1)" for n by simp
  from this [of 31] have pos: "0 < le_val ?a" by simp
  have cmp: "uint256_compare ?a ?b = -1" "uint256_compare ?b ?a = 1" "uint256_compare ?a ?a = 0" "uint256_compare ?b ?b = 0"
    using compare_from_take [of 4 ?a ?b] compare_from_take [of 4 ?b ?a] pos times [of 32]
    by (simp_all add: uint256_compare_def compare_from_rank)
  have "\<exists>t. avl_run uint256_compare avl_tree_init [Add ?b, Add ?a, Add ?a, Del ?b]
      = Inr (fst (spec_keys uint256_compare [] [Add ?b, Add ?a, Add ?a, Del ?b]), t)
    \<and> inorder (avl_root t) = snd (spec_keys uint256_compare [] [Add ?b, Add ?a, Add ?a, Del ?b]) \<and> avl_ok (avl_root t)
    \<and> avl_count t = int (length (inorder (avl_root t)))"
    by (rule avl_tree_refines [OF u256.key_order_axioms]) simp_all
  then show ?thesis by (auto simp: cmp Let_def simp del: replicate.simps)
qed

text \<open>Exact heights mark the leaves.\<close>

lemma avl_ok_marked: "avl_ok t \<Longrightarrow> marked t"
proof (induction t)
  case (Node k l r h)
  then show ?case using height_zero [of l] height_zero [of r] height_nonneg [of l] height_nonneg [of r]
    by (auto simp: max_def split: if_splits)
qed simp

text \<open>The keys an iteration delivers, with the end of the iteration.\<close>

primrec iter_more :: "nat \<Rightarrow> 'k avl_tree \<Rightarrow> ('k option list \<times> 'k avl_tree) res" where
  "iter_more 0 t = Inr ([], t)"
| "iter_more (Suc n) t = andThen (avl_tree_iter_next t) (\<lambda>(k, t1).
     andThen (iter_more n t1) (\<lambda>(ks, t2). Inr (k # ks, t2)))"

lemma iter_more_pending:
  "avl_stack t = Some s \<Longrightarrow> iter_ok s \<Longrightarrow> \<exists>t'. iter_more n t = Inr (map Some (take n (pending s)) @ replicate (n - length (pending s)) None, t')"
proof (induction n arbitrary: t s)
  case (Suc n)
  from next_iter_pending [OF Suc.prems(2)] obtain s' where s': "iter_ok s'" "pending s' = tl (pending s)"
    "get_next_iter s = Inr (case pending s of [] \<Rightarrow> None | k # _ \<Rightarrow> Some k, s')" by blast
  with Suc.IH [of "t\<lparr>avl_stack := Some s'\<rparr>" s'] Suc.prems(1) show ?case
    by (cases "pending s") (auto simp: avl_tree_iter_next_def)
qed simp

text \<open>Iterating over a balanced tree delivers its keys in order: the first call starts the
  iteration whatever state an earlier one left behind, further calls deliver the following keys, and
  after the last key every call returns a null pointer. A traversal visits the keys in the same order
  (counting the visit between the children, or the only one of a leaf).\<close>

theorem avl_iteration_in_order:
  assumes "avl_ok (avl_root t)" "avl_root t \<noteq> Null"
  shows "\<exists>t1 t2. avl_tree_iter_begin t = Inr (Some (hd (inorder (avl_root t))), t1)
    \<and> iter_more n t1 = Inr (map Some (take n (tl (inorder (avl_root t)))) @ replicate (Suc n - length (inorder (avl_root t))) None, t2)
    \<and> map fst (filter (\<lambda>(k, w, d). w = v_postorder \<or> w = v_leaf) (avl_tree_traverse t)) = inorder (avl_root t)"
proof -
  let ?s = "[(avl_root t, v_preorder)]"
  have "iter_ok ?s" using assms avl_ok_marked by (simp add: iter_ok_def below_ok_def)
  moreover have p: "pending ?s = inorder (avl_root t)" by (cases "avl_root t") (simp_all add: pending_def to_come_def)
  moreover have ne: "inorder (avl_root t) \<noteq> []" using assms(2) by (cases "avl_root t") simp_all
  ultimately obtain s' where s': "iter_ok s'" "pending s' = tl (inorder (avl_root t))"
      "get_next_iter ?s = Inr (Some (hd (inorder (avl_root t))), s')"
    using next_iter_pending [of ?s] by (auto split: list.splits)
  have walk: "map fst (filter (\<lambda>(k, w, d). w = v_postorder \<or> w = v_leaf) (walk n d)) = inorder n" if "marked n" for n :: "'a avl_node" and d
    using that by (induction n arbitrary: d) auto
  have "n - length (tl (inorder (avl_root t))) = Suc n - length (inorder (avl_root t))"
    using ne by (cases "inorder (avl_root t)") simp_all
  then show ?thesis
    using iter_more_pending [of "t\<lparr>avl_stack := Some s'\<rparr>" s' n] s' assms walk [OF avl_ok_marked]
    by (auto simp: avl_tree_iter_begin_def avl_tree_traverse_def)
qed

theorem avl_iteration_in_order_witness:
  "\<exists>t1 t2. avl_tree_iter_begin \<lparr>avl_root = Node (2 :: nat) (Node 1 Null Null 1) (Node 3 Null Null 1) 2, avl_count = 3, avl_stack = None\<rparr>
      = Inr (Some 1, t1) \<and> iter_more 3 t1 = Inr ([Some 2, Some 3, None], t2)"
  using avl_iteration_in_order [of "\<lparr>avl_root = Node (2 :: nat) (Node 1 Null Null 1) (Node 3 Null Null 1) 2,
      avl_count = 3, avl_stack = None\<rparr>" 3] by (auto simp: eval_nat_numeral)

end
