(* ===== verification/Message.thy ===== *)
theory Message
  imports Encodings Hashing
begin

text \<open>
  Network messages (\<open>src/bitcoin-message.c\<close>): message types and their names on the wire, the
  24-byte header, and parsing, attaching, detaching and serializing a message. The codecs of the
  single payloads are not part of the repository; they are a parameter (record \<open>payload_ops\<close>), for
  every type a parser that may return a null pointer, a serializer that may return -1, and the zeroed
  object of a new message. An object is a value, memory is always granted.
\<close>

section \<open>C strings\<close>

definition c_string :: "string \<Rightarrow> bytes" where "c_string s = ascii s @ [0]"

text \<open>Comparing at most \<open>n\<close> characters, and without a limit, inside the memory given.\<close>

fun c_strncmp :: "nat \<Rightarrow> bytes \<Rightarrow> bytes \<Rightarrow> int res" where
  "c_strncmp 0 a b = Inr 0"
| "c_strncmp (Suc n) (x # a) (y # b) =
     (if x \<noteq> y then Inr (int (unat x) - int (unat y)) else if x = 0 then Inr 0 else c_strncmp n a b)"
| "c_strncmp (Suc n) a b = Inl Undefined"

fun c_strcmp :: "bytes \<Rightarrow> bytes \<Rightarrow> int res" where
  "c_strcmp (x # a) (y # b) =
     (if x \<noteq> y then Inr (int (unat x) - int (unat y)) else if x = 0 then Inr 0 else c_strcmp a b)"
| "c_strcmp a b = Inl Undefined"

definition c_strncpy :: "nat \<Rightarrow> bytes \<Rightarrow> bytes" where
  "c_strncpy n s = take n (takeWhile (\<lambda>b. b \<noteq> 0) s @ replicate n 0)"

section \<open>Message types\<close>

text \<open>The types are numbers, from 0 for unknown messages to 30.\<close>

abbreviation msg_unknown :: int where "msg_unknown \<equiv> 0"
abbreviation msg_version :: int where "msg_version \<equiv> 1"
abbreviation msg_verack :: int where "msg_verack \<equiv> 2"
abbreviation msg_headers :: int where "msg_headers \<equiv> 11"
abbreviation msg_types_count :: int where "msg_types_count \<equiv> 31"

definition s_sz_message_types :: "string list" where
  "s_sz_message_types =
     [''unknown'', ''version'', ''verack'', ''addr'', ''inv'', ''getdata'', ''notefound'', ''getblocks'',
      ''getheaders'', ''tx'', ''block'', ''headers'', ''getaddr'', ''mempool'', ''checkorder'',
      ''submitorder'', ''reply'', ''ping'', ''pong'', ''reject'', ''filterload'', ''filteradd'',
      ''filterclear'', ''merkle_block'', ''alert'', ''sendheaders'', ''feefilter'', ''sendcmpct'',
      ''cmpctblock'', ''getblocktxn'', ''blocktxn'']"

text \<open>None is a null pointer; the number of types itself reads past the table.\<close>

definition bitcoin_message_type_to_string :: "int \<Rightarrow> bytes option res" where
  "bitcoin_message_type_to_string t =
     (if t < 0 \<or> msg_types_count < t then Inr None
      else if nat t < length s_sz_message_types then Inr (Some (c_string (s_sz_message_types ! nat t)))
      else Inl Undefined)"

fun type_search :: "int \<Rightarrow> bytes \<Rightarrow> string list \<Rightarrow> int res" where
  "type_search i command [] = Inr msg_unknown"
| "type_search i command (s # r) =
     andThen (c_strncmp 12 command (c_string s)) (\<lambda>c.
       if c = 0 then Inr i else type_search (i + 1) command r)"

definition bitcoin_message_type_from_string :: "bytes \<Rightarrow> int res" where
  "bitcoin_message_type_from_string command = type_search 1 command (drop 1 s_sz_message_types)"

text \<open>The types with entries in the tables of parsers and of clean-up functions.\<close>

definition s_payload_parsers :: "bool list" where
  "s_payload_parsers =
     [False, True, False, True, True, True, True, True, True, True, True, True, False, False, False, False,
      False, False, False, False, False, False, False, False, False, False, False, False, False, False, False]"

definition get_payload_parser :: "int \<Rightarrow> bool" where
  "get_payload_parser t = (0 \<le> t \<and> t < msg_types_count \<and> s_payload_parsers ! nat t)"

section \<open>Messages\<close>

record message_header =
  mh_magic :: u32
  mh_command :: bytes
  mh_length :: u32
  mh_checksum :: u32

definition message_header_bytes :: "message_header \<Rightarrow> bytes" where
  "message_header_bytes h = enc32 (mh_magic h) @ mh_command h @ enc32 (mh_length h) @ enc32 (mh_checksum h)"

definition message_header_of :: "bytes \<Rightarrow> message_header" where
  "message_header_of m = \<lparr>mh_magic = dec32 m, mh_command = take 12 (drop 4 m), mh_length = dec32 (drop 16 m),
     mh_checksum = dec32 (drop 20 m)\<rparr>"

definition message_header_zero :: message_header where
  "message_header_zero = \<lparr>mh_magic = 0, mh_command = replicate 12 0, mh_length = 0, mh_checksum = 0\<rparr>"

record 'o message =
  msg_data :: "bytes option"
  msg_type :: int
  msg_hdr :: message_header
  msg_object :: "'o option"

record 'o payload_ops =
  payload_parse :: "int \<Rightarrow> bytes \<Rightarrow> 'o option"
  payload_serialize :: "int \<Rightarrow> 'o \<Rightarrow> bytes option"
  payload_new :: "int \<Rightarrow> 'o"

definition bitcoin_message_clear :: "'o message \<Rightarrow> 'o message" where
  "bitcoin_message_clear m = m\<lparr>msg_object := None, msg_data := None, msg_hdr := message_header_zero, msg_type := msg_unknown\<rparr>"

definition bitcoin_message_cleanup :: "'o message \<Rightarrow> 'o message" where
  "bitcoin_message_cleanup m = bitcoin_message_clear m"

text \<open>
  The header and what follows it in memory, the payload when it lies elsewhere, and its length. A
  parser that fails leaves a message without object.
\<close>

definition bitcoin_message_parse ::
    "('c, 'd) hash_ops \<Rightarrow> 'o payload_ops \<Rightarrow> 'o message \<Rightarrow> bytes \<Rightarrow> bytes option \<Rightarrow> nat \<Rightarrow> ('o message \<times> bool) res" where
  "bitcoin_message_parse P L m mem payload length_arg =
     (let m0 = bitcoin_message_clear m
      in andThen (mem_read 24 mem) (\<lambda>hdr_bytes.
        let h = message_header_of hdr_bytes; n = unat (mh_length h);
            len = (if length_arg = 0 then n else length_arg);
            p = (case payload of None \<Rightarrow> drop 24 mem | Some p \<Rightarrow> p)
        in if len < n then Inl Abort
           else andThen (bitcoin_message_type_from_string (mh_command h)) (\<lambda>t.
             if t = msg_unknown then Inr (m0, False)
             else andThen (mem_read n p) (\<lambda>body.
               if take 4 (hash256 P body) \<noteq> enc32 (mh_checksum h) then Inr (m0, False)
               else let m1 = m0\<lparr>msg_data := Some (hdr_bytes @ body), msg_type := t\<rparr>
               in Inr (if 0 < n \<and> get_payload_parser t then m1\<lparr>msg_object := payload_parse L t body\<rparr> else m1,
                    True)))))"

definition bitcoin_message_new ::
    "'o payload_ops \<Rightarrow> u32 \<Rightarrow> int \<Rightarrow> 'o message res" where
  "bitcoin_message_new L magic t =
     (let m = \<lparr>msg_data = None, msg_type = t, msg_hdr = message_header_zero, msg_object = None\<rparr>
      in if t \<le> msg_unknown \<or> msg_types_count \<le> t then Inr m
         else andThen (bitcoin_message_type_to_string t) (\<lambda>s.
           case s of None \<Rightarrow> Inl Abort
           | Some s \<Rightarrow>
               Inr (m\<lparr>msg_hdr := message_header_zero\<lparr>mh_magic := magic, mh_command := c_strncpy 12 s\<rparr>,
                      msg_object := (if t = msg_version \<or> (msg_verack < t \<and> t \<le> msg_headers)
                                     then Some (payload_new L t) else None)\<rparr>)))"

definition message_object_serialize :: "'o payload_ops \<Rightarrow> int \<Rightarrow> 'o \<Rightarrow> bytes option" where
  "message_object_serialize L t obj =
     (if t = msg_version \<or> (msg_verack < t \<and> t \<le> msg_headers) then payload_serialize L t obj else Some [])"

definition EMPTY_PAYLOAD_CHECKSUM :: u32 where "EMPTY_PAYLOAD_CHECKSUM = 0xE2E0F65D"

text \<open>
  The message, the number of bytes (none for -1) and what is then behind the pointer of the caller.
  The payload is only counted when it is serialized by this call.
\<close>

definition bitcoin_message_serialize ::
    "('c, 'd) hash_ops \<Rightarrow> 'o payload_ops \<Rightarrow> 'o message \<Rightarrow> bytes option option
      \<Rightarrow> ('o message \<times> nat option \<times> bytes option) res" where
  "bitcoin_message_serialize P L m p_data =
     (let failed = (\<lambda>m. Inr (m, None, Option.bind p_data (\<lambda>d. d)))
      in case msg_object m of
        None \<Rightarrow> failed m
      | Some obj \<Rightarrow>
          if msg_type m \<le> msg_unknown \<or> msg_types_count \<le> msg_type m then failed m
          else andThen (bitcoin_message_type_to_string (msg_type m)) (\<lambda>s.
            case s of None \<Rightarrow> Inl Abort
            | Some s \<Rightarrow>
                let h0 = msg_hdr m;
                    h = (if mh_command h0 ! 0 = 0 then h0\<lparr>mh_command := c_strncpy 12 s\<rparr> else h0);
                    m1 = m\<lparr>msg_hdr := h\<rparr>
                in andThen (c_strcmp (mh_command h @ enc32 (mh_length h) @ enc32 (mh_checksum h)) s) (\<lambda>c.
                  if c \<noteq> 0 then Inl Abort
                  else let finish = (\<lambda>m (d :: bytes) cb.
                         case p_data of
                           None \<Rightarrow> Inr (m, Some (24 + cb), None)
                         | Some dst \<Rightarrow>
                             andThen (mem_read (24 + cb) d) (\<lambda>out.
                               andThen (mem_write out (case dst of None \<Rightarrow> replicate (24 + cb) 0 | Some b \<Rightarrow> b)) (\<lambda>b.
                                 Inr (m, Some (24 + cb), Some b))))
                  in case msg_data m1 of
                      Some d \<Rightarrow> finish m1 d 0
                    | None \<Rightarrow>
                        (case message_object_serialize L (msg_type m1) obj of
                           None \<Rightarrow> failed m1
                         | Some payload \<Rightarrow>
                             let sum = (if 0 < length payload then dec32 (hash256 P payload) else EMPTY_PAYLOAD_CHECKSUM);
                                 d = message_header_bytes
                                       (h\<lparr>mh_length := of_nat (length payload), mh_checksum := sum\<rparr>) @ payload
                             in finish (m1\<lparr>msg_data := Some d\<rparr>) d (length payload)))))"

definition bitcoin_message_attach ::
    "('c, 'd) hash_ops \<Rightarrow> 'o payload_ops \<Rightarrow> 'o message \<Rightarrow> u32 \<Rightarrow> int \<Rightarrow> 'o option \<Rightarrow> ('o message \<times> bool) res" where
  "bitcoin_message_attach P L m magic t obj =
     (if t \<le> msg_unknown \<or> msg_types_count \<le> t then Inr (m, False)
      else let m0 = bitcoin_message_clear m;
               m1 = m0\<lparr>msg_type := t, msg_object := obj, msg_hdr := (msg_hdr m0)\<lparr>mh_magic := magic\<rparr>\<rparr>
      in andThen (bitcoin_message_serialize P L m1 None) (\<lambda>(m2, cb, _). Inr (m2, cb \<noteq> None)))"

text \<open>The object goes to the caller or, without a place for it, is freed.\<close>

definition bitcoin_message_detech :: "'o message \<Rightarrow> bool \<Rightarrow> int \<times> 'o option \<times> 'o message" where
  "bitcoin_message_detech m has_place =
     (msg_type m, if has_place then msg_object m else None, bitcoin_message_clear (m\<lparr>msg_object := None\<rparr>))"

section \<open>Names\<close>

definition wire_name :: "int \<Rightarrow> bytes" where
  "wire_name t = c_strncpy 12 (c_string (s_sz_message_types ! nat t))"

lemma names_table:
  "distinct (map ascii s_sz_message_types)" "length s_sz_message_types = 31"
  "list_all (\<lambda>s. 0 \<notin> set (ascii s) \<and> length s \<le> 12 \<and> s \<noteq> []) s_sz_message_types"
  by code_simp+

lemma uint_same: "uint a = uint b \<longleftrightarrow> a = b"
  by (auto intro: unsigned_word_eqI)

lemma strncmp_pad:
  "0 \<notin> set a \<Longrightarrow> 0 \<notin> set b \<Longrightarrow> length a \<le> n \<Longrightarrow> length b \<le> n \<Longrightarrow>
    \<exists>c. c_strncmp n (take n (a @ replicate n 0)) (b @ [0]) = Inr c \<and> (c = 0 \<longleftrightarrow> a = b)"
proof (induction n arbitrary: a b)
  case (Suc n)
  have pad: "take n (xs @ 0 # replicate n 0) = take n (xs @ replicate n (0::byte))" if "length xs \<le> n" for xs
    using that by (simp add: take_Cons' flip: replicate_Suc)
  show ?case
  proof (cases a)
    case Nil
    with Suc.prems show ?thesis by (cases b) (auto simp: unsigned_eq_0_iff)
  next
    case (Cons x a')
    note a = Cons
    show ?thesis
    proof (cases b)
      case Nil
      with a Suc.prems show ?thesis by (auto simp: unsigned_eq_0_iff)
    next
      case (Cons y b')
      with a Suc.prems Suc.IH [of a' b'] pad [of a'] show ?thesis by (auto simp: uint_same)
    qed
  qed
qed simp

lemma strncpy_name: "0 \<notin> set (ascii s) \<Longrightarrow> c_strncpy n (c_string s) = take n (ascii s @ replicate n 0)"
proof -
  assume "0 \<notin> set (ascii s)"
  then have "takeWhile (\<lambda>b. b \<noteq> 0) (ascii s @ [0]) = ascii s" by (subst takeWhile_append2) auto
  then show ?thesis by (simp add: c_strncpy_def c_string_def)
qed

lemma type_search_name:
  assumes "distinct (map ascii r)" "k < length r" "list_all (\<lambda>s. 0 \<notin> set (ascii s) \<and> length s \<le> 12 \<and> s \<noteq> []) r"
  shows "type_search i (c_strncpy 12 (c_string (r ! k))) r = Inr (i + int k)"
  using assms
proof (induction r arbitrary: i k)
  case (Cons s r)
  have ok: "0 \<notin> set (ascii ((s # r) ! k))" "length ((s # r) ! k) \<le> 12" "0 \<notin> set (ascii s)" "length s \<le> 12"
    using Cons.prems(2,3) by (auto simp: list_all_length nth_Cons split: nat.splits)
  obtain c where c: "c_strncmp 12 (c_strncpy 12 (c_string ((s # r) ! k))) (c_string s) = Inr c"
      "c = 0 \<longleftrightarrow> ascii ((s # r) ! k) = ascii s"
    using strncmp_pad [OF ok(1,3), of 12] ok(2,4) strncpy_name [OF ok(1), of 12] by (auto simp: c_string_def ascii_def)
  show ?case
  proof (cases k)
    case 0
    with c show ?thesis by simp
  next
    case (Suc j)
    then have "ascii (r ! j) \<in> set (map ascii r)" using Cons.prems(2) by simp
    then have "c \<noteq> 0" using c(2) Suc Cons.prems(1) by auto
    with c Suc Cons.prems Cons.IH [of j "i + 1"] show ?thesis by simp
  qed
qed simp

lemma known_name:
  assumes "0 < t" "t < msg_types_count"
  defines "s \<equiv> s_sz_message_types ! nat t"
  shows "bitcoin_message_type_to_string t = Inr (Some (c_string s))" "0 \<notin> set (ascii s)" "length s \<le> 12" "s \<noteq> []"
    "bitcoin_message_type_from_string (wire_name t) = Inr t"
proof -
  show "bitcoin_message_type_to_string t = Inr (Some (c_string s))"
    using assms names_table(2) by (simp add: bitcoin_message_type_to_string_def)
  have "nat t < length s_sz_message_types" using assms names_table(2) by simp
  then show "0 \<notin> set (ascii s)" "length s \<le> 12" "s \<noteq> []"
    using names_table(3) assms(3) by (auto simp: list_all_length)
  obtain k where k: "nat t = Suc k" using assms(1) by (cases "nat t") auto
  have "drop 1 s_sz_message_types ! k = s_sz_message_types ! nat t" using k names_table(2) assms(2) by simp
  moreover have "distinct (map ascii (drop 1 s_sz_message_types))"
    using names_table(1) by (metis distinct_drop drop_map)
  moreover have "list_all (\<lambda>s. 0 \<notin> set (ascii s) \<and> length s \<le> 12 \<and> s \<noteq> []) (drop 1 s_sz_message_types)"
    using names_table(3) by (auto simp: list_all_iff dest: in_set_dropD)
  ultimately show "bitcoin_message_type_from_string (wire_name t) = Inr t"
    using type_search_name [of "drop 1 s_sz_message_types" k 1] names_table(2) assms(1,2) k
    by (simp add: bitcoin_message_type_from_string_def wire_name_def)
qed

lemma length_wire_name: "0 < t \<Longrightarrow> t < msg_types_count \<Longrightarrow> length (wire_name t) = 12"
  using known_name(2,3) [of t] by (simp add: wire_name_def strncpy_name)

lemma wire_name_first: "0 < t \<Longrightarrow> t < msg_types_count \<Longrightarrow> wire_name t ! 0 \<noteq> 0"
  using known_name(2,4) [of t]
  by (cases "s_sz_message_types ! nat t") (auto simp: wire_name_def strncpy_name ascii_def)

lemma strcmp_pad: "0 \<notin> set a \<Longrightarrow> length a \<le> n \<Longrightarrow> c_strcmp (take n (a @ replicate n 0) @ 0 # r) (a @ [0]) = Inr 0"
proof (induction a arbitrary: n)
  case Nil
  then show ?case by (cases n) simp_all
next
  case (Cons x a)
  then obtain k where k: "n = Suc k" "length a \<le> k" by (cases n) auto
  have "take k (a @ 0 # replicate k 0) = take k (a @ replicate k (0::byte))"
    using k(2) by (simp add: take_Cons' flip: replicate_Suc)
  with Cons k show ?case by simp
qed

section \<open>On the wire\<close>

lemma length_message_header: "length (mh_command h) = 12 \<Longrightarrow> length (message_header_bytes h) = 24"
  by (simp add: message_header_bytes_def)

lemma message_header_of_bytes: "length (mh_command h) = 12 \<Longrightarrow> message_header_of (message_header_bytes h @ r) = h"
  by (simp add: message_header_bytes_def message_header_of_def drop_append_len dec_enc)

text \<open>The header that is written, and what is expected of a message before that.\<close>

definition wire_header :: "('c, 'd) hash_ops \<Rightarrow> u32 \<Rightarrow> int \<Rightarrow> bytes \<Rightarrow> message_header" where
  "wire_header P magic t body = \<lparr>mh_magic = magic, mh_command = wire_name t, mh_length = of_nat (length body),
     mh_checksum = (if 0 < length body then dec32 (hash256 P body) else EMPTY_PAYLOAD_CHECKSUM)\<rparr>"

definition unsent :: "'o message \<Rightarrow> u32 \<Rightarrow> int \<Rightarrow> 'o \<Rightarrow> bool" where
  "unsent m magic t obj \<longleftrightarrow> msg_data m = None \<and> msg_type m = t \<and> msg_object m = Some obj
     \<and> (\<exists>cmd \<in> {replicate 12 0, wire_name t}. msg_hdr m = \<lparr>mh_magic = magic, mh_command = cmd, mh_length = 0, mh_checksum = 0\<rparr>)"

lemma strcmp_wire_name:
  assumes "0 < t" "t < msg_types_count"
  shows "c_strcmp (wire_name t @ enc32 0 @ r) (c_string (s_sz_message_types ! nat t)) = Inr 0"
proof -
  have zero: "enc32 0 = 0 # [0, 0, 0]" by (simp add: enc32_def le_bytes_4)
  have name: "wire_name t = take 12 (ascii (s_sz_message_types ! nat t) @ replicate 12 0)"
    unfolding wire_name_def by (rule strncpy_name) (rule known_name(2) [OF assms])
  have "c_strcmp (wire_name t @ 0 # [0, 0, 0] @ r) (c_string (s_sz_message_types ! nat t)) = Inr 0"
    unfolding name c_string_def using known_name(2,3) [OF assms] by (intro strcmp_pad) (simp_all add: ascii_def)
  then show ?thesis unfolding zero by simp
qed

lemma serialize_unsent:
  fixes P :: "('c, 'd) hash_ops" and L :: "'o payload_ops"
  assumes "0 < t" "t < msg_types_count" "unsent m magic t obj" "message_object_serialize L t obj = Some body"
    and "length body < 2 ^ 32"
  defines "d \<equiv> message_header_bytes (wire_header P magic t body) @ body"
  defines "m1 \<equiv> m\<lparr>msg_hdr := \<lparr>mh_magic = magic, mh_command = wire_name t, mh_length = 0, mh_checksum = 0\<rparr>, msg_data := Some d\<rparr>"
  shows "bitcoin_message_serialize P L m None = Inr (m1, Some (24 + length body), None)"
    and "bitcoin_message_serialize P L m (Some None) = Inr (m1, Some (24 + length body), Some d)"
proof -
  note name = known_name(1) [OF assms(1,2)]
  have name': "c_strncpy 12 (c_string (s_sz_message_types ! nat t)) = wire_name t" by (simp add: wire_name_def)
  from assms(3) obtain cmd where m: "msg_data m = None" "msg_type m = t" "msg_object m = Some obj"
      "msg_hdr m = \<lparr>mh_magic = magic, mh_command = cmd, mh_length = 0, mh_checksum = 0\<rparr>"
      "cmd = replicate 12 0 \<or> cmd = wire_name t"
    by (auto simp: unsent_def)
  note len = length_message_header length_wire_name [OF assms(1,2)]
  show "bitcoin_message_serialize P L m None = Inr (m1, Some (24 + length body), None)"
    "bitcoin_message_serialize P L m (Some None) = Inr (m1, Some (24 + length body), Some d)"
    using assms(1,2) m(5) wire_name_first [OF assms(1,2)]
    by (elim disjE; simp add: bitcoin_message_serialize_def m(1-4) name name' strcmp_wire_name mem_read_def mem_write_def
        wire_header_def d_def m1_def Let_def assms(4) len)+
qed

text \<open>C13. A message with a type from 1 to 30 that carries an object and was not serialized before is written, when the
  serializer of its type turns the object into fewer than 2^32 bytes of payload, as its header - magic,
  the zero-padded name of the type, the length of the payload and the first four bytes of its double
  SHA-256 - and that payload, and reading what was written, into any message, is accepted and gives
  the type, the bytes and what the parser of the type makes of the payload. For an empty payload this
  rests on the checksum of no bytes being the constant of the code. The same message without an object, as those of
  the types without payload are, is refused with -1 and left as it is.\<close>

theorem message_roundtrip:
  assumes "hash_provider P sha ripemd" "body = [] \<Longrightarrow> take 4 (hash256 P []) = enc32 EMPTY_PAYLOAD_CHECKSUM"
    and "0 < t" "t < msg_types_count" "unsent m magic t obj" "message_object_serialize L t obj = Some body"
    and "length body < 2 ^ 32"
  shows "\<exists>m1 out. bitcoin_message_serialize P L m (Some None) = Inr (m1, Some (24 + length body), Some out)
    \<and> out = message_header_bytes (wire_header P magic t body) @ body
    \<and> bitcoin_message_parse P L m2 out None 0
      = Inr ((bitcoin_message_clear m2)\<lparr>msg_data := Some out, msg_type := t,
               msg_object := (if body \<noteq> [] \<and> get_payload_parser t then payload_parse L t body else None)\<rparr>, True)
    \<and> bitcoin_message_serialize P L (m\<lparr>msg_object := None\<rparr>) (Some None) = Inr (m\<lparr>msg_object := None\<rparr>, None, None)"
proof -
  let ?h = "wire_header P magic t body"
  have none: "bitcoin_message_serialize P L (m\<lparr>msg_object := None\<rparr>) (Some None) = Inr (m\<lparr>msg_object := None\<rparr>, None, None)"
    by (simp add: bitcoin_message_serialize_def)
  have len: "length (mh_command ?h) = 12" using assms(3,4) by (simp add: wire_header_def length_wire_name)
  have "length (hash256 P body) = 32" by (rule hash_provider.hash256_length [OF assms(1)])
  then have sum: "take 4 (hash256 P body) = enc32 (mh_checksum ?h)"
    using assms(2) by (auto simp: wire_header_def enc_dec)
  have n: "unat (mh_length ?h) = length body" using assms(7) by (simp add: wire_header_def unat_of_nat)
  have h: "message_header_of (message_header_bytes ?h) = ?h" using message_header_of_bytes [OF len, of "[]"] by simp
  have "bitcoin_message_type_from_string (mh_command ?h) = Inr t"
    using known_name(5) [OF assms(3,4)] by (simp add: wire_header_def)
  then have "bitcoin_message_parse P L m2 (message_header_bytes ?h @ body) None 0
    = Inr ((bitcoin_message_clear m2)\<lparr>msg_data := Some (message_header_bytes ?h @ body), msg_type := t,
             msg_object := (if body \<noteq> [] \<and> get_payload_parser t then payload_parse L t body else None)\<rparr>, True)"
    using assms(3) sum n h length_message_header [OF len]
    by (simp add: bitcoin_message_parse_def Let_def mem_read_def) (simp add: bitcoin_message_clear_def)
  then show ?thesis using serialize_unsent(2) [OF assms(3-7)] none by blast
qed

text \<open>Payloads that are their own objects, for evaluating.\<close>

definition raw_payloads :: "bytes payload_ops" where
  "raw_payloads = \<lparr>payload_parse = \<lambda>t b. Some b, payload_serialize = \<lambda>t b. Some b, payload_new = \<lambda>t. []\<rparr>"

definition example_inv :: "bytes message" where
  "example_inv = \<lparr>msg_data = None, msg_type = 4,
     msg_hdr = \<lparr>mh_magic = 0xD9B4BEF9, mh_command = replicate 12 0, mh_length = 0, mh_checksum = 0\<rparr>,
     msg_object = Some [1, 2, 3]\<rparr>"

lemma example_inv_unsent:
  "unsent example_inv 0xD9B4BEF9 4 [1, 2, 3]"
  "message_object_serialize raw_payloads 4 [1, 2, 3] = Some [1, 2, 3]"
  by (simp_all add: unsent_def example_inv_def message_object_serialize_def raw_payloads_def)

theorem message_roundtrip_witness:
  "\<exists>m1 m2 out. bitcoin_message_serialize (recording_ops id id) raw_payloads example_inv (Some None) = Inr (m1, Some 27, Some out)
    \<and> bitcoin_message_parse (recording_ops id id) raw_payloads example_inv out None 0 = Inr (m2, True)
    \<and> msg_type m2 = 4 \<and> msg_object m2 = Some [1, 2, 3]"
  using message_roundtrip [OF recording.hash_provider_axioms _ _ _ example_inv_unsent, of id id example_inv]
  by (auto simp: get_payload_parser_def s_payload_parsers_def raw_payloads_def)

text \<open>A message that was attached to its object cannot be sent: attaching serializes the message once
  to fill its buffer, and serializing it after that gives 24 bytes, the header alone, although the header
  announces the payload; reading these bytes as a message goes past their end.\<close>

theorem attached_message_loses_payload:
  assumes "0 < t" "t < msg_types_count" "message_object_serialize L t obj = Some body"
    and "0 < length body" "length body < 2 ^ 32"
  shows "\<exists>m1 out. bitcoin_message_attach P L m magic t (Some obj) = Inr (m1, True)
    \<and> bitcoin_message_serialize P L m1 (Some None) = Inr (m1, Some 24, Some out)
    \<and> out = message_header_bytes (wire_header P magic t body)
    \<and> bitcoin_message_parse P L m2 out None 0 = Inl Undefined"
proof -
  let ?h = "wire_header P magic t body"
  let ?m0 = "(bitcoin_message_clear m)\<lparr>msg_type := t, msg_object := Some obj, msg_hdr := message_header_zero\<lparr>mh_magic := magic\<rparr>\<rparr>"
  let ?m1 = "?m0\<lparr>msg_hdr := \<lparr>mh_magic = magic, mh_command = wire_name t, mh_length = 0, mh_checksum = 0\<rparr>,
    msg_data := Some (message_header_bytes ?h @ body)\<rparr>"
  note name = known_name(1) [OF assms(1,2)]
  have len: "length (mh_command ?h) = 12" using assms(1,2) by (simp add: wire_header_def length_wire_name)
  have "unsent ?m0 magic t obj" by (simp add: unsent_def bitcoin_message_clear_def message_header_zero_def)
  from serialize_unsent(1) [OF assms(1,2) this assms(3,5), where P = P]
  have attach: "bitcoin_message_attach P L m magic t (Some obj) = Inr (?m1, True)"
    using assms(1,2) by (simp add: bitcoin_message_attach_def Let_def) (simp add: bitcoin_message_clear_def)
  have again: "bitcoin_message_serialize P L ?m1 (Some None) = Inr (?m1, Some 24, Some (message_header_bytes ?h))"
    using assms(1,2) wire_name_first [OF assms(1,2)] length_message_header [OF len]
    by (simp add: bitcoin_message_serialize_def name strcmp_wire_name Let_def mem_read_def mem_write_def)
  have "bitcoin_message_type_from_string (mh_command ?h) = Inr t"
    using known_name(5) [OF assms(1,2)] by (simp add: wire_header_def)
  moreover have "unat (mh_length ?h) = length body" using assms(5) by (simp add: wire_header_def unat_of_nat)
  ultimately have "bitcoin_message_parse P L m2 (message_header_bytes ?h) None 0 = Inl Undefined"
    using assms(1,4) length_message_header [OF len] message_header_of_bytes [OF len, of "[]"]
    by (simp add: bitcoin_message_parse_def Let_def mem_read_def)
  with attach again show ?thesis by blast
qed

theorem attached_message_loses_payload_witness:
  "\<exists>m1 out. bitcoin_message_attach (recording_ops id id) raw_payloads example_inv 0xD9B4BEF9 4 (Some [1, 2, 3]) = Inr (m1, True)
    \<and> bitcoin_message_serialize (recording_ops id id) raw_payloads m1 (Some None) = Inr (m1, Some 24, Some out)
    \<and> bitcoin_message_parse (recording_ops id id) raw_payloads example_inv out None 0 = Inl Undefined"
  using attached_message_loses_payload [OF _ _ example_inv_unsent(2), of "recording_ops id id" example_inv "0xD9B4BEF9" example_inv]
  by auto

lemma type_search_found:
  "type_search i command r = Inr t \<Longrightarrow> t = msg_unknown \<or>
    (\<exists>k < length r. t = i + int k \<and> c_strncmp 12 command (c_string (r ! k)) = Inr 0)"
proof (induction r arbitrary: i)
  case (Cons s r)
  from Cons.prems obtain c where c: "c_strncmp 12 command (c_string s) = Inr c"
      "(if c = 0 then Inr i else type_search (i + 1) command r) = Inr t"
    by (auto simp: res_simps)
  show ?case
  proof (cases "c = 0")
    case True
    with c show ?thesis by auto
  next
    case False
    with c Cons.IH [of "i + 1"] show ?thesis by fastforce
  qed
qed simp

lemma from_string_found:
  assumes "bitcoin_message_type_from_string command = Inr t" "t \<noteq> msg_unknown"
  shows "0 < t \<and> t < msg_types_count \<and> c_strncmp 12 command (c_string (s_sz_message_types ! nat t)) = Inr 0"
  using type_search_found [OF assms(1) [unfolded bitcoin_message_type_from_string_def]] assms(2) names_table(2)
  by (auto simp: nat_add_distrib)

text \<open>A message that is accepted has a known type, the name in its header being the name of that
  type up to padding, a payload of exactly the length in its header, and a checksum that is the start of
  the double SHA-256 of that payload; header and payload are kept as they were read. Whatever is refused
  leaves an empty message.\<close>

theorem message_parse_sound:
  assumes "bitcoin_message_parse P L m mem payload len = Inr (m1, ok)"
  shows "if ok then \<exists>body. msg_data m1 = Some (take 24 mem @ body)
      \<and> length body = unat (mh_length (message_header_of (take 24 mem)))
      \<and> body = take (length body) (case payload of None \<Rightarrow> drop 24 mem | Some p \<Rightarrow> p)
      \<and> take 4 (hash256 P body) = enc32 (mh_checksum (message_header_of (take 24 mem)))
      \<and> 0 < msg_type m1 \<and> msg_type m1 < msg_types_count
      \<and> c_strncmp 12 (mh_command (message_header_of (take 24 mem))) (c_string (s_sz_message_types ! nat (msg_type m1))) = Inr 0
    else m1 = bitcoin_message_clear m"
proof -
  let ?h = "message_header_of (take 24 mem)"
  from assms obtain t where t: "bitcoin_message_type_from_string (mh_command ?h) = Inr t"
    by (auto simp: bitcoin_message_parse_def Let_def res_simps split: if_splits)
  note found = from_string_found [OF this]
  show ?thesis
    using assms t found
    by (auto simp: bitcoin_message_parse_def Let_def res_simps split: if_splits)
qed

theorem message_parse_sound_witness:
  "\<exists>m1. bitcoin_message_parse (recording_ops id id) raw_payloads example_inv
      (message_header_bytes (message_header_zero\<lparr>mh_command := wire_name 2\<rparr>)) None 0 = Inr (m1, True)
    \<and> 0 < msg_type m1 \<and> msg_type m1 < msg_types_count"
proof -
  let ?h = "message_header_zero\<lparr>mh_command := wire_name 2\<rparr>"
  have h: "length (mh_command ?h) = 12" by (simp add: length_wire_name)
  have zeros: "replicate 4 0 = [0, 0, 0, 0 :: byte]" by (simp add: eval_nat_numeral)
  have "hash256 (recording_ops id id) [] = replicate 32 0"
    by (simp add: hash256_def recording_ops_def fit_def)
  then have "\<exists>m1. bitcoin_message_parse (recording_ops id id) raw_payloads example_inv (message_header_bytes ?h) None 0 = Inr (m1, True)"
    using length_message_header [OF h] message_header_of_bytes [OF h, of "[]"] known_name(5) [of 2]
    by (simp add: bitcoin_message_parse_def Let_def mem_read_def message_header_zero_def enc32_def le_bytes_4 zeros)
  then obtain m1 where "bitcoin_message_parse (recording_ops id id) raw_payloads example_inv (message_header_bytes ?h) None 0 = Inr (m1, True)" ..
  from message_parse_sound [OF this] this show ?thesis by auto
qed

end
