(* ===== verification/Chains.thy ===== *)
theory Chains
  imports Block Queues "HOL-Library.AList"
begin

text \<open>
  The block chain and its candidates (\<open>src/chains.c\<close>). The verified chain is an array of heirs;
  blocks that are not on it hang in trees of \<open>block_info\<close> nodes, one tree for each unknown parent,
  linked by pointers to the parent, the first child and the next sibling. The nodes are in an explicit
  store, so that nodes that were freed and pointers that go astray are seen. The search trees of the
  C library are finite maps from hashes. Cumulative difficulties are floating-point numbers, a parameter
  (record \<open>work_ops\<close>) together with the functions that compute the difficulty of a block; the mutex
  plays no part, one thread runs. Walks along pointers have a bound on their steps.
\<close>

section \<open>State\<close>

record 'w work_ops =
  work_zero :: 'w
  work_add :: "'w \<Rightarrow> 'w \<Rightarrow> 'w"
  work_less :: "'w \<Rightarrow> 'w \<Rightarrow> bool"
  compact_uint256_to_bdiff :: "u32 \<Rightarrow> 'w"
  compact_uint256_to_difficulty :: "u32 \<Rightarrow> 'w"

record 'w block_info =
  bi_hash :: bytes
  bi_hdr :: "block_header option"
  bi_height :: int
  bi_cumulative_difficulty :: 'w
  bi_parent :: "nat option"
  bi_first_child :: "nat option"
  bi_next_sibling :: "nat option"

text \<open>What an active chain has besides its head; the pointer to the chain is the one to the head.\<close>

record active_chain =
  longest_end :: "nat option"
  has_search_root :: bool

text \<open>The search tree as the list of its keys and nodes. A tree whose nodes have been destroyed is dangling.\<close>

record active_chain_list =
  acl_max_size :: nat
  acl_chains :: "nat list"
  acl_root :: "(bytes \<times> nat) list"
  acl_dangling :: bool

record 'w heir =
  heir_hash :: bytes
  heir_timestamp :: u64
  heir_bits :: u32
  heir_cumulative_difficulty :: 'w
  heir_hdr :: block_header

text \<open>The calls of the call-backs, the latest last.\<close>

datatype chain_event = Added nat bytes block_header | Removed nat bytes

record 'w blockchain =
  heirs :: "nat \<Rightarrow> 'w heir"
  bc_max_size :: nat
  bc_height :: int
  bc_root :: "bytes \<Rightarrow> nat option"
  bc_events :: "chain_event list"
  candidates :: active_chain_list
  infos :: "nat \<Rightarrow> 'w block_info option"
  chains :: "nat \<Rightarrow> active_chain option"
  next_info :: nat

type_synonym 'w bc_ret = "('w blockchain \<times> bool) res"

section \<open>Nodes\<close>

definition header_zero :: block_header where
  "header_zero = \<lparr>hdr_version = 0, hdr_prev_hash = replicate 32 0, hdr_merkle_root = replicate 32 0,
     hdr_timestamp = 0, hdr_bits = 0, hdr_nonce = 0\<rparr>"

definition info_at :: "'w blockchain \<Rightarrow> nat \<Rightarrow> 'w block_info res" where
  "info_at s a = (case infos s a of None \<Rightarrow> Inl Undefined | Some n \<Rightarrow> Inr n)"

definition info_put :: "'w blockchain \<Rightarrow> nat \<Rightarrow> 'w block_info \<Rightarrow> 'w blockchain" where
  "info_put s a n = s\<lparr>infos := (infos s)(a \<mapsto> n)\<rparr>"

definition info_header :: "'w block_info \<Rightarrow> block_header res" where
  "info_header n = (case bi_hdr n of None \<Rightarrow> Inl Undefined | Some h \<Rightarrow> Inr h)"

text \<open>A new node with a zeroed header of its own.\<close>

definition block_info_new :: "'w work_ops \<Rightarrow> 'w blockchain \<Rightarrow> bytes \<Rightarrow> nat \<times> 'w blockchain" where
  "block_info_new W s hash =
     (let n = \<lparr>bi_hash = hash, bi_hdr = Some header_zero, bi_height = -1, bi_cumulative_difficulty = work_zero W,
               bi_parent = None, bi_first_child = None, bi_next_sibling = None\<rparr>
      in (next_info s, s\<lparr>infos := (infos s)(next_info s \<mapsto> n), next_info := Suc (next_info s)\<rparr>))"

definition info_free :: "'w blockchain \<Rightarrow> nat \<Rightarrow> 'w blockchain" where
  "info_free s a = s\<lparr>infos := (infos s)(a := None)\<rparr>"

fun block_info_free :: "nat \<Rightarrow> 'w blockchain \<Rightarrow> nat option \<Rightarrow> 'w blockchain res" where
  "block_info_free fuel s None = Inr s"
| "block_info_free 0 s (Some a) = Inl Unfinished"
| "block_info_free (Suc fuel) s (Some a) =
     andThen (info_at s a) (\<lambda>n.
       andThen (block_info_free fuel s (bi_next_sibling n)) (\<lambda>s1.
         andThen (info_at s1 a) (\<lambda>n1.
           andThen (block_info_free fuel s1 (bi_first_child n1)) (\<lambda>s2.
             andThen (info_at s2 a) (\<lambda>_. Inr (info_free s2 a))))))"

fun last_sibling :: "nat \<Rightarrow> 'w blockchain \<Rightarrow> nat \<Rightarrow> nat res" where
  "last_sibling 0 s a = Inl Unfinished"
| "last_sibling (Suc fuel) s a =
     andThen (info_at s a) (\<lambda>n.
       case bi_next_sibling n of None \<Rightarrow> Inr a | Some b \<Rightarrow> last_sibling fuel s b)"

definition block_info_add_child :: "nat \<Rightarrow> 'w blockchain \<Rightarrow> nat \<Rightarrow> nat \<Rightarrow> 'w blockchain res" where
  "block_info_add_child fuel s parent child =
     andThen (info_at s parent) (\<lambda>p.
       andThen (case bi_first_child p of
           None \<Rightarrow> Inr (info_put s parent (p\<lparr>bi_first_child := Some child\<rparr>))
         | Some c \<Rightarrow>
             andThen (last_sibling fuel s c) (\<lambda>l.
               andThen (info_at s l) (\<lambda>n. Inr (info_put s l (n\<lparr>bi_next_sibling := Some child\<rparr>))))) (\<lambda>s1.
         andThen (info_at s1 child) (\<lambda>c. Inr (info_put s1 child (c\<lparr>bi_parent := Some parent\<rparr>)))))"

text \<open>
  The cumulative difficulty of a node, its children and its siblings, each sibling going through the
  ones behind it again. The longest end is tracked when the caller has a place for it.
\<close>

fun block_info_update_cumulative_difficulty ::
    "nat \<Rightarrow> 'w work_ops \<Rightarrow> 'w blockchain \<Rightarrow> nat option \<Rightarrow> 'w \<Rightarrow> nat option option
      \<Rightarrow> ('w blockchain \<times> nat option option) res"
  and update_siblings ::
    "nat \<Rightarrow> 'w work_ops \<Rightarrow> 'w blockchain \<Rightarrow> nat option \<Rightarrow> 'w \<Rightarrow> nat option option
      \<Rightarrow> ('w blockchain \<times> nat option option) res" where
  "block_info_update_cumulative_difficulty fuel W s None cum longest = Inr (s, longest)"
| "block_info_update_cumulative_difficulty 0 W s (Some a) cum longest = Inl Unfinished"
| "block_info_update_cumulative_difficulty (Suc fuel) W s (Some a) cum longest =
     andThen (info_at s a) (\<lambda>n. andThen (info_header n) (\<lambda>h.
       let d = work_add W cum (compact_uint256_to_difficulty W (hdr_bits h));
           s1 = info_put s a (n\<lparr>bi_cumulative_difficulty := d\<rparr>)
       in andThen (case longest of
             None \<Rightarrow> Inr None
           | Some None \<Rightarrow> Inr (Some (Some a))
           | Some (Some b) \<Rightarrow> andThen (info_at s1 b) (\<lambda>m.
               Inr (Some (if work_less W (bi_cumulative_difficulty m) d then Some a else Some b)))) (\<lambda>longest1.
         andThen (block_info_update_cumulative_difficulty fuel W s1 (bi_first_child n) d longest1) (\<lambda>(s2, longest2).
           andThen (info_at s2 a) (\<lambda>n2. update_siblings fuel W s2 (bi_next_sibling n2) cum longest2)))))"
| "update_siblings fuel W s None cum longest = Inr (s, longest)"
| "update_siblings 0 W s (Some b) cum longest = Inl Unfinished"
| "update_siblings (Suc fuel) W s (Some b) cum longest =
     andThen (block_info_update_cumulative_difficulty fuel W s (Some b) cum longest) (\<lambda>(s1, longest1).
       andThen (info_at s1 b) (\<lambda>n. update_siblings fuel W s1 (bi_next_sibling n) cum longest1))"

text \<open>Moving a node, its parent, and so on to the first place among their siblings.\<close>

fun sibling_before :: "nat \<Rightarrow> 'w blockchain \<Rightarrow> nat option \<Rightarrow> nat \<Rightarrow> nat res" where
  "sibling_before fuel s None a = Inl Abort"
| "sibling_before 0 s (Some p) a = Inl Unfinished"
| "sibling_before (Suc fuel) s (Some p) a =
     andThen (info_at s p) (\<lambda>n.
       if bi_next_sibling n = Some a then Inr p else sibling_before fuel s (bi_next_sibling n) a)"

fun block_info_declare_inheritance :: "nat \<Rightarrow> 'w blockchain \<Rightarrow> nat option \<Rightarrow> 'w blockchain res" where
  "block_info_declare_inheritance fuel s None = Inr s"
| "block_info_declare_inheritance 0 s (Some a) = Inl Unfinished"
| "block_info_declare_inheritance (Suc fuel) s (Some a) =
     andThen (info_at s a) (\<lambda>n.
       case bi_parent n of
         None \<Rightarrow> Inr s
       | Some p \<Rightarrow>
           andThen (info_at s p) (\<lambda>pn.
             andThen (if bi_first_child pn = Some a then Inr s
               else andThen (sibling_before fuel s (bi_first_child pn) a) (\<lambda>b.
                 andThen (info_at s b) (\<lambda>bn.
                   let s1 = info_put s b (bn\<lparr>bi_next_sibling := bi_next_sibling n\<rparr>);
                       s2 = info_put s1 a (n\<lparr>bi_next_sibling := bi_first_child pn\<rparr>)
                   in andThen (info_at s2 p) (\<lambda>pn2. Inr (info_put s2 p (pn2\<lparr>bi_first_child := Some a\<rparr>)))))) (\<lambda>s1.
               block_info_declare_inheritance fuel s1 (Some p))))"

section \<open>Search trees of the C library\<close>

text \<open>
  The node found or put in, and the tree; whether a node was found, and the tree without it. An access
  compares the key with nodes of the tree: a tree that was destroyed, or that holds a node that was
  freed, must not be accessed.
\<close>

definition tsearch :: "(bytes \<times> nat) list \<Rightarrow> bytes \<Rightarrow> nat \<Rightarrow> nat \<times> (bytes \<times> nat) list" where
  "tsearch root key a = (case map_of root key of Some b \<Rightarrow> (b, root) | None \<Rightarrow> (a, (key, a) # root))"

definition tdelete :: "(bytes \<times> nat) list \<Rightarrow> bytes \<Rightarrow> bool \<times> (bytes \<times> nat) list" where
  "tdelete root key = (map_of root key \<noteq> None, AList.delete key root)"

definition list_root :: "'w blockchain \<Rightarrow> (bytes \<times> nat) list res" where
  "list_root s =
     (if acl_dangling (candidates s) \<or> (\<exists>(key, a) \<in> set (acl_root (candidates s)). infos s a = None)
      then Inl Undefined else Inr (acl_root (candidates s)))"

definition put_list_root :: "'w blockchain \<Rightarrow> (bytes \<times> nat) list \<Rightarrow> 'w blockchain" where
  "put_list_root s root = s\<lparr>candidates := (candidates s)\<lparr>acl_root := root\<rparr>\<rparr>"

definition list_tsearch :: "'w blockchain \<Rightarrow> nat \<Rightarrow> (nat \<times> 'w blockchain) res" where
  "list_tsearch s a =
     andThen (info_at s a) (\<lambda>n. andThen (list_root s) (\<lambda>root.
       case tsearch root (bi_hash n) a of (b, root') \<Rightarrow> Inr (b, put_list_root s root')))"

definition list_tdelete :: "'w blockchain \<Rightarrow> nat \<Rightarrow> 'w bc_ret" where
  "list_tdelete s a =
     andThen (info_at s a) (\<lambda>n. andThen (list_root s) (\<lambda>root.
       case tdelete root (bi_hash n) of (found, root') \<Rightarrow> Inr (put_list_root s root', found)))"

definition list_search_tree_add :: "'w blockchain \<Rightarrow> nat \<Rightarrow> 'w blockchain res" where
  "list_search_tree_add s a =
     andThen (list_tsearch s a) (\<lambda>(b, s'). if b = a then Inr s' else Inl Abort)"

definition list_search_tree_remove :: "'w blockchain \<Rightarrow> nat \<Rightarrow> 'w blockchain res" where
  "list_search_tree_remove s a =
     andThen (list_tdelete s a) (\<lambda>(s', found). if found then Inr s' else Inl Abort)"

definition active_chain_list_find :: "'w blockchain \<Rightarrow> bytes \<Rightarrow> nat option res" where
  "active_chain_list_find s hash = andThen (list_root s) (\<lambda>root. Inr (map_of root hash))"

text \<open>Putting a tree of nodes into the search tree, breadth first, with the ring buffer. A null pointer
  that comes out of the buffer ends the walk; the buffer is asserted to be empty then.\<close>

fun enter_siblings :: "nat \<Rightarrow> 'w blockchain \<Rightarrow> nat ring \<Rightarrow> nat option \<Rightarrow> nat ring res" where
  "enter_siblings fuel s q None = Inr q"
| "enter_siblings 0 s q (Some b) = Inl Unfinished"
| "enter_siblings (Suc fuel) s q (Some b) =
     andThen (ring_enter q (Some b)) (\<lambda>q1. andThen (info_at s b) (\<lambda>n.
       enter_siblings fuel s q1 (bi_next_sibling n)))"

fun traverse_add :: "nat \<Rightarrow> 'w blockchain \<Rightarrow> nat ring \<Rightarrow> ('w blockchain \<times> nat ring) res" where
  "traverse_add 0 s q = Inl Unfinished"
| "traverse_add (Suc fuel) s q =
     andThen (ring_leave q) (\<lambda>(node, q1).
       case node of
         None \<Rightarrow> Inr (s, q1)
       | Some a \<Rightarrow>
           andThen (list_tsearch s a) (\<lambda>(_, s1). andThen (info_at s1 a) (\<lambda>n.
             andThen (enter_siblings fuel s1 q1 (bi_next_sibling n)) (\<lambda>q2.
               andThen (ring_enter q2 (bi_first_child n)) (\<lambda>q3. traverse_add fuel s1 q3)))))"

definition search_tree_traverse_BFS :: "nat \<Rightarrow> 'w blockchain \<Rightarrow> nat \<Rightarrow> 'w blockchain res" where
  "search_tree_traverse_BFS fuel s a =
     andThen (ring_enter (clib_queue_init ring_zero 100) (Some a)) (\<lambda>q.
       andThen (traverse_add fuel s q) (\<lambda>(s1, q1). if rq_length q1 = 0 then Inr s1 else Inl Abort))"

section \<open>Active chains\<close>

fun chain_end :: "nat \<Rightarrow> 'w blockchain \<Rightarrow> nat \<Rightarrow> nat res" where
  "chain_end 0 s a = Inl Unfinished"
| "chain_end (Suc fuel) s a =
     andThen (info_at s a) (\<lambda>n. case bi_first_child n of None \<Rightarrow> Inr a | Some b \<Rightarrow> chain_end fuel s b)"

text \<open>A chain that is not told its search tree. The head has no header.\<close>

definition active_chain_new :: "nat \<Rightarrow> 'w work_ops \<Rightarrow> 'w blockchain \<Rightarrow> nat \<Rightarrow> (nat \<times> 'w blockchain) res" where
  "active_chain_new fuel W s orphan =
     andThen (info_at s orphan) (\<lambda>n. case bi_hdr n of None \<Rightarrow> Inl Abort | Some h \<Rightarrow>
       let c = next_info s;
           head = \<lparr>bi_hash = hdr_prev_hash h, bi_hdr = None, bi_height = 0, bi_cumulative_difficulty = work_zero W,
                   bi_parent = None, bi_first_child = Some orphan, bi_next_sibling = None\<rparr>;
           s1 = s\<lparr>infos := (infos s)(c \<mapsto> head, orphan \<mapsto> n\<lparr>bi_parent := Some c\<rparr>), next_info := Suc c\<rparr>
       in andThen (chain_end fuel s1 orphan) (\<lambda>e.
         Inr (c, s1\<lparr>chains := (chains s1)(c \<mapsto> \<lparr>longest_end = Some e, has_search_root = False\<rparr>)\<rparr>)))"

definition chain_at :: "'w blockchain \<Rightarrow> nat \<Rightarrow> active_chain res" where
  "chain_at s c = (case chains s c of None \<Rightarrow> Inl Undefined | Some x \<Rightarrow> Inr x)"

fun active_chain_remove_child :: "nat \<Rightarrow> 'w blockchain \<Rightarrow> nat \<Rightarrow> 'w blockchain res"
  and remove_children :: "nat \<Rightarrow> 'w blockchain \<Rightarrow> nat option \<Rightarrow> 'w blockchain res" where
  "active_chain_remove_child 0 s a = Inl Unfinished"
| "active_chain_remove_child (Suc fuel) s a =
     andThen (info_at s a) (\<lambda>n. remove_children fuel s (bi_first_child n))"
| "remove_children fuel s None = Inr s"
| "remove_children 0 s (Some b) = Inl Unfinished"
| "remove_children (Suc fuel) s (Some b) =
     andThen (list_tdelete s b) (\<lambda>(s1, _).
       andThen (active_chain_remove_child fuel s1 b) (\<lambda>s2.
         andThen (info_at s2 b) (\<lambda>n. remove_children fuel s2 (bi_next_sibling n))))"

text \<open>The next sibling is read from the child after the child was freed.\<close>

fun free_children :: "nat \<Rightarrow> 'w blockchain \<Rightarrow> nat option \<Rightarrow> 'w blockchain res" where
  "free_children fuel s None = Inr s"
| "free_children 0 s (Some b) = Inl Unfinished"
| "free_children (Suc fuel) s (Some b) =
     andThen (block_info_free fuel s (Some b)) (\<lambda>s1.
       andThen (info_at s1 b) (\<lambda>n. free_children fuel s1 (bi_next_sibling n)))"

definition active_chain_free :: "nat \<Rightarrow> 'w blockchain \<Rightarrow> nat \<Rightarrow> 'w blockchain res" where
  "active_chain_free fuel s c =
     andThen (chain_at s c) (\<lambda>_.
       andThen (active_chain_remove_child fuel s c) (\<lambda>s1.
         andThen (list_tdelete s1 c) (\<lambda>(s2, _).
           andThen (info_at s2 c) (\<lambda>head.
             andThen (free_children fuel s2 (bi_first_child head)) (\<lambda>s3.
               Inr ((info_free s3 c)\<lparr>chains := (chains s3)(c := None)\<rparr>))))))"

section \<open>The list of candidates\<close>

definition ACTIVE_CHAIN_LIST_ALLOC_SIZE :: nat where "ACTIVE_CHAIN_LIST_ALLOC_SIZE = 1024"

definition active_chain_list_resize :: "active_chain_list \<Rightarrow> nat \<Rightarrow> active_chain_list" where
  "active_chain_list_resize l n =
     (let m = (if n = 0 then ACTIVE_CHAIN_LIST_ALLOC_SIZE
               else (n + ACTIVE_CHAIN_LIST_ALLOC_SIZE - 1) div ACTIVE_CHAIN_LIST_ALLOC_SIZE * ACTIVE_CHAIN_LIST_ALLOC_SIZE)
      in if m \<le> acl_max_size l then l else l\<lparr>acl_max_size := m\<rparr>)"

definition active_chain_list_init :: "active_chain_list \<Rightarrow> nat \<Rightarrow> active_chain_list" where
  "active_chain_list_init l max_size = active_chain_list_resize l max_size"

definition list_add :: "nat \<Rightarrow> 'w blockchain \<Rightarrow> nat \<Rightarrow> 'w blockchain res" where
  "list_add fuel s c =
     andThen (chain_at s c) (\<lambda>x.
       let l = active_chain_list_resize (candidates s) (length (acl_chains (candidates s)) + 1);
           s1 = s\<lparr>candidates := l\<lparr>acl_chains := acl_chains l @ [c]\<rparr>\<rparr>
       in if has_search_root x then Inr s1
          else search_tree_traverse_BFS fuel (s1\<lparr>chains := (chains s1)(c \<mapsto> x\<lparr>has_search_root := True\<rparr>)\<rparr>) c)"

text \<open>The last chain takes the place of the one removed.\<close>

definition list_remove :: "nat \<Rightarrow> 'w blockchain \<Rightarrow> nat \<Rightarrow> 'w blockchain res" where
  "list_remove fuel s c =
     (let cs = acl_chains (candidates s); front = takeWhile (\<lambda>x. x \<noteq> c) cs; i = length front
      in if i = length cs then Inr s
         else andThen (active_chain_free fuel s c) (\<lambda>s1.
           Inr (s1\<lparr>candidates := (candidates s1)\<lparr>acl_chains := butlast (cs[i := last cs])\<rparr>\<rparr>)))"

fun free_chains :: "nat \<Rightarrow> 'w blockchain \<Rightarrow> nat list \<Rightarrow> 'w blockchain res" where
  "free_chains fuel s [] = Inr s"
| "free_chains fuel s (c # cs) = andThen (active_chain_free fuel s c) (\<lambda>s1. free_chains fuel s1 cs)"

definition active_chain_list_reset :: "nat \<Rightarrow> 'w blockchain \<Rightarrow> 'w blockchain res" where
  "active_chain_list_reset fuel s =
     andThen (free_chains fuel s (acl_chains (candidates s))) (\<lambda>s1.
       Inr (s1\<lparr>candidates := (candidates s1)\<lparr>acl_chains := []\<rparr>\<rparr>))"

text \<open>The nodes still in the search tree are freed with it; the pointer to the tree stays.\<close>

definition active_chain_list_cleanup :: "nat \<Rightarrow> 'w blockchain \<Rightarrow> 'w blockchain res" where
  "active_chain_list_cleanup fuel s =
     andThen (active_chain_list_reset fuel s) (\<lambda>s1.
       andThen (list_root s1) (\<lambda>root.
         Inr (s1\<lparr>infos := fold (\<lambda>(_, a) m. m(a := None)) root (infos s1),
                 candidates := (candidates s1)\<lparr>acl_max_size := 0, acl_dangling := (root \<noteq> [])\<rparr>\<rparr>)))"

section \<open>The chain of heirs\<close>

definition BLOCKCHAIN_DEFAULT_ALLOC_SIZE :: nat where
  "BLOCKCHAIN_DEFAULT_ALLOC_SIZE = 6 * 24 * 365 * 100"

definition heir_zero :: "'w work_ops \<Rightarrow> 'w heir" where
  "heir_zero W = \<lparr>heir_hash = replicate 32 0, heir_timestamp = 0, heir_bits = 0,
     heir_cumulative_difficulty = work_zero W, heir_hdr = header_zero\<rparr>"

text \<open>The clearing starts at the first heir, not at the first new one.\<close>

definition blockchain_resize :: "'w work_ops \<Rightarrow> 'w blockchain \<Rightarrow> int \<Rightarrow> 'w blockchain" where
  "blockchain_resize W s n =
     (let size = (if n \<le> 0 then BLOCKCHAIN_DEFAULT_ALLOC_SIZE
        else (nat n + BLOCKCHAIN_DEFAULT_ALLOC_SIZE - 1) div BLOCKCHAIN_DEFAULT_ALLOC_SIZE * BLOCKCHAIN_DEFAULT_ALLOC_SIZE)
      in if size \<le> bc_max_size s then s
         else s\<lparr>heirs := (\<lambda>i. if i < size - bc_max_size s then heir_zero W else heirs s i), bc_max_size := size\<rparr>)"

definition blockchain_find :: "'w blockchain \<Rightarrow> bytes \<Rightarrow> nat option" where
  "blockchain_find s hash = bc_root s hash"

definition blockchain_get :: "'w blockchain \<Rightarrow> int \<Rightarrow> 'w heir option" where
  "blockchain_get s height = None"

definition blockchain_get_height :: "'w blockchain \<Rightarrow> bytes \<Rightarrow> int" where
  "blockchain_get_height s hash = -1"

text \<open>A heir as a new orphan: of the header only the previous hash, the target and the time are kept.\<close>

definition abandon_child :: "'w work_ops \<Rightarrow> 'w blockchain \<Rightarrow> nat \<Rightarrow> (nat \<times> 'w blockchain) res" where
  "abandon_child W s i =
     (case block_info_new W s (heir_hash (heirs s i)) of (a, s1) \<Rightarrow>
       andThen (info_at s1 a) (\<lambda>n.
         let h = header_zero\<lparr>hdr_prev_hash := heir_hash (heirs s (i - 1)), hdr_bits := heir_bits (heirs s i),
                             hdr_timestamp := ucast (heir_timestamp (heirs s i))\<rparr>;
             s2 = info_put s1 a (n\<lparr>bi_hdr := Some h,
                                    bi_cumulative_difficulty := heir_cumulative_difficulty (heirs s i)\<rparr>)
         in Inr (a, s2\<lparr>bc_root := (bc_root s2)(heir_hash (heirs s i) := None)\<rparr>)))"

text \<open>
  The next heir of a heir. When the array grows it moves, and the pointers to its heirs are stale;
  the array has room for the height before the whole branch is added, not for every heir of it.
\<close>

definition add_heir :: "'w work_ops \<Rightarrow> 'w blockchain \<Rightarrow> nat \<Rightarrow> 'w block_info \<Rightarrow> 'w blockchain res" where
  "add_heir W s i n =
     andThen (info_header n) (\<lambda>h.
       if hdr_prev_hash h \<noteq> heir_hash (heirs s i) then Inl Abort
       else let s1 = blockchain_resize W s (1 + bc_height s + 1)
       in if bc_max_size s1 \<noteq> bc_max_size s \<or> bc_max_size s1 \<le> i + 1 then Inl Undefined
       else let heir = \<lparr>heir_hash = bi_hash n, heir_timestamp = ucast (hdr_timestamp h), heir_bits = hdr_bits h,
                        heir_cumulative_difficulty =
                          work_add W (heir_cumulative_difficulty (heirs s1 i)) (compact_uint256_to_bdiff W (hdr_bits h)),
                        heir_hdr = h\<rparr>
       in case bc_root s1 (bi_hash n) of
            Some j \<Rightarrow> if j = i + 1 then Inr (s1\<lparr>heirs := (heirs s1)(i + 1 := heir)\<rparr>) else Inl Abort
          | None \<Rightarrow> Inr (s1\<lparr>heirs := (heirs s1)(i + 1 := heir), bc_root := (bc_root s1)(bi_hash n \<mapsto> i + 1)\<rparr>))"

text \<open>The heirs above \<open>i\<close>, \<open>k\<close> of them, from the last to the first; each is the only child of the one before.\<close>

fun abandon_heirs :: "'w work_ops \<Rightarrow> 'w blockchain \<Rightarrow> nat \<Rightarrow> nat \<Rightarrow> nat option \<Rightarrow> (nat option \<times> 'w blockchain) res" where
  "abandon_heirs W s i 0 orphans = Inr (orphans, s)"
| "abandon_heirs W s i (Suc k) orphans =
     andThen (abandon_child W s (i + Suc k)) (\<lambda>(a, s1).
       let s2 = s1\<lparr>bc_events := bc_events s1 @ [Removed (i + Suc k) (heir_hash (heirs s1 (i + Suc k)))]\<rparr>
       in andThen (info_at s2 a) (\<lambda>n.
         let s3 = info_put s2 a (n\<lparr>bi_first_child := orphans\<rparr>)
         in andThen (case orphans of None \<Rightarrow> Inr s3
               | Some b \<Rightarrow> andThen (info_at s3 b) (\<lambda>m. Inr (info_put s3 b (m\<lparr>bi_parent := Some a\<rparr>)))) (\<lambda>s4.
           abandon_heirs W s4 i k (Some a))))"

definition blockchain_abandon_inheritances ::
    "'w work_ops \<Rightarrow> 'w blockchain \<Rightarrow> nat \<Rightarrow> (nat option \<times> 'w blockchain) res" where
  "blockchain_abandon_inheritances W s i =
     (if bc_height s < int i then Inl Abort
      else if bc_height s = int i then Inr (None, s)
      else andThen (abandon_heirs W s i (nat (bc_height s) - i) None) (\<lambda>(orphans, s1).
        Inr (orphans, s1\<lparr>bc_height := int i\<rparr>)))"

text \<open>A node and its line of first children become heirs; the number of the last one.\<close>

fun inherit :: "nat \<Rightarrow> 'w work_ops \<Rightarrow> 'w blockchain \<Rightarrow> nat \<Rightarrow> nat option \<Rightarrow> (nat \<times> 'w blockchain) res" where
  "inherit fuel W s i None = Inr (i, s)"
| "inherit 0 W s i (Some a) = Inl Unfinished"
| "inherit (Suc fuel) W s i (Some a) =
     andThen (info_at s a) (\<lambda>n. andThen (add_heir W s i n) (\<lambda>s1. andThen (info_header n) (\<lambda>h.
       inherit fuel W (s1\<lparr>bc_events := bc_events s1 @ [Added (i + 1) (bi_hash n) h]\<rparr>) (i + 1) (bi_first_child n))))"

definition blockchain_add_inheritances ::
    "nat \<Rightarrow> 'w work_ops \<Rightarrow> 'w blockchain \<Rightarrow> nat \<Rightarrow> nat option \<Rightarrow> (nat option \<times> 'w blockchain) res" where
  "blockchain_add_inheritances fuel W s i child =
     (if child = None then Inl Abort
      else andThen (blockchain_abandon_inheritances W s i) (\<lambda>(orphans, s1).
        andThen (inherit fuel W s1 i child) (\<lambda>(j, s2). Inr (orphans, s2\<lparr>bc_height := int j\<rparr>))))"

definition blockchain_get_latest :: "'w blockchain \<Rightarrow> int \<times> (bytes \<times> block_header) option" where
  "blockchain_get_latest s =
     (bc_height s, if 0 \<le> bc_height s then Some (heir_hash (heirs s (nat (bc_height s))), heir_hdr (heirs s (nat (bc_height s))))
                   else None)"

text \<open>The hashes written to the caller's array, and the count returned.\<close>

fun known_hashes :: "'w blockchain \<Rightarrow> nat \<Rightarrow> nat \<Rightarrow> int \<Rightarrow> int \<Rightarrow> nat \<Rightarrow> bytes list \<times> nat" where
  "known_hashes s 0 i height step count = ([], count)"
| "known_hashes s (Suc left) i height step count =
     (if height < 0 then ([], count)
      else let hash = heir_hash (heirs s (nat height)) in
        if height = 0 then ([hash], count)
        else let step' = (if 10 \<le> i then step * 2 else step); height' = height - step' in
          case known_hashes s left (i + 1) (if height' < 0 then 0 else height') step' (count + 1) of
            (hs, c) \<Rightarrow> (hash # hs, c))"

definition blockchain_get_known_hashes :: "'w blockchain \<Rightarrow> nat \<Rightarrow> bytes list \<times> nat" where
  "blockchain_get_known_hashes s max_hashes =
     known_hashes s (if max_hashes = 0 \<or> 2000 < max_hashes then 2000 else max_hashes) 0 (bc_height s) 1 1"

definition g_genesis_block_hash :: bytes where
  "g_genesis_block_hash =
     [0x6f, 0xe2, 0x8c, 0x0a, 0xb6, 0xf1, 0xb3, 0x72, 0xc1, 0xa6, 0xa2, 0x46, 0xae, 0x63, 0xf7, 0x4f,
      0x93, 0x1e, 0x83, 0x65, 0xe1, 0x5a, 0x08, 0x9c, 0x68, 0xd6, 0x19, 0x00, 0x00, 0x00, 0x00, 0x00]"

definition g_genesis_block_hdr :: block_header where
  "g_genesis_block_hdr = \<lparr>hdr_version = 1, hdr_prev_hash = replicate 32 0, hdr_merkle_root =
     [0x3b, 0xa3, 0xed, 0xfd, 0x7a, 0x7b, 0x12, 0xb2, 0x7a, 0xc7, 0x2c, 0x3e, 0x67, 0x76, 0x8f, 0x61,
      0x7f, 0xc8, 0x1b, 0xc3, 0x88, 0x8a, 0x51, 0x32, 0x3a, 0x9f, 0xb8, 0xaa, 0x4b, 0x1e, 0x5e, 0x4a],
     hdr_timestamp = 0x495fab29, hdr_bits = 0x1d00ffff, hdr_nonce = 0x7c2bac1d\<rparr>"

text \<open>Zeroed memory, and the initialisation of memory the caller gives; the height is not set.\<close>

definition blockchain_zero :: "'w work_ops \<Rightarrow> 'w blockchain" where
  "blockchain_zero W = \<lparr>heirs = \<lambda>_. heir_zero W, bc_max_size = 0, bc_height = 0, bc_root = \<lambda>_. None, bc_events = [],
     candidates = \<lparr>acl_max_size = 0, acl_chains = [], acl_root = [], acl_dangling = False\<rparr>,
     infos = \<lambda>_. None, chains = \<lambda>_. None, next_info = 0\<rparr>"

definition blockchain_init ::
    "'w work_ops \<Rightarrow> 'w blockchain \<Rightarrow> bytes option \<Rightarrow> block_header option \<Rightarrow> 'w blockchain" where
  "blockchain_init W s genesis_hash genesis_hdr =
     (let hash = (case genesis_hash of None \<Rightarrow> g_genesis_block_hash | Some x \<Rightarrow> x);
          h = (case genesis_hdr of None \<Rightarrow> g_genesis_block_hdr | Some x \<Rightarrow> x);
          s1 = blockchain_resize W s 0;
          heir = \<lparr>heir_hash = hash, heir_timestamp = ucast (hdr_timestamp h), heir_bits = hdr_bits h,
                  heir_cumulative_difficulty = compact_uint256_to_bdiff W (hdr_bits h), heir_hdr = h\<rparr>
      in s1\<lparr>heirs := (heirs s1)(0 := heir),
            bc_root := (case bc_root s1 hash of None \<Rightarrow> (bc_root s1)(hash \<mapsto> 0) | Some _ \<Rightarrow> bc_root s1),
            candidates := active_chain_list_init (candidates s1) 0\<rparr>)"

definition blockchain_reset :: "nat \<Rightarrow> 'w blockchain \<Rightarrow> 'w blockchain res" where
  "blockchain_reset fuel s =
     (if bc_max_size s = 0 then Inr s
      else andThen (active_chain_list_cleanup fuel s) (\<lambda>s1.
        Inr (s1\<lparr>bc_root := fold (\<lambda>i m. m(heir_hash (heirs s1 i) := None)) [0..<nat (bc_height s1 + 1)] (bc_root s1),
                bc_height := -1\<rparr>)))"

definition blockchain_cleanup :: "nat \<Rightarrow> 'w blockchain \<Rightarrow> 'w blockchain res" where
  "blockchain_cleanup fuel s =
     andThen (active_chain_list_cleanup fuel s) (\<lambda>s1.
       Inr (s1\<lparr>bc_max_size := 0, bc_height := -1, bc_root := \<lambda>_. None\<rparr>))"

section \<open>Adding a block\<close>

fun get_current_chain :: "nat \<Rightarrow> 'w blockchain \<Rightarrow> nat \<Rightarrow> nat res" where
  "get_current_chain 0 s a = Inl Unfinished"
| "get_current_chain (Suc fuel) s a =
     andThen (info_at s a) (\<lambda>n. case bi_parent n of None \<Rightarrow> Inr a | Some p \<Rightarrow> get_current_chain fuel s p)"

fun update_first_child_cumulative_difficulty ::
    "nat \<Rightarrow> 'w work_ops \<Rightarrow> 'w blockchain \<Rightarrow> nat option \<Rightarrow> 'w \<Rightarrow> 'w blockchain res" where
  "update_first_child_cumulative_difficulty fuel W s None cum = Inr s"
| "update_first_child_cumulative_difficulty 0 W s (Some a) cum = Inl Unfinished"
| "update_first_child_cumulative_difficulty (Suc fuel) W s (Some a) cum =
     andThen (info_at s a) (\<lambda>n. andThen (info_header n) (\<lambda>h.
       let d = work_add W cum (compact_uint256_to_bdiff W (hdr_bits h))
       in update_first_child_cumulative_difficulty fuel W
            (info_put s a (n\<lparr>bi_cumulative_difficulty := d\<rparr>)) (bi_first_child n) d))"

definition new_orphan :: "'w work_ops \<Rightarrow> 'w blockchain \<Rightarrow> bytes \<Rightarrow> block_header \<Rightarrow> (nat \<times> 'w blockchain) res" where
  "new_orphan W s hash h =
     (case block_info_new W s hash of (a, s1) \<Rightarrow>
       andThen (info_at s1 a) (\<lambda>n. Inr (a, info_put s1 a (n\<lparr>bi_hdr := Some h\<rparr>))))"

fun claim_children :: "nat \<Rightarrow> 'w blockchain \<Rightarrow> nat \<Rightarrow> nat option \<Rightarrow> 'w blockchain res" where
  "claim_children fuel s orphan None = Inr s"
| "claim_children 0 s orphan (Some b) = Inl Unfinished"
| "claim_children (Suc fuel) s orphan (Some b) =
     andThen (block_info_add_child fuel s orphan b) (\<lambda>s1. andThen (info_at s1 b) (\<lambda>n.
       claim_children fuel s1 orphan (bi_next_sibling n)))"

text \<open>The block a chain has been waiting for: a new node takes the children of the head.\<close>

definition claim_chain ::
    "nat \<Rightarrow> 'w work_ops \<Rightarrow> 'w blockchain \<Rightarrow> nat \<Rightarrow> bytes \<Rightarrow> block_header \<Rightarrow> (nat \<times> 'w blockchain) res" where
  "claim_chain fuel W s head hash h =
     andThen (list_search_tree_remove s head) (\<lambda>s1.
       andThen (new_orphan W s1 hash h) (\<lambda>(orphan, s2).
         andThen (info_at s2 head) (\<lambda>hn.
           andThen (claim_children fuel s2 orphan (bi_first_child hn)) (\<lambda>s3.
             andThen (block_info_update_cumulative_difficulty fuel W s3 (Some orphan) (work_zero W) None) (\<lambda>(s4, _).
               andThen (info_at s4 head) (\<lambda>hn2.
                 andThen (list_remove fuel (info_put s4 head (hn2\<lparr>bi_first_child := None\<rparr>)) head) (\<lambda>s5.
                   Inr (orphan, s5))))))))"

text \<open>Rule II: the parent is a candidate.\<close>

definition join_chain ::
    "nat \<Rightarrow> 'w work_ops \<Rightarrow> 'w blockchain \<Rightarrow> nat \<Rightarrow> nat \<Rightarrow> (nat \<times> 'w blockchain) res" where
  "join_chain fuel W s parent orphan =
     andThen (get_current_chain fuel s parent) (\<lambda>c.
       andThen (block_info_add_child fuel s parent orphan) (\<lambda>s1.
         andThen (info_at s1 parent) (\<lambda>p.
           andThen (block_info_update_cumulative_difficulty fuel W s1 (Some orphan)
               (bi_cumulative_difficulty p) (Some None)) (\<lambda>(s2, longest).
             andThen (chain_at s2 c) (\<lambda>x.
               if longest = Some (longest_end x) then Inr (c, s2)
               else let e = (case longest of None \<Rightarrow> None | Some e \<Rightarrow> e)
               in andThen (block_info_declare_inheritance fuel s2 e) (\<lambda>s3.
                 Inr (c, s3\<lparr>chains := (chains s3)(c \<mapsto> x\<lparr>longest_end := e\<rparr>)\<rparr>)))))))"

text \<open>Rule III: the parent is not a candidate, the block starts a chain.\<close>

definition start_chain :: "nat \<Rightarrow> 'w work_ops \<Rightarrow> 'w blockchain \<Rightarrow> nat \<Rightarrow> (nat \<times> 'w blockchain) res" where
  "start_chain fuel W s orphan =
     andThen (active_chain_new fuel W s orphan) (\<lambda>(c, s1).
       andThen (chain_at s1 c) (\<lambda>x.
         let s2 = s1\<lparr>chains := (chains s1)(c \<mapsto> x\<lparr>has_search_root := True\<rparr>)\<rparr>
         in andThen (list_search_tree_add s2 c) (\<lambda>s3.
           andThen (list_add fuel s3 c) (\<lambda>s4.
             andThen (block_info_update_cumulative_difficulty fuel W s4 (Some orphan) (work_zero W)
                 (Some (longest_end x))) (\<lambda>(s5, longest).
               andThen (chain_at s5 c) (\<lambda>x5.
                 Inr (c, s5\<lparr>chains := (chains s5)(c \<mapsto>
                   x5\<lparr>longest_end := (case longest of None \<Rightarrow> None | Some e \<Rightarrow> e)\<rparr>)\<rparr>)))))))"

definition join_candidates ::
    "nat \<Rightarrow> 'w work_ops \<Rightarrow> 'w blockchain \<Rightarrow> nat \<Rightarrow> (nat \<times> 'w blockchain) res" where
  "join_candidates fuel W s orphan =
     andThen (list_search_tree_add s orphan) (\<lambda>s1.
       andThen (info_at s1 orphan) (\<lambda>n. andThen (info_header n) (\<lambda>h.
         andThen (active_chain_list_find s1 (hdr_prev_hash h)) (\<lambda>parent.
           case parent of Some p \<Rightarrow> join_chain fuel W s1 p orphan | None \<Rightarrow> start_chain fuel W s1 orphan))))"

fun remove_first_children :: "nat \<Rightarrow> 'w blockchain \<Rightarrow> nat option \<Rightarrow> 'w blockchain res" where
  "remove_first_children fuel s None = Inr s"
| "remove_first_children 0 s (Some a) = Inl Unfinished"
| "remove_first_children (Suc fuel) s (Some a) =
     andThen (list_search_tree_remove s a) (\<lambda>s1. andThen (info_at s1 a) (\<lambda>n.
       remove_first_children fuel s1 (bi_first_child n)))"

text \<open>The siblings of each first child go to a chain of their own.\<close>

fun abandon_siblings :: "nat \<Rightarrow> 'w work_ops \<Rightarrow> 'w blockchain \<Rightarrow> nat option \<Rightarrow> 'w blockchain res" where
  "abandon_siblings fuel W s None = Inr s"
| "abandon_siblings 0 W s (Some a) = Inl Unfinished"
| "abandon_siblings (Suc fuel) W s (Some a) =
     andThen (info_at s a) (\<lambda>n.
       andThen (case bi_next_sibling n of
           None \<Rightarrow> Inr s
         | Some b \<Rightarrow>
             andThen (active_chain_new fuel W s b) (\<lambda>(c, s1).
               andThen (list_tsearch s1 c) (\<lambda>(_, s2).
                 andThen (chain_at s2 c) (\<lambda>x.
                   list_add fuel (s2\<lparr>chains := (chains s2)(c \<mapsto> x\<lparr>has_search_root := True\<rparr>)\<rparr>) c)))) (\<lambda>s3.
         andThen (info_at s3 a) (\<lambda>n3.
           abandon_siblings fuel W (info_put s3 a (n3\<lparr>bi_next_sibling := None\<rparr>)) (bi_first_child n3))))"

text \<open>A chain whose longest line beats the heirs above the block it hangs on takes their place.\<close>

definition take_over :: "nat \<Rightarrow> 'w work_ops \<Rightarrow> 'w blockchain \<Rightarrow> nat \<Rightarrow> nat \<Rightarrow> 'w blockchain res" where
  "take_over fuel W s c i =
     andThen (blockchain_abandon_inheritances W s i) (\<lambda>(orphans, s1).
       andThen (info_at s1 c) (\<lambda>head. case bi_first_child head of None \<Rightarrow> Inl Abort | Some successor \<Rightarrow>
         andThen (blockchain_add_inheritances fuel W s1 i (Some successor)) (\<lambda>(_, s2).
           andThen (info_at s2 successor) (\<lambda>sn.
             andThen (remove_first_children fuel s2 (bi_first_child sn)) (\<lambda>s3.
               andThen (case orphans of
                   Some a \<Rightarrow>
                     andThen (search_tree_traverse_BFS fuel s3 a) (\<lambda>s4. andThen (info_at s4 a) (\<lambda>an.
                       let s5 = info_put s4 a (an\<lparr>bi_next_sibling := bi_next_sibling sn\<rparr>)
                       in Inr (info_put s5 c (head\<lparr>bi_first_child := Some a\<rparr>))))
                 | None \<Rightarrow> Inr (info_put s3 c (head\<lparr>bi_first_child := bi_next_sibling sn\<rparr>))) (\<lambda>s6.
                 andThen (abandon_siblings fuel W s6 (bi_first_child sn)) (\<lambda>s7.
                   andThen (list_tdelete s7 successor) (\<lambda>(s8, _).
                     andThen (block_info_free fuel s8 (Some successor)) (\<lambda>s9.
                       andThen (info_at s9 c) (\<lambda>head9.
                         if bi_first_child head9 = None then list_remove fuel s9 c else Inr s9))))))))))"

text \<open>Rule IV.\<close>

definition contend :: "nat \<Rightarrow> 'w work_ops \<Rightarrow> 'w blockchain \<Rightarrow> nat \<Rightarrow> 'w blockchain res" where
  "contend fuel W s c =
     andThen (chain_at s c) (\<lambda>x. andThen (info_at s c) (\<lambda>head.
       case blockchain_find s (bi_hash head) of
         None \<Rightarrow> Inr s
       | Some i \<Rightarrow>
           andThen (update_first_child_cumulative_difficulty fuel W s (bi_first_child head)
               (heir_cumulative_difficulty (heirs s i))) (\<lambda>s1.
             if bc_height s1 < 0 then Inl Undefined
             else case longest_end x of None \<Rightarrow> Inl Undefined | Some e \<Rightarrow>
               andThen (info_at s1 e) (\<lambda>en.
                 if work_less W (heir_cumulative_difficulty (heirs s1 (nat (bc_height s1)))) (bi_cumulative_difficulty en)
                 then take_over fuel W s1 c i else Inr s1))))"

text \<open>The result is \<open>True\<close> for the return code 0 and \<open>False\<close> for -1.\<close>

definition blockchain_add ::
    "nat \<Rightarrow> ('c, 'd) hash_ops \<Rightarrow> 'w work_ops \<Rightarrow> 'w blockchain \<Rightarrow> bytes option \<Rightarrow> block_header \<Rightarrow> 'w bc_ret" where
  "blockchain_add fuel P W s claimed h =
     (let hash = hash256 P (header_bytes h)
      in if claimed \<noteq> None \<and> claimed \<noteq> Some hash then Inl Abort
      else if blockchain_find s hash \<noteq> None then Inr (s, False)
      else andThen (active_chain_list_find s hash) (\<lambda>found.
        case found of
          None \<Rightarrow>
            andThen (new_orphan W s hash h) (\<lambda>(a, s1).
              andThen (join_candidates fuel W s1 a) (\<lambda>(c, s2).
                andThen (contend fuel W s2 c) (\<lambda>s3. Inr (s3, True))))
        | Some b \<Rightarrow>
            andThen (info_at s b) (\<lambda>n.
              if bi_parent n \<noteq> None then Inr (s, False)
              else andThen (claim_chain fuel W s b hash h) (\<lambda>(a, s1).
                andThen (join_candidates fuel W s1 a) (\<lambda>(c, s2).
                  andThen (contend fuel W s2 c) (\<lambda>s3. Inr (s3, True)))))))"

end
