(* ===== verification/ChainProps.thy ===== *)
theory ChainProps
  imports Chains
begin

text \<open>
  What the chain of heirs keeps while blocks come in, in whatever order: the heirs are linked by their
  previous hashes and their cumulative difficulties, the search tree finds exactly them, and a client
  that follows the call-backs has the same chain. The operations on the candidates leave the chain
  alone, which is shown first, operation by operation.
\<close>

section \<open>The candidates leave the heirs alone\<close>

named_theorems verified_frame

definition verified :: "'w blockchain \<Rightarrow> (nat \<Rightarrow> 'w heir) \<times> nat \<times> int \<times> (bytes \<Rightarrow> nat option) \<times> chain_event list" where
  "verified s = (heirs s, bc_max_size s, bc_height s, bc_root s, bc_events s)"

lemma verified_updates [simp]:
  "verified (s\<lparr>infos := i\<rparr>) = verified s"
  "verified (s\<lparr>chains := c\<rparr>) = verified s"
  "verified (s\<lparr>next_info := k\<rparr>) = verified s"
  "verified (s\<lparr>candidates := l\<rparr>) = verified s"
  "verified (info_put s a n) = verified s"
  "verified (info_free s a) = verified s"
  "verified (put_list_root s root) = verified s"
  by (simp_all add: verified_def info_put_def info_free_def put_list_root_def)


text \<open>Reading the nodes and the lists.\<close>

lemma post_reads [intro!]:
  "(\<And>x. Q1 x) \<Longrightarrow> post Q1 (info_at s a)"
  "(\<And>x. Q2 x) \<Longrightarrow> post Q2 (info_header n)"
  "(\<And>x. Q3 x) \<Longrightarrow> post Q3 (chain_at s a)"
  "(\<And>x. Q4 x) \<Longrightarrow> post Q4 (list_root s)"
  "(\<And>x. Q5 x) \<Longrightarrow> post Q5 (last_sibling fuel s a)"
  "(\<And>x. Q6 x) \<Longrightarrow> post Q6 (sibling_before fuel s p a)"
  "(\<And>x. Q7 x) \<Longrightarrow> post Q7 (chain_end fuel s a)"
  "(\<And>x. Q8 x) \<Longrightarrow> post Q8 (get_current_chain fuel s a)"
  "(\<And>x. Q9 x) \<Longrightarrow> post Q9 (active_chain_list_find s hash)"
  "(\<And>x. Q10 x) \<Longrightarrow> post Q10 (enter_siblings fuel s q p)"
  "(\<And>x. Q11 x) \<Longrightarrow> post Q11 (ring_enter q y)"
  "(\<And>x. Q12 x) \<Longrightarrow> post Q12 (ring_leave q)"
  by (auto intro: postI)

text \<open>The operations one after the other.\<close>

lemma verified_post:
  "post (\<lambda>s'. verified s' = verified s) r \<Longrightarrow> (\<And>s'. verified s' = verified s \<Longrightarrow> Q s') \<Longrightarrow> post Q r"
  "post (\<lambda>(x, s'). verified s' = verified s) r1 \<Longrightarrow> (\<And>x s'. verified s' = verified s \<Longrightarrow> Q1 (x, s')) \<Longrightarrow> post Q1 r1"
  "post (\<lambda>(s', y). verified s' = verified s) r2 \<Longrightarrow> (\<And>s' y. verified s' = verified s \<Longrightarrow> Q2 (s', y)) \<Longrightarrow> post Q2 r2"
  by (fastforce elim: post_mono)+

lemma verified_new: "block_info_new W s hash = (a, s') \<Longrightarrow> verified s' = verified s"
  by (auto simp: block_info_new_def Let_def)


lemma verified_info_free: "post (\<lambda>s'. verified s' = verified s) (block_info_free fuel s a)"
proof (induction fuel arbitrary: s a)
  case 0
  show ?case by (cases a) simp_all
next
  case (Suc fuel)
  show ?case by (cases a) (auto intro!: verified_post(1) [OF Suc])
qed

lemma verified_add_child: "post (\<lambda>s'. verified s' = verified s) (block_info_add_child fuel s p c)"
  by (auto simp: block_info_add_child_def split: option.split)

lemma verified_update:
  "post (\<lambda>(s', l). verified s' = verified s) (block_info_update_cumulative_difficulty fuel W s a cum longest)
    \<and> post (\<lambda>(s', l). verified s' = verified s) (update_siblings fuel W s b cum' longest')"
proof (induction fuel arbitrary: s a cum longest b cum' longest')
  case 0
  show ?case by (cases a; cases b) simp_all
next
  case (Suc fuel)
  note upd = verified_post(3) [OF conjunct1 [OF Suc]] and sib = verified_post(3) [OF conjunct2 [OF Suc]]
  show ?case
    by (cases a; cases b) (auto simp: Let_def intro!: upd sib split: option.split)
qed

lemma verified_inheritance: "post (\<lambda>s'. verified s' = verified s) (block_info_declare_inheritance fuel s a)"
proof (induction fuel arbitrary: s a)
  case 0
  show ?case by (cases a) simp_all
next
  case (Suc fuel)
  show ?case by (cases a) (auto simp: Let_def intro!: verified_post(1) [OF Suc] split: option.split)
qed

lemma verified_tsearch: "post (\<lambda>(b, s'). verified s' = verified s) (list_tsearch s a)"
  by (auto simp: list_tsearch_def split: prod.split)

lemma verified_tdelete: "post (\<lambda>(s', b). verified s' = verified s) (list_tdelete s a)"
  by (auto simp: list_tdelete_def split: prod.split)

lemma verified_tree_add: "post (\<lambda>s'. verified s' = verified s) (list_search_tree_add s a)"
  by (auto simp: list_search_tree_add_def intro!: verified_post(2) [OF verified_tsearch])

lemma verified_tree_remove: "post (\<lambda>s'. verified s' = verified s) (list_search_tree_remove s a)"
  by (auto simp: list_search_tree_remove_def intro!: verified_post(3) [OF verified_tdelete])

lemma verified_traverse_add: "post (\<lambda>(s', q). verified s' = verified s) (traverse_add fuel s q)"
proof (induction fuel arbitrary: s q)
  case (Suc fuel)
  show ?case
    by (auto intro!: verified_post(3) [OF Suc] verified_post(2) [OF verified_tsearch] split: option.split)
qed simp

lemma verified_BFS: "post (\<lambda>s'. verified s' = verified s) (search_tree_traverse_BFS fuel s a)"
  by (auto simp: search_tree_traverse_BFS_def intro!: verified_post(3) [OF verified_traverse_add])

lemma verified_chain_new: "post (\<lambda>(c, s'). verified s' = verified s) (active_chain_new fuel W s a)"
  by (auto simp: active_chain_new_def Let_def split: option.split)

lemma verified_remove_children:
  "post (\<lambda>s'. verified s' = verified s) (active_chain_remove_child fuel s a)
    \<and> post (\<lambda>s'. verified s' = verified s) (remove_children fuel s b)"
proof (induction fuel arbitrary: s a b)
  case 0
  show ?case by (cases b) simp_all
next
  case (Suc fuel)
  note child = verified_post(1) [OF conjunct1 [OF Suc]] and rest = verified_post(1) [OF conjunct2 [OF Suc]]
  show ?case by (cases b) (auto intro!: child rest verified_post(3) [OF verified_tdelete])
qed

lemma verified_free_children: "post (\<lambda>s'. verified s' = verified s) (free_children fuel s b)"
proof (induction fuel arbitrary: s b)
  case 0
  show ?case by (cases b) simp_all
next
  case (Suc fuel)
  show ?case by (cases b) (auto intro!: verified_post(1) [OF Suc] verified_post(1) [OF verified_info_free])
qed

lemma verified_chain_free: "post (\<lambda>s'. verified s' = verified s) (active_chain_free fuel s c)"
  by (auto simp: active_chain_free_def intro!: verified_post(1) [OF verified_free_children]
      verified_post(3) [OF verified_tdelete] verified_post(1) [OF conjunct1 [OF verified_remove_children]])

lemma verified_list_add: "post (\<lambda>s'. verified s' = verified s) (list_add fuel s c)"
  by (auto simp: list_add_def Let_def intro!: verified_post(1) [OF verified_BFS])

lemma verified_list_remove: "post (\<lambda>s'. verified s' = verified s) (list_remove fuel s c)"
  by (auto simp: list_remove_def Let_def intro!: verified_post(1) [OF verified_chain_free])

lemma verified_first_child:
  "post (\<lambda>s'. verified s' = verified s) (update_first_child_cumulative_difficulty fuel W s a cum)"
proof (induction fuel arbitrary: s a cum)
  case 0
  show ?case by (cases a) simp_all
next
  case (Suc fuel)
  show ?case by (cases a) (auto simp: Let_def intro!: verified_post(1) [OF Suc])
qed

lemma verified_orphan: "post (\<lambda>(a, s'). verified s' = verified s) (new_orphan W s hash h)"
  by (auto simp: new_orphan_def verified_new split: prod.split)

lemma verified_claim_children: "post (\<lambda>s'. verified s' = verified s) (claim_children fuel s a b)"
proof (induction fuel arbitrary: s b)
  case 0
  show ?case by (cases b) simp_all
next
  case (Suc fuel)
  show ?case by (cases b) (auto intro!: verified_post(1) [OF Suc] verified_post(1) [OF verified_add_child])
qed

lemma verified_claim_chain: "post (\<lambda>(a, s'). verified s' = verified s) (claim_chain fuel W s b hash h)"
  by (auto simp: claim_chain_def intro!: verified_post(1) [OF verified_tree_remove]
      verified_post(2) [OF verified_orphan] verified_post(1) [OF verified_claim_children]
      verified_post(3) [OF conjunct1 [OF verified_update]] verified_post(1) [OF verified_list_remove])

lemma verified_join_chain: "post (\<lambda>(c, s'). verified s' = verified s) (join_chain fuel W s p a)"
  by (auto simp: join_chain_def Let_def intro!: verified_post(1) [OF verified_add_child]
      verified_post(3) [OF conjunct1 [OF verified_update]] verified_post(1) [OF verified_inheritance])

lemma verified_start_chain: "post (\<lambda>(c, s'). verified s' = verified s) (start_chain fuel W s a)"
  by (auto simp: start_chain_def Let_def intro!: verified_post(2) [OF verified_chain_new]
      verified_post(1) [OF verified_tree_add] verified_post(1) [OF verified_list_add]
      verified_post(3) [OF conjunct1 [OF verified_update]])

lemma verified_join: "post (\<lambda>(c, s'). verified s' = verified s) (join_candidates fuel W s a)"
  by (auto simp: join_candidates_def intro!: verified_post(1) [OF verified_tree_add]
      verified_post(2) [OF verified_join_chain] verified_post(2) [OF verified_start_chain] split: option.split)

lemma verified_remove_first_children:
  "post (\<lambda>s'. verified s' = verified s) (remove_first_children fuel s a)"
proof (induction fuel arbitrary: s a)
  case 0
  show ?case by (cases a) simp_all
next
  case (Suc fuel)
  show ?case by (cases a) (auto intro!: verified_post(1) [OF Suc] verified_post(1) [OF verified_tree_remove])
qed

lemma verified_abandon_siblings: "post (\<lambda>s'. verified s' = verified s) (abandon_siblings fuel W s a)"
proof (induction fuel arbitrary: s a)
  case 0
  show ?case by (cases a) simp_all
next
  case (Suc fuel)
  show ?case
    by (cases a) (auto intro!: verified_post(1) [OF Suc] verified_post(2) [OF verified_chain_new]
        verified_post(2) [OF verified_tsearch] verified_post(1) [OF verified_list_add] split: option.split)
qed


section \<open>The chain of heirs\<close>

text \<open>The heirs up to number \<open>n\<close> are linked, and the search tree finds exactly them.\<close>

definition linked :: "'w work_ops \<Rightarrow> 'w blockchain \<Rightarrow> nat \<Rightarrow> bool" where
  "linked W s n \<longleftrightarrow>
     (\<forall>i < n. let p = heirs s i; q = heirs s (Suc i) in
        hdr_prev_hash (heir_hdr q) = heir_hash p
        \<and> heir_bits q = hdr_bits (heir_hdr q) \<and> heir_timestamp q = ucast (hdr_timestamp (heir_hdr q))
        \<and> heir_cumulative_difficulty q =
            work_add W (heir_cumulative_difficulty p) (compact_uint256_to_bdiff W (heir_bits q)))
     \<and> (\<forall>hash i. bc_root s hash = Some i \<longleftrightarrow> i \<le> n \<and> heir_hash (heirs s i) = hash)"

text \<open>A client that keeps the list of the hashes on the chain by the call-backs alone; a call-back that
  does not fit its list makes it fail.\<close>

fun follow :: "bytes list option \<Rightarrow> chain_event \<Rightarrow> bytes list option" where
  "follow None e = None"
| "follow (Some hs) (Added i hash h) =
     (if i = length hs \<and> hs \<noteq> [] \<and> hdr_prev_hash h = last hs then Some (hs @ [hash]) else None)"
| "follow (Some hs) (Removed i hash) =
     (if Suc i = length hs \<and> last hs = hash then Some (butlast hs) else None)"

definition heir_hashes :: "'w blockchain \<Rightarrow> nat \<Rightarrow> bytes list" where
  "heir_hashes s n = map (\<lambda>i. heir_hash (heirs s i)) [0..<Suc n]"

text \<open>A client that keeps the hashes and headers above the genesis block, with no hash twice.\<close>

fun track :: "(bytes \<times> block_header) list option \<Rightarrow> chain_event \<Rightarrow> (bytes \<times> block_header) list option" where
  "track None e = None"
| "track (Some es) (Added i hash h) =
     (if i = Suc (length es) \<and> hash \<notin> fst ` set es then Some (es @ [(hash, h)]) else None)"
| "track (Some es) (Removed i hash) =
     (if es \<noteq> [] \<and> i = length es \<and> fst (last es) = hash then Some (butlast es) else None)"

definition heir_entries :: "'w blockchain \<Rightarrow> nat \<Rightarrow> (bytes \<times> block_header) list" where
  "heir_entries s n = map (\<lambda>i. (heir_hash (heirs s (Suc i)), heir_hdr (heirs s (Suc i)))) [0..<n]"

definition followed :: "bytes \<Rightarrow> 'w blockchain \<Rightarrow> nat \<Rightarrow> bool" where
  "followed start s n \<longleftrightarrow> foldl follow (Some [start]) (bc_events s) = Some (heir_hashes s n)
     \<and> foldl track (Some []) (bc_events s) = Some (heir_entries s n)"

definition chain_upto :: "'w work_ops \<Rightarrow> bytes \<Rightarrow> 'w blockchain \<Rightarrow> nat \<Rightarrow> bool" where
  "chain_upto W start s n \<longleftrightarrow> linked W s n \<and> followed start s n"

definition chain_ok :: "'w work_ops \<Rightarrow> bytes \<Rightarrow> 'w blockchain \<Rightarrow> bool" where
  "chain_ok W start s \<longleftrightarrow> 0 \<le> bc_height s \<and> chain_upto W start s (nat (bc_height s))"

lemma heir_hashes_facts [simp]:
  "length (heir_hashes s n) = Suc n" "heir_hashes s n \<noteq> []" "last (heir_hashes s n) = heir_hash (heirs s n)"
  "butlast (heir_hashes s (Suc n)) = heir_hashes s n"
  by (simp_all add: heir_hashes_def butlast_append)

lemma heir_entries_facts [simp]:
  "length (heir_entries s n) = n" "heir_entries s (Suc n) = heir_entries s n @ [(heir_hash (heirs s (Suc n)), heir_hdr (heirs s (Suc n)))]"
  "heir_entries s n = [] \<longleftrightarrow> n = 0"
  by (simp_all add: heir_entries_def)

lemma chain_upto_verified:
  assumes "verified s' = verified s"
  shows "chain_upto W start s n \<Longrightarrow> chain_upto W start s' n" "chain_ok W start s \<Longrightarrow> chain_ok W start s'"
  using assms
  by (simp_all add: verified_def chain_ok_def chain_upto_def linked_def followed_def heir_hashes_def heir_entries_def)

lemma chain_upto_put: "chain_upto W start s n \<Longrightarrow> chain_upto W start (info_put s a b) n"
  by (erule chain_upto_verified(1) [rotated]) simp

lemma info_put_height [simp]: "bc_height (info_put s a n) = bc_height s"
  by (simp add: info_put_def)

text \<open>The last heir goes.\<close>

lemma chain_upto_drop:
  assumes "chain_upto W start s (Suc n)" "heirs s' = heirs s"
    "bc_root s' = (bc_root s)(heir_hash (heirs s (Suc n)) := None)"
    "bc_events s' = bc_events s @ [Removed (Suc n) (heir_hash (heirs s (Suc n)))]"
  shows "chain_upto W start s' n"
proof -
  have root: "bc_root s hash = Some i \<longleftrightarrow> i \<le> Suc n \<and> heir_hash (heirs s i) = hash" for hash i
    using assms(1) unfolding chain_upto_def linked_def by blast
  have "bc_root s' hash = Some i \<longleftrightarrow> i \<le> n \<and> heir_hash (heirs s' i) = hash" for hash i
  proof (cases "hash = heir_hash (heirs s (Suc n))")
    case True
    then have "\<not> (i \<le> n \<and> heir_hash (heirs s i) = hash)"
      using root [of hash i] root [of hash "Suc n"] by auto
    then show ?thesis using True assms(2,3) by simp
  next
    case False
    then show ?thesis using root [of hash i] assms(2,3) by (auto simp: le_Suc_eq)
  qed
  then show ?thesis
    using assms by (auto simp: chain_upto_def linked_def followed_def heir_hashes_def heir_entries_def butlast_append)
qed

text \<open>A new heir after the last.\<close>

lemma chain_upto_extend:
  assumes "chain_upto W start s n" "add_heir W s n b = Inr s1" "info_header b = Inr h"
  shows "chain_upto W start (s1\<lparr>bc_events := bc_events s1 @ [Added (n + 1) (bi_hash b) h]\<rparr>) (n + 1)"
proof -
  have root: "bc_root s hash = Some i \<longleftrightarrow> i \<le> n \<and> heir_hash (heirs s i) = hash" for hash i
    using assms(1) unfolding chain_upto_def linked_def by blast
  let ?q = "\<lparr>heir_hash = bi_hash b, heir_timestamp = ucast (hdr_timestamp h), heir_bits = hdr_bits h,
      heir_cumulative_difficulty =
        work_add W (heir_cumulative_difficulty (heirs s n)) (compact_uint256_to_bdiff W (hdr_bits h)),
      heir_hdr = h\<rparr>"
  have fixed: "bc_max_size (blockchain_resize W s k) = bc_max_size s \<Longrightarrow> blockchain_resize W s k = s" for k
    by (auto simp: blockchain_resize_def Let_def split: if_splits)
  have new: "bc_root s (bi_hash b) = None" and prev: "hdr_prev_hash h = heir_hash (heirs s n)"
    and s1: "s1 = s\<lparr>heirs := (heirs s)(Suc n := ?q), bc_root := (bc_root s)(bi_hash b \<mapsto> Suc n)\<rparr>"
    using assms(2,3) root [of "bi_hash b"]
    by (auto simp: add_heir_def Let_def fixed split: if_splits option.splits)
  have "(((bc_root s)(bi_hash b \<mapsto> Suc n)) hash = Some i)
      \<longleftrightarrow> i \<le> Suc n \<and> heir_hash (((heirs s)(Suc n := ?q)) i) = hash" for hash i
    using root [of hash i] new by (auto simp: le_Suc_eq)
  moreover have "bi_hash b \<notin> fst ` set (heir_entries s n)"
  proof
    assume "bi_hash b \<in> fst ` set (heir_entries s n)"
    then obtain i where "i < n" "heir_hash (heirs s (Suc i)) = bi_hash b" by (auto simp: heir_entries_def)
    then show False using new root [of "bi_hash b" "Suc i"] by simp
  qed
  ultimately show ?thesis
    using assms(1) prev
    by (auto simp: chain_upto_def linked_def followed_def heir_hashes_def heir_entries_def s1 less_Suc_eq Let_def)
qed

lemma chain_upto_inherit:
  "chain_upto W start s n \<Longrightarrow> post (\<lambda>(m, s'). chain_upto W start s' m) (inherit fuel W s n a)"
proof (induction fuel arbitrary: s n a)
  case 0
  then show ?case by (cases a) simp_all
next
  case (Suc fuel)
  show ?case
  proof (cases a)
    case (Some b)
    have "chain_upto W start s' m"
      if "add_heir W s n x = Inr s1" "info_header x = Inr h"
        "inherit fuel W (s1\<lparr>bc_events := bc_events s1 @ [Added (Suc n) (bi_hash x) h]\<rparr>) (Suc n) (bi_first_child x)
          = Inr (m, s')" for x s1 h m s'
      using postD [OF Suc.IH [OF chain_upto_extend [OF Suc.prems that(1,2)], of "bi_first_child x"]] that(3) by simp
    then show ?thesis using Some by (auto intro!: postI)
  qed (use Suc.prems in simp)
qed

lemma abandon_child_effect:
  "post (\<lambda>(a, s'). heirs s' = heirs s \<and> bc_height s' = bc_height s \<and> bc_events s' = bc_events s
    \<and> bc_root s' = (bc_root s)(heir_hash (heirs s i) := None)) (abandon_child W s i)"
  by (auto simp: abandon_child_def block_info_new_def info_at_def info_put_def Let_def)


lemma chain_upto_abandon:
  "chain_upto W start s (i + k) \<Longrightarrow>
     post (\<lambda>(a, s'). chain_upto W start s' i \<and> bc_height s' = bc_height s) (abandon_heirs W s i k orphans)"
proof (induction k arbitrary: s orphans)
  case (Suc k)
  have drop: "chain_upto W start s' (i + k)"
    if "heirs s' = heirs s" "bc_root s' = (bc_root s)(heir_hash (heirs s (Suc (i + k))) := None)"
      "bc_events s' = bc_events s @ [Removed (Suc (i + k)) (heir_hash (heirs s (Suc (i + k))))]" for s' :: "'a blockchain"
    by (rule chain_upto_drop [of W start s]) (use Suc.prems that in simp_all)
  show ?case
    by (auto simp: Let_def intro!: post_mono [OF abandon_child_effect] post_mono [OF Suc.IH] chain_upto_put drop
        split: option.split)
qed simp

lemma chain_ok_abandon:
  assumes "chain_ok W start s"
  shows "post (\<lambda>(a, s'). bc_height s' = int i \<and> chain_ok W start s') (blockchain_abandon_inheritances W s i)"
proof -
  have "chain_upto W start (s'\<lparr>bc_height := int i\<rparr>) i" if "chain_upto W start s' i" for s' :: "'a blockchain"
    using that by (simp add: chain_upto_def linked_def followed_def heir_hashes_def heir_entries_def)
  moreover have "chain_upto W start s (i + (nat (bc_height s) - i))" if "\<not> bc_height s < int i"
    using assms that by (simp add: chain_ok_def le_nat_iff)
  ultimately show ?thesis
    using assms by (auto simp: blockchain_abandon_inheritances_def chain_ok_def intro: post_mono [OF chain_upto_abandon])
qed

lemma chain_ok_add_inheritances:
  assumes "chain_ok W start s"
  shows "post (\<lambda>(a, s'). chain_ok W start s') (blockchain_add_inheritances fuel W s i child)"
proof -
  have "chain_upto W start (s'\<lparr>bc_height := int j\<rparr>) j" if "chain_upto W start s' j" for s' :: "'a blockchain" and j
    using that by (simp add: chain_upto_def linked_def followed_def heir_hashes_def heir_entries_def)
  then have "post (\<lambda>x. post (\<lambda>(a, s'). chain_ok W start s') (case x of (j, s2) \<Rightarrow> Inr (o1, s2\<lparr>bc_height := int j\<rparr>)))
      (inherit fuel W s1 i child)" if "bc_height s1 = int i" "chain_ok W start s1" for s1 and o1 :: "nat option"
    using that by (auto simp: chain_ok_def intro!: post_mono [OF chain_upto_inherit])
  then show ?thesis
    by (auto simp: blockchain_add_inheritances_def intro!: post_mono [OF chain_ok_abandon [OF assms]])
qed

text \<open>Steps that leave the heirs alone keep the invariant.\<close>

lemma chain_ok_post:
  "post (\<lambda>s'. verified s' = verified s) r \<Longrightarrow> chain_ok W start s \<Longrightarrow> (\<And>s'. chain_ok W start s' \<Longrightarrow> Q s') \<Longrightarrow> post Q r"
  "post (\<lambda>(x, s'). verified s' = verified s) r1 \<Longrightarrow> chain_ok W start s \<Longrightarrow>
    (\<And>x s'. chain_ok W start s' \<Longrightarrow> Q1 (x, s')) \<Longrightarrow> post Q1 r1"
  "post (\<lambda>(s', y). verified s' = verified s) r2 \<Longrightarrow> chain_ok W start s \<Longrightarrow>
    (\<And>s' y. chain_ok W start s' \<Longrightarrow> Q2 (s', y)) \<Longrightarrow> post Q2 r2"
  by (erule post_mono, auto dest: chain_upto_verified(2))+

lemma chain_ok_put [simp]: "chain_ok W start s \<Longrightarrow> chain_ok W start (info_put s a n)"
  by (erule chain_upto_verified(2) [rotated]) simp

lemma chain_ok_take_over:
  assumes "chain_ok W start s"
  shows "post (\<lambda>s'. chain_ok W start s') (take_over fuel W s c i)"
  unfolding take_over_def
  by (auto intro!: post_mono [OF chain_ok_abandon [OF assms]] post_mono [OF chain_ok_add_inheritances]
      chain_ok_post(1) [OF verified_remove_first_children, where W = W and start = start]
      chain_ok_post(1) [OF verified_BFS, where W = W and start = start]
      chain_ok_post(1) [OF verified_abandon_siblings, where W = W and start = start]
      chain_ok_post(3) [OF verified_tdelete, where W = W and start = start]
      chain_ok_post(1) [OF verified_info_free, where W = W and start = start]
      chain_ok_post(1) [OF verified_list_remove, where W = W and start = start] split: option.split)

lemma chain_ok_contend:
  assumes "chain_ok W start s"
  shows "post (\<lambda>s'. chain_ok W start s') (contend fuel W s c)"
  unfolding contend_def
  by (auto simp: assms intro!: chain_ok_post(1) [OF verified_first_child, where W = W and start = start]
      chain_ok_take_over split: option.split)

lemma chain_ok_add:
  assumes "chain_ok W start s"
  shows "post (\<lambda>(s', ok). chain_ok W start s') (blockchain_add fuel P W s claimed h)"
  unfolding blockchain_add_def
  by (auto simp: assms Let_def
      intro!: chain_ok_post(2) [OF verified_orphan, where W = W and start = start]
        chain_ok_post(2) [OF verified_join, where W = W and start = start]
        chain_ok_post(2) [OF verified_claim_chain, where W = W and start = start]
        post_mono [OF chain_ok_contend] split: option.split)

section \<open>The call-backs only grow\<close>

definition grew :: "chain_event list \<Rightarrow> 'w blockchain \<Rightarrow> bool" where
  "grew evs s \<longleftrightarrow> (\<exists>more. bc_events s = evs @ more)"

lemma grew_verified: "verified s' = verified s \<Longrightarrow> grew evs s \<Longrightarrow> grew evs s'"
  by (simp add: grew_def verified_def)

lemma grew_event [simp]: "grew evs s \<Longrightarrow> bc_events s' = bc_events s @ [e] \<Longrightarrow> grew evs s'"
  by (auto simp: grew_def)

lemma grew_put [simp]: "grew evs (info_put s a n) \<longleftrightarrow> grew evs s" "grew evs (s\<lparr>bc_height := k\<rparr>) \<longleftrightarrow> grew evs s"
  "grew evs (s\<lparr>chains := cs\<rparr>) \<longleftrightarrow> grew evs s"
  by (simp_all add: grew_def info_put_def)

lemma grew_post:
  "post (\<lambda>s'. verified s' = verified s) r \<Longrightarrow> grew evs s \<Longrightarrow> (\<And>s'. grew evs s' \<Longrightarrow> Q s') \<Longrightarrow> post Q r"
  "post (\<lambda>(x, s'). verified s' = verified s) r1 \<Longrightarrow> grew evs s \<Longrightarrow>
    (\<And>x s'. grew evs s' \<Longrightarrow> Q1 (x, s')) \<Longrightarrow> post Q1 r1"
  "post (\<lambda>(s', y). verified s' = verified s) r2 \<Longrightarrow> grew evs s \<Longrightarrow>
    (\<And>s' y. grew evs s' \<Longrightarrow> Q2 (s', y)) \<Longrightarrow> post Q2 r2"
  by (erule post_mono, auto dest: grew_verified)+

lemma grew_abandon_heirs: "grew evs s \<Longrightarrow> post (\<lambda>(a, s'). grew evs s') (abandon_heirs W s i k orphans)"
proof (induction k arbitrary: s orphans)
  case (Suc k)
  then show ?case
    by (auto simp: Let_def intro!: post_mono [OF abandon_child_effect] post_mono [OF Suc.IH] split: option.split)
qed simp

lemma grew_abandon: "grew evs s \<Longrightarrow> post (\<lambda>(a, s'). grew evs s') (blockchain_abandon_inheritances W s i)"
  by (auto simp: blockchain_abandon_inheritances_def intro!: post_mono [OF grew_abandon_heirs])

lemma add_heir_events: "post (\<lambda>s'. bc_events s' = bc_events s) (add_heir W s i n)"
  by (auto simp: add_heir_def Let_def blockchain_resize_def split: option.split)

lemma grew_inherit: "grew evs s \<Longrightarrow> post (\<lambda>(m, s'). grew evs s') (inherit fuel W s n a)"
proof (induction fuel arbitrary: s n a)
  case 0
  then show ?case by (cases a) simp_all
next
  case (Suc fuel)
  then show ?case
    by (cases a) (auto intro!: post_mono [OF add_heir_events] post_mono [OF Suc.IH])
qed

lemma grew_add_inheritances: "grew evs s \<Longrightarrow> post (\<lambda>(a, s'). grew evs s') (blockchain_add_inheritances fuel W s i child)"
  by (auto simp: blockchain_add_inheritances_def intro!: post_mono [OF grew_abandon] post_mono [OF grew_inherit])

lemma grew_take_over:
  assumes "grew evs s"
  shows "post (\<lambda>s'. grew evs s') (take_over fuel W s c i)"
  unfolding take_over_def
  by (auto intro!: post_mono [OF grew_abandon [OF assms]] post_mono [OF grew_add_inheritances]
      grew_post(1) [OF verified_remove_first_children, where evs = evs] grew_post(1) [OF verified_BFS, where evs = evs]
      grew_post(1) [OF verified_abandon_siblings, where evs = evs] grew_post(3) [OF verified_tdelete, where evs = evs]
      grew_post(1) [OF verified_info_free, where evs = evs] grew_post(1) [OF verified_list_remove, where evs = evs]
      split: option.split)

lemma grew_contend:
  assumes "grew evs s"
  shows "post (\<lambda>s'. grew evs s') (contend fuel W s c)"
  unfolding contend_def
  by (auto simp: assms intro!: grew_post(1) [OF verified_first_child, where evs = evs] grew_take_over split: option.split)

lemma grew_add: "post (\<lambda>(s', ok). \<exists>more. bc_events s' = bc_events s @ more) (blockchain_add fuel P W s claimed h)"
proof -
  have "grew (bc_events s) s" by (simp add: grew_def)
  then have "post (\<lambda>(s', ok). grew (bc_events s) s') (blockchain_add fuel P W s claimed h)"
    unfolding blockchain_add_def
    by (auto simp: Let_def intro!: grew_post(2) [OF verified_orphan, where evs = "bc_events s"]
        grew_post(2) [OF verified_join, where evs = "bc_events s"] grew_post(2) [OF verified_claim_chain, where evs = "bc_events s"]
        post_mono [OF grew_contend] split: option.split)
  then show ?thesis by (simp add: grew_def)
qed

end
