(* ===== verification/ChainRuns.thy ===== *)
theory ChainRuns
  imports ChainProps
begin

text \<open>
  Runs of the block chain: blocks in order extend it one by one and leave no candidate; two blocks that
  wait for the same parent block its arrival for ever; what a block locator holds. The claims on the
  whole chain are at the end, with concrete runs on a small hash function.
\<close>

section \<open>Blocks in order\<close>

definition idle :: "'w blockchain \<Rightarrow> bool" where
  "idle s \<longleftrightarrow> acl_chains (candidates s) = [] \<and> acl_root (candidates s) = [] \<and> \<not> acl_dangling (candidates s)"

definition next_heir :: "'w work_ops \<Rightarrow> 'w heir \<Rightarrow> bytes \<Rightarrow> block_header \<Rightarrow> 'w heir" where
  "next_heir W p hash h = \<lparr>heir_hash = hash, heir_timestamp = ucast (hdr_timestamp h), heir_bits = hdr_bits h,
     heir_cumulative_difficulty = work_add W (heir_cumulative_difficulty p) (compact_uint256_to_bdiff W (hdr_bits h)),
     heir_hdr = h\<rparr>"

lemma resize_none:
  "bc_max_size s = BLOCKCHAIN_DEFAULT_ALLOC_SIZE \<Longrightarrow> 0 < k \<Longrightarrow> k \<le> BLOCKCHAIN_DEFAULT_ALLOC_SIZE \<Longrightarrow>
    blockchain_resize W s (int k) = s"
  by (auto simp: blockchain_resize_def Let_def BLOCKCHAIN_DEFAULT_ALLOC_SIZE_def div_le_mono)

text \<open>The new block alone on a chain of its own, which hangs on the last heir.\<close>

definition lone :: "'w blockchain \<Rightarrow> 'w blockchain \<Rightarrow> nat \<Rightarrow> nat \<Rightarrow> bytes \<Rightarrow> block_header \<Rightarrow> bool" where
  "lone s s1 a c hash h \<longleftrightarrow> a < c \<and> c < next_info s1 \<and> verified s1 = verified s
     \<and> (\<exists>d. infos s1 a = Some \<lparr>bi_hash = hash, bi_hdr = Some h, bi_height = -1, bi_cumulative_difficulty = d,
          bi_parent = Some c, bi_first_child = None, bi_next_sibling = None\<rparr>)
     \<and> (\<exists>d. infos s1 c = Some \<lparr>bi_hash = hdr_prev_hash h, bi_hdr = None, bi_height = 0, bi_cumulative_difficulty = d,
          bi_parent = None, bi_first_child = Some a, bi_next_sibling = None\<rparr>)
     \<and> chains s1 c = Some \<lparr>longest_end = Some a, has_search_root = True\<rparr>
     \<and> acl_chains (candidates s1) = [c] \<and> acl_root (candidates s1) = [(hdr_prev_hash h, c), (hash, a)]
     \<and> \<not> acl_dangling (candidates s1)"

lemma lone_joins:
  assumes "idle s" "hdr_prev_hash h \<noteq> hash"
  shows "\<exists>a c s0 s1. new_orphan W s hash h = Inr (a, s0) \<and> join_candidates (Suc (Suc fuel)) W s0 a = Inr (c, s1)
    \<and> lone s s1 a c hash h"
  using assms unfolding idle_def lone_def
  by (simp add: list_root_def
      new_orphan_def block_info_new_def info_at_def info_put_def join_candidates_def list_search_tree_add_def
      list_tsearch_def tsearch_def put_list_root_def info_header_def start_chain_def active_chain_new_def chain_at_def
      list_add_def active_chain_list_resize_def active_chain_list_find_def Let_def)


lemma verifiedD:
  "verified s1 = verified s \<Longrightarrow> heirs s1 = heirs s" "verified s1 = verified s \<Longrightarrow> bc_max_size s1 = bc_max_size s"
  "verified s1 = verified s \<Longrightarrow> bc_height s1 = bc_height s" "verified s1 = verified s \<Longrightarrow> bc_root s1 = bc_root s"
  "verified s1 = verified s \<Longrightarrow> bc_events s1 = bc_events s"
  by (simp_all add: verified_def)

lemma lone_wins:
  assumes lone: "lone s s1 a c hash h" and height: "bc_height s = int n"
    and room: "bc_max_size s = BLOCKCHAIN_DEFAULT_ALLOC_SIZE" "n + 2 \<le> BLOCKCHAIN_DEFAULT_ALLOC_SIZE"
    and prev: "hdr_prev_hash h = heir_hash (heirs s n)"
    and root: "bc_root s (heir_hash (heirs s n)) = Some n" "bc_root s hash = None"
    and wins: "work_less W (heir_cumulative_difficulty (heirs s n))
      (heir_cumulative_difficulty (next_heir W (heirs s n) hash h))"
  shows "\<exists>s'. contend (Suc (Suc (Suc fuel))) W s1 c = Inr s'
    \<and> heirs s' = (heirs s)(Suc n := next_heir W (heirs s n) hash h)
    \<and> bc_height s' = bc_height s + 1 \<and> bc_max_size s' = bc_max_size s \<and> idle s'
    \<and> bc_events s' = bc_events s @ [Added (Suc n) hash h]"
proof -
  have ne: "heir_hash (heirs s n) \<noteq> hash" using root by auto
  have resize: "blockchain_resize W t (2 + int n) = t" if "bc_max_size t = BLOCKCHAIN_DEFAULT_ALLOC_SIZE"
    for t :: "'a blockchain"
    using resize_none [OF that, of "n + 2"] room by (simp add: add.commute)
  note v = verifiedD [of s1 s]
  show ?thesis
    using lone height room prev root wins ne less_imp_neq [of a c] unfolding lone_def
    by (clarsimp simp: v idle_def list_remove_def active_chain_free_def contend_def blockchain_find_def chain_at_def info_at_def info_header_def info_put_def next_heir_def
        take_over_def blockchain_abandon_inheritances_def blockchain_add_inheritances_def add_heir_def resize Let_def
        list_tdelete_def list_root_def tdelete_def put_list_root_def info_free_def)
qed


text \<open>A block on top of the last heir becomes the last heir at once, and no candidate is left.\<close>

lemma extend_tip:
  assumes ok: "chain_ok W start s" "idle s" and height: "bc_height s = int n"
    and room: "bc_max_size s = BLOCKCHAIN_DEFAULT_ALLOC_SIZE" "n + 2 \<le> BLOCKCHAIN_DEFAULT_ALLOC_SIZE"
    and prev: "hdr_prev_hash h = heir_hash (heirs s n)"
    and hash: "hash = hash256 P (header_bytes h)" "hash \<notin> set (heir_hashes s n)"
    and wins: "work_less W (heir_cumulative_difficulty (heirs s n))
      (heir_cumulative_difficulty (next_heir W (heirs s n) hash h))"
    and claimed: "claimed = None \<or> claimed = Some hash"
  obtains s' where "blockchain_add (Suc (Suc (Suc fuel))) P W s claimed h = Inr (s', True)"
    "heirs s' = (heirs s)(Suc n := next_heir W (heirs s n) hash h)" "bc_height s' = int (Suc n)"
    "bc_max_size s' = bc_max_size s" "idle s'" "chain_ok W start s'" "bc_events s' = bc_events s @ [Added (Suc n) hash h]"
proof -
  have root: "bc_root s x = Some i \<longleftrightarrow> i \<le> n \<and> heir_hash (heirs s i) = x" for x i
    using ok(1) height by (auto simp: chain_ok_def chain_upto_def linked_def)
  have new: "bc_root s hash = None"
  proof (rule ccontr)
    assume "bc_root s hash \<noteq> None"
    then obtain i where "i \<le> n" "heir_hash (heirs s i) = hash" using root by blast
    then show False using hash(2) by (auto simp: heir_hashes_def simp del: upt_Suc)
  qed
  have ne: "hdr_prev_hash h \<noteq> hash" using prev hash(2) by (auto simp: heir_hashes_def)
  obtain a c s0 s1 where j: "new_orphan W s hash h = Inr (a, s0)"
    "join_candidates (Suc (Suc (Suc fuel))) W s0 a = Inr (c, s1)" "lone s s1 a c hash h"
    using lone_joins [OF ok(2) ne, of W "Suc fuel"] by blast
  obtain s' where c: "contend (Suc (Suc (Suc fuel))) W s1 c = Inr s'"
    "heirs s' = (heirs s)(Suc n := next_heir W (heirs s n) hash h)" "bc_height s' = int (Suc n)"
    "bc_max_size s' = bc_max_size s" "idle s'" "bc_events s' = bc_events s @ [Added (Suc n) hash h]"
    using lone_wins [OF j(3) height room prev _ new wins, of fuel] root height by auto
  have add: "blockchain_add (Suc (Suc (Suc fuel))) P W s claimed h = Inr (s', True)"
    using ok(2) j(1,2) c(1) claimed hash(1) new
    by (auto simp: blockchain_add_def Let_def blockchain_find_def active_chain_list_find_def list_root_def idle_def)
  show thesis
    using postD [OF chain_ok_add [OF ok(1)] add] by (intro that [OF add c(2-5) _ c(6)]) simp
qed


section \<open>Runs\<close>

text \<open>Blocks given one after the other, with the hash the caller claims or none: the return codes and the state.\<close>

fun add_blocks ::
    "nat \<Rightarrow> ('c, 'd) hash_ops \<Rightarrow> 'w work_ops \<Rightarrow> 'w blockchain \<Rightarrow> (bytes option \<times> block_header) list
      \<Rightarrow> (bool list \<times> 'w blockchain) res" where
  "add_blocks fuel P W s [] = Inr ([], s)"
| "add_blocks fuel P W s ((claimed, h) # bs) =
     andThen (blockchain_add fuel P W s claimed h) (\<lambda>(s1, ok).
       andThen (add_blocks fuel P W s1 bs) (\<lambda>(oks, s2). Inr (ok # oks, s2)))"

lemma chain_ok_add_blocks:
  "chain_ok W start s \<Longrightarrow> post (\<lambda>(oks, s'). chain_ok W start s') (add_blocks fuel P W s bs)"
proof (induction bs arbitrary: s)
  case (Cons b bs)
  obtain claimed h where b: "b = (claimed, h)" by (cases b)
  have "chain_ok W start s'"
    if "blockchain_add fuel P W s claimed h = Inr (s1, ok)" "add_blocks fuel P W s1 bs = Inr (oks, s')" for s1 ok oks s'
    using postD [OF Cons.IH that(2)] postD [OF chain_ok_add [OF Cons.prems] that(1)] by simp
  then show ?case unfolding b by (auto intro!: postI simp: res_simps)
qed simp

definition genesis_hash :: "bytes option \<Rightarrow> bytes" where
  "genesis_hash given = (case given of None \<Rightarrow> g_genesis_block_hash | Some x \<Rightarrow> x)"

lemma init_facts:
  fixes W :: "'w work_ops" and gh :: "bytes option" and gd :: "block_header option"
  defines "s \<equiv> blockchain_init W (blockchain_zero W) gh gd"
  shows "chain_ok W (genesis_hash gh) s" "idle s" "bc_height s = 0" "bc_max_size s = BLOCKCHAIN_DEFAULT_ALLOC_SIZE"
    "heir_hash (heirs s 0) = genesis_hash gh"
  by (auto simp: s_def chain_ok_def chain_upto_def linked_def followed_def heir_hashes_def heir_entries_def idle_def genesis_hash_def
      blockchain_init_def blockchain_zero_def blockchain_resize_def Let_def active_chain_list_init_def
      active_chain_list_resize_def BLOCKCHAIN_DEFAULT_ALLOC_SIZE_def)

lemma chain_ok_run:
  "add_blocks fuel P W (blockchain_init W (blockchain_zero W) gh gd) bs = Inr (oks, s)
    \<Longrightarrow> chain_ok W (genesis_hash gh) s"
  using postD [OF chain_ok_add_blocks [OF init_facts(1)]] by fastforce

text \<open>Headers each of which goes on top of the one before, with a hash not seen yet and more work in all.\<close>

fun extends :: "('c, 'd) hash_ops \<Rightarrow> 'w work_ops \<Rightarrow> 'w heir \<Rightarrow> bytes set \<Rightarrow> block_header list \<Rightarrow> bool" where
  "extends P W p known [] \<longleftrightarrow> True"
| "extends P W p known (h # hs) \<longleftrightarrow>
     (let hash = hash256 P (header_bytes h); q = next_heir W p hash h
      in hdr_prev_hash h = heir_hash p \<and> hash \<notin> known
        \<and> work_less W (heir_cumulative_difficulty p) (heir_cumulative_difficulty q)
        \<and> extends P W q (insert hash known) hs)"

fun line :: "('c, 'd) hash_ops \<Rightarrow> 'w work_ops \<Rightarrow> 'w heir \<Rightarrow> block_header list \<Rightarrow> 'w heir list" where
  "line P W p [] = [p]"
| "line P W p (h # hs) = p # line P W (next_heir W p (hash256 P (header_bytes h)) h) hs"

lemma add_blocks_extends_claimed:
  fixes s :: "'w blockchain"
  assumes "chain_ok W start s" "idle s" "bc_height s = int n" "bc_max_size s = BLOCKCHAIN_DEFAULT_ALLOC_SIZE"
    "n + length hs + 1 \<le> BLOCKCHAIN_DEFAULT_ALLOC_SIZE" "extends P W (heirs s n) (set (heir_hashes s n)) hs"
    and claim: "\<And>h. claim h = None \<or> claim h = Some (hash256 P (header_bytes h))"
  shows "\<exists>s'. add_blocks (Suc (Suc (Suc fuel))) P W s (map (\<lambda>h. (claim h, h)) hs) = Inr (replicate (length hs) True, s')
    \<and> idle s' \<and> bc_height s' = int (n + length hs) \<and> bc_max_size s' = bc_max_size s \<and> chain_ok W start s'
    \<and> map (heirs s') [0..<Suc (n + length hs)] = map (heirs s) [0..<n] @ line P W (heirs s n) hs"
  using assms(1-6)
proof (induction hs arbitrary: s n)
  case Nil
  then show ?case by simp
next
  case (Cons h hs)
  let ?hash = "hash256 P (header_bytes h)"
  let ?q = "next_heir W (heirs s n) ?hash h"
  obtain s1 where s1: "blockchain_add (Suc (Suc (Suc fuel))) P W s (claim h) h = Inr (s1, True)"
    "heirs s1 = (heirs s)(Suc n := ?q)" "bc_height s1 = int (Suc n)"
    "bc_max_size s1 = bc_max_size s" "idle s1" "chain_ok W start s1"
    using Cons.prems claim [of h] by (auto simp: Let_def intro: extend_tip [of W start s n h ?hash P "claim h" fuel])
  have hashes: "set (heir_hashes s1 (Suc n)) = insert ?hash (set (heir_hashes s n))"
    by (auto simp: heir_hashes_def s1(2) next_heir_def)
  obtain s' where s': "add_blocks (Suc (Suc (Suc fuel))) P W s1 (map (\<lambda>h. (claim h, h)) hs) = Inr (replicate (length hs) True, s')"
    "idle s'" "bc_height s' = int (Suc n + length hs)" "bc_max_size s' = bc_max_size s1" "chain_ok W start s'"
    "map (heirs s') [0..<Suc (Suc n + length hs)] = map (heirs s1) [0..<Suc n] @ line P W (heirs s1 (Suc n)) hs"
    using Cons.IH [OF s1(6,5,3)] Cons.prems s1(2,4) hashes by (auto simp: Let_def)
  have "map (heirs s1) [0..<n] = map (heirs s) [0..<n]" by (simp add: s1(2))
  then have "map (heirs s') [0..<Suc (n + length (h # hs))] = map (heirs s) [0..<n] @ line P W (heirs s n) (h # hs)"
    using s'(6) by (simp add: s1(2))
  then show ?case using s1(1,4) s'(1-5) by (intro exI [of _ s']) simp
qed

lemmas add_blocks_extends = add_blocks_extends_claimed [where claim = "\<lambda>_. None", OF _ _ _ _ _ _ disjI1 [OF refl]]


section \<open>Block locators\<close>

text \<open>How far below the top the \<open>i\<close>-th hash of a locator lies.\<close>

definition back_off :: "nat \<Rightarrow> nat" where
  "back_off i = (if i \<le> 10 then i else 8 + 2 ^ (i - 9))"

definition locator_step :: "nat \<Rightarrow> nat" where
  "locator_step i = (if i \<le> 10 then 1 else 2 ^ (i - 10))"

lemma back_off_Suc:
  "back_off (Suc i) = back_off i + locator_step (Suc i)"
  "locator_step (Suc i) = (if 10 \<le> i then locator_step i * 2 else locator_step i)"
proof -
  have "back_off (Suc i) = back_off i + locator_step (Suc i)
      \<and> locator_step (Suc i) = (if 10 \<le> i then locator_step i * 2 else locator_step i)"
  proof (cases "10 < i")
    case True
    then obtain k where "i = 11 + k" by (metis Suc_leI add.commute eval_nat_numeral(3) le_Suc_ex numeral_eq_Suc pred_numeral_simps(3))
    then show ?thesis by (simp add: back_off_def locator_step_def power_add)
  qed (auto simp: back_off_def locator_step_def)
  then show "back_off (Suc i) = back_off i + locator_step (Suc i)"
    "locator_step (Suc i) = (if 10 \<le> i then locator_step i * 2 else locator_step i)" by simp_all
qed

lemma back_off_shift:
  "back_off i < h \<Longrightarrow> \<forall>j. Suc j < k \<longrightarrow> back_off (Suc (i + j)) < h \<Longrightarrow> j < k \<Longrightarrow> back_off (i + j) < h"
  by (cases j) auto

lemma known_hashes_heights:
  assumes "known_hashes s left i (int (h - back_off i)) (int (locator_step i)) count = (xs, c)"
  shows "xs = map (\<lambda>j. heir_hash (heirs s (h - back_off (i + j)))) [0..<length xs]
    \<and> (xs \<noteq> [] \<and> h \<le> back_off (i + length xs - 1) \<and> (\<forall>j. Suc j < length xs \<longrightarrow> back_off (i + j) < h)
          \<and> Suc c = count + length xs
        \<or> length xs = left \<and> (\<forall>j<length xs. back_off (i + j) < h) \<and> c = count + length xs)"
  using assms
proof (induction left arbitrary: i count xs c)
  case (Suc left)
  show ?case
  proof (cases "h \<le> back_off i")
    case True
    then show ?thesis using Suc.prems by auto
  next
    case False
    let ?step = "int (locator_step (Suc i))"
    have below: "(if int (h - back_off i) - ?step < 0 then 0 else int (h - back_off i) - ?step) = int (h - back_off (Suc i))"
      using False by (simp add: back_off_Suc(1) of_nat_diff)
    have step: "(if 10 \<le> i then int (locator_step i) * 2 else int (locator_step i)) = ?step"
      by (simp add: back_off_Suc(2))
    obtain ys where rest: "known_hashes s left (Suc i) (int (h - back_off (Suc i))) ?step (Suc count) = (ys, c)"
      and xs: "xs = heir_hash (heirs s (h - back_off i)) # ys"
      using Suc.prems False unfolding known_hashes.simps Let_def step below
      by (auto simp: nat_diff_distrib split: prod.splits if_splits)
    show ?thesis
      using Suc.IH [OF rest] False unfolding xs
      by (auto simp: map_upt_Suc less_Suc_eq_0_disj not_le simp del: upt_Suc intro: back_off_shift)
  qed
qed simp


section \<open>A block that two candidates wait for\<close>

lemma last_sibling_loop: "infos s a = Some n \<Longrightarrow> bi_next_sibling n = Some a \<Longrightarrow> last_sibling fuel s a = Inl Unfinished"
  by (induction fuel) (simp_all add: info_at_def)

lemma last_sibling_reaches_loop:
  assumes "infos s x = Some nx" "bi_next_sibling nx = Some y" "infos s y = Some ny" "bi_next_sibling ny = Some y"
  shows "last_sibling fuel s x = Inl Unfinished"
  using assms last_sibling_loop [OF assms(3,4)] by (cases fuel) (simp_all add: info_at_def)

text \<open>The second child is put behind itself.\<close>

lemma claim_two_children:
  assumes o: "infos s orphan = Some on" "bi_first_child on = None"
    and x: "infos s x = Some nx" "bi_next_sibling nx = Some y"
    and y: "infos s y = Some ny" "bi_next_sibling ny = None"
    and distinct: "x \<noteq> y" "orphan \<noteq> x" "orphan \<noteq> y"
  shows "claim_children fuel s orphan (Some x) = Inl Unfinished"
proof (cases fuel)
  case (Suc f)
  let ?s1 = "info_put (info_put s orphan (on\<lparr>bi_first_child := Some x\<rparr>)) x (nx\<lparr>bi_parent := Some orphan\<rparr>)"
  have one: "block_info_add_child fuel s orphan x = Inr ?s1" for fuel
    using assms by (simp add: block_info_add_child_def info_at_def info_put_def)
  show ?thesis
  proof (cases f)
    case 0
    then show ?thesis using Suc one x by (simp add: info_at_def info_put_def)
  next
    case (Suc g)
    have end_y: "last_sibling g ?s1 x = Inl Unfinished \<or> last_sibling g ?s1 x = Inr y"
      using assms by (cases g; cases "g - 1") (simp_all add: info_at_def info_put_def)
    have loop: "block_info_add_child k (info_put (info_put ?s1 y a) y b) orphan z = Inl Unfinished"
      if "bi_next_sibling b = Some y" for k a b z
    proof -
      have "last_sibling k (info_put (info_put ?s1 y a) y b) x = Inl Unfinished"
        using assms that by (intro last_sibling_reaches_loop [where y = y and nx = "nx\<lparr>bi_parent := Some orphan\<rparr>" and ny = b])
          (auto simp: info_put_def)
      then show ?thesis using assms by (simp add: block_info_add_child_def info_at_def info_put_def)
    qed
    show ?thesis
      using end_y loop assms \<open>fuel = Suc f\<close> Suc one
      by (cases g) (auto simp: block_info_add_child_def info_at_def info_put_def)
  qed
qed simp


definition twins :: "'w blockchain \<Rightarrow> bytes \<Rightarrow> bool" where
  "twins s hash \<longleftrightarrow> (\<exists>c hn x nx y ny.
     infos s c = Some hn \<and> bi_hash hn = hash \<and> bi_parent hn = None \<and> bi_first_child hn = Some x
     \<and> infos s x = Some nx \<and> bi_next_sibling nx = Some y \<and> infos s y = Some ny \<and> bi_next_sibling ny = None
     \<and> x \<noteq> y \<and> x < next_info s \<and> y < next_info s \<and> c < next_info s
     \<and> list_root s = Inr (acl_root (candidates s)) \<and> map_of (acl_root (candidates s)) hash = Some c)"

lemma twins_block:
  assumes "twins s hash" "hash = hash256 P (header_bytes h)" "bc_root s hash = None" "claimed = None \<or> claimed = Some hash"
  shows "blockchain_add fuel P W s claimed h = Inl Unfinished"
proof -
  obtain c hn x nx y ny where t: "infos s c = Some hn" "bi_hash hn = hash" "bi_parent hn = None" "bi_first_child hn = Some x"
    "infos s x = Some nx" "bi_next_sibling nx = Some y" "infos s y = Some ny" "bi_next_sibling ny = None"
    "x \<noteq> y" "x < next_info s" "y < next_info s" "c < next_info s"
    "list_root s = Inr (acl_root (candidates s))" "map_of (acl_root (candidates s)) hash = Some c"
    using assms(1) unfolding twins_def by blast
  let ?root = "AList.delete hash (acl_root (candidates s))"
  let ?on = "\<lparr>bi_hash = hash, bi_hdr = Some h, bi_height = -1, bi_cumulative_difficulty = work_zero W,
      bi_parent = None, bi_first_child = None, bi_next_sibling = None\<rparr>"
  let ?s = "info_put ((put_list_root s ?root)\<lparr>next_info := Suc (next_info s)\<rparr>) (next_info s) ?on"
  have claim: "claim_children fuel ?s (next_info s) (Some x) = Inl Unfinished"
    using t by (intro claim_two_children [where x = x and y = y and nx = nx and ny = ny and on = ?on])
      (auto simp: info_put_def put_list_root_def)
  have orphan: "new_orphan W (put_list_root s ?root) hash h = Inr (next_info s, ?s)"
    by (simp add: new_orphan_def block_info_new_def info_at_def info_put_def put_list_root_def)
  have remove: "list_search_tree_remove s c = Inr (put_list_root s ?root)"
    using t by (simp add: list_search_tree_remove_def list_tdelete_def tdelete_def info_at_def)
  have "info_at ?s c = Inr hn"
    using t by (simp add: info_at_def info_put_def put_list_root_def)
  then have "claim_chain fuel W s c hash h = Inl Unfinished"
    using claim orphan remove t(4) by (simp add: claim_chain_def)
  then show ?thesis
    using t(1,3,13,14) assms(2-4)
    by (auto simp: blockchain_add_def Let_def blockchain_find_def active_chain_list_find_def info_at_def)
qed

lemma lone_gets_twin:
  assumes lone: "lone s s1 a c hash1 h1" and hash: "hash2 = hash256 P (header_bytes h2)"
    and prev: "hdr_prev_hash h2 = hdr_prev_hash h1"
    and distinct: "hash2 \<noteq> hash1" "hash2 \<noteq> hdr_prev_hash h1" "hash1 \<noteq> hdr_prev_hash h1"
    and root: "bc_root s hash2 = None" "bc_root s (hdr_prev_hash h1) = None"
  shows "\<exists>s2. blockchain_add (Suc (Suc (Suc fuel))) P W s1 None h2 = Inr (s2, True)
    \<and> twins s2 (hdr_prev_hash h1) \<and> verified s2 = verified s1"
proof -
  note v = verifiedD [of s1 s]
  have ex: "(\<exists>s2. r = Inr (s2, True) \<and> Q s2) \<longleftrightarrow> (case r of Inl _ \<Rightarrow> False | Inr (s2, ok) \<Rightarrow> ok \<and> Q s2)"
    for r :: "'a bc_ret" and Q
    by (auto split: sum.split)
  show ?thesis
    unfolding ex
    using lone prev distinct root less_imp_neq [of a c] less_imp_neq [of c "next_info s1"] hash [symmetric]
      less_imp_neq [OF less_trans [of a c "next_info s1"]]
    unfolding lone_def
    by (clarsimp simp: v blockchain_add_def Let_def blockchain_find_def active_chain_list_find_def list_root_def
      new_orphan_def block_info_new_def info_at_def info_put_def join_candidates_def list_search_tree_add_def
      list_tsearch_def tsearch_def put_list_root_def info_header_def join_chain_def chain_at_def
      block_info_add_child_def contend_def)
      (simp add: twins_def list_root_def)
qed


text \<open>Hash functions and difficulties for concrete runs.\<close>

definition nonce_ops :: "(bytes, bytes) hash_ops" where
  "nonce_ops = recording_ops (\<lambda>m. if length m = 80 then drop 76 m else m) id"

definition unit_work :: "nat work_ops" where
  "unit_work = \<lparr>work_zero = 0, work_add = (+), work_less = (<), compact_uint256_to_bdiff = \<lambda>_. 1,
     compact_uint256_to_difficulty = \<lambda>_. 1\<rparr>"

definition sample_header :: "bytes \<Rightarrow> u32 \<Rightarrow> block_header" where
  "sample_header prev n = header_zero\<lparr>hdr_prev_hash := prev, hdr_nonce := n\<rparr>"

lemma sample_hash [simp]:
  "length prev = 32 \<Longrightarrow> hash256 nonce_ops (header_bytes (sample_header prev n)) = enc32 n @ replicate 28 0"
  by (simp add: nonce_ops_def sample_header_def header_zero_def recording_ops_def hash256_def header_bytes_def fit_def)

lemma sample_not_genesis [simp]: "enc32 n @ replicate 28 0 \<noteq> g_genesis_block_hash"
proof
  assume "enc32 n @ replicate 28 0 = g_genesis_block_hash"
  then have "(enc32 n @ replicate 28 0) ! 4 = g_genesis_block_hash ! 4" by simp
  then show False by (simp add: nth_append g_genesis_block_hash_def)
qed

lemma length_genesis_hash [simp]: "length g_genesis_block_hash = 32"
  by (simp add: g_genesis_block_hash_def)

lemma sample_header_simps [simp]:
  "hdr_prev_hash (sample_header prev n) = prev" "heir_hash (next_heir W p hash h) = hash"
  "heir_cumulative_difficulty (next_heir unit_work p hash h) = heir_cumulative_difficulty p + 1"
  "work_less unit_work = (<)" "genesis_hash None = g_genesis_block_hash"
  by (simp_all add: sample_header_def next_heir_def unit_work_def genesis_hash_def)

definition sample_chain :: "block_header list" where
  "sample_chain = [sample_header g_genesis_block_hash 1, sample_header (enc32 1 @ replicate 28 0) 2,
     sample_header (enc32 2 @ replicate 28 0) 3]"

lemma sample_extends:
  "extends nonce_ops unit_work (heirs (blockchain_init unit_work (blockchain_zero unit_work) None None) 0)
     {genesis_hash None} sample_chain"
  using init_facts(5) [of unit_work None None] by (simp add: sample_chain_def Let_def enc_inj)

lemma sample_run:
  obtains s where "add_blocks 3 nonce_ops unit_work (blockchain_init unit_work (blockchain_zero unit_work) None None)
       (map (Pair None) sample_chain) = Inr ([True, True, True], s)" "bc_height s = 3" "heir_hash (heirs s 3) = enc32 3 @ replicate 28 0"
proof -
  note facts = init_facts [of unit_work None None]
  have "heir_hashes (blockchain_init unit_work (blockchain_zero unit_work) None None) 0 = [genesis_hash None]"
    by (simp add: heir_hashes_def facts(5))
  then show thesis
    using add_blocks_extends [OF facts(1,2), of 0 sample_chain nonce_ops 0] facts(3,4) sample_extends that
    by (auto simp: sample_chain_def BLOCKCHAIN_DEFAULT_ALLOC_SIZE_def numeral_3_eq_3)
qed

section \<open>Claims\<close>

text \<open>C9. Whatever blocks are added to a new chain, in whatever order: as long as the additions return,
  the heirs from the genesis block up to the height are linked (each names the hash of the one below it
  as its previous block, and has the cumulative difficulty of the one below plus its own), and the
  search tree finds exactly the hashes of these heirs, each at its height.\<close>

theorem heirs_stay_linked:
  assumes "add_blocks fuel P W (blockchain_init W (blockchain_zero W) gh gd) bs = Inr (oks, s)"
  shows "0 \<le> bc_height s
    \<and> (\<forall>i < nat (bc_height s).
          hdr_prev_hash (heir_hdr (heirs s (Suc i))) = heir_hash (heirs s i)
        \<and> heir_cumulative_difficulty (heirs s (Suc i)) =
            work_add W (heir_cumulative_difficulty (heirs s i)) (compact_uint256_to_bdiff W (heir_bits (heirs s (Suc i)))))
    \<and> (\<forall>hash i. blockchain_find s hash = Some i \<longleftrightarrow> int i \<le> bc_height s \<and> heir_hash (heirs s i) = hash)"
  using chain_ok_run [OF assms]
  by (auto simp: chain_ok_def chain_upto_def linked_def Let_def blockchain_find_def le_nat_iff)

theorem heirs_stay_linked_witness:
  "\<exists>s. add_blocks 3 nonce_ops unit_work (blockchain_init unit_work (blockchain_zero unit_work) None None)
       (map (Pair None) sample_chain) = Inr ([True, True, True], s)
    \<and> (\<forall>i < 3. hdr_prev_hash (heir_hdr (heirs s (Suc i))) = heir_hash (heirs s i))
    \<and> blockchain_find s (enc32 3 @ replicate 28 0) = Some 3"
proof (rule sample_run)
  fix s
  assume run: "add_blocks 3 nonce_ops unit_work (blockchain_init unit_work (blockchain_zero unit_work) None None)
       (map (Pair None) sample_chain) = Inr ([True, True, True], s)"
    and s: "bc_height s = 3" "heir_hash (heirs s 3) = enc32 3 @ replicate 28 0"
  show ?thesis
    using heirs_stay_linked [OF run] s by (intro exI [of _ s]) (simp add: run)
qed

text \<open>The call-backs for added and removed blocks, replayed by a client that knows the genesis hash only,
  give exactly the hashes of the chain at every moment, and every call-back fits the client's chain: a
  block is added on top of its previous block at the height of the chain, and only the top is removed.\<close>

theorem callbacks_mirror_chain:
  assumes "add_blocks fuel P W (blockchain_init W (blockchain_zero W) gh gd) bs = Inr (oks, s)"
  shows "foldl follow (Some [genesis_hash gh]) (bc_events s)
    = Some (map (\<lambda>i. heir_hash (heirs s i)) [0..<Suc (nat (bc_height s))])"
  using chain_ok_run [OF assms] by (simp add: chain_ok_def chain_upto_def followed_def heir_hashes_def)

theorem callbacks_mirror_chain_witness:
  "\<exists>s. add_blocks 3 nonce_ops unit_work (blockchain_init unit_work (blockchain_zero unit_work) None None)
       (map (Pair None) sample_chain) = Inr ([True, True, True], s)
    \<and> foldl follow (Some [g_genesis_block_hash]) (bc_events s) = Some (map (\<lambda>i. heir_hash (heirs s i)) [0..<4])"
proof (rule sample_run)
  fix s
  assume run: "add_blocks 3 nonce_ops unit_work (blockchain_init unit_work (blockchain_zero unit_work) None None)
       (map (Pair None) sample_chain) = Inr ([True, True, True], s)" and s: "bc_height s = 3"
  have "Suc (nat 3) = 4" by simp
  then show ?thesis
    using callbacks_mirror_chain [OF run] s by (intro exI [of _ s]) (simp add: run del: upt_Suc)
qed

text \<open>C10. Headers that come in order, each on top of the one before, with new hashes and with work that
  counts, are all accepted: the chain then holds the genesis block and exactly these headers, its height
  is their number, and no candidate is left behind. Three steps of fuel are enough, up to one header
  less than the array of heirs has room for.\<close>

theorem headers_in_order:
  assumes "extends P W (heirs (blockchain_init W (blockchain_zero W) gh gd) 0) {genesis_hash gh} hs"
    and "length hs + 1 \<le> BLOCKCHAIN_DEFAULT_ALLOC_SIZE"
  shows "\<exists>s. add_blocks (Suc (Suc (Suc fuel))) P W (blockchain_init W (blockchain_zero W) gh gd) (map (Pair None) hs)
        = Inr (replicate (length hs) True, s)
    \<and> bc_height s = int (length hs)
    \<and> map (heirs s) [0..<Suc (length hs)] = line P W (heirs (blockchain_init W (blockchain_zero W) gh gd) 0) hs
    \<and> acl_chains (candidates s) = [] \<and> acl_root (candidates s) = []"
proof -
  note facts = init_facts [of W gh gd]
  have "heir_hashes (blockchain_init W (blockchain_zero W) gh gd) 0 = [genesis_hash gh]"
    by (simp add: heir_hashes_def facts(5))
  then obtain s where s: "add_blocks (Suc (Suc (Suc fuel))) P W (blockchain_init W (blockchain_zero W) gh gd) (map (Pair None) hs)
      = Inr (replicate (length hs) True, s)" "idle s" "bc_height s = int (length hs)"
    "map (heirs s) [0..<Suc (length hs)] = line P W (heirs (blockchain_init W (blockchain_zero W) gh gd) 0) hs"
    using add_blocks_extends [OF facts(1,2), of 0 hs P fuel] facts(3,4) assms by (auto simp del: upt_Suc)
  then show ?thesis by (intro exI [of _ s]) (simp add: idle_def)
qed

theorem headers_in_order_witness:
  "\<exists>s. add_blocks 3 nonce_ops unit_work (blockchain_init unit_work (blockchain_zero unit_work) None None)
       (map (Pair None) sample_chain) = Inr ([True, True, True], s) \<and> bc_height s = 3"
  using headers_in_order [OF sample_extends, of 0]
  by (auto simp: sample_chain_def BLOCKCHAIN_DEFAULT_ALLOC_SIZE_def numeral_3_eq_3 simp del: upt_Suc)

text \<open>C20. When two blocks that wait for the same unknown block have come in, the addition of that block
  never returns, whatever the bound on its steps: the second child is put behind itself in the list of
  children, and the walk to the end of the list goes round for ever.\<close>

theorem awaited_block_never_returns:
  fixes h h1 h2 P W gh gd fuel
  defines "hash \<equiv> hash256 P (header_bytes h)" and "hash1 \<equiv> hash256 P (header_bytes h1)"
    and "hash2 \<equiv> hash256 P (header_bytes h2)" and "s0 \<equiv> blockchain_init W (blockchain_zero W) gh gd"
  assumes "hdr_prev_hash h1 = hash" "hdr_prev_hash h2 = hash" "distinct [genesis_hash gh, hash, hash1, hash2]"
  shows "\<exists>s. add_blocks (Suc (Suc (Suc fuel))) P W s0 [(None, h1), (None, h2)] = Inr ([True, True], s)
    \<and> bc_height s = 0 \<and> (\<forall>fuel'. blockchain_add fuel' P W s None h = Inl Unfinished)"
proof -
  have root: "bc_root s0 x = (if x = genesis_hash gh then Some 0 else None)" for x
    by (simp add: s0_def blockchain_init_def blockchain_zero_def blockchain_resize_def Let_def
        BLOCKCHAIN_DEFAULT_ALLOC_SIZE_def genesis_hash_def)
  have new: "hash1 \<noteq> genesis_hash gh" using assms(7) by auto
  obtain a c t s1 where one: "new_orphan W s0 hash1 h1 = Inr (a, t)"
    "join_candidates (Suc (Suc (Suc fuel))) W t a = Inr (c, s1)" "lone s0 s1 a c hash1 h1"
    using lone_joins [of s0 h1 hash1 W "Suc fuel"] init_facts(2) [of W gh gd] assms by (auto simp: s0_def)
  have "contend (Suc (Suc (Suc fuel))) W s1 c = Inr s1"
    using one(3) root assms(5-) by (auto simp: lone_def contend_def chain_at_def info_at_def blockchain_find_def verifiedD [of s1 s0])
  then have add1: "blockchain_add (Suc (Suc (Suc fuel))) P W s0 None h1 = Inr (s1, True)"
    using one(1,2) root init_facts(2) [of W gh gd] assms(7) new
    by (simp add: blockchain_add_def Let_def blockchain_find_def active_chain_list_find_def list_root_def idle_def
        hash1_def [symmetric] s0_def [symmetric])
  obtain s2 where add2: "blockchain_add (Suc (Suc (Suc fuel))) P W s1 None h2 = Inr (s2, True)" "twins s2 hash"
    "verified s2 = verified s1"
    using lone_gets_twin [OF one(3), of hash2 P h2 fuel W] root assms by (auto simp: hash2_def)
  have v: "verified s2 = verified s0" using one(3) add2(3) by (simp add: lone_def)
  have "hash \<noteq> genesis_hash gh" using assms(7) by auto
  then have "bc_root s2 hash = None" using root verifiedD(4) [OF v] by simp
  then have "blockchain_add k P W s2 None h = Inl Unfinished" for k
    using twins_block [OF add2(2), of P h None k W] by (simp add: hash_def)
  then show ?thesis
    using add1 add2(1) init_facts(3) [of W gh gd] verifiedD(3) [OF v] by (intro exI [of _ s2]) (simp add: s0_def)
qed

theorem awaited_block_never_returns_witness:
  "\<exists>s. add_blocks 3 nonce_ops unit_work (blockchain_init unit_work (blockchain_zero unit_work) None None)
       [(None, sample_header (enc32 1 @ replicate 28 0) 2), (None, sample_header (enc32 1 @ replicate 28 0) 3)]
       = Inr ([True, True], s)
    \<and> (\<forall>fuel. blockchain_add fuel nonce_ops unit_work s None (sample_header g_genesis_block_hash 1) = Inl Unfinished)"
  using awaited_block_never_returns [of "sample_header (enc32 1 @ replicate 28 0) 2" nonce_ops
      "sample_header g_genesis_block_hash 1" "sample_header (enc32 1 @ replicate 28 0) 3" None 0 unit_work None]
  by (auto simp: enc_inj numeral_3_eq_3 sample_not_genesis [THEN not_sym])

text \<open>The block locator: the hash at the top, then each hash one block further down up to the tenth,
  then in steps that double, down to the genesis block, whose hash comes last unless the places given are
  used up before. The count returned is the number of hashes in the first case and one more in the
  second.\<close>

theorem locator_hashes:
  assumes "blockchain_get_known_hashes s max_hashes = (xs, c)" "bc_height s = int n"
  shows "(\<forall>j < length xs. xs ! j = heir_hash (heirs s (n - back_off j)))
    \<and> (if c = length xs then xs \<noteq> [] \<and> last xs = heir_hash (heirs s 0)
       else c = length xs + 1 \<and> length xs = (if max_hashes = 0 \<or> 2000 < max_hashes then 2000 else max_hashes))"
proof -
  let ?limit = "if max_hashes = 0 \<or> 2000 < max_hashes then 2000 else max_hashes"
  have "known_hashes s ?limit 0 (int (n - back_off 0)) (int (locator_step 0)) 1 = (xs, c)"
    using assms by (simp add: blockchain_get_known_hashes_def back_off_def locator_step_def)
  note k = known_hashes_heights [OF this, simplified]
  have nth: "xs ! j = heir_hash (heirs s (n - back_off j))" if "j < length xs" for j
    using k that by (metis (no_types, lifting) add_0 diff_zero length_upt nth_map nth_upt)
  moreover have "last xs = heir_hash (heirs s 0)" if "xs \<noteq> []" "n \<le> back_off (length xs - 1)"
    using nth [of "length xs - 1"] that by (simp add: last_conv_nth)
  ultimately show ?thesis using k by auto
qed

definition numbered_heirs :: "nat blockchain" where
  "numbered_heirs = (blockchain_zero unit_work)\<lparr>bc_height := 15,
     heirs := (\<lambda>i. (heir_zero unit_work)\<lparr>heir_hash := [of_nat i]\<rparr>)\<rparr>"

lemma numbered_locator:
  "blockchain_get_known_hashes numbered_heirs 14 = ([[15], [14], [13], [12], [11], [10], [9], [8], [7], [6], [5], [3], [0]], 13)"
  by code_simp

theorem locator_hashes_witness:
  "(let xs = fst (blockchain_get_known_hashes numbered_heirs 14) in
      length xs = 13 \<and> xs ! 11 = heir_hash (heirs numbered_heirs (15 - back_off 11)) \<and> last xs = heir_hash (heirs numbered_heirs 0))"
proof -
  have "bc_height numbered_heirs = int 15" by (simp add: numbered_heirs_def)
  note w = locator_hashes [OF numbered_locator this]
  show ?thesis using conjunct1 [OF w, rule_format, of 11] conjunct2 [OF w] by (simp add: numbered_locator Let_def)
qed

end
