(* ===== verification/HeadersDb.thy ===== *)
theory HeadersDb
  imports Block "HOL-Library.AList"
begin

text \<open>
  The database of block headers (\<open>src/block_hdrs-db.c\<close>): records by block hash, with a second index by
  height that is read page by page. The Berkeley DB library underneath is a parameter (record
  \<open>bdb_ops\<close>): the state of the primary database with its index, the cursors on the index, and the calls
  the code makes. What the library documents about them is the locale \<open>header_index\<close>: the records are a
  map from keys to data, the index lists their heights and keys in order, and a cursor is a place in it.
\<close>

section \<open>Records\<close>

record block_header_record =
  rec_height :: u32
  rec_txn_count :: u32
  rec_hdr :: block_header
  rec_file_index :: u64
  rec_file_offset :: u64
  rec_is_orphan :: u32

definition record_bytes :: "block_header_record \<Rightarrow> bytes" where
  "record_bytes r = enc32 (rec_height r) @ enc32 (rec_txn_count r) @ header_bytes (rec_hdr r)
     @ enc64 (rec_file_index r) @ enc64 (rec_file_offset r) @ enc32 (rec_is_orphan r)"

definition record_of :: "bytes \<Rightarrow> block_header_record" where
  "record_of m = \<lparr>rec_height = dec32 m, rec_txn_count = dec32 (drop 4 m), rec_hdr = header_of (drop 8 m),
     rec_file_index = dec64 (drop 88 m), rec_file_offset = dec64 (drop 96 m), rec_is_orphan = dec32 (drop 104 m)\<rparr>"

definition record_zero :: block_header_record where
  "record_zero = record_of (replicate 108 0)"

text \<open>The call-backs of the two databases. The difference of heights is one of signed integers.\<close>

definition associate_by_height :: "bytes \<Rightarrow> bytes" where
  "associate_by_height data = take 4 data"

definition compare_hash :: "bytes \<Rightarrow> bytes \<Rightarrow> int" where
  "compare_hash key1 key2 = uint256_compare key1 key2"

definition compare_height :: "bytes \<Rightarrow> bytes \<Rightarrow> int res" where
  "compare_height key1 key2 =
     (let d = sint (dec32 key1) - sint (dec32 key2)
      in if - (2 ^ 31) \<le> d \<and> d < 2 ^ 31 then Inr d else Inl Undefined)"

section \<open>The library\<close>

datatype db_flag = DB_FIRST | DB_PREV | DB_NEXT | DB_LAST | DB_SET

record ('d, 'c) bdb_ops =
  db_notfound :: int
  db_get :: "'d \<Rightarrow> bytes \<Rightarrow> int \<times> bytes"
  db_put :: "'d \<Rightarrow> bytes \<Rightarrow> bytes \<Rightarrow> int \<times> 'd"
  db_del :: "'d \<Rightarrow> bytes \<Rightarrow> int \<times> 'd"
  db_cursor :: "'d \<Rightarrow> int \<times> 'c"
  cursor_pget :: "'d \<Rightarrow> 'c \<Rightarrow> bytes \<Rightarrow> db_flag \<Rightarrow> int \<times> 'c \<times> bytes \<times> bytes \<times> bytes"

section \<open>Operations\<close>

record 'd headers_db =
  hd_store :: 'd
  hd_limits :: nat
  hd_offset :: u32
  hd_num_records :: nat
  hd_hashes :: "bytes list"
  hd_records :: "block_header_record list"

definition block_headers_db_init :: "'d \<Rightarrow> 'd headers_db" where
  "block_headers_db_init d = \<lparr>hd_store = d, hd_limits = 2016, hd_offset = 0, hd_num_records = 0,
     hd_hashes = replicate 2016 (replicate 32 0), hd_records = replicate 2016 record_zero\<rparr>"

definition headers_db_open :: "'d headers_db \<Rightarrow> int" where "headers_db_open db = -1"
definition headers_db_close :: "'d headers_db \<Rightarrow> int" where "headers_db_close db = -1"
definition headers_db_get_by_height :: "'d headers_db \<Rightarrow> u32 \<Rightarrow> int" where
  "headers_db_get_by_height db height = -1"

text \<open>The result, and the record when one was found.\<close>

definition headers_db_get :: "('d, 'c) bdb_ops \<Rightarrow> 'd headers_db \<Rightarrow> bytes \<Rightarrow> int \<times> block_header_record option" where
  "headers_db_get B db hash =
     (case db_get B (hd_store db) hash of (rc, data) \<Rightarrow>
       if rc \<noteq> 0 \<and> rc \<noteq> db_notfound B then (-1, None)
       else if rc = db_notfound B then (0, None)
       else (1, Some (record_of data)))"

definition headers_db_put ::
    "('d, 'c) bdb_ops \<Rightarrow> 'd headers_db \<Rightarrow> bytes \<Rightarrow> block_header_record \<Rightarrow> int \<times> 'd headers_db" where
  "headers_db_put B db hash r =
     (case db_put B (hd_store db) hash (record_bytes r) of (rc, d) \<Rightarrow>
       (if rc \<noteq> 0 then -1 else 1, db\<lparr>hd_store := d\<rparr>))"

text \<open>The return code of the deletion is not kept.\<close>

definition headers_db_del :: "('d, 'c) bdb_ops \<Rightarrow> 'd headers_db \<Rightarrow> bytes \<Rightarrow> int \<times> 'd headers_db" where
  "headers_db_del B db hash =
     (case db_del B (hd_store db) hash of (_, d) \<Rightarrow>
       let rc = 0
       in (if rc \<noteq> 0 \<and> rc \<noteq> db_notfound B then -1 else if rc = db_notfound B then 0 else 1, db\<lparr>hd_store := d\<rparr>))"

text \<open>The places of the page from \<open>i\<close> on; a record read puts its height into the offset.\<close>

fun fill_page :: "('d, 'c) bdb_ops \<Rightarrow> 'd headers_db \<Rightarrow> 'c \<Rightarrow> nat \<Rightarrow> nat \<Rightarrow> int \<Rightarrow> int \<times> 'd headers_db" where
  "fill_page B db c i 0 rc = (rc, db)"
| "fill_page B db c i (Suc left) rc =
     (case cursor_pget B (hd_store db) c (enc32 (hd_offset db)) DB_NEXT of (rc, c', skey, key, data) \<Rightarrow>
       if rc \<noteq> 0 then (rc, db)
       else fill_page B (db\<lparr>hd_offset := dec32 skey, hd_hashes := (hd_hashes db)[i := key],
           hd_records := (hd_records db)[i := record_of data], hd_num_records := hd_num_records db + 1\<rparr>)
         c' (i + 1) left rc)"

text \<open>Where the page starts.\<close>

definition page_offset :: "'d headers_db \<Rightarrow> db_flag \<Rightarrow> u32" where
  "page_offset db flag =
     (case flag of
        DB_FIRST \<Rightarrow> 0
      | DB_PREV \<Rightarrow> (let n = hd_offset db - of_nat (hd_limits db) in if sint n < 0 then 0 else n)
      | DB_NEXT \<Rightarrow> hd_offset db + 1
      | _ \<Rightarrow> hd_offset db)"

definition read_page :: "('d, 'c) bdb_ops \<Rightarrow> 'd headers_db \<Rightarrow> 'c \<Rightarrow> db_flag \<Rightarrow> (int \<times> 'd headers_db) res" where
  "read_page B db c flag =
     (case cursor_pget B (hd_store db) c (enc32 (hd_offset db)) DB_SET of (rc, c1, skey, key, data) \<Rightarrow>
        if rc \<noteq> 0 \<and> (rc \<noteq> db_notfound B \<or> flag = DB_SET) then Inr (rc, db)
        else let db1 = (if rc \<noteq> 0 then db
                else db\<lparr>hd_offset := dec32 skey, hd_hashes := (hd_hashes db)[0 := key],
                       hd_records := (hd_records db)[0 := record_of data], hd_num_records := hd_num_records db + 1\<rparr>)
        in case fill_page B db1 c1 (hd_num_records db1) (hd_limits db1 - hd_num_records db1) rc of (rc', db2) \<Rightarrow>
          if rc' \<noteq> 0 \<and> rc' \<noteq> db_notfound B then Inl Abort else Inr (rc', db2))"

definition db_cursor_pget :: "('d, 'c) bdb_ops \<Rightarrow> 'd headers_db \<Rightarrow> db_flag \<Rightarrow> (int \<times> 'd headers_db) res" where
  "db_cursor_pget B db flag =
     (let db1 = db\<lparr>hd_num_records := 0, hd_hashes := replicate (hd_limits db) (replicate 32 0),
                  hd_records := replicate (hd_limits db) record_zero\<rparr>
      in case db_cursor B (hd_store db1) of (rc, c) \<Rightarrow>
        if rc \<noteq> 0 then Inl Abort
        else read_page B (db1\<lparr>hd_offset := page_offset db1 flag\<rparr>) c flag)"

definition headers_db_move_to :: "('d, 'c) bdb_ops \<Rightarrow> 'd headers_db \<Rightarrow> u32 \<Rightarrow> (int \<times> 'd headers_db) res" where
  "headers_db_move_to B db height = db_cursor_pget B (db\<lparr>hd_offset := height\<rparr>) DB_SET"

definition headers_db_first :: "('d, 'c) bdb_ops \<Rightarrow> 'd headers_db \<Rightarrow> (int \<times> 'd headers_db) res" where
  "headers_db_first B db = db_cursor_pget B db DB_FIRST"

definition headers_db_prior :: "('d, 'c) bdb_ops \<Rightarrow> 'd headers_db \<Rightarrow> (int \<times> 'd headers_db) res" where
  "headers_db_prior B db = db_cursor_pget B db DB_PREV"

definition headers_db_next :: "('d, 'c) bdb_ops \<Rightarrow> 'd headers_db \<Rightarrow> (int \<times> 'd headers_db) res" where
  "headers_db_next B db = db_cursor_pget B db DB_NEXT"

definition headers_db_last :: "('d, 'c) bdb_ops \<Rightarrow> 'd headers_db \<Rightarrow> (int \<times> 'd headers_db) res" where
  "headers_db_last B db = db_cursor_pget B db DB_LAST"

section \<open>What the library promises\<close>

text \<open>
  The records are a map from hashes to data. The index has one entry for each record, made by the
  call-back, in an order that the comparison call-back accepts when it is defined. A fresh cursor is
  nowhere; \<open>DB_SET\<close> moves it to the first entry with the given height, \<open>DB_NEXT\<close> to the entry behind,
  to the first one from nowhere; a failing call leaves it.
\<close>

locale header_index =
  fixes B :: "('d, 'c) bdb_ops" and recs :: "'d \<Rightarrow> bytes \<Rightarrow> bytes option"
    and entries :: "'d \<Rightarrow> (bytes \<times> bytes) list" and place :: "'c \<Rightarrow> nat option"
  assumes notfound: "db_notfound B \<noteq> 0"
    and get: "case recs d k of None \<Rightarrow> fst (db_get B d k) = db_notfound B | Some v \<Rightarrow> db_get B d k = (0, v)"
    and put: "\<exists>d'. db_put B d k v = (0, d') \<and> recs d' = (recs d)(k \<mapsto> v)"
    and del: "\<exists>rc d'. db_del B d k = (rc, d') \<and> recs d' = (recs d)(k := None)
      \<and> rc = (if recs d k = None then db_notfound B else 0)"
    and entries: "set (entries d) = {(associate_by_height v, k) |k v. recs d k = Some v}"
    and distinct: "distinct (map snd (entries d))"
    and sorted: "i < j \<Longrightarrow> j < length (entries d) \<Longrightarrow>
      compare_height (fst (entries d ! i)) (fst (entries d ! j)) = Inr x \<Longrightarrow> x \<le> 0"
    and cursor: "\<exists>c. db_cursor B d = (0, c) \<and> place c = None"
    and pget_set: "i < length (entries d) \<Longrightarrow> dec32 (fst (entries d ! i)) = dec32 h \<Longrightarrow>
      \<forall>j<i. dec32 (fst (entries d ! j)) \<noteq> dec32 h \<Longrightarrow>
      \<exists>c'. cursor_pget B d c h DB_SET = (0, c', fst (entries d ! i), snd (entries d ! i), the (recs d (snd (entries d ! i))))
        \<and> place c' = Some i"
    and pget_set_none: "\<forall>p \<in> set (entries d). dec32 (fst p) \<noteq> dec32 h \<Longrightarrow>
      \<exists>c' r. cursor_pget B d c h DB_SET = (db_notfound B, c', r) \<and> place c' = place c"
    and pget_next: "i = (case place c of None \<Rightarrow> 0 | Some j \<Rightarrow> j + 1) \<Longrightarrow> i < length (entries d) \<Longrightarrow>
      \<exists>c'. cursor_pget B d c h DB_NEXT = (0, c', fst (entries d ! i), snd (entries d ! i), the (recs d (snd (entries d ! i))))
        \<and> place c' = Some i"
    and pget_next_end: "length (entries d) \<le> (case place c of None \<Rightarrow> 0 | Some j \<Rightarrow> j + 1) \<Longrightarrow>
      \<exists>c' r. cursor_pget B d c h DB_NEXT = (db_notfound B, c', r) \<and> place c' = place c"

text \<open>A database that holds a chain: the hashes by height, from \<open>b\<close> up.\<close>

definition holds_chain :: "nat \<Rightarrow> (bytes \<Rightarrow> bytes option) \<Rightarrow> bytes list \<Rightarrow> bool" where
  "holds_chain b m hashes \<longleftrightarrow> distinct hashes \<and> b + length hashes < 2 ^ 31 \<and> dom m = set hashes
     \<and> (\<forall>i < length hashes. \<exists>v. m (hashes ! i) = Some v \<and> 4 \<le> length v \<and> dec32 v = of_nat (b + i))"

text \<open>The page whose first hash is number \<open>s\<close> of the chain is in memory.\<close>

definition page_at :: "nat \<Rightarrow> (bytes \<Rightarrow> bytes option) \<Rightarrow> bytes list \<Rightarrow> nat \<Rightarrow> 'd headers_db \<Rightarrow> bool" where
  "page_at b m hashes s db \<longleftrightarrow> (let n = min (hd_limits db) (length hashes - s) in
     hd_num_records db = n \<and> take n (hd_hashes db) = take n (drop s hashes)
     \<and> take n (hd_records db) = map (\<lambda>k. record_of (the (m k))) (take n (drop s hashes))
     \<and> hd_offset db = of_nat (b + s + n - 1))"

lemma dec32_take [simp]: "dec32 (take 4 v) = dec32 v"
  by (simp add: dec32_def)

text \<open>
  A call that leaves the page from number \<open>start\<close> in memory, and the database as it was. It succeeds when
  the page is full and reports that nothing more was found when it is not.
\<close>

definition shows_page ::
    "int \<Rightarrow> nat \<Rightarrow> (bytes \<Rightarrow> bytes option) \<Rightarrow> bytes list \<Rightarrow> 'd headers_db \<Rightarrow> nat \<Rightarrow> (int \<times> 'd headers_db) res \<Rightarrow> bool" where
  "shows_page notfound b m hashes db start r \<longleftrightarrow>
     (\<exists>db'. r = Inr (if start + hd_limits db \<le> length hashes then 0 else notfound, db') \<and> page_at b m hashes start db'
       \<and> hd_store db' = hd_store db \<and> hd_limits db' = hd_limits db)"

text \<open>The number of the highest hash on the page from \<open>s\<close>.\<close>

definition page_top :: "bytes list \<Rightarrow> 'd headers_db \<Rightarrow> nat \<Rightarrow> nat" where
  "page_top hashes db s = s + min (hd_limits db) (length hashes - s) - 1"

lemma small_sint:
  assumes "unat (x :: u32) < 2 ^ 31"
  shows "sint x = int (unat x)"
proof -
  have "int (unat x) < int (2 ^ 31)" using assms by (simp only: of_nat_less_iff)
  then have "uint x < 2 ^ 31" by simp
  moreover have "- (2 ^ 31) \<le> uint x" by (rule order_trans [of _ 0]) simp_all
  ultimately have "signed_take_bit 31 (uint x) = uint x" by (intro signed_take_bit_int_eq_self)
  then show ?thesis by (simp add: sint_uint)
qed

lemma compare_small:
  assumes "unat (dec32 a) < 2 ^ 31" "unat (dec32 b) < 2 ^ 31"
  shows "compare_height a b = Inr (int (unat (dec32 a)) - int (unat (dec32 b)))"
proof -
  have "- (2 ^ 31) \<le> int m - int n \<and> int m - int n < 2 ^ 31" if "m < 2 ^ 31" "n < 2 ^ 31" for m n :: nat
    using that by simp
  from this [OF assms] show ?thesis
    unfolding compare_height_def Let_def small_sint [OF assms(1)] small_sint [OF assms(2)] by (simp only: if_True simp_thms)
qed

context header_index
begin

definition entry :: "'d \<Rightarrow> bytes list \<Rightarrow> nat \<Rightarrow> bytes \<times> bytes" where
  "entry d hashes i = (take 4 (the (recs d (hashes ! i))), hashes ! i)"

lemma chain_entries:
  assumes chain: "holds_chain b (recs d) hashes"
  shows "entries d = map (entry d hashes) [0..<length hashes]"
proof -
  let ?n = "length hashes" and ?ht = "\<lambda>p. unat (dec32 (fst p)) - b" and ?es = "entries d"
  have n: "b + ?n < 2 ^ 31" and dist: "distinct hashes" and dom: "dom (recs d) = set hashes"
    and at: "i < ?n \<Longrightarrow> \<exists>v. recs d (hashes ! i) = Some v \<and> dec32 v = of_nat (b + i)" for i
    using chain unfolding holds_chain_def by blast+
  have height: "unat (dec32 (fst (entry d hashes i))) = b + i" if "i < ?n" for i
  proof -
    have "unat (of_nat (b + i) :: u32) = b + i" using that n by (simp add: unat_of_nat del: of_nat_add)
    then show ?thesis using at [OF that] by (auto simp: entry_def simp del: of_nat_add)
  qed
  then have ht: "?ht (entry d hashes i) = i" if "i < ?n" for i
    using that by simp
  have es: "set ?es = entry d hashes ` {0..<?n}"
  proof -
    have "\<exists>i<?n. k = hashes ! i" if "recs d k = Some v" for k v
      using dom that by (metis domI in_set_conv_nth)
    then have "p \<in> entry d hashes ` {0..<?n}" if "p \<in> set ?es" for p
      using that by (force simp: entries entry_def associate_by_height_def)
    moreover have "entry d hashes i \<in> set ?es" if "i < ?n" for i
      using at [OF that] by (auto simp: entries entry_def associate_by_height_def)
    ultimately show ?thesis by auto
  qed
  then have inv: "entry d hashes (?ht p) = p" if "p \<in> set ?es" for p
    using that ht by auto
  have small: "unat (dec32 (fst p)) = b + ?ht p" "?ht p < ?n" if "p \<in> set ?es" for p
    using that ht height by (auto simp: es)
  have "distinct (map ?ht ?es)"
    using distinct inv by (auto simp: distinct_map intro: inj_on_inverseI [where g = "entry d hashes"])
  moreover have "set (map ?ht ?es) = set [0..<?n]"
    using ht by (auto simp: es image_image)
  moreover have "sorted (map ?ht ?es)"
  proof (rule sorted_wrt_map [THEN iffD2], unfold sorted_wrt_iff_nth_less, intro allI impI)
    fix i j assume ij: "i < j" "j < length ?es"
    let ?a = "unat (dec32 (fst (?es ! i)))" and ?b = "unat (dec32 (fst (?es ! j)))"
    have ab: "?a < 2 ^ 31" "?b < 2 ^ 31"
      using n ij small [of "?es ! i"] small [of "?es ! j"] by simp_all
    then have "compare_height (fst (?es ! i)) (fst (?es ! j)) = Inr (int ?a - int ?b)"
      by (rule compare_small)
    have le: "int x - int y \<le> 0 \<Longrightarrow> x \<le> y" for x y :: nat by simp
    have "?a \<le> ?b" by (rule le [OF sorted [OF ij \<open>compare_height _ _ = _\<close>]])
    then show "?ht (?es ! i) \<le> ?ht (?es ! j)" by (rule diff_le_mono)
  qed
  ultimately have "map ?ht ?es = [0..<?n]"
    by (intro sorted_distinct_set_unique) auto
  then have "map (entry d hashes) [0..<?n] = map (entry d hashes) (map ?ht ?es)"
    by (simp only:)
  also have "\<dots> = ?es" unfolding map_map by (rule map_idI) (simp add: inv)
  finally show ?thesis by simp
qed

lemma fill_page_effect:
  assumes "holds_chain b (recs (hd_store db)) hashes" "i0 = (case place c of None \<Rightarrow> 0 | Some j \<Rightarrow> j + 1)"
    "i0 \<le> length hashes" "i + left = length (hd_hashes db)" "length (hd_records db) = length (hd_hashes db)"
  defines "m \<equiv> min left (length hashes - i0)"
  shows "fill_page B db c i left rc =
    (if left = 0 then rc else if left \<le> length hashes - i0 then 0 else db_notfound B,
     db\<lparr>hd_offset := (if m = 0 then hd_offset db else of_nat (b + i0 + m - 1)),
       hd_hashes := take i (hd_hashes db) @ take m (drop i0 hashes) @ drop (i + m) (hd_hashes db),
       hd_records := take i (hd_records db) @ map (\<lambda>k. record_of (the (recs (hd_store db) k))) (take m (drop i0 hashes))
         @ drop (i + m) (hd_records db),
       hd_num_records := hd_num_records db + m\<rparr>)"
  using assms(1-5) unfolding m_def
proof (induction left arbitrary: db c i i0 rc)
  case 0
  then show ?case by simp
next
  case (Suc left)
  let ?d = "hd_store db"
  have es: "entries ?d = map (entry ?d hashes) [0..<length hashes]" by (rule chain_entries [OF Suc.prems(1)])
  show ?case
  proof (cases "i0 < length hashes")
    case False
    then obtain c' r where "cursor_pget B ?d c (enc32 (hd_offset db)) DB_NEXT = (db_notfound B, c', r)"
      using pget_next_end [of ?d c "enc32 (hd_offset db)"] Suc.prems(2) es by auto
    then show ?thesis using False notfound Suc.prems(3) by (cases r) simp
  next
    case True
    then obtain c' where c': "cursor_pget B ?d c (enc32 (hd_offset db)) DB_NEXT =
        (0, c', take 4 (the (recs ?d (hashes ! i0))), hashes ! i0, the (recs ?d (hashes ! i0)))" "place c' = Some i0"
      using pget_next [of i0 c ?d "enc32 (hd_offset db)"] Suc.prems(2) es by (auto simp: entry_def)
    have height: "dec32 (the (recs ?d (hashes ! i0))) = of_nat (b + i0)"
      using Suc.prems(1) True unfolding holds_chain_def by fastforce
    let ?db = "db\<lparr>hd_offset := of_nat (b + i0), hd_hashes := (hd_hashes db)[i := hashes ! i0],
      hd_records := (hd_records db)[i := record_of (the (recs ?d (hashes ! i0)))], hd_num_records := hd_num_records db + 1\<rparr>"
    have step: "fill_page B db c i (Suc left) rc = fill_page B ?db c' (i + 1) left 0"
      by (simp add: c'(1) height)
    have i: "i < length (hd_hashes db)" "i < length (hd_records db)" using Suc.prems(4,5) by simp_all
    have drop: "drop i0 hashes = hashes ! i0 # drop (i0 + 1) hashes" using True by (simp add: Cons_nth_drop_Suc)
    let ?k = "min left (length hashes - (i0 + 1))"
    have rest: "fill_page B ?db c' (i + 1) left 0 =
      (if left = 0 then 0 else if left \<le> length hashes - (i0 + 1) then 0 else db_notfound B,
       ?db\<lparr>hd_offset := (if ?k = 0 then hd_offset ?db else of_nat (b + (i0 + 1) + ?k - 1)),
         hd_hashes := take (i + 1) (hd_hashes ?db) @ take ?k (drop (i0 + 1) hashes) @ drop (i + 1 + ?k) (hd_hashes ?db),
         hd_records := take (i + 1) (hd_records ?db)
           @ map (\<lambda>k. record_of (the (recs (hd_store ?db) k))) (take ?k (drop (i0 + 1) hashes))
           @ drop (i + 1 + ?k) (hd_records ?db),
         hd_num_records := hd_num_records ?db + ?k\<rparr>)"
      by (rule Suc.IH) (use Suc.prems True c'(2) in simp_all)
    have m: "min (Suc left) (length hashes - i0) = Suc ?k" using True by simp
    show ?thesis
      unfolding step rest m using True i by (auto simp: drop upd_conv_take_nth_drop add.commute [of _ i])
  qed
qed

text \<open>A cursor that starts at the height asked for, or from nowhere when there is no such height.\<close>

lemma page_from:
  assumes chain: "holds_chain b (recs (hd_store db)) hashes" and h: "sint h = int s" and limits: "0 < hd_limits db"
    and flag: "h = page_offset db flag"
    and start: "start = (if b \<le> s \<and> s < b + length hashes then s - b else 0)"
    and found: "flag = DB_SET \<longrightarrow> b \<le> s \<and> s < b + length hashes" "hashes \<noteq> []"
  shows "shows_page (db_notfound B) b (recs (hd_store db)) hashes db start (db_cursor_pget B db flag)"
proof -
  let ?d = "hd_store db" and ?n = "length hashes" and ?l = "hd_limits db"
  let ?db2 = "db\<lparr>hd_num_records := 0, hd_hashes := replicate ?l (replicate 32 0),
      hd_records := replicate ?l record_zero, hd_offset := h\<rparr>"
  obtain c where c: "db_cursor B ?d = (0, c)" "place c = None" using cursor by blast
  have es: "entries ?d = map (entry ?d hashes) [0..<?n]" by (rule chain_entries [OF chain])
  have height: "dec32 (the (recs ?d (hashes ! i))) = of_nat (b + i)" if "i < ?n" for i
    using chain that unfolding holds_chain_def by fastforce
  have n: "b + ?n < 2 ^ 31" using chain by (simp add: holds_chain_def)
  have "(of_int (sint h) :: u32) = h" by simp
  then have hs: "h = of_nat s" by (simp add: h)
  have s: "s < 2 ^ 31" using sint_lt [of h] by (simp add: h)
  have differ: "(of_nat j :: u32) \<noteq> of_nat s" if "j \<noteq> s" "j < b + ?n" for j
    using that n s by (simp add: word_unat_eq_iff unat_of_nat)
  have at: "dec32 (fst (entries ?d ! i)) = of_nat (b + i)" if "i < ?n" for i
    using that height [OF that] by (simp add: es entry_def)
  have pget: "db_cursor_pget B db flag = read_page B ?db2 c flag"
    using flag by (simp add: db_cursor_pget_def c(1) Let_def page_offset_def cong: db_flag.case_cong)
  show ?thesis
  proof (cases "b \<le> s \<and> s < b + ?n")
    case True
    then obtain t where t: "s = b + t" "t < ?n" by (metis le_Suc_ex nat_add_left_cancel_less)
    have "dec32 (fst (entries ?d ! j)) \<noteq> dec32 (enc32 h)" if "j < t" for j
      using at [of j] that t differ [of "b + j"] by (simp add: hs del: of_nat_add)
    then obtain c' where set: "cursor_pget B ?d c (enc32 h) DB_SET =
        (0, c', take 4 (the (recs ?d (hashes ! t))), hashes ! t, the (recs ?d (hashes ! t)))" "place c' = Some t"
      using pget_set [of t ?d "enc32 h" c] t at [of t] by (auto simp: es entry_def hs)
    let ?db3 = "?db2\<lparr>hd_offset := of_nat (b + t), hd_hashes := (hd_hashes ?db2)[0 := hashes ! t],
      hd_records := (hd_records ?db2)[0 := record_of (the (recs ?d (hashes ! t)))], hd_num_records := 1\<rparr>"
    obtain l where l: "hd_limits db = Suc l" using limits by (cases "hd_limits db") auto
    let ?m = "min l (?n - (t + 1))"
    have m: "min (Suc l) (?n - t) = Suc ?m" using t by simp
    have drop: "drop t hashes = hashes ! t # drop (t + 1) hashes" using t by (simp add: Cons_nth_drop_Suc)
    have start: "start = t" using start t by simp
    have "fill_page B ?db3 c' 1 l 0 = (if t + ?l \<le> ?n then 0 else db_notfound B, ?db3\<lparr>hd_offset := of_nat (b + t + ?m),
        hd_hashes := hashes ! t # take ?m (drop (t + 1) hashes) @ replicate (l - ?m) (replicate 32 0),
        hd_records := record_of (the (recs ?d (hashes ! t))) # map (\<lambda>k. record_of (the (recs ?d k))) (take ?m (drop (t + 1) hashes))
          @ replicate (l - ?m) record_zero, hd_num_records := Suc ?m\<rparr>)"
      using fill_page_effect [of b ?db3 hashes "t + 1" c' 1 l 0] t chain set(2)
      by (auto simp: l take_Suc_Cons)
    then show ?thesis
      unfolding shows_page_def
      using set(1) notfound by (auto simp: pget read_page_def height [OF t(2)] page_at_def start t l m drop Let_def)
  next
    case False
    have "\<forall>p \<in> set (entries ?d). dec32 (fst p) \<noteq> dec32 (enc32 h)"
    proof
      fix p assume "p \<in> set (entries ?d)"
      then obtain i where i: "i < ?n" "p = entries ?d ! i" using es by (auto simp: in_set_conv_nth)
      then have "b + i \<noteq> s" using False by auto
      then show "dec32 (fst p) \<noteq> dec32 (enc32 h)" using at [OF i(1)] i differ [of "b + i"] by (simp add: hs del: of_nat_add)
    qed
    then obtain c' r where set: "cursor_pget B ?d c (enc32 h) DB_SET = (db_notfound B, c', r)" "place c' = None"
      using pget_set_none [of ?d "enc32 h" c] c(2) by auto
    have start: "start = 0" using start False by auto
    have differ: "flag \<noteq> DB_SET" using found(1) False by auto
    note fill = fill_page_effect [of b ?db2 hashes 0 c' 0 "?l" "db_notfound B"]
    show ?thesis
      unfolding shows_page_def
      using fill chain set limits found(2) notfound differ
      by (cases r) (auto simp: pget read_page_def page_at_def start)
  qed
qed

lemma page_moves:
  assumes chain: "holds_chain b (recs (hd_store db)) hashes" and ne: "hashes \<noteq> []" and limits: "0 < hd_limits db" "hd_limits db < 2 ^ 31"
  defines "shows \<equiv> shows_page (db_notfound B) b (recs (hd_store db)) hashes db"
  shows "shows 0 (headers_db_first B db)"
    and "h < length hashes \<Longrightarrow> shows h (headers_db_move_to B db (of_nat (b + h)))"
    and "page_at b (recs (hd_store db)) hashes s db \<Longrightarrow> s < length hashes \<Longrightarrow>
      shows (if s + hd_limits db < length hashes then s + hd_limits db else 0) (headers_db_next B db)"
    and "page_at b (recs (hd_store db)) hashes s db \<Longrightarrow> s < length hashes \<Longrightarrow>
      shows (page_top hashes db s - hd_limits db) (headers_db_prior B db)"
    and "page_at b (recs (hd_store db)) hashes s db \<Longrightarrow> s < length hashes \<Longrightarrow>
      shows (page_top hashes db s) (headers_db_last B db)"
proof -
  let ?n = "length hashes" and ?l = "hd_limits db"
  have n: "b + ?n < 2 ^ 31" using chain by (simp add: holds_chain_def)
  have sint: "sint (of_nat i :: u32) = int i" if "i \<le> b + ?n" for i
    using small_sint [of "of_nat i"] that n by (simp add: unat_of_nat)
  show "shows 0 (headers_db_first B db)"
    unfolding shows_def headers_db_first_def
    by (rule page_from [OF chain, where h = 0 and s = 0]) (use ne limits in \<open>auto simp: page_offset_def\<close>)
  show "shows h (headers_db_move_to B db (of_nat (b + h)))" if "h < ?n"
  proof -
    have "shows_page (db_notfound B) b (recs (hd_store (db\<lparr>hd_offset := of_nat (b + h)\<rparr>))) hashes (db\<lparr>hd_offset := of_nat (b + h)\<rparr>) h
        (db_cursor_pget B (db\<lparr>hd_offset := of_nat (b + h)\<rparr>) DB_SET)"
      by (rule page_from [where h = "of_nat (b + h)" and s = "b + h"])
        (use that chain ne limits sint [of "b + h"] in \<open>auto simp: page_offset_def simp del: of_nat_add\<close>)
    then show ?thesis by (simp add: shows_def shows_page_def headers_db_move_to_def)
  qed
  assume s: "s < ?n" and page: "page_at b (recs (hd_store db)) hashes s db"
  have highest: "hd_offset db = of_nat (b + page_top hashes db s)" "Suc (page_top hashes db s) = s + min ?l (?n - s)"
    "page_top hashes db s < ?n"
    using page s limits by (auto simp: page_at_def Let_def page_top_def)
  let ?top = "page_top hashes db s"
  have "(of_nat (b + ?top) :: u32) + 1 = of_nat (b + Suc ?top)" by simp
  then show "shows (if s + ?l < ?n then s + ?l else 0) (headers_db_next B db)"
    unfolding shows_def headers_db_next_def
    using sint [of "b + Suc ?top"] highest
    by (intro page_from [OF chain, where h = "of_nat (b + Suc ?top)" and s = "b + Suc ?top"])
      (use ne limits in \<open>auto simp: page_offset_def simp del: of_nat_add\<close>)
  show "shows ?top (headers_db_last B db)"
    unfolding shows_def headers_db_last_def
    using sint [of "b + ?top"] highest
    by (intro page_from [OF chain, where h = "of_nat (b + ?top)" and s = "b + ?top"])
      (use ne limits in \<open>auto simp: page_offset_def simp del: of_nat_add\<close>)
  show "shows (?top - ?l) (headers_db_prior B db)"
  proof (cases "b + ?top < ?l")
    case True
    have "sint (of_int (int (b + ?top) - int ?l) :: u32) = int (b + ?top) - int ?l"
      unfolding sint_sbintrunc' by (rule signed_take_bit_int_eq_self) (use highest(3) n limits(2) in simp_all)
    then have "sint (of_nat (b + ?top) - of_nat ?l :: u32) < 0" using True by simp
    then have "0 = page_offset db DB_PREV" using highest(1) by (simp add: page_offset_def Let_def)
    then show ?thesis
      unfolding shows_def headers_db_prior_def
      using page_from [OF chain, of 0 0 DB_PREV 0] ne limits True by simp
  next
    case False
    then have sub: "(of_nat (b + ?top) - of_nat ?l :: u32) = of_nat (b + ?top - ?l)" by (simp add: of_nat_diff)
    have nonneg: "\<not> sint (of_nat (b + ?top) - of_nat ?l :: u32) < 0"
      unfolding sub using sint [of "b + ?top - ?l"] highest(3) by simp
    have offset: "of_nat (b + ?top - ?l) = page_offset db DB_PREV"
      unfolding page_offset_def Let_def using highest(1) nonneg sub by (simp del: of_nat_add)
    have below: "?top - ?l = (if b \<le> b + ?top - ?l \<and> b + ?top - ?l < b + ?n then b + ?top - ?l - b else 0)"
      using highest(3) by auto
    have "sint (of_nat (b + ?top - ?l) :: u32) = int (b + ?top - ?l)"
      by (rule sint) (use highest(3) in simp)
    then show ?thesis
      unfolding shows_def headers_db_prior_def
      by (rule page_from [OF chain _ limits(1) offset below _ ne]) simp
  qed
qed

end

section \<open>A store\<close>

text \<open>The library on a list of records, with the index sorted when it is asked for.\<close>

definition store_index :: "(bytes \<times> bytes) list \<Rightarrow> (bytes \<times> bytes) list" where
  "store_index d = sort_key (\<lambda>p. sint (dec32 (fst p)))
     (map (\<lambda>(k, v). (associate_by_height v, k)) (AList.clearjunk d))"

definition store_entry :: "(bytes \<times> bytes) list \<Rightarrow> nat \<Rightarrow> nat option \<Rightarrow> int \<times> nat option \<times> bytes \<times> bytes \<times> bytes" where
  "store_entry d i c =
     (if i < length (store_index d)
      then case store_index d ! i of (h, k) \<Rightarrow> (0, Some i, h, k, the (map_of d k))
      else (1, c, [], [], []))"

definition store_ops :: "((bytes \<times> bytes) list, nat option) bdb_ops" where
  "store_ops = \<lparr>db_notfound = 1,
     db_get = (\<lambda>d k. case map_of d k of None \<Rightarrow> (1, []) | Some v \<Rightarrow> (0, v)),
     db_put = (\<lambda>d k v. (0, AList.update k v d)),
     db_del = (\<lambda>d k. (if map_of d k = None then 1 else 0, AList.delete k d)),
     db_cursor = (\<lambda>d. (0, None)),
     cursor_pget = (\<lambda>d c h flag. case flag of
         DB_SET \<Rightarrow> store_entry d (length (takeWhile (\<lambda>p. dec32 (fst p) \<noteq> dec32 h) (store_index d))) c
       | _ \<Rightarrow> store_entry d (case c of None \<Rightarrow> 0 | Some j \<Rightarrow> j + 1) c)\<rparr>"

lemma takeWhile_first: "i < length xs \<Longrightarrow> \<not> P (xs ! i) \<Longrightarrow> \<forall>j<i. P (xs ! j) \<Longrightarrow> length (takeWhile P xs) = i"
proof (induction xs arbitrary: i)
  case (Cons x xs)
  have "\<forall>j<k. P (xs ! j)" if "i = Suc k" for k
    using Cons.prems(3) that by (metis Suc_less_eq nth_Cons_Suc)
  then show ?case using Cons by (cases i) auto
qed simp

lemma store_index_set: "set (store_index d) = {(associate_by_height v, k) |k v. map_of d k = Some v}"
proof -
  have "set (AList.clearjunk d) = {(k, v). map_of d k = Some v}"
    using map_of_eq_Some_iff [OF distinct_clearjunk, of d] by (auto simp: map_of_clearjunk)
  then show ?thesis by (auto simp: store_index_def)
qed

lemma store_index_distinct: "distinct (map snd (store_index d))"
proof -
  have "distinct (map snd (sort_key f xs)) = distinct (map snd xs)" for f :: "bytes \<times> bytes \<Rightarrow> int" and xs
    by (simp add: distinct_map)
  then show ?thesis using distinct_clearjunk [of d] by (simp add: store_index_def comp_def split_beta)
qed

lemma store_index_sorted:
  assumes "i < j" "j < length (store_index d)"
    and "compare_height (fst (store_index d ! i)) (fst (store_index d ! j)) = Inr x"
  shows "x \<le> 0"
proof -
  have "sorted (map (\<lambda>p. sint (dec32 (fst p))) (store_index d))" by (simp add: store_index_def)
  then have "sint (dec32 (fst (store_index d ! i))) \<le> sint (dec32 (fst (store_index d ! j)))"
    using assms(1,2) by (simp add: sorted_iff_nth_mono_less)
  then show ?thesis using assms(3) by (auto simp: compare_height_def Let_def split: if_splits)
qed

interpretation store: header_index store_ops map_of store_index "\<lambda>c. c"
proof
  fix d :: "(bytes \<times> bytes) list" and k v h :: bytes and c i j x
  show "db_notfound store_ops \<noteq> 0" by (simp add: store_ops_def)
  show "case map_of d k of None \<Rightarrow> fst (db_get store_ops d k) = db_notfound store_ops | Some v \<Rightarrow> db_get store_ops d k = (0, v)"
    by (simp add: store_ops_def split: option.split)
  show "\<exists>d'. db_put store_ops d k v = (0, d') \<and> map_of d' = (map_of d)(k \<mapsto> v)"
    by (simp add: store_ops_def update_conv')
  show "\<exists>rc d'. db_del store_ops d k = (rc, d') \<and> map_of d' = (map_of d)(k := None)
      \<and> rc = (if map_of d k = None then db_notfound store_ops else 0)"
    by (simp add: store_ops_def delete_conv')
  show "set (store_index d) = {(associate_by_height v, k) |k v. map_of d k = Some v}" by (rule store_index_set)
  show "distinct (map snd (store_index d))" by (rule store_index_distinct)
  show "i < j \<Longrightarrow> j < length (store_index d) \<Longrightarrow>
      compare_height (fst (store_index d ! i)) (fst (store_index d ! j)) = Inr x \<Longrightarrow> x \<le> 0"
    by (rule store_index_sorted)
  show "\<exists>c. db_cursor store_ops d = (0, c) \<and> c = None" by (simp add: store_ops_def)
  show "i < length (store_index d) \<Longrightarrow> dec32 (fst (store_index d ! i)) = dec32 h \<Longrightarrow>
      \<forall>j<i. dec32 (fst (store_index d ! j)) \<noteq> dec32 h \<Longrightarrow>
      \<exists>c'. cursor_pget store_ops d c h DB_SET = (0, c', fst (store_index d ! i), snd (store_index d ! i),
        the (map_of d (snd (store_index d ! i)))) \<and> c' = Some i"
    by (simp add: store_ops_def takeWhile_first store_entry_def split_beta)
  show "\<forall>p \<in> set (store_index d). dec32 (fst p) \<noteq> dec32 h \<Longrightarrow>
      \<exists>c' r. cursor_pget store_ops d c h DB_SET = (db_notfound store_ops, c', r) \<and> c' = c"
    by (simp add: store_ops_def store_entry_def takeWhile_eq_all_conv [THEN iffD2])
  show "i = (case c of None \<Rightarrow> 0 | Some j \<Rightarrow> j + 1) \<Longrightarrow> i < length (store_index d) \<Longrightarrow>
      \<exists>c'. cursor_pget store_ops d c h DB_NEXT = (0, c', fst (store_index d ! i), snd (store_index d ! i),
        the (map_of d (snd (store_index d ! i)))) \<and> c' = Some i"
    by (simp add: store_ops_def store_entry_def split_beta)
  show "length (store_index d) \<le> (case c of None \<Rightarrow> 0 | Some j \<Rightarrow> j + 1) \<Longrightarrow>
      \<exists>c' r. cursor_pget store_ops d c h DB_NEXT = (db_notfound store_ops, c', r) \<and> c' = c"
    by (simp add: store_ops_def store_entry_def)
qed


section \<open>Claims\<close>

lemma record_of_bytes: "wf_header (rec_hdr r) \<Longrightarrow> record_of (record_bytes r) = r"
  using length_header_bytes [of "rec_hdr r"]
  by (simp add: record_of_def record_bytes_def header_of_bytes)

text \<open>C37. The pages of a database that holds a chain, one hash for each height from a base height up: the first page starts at
  the lowest height and the one moved to at the height asked for; the next page starts behind the present one, and after
  the last page it is the first one again. The page before does not end where the present one begins: it
  starts one limit below the highest height of the present page. The last page is not found: the
  call shows the page that starts at the highest height of the present one. A call succeeds exactly when
  the page it shows is full.\<close>

theorem header_pages:
  assumes "header_index B recs entries place" "holds_chain b (recs (hd_store db)) hashes"
    and "page_at b (recs (hd_store db)) hashes s db" "s < length hashes" "h < length hashes"
    and "0 < hd_limits db" "hd_limits db < 2 ^ 31"
  defines "shows \<equiv> shows_page (db_notfound B) b (recs (hd_store db)) hashes db"
  shows "shows 0 (headers_db_first B db)
    \<and> shows h (headers_db_move_to B db (of_nat (b + h)))
    \<and> shows (if s + hd_limits db < length hashes then s + hd_limits db else 0) (headers_db_next B db)
    \<and> shows (page_top hashes db s - hd_limits db) (headers_db_prior B db)
    \<and> shows (page_top hashes db s) (headers_db_last B db)"
proof -
  have "hashes \<noteq> []" using assms(4) by auto
  note m = header_index.page_moves [OF assms(1,2) this assms(6,7)]
  show ?thesis unfolding shows_def by (intro conjI m(1) m(2) [OF assms(5)] m(3-5) [OF assms(3,4)])
qed

text \<open>Records by hash: a record put in is found again with all its fields and the records of the other
  hashes stay; a hash that is not there gives 0. After a deletion the hash is not found and the others
  stay, and the result of the deletion is 1 whether there was a record or not.\<close>

theorem header_records:
  assumes "header_index B recs entries place" "wf_header (rec_hdr r)"
  shows "(recs (hd_store db) k = None \<longrightarrow> headers_db_get B db k = (0, None))
    \<and> (\<exists>db'. headers_db_put B db k r = (1, db') \<and> headers_db_get B db' k = (1, Some r)
        \<and> (\<forall>k'. k' \<noteq> k \<longrightarrow> headers_db_get B db' k' = headers_db_get B db k'))
    \<and> (\<exists>db'. headers_db_del B db k = (1, db') \<and> headers_db_get B db' k = (0, None)
        \<and> (\<forall>k'. k' \<noteq> k \<longrightarrow> headers_db_get B db' k' = headers_db_get B db k'))"
proof -
  have get: "headers_db_get B db k = (case recs (hd_store db) k of None \<Rightarrow> (0, None) | Some v \<Rightarrow> (1, Some (record_of v)))"
    for db :: "'a headers_db" and k
    using header_index.get [OF assms(1), of "hd_store db" k] header_index.notfound [OF assms(1)]
    by (auto simp: headers_db_get_def split: option.splits prod.splits)
  show ?thesis
    using header_index.put [OF assms(1), of "hd_store db" k "record_bytes r"]
      header_index.del [OF assms(1), of "hd_store db" k] header_index.notfound [OF assms(1)] assms(2)
    by (auto simp: get headers_db_put_def headers_db_del_def record_of_bytes)
qed

definition sample_hash :: "nat \<Rightarrow> bytes" where "sample_hash i = of_nat (i + 7) # replicate 31 0"

definition sample_record :: "nat \<Rightarrow> block_header_record" where
  "sample_record i = record_zero\<lparr>rec_height := of_nat i\<rparr>"

text \<open>Three records in any order, and the page of the first two in memory.\<close>

definition sample_db :: "(bytes \<times> bytes) list headers_db" where
  "sample_db = \<lparr>hd_store = map (\<lambda>i. (sample_hash i, record_bytes (sample_record i))) [2, 0, 1], hd_limits = 2, hd_offset = 1,
     hd_num_records = 2, hd_hashes = [sample_hash 0, sample_hash 1], hd_records = [sample_record 0, sample_record 1]\<rparr>"

lemma sample_record_facts:
  "wf_header (rec_hdr (sample_record i))" "rec_height (sample_record i) = of_nat i"
  "dec32 (record_bytes (sample_record i)) = of_nat i" "4 \<le> length (record_bytes (sample_record i))"
  by (simp_all add: sample_record_def record_zero_def record_of_def wf_header_def header_of_def record_bytes_def)

lemma sample_chain:
  "holds_chain 0 (map_of (hd_store sample_db)) [sample_hash 0, sample_hash 1, sample_hash 2]"
  "page_at 0 (map_of (hd_store sample_db)) [sample_hash 0, sample_hash 1, sample_hash 2] 0 sample_db"
  by (auto simp: holds_chain_def page_at_def sample_db_def sample_record_facts record_of_bytes sample_hash_def Let_def
      nth_Cons' less_Suc_eq numeral_3_eq_3)

theorem header_pages_witness:
  "shows_page 1 0 (map_of (hd_store sample_db)) [sample_hash 0, sample_hash 1, sample_hash 2] sample_db 2
     (headers_db_next store_ops sample_db)"
proof -
  have "hd_limits sample_db = 2" "db_notfound store_ops = 1" by (simp_all add: sample_db_def store_ops_def)
  then show ?thesis
    using header_pages [OF store.header_index_axioms sample_chain(1,2), of 1] by (simp add: numeral_2_eq_2 [symmetric])
qed

theorem header_records_witness:
  "\<exists>db'. headers_db_put store_ops sample_db (sample_hash 1) (sample_record 5) = (1, db')
    \<and> headers_db_get store_ops db' (sample_hash 1) = (1, Some (sample_record 5))"
  using header_records [OF store.header_index_axioms sample_record_facts(1)] by blast

end
