(* ===== verification/SpvNode.thy ===== *)
theory SpvNode
  imports ChainRuns HeadersDb Message Buffer AVL
begin

text \<open>
  The SPV node (\<open>src/spv-node.c\<close>, \<open>src/spv_node_message_handlers.c\<close>, \<open>src/spv_node_app.c\<close>): one
  connection to a full node. What is read goes into a buffer, is cut into messages and handed to the
  handler of the type of the message; the handlers extend the block chain, whose call-backs keep the
  database of headers, and put answers into a second buffer, which is written when the socket accepts
  it. The components underneath are the models of their own theories. The environment (record
  \<open>spv_env\<close>) has what is not in the repository: the hash functions, the difficulties, the Berkeley DB
  library, the codecs of the payloads and the bound on the steps of the block chain. What the sockets
  deliver and accept, the clock and the results of polling are arguments. The mutexes play no part,
  one thread runs, and printing is left out.
\<close>

section \<open>The objects of messages\<close>

record network_address =
  na_time :: u32
  na_services :: u64
  na_ip :: bytes
  na_port :: u16

record network_address_legacy =
  nl_services :: u64
  nl_ip :: bytes
  nl_port :: u16

record inventory =
  iv_type :: u32
  iv_hash :: bytes

record message_version =
  mv_version :: u32
  mv_services :: u64
  mv_timestamp :: u64
  mv_addr_recv :: network_address_legacy
  mv_addr_from :: network_address_legacy
  mv_nonce :: u64
  mv_user_agent :: "bytes option"
  mv_start_height :: u32
  mv_relay :: byte

record message_addr =
  ma_count :: int
  ma_addrs :: "network_address list"

text \<open>Inventories are sent as \<open>inv\<close>, \<open>getdata\<close> and \<open>notfound\<close>, locators as \<open>getblocks\<close> and \<open>getheaders\<close>.\<close>

record message_inv =
  mi_count :: int
  mi_invs :: "inventory list"

record message_getheaders =
  mg_version :: u32
  mg_hash_count :: int
  mg_hashes :: "bytes list"
  mg_hash_stop :: bytes

record message_block_headers =
  mb_count :: int
  mb_hdrs :: "(block_header \<times> int) list"

datatype object =
    Obj_version message_version
  | Obj_addr message_addr
  | Obj_inv message_inv
  | Obj_getdata message_inv
  | Obj_notfound message_inv
  | Obj_getblocks message_getheaders
  | Obj_getheaders message_getheaders
  | Obj_tx tx
  | Obj_block block
  | Obj_headers message_block_headers

abbreviation msg_addr :: int where "msg_addr \<equiv> 3"
abbreviation msg_inv :: int where "msg_inv \<equiv> 4"
abbreviation msg_getdata :: int where "msg_getdata \<equiv> 5"
abbreviation msg_notfound :: int where "msg_notfound \<equiv> 6"
abbreviation msg_getblocks :: int where "msg_getblocks \<equiv> 7"
abbreviation msg_getheaders :: int where "msg_getheaders \<equiv> 8"
abbreviation msg_tx :: int where "msg_tx \<equiv> 9"
abbreviation msg_block :: int where "msg_block \<equiv> 10"
abbreviation msg_ping :: int where "msg_ping \<equiv> 17"
abbreviation msg_pong :: int where "msg_pong \<equiv> 18"
abbreviation msg_sendheaders :: int where "msg_sendheaders \<equiv> 25"

text \<open>The zeroed objects of new messages.\<close>

definition legacy_zero :: network_address_legacy where
  "legacy_zero = \<lparr>nl_services = 0, nl_ip = replicate 16 0, nl_port = 0\<rparr>"

definition version_zero :: message_version where
  "version_zero = \<lparr>mv_version = 0, mv_services = 0, mv_timestamp = 0, mv_addr_recv = legacy_zero, mv_addr_from = legacy_zero,
     mv_nonce = 0, mv_user_agent = None, mv_start_height = 0, mv_relay = 0\<rparr>"

definition inv_zero :: message_inv where "inv_zero = \<lparr>mi_count = 0, mi_invs = []\<rparr>"

definition getheaders_zero :: message_getheaders where
  "getheaders_zero = \<lparr>mg_version = 0, mg_hash_count = 0, mg_hashes = [], mg_hash_stop = replicate 32 0\<rparr>"

definition tx_object_zero :: tx where
  "tx_object_zero = \<lparr>tx_version = 0, has_flag = False, tx_flag = [0, 0], txins = [], txouts = [], cb_witnesses = 0,
     witnesses = None, lock_time = 0, txid = replicate 32 0, wtxid = replicate 32 0\<rparr>"

definition object_zero :: "int \<Rightarrow> object" where
  "object_zero t =
     (if t = msg_version then Obj_version version_zero
      else if t = msg_addr then Obj_addr \<lparr>ma_count = 0, ma_addrs = []\<rparr>
      else if t = msg_inv then Obj_inv inv_zero
      else if t = msg_getdata then Obj_getdata inv_zero
      else if t = msg_notfound then Obj_notfound inv_zero
      else if t = msg_getblocks then Obj_getblocks getheaders_zero
      else if t = msg_getheaders then Obj_getheaders getheaders_zero
      else if t = msg_tx then Obj_tx tx_object_zero
      else if t = msg_block then Obj_block \<lparr>hdr = header_zero, txns = [], block_hash = replicate 32 0\<rparr>
      else Obj_headers \<lparr>mb_count = 0, mb_hdrs = []\<rparr>)"

section \<open>The environment and the state\<close>

record ('c, 'd, 'w, 's, 'k) spv_env =
  env_hash :: "('c, 'd) hash_ops"
  env_work :: "'w work_ops"
  env_db :: "('s, 'k) bdb_ops"
  env_parse :: "int \<Rightarrow> bytes \<Rightarrow> object option"
  env_serialize :: "int \<Rightarrow> object \<Rightarrow> bytes option"
  env_fuel :: nat

definition payloads :: "('c, 'd, 'w, 's, 'k) spv_env \<Rightarrow> object payload_ops" where
  "payloads E = \<lparr>payload_parse = env_parse E, payload_serialize = env_serialize E, payload_new = object_zero\<rparr>"

text \<open>A handler by the file it is defined in and the type in its name.\<close>

datatype callback = Node_handler int | App_handler int

record ('w, 's) spv_node =
  spv_host :: "string option"
  spv_port :: "string option"
  spv_addr :: bytes
  spv_addr_len :: nat
  spv_magic :: u32
  spv_chain :: "'w blockchain"
  spv_connected :: bool
  spv_pollout :: bool
  spv_in_buf :: auto_buffer
  spv_out_buf :: auto_buffer
  spv_max_retries :: int
  spv_send_headers_flag :: bool
  spv_addrs_list :: "network_address avl_tree"
  spv_callbacks :: "callback list"
  spv_protocol_version :: u32
  spv_peer_version :: u32
  spv_peer_height :: u32
  spv_hdrs_db :: "'s headers_db"

text \<open>The state with the return code of an operation.\<close>

type_synonym ('w, 's) spv_ret = "(int \<times> ('w, 's) spv_node) res"

definition push_out :: "('w, 's) spv_node \<Rightarrow> bytes \<Rightarrow> ('w, 's) spv_ret" where
  "push_out node d =
     andThen (auto_buffer_push (spv_out_buf node) (Some d) (length d)) (\<lambda>(b, ok).
       Inr (if ok then 0 else -1, node\<lparr>spv_out_buf := b\<rparr>))"

text \<open>The payload is serialized by this call, or the message was never to be sent.\<close>

definition spv_node_send_message ::
    "('c, 'd, 'w, 's, 'k) spv_env \<Rightarrow> ('w, 's) spv_node \<Rightarrow> object message \<Rightarrow> ('w, 's) spv_ret" where
  "spv_node_send_message E node m =
     andThen (bitcoin_message_serialize (env_hash E) (payloads E) m None) (\<lambda>(m1, cb, _).
       case (cb, msg_data m1) of
         (Some n, Some d) \<Rightarrow>
           andThen (auto_buffer_push (spv_out_buf node) (Some d) n) (\<lambda>(b, ok).
             Inr (if ok then 0 else -1, node\<lparr>spv_out_buf := b\<rparr>))
       | _ \<Rightarrow> Inr (-1, node))"

section \<open>Handlers of the node\<close>

definition message_bytes :: "object message \<Rightarrow> bytes res" where
  "message_bytes m = (case msg_data m of None \<Rightarrow> Inl Undefined | Some d \<Rightarrow> Inr d)"

definition send_message_verack :: "('w, 's) spv_node \<Rightarrow> object message \<Rightarrow> ('w, 's) spv_ret" where
  "send_message_verack node m =
     andThen (message_bytes m) (\<lambda>d.
       let h = \<lparr>mh_magic = mh_magic (message_header_of d), mh_command = c_strncpy 12 (c_string ''verack''),
                mh_length = 0, mh_checksum = 0xe2e0f65d\<rparr>
       in andThen (push_out node (message_header_bytes h)) (\<lambda>(_, node1). Inr (0, node1)))"

definition send_message_pong :: "('w, 's) spv_node \<Rightarrow> object message \<Rightarrow> ('w, 's) spv_ret" where
  "send_message_pong node m =
     andThen (message_bytes m) (\<lambda>d.
       let in_hdr = message_header_of d
       in if mh_length in_hdr \<noteq> 8 then Inl Abort
          else andThen (mem_read 8 (drop 24 d)) (\<lambda>nonce.
            let h = \<lparr>mh_magic = mh_magic in_hdr, mh_command = c_strncpy 12 (c_string ''pong''),
                     mh_length = 8, mh_checksum = mh_checksum in_hdr\<rparr>
            in andThen (push_out node (message_header_bytes h @ nonce)) (\<lambda>(_, node1). Inr (0, node1))))"

text \<open>The dump of the message that is printed first is left out: it only reads, and its code is not in the repository.\<close>

definition on_message_version :: "('w, 's) spv_node \<Rightarrow> object message \<Rightarrow> ('w, 's) spv_ret" where
  "on_message_version node m =
     (case msg_object m of
        None \<Rightarrow> Inl Abort
      | Some (Obj_version v) \<Rightarrow>
          send_message_verack (node\<lparr>spv_peer_version := mv_version v, spv_peer_height := mv_start_height v\<rparr>) m
      | Some _ \<Rightarrow> Inl Undefined)"

text \<open>The address and the port lie next to each other.\<close>

definition network_address_compare :: "network_address \<Rightarrow> network_address \<Rightarrow> int" where
  "network_address_compare a b = memcmp (na_ip a @ enc16 (na_port a)) (na_ip b @ enc16 (na_port b))"

text \<open>An address that is known gets its time and its services through the pointer that was found.\<close>

definition save_address :: "network_address avl_tree \<Rightarrow> network_address \<Rightarrow> network_address avl_tree res" where
  "save_address t a =
     andThen (avl_tree_add network_address_compare t a) (\<lambda>(found, t1).
       if found = a then Inr t1
       else Inr (t1\<lparr>avl_root := map_avl_node
              (\<lambda>k. if k = found then k\<lparr>na_time := na_time a, na_services := na_services a\<rparr> else k) (avl_root t1)\<rparr>))"

fun save_addresses :: "network_address avl_tree \<Rightarrow> nat \<Rightarrow> network_address list \<Rightarrow> network_address avl_tree res" where
  "save_addresses t 0 addrs = Inr t"
| "save_addresses t (Suc k) [] = Inl Undefined"
| "save_addresses t (Suc k) (a # addrs) = andThen (save_address t a) (\<lambda>t1. save_addresses t1 k addrs)"

definition on_message_addr :: "('w, 's) spv_node \<Rightarrow> object message \<Rightarrow> ('w, 's) spv_ret" where
  "on_message_addr node m =
     (case msg_object m of
        None \<Rightarrow> Inl Abort
      | Some (Obj_addr a) \<Rightarrow>
          andThen (save_addresses (spv_addrs_list node) (nat (ma_count a)) (ma_addrs a)) (\<lambda>t.
            Inr (0, node\<lparr>spv_addrs_list := t\<rparr>))
      | Some _ \<Rightarrow> Inl Undefined)"

text \<open>The other handlers of the node only print.\<close>

definition node_handler :: "int \<Rightarrow> ('w, 's) spv_node \<Rightarrow> object message \<Rightarrow> ('w, 's) spv_ret" where
  "node_handler t node m =
     (if t = msg_unknown then Inr (-1, node)
      else if t = msg_version then on_message_version node m
      else if t = msg_addr then on_message_addr node m
      else if t = msg_ping then send_message_pong node m
      else if t = msg_sendheaders then Inr (0, node\<lparr>spv_send_headers_flag := True\<rparr>)
      else Inr (0, node))"

definition s_spv_node_callbacks :: "callback list" where
  "s_spv_node_callbacks = map Node_handler [0..30]"

section \<open>The chain and the database\<close>

text \<open>
  The call-backs of the chain write to the database, which the chain does not read: they are carried
  out, in their order, when the addition has returned.
\<close>

definition on_add_block ::
    "('s, 'k) bdb_ops \<Rightarrow> 's headers_db \<Rightarrow> nat \<Rightarrow> bytes \<Rightarrow> block_header \<Rightarrow> 's headers_db res" where
  "on_add_block B db height hash h =
     (case headers_db_put B db hash (record_zero\<lparr>rec_height := of_nat height, rec_hdr := h\<rparr>) of (count, db1) \<Rightarrow>
       if count = 1 then Inr db1 else Inl Abort)"

definition on_remove_block :: "('s, 'k) bdb_ops \<Rightarrow> 's headers_db \<Rightarrow> nat \<Rightarrow> bytes \<Rightarrow> 's headers_db res" where
  "on_remove_block B db height hash =
     (case headers_db_del B db hash of (count, db1) \<Rightarrow> if count = 1 then Inr db1 else Inl Abort)"

fun chain_callback :: "('s, 'k) bdb_ops \<Rightarrow> 's headers_db \<Rightarrow> chain_event \<Rightarrow> 's headers_db res" where
  "chain_callback B db (Added height hash h) = on_add_block B db height hash h"
| "chain_callback B db (Removed height hash) = on_remove_block B db height hash"

fun chain_callbacks :: "('s, 'k) bdb_ops \<Rightarrow> 's headers_db \<Rightarrow> chain_event list \<Rightarrow> 's headers_db res" where
  "chain_callbacks B db [] = Inr db"
| "chain_callbacks B db (e # es) = andThen (chain_callback B db e) (\<lambda>db1. chain_callbacks B db1 es)"

definition chain_add ::
    "('c, 'd, 'w, 's, 'k) spv_env \<Rightarrow> ('w, 's) spv_node \<Rightarrow> bytes option \<Rightarrow> block_header \<Rightarrow> (('w, 's) spv_node \<times> bool) res" where
  "chain_add E node claimed h =
     (let s = spv_chain node
      in andThen (blockchain_add (env_fuel E) (env_hash E) (env_work E) s claimed h) (\<lambda>(s1, ok).
        andThen (chain_callbacks (env_db E) (spv_hdrs_db node) (drop (length (bc_events s)) (bc_events s1))) (\<lambda>db1.
          Inr (node\<lparr>spv_chain := s1, spv_hdrs_db := db1\<rparr>, ok))))"

section \<open>Handlers of the application\<close>

text \<open>The hashes are copied; none is returned for -1.\<close>

definition bitcoin_message_getheaders_set ::
    "message_getheaders \<Rightarrow> u32 \<Rightarrow> int \<Rightarrow> bytes list \<Rightarrow> bytes option \<Rightarrow> message_getheaders option res" where
  "bitcoin_message_getheaders_set g version hash_count hashes hash_stop =
     (if hash_count \<le> 0 \<or> hash_count > 2000 then Inr None
      else if length hashes < nat hash_count then Inl Undefined
      else Inr (Some (g\<lparr>mg_version := version, mg_hash_count := hash_count, mg_hashes := take (nat hash_count) hashes,
             mg_hash_stop := (case hash_stop of None \<Rightarrow> mg_hash_stop g | Some x \<Rightarrow> x)\<rparr>)))"

definition common_version :: "('w, 's) spv_node \<Rightarrow> u32" where
  "common_version node =
     (let version = spv_peer_version node
      in if version = 0 \<or> spv_protocol_version node < version then spv_protocol_version node else version)"

text \<open>Asking for the headers behind those of the chain; the result of sending is not used.\<close>

definition send_getheaders ::
    "('c, 'd, 'w, 's, 'k) spv_env \<Rightarrow> ('w, 's) spv_node \<Rightarrow> u32 \<Rightarrow> nat \<Rightarrow> ('w, 's) spv_ret" where
  "send_getheaders E node magic max_hashes =
     andThen (bitcoin_message_new (payloads E) magic msg_getheaders) (\<lambda>m.
       case msg_object m of
         Some (Obj_getheaders g) \<Rightarrow>
           (case blockchain_get_known_hashes (spv_chain node) max_hashes of (hashes, count) \<Rightarrow>
              if count = 0 then Inl Abort
              else andThen (bitcoin_message_getheaders_set g (common_version node) (int count) hashes None) (\<lambda>r.
                case r of
                  None \<Rightarrow> Inr (-1, node)
                | Some g1 \<Rightarrow> andThen (spv_node_send_message E node (m\<lparr>msg_object := Some (Obj_getheaders g1)\<rparr>)) (\<lambda>(_, node1).
                    Inr (0, node1))))
       | _ \<Rightarrow> Inl Abort)"

definition app_on_message_verack ::
    "('c, 'd, 'w, 's, 'k) spv_env \<Rightarrow> ('w, 's) spv_node \<Rightarrow> object message \<Rightarrow> ('w, 's) spv_ret" where
  "app_on_message_verack E node m =
     andThen (message_bytes m) (\<lambda>d. send_getheaders E node (mh_magic (message_header_of d)) 0)"

definition app_on_message_inv ::
    "('c, 'd, 'w, 's, 'k) spv_env \<Rightarrow> ('w, 's) spv_node \<Rightarrow> object message \<Rightarrow> ('w, 's) spv_ret" where
  "app_on_message_inv E node m =
     andThen (message_bytes m) (\<lambda>d.
       andThen (bitcoin_message_new (payloads E) (mh_magic (message_header_of d)) msg_getdata) (\<lambda>g.
         case msg_object m of
           Some (Obj_inv i) \<Rightarrow>
             andThen (spv_node_send_message E node (g\<lparr>msg_object := Some (Obj_getdata i)\<rparr>)) (\<lambda>(_, node1). Inr (0, node1))
         | _ \<Rightarrow> Inl Undefined))"

text \<open>Headers until one is refused.\<close>

fun add_headers ::
    "('c, 'd, 'w, 's, 'k) spv_env \<Rightarrow> ('w, 's) spv_node \<Rightarrow> nat \<Rightarrow> (block_header \<times> int) list \<Rightarrow> ('w, 's) spv_node res" where
  "add_headers E node 0 hdrs = Inr node"
| "add_headers E node (Suc k) [] = Inl Undefined"
| "add_headers E node (Suc k) ((h, txn_count) # hdrs) =
     andThen (chain_add E node None h) (\<lambda>(node1, ok). if ok then add_headers E node1 k hdrs else Inr node1)"

definition app_on_message_headers ::
    "('c, 'd, 'w, 's, 'k) spv_env \<Rightarrow> ('w, 's) spv_node \<Rightarrow> object message \<Rightarrow> ('w, 's) spv_ret" where
  "app_on_message_headers E node m =
     (case msg_object m of
        None \<Rightarrow> Inr (0, node)
      | Some (Obj_headers hs) \<Rightarrow>
          if mb_count hs = 0 then Inr (0, node)
          else if mb_count hs < 0 then Inr (-1, node)
          else andThen (add_headers E node (nat (mb_count hs)) (mb_hdrs hs)) (\<lambda>node1.
            andThen (message_bytes m) (\<lambda>d.
              andThen (send_getheaders E node1 (mh_magic (message_header_of d)) 100) (\<lambda>(rc, node2).
                if rc \<noteq> 0 then Inl Abort else Inr (rc, node2))))
      | Some _ \<Rightarrow> Inl Undefined)"

text \<open>The other handlers of the application only print.\<close>

definition app_handler ::
    "('c, 'd, 'w, 's, 'k) spv_env \<Rightarrow> int \<Rightarrow> ('w, 's) spv_node \<Rightarrow> object message \<Rightarrow> ('w, 's) spv_ret" where
  "app_handler E t node m =
     (if t = msg_verack then app_on_message_verack E node m
      else if t = msg_inv then app_on_message_inv E node m
      else if t = msg_headers then app_on_message_headers E node m
      else Inr (0, node))"

definition custom_init :: "('w, 's) spv_node \<Rightarrow> ('w, 's) spv_node" where
  "custom_init node =
     node\<lparr>spv_callbacks := foldl (\<lambda>cs t. cs[nat t := App_handler t]) (spv_callbacks node)
       [msg_verack, msg_inv, msg_getdata, msg_notfound, msg_getblocks, msg_getheaders, msg_tx, msg_block, msg_headers]\<rparr>"

section \<open>Reading\<close>

definition on_message_handler ::
    "('c, 'd, 'w, 's, 'k) spv_env \<Rightarrow> ('w, 's) spv_node \<Rightarrow> object message \<Rightarrow> ('w, 's) spv_ret" where
  "on_message_handler E node m =
     (if msg_type m < 0 \<or> msg_types_count \<le> msg_type m then Inr (-1, node)
      else if length (spv_callbacks node) \<le> nat (msg_type m) then Inl Undefined
      else case spv_callbacks node ! nat (msg_type m) of
          Node_handler t \<Rightarrow> node_handler t node m
        | App_handler t \<Rightarrow> app_handler E t node m)"

definition message_zero :: "object message" where
  "message_zero = \<lparr>msg_data = None, msg_type = 0, msg_hdr = message_header_zero, msg_object = None\<rparr>"

text \<open>
  The messages from position \<open>p\<close> to the end \<open>e\<close> of the data in the cells of the buffer. The length in
  the header is read before it is known that the header has come in whole. The return code, where the
  loop stopped, and the node.
\<close>

function read_messages ::
    "('c, 'd, 'w, 's, 'k) spv_env \<Rightarrow> byte option list \<Rightarrow> nat \<Rightarrow> nat \<Rightarrow> int \<Rightarrow> ('w, 's) spv_node
      \<Rightarrow> (int \<times> nat \<times> ('w, 's) spv_node) res" where
  "read_messages E cs e p rc node =
     (if e \<le> p then Inr (rc, p, node)
      else andThen (cells_read (p + 16) 4 cs) (\<lambda>len.
        let n = unat (dec32 len)
        in if e < p + 24 + n then Inr (rc, p, node)
           else andThen (cells_read p (24 + n) cs) (\<lambda>d.
             if mh_magic (message_header_of d) \<noteq> spv_magic node then Inr (-1, p, node)
             else andThen (bitcoin_message_parse (env_hash E) (payloads E) message_zero d (Some (drop 24 d)) n) (\<lambda>(m, ok).
               if \<not> ok then Inr (-1, p, node)
               else andThen (on_message_handler E node m) (\<lambda>(rc1, node1).
                 read_messages E cs e (p + 24 + n) rc1 node1)))))"
  by pat_completeness auto
termination by (relation "measure (\<lambda>(E, cs, e, p, rc, node). e - p)") auto

declare read_messages.simps [simp del]

text \<open>What was not used moves to the start of the memory.\<close>

definition keep_rest :: "auto_buffer \<Rightarrow> byte option list \<Rightarrow> nat \<Rightarrow> auto_buffer" where
  "keep_rest b cs p =
     (let n = ab_length b - p
      in b\<lparr>ab_data := take n (drop p cs) @ drop n (ab_data b), ab_start_pos := 0, ab_length := n\<rparr>)"

text \<open>
  What the socket delivers: blocks of data, \<open>None\<close> for an error; no data for the end of the stream.
  Behind the last one reading would block.
\<close>

fun read_chunks ::
    "('c, 'd, 'w, 's, 'k) spv_env \<Rightarrow> ('w, 's) spv_node \<Rightarrow> bytes option list \<Rightarrow> ('w, 's) spv_ret" where
  "read_chunks E node [] = Inr (0, node)"
| "read_chunks E node (None # chunks) = Inr (-1, node)"
| "read_chunks E node (Some d # chunks) =
     (if d = [] then Inr (-1, node)
      else andThen (auto_buffer_push (spv_in_buf node) (Some d) (length d)) (\<lambda>(b, _).
        if ab_length b < 24 then read_chunks E (node\<lparr>spv_in_buf := b\<rparr>) chunks
        else case auto_buffer_get_data b of None \<Rightarrow> Inl Undefined
        | Some cs \<Rightarrow>
            andThen (read_messages E cs (ab_length b) 0 0 (node\<lparr>spv_in_buf := b\<rparr>)) (\<lambda>(rc, p, node1).
              let node2 = node1\<lparr>spv_in_buf := keep_rest b cs p\<rparr>
              in if rc = 0 then read_chunks E node2 chunks else Inr (rc, node2))))"

definition on_read ::
    "('c, 'd, 'w, 's, 'k) spv_env \<Rightarrow> ('w, 's) spv_node \<Rightarrow> bytes option list \<Rightarrow> ('w, 's) spv_ret" where
  "on_read E node chunks =
     andThen (read_chunks E node chunks) (\<lambda>(rc, node1).
       Inr (rc, if rc = 0 \<and> 0 < ab_length (spv_out_buf node1) then node1\<lparr>spv_pollout := True\<rparr> else node1))"

section \<open>Writing\<close>

text \<open>
  The numbers of bytes the socket accepts, 0 for an error or when it would block, as it does behind
  the last one. The return code, the position reached and the bytes that went out.
\<close>

fun write_loop :: "byte option list \<Rightarrow> nat \<Rightarrow> nat \<Rightarrow> nat list \<Rightarrow> (int \<times> nat \<times> bytes) res" where
  "write_loop cs p 0 results = Inr (0, p, [])"
| "write_loop cs p left [] = Inr (-1, p, [])"
| "write_loop cs p left (cb # results) =
     (if cb = 0 then Inr (-1, p, [])
      else let n = min cb left
      in andThen (cells_read p n cs) (\<lambda>d. andThen (write_loop cs (p + n) (left - n) results) (\<lambda>(rc, q, sent).
           Inr (rc, q, d @ sent))))"

definition on_write :: "('w, 's) spv_node \<Rightarrow> nat list \<Rightarrow> (int \<times> bytes \<times> ('w, 's) spv_node) res" where
  "on_write node results =
     (let b = spv_out_buf node;
          cs = (case auto_buffer_get_data b of None \<Rightarrow> [] | Some cs \<Rightarrow> cs)
      in andThen (write_loop cs 0 (ab_length b) results) (\<lambda>(rc, p, sent).
        let b1 = keep_rest b cs p
        in Inr (rc, sent, node\<lparr>spv_out_buf := b1, spv_pollout := spv_pollout node \<and> 0 < ab_length b1\<rparr>)))"

section \<open>Connecting\<close>

text \<open>The number at the start of a string; its last 16 bits are used.\<close>

definition digit_value :: "char \<Rightarrow> int option" where
  "digit_value c = (let n = of_char c :: int in if 48 \<le> n \<and> n \<le> 57 then Some (n - 48) else None)"

fun digits_value :: "int \<Rightarrow> string \<Rightarrow> int" where
  "digits_value v [] = v"
| "digits_value v (c # s) = (case digit_value c of None \<Rightarrow> v | Some d \<Rightarrow> digits_value (10 * v + d) s)"

definition c_atoi :: "string \<Rightarrow> int" where
  "c_atoi s =
     (let s1 = dropWhile (\<lambda>c. of_char c \<in> {9, 10, 11, 12, 13, 32 :: nat}) s
      in case s1 of
           [] \<Rightarrow> 0
         | c # r \<Rightarrow> if c = CHR ''-'' then - digits_value 0 r else if c = CHR ''+'' then digits_value 0 r else digits_value 0 s1)"

definition htobe16 :: "u16 \<Rightarrow> u16" where
  "htobe16 w = dec16 (rev (enc16 w))"

text \<open>
  The address of the receiver from the memory of the socket address. For IPv4 sixteen bytes are
  copied behind the twelfth byte of the address: the port, the services of the sender's address and
  two bytes of its address are overwritten with what follows the address of the socket.
\<close>

definition version_addresses :: "bytes \<Rightarrow> nat \<Rightarrow> u64 \<Rightarrow> u16 \<Rightarrow> (network_address_legacy \<times> network_address_legacy) res" where
  "version_addresses addr addr_len services port =
     (if addr_len = 28
      then andThen (mem_read 16 (drop 8 addr)) (\<lambda>ip.
        Inr (\<lparr>nl_services = services, nl_ip = ip, nl_port = htobe16 port\<rparr>, legacy_zero))
      else andThen (mem_read 16 (drop 4 addr)) (\<lambda>d.
        let r = replicate 12 0 @ d @ replicate 14 0;
            ip = (take 16 r)[10 := 0xff, 11 := 0xff]
        in Inr (\<lparr>nl_services = services, nl_ip = ip, nl_port = htobe16 port\<rparr>,
                \<lparr>nl_services = dec64 (drop 18 r), nl_ip = take 16 (drop 26 r), nl_port = 0\<rparr>)))"

text \<open>The first message, at the given time in seconds and nanoseconds.\<close>

definition add_message_version ::
    "('c, 'd, 'w, 's, 'k) spv_env \<Rightarrow> ('w, 's) spv_node \<Rightarrow> u32 \<Rightarrow> int \<Rightarrow> int \<Rightarrow> ('w, 's) spv_ret" where
  "add_message_version E node protocol_version tv_sec tv_nsec =
     (let services = 1 + 1024 + 8;
          user_agent = ascii ''/spv-node:0.1.0(protocol=70012)/''
      in case spv_port node of None \<Rightarrow> Inl Undefined | Some port \<Rightarrow>
        andThen (version_addresses (spv_addr node) (spv_addr_len node) services (of_int (c_atoi port))) (\<lambda>(addr_recv, addr_from).
          andThen (varstr_set None (Some user_agent) (of_nat (length user_agent))) (\<lambda>agent.
            let v = \<lparr>mv_version = (if protocol_version \<noteq> 0 then protocol_version else 70012), mv_services = services,
                     mv_timestamp = of_int tv_sec, mv_addr_recv = addr_recv, mv_addr_from = addr_from,
                     mv_nonce = of_int (tv_sec * 1000000 + tv_nsec div 1000), mv_user_agent = Some agent,
                     mv_start_height = of_int (bc_height (spv_chain node)), mv_relay = 1\<rparr>
            in case env_serialize E msg_version (Obj_version v) of
                 None \<Rightarrow> Inl Abort
               | Some payload \<Rightarrow>
                   if payload = [] then Inl Abort
                   else let h = \<lparr>mh_magic = spv_magic node, mh_command = c_strncpy 12 (c_string ''version''),
                                 mh_length = of_nat (length payload), mh_checksum = dec32 (hash256 (env_hash E) payload)\<rparr>
                   in andThen (push_out node (message_header_bytes h)) (\<lambda>(_, node1).
                     andThen (push_out node1 payload) (\<lambda>(_, node2). Inr (0, node2))))))"

section \<open>Configuration and context\<close>

definition s_network_type_names :: "string list" where
  "s_network_type_names = [''default'', ''mainnet'', ''testnet'', ''regtest'']"

definition bitcoin_network_type_to_string :: "int \<Rightarrow> string option" where
  "bitcoin_network_type_to_string t = (if t < 0 \<or> t \<ge> 4 then None else Some (s_network_type_names ! nat t))"

definition to_lower :: "char \<Rightarrow> char" where
  "to_lower c = (let n = of_char c :: nat in if 65 \<le> n \<and> n \<le> 90 then char_of (n + 32) else c)"

fun type_index :: "int \<Rightarrow> string \<Rightarrow> string list \<Rightarrow> int" where
  "type_index i name [] = -1"
| "type_index i name (s # r) = (if map to_lower s = map to_lower name then i else type_index (i + 1) name r)"

definition bitcoin_network_type_from_string :: "string \<Rightarrow> int" where
  "bitcoin_network_type_from_string name = type_index 0 name s_network_type_names"

text \<open>The values of the configuration, when it has them.\<close>

record spv_config =
  cf_fullnode :: "string option"
  cf_port :: "string option"
  cf_network_type :: "string option"
  cf_max_retries :: "int option"

definition generate_default_config :: spv_config where
  "generate_default_config = \<lparr>cf_fullnode = Some ''node1.cloud.c-apps.net'', cf_port = Some ''8333'',
     cf_network_type = Some ''mainnet'', cf_max_retries = None\<rparr>"

definition spv_node_load_config :: "('w, 's) spv_node \<Rightarrow> spv_config option \<Rightarrow> ('w, 's) spv_ret" where
  "spv_node_load_config node given =
     (let config = (case given of None \<Rightarrow> generate_default_config | Some c \<Rightarrow> c);
          node1 = node\<lparr>spv_host := cf_fullnode config, spv_port := cf_port config\<rparr>;
          network_type = (case cf_network_type config of None \<Rightarrow> ''mainnet'' | Some t \<Rightarrow> t);
          retries = (case cf_max_retries config of None \<Rightarrow> 0 | Some n \<Rightarrow> n);
          node2 = (if retries > 0 then node1\<lparr>spv_max_retries := retries\<rparr> else node1);
          t = bitcoin_network_type_from_string network_type;
          finish = (\<lambda>magic port. Inr (0, node2\<lparr>spv_magic := magic,
             spv_port := (case spv_port node2 of None \<Rightarrow> Some port | Some p \<Rightarrow> Some p)\<rparr>))
      in if t = -1 then Inl Abort
         else if t = 0 \<or> t = 1 then finish 0xD9B4BEF9 ''8333''
         else if t = 2 then finish 0x0709110B ''18333''
         else if t = 3 then finish 0xDAB5BFFA ''18444''
         else Inr (-1, node2))"

text \<open>A new context; the database is that of the application around it.\<close>

definition spv_node_context_init :: "'w work_ops \<Rightarrow> 's headers_db \<Rightarrow> ('w, 's) spv_node" where
  "spv_node_context_init W db =
     \<lparr>spv_host = None, spv_port = None, spv_addr = replicate 128 0, spv_addr_len = 0, spv_magic = 0,
      spv_chain = blockchain_init W (blockchain_zero W) None None, spv_connected = False, spv_pollout = False,
      spv_in_buf = auto_buffer_init 0, spv_out_buf = auto_buffer_init 0, spv_max_retries = 5,
      spv_send_headers_flag = False, spv_addrs_list = avl_tree_init, spv_callbacks = s_spv_node_callbacks,
      spv_protocol_version = 70015, spv_peer_version = 0, spv_peer_height = 0, spv_hdrs_db = db\<rparr>"

definition spv_node_context_cleanup :: "nat \<Rightarrow> ('w, 's) spv_node \<Rightarrow> ('w, 's) spv_node res" where
  "spv_node_context_cleanup fuel node =
     andThen (blockchain_cleanup fuel (spv_chain node)) (\<lambda>s.
       Inr (node\<lparr>spv_in_buf := auto_buffer_cleanup (spv_in_buf node), spv_out_buf := auto_buffer_cleanup (spv_out_buf node),
                 spv_addrs_list := snd (avl_tree_cleanup (spv_addrs_list node)), spv_chain := s\<rparr>))"

definition app_context_init :: "'w work_ops \<Rightarrow> 's \<Rightarrow> ('w, 's) spv_node" where
  "app_context_init W d = spv_node_context_init W (block_headers_db_init d)"

section \<open>Starting\<close>

text \<open>The headers of a page, with the hashes they are stored under; a header that is refused ends the program.\<close>

fun load_page ::
    "('c, 'd, 'w, 's, 'k) spv_env \<Rightarrow> ('w, 's) spv_node \<Rightarrow> nat \<Rightarrow> bytes list \<Rightarrow> block_header_record list
      \<Rightarrow> ('w, 's) spv_node res" where
  "load_page E node (Suc k) (hash # hashes) (r # records) =
     andThen (chain_add E node (Some hash) (rec_hdr r)) (\<lambda>(node1, ok).
       if ok then load_page E node1 k hashes records else Inl Abort)"
| "load_page E node 0 hashes records = Inr node"
| "load_page E node (Suc k) hashes records = Inl Undefined"

text \<open>Page after page while the call for the next page succeeds, with a bound on the number of calls.\<close>

fun load_headers :: "nat \<Rightarrow> ('c, 'd, 'w, 's, 'k) spv_env \<Rightarrow> ('w, 's) spv_node \<Rightarrow> ('w, 's) spv_node res" where
  "load_headers 0 E node = Inl Unfinished"
| "load_headers (Suc fuel) E node =
     andThen (headers_db_next (env_db E) (spv_hdrs_db node)) (\<lambda>(rc, db).
       let node1 = node\<lparr>spv_hdrs_db := db\<rparr>
       in if rc \<noteq> 0 then Inr node1
          else andThen (load_page E node1 (hd_num_records db) (hd_hashes db) (hd_records db)) (\<lambda>node2.
            load_headers fuel E node2))"

definition app_start :: "nat \<Rightarrow> ('c, 'd, 'w, 's, 'k) spv_env \<Rightarrow> ('w, 's) spv_node \<Rightarrow> ('w, 's) spv_node res" where
  "app_start fuel E node = load_headers fuel E (custom_init node)"

section \<open>The network loop\<close>

text \<open>
  What polling gives: nothing in time, an error, or what can be read, what can be written and
  whether the other side is gone.
\<close>

datatype poll_result = Timeout | Poll_failed | Ready "bytes option list option" "nat list option" bool

definition spv_close :: "('w, 's) spv_node \<Rightarrow> ('w, 's) spv_node" where
  "spv_close node = node\<lparr>spv_connected := False\<rparr>"

definition handle_ready ::
    "('c, 'd, 'w, 's, 'k) spv_env \<Rightarrow> ('w, 's) spv_node \<Rightarrow> bytes option list option \<Rightarrow> nat list option \<Rightarrow> bool
      \<Rightarrow> (bytes \<times> ('w, 's) spv_node) res" where
  "handle_ready E node chunks results gone =
     andThen (case chunks of None \<Rightarrow> Inr (0, node) | Some cs \<Rightarrow> on_read E node cs) (\<lambda>(rc, node1).
       andThen (case results of
           Some ws \<Rightarrow> if rc = 0 then on_write node1 ws else Inr (rc, [], node1)
         | None \<Rightarrow> Inr (rc, [], node1)) (\<lambda>(rc2, sent, node2).
         Inr (sent, if rc2 < 0 \<or> gone then spv_close node2 else node2)))"

text \<open>The loop of one connection, until polling fails or the connection is found closed; what went out.\<close>

fun connection_loop ::
    "('c, 'd, 'w, 's, 'k) spv_env \<Rightarrow> ('w, 's) spv_node \<Rightarrow> poll_result list \<Rightarrow> (bytes \<times> ('w, 's) spv_node) res" where
  "connection_loop E node [] = Inr ([], node)"
| "connection_loop E node (Timeout # polls) = (if spv_connected node then connection_loop E node polls else Inr ([], node))"
| "connection_loop E node (Poll_failed # polls) = Inr ([], node)"
| "connection_loop E node (Ready chunks results gone # polls) =
     andThen (handle_ready E (if 0 < ab_length (spv_out_buf node) then node\<lparr>spv_pollout := True\<rparr> else node)
         chunks results gone) (\<lambda>(sent, node1).
       andThen (connection_loop E node1 polls) (\<lambda>(sent2, node2). Inr (sent @ sent2, node2)))"

text \<open>An attempt to connect: the address of the other side, the time and the results of polling, or none when it fails.\<close>

type_synonym attempt = "(bytes \<times> nat \<times> int \<times> int \<times> poll_result list) option"

definition spv_node_connect ::
    "('c, 'd, 'w, 's, 'k) spv_env \<Rightarrow> ('w, 's) spv_node \<Rightarrow> bytes \<Rightarrow> nat \<Rightarrow> int \<Rightarrow> int \<Rightarrow> ('w, 's) spv_node res" where
  "spv_node_connect E node addr addr_len tv_sec tv_nsec =
     andThen (add_message_version E
         (node\<lparr>spv_addr := addr, spv_addr_len := addr_len, spv_connected := True,
              spv_in_buf := auto_buffer_cleanup (spv_in_buf node), spv_out_buf := auto_buffer_cleanup (spv_out_buf node)\<rparr>)
         0 tv_sec tv_nsec) (\<lambda>(_, node1). Inr (node1\<lparr>spv_pollout := True\<rparr>))"

fun run_attempts ::
    "('c, 'd, 'w, 's, 'k) spv_env \<Rightarrow> ('w, 's) spv_node \<Rightarrow> nat \<Rightarrow> attempt list \<Rightarrow> (bytes list \<times> ('w, 's) spv_node) res" where
  "run_attempts E node (Suc left) (Some (addr, addr_len, tv_sec, tv_nsec, polls) # attempts) =
     andThen (spv_node_connect E node addr addr_len tv_sec tv_nsec) (\<lambda>node1.
       andThen (connection_loop E node1 polls) (\<lambda>(sent, node2).
         andThen (run_attempts E node2 left attempts) (\<lambda>(rest, node3). Inr (sent # rest, node3))))"
| "run_attempts E node (Suc left) (None # attempts) = run_attempts E node left attempts"
| "run_attempts E node left attempts = Inr ([], node)"

definition spv_node_run ::
    "('c, 'd, 'w, 's, 'k) spv_env \<Rightarrow> ('w, 's) spv_node \<Rightarrow> attempt list \<Rightarrow> (bytes list \<times> ('w, 's) spv_node) res" where
  "spv_node_run E node attempts =
     (if spv_host node = None \<or> spv_port node = None then Inl Abort
      else run_attempts E node (nat (spv_max_retries node)) attempts)"

end
