(* ===== verification/SpvProps.thy ===== *)
theory SpvProps
  imports SpvNode
begin

text \<open>
  What the SPV node keeps, whatever comes in: the address book, the buffers, the chain and the table
  of handlers. The handlers do not look at the buffer the messages come from, so that reading can be
  compared with handling whole messages one after the other.
\<close>

section \<open>The address book\<close>

definition address_rank :: "network_address \<Rightarrow> nat" where
  "address_rank a = le_val (rev (na_ip a @ enc16 (na_port a)))"

abbreviation address_valid :: "network_address \<Rightarrow> bool" where
  "address_valid a \<equiv> length (na_ip a) = 16"

lemma memcmp_rank:
  "length a = length b \<Longrightarrow> (memcmp a b < 0 \<longleftrightarrow> le_val (rev a) < le_val (rev b)) \<and> (memcmp a b = 0 \<longleftrightarrow> le_val (rev a) = le_val (rev b))"
proof (induction a b rule: list_induct2)
  case (Cons x xs y ys)
  have bound: "le_val (rev xs) < 256 ^ length xs" "le_val (rev ys) < 256 ^ length xs"
    using le_val_lt [of "rev xs"] le_val_lt [of "rev ys"] Cons(1) by simp_all
  have apart: "p + 256 ^ k * a < q + 256 ^ k * b" if "p < 256 ^ k" "a < b" for p q a b k :: nat
  proof -
    have "256 ^ k * (a + 1) \<le> 256 ^ k * b" using that by (intro mult_le_mono2) simp
    then show ?thesis using that by (simp add: algebra_simps)
  qed
  consider "x = y" | "unat x < unat y" | "unat y < unat x" by (metis linorder_neqE_nat word_unat_eq_iff)
  then show ?case
  proof cases
    case 1
    then show ?thesis using Cons by (simp add: le_val_append)
  next
    case 2
    then show ?thesis using apart [OF bound(1) 2, of "le_val (rev ys)"] Cons(1)
      by (auto simp: le_val_append word_less_nat_alt)
  next
    case 3
    then show ?thesis using apart [OF bound(2) 3, of "le_val (rev xs)"] Cons(1)
      by (auto simp: le_val_append word_less_nat_alt)
  qed
qed simp

lemma address_rank_eq:
  assumes "address_valid a" "address_valid b"
  shows "address_rank a = address_rank b \<longleftrightarrow> na_ip a = na_ip b \<and> na_port a = na_port b"
proof -
  have "address_rank a = address_rank b \<longleftrightarrow> na_ip a @ enc16 (na_port a) = na_ip b @ enc16 (na_port b)"
    using memcmp_rank [of "na_ip a @ enc16 (na_port a)" "na_ip b @ enc16 (na_port b)"] assms
    by (auto simp: address_rank_def memcmp_eq)
  then show ?thesis using assms by (auto simp: enc_inj)
qed

interpretation addresses: key_order network_address_compare address_rank address_valid
proof
  fix a b assume "address_valid a" "address_valid b"
  then have "length (na_ip a @ enc16 (na_port a)) = length (na_ip b @ enc16 (na_port b))" by simp
  from memcmp_rank [OF this]
  show "network_address_compare a b < 0 \<longleftrightarrow> address_rank a < address_rank b"
    "network_address_compare a b = 0 \<longleftrightarrow> address_rank a = address_rank b"
    by (simp_all add: network_address_compare_def address_rank_def)
qed

text \<open>What the book says: the time and the services of an address with its port.\<close>

definition address_entry :: "network_address \<Rightarrow> (bytes \<times> u16) \<times> (u32 \<times> u64)" where
  "address_entry a = ((na_ip a, na_port a), (na_time a, na_services a))"

definition address_book :: "network_address avl_tree \<Rightarrow> bytes \<times> u16 \<Rightarrow> (u32 \<times> u64) option" where
  "address_book t = map_of (map address_entry (inorder (avl_root t)))"

lemma address_entry_eq: "address_valid a \<Longrightarrow> address_valid b \<Longrightarrow>
    fst (address_entry a) = fst (address_entry b) \<longleftrightarrow> address_rank a = address_rank b"
  by (simp add: address_rank_eq address_entry_def)

lemma sorted_distinct_entries:
  "addresses.sorted_keys xs \<Longrightarrow> distinct (map (\<lambda>a. fst (address_entry a)) xs)"
proof (induction xs)
  case (Cons a xs)
  have "fst (address_entry a) \<noteq> fst (address_entry b)" if "b \<in> set xs" for b
    using that Cons.prems address_entry_eq [of a b] by (auto simp: addresses.sorted_keys_def)
  then show ?case using Cons by auto
qed simp

text \<open>A map from sorted entries depends on the set of the entries only.\<close>

lemma book_from_set:
  assumes "addresses.sorted_keys xs"
  shows "map_of (map address_entry xs) k = Some v \<longleftrightarrow> (\<exists>a \<in> set xs. address_entry a = (k, v))"
  using map_of_eq_Some_iff [of "map address_entry xs" k v] sorted_distinct_entries [OF assms]
  by (force simp: comp_def)

lemma inorder_map: "inorder (map_avl_node f t) = map f (inorder t)"
  by (induction t) auto

lemma avl_ok_map: "avl_ok (map_avl_node f t) = avl_ok t" "height_of (map_avl_node f t) = height_of t"
proof -
  show height: "height_of (map_avl_node f t) = height_of t" for t by (cases t) auto
  show "avl_ok (map_avl_node f t) = avl_ok t" by (induction t) (auto simp: height)
qed

lemma sorted_keys_map:
  assumes "addresses.sorted_keys xs" "\<And>a. a \<in> set xs \<Longrightarrow> na_ip (f a) = na_ip a \<and> na_port (f a) = na_port a"
  shows "addresses.sorted_keys (map f xs)"
proof -
  have rank: "address_rank (f a) = address_rank a" if "a \<in> set xs" for a
    using assms(2) [OF that] by (simp add: address_rank_def)
  then have "sorted_wrt (\<lambda>a b. address_rank (f a) < address_rank (f b)) xs"
    using assms(1) by (auto simp: addresses.sorted_keys_def intro: sorted_wrt_mono_rel [of xs "\<lambda>a b. address_rank a < address_rank b"])
  then show ?thesis using assms by (auto simp: addresses.sorted_keys_def sorted_wrt_map)
qed

lemma set_ins_keys: "find_keys cmp x xs = None \<Longrightarrow> set (ins_keys cmp x xs) = insert x (set xs)"
  by (induction xs) (auto split: if_splits)

lemma map_eqI: "(\<And>k v. f k = Some v \<longleftrightarrow> g k = Some v) \<Longrightarrow> f = g"
  by (rule ext) (metis not_None_eq)

lemma save_address_book:
  assumes "addresses.tree_ok t" "address_valid a"
  shows "post (\<lambda>t'. addresses.tree_ok t' \<and> address_book t' = (address_book t)((na_ip a, na_port a) \<mapsto> (na_time a, na_services a)))
    (save_address t a)"
proof (rule postI)
  fix t' assume save: "save_address t a = Inr t'"
  let ?xs = "inorder (avl_root t)" and ?k = "(na_ip a, na_port a)" and ?v = "(na_time a, na_services a)"
  have sorted: "addresses.sorted_keys ?xs" and ok: "avl_ok (avl_root t)" "avl_count t = int (length ?xs)"
    using assms(1) by (simp_all add: addresses.tree_ok_def)
  obtain found t1 where add: "avl_tree_add network_address_compare t a = Inr (found, t1)"
    using save by (auto simp: save_address_def res_simps)
  note added = postD [OF addresses.add_returns [OF assms] add, unfolded prod.case]
  have valid: "address_valid b" if "b \<in> set ?xs" for b using sorted that by (simp add: addresses.sorted_keys_def)
  have cmp: "network_address_compare a b = 0 \<longleftrightarrow> fst (address_entry b) = ?k" if "b \<in> set ?xs" for b
    using addresses.cmp_zero [OF assms(2) valid [OF that]] address_rank_eq [OF assms(2) valid [OF that]]
    by (auto simp: address_entry_def)
  show "addresses.tree_ok t' \<and> address_book t' = (address_book t)(?k \<mapsto> ?v)"
  proof (cases "find_keys network_address_compare a ?xs")
    case None
    then have none: "fst (address_entry b) \<noteq> ?k" if "b \<in> set ?xs" for b
      using cmp [OF that] that by (simp add: find_None_iff)
    from None added save add have t': "t' = t1" and t1: "addresses.tree_ok t1"
        "inorder (avl_root t1) = ins_keys network_address_compare a ?xs"
      by (auto simp: save_address_def)
    have s1: "addresses.sorted_keys (inorder (avl_root t1))" using t1(1) by (simp add: addresses.tree_ok_def)
    have "address_book t' = (address_book t)(?k \<mapsto> ?v)"
    proof (rule map_eqI)
      fix k v
      have "(\<exists>c \<in> set (inorder (avl_root t1)). address_entry c = (k, v)) \<longleftrightarrow>
          (if k = ?k then v = ?v else \<exists>c \<in> set ?xs. address_entry c = (k, v))"
        unfolding t1(2) set_ins_keys [of network_address_compare a ?xs, OF None] using none by (force simp: address_entry_def)
      then show "address_book t' k = Some v \<longleftrightarrow> ((address_book t)(?k \<mapsto> ?v)) k = Some v"
        unfolding address_book_def t' book_from_set [OF s1] fun_upd_apply
        by (simp add: book_from_set [OF sorted] eq_commute [of v])
    qed
    then show ?thesis using t' t1(1) by blast
  next
    case (Some b)
    then have b: "b \<in> set ?xs" "fst (address_entry b) = ?k" using cmp by (auto simp: find_Some_iff)
    define f where "f = (\<lambda>k. if k = b then k\<lparr>na_time := na_time a, na_services := na_services a\<rparr> else k)"
    have t1: "inorder (avl_root t1) = ?xs" "addresses.tree_ok t1" "found = b" using Some added by simp_all
    have fb: "f b = a" using b(2) by (cases a; cases b) (simp add: address_entry_def f_def)
    have t': "addresses.tree_ok t' \<and> inorder (avl_root t') = map f ?xs"
    proof (cases "found = a")
      case True
      then have "map f ?xs = ?xs" using fb t1(3) by (intro map_idI) (auto simp: f_def)
      then show ?thesis using True save add t1 by (simp add: save_address_def)
    next
      case False
      then have "t' = t1\<lparr>avl_root := map_avl_node f (avl_root t1)\<rparr>" using save add t1(3) by (simp add: save_address_def f_def)
      then show ?thesis
        using t1 sorted_keys_map [of "inorder (avl_root t1)" f]
        by (simp add: addresses.tree_ok_def inorder_map avl_ok_map f_def)
    qed
    have other: "fst (address_entry c) = ?k \<longleftrightarrow> c = b" if "c \<in> set ?xs" for c
      using sorted_distinct_entries [OF sorted] that b by (auto simp: distinct_map inj_on_def)
    have mapped: "address_entry (f c) = (if fst (address_entry c) = ?k then (?k, ?v) else address_entry c)" if "c \<in> set ?xs" for c
    proof (cases "c = b")
      case True
      then show ?thesis using fb b(2) by (simp add: address_entry_def)
    next
      case False
      then show ?thesis using other [OF that] by (simp add: f_def)
    qed
    have s1: "addresses.sorted_keys (map f ?xs)"
      using t' [THEN conjunct1] unfolding t' [THEN conjunct2, symmetric] by (simp add: addresses.tree_ok_def)
    have "address_book t' = (address_book t)(?k \<mapsto> ?v)"
    proof (rule map_eqI)
      fix k v
      have "(\<exists>c \<in> set ?xs. address_entry (f c) = (k, v)) \<longleftrightarrow>
          (if k = ?k then v = ?v else \<exists>c \<in> set ?xs. address_entry c = (k, v))"
      proof (cases "k = ?k")
        case True
        then show ?thesis using mapped b by (metis (no_types, lifting) prod.collapse prod.inject)
      next
        case False
        have "address_entry (f c) = (k, v) \<longleftrightarrow> address_entry c = (k, v)" if "c \<in> set ?xs" for c
          using mapped [OF that] False by (cases "address_entry c") auto
        then show ?thesis using False by auto
      qed
      then show "address_book t' k = Some v \<longleftrightarrow> ((address_book t)(?k \<mapsto> ?v)) k = Some v"
        unfolding address_book_def t' [THEN conjunct2] book_from_set [OF s1] fun_upd_apply
        by (simp add: book_from_set [OF sorted] eq_commute [of v])
    qed
    then show ?thesis using t' by blast
  qed
qed

lemma save_addresses_book:
  "addresses.tree_ok t \<Longrightarrow> \<forall>a \<in> set addrs. address_valid a \<Longrightarrow>
    post (\<lambda>t'. addresses.tree_ok t' \<and> address_book t' = address_book t ++ map_of (map address_entry (rev (take k addrs)))
      \<and> k \<le> length addrs)
      (save_addresses t k addrs)"
proof (induction t k addrs rule: save_addresses.induct)
  case (3 t k a addrs)
  show ?case
  proof (rule postI)
    fix t' assume "save_addresses t (Suc k) (a # addrs) = Inr t'"
    then obtain t1 where t1: "save_address t a = Inr t1" "save_addresses t1 k addrs = Inr t'" by (auto simp: res_simps)
    have one: "addresses.tree_ok t1" "address_book t1 = (address_book t)((na_ip a, na_port a) \<mapsto> (na_time a, na_services a))"
      using postD [OF save_address_book [OF 3(2)] t1(1)] 3(3) by simp_all
    have rest: "addresses.tree_ok t'" "address_book t' = address_book t1 ++ map_of (map address_entry (rev (take k addrs)))"
      "k \<le> length addrs"
      using postD [OF 3(1) [OF t1(1) one(1)] t1(2)] 3(3) by simp_all
    show "addresses.tree_ok t' \<and> address_book t' = address_book t ++ map_of (map address_entry (rev (take (Suc k) (a # addrs))))
      \<and> Suc k \<le> length (a # addrs)"
      unfolding rest(2) one(2) using rest(1,3) by (simp add: address_entry_def [of a])
  qed
qed simp_all

end
