(* ===== verification/SpvRead.thy ===== *)
theory SpvRead
  imports SpvProps
begin

text \<open>
  How the SPV node reads: the handlers do not look at the buffer the messages come from and leave it
  alone, every handler comes down to a few changes of the node, and what they keep is kept by reading.
  Reading a stream in blocks is compared with handling whole messages one after the other.
\<close>

section \<open>Handlers and the input buffer\<close>

named_theorems input_frame

definition mapRes :: "('a \<Rightarrow> 'b) \<Rightarrow> 'a res \<Rightarrow> 'b res" where
  "mapRes f r = andThen r (\<lambda>x. Inr (f x))"

lemma mapRes_simps [simp]: "mapRes f (Inr x) = Inr (f x)" "mapRes f (Inl e) = Inl e"
  by (simp_all add: mapRes_def)

lemma mapRes_andThen: "mapRes f (andThen r g) = andThen r (\<lambda>x. mapRes f (g x))"
  by (cases r) simp_all

lemma andThen_mapRes: "andThen (mapRes f r) g = andThen r (\<lambda>x. g (f x))"
  by (cases r) simp_all

lemma mapRes_cases:
  "mapRes f (if c then r1 else r2) = (if c then mapRes f r1 else mapRes f r2)"
  "mapRes f (case v of None \<Rightarrow> r1 | Some x \<Rightarrow> g x) = (case v of None \<Rightarrow> mapRes f r1 | Some x \<Rightarrow> mapRes f (g x))"
  "mapRes f (case_object g1 g2 g3 g4 g5 g6 g7 g8 g9 g10 obj) = case_object (\<lambda>x. mapRes f (g1 x)) (\<lambda>x. mapRes f (g2 x))
     (\<lambda>x. mapRes f (g3 x)) (\<lambda>x. mapRes f (g4 x)) (\<lambda>x. mapRes f (g5 x)) (\<lambda>x. mapRes f (g6 x)) (\<lambda>x. mapRes f (g7 x))
     (\<lambda>x. mapRes f (g8 x)) (\<lambda>x. mapRes f (g9 x)) (\<lambda>x. mapRes f (g10 x)) obj"
  by (simp_all split: option.split object.split)

lemmas frame_simps = mapRes_andThen andThen_mapRes mapRes_cases case_prod_beta' Let_def

abbreviation swap_in :: "auto_buffer \<Rightarrow> 'a \<times> ('w, 's) spv_node \<Rightarrow> 'a \<times> ('w, 's) spv_node" where
  "swap_in b \<equiv> \<lambda>(x, node). (x, node\<lparr>spv_in_buf := b\<rparr>)"

lemma push_out_in [input_frame]: "push_out (node\<lparr>spv_in_buf := b\<rparr>) d = mapRes (swap_in b) (push_out node d)"
  by (cases node) (simp add: push_out_def frame_simps cong: if_cong option.case_cong object.case_cong)

lemma send_message_in [input_frame]:
  "spv_node_send_message E (node\<lparr>spv_in_buf := b\<rparr>) m = mapRes (swap_in b) (spv_node_send_message E node m)"
  by (cases node) (simp add: spv_node_send_message_def frame_simps split: option.split cong: if_cong option.case_cong object.case_cong)

lemma send_verack_in [input_frame]:
  "send_message_verack (node\<lparr>spv_in_buf := b\<rparr>) m = mapRes (swap_in b) (send_message_verack node m)"
  by (simp add: send_message_verack_def frame_simps input_frame cong: if_cong option.case_cong object.case_cong)

lemma send_pong_in [input_frame]:
  "send_message_pong (node\<lparr>spv_in_buf := b\<rparr>) m = mapRes (swap_in b) (send_message_pong node m)"
  by (simp add: send_message_pong_def frame_simps input_frame cong: if_cong option.case_cong object.case_cong)

lemma peer_in: "node\<lparr>spv_in_buf := b, spv_peer_version := v, spv_peer_height := h\<rparr>
    = node\<lparr>spv_peer_version := v, spv_peer_height := h, spv_in_buf := b\<rparr>"
  by (cases node) simp

lemma version_in [input_frame]:
  "on_message_version (node\<lparr>spv_in_buf := b\<rparr>) m = mapRes (swap_in b) (on_message_version node m)"
  by (simp add: on_message_version_def peer_in input_frame split: option.split object.split cong: if_cong option.case_cong object.case_cong)

lemma addr_in [input_frame]:
  "on_message_addr (node\<lparr>spv_in_buf := b\<rparr>) m = mapRes (swap_in b) (on_message_addr node m)"
  by (cases node) (simp add: on_message_addr_def frame_simps split: option.split object.split cong: if_cong option.case_cong object.case_cong)

lemma flag_in: "node\<lparr>spv_in_buf := b, spv_send_headers_flag := f\<rparr> = node\<lparr>spv_send_headers_flag := f, spv_in_buf := b\<rparr>"
  by (cases node) simp

lemma node_handler_in [input_frame]:
  "node_handler t (node\<lparr>spv_in_buf := b\<rparr>) m = mapRes (swap_in b) (node_handler t node m)"
  by (simp add: node_handler_def flag_in input_frame)

lemma chain_add_in [input_frame]:
  "chain_add E (node\<lparr>spv_in_buf := b\<rparr>) claimed h = mapRes (\<lambda>(n, ok). (n\<lparr>spv_in_buf := b\<rparr>, ok)) (chain_add E node claimed h)"
  by (cases node) (simp add: chain_add_def frame_simps cong: if_cong option.case_cong object.case_cong)

lemma send_getheaders_in [input_frame]:
  "send_getheaders E (node\<lparr>spv_in_buf := b\<rparr>) magic k = mapRes (swap_in b) (send_getheaders E node magic k)"
  by (simp add: send_getheaders_def common_version_def frame_simps input_frame
      split: option.split object.split cong: if_cong option.case_cong object.case_cong)

lemma add_headers_in [input_frame]:
  "add_headers E (node\<lparr>spv_in_buf := b\<rparr>) k hs = mapRes (\<lambda>n. n\<lparr>spv_in_buf := b\<rparr>) (add_headers E node k hs)"
proof (induction E node k hs rule: add_headers.induct)
  case (3 E node k h txn_count hdrs)
  show ?case
  proof (cases "chain_add E node None h")
    case (Inr r)
    then show ?thesis using 3 [OF Inr] by (cases r) (simp add: input_frame)
  qed (simp add: input_frame)
qed simp_all

lemma app_handler_in [input_frame]:
  "app_handler E t (node\<lparr>spv_in_buf := b\<rparr>) m = mapRes (swap_in b) (app_handler E t node m)"
  by (simp add: app_handler_def app_on_message_verack_def app_on_message_inv_def app_on_message_headers_def
      frame_simps input_frame split: option.split object.split cong: if_cong option.case_cong object.case_cong)

lemma handler_in [input_frame]:
  "on_message_handler E (node\<lparr>spv_in_buf := b\<rparr>) m = mapRes (swap_in b) (on_message_handler E node m)"
  by (simp add: on_message_handler_def input_frame split: callback.split cong: if_cong option.case_cong object.case_cong)

lemma handler_keeps_in:
  assumes "on_message_handler E node m = Inr (rc, node')"
  shows "spv_in_buf node' = spv_in_buf node"
proof -
  have self: "node\<lparr>spv_in_buf := spv_in_buf node\<rparr> = node" by simp
  have "node' = node'\<lparr>spv_in_buf := spv_in_buf node\<rparr>"
    using handler_in [where E = E and node = node and b = "spv_in_buf node" and m = m] assms unfolding self by simp
  from arg_cong [OF this, of spv_in_buf] show ?thesis by simp
qed

text \<open>Operations that do nothing but put bytes behind those that wait to be written.\<close>

definition only_pushed :: "('w, 's) spv_node \<Rightarrow> ('w, 's) spv_node \<Rightarrow> bool" where
  "only_pushed node n \<longleftrightarrow> (\<exists>b. n = node\<lparr>spv_out_buf := b\<rparr>
     \<and> (ab_wf (spv_out_buf node) \<longrightarrow> ab_wf b \<and> (\<exists>x. ab_content b = ab_content (spv_out_buf node) @ x)))"

lemma only_pushed_refl [simp]: "only_pushed node node"
  by (auto simp: only_pushed_def intro: exI [of _ "spv_out_buf node"])

lemma push_only:
  "auto_buffer_push (spv_out_buf node) (Some d) n = Inr (b, ok) \<Longrightarrow> only_pushed node (node\<lparr>spv_out_buf := b\<rparr>)"
  unfolding only_pushed_def using push_wf(1,4) by blast

lemma pushed_push_out [dest]: "push_out node d = Inr (rc, n) \<Longrightarrow> only_pushed node n"
  by (auto simp: push_out_def res_simps intro!: push_only)

lemma pushed_send [dest]: "spv_node_send_message E node m = Inr (rc, n) \<Longrightarrow> only_pushed node n"
  by (auto simp: spv_node_send_message_def res_simps intro!: push_only split: option.splits)

lemma pushed_replies [dest]:
  "send_message_verack node m = Inr (rc, n) \<Longrightarrow> only_pushed node n"
  "send_message_pong node m = Inr (rc, n) \<Longrightarrow> only_pushed node n"
  by (auto simp: send_message_verack_def send_message_pong_def Let_def res_simps split: if_splits)

lemma pushed_getheaders [dest]:
  assumes "send_getheaders E node magic k = Inr (rc, n)"
  shows "only_pushed node n"
proof -
  obtain m where "bitcoin_message_new (payloads E) magic msg_getheaders = Inr m"
    using assms by (auto simp: send_getheaders_def res_simps)
  moreover obtain hashes count where "blockchain_get_known_hashes (spv_chain node) k = (hashes, count)" by fastforce
  moreover obtain g where "msg_object m = Some (Obj_getheaders g)"
    using assms calculation by (cases "msg_object m"; cases "the (msg_object m)") (simp_all add: send_getheaders_def)
  ultimately show ?thesis
    using assms by (auto simp: send_getheaders_def res_simps split: if_splits option.splits)
qed

lemma pushed_app [dest]:
  "app_on_message_verack E node m = Inr (rc, n) \<Longrightarrow> only_pushed node n"
  "app_on_message_inv E node m = Inr (rc, n) \<Longrightarrow> only_pushed node n"
  subgoal by (auto simp: app_on_message_verack_def res_simps)
  subgoal by (cases "msg_object m"; cases "the (msg_object m)") (auto simp: app_on_message_inv_def res_simps)
  done

text \<open>What the handlers come down to: a change of the node, then bytes for the other side.\<close>

lemma add_headers_cases:
  "add_headers E node k hs = Inr n \<Longrightarrow> \<exists>s db. n = node\<lparr>spv_chain := s, spv_hdrs_db := db\<rparr>"
proof (induction E node k hs arbitrary: n rule: add_headers.induct)
  case (1 E node hdrs)
  then show ?case by (auto intro!: exI [of _ "spv_chain node"] exI [of _ "spv_hdrs_db node"])
next
  case (3 E node k h txn_count hdrs)
  then obtain n1 ok where add: "chain_add E node None h = Inr (n1, ok)" and rest: "(if ok then add_headers E n1 k hdrs else Inr n1) = Inr n"
    by (auto simp: res_simps)
  obtain s db where n1: "n1 = node\<lparr>spv_chain := s, spv_hdrs_db := db\<rparr>"
    using add by (auto simp: chain_add_def Let_def res_simps)
  show ?case
  proof (cases ok)
    case True
    then show ?thesis using 3(1) [OF add refl True] rest n1 by auto
  next
    case False
    then show ?thesis using rest n1 by auto
  qed
qed simp

lemma handler_cases:
  assumes "on_message_handler E node m = Inr (rc, n)"
  obtains (pushed) "only_pushed node n"
    | (version) v where "msg_object m = Some (Obj_version v)"
        "only_pushed (node\<lparr>spv_peer_version := mv_version v, spv_peer_height := mv_start_height v\<rparr>) n"
    | (addr) a t where "msg_object m = Some (Obj_addr a)"
        "save_addresses (spv_addrs_list node) (nat (ma_count a)) (ma_addrs a) = Inr t" "n = node\<lparr>spv_addrs_list := t\<rparr>"
    | (sendheaders) "n = node\<lparr>spv_send_headers_flag := True\<rparr>"
    | (headers) hs node1 where "msg_object m = Some (Obj_headers hs)"
        "add_headers E node (nat (mb_count hs)) (mb_hdrs hs) = Inr node1" "only_pushed node1 n"
proof -
  have "n = node \<or> (\<exists>t. node_handler t node m = Inr (rc, n)) \<or> (\<exists>t. app_handler E t node m = Inr (rc, n))"
    using assms by (auto simp: on_message_handler_def split: if_split_asm callback.split_asm)
  then consider "n = node" | t where "node_handler t node m = Inr (rc, n)" | t where "app_handler E t node m = Inr (rc, n)"
    by blast
  then show thesis
  proof cases
    case 1
    then show ?thesis using pushed by simp
  next
    case (2 t)
    then have "n = node \<or> on_message_version node m = Inr (rc, n) \<or> on_message_addr node m = Inr (rc, n)
        \<or> send_message_pong node m = Inr (rc, n) \<or> n = node\<lparr>spv_send_headers_flag := True\<rparr>"
      by (simp add: node_handler_def split: if_split_asm)
    then consider "n = node" | "on_message_version node m = Inr (rc, n)" | "on_message_addr node m = Inr (rc, n)"
        | "send_message_pong node m = Inr (rc, n)" | "n = node\<lparr>spv_send_headers_flag := True\<rparr>"
      by blast
    then show ?thesis
    proof cases
      case 2
      then show ?thesis
        using version by (cases "msg_object m"; cases "the (msg_object m)") (auto simp: on_message_version_def)
    next
      case 3
      then show ?thesis
        using addr by (cases "msg_object m"; cases "the (msg_object m)") (auto simp: on_message_addr_def res_simps)
    qed (use pushed sendheaders in auto)
  next
    case (3 t)
    then have "n = node \<or> app_on_message_verack E node m = Inr (rc, n) \<or> app_on_message_inv E node m = Inr (rc, n)
        \<or> app_on_message_headers E node m = Inr (rc, n)"
      by (simp add: app_handler_def split: if_split_asm)
    then consider "n = node" | "app_on_message_verack E node m = Inr (rc, n)" | "app_on_message_inv E node m = Inr (rc, n)"
        | "app_on_message_headers E node m = Inr (rc, n)"
      by blast
    then show ?thesis
    proof cases
      case 4
      then show ?thesis
      proof (cases "\<exists>hs. msg_object m = Some (Obj_headers hs)")
        case True
        then obtain hs where hs: "msg_object m = Some (Obj_headers hs)" by blast
        show ?thesis
        proof (cases "mb_count hs \<le> 0")
          case True
          then have "n = node" using 4 hs by (auto simp: app_on_message_headers_def split: if_splits)
          then show ?thesis using pushed by simp
        next
          case False
          then obtain node1 d where "add_headers E node (nat (mb_count hs)) (mb_hdrs hs) = Inr node1"
              "send_getheaders E node1 (mh_magic (message_header_of d)) 100 = Inr (rc, n)"
            using 4 hs by (auto simp: app_on_message_headers_def res_simps split: if_splits)
          then show ?thesis using headers [OF hs] by blast
        qed
      next
        case False
        then show ?thesis
          using 4 pushed by (cases "msg_object m"; cases "the (msg_object m)") (auto simp: app_on_message_headers_def)
      qed
    qed (use pushed in auto)
  qed
qed

section \<open>What every node keeps\<close>

definition callback_type :: "callback \<Rightarrow> int" where
  "callback_type c = (case c of Node_handler t \<Rightarrow> t | App_handler t \<Rightarrow> t)"

definition node_ok :: "'w work_ops \<Rightarrow> bytes \<Rightarrow> ('w, 's) spv_node \<Rightarrow> bool" where
  "node_ok W start node \<longleftrightarrow> ab_wf (spv_in_buf node) \<and> ab_wf (spv_out_buf node) \<and> chain_ok W start (spv_chain node)
     \<and> addresses.tree_ok (spv_addrs_list node) \<and> map callback_type (spv_callbacks node) = [0..30]"

text \<open>Addresses are arrays of 16 bytes.\<close>

definition typed_object :: "object \<Rightarrow> bool" where
  "typed_object obj = (case obj of Obj_addr a \<Rightarrow> \<forall>x \<in> set (ma_addrs a). address_valid x | _ \<Rightarrow> True)"

definition typed_env :: "('c, 'd, 'w, 's, 'k) spv_env \<Rightarrow> bool" where
  "typed_env E \<longleftrightarrow> (\<forall>t body obj. env_parse E t body = Some obj \<longrightarrow> typed_object obj)"

lemma node_ok_pushed: "node_ok W start node \<Longrightarrow> only_pushed node n \<Longrightarrow> node_ok W start n"
  by (auto simp: node_ok_def only_pushed_def)

lemma chain_add_ok:
  assumes "chain_ok (env_work E) start (spv_chain node)" "chain_add E node claimed h = Inr (n, ok)"
  shows "chain_ok (env_work E) start (spv_chain n)"
  using assms(2) postD [OF chain_ok_add [OF assms(1)]] by (auto simp: chain_add_def Let_def res_simps)

lemma add_headers_ok:
  "chain_ok (env_work E) start (spv_chain node) \<Longrightarrow> add_headers E node k hs = Inr n \<Longrightarrow> chain_ok (env_work E) start (spv_chain n)"
proof (induction E node k hs arbitrary: n rule: add_headers.induct)
  case (3 E node k h txn_count hdrs)
  then obtain n1 ok where add: "chain_add E node None h = Inr (n1, ok)" and rest: "(if ok then add_headers E n1 k hdrs else Inr n1) = Inr n"
    by (auto simp: res_simps)
  have "chain_ok (env_work E) start (spv_chain n1)" by (rule chain_add_ok [OF 3(2) add])
  then show ?case using rest 3(1) [OF add refl] by (cases ok) auto
qed simp_all

lemma handler_ok:
  assumes "node_ok (env_work E) start node" "\<And>obj. msg_object m = Some obj \<Longrightarrow> typed_object obj"
    "on_message_handler E node m = Inr (rc, n)"
  shows "node_ok (env_work E) start n"
  using assms(3)
proof (cases rule: handler_cases)
  case pushed
  then show ?thesis using assms(1) by (rule node_ok_pushed [rotated])
next
  case (version v)
  show ?thesis by (rule node_ok_pushed [OF _ version(2)]) (use assms(1) in \<open>simp add: node_ok_def\<close>)
next
  case (addr a t)
  have "\<forall>x \<in> set (ma_addrs a). address_valid x" using assms(2) [OF addr(1)] by (simp add: typed_object_def)
  moreover have "addresses.tree_ok (spv_addrs_list node)" using assms(1) by (simp add: node_ok_def)
  ultimately have "addresses.tree_ok t" using postD [OF save_addresses_book addr(2)] by blast
  then show ?thesis using assms(1) addr(3) by (simp add: node_ok_def)
next
  case sendheaders
  then show ?thesis using assms(1) by (simp add: node_ok_def)
next
  case (headers hs node1)
  obtain s db where node1: "node1 = node\<lparr>spv_chain := s, spv_hdrs_db := db\<rparr>" using add_headers_cases [OF headers(2)] by blast
  have "chain_ok (env_work E) start (spv_chain node1)"
    by (rule add_headers_ok [OF _ headers(2)]) (use assms(1) in \<open>simp add: node_ok_def\<close>)
  then have "node_ok (env_work E) start node1" using assms(1) by (simp add: node_ok_def node1)
  then show ?thesis by (rule node_ok_pushed [OF _ headers(3)])
qed

lemma parsed_object:
  assumes "typed_env E" "bitcoin_message_parse P (payloads E) message_zero d p n = Inr (m, ok)" "msg_object m = Some obj"
  shows "typed_object obj"
  using assms by (auto simp: bitcoin_message_parse_def bitcoin_message_clear_def message_zero_def Let_def res_simps typed_env_def
      payloads_def split: if_splits)

lemma read_messages_cases:
  assumes "read_messages E cs e p rc node = Inr (rc', q, n)"
  shows "(rc' = rc \<or> rc' = -1) \<and> q = p \<and> n = node
    \<or> (\<exists>d p1 m ok rc1 n1. p < p1 \<and> p1 \<le> e
         \<and> bitcoin_message_parse (env_hash E) (payloads E) message_zero d (Some (drop 24 d)) (p1 - (p + 24)) = Inr (m, ok)
         \<and> on_message_handler E node m = Inr (rc1, n1) \<and> read_messages E cs e p1 rc1 n1 = Inr (rc', q, n))"
proof (cases "e \<le> p")
  case True
  then show ?thesis using assms by (simp add: read_messages.simps)
next
  case False
  note step = assms [unfolded read_messages.simps [of E cs e p rc node] if_not_P [OF False] andThen_Inr_iff]
  then obtain len where len: "(let n = unat (dec32 len) in
      if e < p + 24 + n then Inr (rc, p, node)
      else andThen (cells_read p (24 + n) cs) (\<lambda>d.
        if mh_magic (message_header_of d) \<noteq> spv_magic node then Inr (-1, p, node)
        else andThen (bitcoin_message_parse (env_hash E) (payloads E) message_zero d (Some (drop 24 d)) n) (\<lambda>(m, ok).
          if \<not> ok then Inr (-1, p, node)
          else andThen (on_message_handler E node m) (\<lambda>(rc1, node1).
            read_messages E cs e (p + 24 + n) rc1 node1)))) = Inr (rc', q, n)"
    by blast
  let ?n = "unat (dec32 len)"
  show ?thesis
  proof (cases "e < p + 24 + ?n")
    case True
    then show ?thesis using len by (simp add: Let_def)
  next
    case long: False
    then obtain d where d: "(if mh_magic (message_header_of d) \<noteq> spv_magic node then Inr (-1, p, node)
        else andThen (bitcoin_message_parse (env_hash E) (payloads E) message_zero d (Some (drop 24 d)) ?n) (\<lambda>(m, ok).
          if \<not> ok then Inr (-1, p, node)
          else andThen (on_message_handler E node m) (\<lambda>(rc1, node1).
            read_messages E cs e (p + 24 + ?n) rc1 node1))) = Inr (rc', q, n)"
      using len by (auto simp: Let_def andThen_Inr_iff)
    show ?thesis
    proof (cases "mh_magic (message_header_of d) = spv_magic node")
      case True
      then obtain m ok where parse: "bitcoin_message_parse (env_hash E) (payloads E) message_zero d (Some (drop 24 d)) ?n = Inr (m, ok)"
          and rest: "(if \<not> ok then Inr (-1, p, node)
          else andThen (on_message_handler E node m) (\<lambda>(rc1, node1).
            read_messages E cs e (p + 24 + ?n) rc1 node1)) = Inr (rc', q, n)"
        using d by (auto simp: andThen_Inr_iff)
      show ?thesis
      proof (cases ok)
        case True
        then obtain rc1 n1 where "on_message_handler E node m = Inr (rc1, n1)" "read_messages E cs e (p + 24 + ?n) rc1 n1 = Inr (rc', q, n)"
          using rest by (auto simp: andThen_Inr_iff)
        moreover have "p + 24 + ?n - (p + 24) = ?n" "p < p + 24 + ?n" "p + 24 + ?n \<le> e" using long by simp_all
        ultimately show ?thesis using parse by metis
      next
        case False
        then show ?thesis using rest by simp
      qed
    next
      case False
      then show ?thesis using d by simp
    qed
  qed
qed

lemma keep_rest_wf:
  assumes "ab_wf b" "auto_buffer_get_data b = Some cs \<or> cs = [] \<and> ab_data b = []" "p \<le> ab_length b"
  shows "ab_wf (keep_rest b cs p)" "ab_content (keep_rest b cs p) = drop p (ab_content b)"
    "ab_length (keep_rest b cs p) = ab_length b - p" "ab_start_pos (keep_rest b cs p) = 0"
proof -
  obtain pre suf where b: "ab_data b = pre @ map Some (ab_content b) @ suf" "length pre = ab_start_pos b"
      "length (ab_content b) = ab_length b" "length (ab_data b) = ab_size b" "ab_size b < 2 ^ 64"
    using assms(1) by (rule wfE)
  have cs: "cs = map Some (ab_content b) @ suf"
    using assms(2) b(1,2) by (auto simp: auto_buffer_get_data_def split: if_splits)
  let ?n = "ab_length b - p"
  have len_cs: "length cs = ab_length b + length suf" using cs b(3) by simp
  have len: "ab_size b = length pre + ab_length b + length suf" using b(1,3,4) by (metis add.assoc length_append length_map)
  have "take ?n (drop p cs) = map Some (drop p (ab_content b))" using b(3) by (simp add: cs drop_map)
  then have data: "ab_data (keep_rest b cs p) = [] @ map Some (drop p (ab_content b)) @ drop ?n (ab_data b)"
    by (simp add: keep_rest_def Let_def)
  have "ab_wf (keep_rest b cs p) \<and> ab_content (keep_rest b cs p) = drop p (ab_content b)"
    by (rule wfI [OF data]) (use b(3-5) len len_cs assms(3) in \<open>auto simp: keep_rest_def Let_def b(3)\<close>)
  then show "ab_wf (keep_rest b cs p)" "ab_content (keep_rest b cs p) = drop p (ab_content b)" by blast+
  show "ab_length (keep_rest b cs p) = ab_length b - p" "ab_start_pos (keep_rest b cs p) = 0"
    by (simp_all add: keep_rest_def Let_def)
qed

section \<open>Reading is handling whole messages\<close>

lemma handler_magic:
  assumes "on_message_handler E node m = Inr (rc, n)"
  shows "spv_magic n = spv_magic node" "spv_pollout n = spv_pollout node"
  using assms by (cases rule: handler_cases; auto simp: only_pushed_def dest!: add_headers_cases)+

text \<open>The bytes of a message that is accepted, and the reference: handling whole messages one after the other.\<close>

definition whole_message :: "('c, 'd, 'w, 's, 'k) spv_env \<Rightarrow> u32 \<Rightarrow> bytes \<Rightarrow> bool" where
  "whole_message E magic d \<longleftrightarrow> 24 \<le> length d \<and> mh_magic (message_header_of d) = magic
     \<and> unat (mh_length (message_header_of d)) = length d - 24
     \<and> (\<exists>m. bitcoin_message_parse (env_hash E) (payloads E) message_zero d (Some (drop 24 d)) (length d - 24) = Inr (m, True))"

fun handle_all :: "('c, 'd, 'w, 's, 'k) spv_env \<Rightarrow> ('w, 's) spv_node \<Rightarrow> bytes list \<Rightarrow> ('w, 's) spv_ret" where
  "handle_all E node [] = Inr (0, node)"
| "handle_all E node (d # ds) =
     andThen (bitcoin_message_parse (env_hash E) (payloads E) message_zero d (Some (drop 24 d)) (length d - 24)) (\<lambda>(m, _).
       andThen (on_message_handler E node m) (\<lambda>(rc, node1).
         if rc \<noteq> 0 then Inr (rc, node1) else handle_all E node1 ds))"

lemma handle_all_append:
  "handle_all E node (ds @ es) = andThen (handle_all E node ds) (\<lambda>(rc, node1).
     if rc \<noteq> 0 then Inr (rc, node1) else handle_all E node1 es)"
  by (induction ds arbitrary: node) (auto simp: andThen_def split: sum.split prod.split)

lemma handle_all_in:
  "handle_all E (node\<lparr>spv_in_buf := b\<rparr>) ds = mapRes (swap_in b) (handle_all E node ds)"
proof (induction ds arbitrary: node)
  case (Cons d ds)
  show ?case
    by (simp add: frame_simps input_frame Cons cong: if_cong)
qed simp

text \<open>How many messages are complete in the first \<open>n\<close> bytes.\<close>

fun complete_messages :: "nat \<Rightarrow> bytes list \<Rightarrow> nat" where
  "complete_messages n [] = 0"
| "complete_messages n (d # ds) = (if length d \<le> n then Suc (complete_messages (n - length d) ds) else 0)"

text \<open>
  Blocks of data behind \<open>k\<close> bytes that wait: no block ends with less than 20 bytes of a message when
  it has the end of another one.
\<close>

fun clean_cuts :: "nat \<Rightarrow> bytes list \<Rightarrow> bytes list \<Rightarrow> bool" where
  "clean_cuts k ds [] \<longleftrightarrow> True"
| "clean_cuts k ds (c # cs) \<longleftrightarrow>
     (let n = k + length c; j = complete_messages n ds; r = n - length (concat (take j ds))
      in (j = 0 \<or> r = 0 \<or> 20 \<le> r) \<and> clean_cuts r (drop j ds) cs)"

lemma complete_messages_facts:
  assumes "n \<le> length (concat ds)"
  defines "j \<equiv> complete_messages n ds"
  shows "j \<le> length ds" "length (concat (take j ds)) \<le> n"
    "take n (concat ds) = concat (take j ds) @ take (n - length (concat (take j ds))) (concat (drop j ds))"
    "drop j ds = [] \<and> n = length (concat (take j ds)) \<or> drop j ds \<noteq> [] \<and> n - length (concat (take j ds)) < length (hd (drop j ds))"
proof -
  have "j \<le> length ds \<and> length (concat (take j ds)) \<le> n
    \<and> take n (concat ds) = concat (take j ds) @ take (n - length (concat (take j ds))) (concat (drop j ds))
    \<and> (drop j ds = [] \<and> n = length (concat (take j ds)) \<or> drop j ds \<noteq> [] \<and> n - length (concat (take j ds)) < length (hd (drop j ds)))"
    using assms(1) unfolding j_def
  proof (induction n ds rule: complete_messages.induct)
    case (2 n d ds)
    show ?case
    proof (cases "length d \<le> n")
      case True
      then have "n - length d \<le> length (concat ds)" using 2(2) by simp
      note IH = 2(1) [OF True this]
      let ?j = "complete_messages (n - length d) ds"
      have "n = length d + (n - length d)" using True by simp
      moreover have "take n (d @ concat ds) = d @ take (n - length d) (concat ds)" using True by simp
      ultimately show ?thesis using True IH by auto
    qed simp
  qed simp
  then show "j \<le> length ds" "length (concat (take j ds)) \<le> n"
    "take n (concat ds) = concat (take j ds) @ take (n - length (concat (take j ds))) (concat (drop j ds))"
    "drop j ds = [] \<and> n = length (concat (take j ds)) \<or> drop j ds \<noteq> [] \<and> n - length (concat (take j ds)) < length (hd (drop j ds))"
    by blast+
qed

lemma cells_read_at:
  assumes "cs = map Some (x @ y @ z) @ suf" "length x = p" "length y = n"
  shows "cells_read p n cs = Inr y"
  using assms by (auto simp: cells_read_def Let_def comp_def)

lemma header_split: "take 16 d @ take 4 (drop 16 d) @ drop 20 d = d"
proof -
  have "take 4 (drop 16 d) @ drop 4 (drop 16 d) = drop 16 d" by (rule append_take_drop_id)
  then show ?thesis by simp
qed

lemma header_length_at: "dec32 (take 4 (drop 16 d)) = mh_length (message_header_of d)"
  by (simp add: message_header_of_def)

lemma read_ahead:
  assumes "\<forall>d \<in> set ds. whole_message E (spv_magic node) d" "handle_all E node ds = Inr (0, node')"
    and "cs = map Some (x @ concat ds @ rest) @ suf" "length x = p" "p + length (concat ds) \<le> e"
  shows "read_messages E cs e p rc node = read_messages E cs e (p + length (concat ds)) (if ds = [] then rc else 0) node'"
  using assms
proof (induction ds arbitrary: node x p rc)
  case (Cons d ds)
  from Cons.prems(1) obtain m where m: "24 \<le> length d" "mh_magic (message_header_of d) = spv_magic node"
      "unat (mh_length (message_header_of d)) = length d - 24"
      "bitcoin_message_parse (env_hash E) (payloads E) message_zero d (Some (drop 24 d)) (length d - 24) = Inr (m, True)"
    by (auto simp: whole_message_def)
  from Cons.prems(2) m(4) obtain node1 where node1: "on_message_handler E node m = Inr (0, node1)" "handle_all E node1 ds = Inr (0, node')"
    by (auto simp: res_simps split: if_splits)
  have magic: "spv_magic node1 = spv_magic node" by (rule handler_magic(1) [OF node1(1)])
  have "(take 16 d @ take 4 (drop 16 d) @ drop 20 d) @ concat ds @ rest = concat (d # ds) @ rest" by (simp only: header_split) simp
  then have "cs = map Some ((x @ take 16 d) @ take 4 (drop 16 d) @ drop 20 d @ concat ds @ rest) @ suf"
    unfolding Cons.prems(3) by (simp only: append.assoc)
  then have len: "cells_read (p + 16) 4 cs = Inr (take 4 (drop 16 d))"
    by (rule cells_read_at) (use m(1) Cons.prems(4) in auto)
  have n: "unat (dec32 (take 4 (drop 16 d))) = length d - 24" using m(3) by (simp only: header_length_at)
  have whole: "cells_read p (length d) cs = Inr d"
    by (rule cells_read_at [where x = x and z = "concat ds @ rest" and suf = suf]) (use Cons.prems in auto)
  have e: "p < e" "\<not> e < p + 24 + (length d - 24)" "24 + (length d - 24) = length d" using m(1) Cons.prems(5) by auto
  have "read_messages E cs e p rc node = read_messages E cs e (p + length d) 0 node1"
    using e m node1(1) len whole by (subst read_messages.simps) (simp add: Let_def n add.assoc del: dec32_take)
  also have "\<dots> = read_messages E cs e (p + length d + length (concat ds)) 0 node'"
    using Cons.IH [of node1 "x @ d" "p + length d" 0] Cons.prems node1(2) magic by simp
  finally show ?case by (simp add: add.assoc)
qed simp

text \<open>At the end of the data, or behind the length of a message that is not complete, reading stops.\<close>

lemma read_stops:
  assumes "cs = map Some (x @ rest) @ suf" "length x = p" "e = p + length rest"
    and "rest = [] \<or> 20 \<le> length rest \<and> (\<exists>r. whole_message E magic (rest @ r) \<and> r \<noteq> [])"
  shows "read_messages E cs e p rc node = Inr (rc, p, node)"
proof (cases "rest = []")
  case True
  then show ?thesis using assms by (simp add: read_messages.simps)
next
  case False
  with assms(4) obtain r where r: "20 \<le> length rest" "whole_message E magic (rest @ r)" "r \<noteq> []" by blast
  let ?len = "take 4 (drop 16 rest)"
  have "cs = map Some ((x @ take 16 rest) @ ?len @ drop 20 rest) @ suf"
    using assms(1) by (simp only: header_split append.assoc)
  then have read: "cells_read (p + 16) 4 cs = Inr ?len"
    by (rule cells_read_at) (use r(1) assms(2) in auto)
  have "take 4 (drop 16 (rest @ r)) = ?len" using r(1) by simp
  then have "dec32 ?len = mh_length (message_header_of (rest @ r))" by (simp only: header_length_at [symmetric])
  then have "unat (dec32 ?len) = length (rest @ r) - 24" using r(2) unfolding whole_message_def by (simp only:)
  moreover have "24 \<le> length (rest @ r)" "length r > 0" using r(2,3) by (auto simp: whole_message_def)
  ultimately have "e < p + 24 + unat (dec32 ?len)" using assms(3) by simp
  then show ?thesis using read False assms by (simp add: read_messages.simps Let_def)
qed

text \<open>Before the length has come in, what follows the data is read.\<close>

lemma read_over:
  assumes "cs = map Some (x @ rest) @ replicate k None" "length x = p" "e = p + length rest" "0 < length rest" "length rest < 20"
  shows "read_messages E cs e p rc node = Inl Undefined"
proof -
  have "cells_read (p + 16) 4 cs = Inl Undefined"
  proof (cases "p + 20 \<le> length cs")
    case True
    then have "19 - length rest < k" using assms(1-3,5) by simp
    moreover have "take 4 (drop (p + 16) cs) ! (3 :: nat) = cs ! (p + 19)" using True by (simp add: add.commute)
    moreover have "cs ! (p + 19) = replicate k None ! (19 - length rest)" using assms by (simp add: nth_append)
    ultimately have "take 4 (drop (p + 16) cs) ! 3 = None" by simp
    moreover have "3 < length (take 4 (drop (p + 16) cs))" using True by simp
    ultimately have "None \<in> set (take 4 (drop (p + 16) cs))" by (metis nth_mem)
    then show ?thesis by (simp add: cells_read_def Let_def)
  qed (simp add: cells_read_def Let_def)
  then show ?thesis using assms(3,4) by (subst read_messages.simps) simp
qed

lemma handle_all_settings:
  "handle_all E node ds = Inr (rc, node') \<Longrightarrow> spv_magic node' = spv_magic node \<and> spv_pollout node' = spv_pollout node"
proof (induction ds arbitrary: node)
  case (Cons d ds)
  then obtain m ok rc1 n1 where "on_message_handler E node m = Inr (rc1, n1)"
      "(if rc1 \<noteq> 0 then Inr (rc1, n1) else handle_all E n1 ds) = Inr (rc, node')"
    by (auto simp: andThen_Inr_iff)
  then show ?case using Cons.IH [of n1] handler_magic [of E node m rc1 n1] by (auto split: if_splits)
qed simp

lemma keep_rest_room:
  assumes "ab_room b n" "auto_buffer_get_data b = Some cs" "p \<le> ab_length b"
  shows "ab_room (keep_rest b cs p) n" "ab_content (keep_rest b cs p) = drop p (ab_content b)"
proof -
  obtain pre suf where b: "ab_data b = pre @ map Some (ab_content b) @ suf" "length pre = ab_start_pos b"
      "length (ab_content b) = ab_length b" "length (ab_data b) = ab_size b" "ab_start_pos b + ab_length b + n < 2 ^ 63"
    using assms(1) by (rule roomE)
  have cs: "cs = map Some (ab_content b) @ suf"
    using assms(2) b(1,2) by (auto simp: auto_buffer_get_data_def split: if_splits)
  let ?n = "ab_length b - p"
  have len: "ab_size b = length pre + ab_length b + length suf" using b(1,3,4) by (metis add.assoc length_append length_map)
  have "take ?n (drop p cs) = map Some (drop p (ab_content b))" using b(3) by (simp add: cs drop_map)
  then have data: "ab_data (keep_rest b cs p) = [] @ map Some (drop p (ab_content b)) @ drop ?n (ab_data b)"
    by (simp add: keep_rest_def Let_def)
  have "length (ab_data (keep_rest b cs p)) = ab_size (keep_rest b cs p)"
    unfolding data using b(3,4) len assms(3) by (simp add: keep_rest_def Let_def)
  then have "ab_room (keep_rest b cs p) n \<and> ab_content (keep_rest b cs p) = drop p (ab_content b)"
    by (intro roomI [OF data]) (use b(3,5) assms(3) in \<open>auto simp: keep_rest_def Let_def\<close>)
  then show "ab_room (keep_rest b cs p) n" "ab_content (keep_rest b cs p) = drop p (ab_content b)" by blast+
qed

lemma read_any_chunks_from:
  fixes node :: "('w, 's) spv_node"
  assumes "\<forall>d \<in> set ds. whole_message E (spv_magic node) d" "handle_all E node ds = Inr (0, node')"
    and "ab_room (spv_in_buf node) (length (concat chunks))" "ab_content (spv_in_buf node) = take k (concat ds)"
    and "k \<le> length (concat ds)" "ds = [] \<or> k < length (hd ds)"
    and "take k (concat ds) @ concat chunks = concat ds" "[] \<notin> set chunks" "clean_cuts k ds chunks"
  shows "\<exists>b. read_chunks E node (map Some chunks) = Inr (0, node'\<lparr>spv_in_buf := b\<rparr>) \<and> ab_content b = []"
  using assms
proof (induction chunks arbitrary: node node' ds k)
  case Nil
  have all: "take k (concat ds) = concat ds" using Nil.prems(7) by simp
  have "ds = []"
  proof (rule ccontr)
    assume "ds \<noteq> []"
    then have "k < length (concat ds)" using Nil.prems(6) by (cases ds) auto
    then show False using arg_cong [OF all, of length] by simp
  qed
  then have "node' = node" "ab_content (spv_in_buf node) = []" using Nil.prems(2,4) by auto
  then show ?case by (intro exI [of _ "spv_in_buf node"]) simp
next
  case (Cons c chunks)
  let ?b0 = "spv_in_buf node" and ?S = "concat ds"
  let ?n = "k + length c"
  let ?j = "complete_messages ?n ds"
  let ?r = "?n - length (concat (take ?j ds))"
  have c: "c \<noteq> []" and rest_ne: "[] \<notin> set chunks" using Cons.prems(8) by auto
  obtain b where b: "auto_buffer_push ?b0 (Some c) (length c) = Inr (b, True)" "ab_room b (length (concat chunks))"
      "ab_content b = take k ?S @ c"
    using buffer_push [of ?b0 c "length (concat chunks)"] Cons.prems(3,4)
    by (auto simp: push_all_def res_simps split: if_splits)
  have klen: "length (take k ?S) = k" using Cons.prems(5) by simp
  have n: "?n \<le> length ?S" using arg_cong [OF Cons.prems(7), of length] klen by simp
  have "take ?n ?S = take ?n (take k ?S @ c @ concat chunks)" using Cons.prems(7) by simp
  then have content: "ab_content b = take ?n ?S" using b(3) klen by simp
  note facts = complete_messages_facts [OF n]
  have len_b: "ab_length b = ?n" using b(2,3) klen by (auto elim!: roomE)
  have behind: "drop ?n ?S = concat chunks"
    using arg_cong [OF Cons.prems(7), of "drop ?n"] klen by simp
  show ?case
  proof (cases "?n < 24")
    case True
    have j: "?j = 0"
    proof (cases ds)
      case (Cons d ds')
      then have "24 \<le> length d" using \<open>\<forall>d \<in> set ds. whole_message E (spv_magic node) d\<close> by (simp add: whole_message_def)
      then show ?thesis using Cons True by simp
    qed simp
    have short: "ds = [] \<or> ?n < length (hd ds)" using facts(4) j by auto
    have swap: "handle_all E (node\<lparr>spv_in_buf := b\<rparr>) ds = Inr (0, node'\<lparr>spv_in_buf := b\<rparr>)"
      using Cons.prems(2) by (simp add: handle_all_in)
    have cuts: "clean_cuts ?n ds chunks" using Cons.prems(9) j by (simp add: Let_def)
    have stream: "take ?n ?S @ concat chunks = ?S" using behind by (metis append_take_drop_id)
    obtain b' where "read_chunks E (node\<lparr>spv_in_buf := b\<rparr>) (map Some chunks) = Inr (0, (node'\<lparr>spv_in_buf := b\<rparr>)\<lparr>spv_in_buf := b'\<rparr>)"
        "ab_content b' = []"
      using Cons.IH [where node = "node\<lparr>spv_in_buf := b\<rparr>", OF _ swap _ _ n short stream rest_ne cuts] Cons.prems(1) b(2) content by auto
    then show ?thesis using c b(1) len_b True by (intro exI [of _ b']) simp
  next
    case False
    obtain cs where cs: "auto_buffer_get_data b = Some cs"
      using b(2) len_b False by (cases "ab_data b = []") (auto simp: auto_buffer_get_data_def ab_room_def)
    obtain pre suf where data: "ab_data b = pre @ map Some (ab_content b) @ suf" "length pre = ab_start_pos b"
      using b(2) by (rule roomE)
    have cells: "cs = map Some ([] @ concat (take ?j ds) @ take ?r (concat (drop ?j ds))) @ suf"
      using cs data content facts(3) by (auto simp: auto_buffer_get_data_def split: if_splits)
    have split: "handle_all E node ds = andThen (handle_all E node (take ?j ds)) (\<lambda>(rc, node1).
        if rc \<noteq> 0 then Inr (rc, node1) else handle_all E node1 (drop ?j ds))"
      using handle_all_append [of E node "take ?j ds" "drop ?j ds"] by simp
    obtain node1 where fin: "handle_all E node (take ?j ds) = Inr (0, node1)" and todo: "handle_all E node1 (drop ?j ds) = Inr (0, node')"
      using Cons.prems(2) split by (auto simp: andThen_Inr_iff split: if_splits)
    have magic: "spv_magic node1 = spv_magic node" using handle_all_settings [OF fin] by simp
    have taken: "\<forall>d \<in> set (take ?j ds). whole_message E (spv_magic (node\<lparr>spv_in_buf := b\<rparr>)) d"
      and left: "\<forall>d \<in> set (drop ?j ds). whole_message E (spv_magic node) d"
      using Cons.prems(1) by (auto dest: in_set_takeD in_set_dropD)
    have r_len: "length (take ?r (concat (drop ?j ds))) = ?r"
      using arg_cong [OF facts(3), of length] n facts(2) by simp
    have partial: "take ?r (concat (drop ?j ds)) = [] \<or> 20 \<le> length (take ?r (concat (drop ?j ds)))
        \<and> (\<exists>r. whole_message E (spv_magic (node\<lparr>spv_in_buf := b\<rparr>)) (take ?r (concat (drop ?j ds)) @ r) \<and> r \<noteq> [])"
    proof (cases "drop ?j ds")
      case (Cons d ds')
      with facts(4) have short: "?r < length d" by simp
      then have "take ?r (concat (drop ?j ds)) @ drop ?r d = d" using Cons by simp
      moreover have "drop ?r d \<noteq> []" using short by simp
      moreover have "whole_message E (spv_magic node) d" using left Cons by simp
      moreover have "?r = 0 \<or> 20 \<le> ?r" using Cons.prems(9) False by (auto simp: Let_def)
      ultimately show ?thesis unfolding r_len by (metis spv_node.select_convs(5) spv_node.surjective spv_node.update_convs(9) take_0)
    qed simp
    have swap: "handle_all E (node\<lparr>spv_in_buf := b\<rparr>) (take ?j ds) = Inr (0, node1\<lparr>spv_in_buf := b\<rparr>)"
      using fin by (simp add: handle_all_in)
    have e: "ab_length b = 0 + length (concat (take ?j ds) @ take ?r (concat (drop ?j ds)))"
      using len_b r_len facts(2) by simp
    have cells2: "cs = map Some (concat (take ?j ds) @ take ?r (concat (drop ?j ds))) @ suf" using cells by simp
    have "read_messages E cs (ab_length b) 0 0 (node\<lparr>spv_in_buf := b\<rparr>)
        = read_messages E cs (ab_length b) (0 + length (concat (take ?j ds))) (if take ?j ds = [] then 0 else 0) (node1\<lparr>spv_in_buf := b\<rparr>)"
      by (rule read_ahead [OF taken swap cells]) (use e in simp_all)
    also have "\<dots> = Inr (0, length (concat (take ?j ds)), node1\<lparr>spv_in_buf := b\<rparr>)"
      using read_stops [OF cells2 refl _ partial, of "ab_length b" 0] e by simp
    finally have read: "read_messages E cs (ab_length b) 0 0 (node\<lparr>spv_in_buf := b\<rparr>)
        = Inr (0, length (concat (take ?j ds)), node1\<lparr>spv_in_buf := b\<rparr>)" .
    let ?b1 = "keep_rest b cs (length (concat (take ?j ds)))"
    have keep: "ab_room ?b1 (length (concat chunks))" "ab_content ?b1 = drop (length (concat (take ?j ds))) (ab_content b)"
      using keep_rest_room [OF b(2) cs] len_b facts(2) by simp_all
    have rest: "ab_content ?b1 = take ?r (concat (drop ?j ds))" using keep(2) content facts(3) by simp
    have node2: "read_chunks E node (map Some (c # chunks)) = read_chunks E (node1\<lparr>spv_in_buf := ?b1\<rparr>) (map Some chunks)"
      using c b(1) len_b False cs read by (simp add: Let_def)
    have swap2: "handle_all E (node1\<lparr>spv_in_buf := ?b1\<rparr>) (drop ?j ds) = Inr (0, node'\<lparr>spv_in_buf := ?b1\<rparr>)"
      using todo by (simp add: handle_all_in)
    have rlen: "?r \<le> length (concat (drop ?j ds))" using r_len by simp
    have short: "drop ?j ds = [] \<or> ?r < length (hd (drop ?j ds))" using facts(4) by blast
    have "?S = concat (take ?j ds) @ concat (drop ?j ds)" by (metis append_take_drop_id concat_append)
    then have "drop ?n ?S = drop ?r (concat (drop ?j ds))" using facts(2) by simp
    then have stream: "take ?r (concat (drop ?j ds)) @ concat chunks = concat (drop ?j ds)" using behind by (metis append_take_drop_id)
    have cuts: "clean_cuts ?r (drop ?j ds) chunks" using Cons.prems(9) by (simp add: Let_def)
    obtain b' where "read_chunks E (node1\<lparr>spv_in_buf := ?b1\<rparr>) (map Some chunks) = Inr (0, (node'\<lparr>spv_in_buf := ?b1\<rparr>)\<lparr>spv_in_buf := b'\<rparr>)"
        "ab_content b' = []"
      using Cons.IH [where node = "node1\<lparr>spv_in_buf := ?b1\<rparr>", OF _ swap2 _ _ rlen short stream rest_ne cuts] left magic keep(1) rest
      by auto
    then show ?thesis unfolding node2 by (intro exI [of _ b']) simp
  qed
qed

lemma push_fresh:
  assumes "ab_data b = replicate k None" "ab_size b = k" "ab_length b = 0" "ab_start_pos b = 0" "c \<noteq> []" "length c < 2 ^ 63"
  shows "\<exists>b' k'. auto_buffer_push b (Some c) (length c) = Inr (b', True) \<and> ab_data b' = map Some c @ replicate k' None
    \<and> ab_length b' = length c \<and> ab_start_pos b' = 0"
proof -
  have sizes: "length c \<noteq> SIZE_MAX" "size_add (size_add 0 0) (length c) = length c" using assms(6) by (simp_all add: size_add_def)
  let ?b1 = "auto_buffer_resize b (length c)"
  note r = resize_enough [OF assms(6), of b]
  have "\<forall>x \<in> set (ab_data ?b1). x = None" by (auto simp: auto_buffer_resize_def Let_def assms(1))
  then obtain n where n: "ab_data ?b1 = replicate n None" by (metis replicate_length_same)
  have enough: "length c \<le> n" using r(1,2) assms(1,2) n by simp
  have "size_add 0 (length c) = length c" using assms(6) by (simp add: size_add_def)
  then have "auto_buffer_push b (Some c) (length c)
      = Inr (?b1\<lparr>ab_data := map Some c @ drop (length c) (replicate n None), ab_length := length c\<rparr>, True)"
    using assms(3-5) sizes r(4,5) assms(1,2) n enough
    by (simp add: auto_buffer_push_def Let_def mem_read_def cells_write_def)
  then show ?thesis using r(5) assms(1,2,4) by auto
qed

lemma get_data_fresh: "ab_data b = map Some c @ r \<Longrightarrow> c \<noteq> [] \<Longrightarrow> ab_start_pos b = 0 \<Longrightarrow> auto_buffer_get_data b = Some (ab_data b)"
  by (simp add: auto_buffer_get_data_def)

definition fresh_buffer :: "auto_buffer \<Rightarrow> bool" where
  "fresh_buffer b \<longleftrightarrow> ab_data b = replicate (ab_size b) None \<and> ab_length b = 0 \<and> ab_start_pos b = 0"

lemma read_chunk_fresh:
  assumes "\<forall>d \<in> set ds. whole_message E (spv_magic node) d" "handle_all E node ds = Inr (0, node')" "fresh_buffer (spv_in_buf node)"
    and "ds \<noteq> []" "length (concat ds @ rest) < 2 ^ 63"
  shows "\<exists>b k. read_chunks E node (Some (concat ds @ rest) # chunks) =
      andThen (read_messages E (map Some (concat ds @ rest) @ replicate k None) (length (concat ds @ rest)) (length (concat ds)) 0
          (node'\<lparr>spv_in_buf := b\<rparr>)) (\<lambda>(rc, p, node1).
        let node2 = node1\<lparr>spv_in_buf := keep_rest b (map Some (concat ds @ rest) @ replicate k None) p\<rparr>
        in if rc = 0 then read_chunks E node2 chunks else Inr (rc, node2))"
proof -
  let ?c = "concat ds @ rest"
  have "24 \<le> length (concat ds)" using assms(1,4) by (cases ds) (auto simp: whole_message_def)
  then have long: "24 \<le> length ?c" by simp
  then have ne: "?c \<noteq> []" by (metis list.size(3) not_numeral_le_zero)
  obtain b k where b: "auto_buffer_push (spv_in_buf node) (Some ?c) (length ?c) = Inr (b, True)"
      "ab_data b = map Some ?c @ replicate k None" "ab_length b = length ?c" "ab_start_pos b = 0"
    using push_fresh [of "spv_in_buf node" "ab_size (spv_in_buf node)" ?c] assms(3,5) ne by (auto simp: fresh_buffer_def)
  note cs = get_data_fresh [OF b(2) ne b(4)]
  have "read_messages E (ab_data b) (length ?c) 0 0 (node\<lparr>spv_in_buf := b\<rparr>)
      = read_messages E (ab_data b) (length ?c) (0 + length (concat ds)) (if ds = [] then 0 else 0) (node'\<lparr>spv_in_buf := b\<rparr>)"
    by (rule read_ahead [where x = "[]" and rest = rest and suf = "replicate k None"])
      (use assms(1,2) b(2) in \<open>simp_all add: handle_all_in\<close>)
  then show ?thesis
    using b(1,3) cs long ne by (intro exI [of _ b] exI [of _ k]) (auto simp: b(2) Let_def simp del: map_append)
qed

section \<open>Claims\<close>

text \<open>C11. However a stream of whole messages is cut into the blocks that the socket delivers, reading it is the same as
  handling the messages one after the other (when no handler fails), and nothing is left in the buffer -
  as long as no block that has the end of a message goes on with less than 20 bytes of the next one.\<close>

theorem read_any_chunks:
  assumes "\<forall>d \<in> set ds. whole_message E (spv_magic node) d" "handle_all E node ds = Inr (0, node')"
    and "ab_room (spv_in_buf node) (length (concat ds))" "ab_content (spv_in_buf node) = []"
    and "concat chunks = concat ds" "[] \<notin> set chunks" "clean_cuts 0 ds chunks"
  shows "\<exists>b. on_read E node (map Some chunks) = Inr (0, node'\<lparr>spv_in_buf := b,
      spv_pollout := spv_pollout node \<or> 0 < ab_length (spv_out_buf node')\<rparr>) \<and> ab_content b = []"
proof -
  have "ds = [] \<or> 0 < length (hd ds)" using assms(1) by (cases ds) (auto simp: whole_message_def)
  then obtain b where b: "read_chunks E node (map Some chunks) = Inr (0, node'\<lparr>spv_in_buf := b\<rparr>)" "ab_content b = []"
    using read_any_chunks_from [of ds E node node' chunks 0] assms by auto
  have "spv_pollout node' = spv_pollout node" using handle_all_settings [OF assms(2)] by simp
  moreover have "node'\<lparr>spv_in_buf := b\<rparr> = node'\<lparr>spv_in_buf := b, spv_pollout := spv_pollout node'\<rparr>" by (cases node') simp
  ultimately show ?thesis using b by (intro exI [of _ b]) (auto simp: on_read_def)
qed

text \<open>A block that has whole messages and then one to nineteen bytes of another one makes the reader look at a
  length that has not come in: with a buffer that was not used before, bytes are read that were never
  written, or that lie behind the memory of the buffer.\<close>

theorem read_past_received:
  assumes "\<forall>d \<in> set ds. whole_message E (spv_magic node) d" "handle_all E node ds = Inr (0, node')" "fresh_buffer (spv_in_buf node)"
    and "ds \<noteq> []" "0 < length rest" "length rest < 20" "length (concat ds @ rest) < 2 ^ 63"
  shows "on_read E node (Some (concat ds @ rest) # chunks) = Inl Undefined"
proof -
  obtain b k where "read_chunks E node (Some (concat ds @ rest) # chunks) =
      andThen (read_messages E (map Some (concat ds @ rest) @ replicate k None) (length (concat ds @ rest)) (length (concat ds)) 0
          (node'\<lparr>spv_in_buf := b\<rparr>)) (\<lambda>(rc, p, node1).
        let node2 = node1\<lparr>spv_in_buf := keep_rest b (map Some (concat ds @ rest) @ replicate k None) p\<rparr>
        in if rc = 0 then read_chunks E node2 chunks else Inr (rc, node2))"
    using read_chunk_fresh [OF assms(1-4,7)] by blast
  moreover have "read_messages E (map Some (concat ds @ rest) @ replicate k None) (length (concat ds @ rest)) (length (concat ds)) 0
      (node'\<lparr>spv_in_buf := b\<rparr>) = Inl Undefined"
    by (rule read_over [OF refl refl _ assms(5,6)]) simp
  ultimately show ?thesis by (simp add: on_read_def)
qed


text \<open>Messages without a payload, as they are sent.\<close>

lemma empty_message_whole:
  fixes E :: "('c, 'd, 'w, 's, 'k) spv_env" and magic :: u32 and t :: int
  assumes "0 < t" "t < msg_types_count" "take 4 (hash256 (env_hash E) []) = enc32 EMPTY_PAYLOAD_CHECKSUM"
  defines "d \<equiv> message_header_bytes (wire_header (env_hash E) magic t [])"
  shows "bitcoin_message_parse (env_hash E) (payloads E) message_zero d (Some (drop 24 d)) (length d - 24)
      = Inr (message_zero\<lparr>msg_data := Some d, msg_type := t\<rparr>, True)"
    "whole_message E magic d"
proof -
  let ?h = "wire_header (env_hash E) magic t []"
  have len: "length (mh_command ?h) = 12" using assms(1,2) by (simp add: wire_header_def length_wire_name)
  have d: "length d = 24" unfolding d_def by (rule length_message_header [OF len])
  have h: "message_header_of d = ?h" using message_header_of_bytes [OF len, of "[]"] by (simp add: d_def)
  have name: "bitcoin_message_type_from_string (mh_command ?h) = Inr t" using known_name(5) [OF assms(1,2)] by (simp add: wire_header_def)
  have sum: "take 4 (hash256 (env_hash E) []) = enc32 (mh_checksum ?h)" "mh_length ?h = 0" "mh_magic ?h = magic"
    using assms(3) by (simp_all add: wire_header_def)
  show parse: "bitcoin_message_parse (env_hash E) (payloads E) message_zero d (Some (drop 24 d)) (length d - 24)
      = Inr (message_zero\<lparr>msg_data := Some d, msg_type := t\<rparr>, True)"
    using assms(1) d h name sum
    by (simp add: bitcoin_message_parse_def Let_def mem_read_def bitcoin_message_clear_def message_zero_def)
  show "whole_message E magic d" unfolding whole_message_def parse h using d sum by auto
qed

text \<open>An environment for concrete runs, in which every hash is zero.\<close>

definition zero_env :: "(bytes, bytes, nat, (bytes \<times> bytes) list, nat option) spv_env" where
  "zero_env = \<lparr>env_hash = recording_ops (\<lambda>m. enc32 EMPTY_PAYLOAD_CHECKSUM) id, env_work = unit_work, env_db = store_ops,
     env_parse = \<lambda>_ _. None, env_serialize = \<lambda>_ _. None, env_fuel = 3\<rparr>"

definition sample_node :: "(nat, (bytes \<times> bytes) list) spv_node" where
  "sample_node = custom_init (app_context_init unit_work [])"

definition sample_message :: "int \<Rightarrow> bytes" where
  "sample_message t = message_header_bytes (wire_header (env_hash zero_env) 0 t [])"

lemma zero_env_hash: "take 4 (hash256 (env_hash zero_env) m) = enc32 EMPTY_PAYLOAD_CHECKSUM"
  by (simp add: zero_env_def hash256_def recording_ops_def fit_def)

lemma sample_message_facts:
  "0 < t \<Longrightarrow> t < msg_types_count \<Longrightarrow> whole_message zero_env 0 (sample_message t)"
  "0 < t \<Longrightarrow> t < msg_types_count \<Longrightarrow> length (sample_message t) = 24"
  unfolding sample_message_def
  by (rule empty_message_whole(2); simp add: zero_env_hash) (rule length_message_header; simp add: wire_header_def length_wire_name)

lemma sample_node_facts:
  "spv_magic sample_node = 0" "spv_in_buf sample_node = auto_buffer_init 0" "spv_out_buf sample_node = auto_buffer_init 0"
  "spv_callbacks sample_node ! 25 = Node_handler 25" "length (spv_callbacks sample_node) = 31"
  by (simp_all add: sample_node_def custom_init_def app_context_init_def spv_node_context_init_def s_spv_node_callbacks_def nth_upto)

lemma sample_handled:
  "handle_all zero_env sample_node [sample_message 25, sample_message 25] = Inr (0, sample_node\<lparr>spv_send_headers_flag := True\<rparr>)"
proof -
  note parse = empty_message_whole(1) [of 25 zero_env 0, OF _ _ zero_env_hash, folded sample_message_def]
  have "on_message_handler zero_env n (message_zero\<lparr>msg_data := Some d, msg_type := 25\<rparr>) = Inr (0, n\<lparr>spv_send_headers_flag := True\<rparr>)"
    if "spv_callbacks n ! 25 = Node_handler 25" "length (spv_callbacks n) = 31" for n :: "(nat, (bytes \<times> bytes) list) spv_node" and d
    using that by (simp add: on_message_handler_def node_handler_def)
  then show ?thesis using parse sample_node_facts(4,5) by simp
qed

theorem read_any_chunks_witness:
  "\<exists>b. on_read zero_env sample_node (map Some [take 10 (sample_message 25), drop 10 (sample_message 25) @ sample_message 25])
      = Inr (0, sample_node\<lparr>spv_send_headers_flag := True, spv_in_buf := b, spv_pollout := False\<rparr>) \<and> ab_content b = []"
proof -
  let ?d = "sample_message 25"
  have d: "whole_message zero_env 0 ?d" "length ?d = 24" by (rule sample_message_facts; simp)+
  have out: "ab_length (spv_out_buf sample_node) = 0" "spv_pollout sample_node = False"
    by (simp_all add: sample_node_def custom_init_def app_context_init_def spv_node_context_init_def auto_buffer_init_def
        auto_buffer_resize_def auto_buffer_zero_def AUTO_BUFFER_ALLOC_SIZE_def Let_def)
  have "?d \<noteq> []" using d(2) by auto
  then show ?thesis
    using read_any_chunks [of "[?d, ?d]" zero_env sample_node _ "[take 10 ?d, drop 10 ?d @ ?d]", OF _ sample_handled] d
      buffer_init(1) [of 48] buffer_init(2) out
    by (simp add: sample_node_facts Let_def)
qed

theorem read_past_received_witness:
  "on_read zero_env sample_node [Some (sample_message 25 @ sample_message 25 @ [0xF9, 0xBE])] = Inl Undefined"
proof -
  let ?d = "sample_message 25"
  have "whole_message zero_env 0 ?d" "length ?d = 24" by (rule sample_message_facts; simp)+
  moreover have "fresh_buffer (auto_buffer_init 0)"
    by (simp add: fresh_buffer_def auto_buffer_init_def auto_buffer_resize_def auto_buffer_zero_def AUTO_BUFFER_ALLOC_SIZE_def Let_def)
  ultimately show ?thesis
    using read_past_received [of "[?d, ?d]" zero_env sample_node _ "[0xF9, 0xBE]" "[]", OF _ sample_handled]
    by (simp add: sample_node_facts)
qed

end
