(* ===== verification/SpvLife.thy ===== *)
theory SpvLife
  imports SpvRead
begin

text \<open>
  The life of an SPV node, from its start through its connections: what it keeps all the time, what it
  answers, what it writes, and the messages that end it.
\<close>

section \<open>Auxiliary lemmas\<close>

lemma write_loop_bound: "write_loop cs p left results = Inr (rc, q, sent) \<Longrightarrow> p \<le> q \<and> q \<le> p + left"
proof (induction cs p left results arbitrary: rc q sent rule: write_loop.induct)
  case (3 cs p v cb results)
  show ?case
  proof (cases "cb = 0")
    case False
    let ?n = "min cb (Suc v)"
    from 3(2) False obtain d sent' where "cells_read p ?n cs = Inr d" "write_loop cs (p + ?n) (Suc v - ?n) results = Inr (rc, q, sent')"
      by (auto simp: res_simps Let_def)
    from 3(1) [OF False refl this] show ?thesis by auto
  qed (use 3 in simp)
qed auto

lemma buffer_zero_wf: "ab_wf auto_buffer_zero" "ab_content auto_buffer_zero = []"
  by (simp_all add: ab_wf_def auto_buffer_zero_def ab_content_def)

section \<open>What handlers keep is kept\<close>

text \<open>
  A property of nodes that every handler keeps, that says nothing about the buffers but that they are
  well-formed, and nothing about the connection: it holds as long as the program runs.
\<close>

locale node_invariant =
  fixes E :: "('c, 'd, 'w, 's, 'k) spv_env" and Q :: "('w, 's) spv_node \<Rightarrow> bool"
  assumes handled: "Q node \<Longrightarrow> bitcoin_message_parse (env_hash E) (payloads E) message_zero d p k = Inr (m, ok) \<Longrightarrow>
      on_message_handler E node m = Inr (rc, n) \<Longrightarrow> Q n"
    and in_buffer: "Q node \<Longrightarrow> (ab_wf (spv_in_buf node) \<Longrightarrow> ab_wf b) \<Longrightarrow> Q (node\<lparr>spv_in_buf := b\<rparr>)"
    and out_buffer: "Q node \<Longrightarrow> (ab_wf (spv_out_buf node) \<Longrightarrow> ab_wf b) \<Longrightarrow> Q (node\<lparr>spv_out_buf := b\<rparr>)"
    and connection: "Q node \<Longrightarrow> Q (node\<lparr>spv_pollout := po, spv_connected := con, spv_addr := addr, spv_addr_len := len\<rparr>)"

lemma read_messages_bounds:
  "p \<le> e \<Longrightarrow> read_messages E cs e p rc node = Inr (rc', q, n) \<Longrightarrow> spv_in_buf n = spv_in_buf node \<and> q \<le> e"
proof (induction "e - p" arbitrary: p rc node rule: less_induct)
  case less
  consider "n = node" "q = p" | p1 m rc1 n1 where "p < p1" "p1 \<le> e"
      "on_message_handler E node m = Inr (rc1, n1)" "read_messages E cs e p1 rc1 n1 = Inr (rc', q, n)"
    using read_messages_cases [OF less.prems(2)] by blast
  then show ?case
  proof cases
    case 2
    then show ?thesis using less.hyps [of p1 rc1 n1] handler_keeps_in [OF 2(3)] by auto
  qed (use less.prems in simp)
qed

context node_invariant
begin

lemma pollout: "Q node \<Longrightarrow> Q (node\<lparr>spv_pollout := po\<rparr>)"
  using connection [of node "spv_addr_len node" "spv_addr node" "spv_connected node" po] by simp

lemma pushed: "Q node \<Longrightarrow> only_pushed node n \<Longrightarrow> Q n"
  by (auto simp: only_pushed_def intro!: out_buffer)

lemma messages: "p \<le> e \<Longrightarrow> Q node \<Longrightarrow> read_messages E cs e p rc node = Inr (rc', q, n) \<Longrightarrow> Q n"
proof (induction "e - p" arbitrary: p rc node rule: less_induct)
  case less
  consider "n = node" | d p1 m ok rc1 n1 where "p < p1" "p1 \<le> e"
      "bitcoin_message_parse (env_hash E) (payloads E) message_zero d (Some (drop 24 d)) (p1 - (p + 24)) = Inr (m, ok)"
      "on_message_handler E node m = Inr (rc1, n1)" "read_messages E cs e p1 rc1 n1 = Inr (rc', q, n)"
    using read_messages_cases [OF less.prems(3)] by blast
  then show ?case
  proof cases
    case 2
    show ?thesis using less.hyps [of p1, OF _ 2(2) handled [OF less.prems(2) 2(3,4)] 2(5)] 2(1,2) by simp
  qed (use less.prems in simp)
qed

lemma chunks: "Q node \<Longrightarrow> read_chunks E node cs = Inr (rc, n) \<Longrightarrow> Q n"
proof (induction cs arbitrary: node)
  case (Cons c cs)
  show ?case
  proof (cases "c = None \<or> c = Some []")
    case False
    then obtain d where d: "c = Some d" "d \<noteq> []" by auto
    then obtain b ok where push: "auto_buffer_push (spv_in_buf node) (Some d) (length d) = Inr (b, ok)"
      using Cons.prems(2) by (auto simp: res_simps)
    have wf: "ab_wf (spv_in_buf node) \<Longrightarrow> ab_wf b" by (rule push_wf(1) [OF _ push])
    note ok1 = in_buffer [OF Cons.prems(1) wf]
    show ?thesis
    proof (cases "ab_length b < 24")
      case True
      then show ?thesis using Cons.IH [OF ok1] Cons.prems(2) push d by simp
    next
      case long: False
      then obtain mem rc1 p n1 where mem: "auto_buffer_get_data b = Some mem"
          "read_messages E mem (ab_length b) 0 0 (node\<lparr>spv_in_buf := b\<rparr>) = Inr (rc1, p, n1)"
        and rest: "(if rc1 = 0 then read_chunks E (n1\<lparr>spv_in_buf := keep_rest b mem p\<rparr>) cs
             else Inr (rc1, n1\<lparr>spv_in_buf := keep_rest b mem p\<rparr>)) = Inr (rc, n)"
        using Cons.prems(2) push d by (auto simp: res_simps Let_def split: option.splits)
      have n1: "spv_in_buf n1 = b" "p \<le> ab_length b" using read_messages_bounds [OF _ mem(2)] by simp_all
      have "Q (n1\<lparr>spv_in_buf := keep_rest b mem p\<rparr>)"
        by (rule in_buffer [OF messages [OF _ ok1 mem(2)]]) (use n1 mem(1) in \<open>auto intro: keep_rest_wf(1)\<close>)
      then show ?thesis using rest Cons.IH by (auto split: if_splits)
    qed
  qed (use Cons.prems in auto)
qed simp

lemma on_read: "Q node \<Longrightarrow> on_read E node cs = Inr (rc, n) \<Longrightarrow> Q n"
  by (auto simp: on_read_def res_simps intro: pollout dest: chunks split: if_splits)

lemma on_write: "Q node \<Longrightarrow> on_write node results = Inr (rc, sent, n) \<Longrightarrow> Q n"
proof -
  assume ok: "Q node" and wr: "on_write node results = Inr (rc, sent, n)"
  let ?b = "spv_out_buf node"
  let ?cs = "case auto_buffer_get_data ?b of None \<Rightarrow> [] | Some cs \<Rightarrow> cs"
  obtain p where p: "write_loop ?cs 0 (ab_length ?b) results = Inr (rc, p, sent)"
      "n = node\<lparr>spv_out_buf := keep_rest ?b ?cs p, spv_pollout := spv_pollout node \<and> 0 < ab_length (keep_rest ?b ?cs p)\<rparr>"
    using wr by (auto simp: on_write_def Let_def res_simps)
  have "ab_wf (keep_rest ?b ?cs p)" if "ab_wf ?b"
    by (rule keep_rest_wf(1)) (use that write_loop_bound [OF p(1)] in \<open>auto simp: auto_buffer_get_data_def\<close>)
  from pollout [OF out_buffer [OF ok this]] show ?thesis by (simp add: p(2))
qed

lemma ready:
  assumes "Q node" "handle_ready E node cs results gone = Inr (sent, n)"
  shows "Q n"
proof -
  obtain rc node1 where 1: "(case cs of None \<Rightarrow> Inr (0, node) | Some cs \<Rightarrow> on_read E node cs) = Inr (rc, node1)"
    and "andThen (case results of Some ws \<Rightarrow> if rc = 0 then on_write node1 ws else Inr (rc, [], node1)
        | None \<Rightarrow> Inr (rc, [], node1)) (\<lambda>(rc2, sent, node2).
        Inr (sent, if rc2 < 0 \<or> gone then spv_close node2 else node2)) = Inr (sent, n)"
    using assms(2) unfolding handle_ready_def by (auto simp: andThen_Inr_iff)
  then obtain rc2 node2 where 2: "(case results of Some ws \<Rightarrow> if rc = 0 then on_write node1 ws else Inr (rc, [], node1)
        | None \<Rightarrow> Inr (rc, [], node1)) = Inr (rc2, sent, node2)" "n = (if rc2 < 0 \<or> gone then spv_close node2 else node2)"
    by (auto simp: andThen_Inr_iff)
  have "Q node1" using 1 assms(1) on_read by (auto split: option.splits)
  then have "Q node2" using 2(1) on_write by (auto split: option.splits if_splits)
  then have "Q (spv_close node2)"
    using connection [of node2 "spv_addr_len node2" "spv_addr node2" False "spv_pollout node2"] by (simp add: spv_close_def)
  then show ?thesis using 2(2) \<open>Q node2\<close> by simp
qed

lemma connection_kept: "Q node \<Longrightarrow> connection_loop E node polls = Inr (sent, n) \<Longrightarrow> Q n"
proof (induction polls arbitrary: node sent)
  case (Cons x polls)
  show ?case
  proof (cases x)
    case (Ready cs results gone)
    let ?node = "if 0 < ab_length (spv_out_buf node) then node\<lparr>spv_pollout := True\<rparr> else node"
    from Cons.prems(2) Ready obtain sent1 n1 sent2 where 1: "handle_ready E ?node cs results gone = Inr (sent1, n1)"
        "connection_loop E n1 polls = Inr (sent2, n)"
      by (auto simp: andThen_Inr_iff simp del: if_split)
    have "Q ?node" using pollout Cons.prems(1) by simp
    from ready [OF this 1(1)] 1(2) show ?thesis by (rule Cons.IH)
  qed (use Cons in \<open>auto split: if_splits\<close>)
qed simp

lemma version:
  assumes "Q node" "add_message_version E node v sec nsec = Inr (rc, n)"
  shows "Q n"
proof -
  obtain n1 d1 d2 rc1 rc2 where "push_out node d1 = Inr (rc1, n1)" "push_out n1 d2 = Inr (rc2, n)"
    using assms(2) unfolding add_message_version_def Let_def
    by (auto simp: res_simps split: option.splits if_splits)
  then show ?thesis using pushed [OF pushed [OF assms(1) pushed_push_out] pushed_push_out] by blast
qed

lemma connect:
  assumes "Q node" "spv_node_connect E node addr addr_len sec nsec = Inr n"
  shows "Q n"
proof -
  let ?fresh = "node\<lparr>spv_addr := addr, spv_addr_len := addr_len, spv_connected := True,
      spv_in_buf := auto_buffer_cleanup (spv_in_buf node), spv_out_buf := auto_buffer_cleanup (spv_out_buf node)\<rparr>"
  obtain rc n1 where n1: "add_message_version E ?fresh 0 sec nsec = Inr (rc, n1)" "n = n1\<lparr>spv_pollout := True\<rparr>"
    using assms(2) by (auto simp: spv_node_connect_def andThen_Inr_iff)
  have clean: "ab_wf (auto_buffer_cleanup b)" for b by (simp add: auto_buffer_cleanup_def buffer_zero_wf)
  have "?fresh = node\<lparr>spv_pollout := spv_pollout node, spv_connected := True, spv_addr := addr, spv_addr_len := addr_len,
      spv_in_buf := auto_buffer_cleanup (spv_in_buf node), spv_out_buf := auto_buffer_cleanup (spv_out_buf node)\<rparr>"
    by (cases node) simp
  then have "Q ?fresh" by (simp only: out_buffer [OF in_buffer [OF connection [OF assms(1)] clean] clean])
  from pollout [OF version [OF this n1(1)]] show ?thesis by (simp add: n1(2))
qed

lemma attempts: "Q node \<Longrightarrow> run_attempts E node k tries = Inr (sent, n) \<Longrightarrow> Q n"
proof (induction tries arbitrary: node k sent)
  case (Cons x tries)
  show ?case
  proof (cases k; cases x)
    fix left y
    assume k: "k = Suc left" and x: "x = Some y"
    obtain addr len sec nsec polls where y: "y = (addr, len, sec, nsec, polls)" by (cases y)
    from Cons.prems(2) obtain n1 sent1 n2 sent2 where s: "spv_node_connect E node addr len sec nsec = Inr n1"
        "connection_loop E n1 polls = Inr (sent1, n2)" "run_attempts E n2 left tries = Inr (sent2, n)"
      by (auto simp: k x y res_simps)
    show ?thesis by (rule Cons.IH [OF connection_kept [OF connect [OF Cons.prems(1) s(1)] s(2)] s(3)])
  qed (use Cons in auto)
qed (auto elim: run_attempts.elims)

lemma run: "Q node \<Longrightarrow> spv_node_run E node tries = Inr (sent, n) \<Longrightarrow> Q n"
  by (auto simp: spv_node_run_def intro: attempts split: if_splits)

end

text \<open>What every node keeps is one of them.\<close>

interpretation sound: node_invariant E "\<lambda>node. typed_env E \<longrightarrow> node_ok (env_work E) start node"
  for E :: "('c, 'd, 'w, 's, 'k) spv_env" and start
  by (unfold_locales, blast intro: handler_ok parsed_object, auto simp: node_ok_def)

section \<open>The start of a node\<close>

lemma load_page_ok:
  "chain_ok (env_work E) start (spv_chain node) \<Longrightarrow> load_page E node k hashes records = Inr n \<Longrightarrow>
    chain_ok (env_work E) start (spv_chain n) \<and> (\<exists>s db. n = node\<lparr>spv_chain := s, spv_hdrs_db := db\<rparr>)"
proof (induction E node k hashes records arbitrary: n rule: load_page.induct)
  case (1 E node k hash hashes r records)
  then obtain n1 ok where add: "chain_add E node (Some hash) (rec_hdr r) = Inr (n1, ok)"
      and both: "(if ok then load_page E n1 k hashes records else Inl Abort) = Inr n"
    by (auto simp: andThen_Inr_iff)
  from both have ok: ok and rest: "load_page E n1 k hashes records = Inr n" by (cases ok; simp)+
  have "chain_ok (env_work E) start (spv_chain n1)" by (rule chain_add_ok [OF 1(2) add])
  moreover have "\<exists>s db. n1 = node\<lparr>spv_chain := s, spv_hdrs_db := db\<rparr>" using add by (auto simp: chain_add_def Let_def res_simps)
  ultimately show ?case using 1(1) [OF add refl ok _ rest] by (elim exE) (auto intro!: exI)
next
  case (2 E node hashes records)
  then show ?case by (auto intro!: exI [of _ "spv_chain node"] exI [of _ "spv_hdrs_db node"])
qed auto

lemma load_headers_ok:
  "node_ok (env_work E) start node \<Longrightarrow> load_headers fuel E node = Inr n \<Longrightarrow> node_ok (env_work E) start n"
proof (induction fuel E node arbitrary: n rule: load_headers.induct)
  case (2 fuel E node)
  then obtain rc db where next': "headers_db_next (env_db E) (spv_hdrs_db node) = Inr (rc, db)"
    and rest: "(if rc \<noteq> 0 then Inr (node\<lparr>spv_hdrs_db := db\<rparr>)
       else andThen (load_page E (node\<lparr>spv_hdrs_db := db\<rparr>) (hd_num_records db) (hd_hashes db) (hd_records db)) (\<lambda>node2.
            load_headers fuel E node2)) = Inr n"
    by (auto simp: res_simps Let_def)
  have ok: "node_ok (env_work E) start (node\<lparr>spv_hdrs_db := db\<rparr>)" using 2(2) by (simp add: node_ok_def)
  show ?case
  proof (cases "rc = 0")
    case True
    with rest obtain node2 where page: "load_page E (node\<lparr>spv_hdrs_db := db\<rparr>) (hd_num_records db) (hd_hashes db) (hd_records db) = Inr node2"
        "load_headers fuel E node2 = Inr n"
      by (auto simp: res_simps)
    have "chain_ok (env_work E) start (spv_chain (node\<lparr>spv_hdrs_db := db\<rparr>))" using ok by (simp add: node_ok_def)
    from load_page_ok [OF this page(1)] have "node_ok (env_work E) start node2" using ok by (auto simp: node_ok_def)
    then show ?thesis using 2(1) [OF next' refl refl _ page(1) _ page(2)] True by simp
  next
    case False
    then show ?thesis using rest ok by simp
  qed
qed simp

lemma init_ok: "node_ok W g_genesis_block_hash (app_context_init W d)"
proof -
  have "map callback_type s_spv_node_callbacks = [0..30]"
    by (simp add: s_spv_node_callbacks_def comp_def callback_type_def)
  moreover have "ab_wf (auto_buffer_init 0)"
    by (simp add: ab_wf_def auto_buffer_init_def auto_buffer_resize_def auto_buffer_zero_def AUTO_BUFFER_ALLOC_SIZE_def Let_def)
  moreover have "addresses.tree_ok avl_tree_init" by (simp add: addresses.tree_ok_def avl_tree_init_def)
  ultimately show ?thesis
    using init_facts(1) [of W None None]
    by (simp add: node_ok_def app_context_init_def spv_node_context_init_def genesis_hash_def)
qed

lemma load_config_ok: "node_ok W start node \<Longrightarrow> spv_node_load_config node config = Inr (rc, n) \<Longrightarrow> node_ok W start n"
  by (auto simp: spv_node_load_config_def Let_def node_ok_def split: if_splits)

lemma custom_init_ok: "node_ok W start node \<Longrightarrow> node_ok W start (custom_init node)"
proof -
  assume ok: "node_ok W start node"
  have set: "map callback_type (cs[nat t := App_handler t]) = [0..30]" if "map callback_type cs = [0..30]" "0 \<le> t" "t \<le> 30" for cs t
  proof -
    have "length cs = 31" using arg_cong [OF that(1), of length] by simp
    moreover have "[0..30] ! nat t = t" using that by (simp add: nth_upto)
    ultimately have "map callback_type (cs[nat t := App_handler t]) = [0..30 :: int][nat t := [0..30] ! nat t]"
      using that by (simp add: map_update callback_type_def)
    then show ?thesis by (simp only: list_update_id)
  qed
  have "map callback_type (foldl (\<lambda>cs t. cs[nat t := App_handler t]) cs ts) = [0..30]"
    if "\<forall>t \<in> set ts. 0 \<le> t \<and> t \<le> 30" "map callback_type cs = [0..30]" for cs ts
    using that by (induction ts arbitrary: cs) (auto simp: set)
  then have "map callback_type (spv_callbacks (custom_init node)) = [0..30]"
    using ok unfolding custom_init_def node_ok_def spv_node.simps by (simp del: foldl.simps)
  then show ?thesis using ok by (simp add: node_ok_def custom_init_def)
qed

section \<open>Writing\<close>

lemma write_loop_effect:
  "cs = map Some xs @ suf \<Longrightarrow> p + left = length xs \<Longrightarrow>
    \<exists>q. write_loop cs p left results = Inr (if q = p + left then 0 else -1, q, take (q - p) (drop p xs)) \<and> p \<le> q \<and> q \<le> p + left"
proof (induction cs p left results rule: write_loop.induct)
  case (3 cs p v cb results)
  show ?case
  proof (cases "cb = 0")
    case False
    let ?n = "min cb (Suc v)"
    have "cs = map Some (take p xs @ take ?n (drop p xs) @ drop (p + ?n) xs) @ suf"
      using 3(2) append_take_drop_id [of ?n "drop p xs"] append_take_drop_id [of p xs] by (simp add: add.commute)
    then have read: "cells_read p ?n cs = Inr (take ?n (drop p xs))"
      by (rule cells_read_at) (use 3(3) in auto)
    obtain q where q: "write_loop cs (p + ?n) (Suc v - ?n) results
        = Inr (if q = p + ?n + (Suc v - ?n) then 0 else -1, q, take (q - (p + ?n)) (drop (p + ?n) xs))" "p + ?n \<le> q" "q \<le> p + Suc v"
      using 3(1) [OF False refl read 3(2)] 3(3) by auto
    have "take (q - p) (drop p xs) = take ?n (drop p xs) @ take (q - (p + ?n)) (drop (p + ?n) xs)"
      using q(2) take_add [of ?n "q - (p + ?n)" "drop p xs"] by (simp add: add.commute)
    then show ?thesis using False read q by (intro exI [of _ q]) (simp add: Let_def)
  qed (intro exI [of _ p], simp)
qed auto

section \<open>Claims\<close>

text \<open>C23. Whatever comes in over however many connections, as long as the program runs: the buffers are
  well-formed, the heirs of the chain are linked from the genesis block up, no two entries of the
  address book have the same address and port, the tree of the address book is balanced and counts its entries, and
  every type of message has the handler made for it.\<close>

theorem node_always_ok:
  assumes "typed_env E" "spv_node_load_config (app_context_init (env_work E) d) config = Inr (rc, node0)"
    and "app_start fuel E node0 = Inr node1" "spv_node_run E node1 attempts = Inr (sent, n)"
  shows "ab_wf (spv_in_buf n) \<and> ab_wf (spv_out_buf n) \<and> chain_ok (env_work E) g_genesis_block_hash (spv_chain n)
    \<and> distinct (map (\<lambda>a. (na_ip a, na_port a)) (inorder (avl_root (spv_addrs_list n))))
    \<and> avl_ok (avl_root (spv_addrs_list n)) \<and> avl_count (spv_addrs_list n) = int (length (inorder (avl_root (spv_addrs_list n))))
    \<and> map callback_type (spv_callbacks n) = [0..30]"
proof -
  have "node_ok (env_work E) g_genesis_block_hash node1"
    using load_headers_ok [OF custom_init_ok [OF load_config_ok [OF init_ok assms(2)]]] assms(3) by (simp add: app_start_def)
  then have "node_ok (env_work E) g_genesis_block_hash n"
    using sound.run [OF _ assms(4)] assms(1) by blast
  moreover have "distinct (map (\<lambda>a. (na_ip a, na_port a)) xs)" if "addresses.sorted_keys xs" for xs
    using sorted_distinct_entries [OF that] by (simp add: address_entry_def)
  ultimately show ?thesis by (simp add: node_ok_def addresses.tree_ok_def)
qed

text \<open>C24. The answers of the handshake and of the keep-alive: to a version message, a verack with the magic number of the
  message, after the version and the height of the other side have been noted; to a ping, a pong with the same eight
  bytes. Both are the message on the wire that a reader accepts, with the right name, length and checksum.\<close>

theorem version_and_ping_answered:
  assumes "hash_provider P sha ripemd" "ab_wf (spv_out_buf node)"
    and "ab_start_pos (spv_out_buf node) + ab_length (spv_out_buf node) + 32 < 2 ^ 63"
    and "bitcoin_message_parse P L m0 (message_header_bytes h @ body) None 0 = Inr (m, True)" "length (mh_command h) = 12"
    and "map callback_type (spv_callbacks node) = [0..30]" "spv_callbacks node ! nat t = Node_handler t" "msg_type m = t"
    and "t = msg_version \<and> msg_object m = Some (Obj_version v) \<and> reply_type = msg_verack \<and> reply = []
      \<or> t = msg_ping \<and> length body = 8 \<and> mh_length h = 8 \<and> reply_type = msg_pong \<and> reply = body"
  shows "\<exists>n. on_message_handler E node m = Inr (0, n)
    \<and> ab_content (spv_out_buf n) = ab_content (spv_out_buf node)
        @ message_header_bytes (wire_header P (mh_magic h) reply_type reply) @ reply
    \<and> (t = msg_version \<longrightarrow> spv_peer_version n = mv_version v \<and> spv_peer_height n = mv_start_height v)"
proof -
  have len: "length (spv_callbacks node) = 31" using arg_cong [OF assms(6), of length] by simp
  have h: "message_header_of (message_header_bytes h @ r) = h" for r by (rule message_header_of_bytes [OF assms(5)])
  have hl: "length (message_header_bytes h) = 24" by (rule length_message_header [OF assms(5)])
  have data: "msg_data m = Some (message_header_bytes h @ take (unat (mh_length h)) body)"
    and sum: "take 4 (hash256 P (take (unat (mh_length h)) body)) = enc32 (mh_checksum h)"
    using assms(4) h [of body] h [of "[]"] hl
    by (auto simp: bitcoin_message_parse_def Let_def res_simps bitcoin_message_clear_def split: if_splits)
  have push: "\<exists>b. auto_buffer_push (spv_out_buf node) (Some x) (length x) = Inr (b, True)
      \<and> ab_content b = ab_content (spv_out_buf node) @ x" if "length x \<le> 32" for x
  proof -
    have "ab_room (spv_out_buf node) (length x + 0)" by (rule wf_room [OF assms(2)]) (use assms(3) that in simp)
    from buffer_push [OF this] show ?thesis by (auto simp: push_all_def res_simps split: if_splits)
  qed
  from assms(9) show ?thesis
  proof (elim disjE conjE)
    assume t: "t = msg_version" "msg_object m = Some (Obj_version v)" "reply_type = msg_verack" "reply = []"
    let ?h = "wire_header P (mh_magic h) msg_verack []"
    have "length (message_header_bytes ?h) = 24"
      by (rule length_message_header) (simp add: wire_header_def length_wire_name)
    with push [of "message_header_bytes ?h"] obtain b where
        b: "auto_buffer_push (spv_out_buf node) (Some (message_header_bytes ?h)) (length (message_header_bytes ?h)) = Inr (b, True)"
           "ab_content b = ab_content (spv_out_buf node) @ message_header_bytes ?h" by auto
    have "?h = \<lparr>mh_magic = mh_magic h, mh_command = c_strncpy 12 (c_string ''verack''), mh_length = 0, mh_checksum = 0xe2e0f65d\<rparr>"
      by (simp add: wire_header_def wire_name_def s_sz_message_types_def EMPTY_PAYLOAD_CHECKSUM_def)
    then show ?thesis
      using t b assms(7,8) len data h
      by (simp add: on_message_handler_def node_handler_def on_message_version_def send_message_verack_def message_bytes_def
          push_out_def Let_def)
  next
    assume t: "t = msg_ping" "length body = 8" "mh_length h = 8" "reply_type = msg_pong" "reply = body"
    let ?h = "wire_header P (mh_magic h) msg_pong body"
    have "length (message_header_bytes ?h) = 24"
      by (rule length_message_header) (simp add: wire_header_def length_wire_name)
    with push [of "message_header_bytes ?h @ body"] t(2) obtain b where
        b: "auto_buffer_push (spv_out_buf node) (Some (message_header_bytes ?h @ body)) (length (message_header_bytes ?h @ body)) = Inr (b, True)"
           "ab_content b = ab_content (spv_out_buf node) @ message_header_bytes ?h @ body" by auto
    have "length (hash256 P body) = 32" by (rule hash_provider.hash256_length [OF assms(1)])
    moreover have "take 4 (hash256 P body) = enc32 (mh_checksum h)" using sum t(2,3) by simp
    ultimately have "dec32 (hash256 P body) = mh_checksum h" by (metis dec_enc_nil(2) dec32_take)
    moreover have "s_sz_message_types ! 18 = ''pong''" by (simp add: s_sz_message_types_def)
    ultimately have "?h = \<lparr>mh_magic = mh_magic h, mh_command = c_strncpy 12 (c_string ''pong''), mh_length = 8, mh_checksum = mh_checksum h\<rparr>"
      using t(2) by (auto simp: wire_header_def wire_name_def)
    then show ?thesis
      using t b assms(7,8) len data h hl
      by (simp add: on_message_handler_def node_handler_def send_message_pong_def message_bytes_def push_out_def Let_def mem_read_def)
  qed
qed

text \<open>C25. One message of 24 bytes ends the program of a node that has just connected: a version, an address or a
  ping message without payload passes all checks of the reader and runs into an assertion of its handler.\<close>

theorem empty_message_ends_program:
  assumes "take 4 (hash256 (env_hash E) []) = enc32 EMPTY_PAYLOAD_CHECKSUM" "t \<in> {msg_version, msg_addr, msg_ping}"
    and "fresh_buffer (spv_in_buf node)" "map callback_type (spv_callbacks node) = [0..30]"
    and "spv_callbacks node ! nat t = Node_handler t"
  shows "on_read E node [Some (message_header_bytes (wire_header (env_hash E) (spv_magic node) t []))] = Inl Abort"
proof -
  let ?d = "message_header_bytes (wire_header (env_hash E) (spv_magic node) t [])"
  have t: "0 < t" "t < msg_types_count" using assms(2) by auto
  note whole = empty_message_whole [OF t assms(1)]
  have len: "length (spv_callbacks node) = 31" using arg_cong [OF assms(4), of length] by simp
  have "length (mh_command (wire_header (env_hash E) (spv_magic node) t [])) = 12" using t by (simp add: wire_header_def length_wire_name)
  note h = length_message_header [OF this] message_header_of_bytes [OF this, of "[]"]
  have ne: "?d \<noteq> []" using h(1) by auto
  obtain b k where b: "auto_buffer_push (spv_in_buf node) (Some ?d) (length ?d) = Inr (b, True)" "ab_data b = map Some ?d @ replicate k None"
      "ab_length b = length ?d" "ab_start_pos b = 0"
    using push_fresh [of "spv_in_buf node" "ab_size (spv_in_buf node)" ?d] assms(3) h(1) ne by (auto simp: fresh_buffer_def)
  have cs: "auto_buffer_get_data b = Some (ab_data b)" by (rule get_data_fresh [OF b(2) ne b(4)])
  have "take 4 (drop 16 ?d) = enc32 0" using h(2) t
    by (simp add: message_header_bytes_def wire_header_def length_wire_name)
  then have reads: "cells_read 16 4 (ab_data b) = Inr (enc32 0)" "cells_read 0 24 (ab_data b) = Inr ?d"
    using b(2) h(1) by (auto simp: cells_read_def Let_def take_map drop_map)
  let ?m = "message_zero\<lparr>msg_data := Some ?d, msg_type := t\<rparr>"
  have abort: "on_message_handler E (node\<lparr>spv_in_buf := b\<rparr>) ?m = Inl Abort"
    using assms(2,5) len h(2)
    by (auto simp: on_message_handler_def node_handler_def on_message_version_def on_message_addr_def send_message_pong_def
        message_bytes_def message_zero_def wire_header_def)
  have "bitcoin_message_parse (env_hash E) (payloads E) message_zero ?d (Some []) 0 = Inr (?m, True)"
    using whole(1) [of "spv_magic node"] h(1) by simp
  moreover have "mh_magic (message_header_of ?d) = spv_magic node" using h(2) by (simp add: wire_header_def)
  ultimately have "read_messages E (ab_data b) 24 0 0 (node\<lparr>spv_in_buf := b\<rparr>) = Inl Abort"
    using reads abort h(1) by (subst read_messages.simps) simp
  then show ?thesis using b(1,3) cs ne h(1) by (simp add: on_read_def)
qed

text \<open>Writing loses nothing and keeps the order: what the socket takes and what is then left in the buffer make up what
  was there before, whatever numbers of bytes the socket accepts. But a socket that does not take
  everything at once costs the connection, with all that is left.\<close>

theorem writing_keeps_order:
  assumes "ab_wf (spv_out_buf node)"
  shows "\<exists>rc sent n. on_write node results = Inr (rc, sent, n) \<and> sent @ ab_content (spv_out_buf n) = ab_content (spv_out_buf node)
    \<and> rc = (if ab_content (spv_out_buf n) = [] then 0 else -1)
    \<and> handle_ready E node None (Some results) gone = Inr (sent, if ab_content (spv_out_buf n) \<noteq> [] \<or> gone then spv_close n else n)"
proof -
  let ?b = "spv_out_buf node"
  let ?cs = "case auto_buffer_get_data ?b of None \<Rightarrow> [] | Some cs \<Rightarrow> cs"
  obtain pre suf where b: "ab_data ?b = pre @ map Some (ab_content ?b) @ suf" "length pre = ab_start_pos ?b"
      "length (ab_content ?b) = ab_length ?b" "length (ab_data ?b) = ab_size ?b" "ab_size ?b < 2 ^ 64"
    using assms by (rule wfE)
  have data: "auto_buffer_get_data ?b = Some ?cs \<or> ?cs = [] \<and> ab_data ?b = []" by (simp add: auto_buffer_get_data_def)
  then have cs: "?cs = map Some (ab_content ?b) @ suf"
    using b(1,2) by (auto simp: auto_buffer_get_data_def split: if_splits)
  obtain q where q: "write_loop ?cs 0 (ab_length ?b) results = Inr (if q = ab_length ?b then 0 else -1, q, take q (ab_content ?b))"
      "q \<le> ab_length ?b"
    using write_loop_effect [OF cs, of 0 "ab_length ?b" results] b(3) by auto
  note keep = keep_rest_wf [OF assms data q(2)]
  let ?n = "node\<lparr>spv_out_buf := keep_rest ?b ?cs q, spv_pollout := spv_pollout node \<and> 0 < ab_length (keep_rest ?b ?cs q)\<rparr>"
  have wr: "on_write node results = Inr (if q = ab_length ?b then 0 else -1, take q (ab_content ?b), ?n)"
    using q(1) by (simp add: on_write_def Let_def)
  have "take q (ab_content ?b) @ ab_content (spv_out_buf ?n) = ab_content ?b" using keep(2) by simp
  moreover have left: "ab_content (spv_out_buf ?n) = [] \<longleftrightarrow> q = ab_length ?b" using keep(2) b(3) q(2) by auto
  moreover have "handle_ready E node None (Some results) gone = Inr (take q (ab_content ?b),
      if ab_content (spv_out_buf ?n) \<noteq> [] \<or> gone then spv_close ?n else ?n)"
    unfolding left by (simp add: handle_ready_def wr)
  ultimately show ?thesis using wr by (intro exI [of _ "if q = ab_length ?b then 0 else -1"] exI [of _ "take q (ab_content ?b)"] exI [of _ ?n]) simp
qed

text \<open>C26. The address book after a message with addresses: every address with its port has the time and the services of its
  last occurrence in the message, or else those it had before; there is one entry for each.\<close>

theorem address_book_updated:
  assumes "addresses.tree_ok (spv_addrs_list node)" "msg_object m = Some (Obj_addr a)" "\<forall>x \<in> set (ma_addrs a). address_valid x"
    and "on_message_addr node m = Inr (rc, n)"
  shows "address_book (spv_addrs_list n) = address_book (spv_addrs_list node)
      ++ map_of (map address_entry (rev (take (nat (ma_count a)) (ma_addrs a))))
    \<and> addresses.tree_ok (spv_addrs_list n)"
proof -
  obtain t where t: "save_addresses (spv_addrs_list node) (nat (ma_count a)) (ma_addrs a) = Inr t" "n = node\<lparr>spv_addrs_list := t\<rparr>"
    using assms(2,4) by (auto simp: on_message_addr_def res_simps)
  show ?thesis using postD [OF save_addresses_book [OF assms(1,3)] t(1)] t(2) by simp
qed


section \<open>Concrete runs\<close>

lemma fill_page_stop:
  "cursor_pget B (hd_store db) c (enc32 (hd_offset db)) DB_NEXT = (e, x) \<Longrightarrow> e \<noteq> 0 \<Longrightarrow> 0 < left \<Longrightarrow>
    fill_page B db c i left rc = (e, db)"
  by (cases left; cases x) auto

lemma empty_store_next:
  "hd_store db = [] \<Longrightarrow> 0 < hd_limits db \<Longrightarrow> \<exists>db1. headers_db_next store_ops db = Inr (1, db1)"
  by (auto simp: headers_db_next_def db_cursor_pget_def read_page_def store_ops_def store_entry_def store_index_def Let_def
      fill_page_stop page_offset_def)

theorem node_always_ok_witness:
  "\<exists>node1 n. app_start 1 zero_env (snd (projr (spv_node_load_config (app_context_init unit_work []) None))) = Inr node1
    \<and> spv_node_run zero_env node1 [None] = Inr ([], n)
    \<and> chain_ok unit_work g_genesis_block_hash (spv_chain n) \<and> map callback_type (spv_callbacks n) = [0..30]"
proof -
  let ?node = "app_context_init unit_work [] :: (nat, (bytes \<times> bytes) list) spv_node"
  have net: "bitcoin_network_type_from_string ''mainnet'' = 1" by code_simp
  let ?loaded = "?node\<lparr>spv_host := Some ''node1.cloud.c-apps.net'', spv_port := Some ''8333'', spv_magic := 0xD9B4BEF9\<rparr>"
  have load: "spv_node_load_config ?node None = Inr (0, ?loaded)"
    by (simp add: spv_node_load_config_def generate_default_config_def Let_def net)
  obtain node0 where node0: "spv_node_load_config ?node None = Inr (0, node0)" "spv_hdrs_db node0 = spv_hdrs_db ?node"
      "spv_host node0 = Some ''node1.cloud.c-apps.net''" "spv_port node0 = Some ''8333''" "spv_max_retries node0 = 5"
    by (rule that [OF load]) (simp_all add: app_context_init_def spv_node_context_init_def)
  obtain db1 where "headers_db_next store_ops (spv_hdrs_db node0) = Inr (1, db1)"
    using empty_store_next [of "spv_hdrs_db node0"]
    by (auto simp: node0(2) app_context_init_def spv_node_context_init_def block_headers_db_init_def)
  then have start: "app_start 1 zero_env node0 = Inr ((custom_init node0)\<lparr>spv_hdrs_db := db1\<rparr>)"
    by (simp add: app_start_def custom_init_def zero_env_def Let_def)
  let ?started = "(custom_init node0)\<lparr>spv_hdrs_db := db1\<rparr>"
  have run: "spv_node_run zero_env ?started [None] = Inr ([], ?started)"
    by (simp add: spv_node_run_def custom_init_def node0(3-5) numeral_eq_Suc)
  have env: "typed_env zero_env" "env_work zero_env = unit_work" by (simp_all add: typed_env_def zero_env_def)
  note ok = node_always_ok [OF env(1) _ start run, unfolded env(2), OF node0(1)]
  show ?thesis using start run ok by (simp add: node0(1))
qed

lemma sample_callbacks:
  "map callback_type (spv_callbacks sample_node) = [0..30]" "spv_callbacks sample_node ! 17 = Node_handler 17"
  "spv_callbacks sample_node ! 1 = Node_handler 1"
proof -
  show "map callback_type (spv_callbacks sample_node) = [0..30]"
    using custom_init_ok [OF init_ok, of unit_work "[] :: (bytes \<times> bytes) list"] by (simp only: node_ok_def sample_node_def)
  show "spv_callbacks sample_node ! 17 = Node_handler 17" "spv_callbacks sample_node ! 1 = Node_handler 1"
    by (simp_all add: sample_node_def custom_init_def app_context_init_def spv_node_context_init_def s_spv_node_callbacks_def nth_upto)
qed

theorem version_and_ping_answered_witness:
  "\<exists>m n. bitcoin_message_parse (env_hash zero_env) (payloads zero_env) message_zero
        (message_header_bytes (wire_header (env_hash zero_env) 7 msg_ping [1, 2, 3, 4, 5, 6, 7, 8]) @ [1, 2, 3, 4, 5, 6, 7, 8]) None 0 = Inr (m, True)
    \<and> on_message_handler zero_env sample_node m = Inr (0, n)
    \<and> ab_content (spv_out_buf n) = message_header_bytes (wire_header (env_hash zero_env) 7 msg_pong [1, 2, 3, 4, 5, 6, 7, 8]) @ [1, 2, 3, 4, 5, 6, 7, 8]"
proof -
  let ?P = "env_hash zero_env" and ?body = "[1, 2, 3, 4, 5, 6, 7, 8] :: bytes"
  let ?h = "wire_header ?P 7 msg_ping ?body"
  let ?m = "message_zero\<lparr>msg_data := Some (message_header_bytes ?h @ ?body), msg_type := msg_ping\<rparr>"
  have len: "length (mh_command ?h) = 12" by (simp add: wire_header_def length_wire_name)
  have name: "bitcoin_message_type_from_string (mh_command ?h) = Inr msg_ping" using known_name(5) [of msg_ping] by (simp add: wire_header_def)
  have P: "hash_provider ?P (fit 32 (\<lambda>m. enc32 EMPTY_PAYLOAD_CHECKSUM)) (fit 20 id)"
    using recording.hash_provider_axioms by (simp add: zero_env_def)
  have "length (hash256 ?P ?body) = 32" by (rule hash_provider.hash256_length [OF P])
  then have sum: "take 4 (hash256 ?P ?body) = enc32 (mh_checksum ?h)" by (simp add: wire_header_def enc_dec)
  have parse: "bitcoin_message_parse ?P (payloads zero_env) message_zero (message_header_bytes ?h @ ?body) None 0 = Inr (?m, True)"
    using message_header_of_bytes [OF len, of "[]"] length_message_header [OF len] name sum
    by (simp add: bitcoin_message_parse_def Let_def mem_read_def bitcoin_message_clear_def message_zero_def get_payload_parser_def
        s_payload_parsers_def wire_header_def)
  have out: "ab_wf (auto_buffer_init 0)" "ab_start_pos (auto_buffer_init 0) = 0" "ab_length (auto_buffer_init 0) = 0" "ab_content (auto_buffer_init 0) = []"
    by (simp_all add: ab_wf_def auto_buffer_init_def auto_buffer_resize_def auto_buffer_zero_def AUTO_BUFFER_ALLOC_SIZE_def Let_def ab_content_def)
  show ?thesis
    using version_and_ping_answered [OF P _ _ parse len, of sample_node msg_ping undefined msg_pong ?body zero_env] parse out
      sample_callbacks sample_node_facts(3)
    by (simp add: wire_header_def)
qed

theorem empty_message_ends_program_witness:
  "on_read zero_env sample_node [Some (sample_message msg_ping)] = Inl Abort"
proof -
  have "fresh_buffer (spv_in_buf sample_node)"
    by (simp add: sample_node_facts fresh_buffer_def auto_buffer_init_def auto_buffer_resize_def auto_buffer_zero_def
        AUTO_BUFFER_ALLOC_SIZE_def Let_def)
  then show ?thesis
    using empty_message_ends_program [OF zero_env_hash, of msg_ping sample_node] sample_callbacks
    by (simp add: sample_message_def sample_node_facts)
qed

theorem writing_keeps_order_witness:
  "\<exists>n. on_write (sample_node\<lparr>spv_out_buf := \<lparr>ab_size = 3, ab_length = 3, ab_start_pos = 0, ab_data = [Some 1, Some 2, Some 3]\<rparr>\<rparr>) [2]
      = Inr (-1, [1, 2], n) \<and> ab_content (spv_out_buf n) = [3]"
proof -
  let ?node = "sample_node\<lparr>spv_out_buf := \<lparr>ab_size = 3, ab_length = 3, ab_start_pos = 0, ab_data = [Some 1, Some 2, Some 3]\<rparr>\<rparr>"
  have wf: "ab_wf (spv_out_buf ?node)" "ab_content (spv_out_buf ?node) = [1, 2, 3]" by (simp_all add: ab_wf_def ab_content_def)
  have "\<exists>n. on_write ?node [2] = Inr (-1, [1, 2], n)"
    by (simp add: on_write_def auto_buffer_get_data_def cells_read_def numeral_3_eq_3 Let_def)
  then show ?thesis using writing_keeps_order [OF wf(1), where results = "[2]" and gone = False and E = zero_env] wf(2) by auto
qed

theorem address_book_updated_witness:
  "\<exists>n. on_message_addr sample_node (message_zero\<lparr>msg_object := Some (Obj_addr \<lparr>ma_count = 2, ma_addrs =
        [\<lparr>na_time = 1, na_services = 9, na_ip = replicate 16 7, na_port = 80\<rparr>,
         \<lparr>na_time = 2, na_services = 8, na_ip = replicate 16 7, na_port = 80\<rparr>]\<rparr>)\<rparr>) = Inr (0, n)
    \<and> address_book (spv_addrs_list n) = [(replicate 16 7, 80) \<mapsto> (2, 8)]"
proof -
  let ?a = "\<lparr>na_time = 1, na_services = 9, na_ip = replicate 16 7, na_port = 80\<rparr>"
  let ?b = "\<lparr>na_time = 2, na_services = 8, na_ip = replicate 16 7, na_port = 80\<rparr>"
  let ?m = "message_zero\<lparr>msg_object := Some (Obj_addr \<lparr>ma_count = 2, ma_addrs = [?a, ?b]\<rparr>)\<rparr>"
  have t: "spv_addrs_list sample_node = avl_tree_init"
    by (simp add: sample_node_def custom_init_def app_context_init_def spv_node_context_init_def)
  have ok: "addresses.tree_ok avl_tree_init" "address_book avl_tree_init = Map.empty"
    by (simp_all add: addresses.tree_ok_def avl_tree_init_def address_book_def)
  have same: "network_address_compare ?b ?a = 0" by (simp add: network_address_compare_def memcmp_eq)
  have "\<exists>n. on_message_addr sample_node ?m = Inr (0, n)"
    by (simp add: on_message_addr_def t numeral_2_eq_2 save_address_def avl_tree_add_def avl_tree_init_def same)
  then obtain n where n: "on_message_addr sample_node ?m = Inr (0, n)" ..
  show ?thesis
    using address_book_updated [OF _ _ _ n, of "\<lparr>ma_count = 2, ma_addrs = [?a, ?b]\<rparr>"] t ok
    by (intro exI [of _ n]) (simp add: n address_entry_def numeral_2_eq_2)
qed


end
