(* ===== verification/SpvSync.thy ===== *)
theory SpvSync
  imports SpvLife
begin

text \<open>
  The database of headers and the block chain of a node: the call-backs keep one record for each block
  above the genesis block, and the chain is built up again from the records when the program starts.
\<close>

section \<open>What the database holds\<close>

text \<open>The record of a block, and the records of blocks with their hashes from the first height up.\<close>

definition chain_record :: "nat \<Rightarrow> block_header \<Rightarrow> bytes" where
  "chain_record height h = record_bytes (record_zero\<lparr>rec_height := of_nat height, rec_hdr := h\<rparr>)"

definition stored :: "(bytes \<times> block_header) list \<Rightarrow> bytes \<Rightarrow> bytes option" where
  "stored es = map_of (map (\<lambda>i. (fst (es ! i), chain_record (Suc i) (snd (es ! i)))) [0..<length es])"

lemma stored_empty [simp]: "stored [] = Map.empty"
  by (simp add: stored_def)

lemma stored_keys: "map fst (map (\<lambda>i. (fst (es ! i), f i)) [0..<length es]) = map fst es"
  by (rule nth_equalityI) simp_all

lemma dom_stored: "dom (stored es) = fst ` set es"
  unfolding stored_def dom_map_of_conv_image_fst set_map [symmetric] stored_keys ..

lemma stored_snoc:
  assumes "hash \<notin> fst ` set es"
  shows "stored (es @ [(hash, h)]) = (stored es)(hash \<mapsto> chain_record (Suc (length es)) h)"
proof -
  have "map (\<lambda>i. (fst ((es @ [(hash, h)]) ! i), chain_record (Suc i) (snd ((es @ [(hash, h)]) ! i)))) [0..<length es]
      = map (\<lambda>i. (fst (es ! i), chain_record (Suc i) (snd (es ! i)))) [0..<length es]"
    by (rule map_cong) (simp_all add: nth_append)
  then have "stored (es @ [(hash, h)]) = [hash \<mapsto> chain_record (Suc (length es)) h] ++ stored es"
    by (simp add: stored_def del: map_eq_conv)
  also have "\<dots> = (stored es)(hash \<mapsto> chain_record (Suc (length es)) h)"
    using assms dom_stored [of es] by (subst map_add_comm) (auto simp: map_add_upd)
  finally show ?thesis .
qed

lemma stored_butlast:
  assumes "distinct (map fst es)" "es \<noteq> []"
  shows "stored (butlast es) = (stored es)(fst (last es) := None)"
proof -
  obtain ys hash h where es: "es = ys @ [(hash, h)]" using assms(2) by (metis append_butlast_last_id prod.collapse)
  have new: "hash \<notin> fst ` set ys" using assms(1) by (auto simp: es)
  then have "stored ys hash = None" using dom_stored [of ys] by (auto simp: domIff [symmetric])
  then show ?thesis by (simp add: es stored_snoc [OF new] fun_upd_idem)
qed

lemma stored_nth:
  assumes "distinct (map fst es)" "i < length es"
  shows "stored es (fst (es ! i)) = Some (chain_record (Suc i) (snd (es ! i)))"
proof -
  have "distinct (map fst (map (\<lambda>i. (fst (es ! i), chain_record (Suc i) (snd (es ! i)))) [0..<length es]))"
    unfolding stored_keys by (rule assms(1))
  then show ?thesis unfolding stored_def by (rule map_of_is_SomeI) (use assms(2) in auto)
qed

section \<open>The call-backs\<close>

lemma track_none [simp]: "foldl track None evs = None"
  by (induction evs) simp_all

lemma track_distinct:
  "distinct (map fst es) \<Longrightarrow> foldl track (Some es) evs = Some es' \<Longrightarrow> distinct (map fst es')"
proof (induction evs arbitrary: es)
  case (Cons e evs)
  then obtain es1 where es1: "track (Some es) e = Some es1" by (cases "track (Some es) e") auto
  then have "distinct (map fst es1)"
    using Cons.prems(1) by (cases e) (auto simp: map_butlast distinct_butlast split: if_splits)
  then show ?case by (rule Cons.IH) (use Cons.prems(2) es1 in simp)
qed simp

context header_index
begin

lemma callback_stored:
  assumes "recs (hd_store db) = stored es" "distinct (map fst es)" "track (Some es) e = Some es'"
  shows "\<exists>db'. chain_callback B db e = Inr db' \<and> recs (hd_store db') = stored es' \<and> db' = db\<lparr>hd_store := hd_store db'\<rparr>"
proof (cases e)
  case (Added i hash h)
  then have "i = Suc (length es)" "hash \<notin> fst ` set es" "es' = es @ [(hash, h)]"
    using assms(3) by (auto split: if_splits)
  then show ?thesis
    using put [of "hd_store db" hash "chain_record i h"] assms(1)
    by (auto simp: Added on_add_block_def headers_db_put_def chain_record_def stored_snoc)
next
  case (Removed i hash)
  then have "es \<noteq> []" "hash = fst (last es)" "es' = butlast es"
    using assms(3) by (auto split: if_splits)
  then show ?thesis
    using del [of "hd_store db" hash] assms(1,2) notfound
    by (auto simp: Removed on_remove_block_def headers_db_del_def stored_butlast)
qed

lemma callbacks_stored:
  "recs (hd_store db) = stored es \<Longrightarrow> distinct (map fst es) \<Longrightarrow> foldl track (Some es) evs = Some es' \<Longrightarrow>
    \<exists>db'. chain_callbacks B db evs = Inr db' \<and> recs (hd_store db') = stored es' \<and> db' = db\<lparr>hd_store := hd_store db'\<rparr>"
proof (induction evs arbitrary: db es)
  case (Cons e evs)
  from Cons.prems(3) obtain es1 where es1: "track (Some es) e = Some es1" by (cases "track (Some es) e") auto
  obtain db1 where db1: "chain_callback B db e = Inr db1" "recs (hd_store db1) = stored es1" "db1 = db\<lparr>hd_store := hd_store db1\<rparr>"
    using callback_stored [OF Cons.prems(1,2) es1] by blast
  have "distinct (map fst es1)" by (rule track_distinct [OF Cons.prems(2), of "[e]"]) (simp add: es1)
  then obtain db2 where db2: "chain_callbacks B db1 evs = Inr db2" "recs (hd_store db2) = stored es'" "db2 = db1\<lparr>hd_store := hd_store db2\<rparr>"
    using Cons.IH [OF db1(2)] Cons.prems(3) es1 by auto
  have "db2 = db\<lparr>hd_store := hd_store db2\<rparr>" using db1(3) db2(3) by (metis headers_db.surjective headers_db.update_convs(1))
  then show ?case using db1(1) db2(1,2) by (intro exI [of _ db2]) simp
qed (auto intro!: exI)

end

section \<open>The database mirrors the chain\<close>

definition mirrors :: "('s \<Rightarrow> bytes \<Rightarrow> bytes option) \<Rightarrow> 'w work_ops \<Rightarrow> ('w, 's) spv_node \<Rightarrow> bool" where
  "mirrors recs W node \<longleftrightarrow> chain_ok W g_genesis_block_hash (spv_chain node)
     \<and> recs (hd_store (spv_hdrs_db node)) = stored (heir_entries (spv_chain node) (nat (bc_height (spv_chain node))))"

lemma chain_ok_tracked: "chain_ok W start s \<Longrightarrow> foldl track (Some []) (bc_events s) = Some (heir_entries s (nat (bc_height s)))"
  by (simp add: chain_ok_def chain_upto_def followed_def)

lemma chain_add_mirrors:
  assumes "header_index (env_db E) recs entries place" "mirrors recs (env_work E) node"
    and "blockchain_add (env_fuel E) (env_hash E) (env_work E) (spv_chain node) claimed h = Inr (s1, ok)"
  shows "\<exists>d. chain_add E node claimed h = Inr (node\<lparr>spv_chain := s1, spv_hdrs_db := spv_hdrs_db node\<lparr>hd_store := d\<rparr>\<rparr>, ok)
    \<and> mirrors recs (env_work E) (node\<lparr>spv_chain := s1, spv_hdrs_db := spv_hdrs_db node\<lparr>hd_store := d\<rparr>\<rparr>)"
proof -
  let ?s = "spv_chain node"
  note t = chain_ok_tracked
  have ok: "chain_ok (env_work E) g_genesis_block_hash ?s" "chain_ok (env_work E) g_genesis_block_hash s1"
    using assms(2) postD [OF chain_ok_add assms(3)] by (simp_all add: mirrors_def)
  obtain more where more: "bc_events s1 = bc_events ?s @ more" using postD [OF grew_add assms(3)] by auto
  have "distinct (map fst (heir_entries ?s (nat (bc_height ?s))))" by (rule track_distinct [OF _ t [OF ok(1)]]) simp
  moreover have "foldl track (Some (heir_entries ?s (nat (bc_height ?s)))) more = Some (heir_entries s1 (nat (bc_height s1)))"
    using t [OF ok(1)] t [OF ok(2)] more by simp
  ultimately obtain db where "chain_callbacks (env_db E) (spv_hdrs_db node) more = Inr db"
      "recs (hd_store db) = stored (heir_entries s1 (nat (bc_height s1)))" "db = spv_hdrs_db node\<lparr>hd_store := hd_store db\<rparr>"
    using header_index.callbacks_stored [OF assms(1)] assms(2) unfolding mirrors_def by blast
  then show ?thesis
    using assms(3) more ok(2) by (intro exI [of _ "hd_store db"]) (simp add: chain_add_def mirrors_def Let_def)
qed

lemma chain_add_keeps_mirror:
  assumes "header_index (env_db E) recs entries place" "mirrors recs (env_work E) node" "chain_add E node claimed h = Inr (n, ok)"
  shows "mirrors recs (env_work E) n"
proof -
  obtain s1 where "blockchain_add (env_fuel E) (env_hash E) (env_work E) (spv_chain node) claimed h = Inr (s1, ok)"
    using assms(3) by (auto simp: chain_add_def Let_def res_simps)
  from chain_add_mirrors [OF assms(1,2) this] show ?thesis using assms(3) by auto
qed

lemma add_headers_mirrors:
  "header_index (env_db E) recs entries place \<Longrightarrow> mirrors recs (env_work E) node \<Longrightarrow> add_headers E node k hs = Inr n \<Longrightarrow>
    mirrors recs (env_work E) n"
proof (induction E node k hs arbitrary: n rule: add_headers.induct)
  case (3 E node k h txn_count hdrs)
  then obtain n1 ok where add: "chain_add E node None h = Inr (n1, ok)" and rest: "(if ok then add_headers E n1 k hdrs else Inr n1) = Inr n"
    by (auto simp: res_simps)
  have "mirrors recs (env_work E) n1" by (rule chain_add_keeps_mirror [OF 3(2,3) add])
  then show ?case using rest 3(1) [OF add refl _ 3(2)] by (cases ok) auto
qed simp_all

lemma handler_mirrors:
  assumes "header_index (env_db E) recs entries place" "mirrors recs (env_work E) node" "on_message_handler E node m = Inr (rc, n)"
  shows "mirrors recs (env_work E) n"
  using assms(3)
proof (cases rule: handler_cases)
  case (headers hs node1)
  have "mirrors recs (env_work E) node1" by (rule add_headers_mirrors [OF assms(1,2) headers(2)])
  then show ?thesis using headers(3) by (auto simp: mirrors_def only_pushed_def)
qed (use assms(2) in \<open>auto simp: mirrors_def only_pushed_def\<close>)

interpretation mirrored: node_invariant E "\<lambda>node. header_index (env_db E) recs entries place \<longrightarrow> mirrors recs (env_work E) node"
  for E :: "('c, 'd, 'w, 's, 'k) spv_env" and recs entries place
  by (unfold_locales, blast intro: handler_mirrors, auto simp: mirrors_def)

text \<open>A start with an empty database.\<close>

context header_index
begin

lemma empty_next:
  assumes "recs (hd_store db) = Map.empty" "0 < hd_limits db"
  shows "\<exists>db1. headers_db_next B db = Inr (db_notfound B, db1) \<and> hd_store db1 = hd_store db"
proof -
  have es: "entries (hd_store db) = []" using entries [of "hd_store db"] assms(1) by simp
  obtain c where c: "db_cursor B (hd_store db) = (0, c)" "place c = None" using cursor by blast
  have set: "\<exists>c' r. cursor_pget B (hd_store db) c h DB_SET = (db_notfound B, c', r) \<and> place c' = None" for h
    using pget_set_none [of "hd_store db" h c] c(2) by (simp add: es)
  have stop: "\<exists>c'' r. cursor_pget B (hd_store db) c' h DB_NEXT = (db_notfound B, c'', r)" if "place c' = None" for c' h
    using pget_next_end [of "hd_store db" c' h] that by (auto simp: es)
  obtain l where l: "hd_limits db = Suc l" using assms(2) by (cases "hd_limits db") auto
  obtain c' sk kk dd where s: "cursor_pget B (hd_store db) c (enc32 (hd_offset db + 1)) DB_SET = (db_notfound B, c', sk, kk, dd)" "place c' = None"
    using set [of "enc32 (hd_offset db + 1)"] by (metis prod.collapse)
  obtain c'' sk2 kk2 dd2 where "cursor_pget B (hd_store db) c' (enc32 (hd_offset db + 1)) DB_NEXT = (db_notfound B, c'', sk2, kk2, dd2)"
    using stop [OF s(2), of "enc32 (hd_offset db + 1)"] by (metis prod.collapse)
  then show ?thesis
    using c(1) s(1) notfound l
    by (simp add: headers_db_next_def db_cursor_pget_def read_page_def page_offset_def Let_def)
qed

end

lemma config_keeps:
  assumes "spv_node_load_config (app_context_init W d) config = Inr (rc, node)"
  shows "spv_hdrs_db (custom_init node) = block_headers_db_init d"
    "spv_chain (custom_init node) = blockchain_init W (blockchain_zero W) None None"
  using assms
  by (auto simp: spv_node_load_config_def Let_def custom_init_def app_context_init_def spv_node_context_init_def split: if_splits)

lemma start_mirrors:
  assumes "header_index (env_db E) recs entries place" "recs d = Map.empty"
    and "spv_node_load_config (app_context_init (env_work E) d) config = Inr (rc, node0)" "app_start fuel E node0 = Inr node1"
  shows "mirrors recs (env_work E) node1"
proof -
  note init = init_facts [of "env_work E" None None]
  note node = config_keeps [OF assms(3)]
  have m: "mirrors recs (env_work E) (custom_init node0\<lparr>spv_hdrs_db := db\<rparr>)" if "hd_store db = d" for db
    using init(1,3) assms(2) that by (simp add: mirrors_def node genesis_hash_def heir_entries_def)
  obtain db1 where "headers_db_next (env_db E) (block_headers_db_init d) = Inr (db_notfound (env_db E), db1)" "hd_store db1 = d"
    using header_index.empty_next [OF assms(1), of "block_headers_db_init d"] assms(2) by (auto simp: block_headers_db_init_def)
  then have "node1 = custom_init node0\<lparr>spv_hdrs_db := db1\<rparr>"
    using assms(4) header_index.notfound [OF assms(1)]
    by (cases fuel) (auto simp: app_start_def node Let_def)
  then show ?thesis using m \<open>hd_store db1 = d\<close> by simp
qed

section \<open>Building the chain up again\<close>

lemma record_decoded: "wf_header h \<Longrightarrow> rec_hdr (record_of (chain_record i h)) = h"
  by (simp add: chain_record_def record_of_bytes)

text \<open>Headers with their hashes.\<close>

definition hashed :: "('c, 'd) hash_ops \<Rightarrow> block_header list \<Rightarrow> (bytes \<times> block_header) list" where
  "hashed P hs = map (\<lambda>h. (hash256 P (header_bytes h), h)) hs"

text \<open>A node whose chain has \<open>n\<close> of the headers, while the database has them all.\<close>

definition reloading ::
    "('c, 'd, 'w, 's, 'k) spv_env \<Rightarrow> ('s \<Rightarrow> bytes \<Rightarrow> bytes option) \<Rightarrow> block_header list \<Rightarrow> nat \<Rightarrow> ('w, 's) spv_node \<Rightarrow> bool" where
  "reloading E recs hs n node \<longleftrightarrow> (let s = spv_chain node in
     chain_ok (env_work E) g_genesis_block_hash s \<and> idle s \<and> bc_height s = int n
     \<and> bc_max_size s = BLOCKCHAIN_DEFAULT_ALLOC_SIZE \<and> n \<le> length hs \<and> length hs + 1 \<le> BLOCKCHAIN_DEFAULT_ALLOC_SIZE
     \<and> heir_entries s n = take n (hashed (env_hash E) hs)
     \<and> extends (env_hash E) (env_work E) (heirs s n) (set (heir_hashes s n)) (drop n hs)
     \<and> recs (hd_store (spv_hdrs_db node)) = stored (hashed (env_hash E) hs)
     \<and> distinct (map fst (hashed (env_hash E) hs)) \<and> (\<exists>fuel. env_fuel E = Suc (Suc (Suc fuel))))"

lemma reload_one:
  assumes "header_index (env_db E) recs entries place" "reloading E recs hs n node" "n < length hs"
  shows "\<exists>s d. chain_add E node (Some (fst (hashed (env_hash E) hs ! n))) (hs ! n)
      = Inr (node\<lparr>spv_chain := s, spv_hdrs_db := spv_hdrs_db node\<lparr>hd_store := d\<rparr>\<rparr>, True)
    \<and> reloading E recs hs (Suc n) (node\<lparr>spv_chain := s, spv_hdrs_db := spv_hdrs_db node\<lparr>hd_store := d\<rparr>\<rparr>)"
proof -
  let ?s = "spv_chain node" and ?h = "hs ! n" and ?db = "spv_hdrs_db node"
  let ?hash = "hash256 (env_hash E) (header_bytes ?h)"
  let ?q = "next_heir (env_work E) (heirs ?s n) ?hash ?h"
  have hash: "fst (hashed (env_hash E) hs ! n) = ?hash" "snd (hashed (env_hash E) hs ! n) = ?h"
    using assms(3) by (simp_all add: hashed_def)
  have drop: "drop n hs = ?h # drop (Suc n) hs" using assms(3) by (simp add: Cons_nth_drop_Suc)
  have ext: "hdr_prev_hash ?h = heir_hash (heirs ?s n)" "?hash \<notin> set (heir_hashes ?s n)"
      "work_less (env_work E) (heir_cumulative_difficulty (heirs ?s n)) (heir_cumulative_difficulty ?q)"
      "extends (env_hash E) (env_work E) ?q (insert ?hash (set (heir_hashes ?s n))) (drop (Suc n) hs)"
    using assms(2) by (simp_all add: reloading_def drop Let_def)
  obtain fuel where fuel: "env_fuel E = Suc (Suc (Suc fuel))" using assms(2) by (auto simp: reloading_def Let_def)
  obtain s' where s': "blockchain_add (Suc (Suc (Suc fuel))) (env_hash E) (env_work E) ?s (Some ?hash) ?h = Inr (s', True)"
      "heirs s' = (heirs ?s)(Suc n := ?q)" "bc_height s' = int (Suc n)" "bc_max_size s' = bc_max_size ?s" "idle s'"
      "chain_ok (env_work E) g_genesis_block_hash s'" "bc_events s' = bc_events ?s @ [Added (Suc n) ?hash ?h]"
    using extend_tip [of "env_work E" g_genesis_block_hash ?s n ?h ?hash "env_hash E" "Some ?hash" fuel] assms(2,3) ext
    by (auto simp: reloading_def Let_def)
  have "stored (hashed (env_hash E) hs) ?hash = Some (chain_record (Suc n) ?h)"
    using stored_nth [of "hashed (env_hash E) hs" n] assms(2,3) hash by (simp add: reloading_def Let_def hashed_def)
  then obtain d where d: "db_put (env_db E) (hd_store ?db) ?hash (chain_record (Suc n) ?h) = (0, d)"
      "recs d = stored (hashed (env_hash E) hs)"
    using header_index.put [OF assms(1), of "hd_store ?db" ?hash "chain_record (Suc n) ?h"] assms(2)
    by (auto simp: reloading_def Let_def fun_upd_idem)
  then have "chain_add E node (Some ?hash) ?h = Inr (node\<lparr>spv_chain := s', spv_hdrs_db := ?db\<lparr>hd_store := d\<rparr>\<rparr>, True)"
    using s'(1,7) fuel by (simp add: chain_add_def Let_def on_add_block_def headers_db_put_def chain_record_def)
  moreover have "set (heir_hashes s' (Suc n)) = insert ?hash (set (heir_hashes ?s n))"
    by (auto simp: heir_hashes_def s'(2) next_heir_def)
  moreover have "heir_entries s' n = heir_entries ?s n" by (simp add: heir_entries_def s'(2))
  then have "heir_entries s' (Suc n) = take (Suc n) (hashed (env_hash E) hs)"
    using assms(2,3) s'(2) by (simp add: reloading_def Let_def take_Suc_conv_app_nth hashed_def next_heir_def)
  ultimately show ?thesis
    using s'(2-6) d(2) assms(2,3) ext(4) by (intro exI [of _ s'] exI [of _ d]) (simp add: hash reloading_def Let_def)
qed

lemma reload_page:
  assumes "header_index (env_db E) recs entries place"
  shows "reloading E recs hs n node \<Longrightarrow> n + k \<le> length hs \<Longrightarrow> take k hashes = map fst (take k (drop n (hashed (env_hash E) hs))) \<Longrightarrow>
    map rec_hdr (take k records) = take k (drop n hs) \<Longrightarrow>
    \<exists>s d. load_page E node k hashes records = Inr (node\<lparr>spv_chain := s, spv_hdrs_db := spv_hdrs_db node\<lparr>hd_store := d\<rparr>\<rparr>)
      \<and> reloading E recs hs (n + k) (node\<lparr>spv_chain := s, spv_hdrs_db := spv_hdrs_db node\<lparr>hd_store := d\<rparr>\<rparr>)"
proof (induction k arbitrary: n node hashes records)
  case 0
  then show ?case by (intro exI [of _ "spv_chain node"] exI [of _ "hd_store (spv_hdrs_db node)"]) simp
next
  case (Suc k)
  let ?es = "hashed (env_hash E) hs"
  have n: "n < length hs" "length ?es = length hs" using Suc.prems(2) by (simp_all add: hashed_def)
  then have drop: "drop n hs = hs ! n # drop (Suc n) hs" "drop n ?es = ?es ! n # drop (Suc n) ?es"
    by (simp_all add: Cons_nth_drop_Suc)
  obtain hashes' where hashes: "hashes = fst (?es ! n) # hashes'" "take k hashes' = map fst (take k (drop (Suc n) ?es))"
    using Suc.prems(3) drop by (cases hashes) auto
  obtain r records' where records: "records = r # records'" "rec_hdr r = hs ! n" "map rec_hdr (take k records') = take k (drop (Suc n) hs)"
    using Suc.prems(4) drop by (cases records) auto
  obtain s d where one: "chain_add E node (Some (fst (?es ! n))) (hs ! n)
        = Inr (node\<lparr>spv_chain := s, spv_hdrs_db := spv_hdrs_db node\<lparr>hd_store := d\<rparr>\<rparr>, True)"
      "reloading E recs hs (Suc n) (node\<lparr>spv_chain := s, spv_hdrs_db := spv_hdrs_db node\<lparr>hd_store := d\<rparr>\<rparr>)"
    using reload_one [OF assms Suc.prems(1) n(1)] by blast
  then show ?case
    using Suc.IH [OF one(2) _ hashes(2) records(3)] Suc.prems(2) by (auto simp: hashes(1) records(1,2))
qed

lemma stored_holds:
  assumes "reloading E recs hs n node"
  shows "holds_chain 1 (recs (hd_store (spv_hdrs_db node))) (map fst (hashed (env_hash E) hs))"
proof -
  let ?es = "hashed (env_hash E) hs"
  have es: "distinct (map fst ?es)" "recs (hd_store (spv_hdrs_db node)) = stored ?es" "length ?es = length hs"
    using assms by (simp_all add: reloading_def Let_def hashed_def)
  moreover have "1 + length hs < 2 ^ 31" using assms by (simp add: reloading_def Let_def BLOCKCHAIN_DEFAULT_ALLOC_SIZE_def)
  moreover have "4 \<le> length (chain_record i h) \<and> dec32 (chain_record i h) = of_nat i" for i h
    by (simp add: chain_record_def record_bytes_def)
  ultimately show ?thesis using stored_nth [OF es(1)] by (auto simp: holds_chain_def dom_stored)
qed

text \<open>The page behind the height that the chain has, which is the first one again when there is none.\<close>

lemma next_page:
  assumes "header_index (env_db E) recs entries place" "reloading E recs hs n node"
    and "hd_offset (spv_hdrs_db node) = of_nat n" "0 < hd_limits (spv_hdrs_db node)" "hs \<noteq> []"
  defines "start \<equiv> if n < length hs then n else 0"
  shows "\<exists>db. headers_db_next (env_db E) (spv_hdrs_db node)
        = Inr (if start + hd_limits (spv_hdrs_db node) \<le> length hs then 0 else db_notfound (env_db E), db)
    \<and> page_at 1 (stored (hashed (env_hash E) hs)) (map fst (hashed (env_hash E) hs)) start db
    \<and> hd_store db = hd_store (spv_hdrs_db node) \<and> hd_limits db = hd_limits (spv_hdrs_db node)"
proof -
  let ?db = "spv_hdrs_db node" and ?es = "hashed (env_hash E) hs"
  note holds = stored_holds [OF assms(2)]
  have len: "length ?es = length hs" by (simp add: hashed_def)
  have n: "n \<le> length hs" "length hs + 1 < 2 ^ 31" using assms(2) by (simp_all add: reloading_def Let_def BLOCKCHAIN_DEFAULT_ALLOC_SIZE_def)
  then have "unat (of_nat (Suc n) :: u32) = Suc n" by (simp add: unat_of_nat del: of_nat_Suc)
  then have "sint (of_nat (Suc n) :: u32) = int (Suc n)" using small_sint [of "of_nat (Suc n)"] n by (simp del: of_nat_Suc)
  then have "shows_page (db_notfound (env_db E)) 1 (recs (hd_store ?db)) (map fst ?es) ?db start (db_cursor_pget (env_db E) ?db DB_NEXT)"
    by (intro header_index.page_from [OF assms(1) holds, where h = "of_nat (Suc n)" and s = "Suc n"])
      (use assms(3-5) len in \<open>auto simp: page_offset_def start_def add.commute\<close>)
  moreover have "recs (hd_store ?db) = stored ?es" using assms(2) by (simp add: reloading_def Let_def)
  ultimately show ?thesis by (auto simp: shows_page_def headers_db_next_def len)
qed

lemma page_contents:
  assumes "page_at 1 (stored (hashed P hs)) (map fst (hashed P hs)) start db" "start + hd_limits db \<le> length hs"
    and "distinct (map fst (hashed P hs))" "\<forall>h \<in> set hs. wf_header h" "hd_limits db = k"
  shows "hd_num_records db = k" "take k (hd_hashes db) = map fst (take k (drop start (hashed P hs)))"
    "map rec_hdr (take k (hd_records db)) = take k (drop start hs)"
    "0 < k \<Longrightarrow> hd_offset db = of_nat (start + k)"
proof -
  let ?es = "hashed P hs"
  have len: "length ?es = length hs" by (simp add: hashed_def)
  have page: "hd_num_records db = k" "take k (hd_hashes db) = take k (drop start (map fst ?es))"
      "take k (hd_records db) = map (\<lambda>x. record_of (the (stored ?es x))) (take k (drop start (map fst ?es)))"
      "hd_offset db = of_nat (1 + start + k - 1)"
    using assms(1,2,5) by (simp_all add: page_at_def Let_def len)
  show "hd_num_records db = k" "take k (hd_hashes db) = map fst (take k (drop start ?es))" "0 < k \<Longrightarrow> hd_offset db = of_nat (start + k)"
    using page by (simp_all add: take_map drop_map)
  show "map rec_hdr (take k (hd_records db)) = take k (drop start hs)"
  proof (rule nth_equalityI)
    fix i
    assume "i < length (map rec_hdr (take k (hd_records db)))"
    then have i: "i < k" "start + i < length hs" using page(3) assms(2,5) len by simp_all
    then have "map rec_hdr (take k (hd_records db)) ! i = rec_hdr (record_of (the (stored ?es (fst (?es ! (start + i))))))"
      unfolding page(3) using len by simp
    also have "\<dots> = rec_hdr (record_of (chain_record (Suc (start + i)) (hs ! (start + i))))"
      using stored_nth [OF assms(3), of "start + i"] i(2) len by (simp add: hashed_def)
    also have "\<dots> = hs ! (start + i)" using assms(4) i(2) by (simp add: record_decoded)
    finally show "map rec_hdr (take k (hd_records db)) ! i = take k (drop start hs) ! i" using i by simp
  qed (use page(3) assms(2,5) len in simp)
qed

lemma reload_again:
  assumes "reloading E recs hs n node" "n = length hs" "hs \<noteq> []" "hashes = fst (hashed (env_hash E) hs ! 0) # hashes'"
    and "records = r # records'" "rec_hdr r = hs ! 0"
  shows "load_page E node (Suc k) hashes records = Inl Abort"
proof -
  let ?s = "spv_chain node" and ?hash = "hash256 (env_hash E) (header_bytes (hs ! 0))"
  have hash: "fst (hashed (env_hash E) hs ! 0) = ?hash" using assms(3) by (simp add: hashed_def)
  have s: "heir_entries ?s n = hashed (env_hash E) hs" "chain_ok (env_work E) g_genesis_block_hash ?s" "bc_height ?s = int n"
    using assms(1,2) by (simp_all add: reloading_def Let_def hashed_def)
  have "heir_hash (heirs ?s 1) = ?hash"
    using arg_cong [OF s(1), of "\<lambda>es. fst (es ! 0)"] assms(2,3) hash by (simp add: heir_entries_def)
  then have "bc_root ?s ?hash = Some 1"
    using s(2,3) assms(2,3) by (auto simp: chain_ok_def chain_upto_def linked_def Suc_le_eq)
  then show ?thesis
    using hash assms(4-6) by (simp add: chain_add_def Let_def blockchain_add_def blockchain_find_def)
qed

lemma reload:
  assumes "header_index (env_db E) recs entries place" "\<forall>h \<in> set hs. wf_header h" "hs \<noteq> []" "0 < l"
  shows "reloading E recs hs n node \<Longrightarrow> hd_offset (spv_hdrs_db node) = of_nat n \<Longrightarrow> hd_limits (spv_hdrs_db node) = l \<Longrightarrow>
    (length hs - n) div l < fuel \<Longrightarrow> (n = length hs \<Longrightarrow> l \<le> n) \<Longrightarrow>
    (if (length hs - n) mod l = 0 then load_headers fuel E node = Inl Abort
     else \<exists>node'. load_headers fuel E node = Inr node' \<and> bc_height (spv_chain node') = int (n + l * ((length hs - n) div l)))"
proof (induction fuel arbitrary: n node)
  case (Suc fuel)
  let ?es = "hashed (env_hash E) hs" and ?start = "if n < length hs then n else 0"
  have n: "n \<le> length hs" "distinct (map fst ?es)" using Suc.prems(1) by (simp_all add: reloading_def Let_def)
  obtain db where db: "headers_db_next (env_db E) (spv_hdrs_db node)
        = Inr (if ?start + l \<le> length hs then 0 else db_notfound (env_db E), db)"
      "page_at 1 (stored ?es) (map fst ?es) ?start db"
      "hd_store db = hd_store (spv_hdrs_db node)" "hd_limits db = l"
    using next_page [OF assms(1) Suc.prems(1,2) _ assms(3)] Suc.prems(3) assms(4) by auto
  have again: "reloading E recs hs n (node\<lparr>spv_hdrs_db := db\<rparr>)"
    using Suc.prems(1) db(3) by (simp add: reloading_def Let_def)
  show ?case
  proof (cases "?start + l \<le> length hs")
    case True
    note page = page_contents [OF db(2) _ n(2) assms(2) db(4), unfolded db(4), OF True]
    have next': "headers_db_next (env_db E) (spv_hdrs_db node) = Inr (0, db)" using db(1) True by simp
    show ?thesis
    proof (cases "n < length hs")
      case more: True
      have same: "node\<lparr>spv_hdrs_db := db, spv_chain := s, spv_hdrs_db := db'\<rparr> = node\<lparr>spv_chain := s, spv_hdrs_db := db'\<rparr>" for s db'
        by (cases node) simp
      obtain s d where load: "load_page E (node\<lparr>spv_hdrs_db := db\<rparr>) l (hd_hashes db) (hd_records db)
            = Inr (node\<lparr>spv_chain := s, spv_hdrs_db := db\<lparr>hd_store := d\<rparr>\<rparr>)"
          "reloading E recs hs (n + l) (node\<lparr>spv_chain := s, spv_hdrs_db := db\<lparr>hd_store := d\<rparr>\<rparr>)"
        using reload_page [OF assms(1) again, of l "hd_hashes db" "hd_records db", unfolded same] page(2,3) True more
        by (auto simp: same)
      have div: "(length hs - n) div l = Suc ((length hs - (n + l)) div l)" "(length hs - n) mod l = (length hs - (n + l)) mod l"
        using le_div_geq [of l "length hs - n"] le_mod_geq [of l "length hs - n"] True more assms(4) by simp_all
      have step: "load_headers (Suc fuel) E node = load_headers fuel E (node\<lparr>spv_chain := s, spv_hdrs_db := db\<lparr>hd_store := d\<rparr>\<rparr>)"
        using page(1) load(1) by (simp add: next' Let_def)
      have sum: "n + l * Suc q = n + l + l * q" for q by simp
      show ?thesis
        unfolding step div sum by (rule Suc.IH [OF load(2)]) (use page(4) db(4) Suc.prems(4) assms(4) div(1) in auto)
    next
      case False
      then have all: "n = length hs" "l = Suc (l - 1)" using n(1) assms(4) by simp_all
      obtain hashes' where "hd_hashes db = fst (?es ! 0) # hashes'"
        using page(2) False all assms(3) by (cases "hd_hashes db"; cases hs; cases l) (auto simp: hashed_def)
      moreover obtain r records' where "hd_records db = r # records'" "rec_hdr r = hs ! 0"
        using page(3) False all assms(3) by (cases "hd_records db"; cases hs; cases l) auto
      ultimately have "load_page E (node\<lparr>spv_hdrs_db := db\<rparr>) (Suc (l - 1)) (hd_hashes db) (hd_records db) = Inl Abort"
        using reload_again [OF again all(1) assms(3)] by blast
      then show ?thesis using all page(1) by (simp add: next' Let_def)
    qed
  next
    case False
    then have "length hs - n < l \<and> n < length hs" using Suc.prems(5) n(1) by (auto split: if_splits)
    moreover have "load_headers (Suc fuel) E node = Inr (node\<lparr>spv_hdrs_db := db\<rparr>)"
      using db(1) False header_index.notfound [OF assms(1)] by (simp add: Let_def)
    ultimately show ?thesis using Suc.prems(1) by (simp add: reloading_def Let_def)
  qed
qed simp

section \<open>Headers that come in order\<close>

text \<open>A node with \<open>n\<close> blocks above the genesis block and no candidates, whose database mirrors the chain.\<close>

definition caught_up :: "('s \<Rightarrow> bytes \<Rightarrow> bytes option) \<Rightarrow> 'w work_ops \<Rightarrow> nat \<Rightarrow> ('w, 's) spv_node \<Rightarrow> bool" where
  "caught_up recs W n node \<longleftrightarrow> mirrors recs W node \<and> idle (spv_chain node) \<and> bc_height (spv_chain node) = int n
     \<and> bc_max_size (spv_chain node) = BLOCKCHAIN_DEFAULT_ALLOC_SIZE"

lemma add_headers_extends:
  assumes "header_index (env_db E) recs entries place" "env_fuel E = Suc (Suc (Suc fuel))"
  shows "caught_up recs (env_work E) n node \<Longrightarrow> n + length hs + 1 \<le> BLOCKCHAIN_DEFAULT_ALLOC_SIZE \<Longrightarrow>
    extends (env_hash E) (env_work E) (heirs (spv_chain node) n) (set (heir_hashes (spv_chain node) n)) (map fst hs) \<Longrightarrow>
    \<exists>s d. let node1 = node\<lparr>spv_chain := s, spv_hdrs_db := spv_hdrs_db node\<lparr>hd_store := d\<rparr>\<rparr> in
      add_headers E node (length hs) hs = Inr node1 \<and> caught_up recs (env_work E) (n + length hs) node1
      \<and> heir_hashes s (n + length hs) = heir_hashes (spv_chain node) n @ map (\<lambda>h. hash256 (env_hash E) (header_bytes (fst h))) hs"
proof (induction hs arbitrary: n node)
  case Nil
  then show ?case by (intro exI [of _ "spv_chain node"] exI [of _ "hd_store (spv_hdrs_db node)"]) simp
next
  case (Cons x hs)
  obtain h c where x: "x = (h, c)" by (cases x)
  let ?s = "spv_chain node" and ?hash = "hash256 (env_hash E) (header_bytes h)"
  let ?q = "next_heir (env_work E) (heirs ?s n) ?hash h"
  obtain s where s: "blockchain_add (env_fuel E) (env_hash E) (env_work E) ?s None h = Inr (s, True)"
      "heirs s = (heirs ?s)(Suc n := ?q)" "bc_height s = int (Suc n)" "bc_max_size s = bc_max_size ?s" "idle s"
    using extend_tip [of "env_work E" g_genesis_block_hash ?s n h ?hash "env_hash E" None fuel] Cons.prems assms(2)
    by (auto simp: caught_up_def mirrors_def x Let_def)
  obtain d where d: "chain_add E node None h = Inr (node\<lparr>spv_chain := s, spv_hdrs_db := spv_hdrs_db node\<lparr>hd_store := d\<rparr>\<rparr>, True)"
      "mirrors recs (env_work E) (node\<lparr>spv_chain := s, spv_hdrs_db := spv_hdrs_db node\<lparr>hd_store := d\<rparr>\<rparr>)"
    using chain_add_mirrors [OF assms(1) _ s(1)] Cons.prems(1) by (auto simp: caught_up_def)
  let ?node1 = "node\<lparr>spv_chain := s, spv_hdrs_db := spv_hdrs_db node\<lparr>hd_store := d\<rparr>\<rparr>"
  have hashes: "heir_hashes s (Suc n) = heir_hashes ?s n @ [?hash]"
    by (simp add: heir_hashes_def s(2) next_heir_def)
  have "caught_up recs (env_work E) (Suc n) ?node1" using d(2) s(3-5) Cons.prems(1) by (simp add: caught_up_def)
  from Cons.IH [OF this] obtain s' d' where ih:
      "add_headers E ?node1 (length hs) hs = Inr (?node1\<lparr>spv_chain := s', spv_hdrs_db := spv_hdrs_db ?node1\<lparr>hd_store := d'\<rparr>\<rparr>)"
      "caught_up recs (env_work E) (Suc n + length hs) (?node1\<lparr>spv_chain := s', spv_hdrs_db := spv_hdrs_db ?node1\<lparr>hd_store := d'\<rparr>\<rparr>)"
      "heir_hashes s' (Suc n + length hs) = heir_hashes s (Suc n) @ map (\<lambda>h. hash256 (env_hash E) (header_bytes (fst h))) hs"
    using Cons.prems(2,3) s(2) hashes by (auto simp: Let_def x)
  have same: "?node1\<lparr>spv_chain := s', spv_hdrs_db := spv_hdrs_db ?node1\<lparr>hd_store := d'\<rparr>\<rparr>
      = node\<lparr>spv_chain := s', spv_hdrs_db := spv_hdrs_db node\<lparr>hd_store := d'\<rparr>\<rparr>"
    by (cases node) simp
  show ?case
    using ih d(1) hashes unfolding same by (intro exI [of _ s'] exI [of _ d']) (simp add: x)
qed

text \<open>With a hundred places the locator always comes to the genesis block.\<close>

lemma locator_ends:
  assumes "blockchain_get_known_hashes s 100 = (xs, c)" "bc_height s = int n" "n < 2 ^ 90"
  shows "c = length xs \<and> xs \<noteq> [] \<and> length xs \<le> 100 \<and> hd xs = heir_hash (heirs s n) \<and> last xs = heir_hash (heirs s 0)
    \<and> xs = map (\<lambda>j. heir_hash (heirs s (n - back_off j))) [0..<length xs] \<and> (\<forall>j. Suc j < length xs \<longrightarrow> back_off j < n)"
proof -
  have "known_hashes s 100 0 (int (n - back_off 0)) (int (locator_step 0)) 1 = (xs, c)"
    using assms(1,2) by (simp add: blockchain_get_known_hashes_def back_off_def locator_step_def)
  note k = known_hashes_heights [OF this, simplified]
  have far: "\<not> back_off 99 < n" using assms(3) by (simp add: back_off_def)
  have full: "\<not> ((\<forall>j < length xs. back_off j < n) \<and> length xs = 100)"
  proof
    assume all: "(\<forall>j < length xs. back_off j < n) \<and> length xs = 100"
    then have "back_off 99 < n" by (intro all [THEN conjunct1, rule_format]) simp
    then show False using far by simp
  qed
  then have ends: "xs \<noteq> []" "n \<le> back_off (length xs - Suc 0)" "c = length xs" "\<forall>j. Suc j < length xs \<longrightarrow> back_off j < n"
    using k by auto
  have nth: "xs ! j = heir_hash (heirs s (n - back_off j))" if "j < length xs" for j
    using k that by (metis (no_types, lifting) add_0 diff_zero length_upt nth_map nth_upt)
  have "length xs \<le> 100"
  proof (rule ccontr)
    assume "\<not> length xs \<le> 100"
    then have "back_off 99 < n" using k by (auto simp: Suc_le_eq)
    then show False using far by simp
  qed
  moreover have "xs = map (\<lambda>j. heir_hash (heirs s (n - back_off j))) [0..<length xs]"
    by (rule nth_equalityI) (simp_all add: nth)
  ultimately show ?thesis
    using ends nth [of 0] nth [of "length xs - 1"] by (simp add: hd_conv_nth last_conv_nth back_off_def [of 0])
qed

text \<open>
  The payload of a \<open>getheaders\<close> message as the protocol documents it: the version, the number of hashes as a
  \<open>varint\<close>, the hashes and the hash to stop at. The codec itself is not in the repository; what the claim below
  relies on is that a record with one to 2000 hashes of 32 bytes is written this way.
\<close>

definition getheaders_payload :: "message_getheaders \<Rightarrow> bytes" where
  "getheaders_payload g = enc32 (mg_version g) @ varint_set_data (of_nat (length (mg_hashes g))) @ concat (mg_hashes g) @ mg_hash_stop g"

definition documented_getheaders :: "('c, 'd, 'w, 's, 'k) spv_env \<Rightarrow> bool" where
  "documented_getheaders E \<longleftrightarrow> (\<forall>g. 0 < length (mg_hashes g) \<and> length (mg_hashes g) \<le> 2000
     \<and> mg_hash_count g = int (length (mg_hashes g)) \<and> (\<forall>x \<in> set (mg_hashes g). length x = 32) \<and> length (mg_hash_stop g) = 32
     \<longrightarrow> env_serialize E msg_getheaders (Obj_getheaders g) = Some (getheaders_payload g))"

lemma length_concat_hashes: "(\<forall>x \<in> set xs. length x = k) \<Longrightarrow> length (concat xs) = k * length xs"
  by (induction xs) simp_all

lemma getheaders_sent:
  assumes "bc_height (spv_chain node) = int n" "n < 2 ^ 90" "ab_wf (spv_out_buf node)"
    and "ab_start_pos (spv_out_buf node) + ab_length (spv_out_buf node) + 2 ^ 17 < 2 ^ 63"
    and "documented_getheaders E" "\<forall>x \<in> set (heir_hashes (spv_chain node) n). length x = 32"
  shows "\<exists>b hashes payload. send_getheaders E node magic 100 = Inr (0, node\<lparr>spv_out_buf := b\<rparr>)
    \<and> ab_content b = ab_content (spv_out_buf node) @ message_header_bytes (wire_header (env_hash E) magic msg_getheaders payload) @ payload
    \<and> payload = enc32 (common_version node) @ varint_set_data (of_nat (length hashes)) @ concat hashes @ replicate 32 0
    \<and> hashes \<noteq> [] \<and> length hashes \<le> 100 \<and> hashes = map (\<lambda>j. heir_hash (heirs (spv_chain node) (n - back_off j))) [0..<length hashes]
    \<and> (\<forall>j. Suc j < length hashes \<longrightarrow> back_off j < n)
    \<and> hd hashes = heir_hash (heirs (spv_chain node) n) \<and> last hashes = heir_hash (heirs (spv_chain node) 0)"
proof -
  obtain xs c where xs: "blockchain_get_known_hashes (spv_chain node) 100 = (xs, c)" by fastforce
  note l = locator_ends [OF xs assms(1,2)]
  let ?g = "getheaders_zero\<lparr>mg_version := common_version node, mg_hash_count := int c, mg_hashes := xs\<rparr>"
  let ?name = "s_sz_message_types ! nat msg_getheaders"
  have t: "0 < msg_getheaders" "msg_getheaders < msg_types_count" by simp_all
  let ?m = "\<lparr>msg_data = None, msg_type = msg_getheaders, msg_hdr = message_header_zero\<lparr>mh_magic := magic, mh_command := wire_name msg_getheaders\<rparr>,
      msg_object = Some (Obj_getheaders getheaders_zero)\<rparr>"
  have new: "bitcoin_message_new (payloads E) magic msg_getheaders = Inr ?m"
    using known_name(1) [OF t] by (simp add: bitcoin_message_new_def Let_def payloads_def object_zero_def wire_name_def)
  let ?payload = "enc32 (common_version node) @ varint_set_data (of_nat (length xs)) @ concat xs @ replicate 32 0"
  have "heir_hash (heirs (spv_chain node) (n - back_off j)) \<in> set (heir_hashes (spv_chain node) n)" for j
    by (auto simp: heir_hashes_def simp del: upt_Suc)
  moreover have "xs = map (\<lambda>j. heir_hash (heirs (spv_chain node) (n - back_off j))) [0..<length xs]" using l by blast
  ultimately have "set xs \<subseteq> set (heir_hashes (spv_chain node) n)" by (metis (no_types, lifting) image_subsetI set_map)
  then have hashes: "\<forall>x \<in> set xs. length x = 32" using assms(6) by blast
  note len_hashes = length_concat_hashes [OF hashes]
  obtain payload where payload: "payload = ?payload" by simp
  have p: "env_serialize E msg_getheaders (Obj_getheaders ?g) = Some payload" "length payload < 2 ^ 16"
    using assms(5) l hashes len_hashes payload
    by (auto simp: documented_getheaders_def getheaders_payload_def getheaders_zero_def varint_calc_size_def)
  let ?d = "message_header_bytes (wire_header (env_hash E) magic msg_getheaders payload) @ payload"
  have unsent: "unsent (?m\<lparr>msg_object := Some (Obj_getheaders ?g)\<rparr>) magic msg_getheaders (Obj_getheaders ?g)"
    by (simp add: unsent_def message_header_zero_def)
  have "message_object_serialize (payloads E) msg_getheaders (Obj_getheaders ?g) = Some payload"
    using p(1) by (simp add: message_object_serialize_def payloads_def)
  note ser = serialize_unsent(1) [OF t unsent this, where P = "env_hash E"]
  have "length (message_header_bytes (wire_header (env_hash E) magic msg_getheaders payload)) = 24"
    by (rule length_message_header) (use t in \<open>simp add: wire_header_def length_wire_name\<close>)
  then have len: "length ?d = 24 + length payload" by simp
  have "ab_room (spv_out_buf node) (length ?d + 0)" by (rule wf_room [OF assms(3)]) (use assms(4) p(2) len in simp)
  from buffer_push [OF this] obtain b where
      b: "auto_buffer_push (spv_out_buf node) (Some ?d) (length ?d) = Inr (b, True)" "ab_content b = ab_content (spv_out_buf node) @ ?d"
    by (auto simp: push_all_def res_simps split: if_splits)
  have "spv_node_send_message E node (?m\<lparr>msg_object := Some (Obj_getheaders ?g)\<rparr>) = Inr (0, node\<lparr>spv_out_buf := b\<rparr>)"
    using ser p(2) b(1) len by (simp add: spv_node_send_message_def)
  then have "send_getheaders E node magic 100 = Inr (0, node\<lparr>spv_out_buf := b\<rparr>)"
    using new xs l by (simp add: send_getheaders_def bitcoin_message_getheaders_set_def getheaders_zero_def)
  then show ?thesis
    using b(2) payload l by (intro exI [of _ b] exI [of _ xs] exI [of _ payload]) blast
qed

section \<open>Claims\<close>

lemma stored_entries:
  assumes "chain_ok W start s"
  shows "stored (heir_entries s (nat (bc_height s))) hash = (case blockchain_find s hash of
      Some (Suc i) \<Rightarrow> Some (chain_record (Suc i) (heir_hdr (heirs s (Suc i)))) | _ \<Rightarrow> None)"
proof -
  let ?n = "nat (bc_height s)" and ?es = "heir_entries s (nat (bc_height s))"
  have root: "blockchain_find s x = Some i \<longleftrightarrow> i \<le> ?n \<and> heir_hash (heirs s i) = x" for x i
    using assms by (auto simp: chain_ok_def chain_upto_def linked_def blockchain_find_def)
  have dist: "distinct (map fst ?es)" by (rule track_distinct [OF _ chain_ok_tracked [OF assms]]) simp
  have here: "stored ?es (heir_hash (heirs s (Suc i))) = Some (chain_record (Suc i) (heir_hdr (heirs s (Suc i))))" if "i < ?n" for i
    using stored_nth [OF dist, of i] that by (simp add: heir_entries_def)
  have gone: "stored ?es hash = None" if "\<And>i. i < ?n \<Longrightarrow> heir_hash (heirs s (Suc i)) \<noteq> hash"
  proof -
    have "hash \<notin> dom (stored ?es)" unfolding dom_stored heir_entries_def using that by fastforce
    then show ?thesis by (simp add: domIff)
  qed
  show ?thesis
  proof (cases "blockchain_find s hash")
    case None
    then have "heir_hash (heirs s (Suc i)) \<noteq> hash" if "i < ?n" for i using root [of hash "Suc i"] that by auto
    then show ?thesis using gone None by simp
  next
    case (Some j)
    note j = root [of hash j, THEN iffD1, OF Some]
    show ?thesis
    proof (cases j)
      case 0
      have "heir_hash (heirs s (Suc i)) \<noteq> hash" if "i < ?n" for i
        using root [of hash "Suc i"] that Some 0 by auto
      then show ?thesis using gone Some 0 by simp
    next
      case (Suc i)
      then show ?thesis using here [of i] j Some by simp
    qed
  qed
qed

text \<open>C12. Whatever comes in over however many connections, as long as the program runs: when the database was
  empty at the start, it holds exactly one record for each block above the genesis block that the chain
  finds, under the hash of the block, with its height and its header, and no record of a block that has been
  abandoned.\<close>

theorem database_mirrors_chain:
  assumes "header_index (env_db E) recs entries place" "recs d = Map.empty"
    and "spv_node_load_config (app_context_init (env_work E) d) config = Inr (rc, node0)"
    and "app_start fuel E node0 = Inr node1" "spv_node_run E node1 attempts = Inr (sent, n)"
  shows "recs (hd_store (spv_hdrs_db n)) hash = (case blockchain_find (spv_chain n) hash of
      Some (Suc i) \<Rightarrow> Some (record_bytes (record_zero\<lparr>rec_height := of_nat (Suc i), rec_hdr := heir_hdr (heirs (spv_chain n) (Suc i))\<rparr>))
    | _ \<Rightarrow> None)"
proof -
  have "mirrors recs (env_work E) n"
    using mirrored.run [OF _ assms(5)] start_mirrors [OF assms(1-4)] assms(1) by blast
  then show ?thesis
    using stored_entries [of "env_work E" g_genesis_block_hash "spv_chain n" hash] unfolding mirrors_def chain_record_def by simp
qed

lemma extends_distinct:
  "extends P W p known hs \<Longrightarrow> distinct (map fst (hashed P hs)) \<and> fst ` set (hashed P hs) \<inter> known = {}"
proof (induction hs arbitrary: p known)
  case (Cons h hs)
  let ?hash = "hash256 P (header_bytes h)"
  have "distinct (map fst (hashed P hs)) \<and> fst ` set (hashed P hs) \<inter> insert ?hash known = {}" "?hash \<notin> known"
    using Cons.IH [of "next_heir W p ?hash h" "insert ?hash known"] Cons.prems by (simp_all add: Let_def)
  moreover have "hashed P (h # hs) = (?hash, h) # hashed P hs" by (simp add: hashed_def)
  ultimately show ?case by auto
qed (simp add: hashed_def)

lemma start_reloads:
  assumes "header_index (env_db E) recs entries place" "env_fuel E = Suc (Suc (Suc k))"
    and "recs d = stored (hashed (env_hash E) hs)"
    and "extends (env_hash E) (env_work E) (heirs (blockchain_init (env_work E) (blockchain_zero (env_work E)) None None) 0)
      {g_genesis_block_hash} hs"
    and "length hs + 1 \<le> BLOCKCHAIN_DEFAULT_ALLOC_SIZE"
    and "spv_node_load_config (app_context_init (env_work E) d) config = Inr (rc, node0)"
  shows "reloading E recs hs 0 (custom_init node0)" "hd_offset (spv_hdrs_db (custom_init node0)) = 0"
    "hd_limits (spv_hdrs_db (custom_init node0)) = 2016" "hd_store (spv_hdrs_db (custom_init node0)) = d"
    "bc_height (spv_chain (custom_init node0)) = 0"
proof -
  note init = init_facts [of "env_work E" None None]
  note node = config_keeps [OF assms(6)]
  show "reloading E recs hs 0 (custom_init node0)"
    using init assms(2-5) extends_distinct [OF assms(4)]
    by (simp add: reloading_def node Let_def heir_hashes_def heir_entries_def genesis_hash_def block_headers_db_init_def)
  show "hd_offset (spv_hdrs_db (custom_init node0)) = 0" "hd_limits (spv_hdrs_db (custom_init node0)) = 2016"
    "hd_store (spv_hdrs_db (custom_init node0)) = d"
    by (simp_all add: node block_headers_db_init_def)
  show "bc_height (spv_chain (custom_init node0)) = 0" using init(3) by (simp add: node)
qed

text \<open>C22. A start with a database that holds the headers of a whole chain, up to one less than the array of heirs has room for:
  only full pages of 2016 headers are built into the chain, the headers behind the last full page are left out although
  they are stored; and when there are full pages only, the page that is read last is the first one again, its
  header is refused and the program ends. More than one call per page is a bound on the calls that is enough.\<close>

theorem restart_loads_full_pages:
  assumes "header_index (env_db E) recs entries place" "env_fuel E = Suc (Suc (Suc k))"
    and "recs d = map_of (map (\<lambda>i. (hash256 (env_hash E) (header_bytes (hs ! i)),
      record_bytes (record_zero\<lparr>rec_height := of_nat (Suc i), rec_hdr := hs ! i\<rparr>))) [0..<length hs])"
    and "extends (env_hash E) (env_work E) (heirs (blockchain_init (env_work E) (blockchain_zero (env_work E)) None None) 0)
      {g_genesis_block_hash} hs"
    and "length hs + 1 \<le> BLOCKCHAIN_DEFAULT_ALLOC_SIZE" "\<forall>h \<in> set hs. wf_header h"
    and "spv_node_load_config (app_context_init (env_work E) d) config = Inr (rc, node0)" "length hs div 2016 < fuel"
  shows "if hs \<noteq> [] \<and> length hs mod 2016 = 0 then app_start fuel E node0 = Inl Abort
    else \<exists>n. app_start fuel E node0 = Inr n \<and> bc_height (spv_chain n) = int (2016 * (length hs div 2016))"
proof -
  have "map (\<lambda>i. (fst (hashed (env_hash E) hs ! i), chain_record (Suc i) (snd (hashed (env_hash E) hs ! i)))) [0..<length hs]
      = map (\<lambda>i. (hash256 (env_hash E) (header_bytes (hs ! i)), chain_record (Suc i) (hs ! i))) [0..<length hs]"
    by (rule map_cong) (simp_all add: hashed_def)
  then have stored: "recs d = stored (hashed (env_hash E) hs)"
    using assms(3) by (simp add: stored_def hashed_def chain_record_def del: map_eq_conv)
  note start = start_reloads [OF assms(1,2) stored assms(4,5,7)]
  show ?thesis
  proof (cases "hs = []")
    case True
    obtain db where "headers_db_next (env_db E) (spv_hdrs_db (custom_init node0)) = Inr (db_notfound (env_db E), db)"
      using header_index.empty_next [OF assms(1), of "spv_hdrs_db (custom_init node0)"] start stored True
      by (auto simp: hashed_def)
    then show ?thesis
      using True start(5) assms(8) header_index.notfound [OF assms(1)] by (cases fuel) (simp_all add: app_start_def Let_def)
  next
    case False
    then show ?thesis
      using reload [OF assms(1,6) False _ start(1), of 2016 fuel] start(2,3) assms(8) by (auto simp: app_start_def)
  qed
qed

text \<open>C21. Headers that come in order make progress: a message with headers, each on top of the one before and the first on
  top of the chain, is accepted as a whole, the chain grows by their number, and the answer asks for what is
  behind the last of them: its payload holds the common version, the number of the hashes, the locator and no hash to
  stop at, where the locator has at most a hundred hashes, begins with the hash of the new top, goes back in the given steps and ends,
  the first time it gets there, with the hash of the genesis block. The codec of getheaders is not in the repository: it is taken to write the
  documented bytes for a record with up to 2000 hashes of 32 bytes, and the hashes of the chain have that length.
  The node is then in the state it was in before, so that the next message makes progress too.\<close>

theorem headers_answered:
  assumes "header_index (env_db E) recs entries place" "env_fuel E = Suc (Suc (Suc k))"
    and "caught_up recs (env_work E) n node" "msg_object m = Some (Obj_headers hs)" "msg_data m = Some d"
    and "mb_count hs = int (length (mb_hdrs hs))" "mb_hdrs hs \<noteq> []" "n + length (mb_hdrs hs) + 1 \<le> BLOCKCHAIN_DEFAULT_ALLOC_SIZE"
    and "extends (env_hash E) (env_work E) (heirs (spv_chain node) n) (set (heir_hashes (spv_chain node) n)) (map fst (mb_hdrs hs))"
    and "hash_provider (env_hash E) sha ripemd" "\<forall>x \<in> set (heir_hashes (spv_chain node) n). length x = 32"
    and "documented_getheaders E"
    and "ab_wf (spv_out_buf node)" "ab_start_pos (spv_out_buf node) + ab_length (spv_out_buf node) + 2 ^ 17 < 2 ^ 63"
  shows "\<exists>n' locator payload. app_on_message_headers E node m = Inr (0, n') \<and> caught_up recs (env_work E) (n + length (mb_hdrs hs)) n'
    \<and> heir_hashes (spv_chain n') (n + length (mb_hdrs hs))
        = heir_hashes (spv_chain node) n @ map (\<lambda>h. hash256 (env_hash E) (header_bytes (fst h))) (mb_hdrs hs)
    \<and> ab_content (spv_out_buf n') = ab_content (spv_out_buf node)
        @ message_header_bytes (wire_header (env_hash E) (mh_magic (message_header_of d)) msg_getheaders payload) @ payload
    \<and> payload = enc32 (common_version node) @ varint_set_data (of_nat (length locator)) @ concat locator @ replicate 32 0
    \<and> locator \<noteq> [] \<and> length locator \<le> 100
    \<and> locator = map (\<lambda>j. heir_hash (heirs (spv_chain n') (n + length (mb_hdrs hs) - back_off j))) [0..<length locator]
    \<and> (\<forall>j. Suc j < length locator \<longrightarrow> back_off j < n + length (mb_hdrs hs))
    \<and> hd locator = hash256 (env_hash E) (header_bytes (fst (last (mb_hdrs hs))))
    \<and> last locator = heir_hash (heirs (spv_chain node) 0)"
proof -
  let ?k = "n + length (mb_hdrs hs)" and ?hash = "\<lambda>h. hash256 (env_hash E) (header_bytes (fst h))"
  obtain s db where "add_headers E node (length (mb_hdrs hs)) (mb_hdrs hs) = Inr (node\<lparr>spv_chain := s, spv_hdrs_db := db\<rparr>)"
      "caught_up recs (env_work E) ?k (node\<lparr>spv_chain := s, spv_hdrs_db := db\<rparr>)"
      "heir_hashes s ?k = heir_hashes (spv_chain node) n @ map ?hash (mb_hdrs hs)"
    using add_headers_extends [OF assms(1,2,3,8,9)] by (auto simp: Let_def)
  note add = this
  let ?node = "node\<lparr>spv_chain := s, spv_hdrs_db := db\<rparr>"
  have "?k < 2 ^ 90" using assms(8) by (simp add: BLOCKCHAIN_DEFAULT_ALLOC_SIZE_def)
  moreover have "\<forall>x \<in> set (heir_hashes s ?k). length x = 32"
    unfolding add(3) using assms(11) hash_provider.hash256_length [OF assms(10)] by auto
  moreover have "common_version ?node = common_version node" by (cases node) (simp add: common_version_def)
  ultimately obtain b locator payload where b: "send_getheaders E ?node (mh_magic (message_header_of d)) 100 = Inr (0, ?node\<lparr>spv_out_buf := b\<rparr>)"
      "ab_content b = ab_content (spv_out_buf node)
        @ message_header_bytes (wire_header (env_hash E) (mh_magic (message_header_of d)) msg_getheaders payload) @ payload"
      "payload = enc32 (common_version node) @ varint_set_data (of_nat (length locator)) @ concat locator @ replicate 32 0"
      "locator \<noteq> [] \<and> length locator \<le> 100" "locator = map (\<lambda>j. heir_hash (heirs s (?k - back_off j))) [0..<length locator]"
      "\<forall>j. Suc j < length locator \<longrightarrow> back_off j < ?k" "hd locator = heir_hash (heirs s ?k)" "last locator = heir_hash (heirs s 0)"
    using getheaders_sent [of ?node ?k E "mh_magic (message_header_of d)"] add(2) assms(12-14)
    by (auto simp: caught_up_def simp del: upt_Suc)
  have top: "heir_hash (heirs s ?k) = ?hash (last (mb_hdrs hs))"
    using arg_cong [OF add(3), of last] assms(7) by (simp add: last_map)
  have bottom: "heir_hash (heirs s 0) = heir_hash (heirs (spv_chain node) 0)"
    using arg_cong [OF add(3), of hd] by (simp add: heir_hashes_def hd_append hd_map del: upt_Suc)
  have "app_on_message_headers E node m = Inr (0, ?node\<lparr>spv_out_buf := b\<rparr>)"
    using add(1) b(1) assms(4-7) by (simp add: app_on_message_headers_def message_bytes_def)
  moreover have "caught_up recs (env_work E) ?k (?node\<lparr>spv_out_buf := b\<rparr>)"
    using add(2) by (simp add: caught_up_def mirrors_def)
  ultimately show ?thesis
    using add(3) b(2-6) b(7) [unfolded top] b(8) [unfolded bottom]
    by (intro exI [of _ "?node\<lparr>spv_out_buf := b\<rparr>"] exI [of _ locator] exI [of _ payload]) simp
qed

section \<open>Concrete runs\<close>

definition sync_env :: "(bytes, bytes, nat, (bytes \<times> bytes) list, nat option) spv_env" where
  "sync_env = \<lparr>env_hash = nonce_ops, env_work = unit_work, env_db = store_ops, env_parse = \<lambda>_ _. None,
     env_serialize = \<lambda>_ obj. case obj of Obj_getheaders g \<Rightarrow> Some (getheaders_payload g) | _ \<Rightarrow> Some [1, 2, 3], env_fuel = 3\<rparr>"

lemma sync_env_simps [simp]:
  "env_hash sync_env = nonce_ops" "env_work sync_env = unit_work" "env_db sync_env = store_ops" "env_fuel sync_env = Suc (Suc (Suc 0))"
  "documented_getheaders sync_env"
  by (simp_all add: sync_env_def numeral_3_eq_3 documented_getheaders_def)

lemma default_loads:
  "\<exists>node0. spv_node_load_config (app_context_init unit_work d) None = Inr (0, node0)
    \<and> spv_host node0 \<noteq> None \<and> spv_port node0 \<noteq> None \<and> spv_max_retries node0 = 5"
proof -
  have "bitcoin_network_type_from_string ''mainnet'' = 1" by code_simp
  then show ?thesis
    by (simp add: spv_node_load_config_def generate_default_config_def Let_def app_context_init_def spv_node_context_init_def)
qed

lemma empty_db: "hd_store (block_headers_db_init d) = d" "hd_limits (block_headers_db_init d) = 2016"
  by (simp_all add: block_headers_db_init_def)

theorem database_mirrors_chain_witness:
  "\<exists>node1 n. app_start 1 sync_env (snd (projr (spv_node_load_config (app_context_init unit_work []) None))) = Inr node1
    \<and> spv_node_run sync_env node1 [None] = Inr ([], n) \<and> map_of (hd_store (spv_hdrs_db n)) g_genesis_block_hash = None"
proof -
  let ?node = "app_context_init unit_work [] :: (nat, (bytes \<times> bytes) list) spv_node"
  obtain node0 where node0: "spv_node_load_config ?node None = Inr (0, node0)" "spv_host node0 \<noteq> None" "spv_port node0 \<noteq> None"
      "spv_max_retries node0 = 5"
    using default_loads [of "[]"] by (elim exE conjE) (rule that)
  note keeps = config_keeps [OF node0(1)]
  obtain db1 where "headers_db_next store_ops (spv_hdrs_db (custom_init node0)) = Inr (1, db1)"
    using empty_store_next [of "block_headers_db_init []"] unfolding keeps(1) by (auto simp: empty_db)
  then have start: "app_start 1 sync_env node0 = Inr ((custom_init node0)\<lparr>spv_hdrs_db := db1\<rparr>)"
    by (simp add: app_start_def Let_def)
  let ?started = "(custom_init node0)\<lparr>spv_hdrs_db := db1\<rparr>"
  have run: "spv_node_run sync_env ?started [None] = Inr ([], ?started)"
    using node0(2-4) by (simp add: spv_node_run_def custom_init_def numeral_eq_Suc)
  note init = init_facts [of unit_work None None]
  have "linked unit_work (spv_chain ?started) 0" using init(1,3) by (simp add: keeps chain_ok_def chain_upto_def)
  then have "blockchain_find (spv_chain ?started) (heir_hash (heirs (spv_chain ?started) 0)) = Some 0"
    unfolding linked_def blockchain_find_def by blast
  then have "blockchain_find (spv_chain ?started) g_genesis_block_hash = Some 0" using init(5) by (simp add: keeps)
  then have "map_of (hd_store (spv_hdrs_db ?started)) g_genesis_block_hash = None"
    using database_mirrors_chain [of sync_env map_of store_index "\<lambda>c. c" "[]" None, OF _ _ _ start run, of 0 g_genesis_block_hash]
      store.header_index_axioms node0(1) by simp
  then show ?thesis using start run by (simp add: node0(1))
qed

lemma sample_chain_facts:
  "length sample_chain = 3" "\<forall>h \<in> set sample_chain. wf_header h"
  by (simp_all add: sample_chain_def wf_header_def sample_header_def header_zero_def header_of_def)

theorem restart_loads_full_pages_witness:
  "\<exists>n. app_start 1 sync_env (snd (projr (spv_node_load_config (app_context_init unit_work
        (map (\<lambda>i. (hash256 nonce_ops (header_bytes (sample_chain ! i)),
          record_bytes (record_zero\<lparr>rec_height := of_nat (Suc i), rec_hdr := sample_chain ! i\<rparr>))) [0..<3])) None))) = Inr n
    \<and> bc_height (spv_chain n) = 0"
proof -
  define d where "d = map (\<lambda>i. (hash256 nonce_ops (header_bytes (sample_chain ! i)),
          record_bytes (record_zero\<lparr>rec_height := of_nat (Suc i), rec_hdr := sample_chain ! i\<rparr>))) [0..<3]"
  obtain node0 where node0: "spv_node_load_config (app_context_init unit_work d) None = Inr (0, node0)"
    using default_loads [of d] by (elim exE conjE) (rule that)
  have idx: "header_index (env_db sync_env) map_of store_index (\<lambda>c. c)" using store.header_index_axioms by simp
  have "\<exists>n. app_start 1 sync_env node0 = Inr n \<and> bc_height (spv_chain n) = int (2016 * (3 div 2016))"
    using restart_loads_full_pages [OF idx, of 0 d sample_chain None 0 node0 1] sample_extends sample_chain_facts node0 d_def
    by (auto simp: BLOCKCHAIN_DEFAULT_ALLOC_SIZE_def simp del: upt_Suc)
  then show ?thesis unfolding d_def [symmetric] by (simp add: node0)
qed

theorem headers_answered_witness:
  "\<exists>n. app_on_message_headers sync_env (app_context_init unit_work []) (message_zero\<lparr>msg_data := Some (replicate 24 0),
        msg_object := Some (Obj_headers \<lparr>mb_count = 3, mb_hdrs = map (\<lambda>h. (h, 0)) sample_chain\<rparr>)\<rparr>) = Inr (0, n)
    \<and> caught_up map_of unit_work 3 n
    \<and> take 37 (drop 24 (ab_content (spv_out_buf n))) = enc32 (common_version (app_context_init unit_work [] :: (nat, (bytes \<times> bytes) list) spv_node)) @ [4] @ enc32 3 @ replicate 28 0"
proof -
  let ?node = "app_context_init unit_work [] :: (nat, (bytes \<times> bytes) list) spv_node"
  let ?hs = "\<lparr>mb_count = 3, mb_hdrs = map (\<lambda>h. (h, 0)) sample_chain\<rparr>"
  let ?m = "message_zero\<lparr>msg_data := Some (replicate 24 0), msg_object := Some (Obj_headers ?hs)\<rparr>"
  have idx: "header_index (env_db sync_env) map_of store_index (\<lambda>c. c)" using store.header_index_axioms by simp
  have chain: "spv_chain ?node = blockchain_init unit_work (blockchain_zero unit_work) None None"
      "spv_out_buf ?node = auto_buffer_init 0" "hd_store (spv_hdrs_db ?node) = []"
    by (simp_all add: app_context_init_def spv_node_context_init_def block_headers_db_init_def)
  have out: "ab_wf (auto_buffer_init 0)" "ab_start_pos (auto_buffer_init 0) = 0" "ab_length (auto_buffer_init 0) = 0" "ab_content (auto_buffer_init 0) = []"
    by (simp_all add: ab_wf_def auto_buffer_init_def auto_buffer_resize_def auto_buffer_zero_def AUTO_BUFFER_ALLOC_SIZE_def Let_def ab_content_def)
  note init = init_facts [of unit_work None None]
  have up: "caught_up map_of (env_work sync_env) 0 ?node"
    using init by (simp add: caught_up_def mirrors_def chain heir_entries_def)
  have "heir_hashes (spv_chain ?node) 0 = [genesis_hash None]" using init(5) by (simp add: heir_hashes_def chain)
  moreover have "map fst (mb_hdrs ?hs) = sample_chain" by (simp add: comp_def)
  ultimately have ext: "extends (env_hash sync_env) (env_work sync_env) (heirs (spv_chain ?node) 0) (set (heir_hashes (spv_chain ?node) 0))
      (map fst (mb_hdrs ?hs))"
    using sample_extends by (simp add: chain)
  have ne: "mb_hdrs ?hs \<noteq> []" "mb_count ?hs = int (length (mb_hdrs ?hs))" "0 + length (mb_hdrs ?hs) + 1 \<le> BLOCKCHAIN_DEFAULT_ALLOC_SIZE"
    by (simp_all add: sample_chain_def BLOCKCHAIN_DEFAULT_ALLOC_SIZE_def)
  have data: "msg_object ?m = Some (Obj_headers ?hs)" "msg_data ?m = Some (replicate 24 0)" by simp_all
  have hashes: "\<forall>x \<in> set (heir_hashes (spv_chain ?node) 0). length x = 32"
    using init(5) by (simp add: heir_hashes_def chain genesis_hash_def g_genesis_block_hash_def)
  have P: "hash_provider (env_hash sync_env) (fit 32 (\<lambda>m. if length m = 80 then drop 76 m else m)) (fit 20 id)"
    using recording.hash_provider_axioms by (simp add: nonce_ops_def)
  have room: "ab_wf (spv_out_buf ?node)" "ab_start_pos (spv_out_buf ?node) + ab_length (spv_out_buf ?node) + 2 ^ 17 < 2 ^ 63"
    using out by (simp_all add: chain)
  have fuel: "env_fuel sync_env = Suc (Suc (Suc 0))" and doc: "documented_getheaders sync_env" by simp_all
  let ?k = "0 + length (mb_hdrs ?hs)"
  have k: "?k = 3" "mb_hdrs ?hs \<noteq> []" "map (\<lambda>h. hash256 (env_hash sync_env) (header_bytes (fst h))) (mb_hdrs ?hs)
      = map (\<lambda>h. hash256 nonce_ops (header_bytes h)) sample_chain"
      "fst (last (mb_hdrs ?hs)) = last sample_chain"
    by (simp_all add: sample_chain_def)
  obtain n locator payload where n: "app_on_message_headers sync_env ?node ?m = Inr (0, n)" "caught_up map_of (env_work sync_env) ?k n"
      "heir_hashes (spv_chain n) ?k = heir_hashes (spv_chain ?node) 0
        @ map (\<lambda>h. hash256 (env_hash sync_env) (header_bytes (fst h))) (mb_hdrs ?hs)"
      "ab_content (spv_out_buf n) = ab_content (spv_out_buf ?node)
        @ message_header_bytes (wire_header (env_hash sync_env) (mh_magic (message_header_of (replicate 24 0))) msg_getheaders payload) @ payload"
      "payload = enc32 (common_version ?node) @ varint_set_data (of_nat (length locator)) @ concat locator @ replicate 32 0"
      "locator = map (\<lambda>j. heir_hash (heirs (spv_chain n) (?k - back_off j))) [0..<length locator]"
      "locator \<noteq> []" "\<forall>j. Suc j < length locator \<longrightarrow> back_off j < ?k"
      "hd locator = hash256 (env_hash sync_env) (header_bytes (fst (last (mb_hdrs ?hs))))"
      "last locator = heir_hash (heirs (spv_chain ?node) 0)"
    using headers_answered [OF idx fuel up data ne(2,1,3) ext P hashes doc room] by (elim exE conjE) (rule that)
  note n = n [unfolded k]
  have heirs: "heir_hash (heirs (spv_chain n) 0) = g_genesis_block_hash" "heir_hash (heirs (spv_chain n) 1) = enc32 1 @ replicate 28 0"
      "heir_hash (heirs (spv_chain n) 2) = enc32 2 @ replicate 28 0" "heir_hash (heirs (spv_chain n) 3) = enc32 3 @ replicate 28 0"
    using n(3) init(5) by (simp_all add: heir_hashes_def sample_chain_def numeral_eq_Suc chain)
  let ?l = "length locator"
  have l: "?l = 4"
  proof -
    have "locator ! (?l - 1) = heir_hash (heirs (spv_chain n) (3 - back_off (?l - 1)))"
      by (subst n(6)) (use n(7) in simp)
    then have at: "heir_hash (heirs (spv_chain n) (3 - back_off (?l - 1))) = g_genesis_block_hash"
      using n(7,10) init(5) by (simp add: chain last_conv_nth)
    have "\<not> ?l - 1 < 3"
    proof
      assume "?l - 1 < 3"
      then have "?l - 1 = 0 \<or> ?l - 1 = 1 \<or> ?l - 1 = 2" by arith
      then show False using at heirs by (auto simp: back_off_def g_genesis_block_hash_def enc32_def le_bytes_4)
    qed
    moreover have "\<not> 4 < ?l" using n(8) by (auto simp: back_off_def dest: spec [of _ 3])
    ultimately show ?thesis by arith
  qed
  have hd: "hd locator = enc32 3 @ replicate 28 0" using n(9) by (simp add: sample_chain_def)
  have head: "length (message_header_bytes (wire_header nonce_ops x msg_getheaders y)) = 24" for x y
    by (rule length_message_header) (simp add: wire_header_def length_wire_name)
  have "varint_set_data 4 = [4]" by code_simp
  moreover obtain rest where "locator = hd locator # rest" using n(7) by (cases locator) auto
  ultimately have "payload = enc32 (common_version ?node) @ [4] @ (enc32 3 @ replicate 28 0) @ concat rest @ replicate 32 0"
    using n(5) l hd by (metis append.assoc concat.simps(2) of_nat_numeral)
  then have "take 37 (drop 24 (ab_content (spv_out_buf n))) = enc32 (common_version ?node) @ [4] @ enc32 3 @ replicate 28 0"
    using n(4) head out by (simp add: chain)
  then show ?thesis using n(1,2) by auto
qed

end
