(* ===== verification/DbEngine.thy ===== *)
theory DbEngine
  imports Prelude
begin

text \<open>
  The general database engine (\<open>src/db_engine.c\<close>): one engine for the whole program with the list of
  the open databases and a count of references, databases with their records, cursors and transactions.
  The Berkeley DB library underneath is a parameter (record \<open>bdb_lib\<close>) over its own state; what it is given
  to return data in is the record \<open>dbt\<close>, and calls give these records back as they leave them. Databases
  of the engine are nodes of an explicit store, so that a pointer to a freed one is seen; transactions, cursors
  and records belong to the caller and are values. Locks play no part, one thread runs, and printing is
  left out.
\<close>

unbundle bit_operations_syntax

section \<open>The library\<close>

text \<open>How the memory for returned data is provided; \<open>Dbt_plain\<close> leaves it to the library.\<close>

datatype dbt_flags = Dbt_plain | Dbt_malloc | Dbt_usermem

record dbt =
  dbt_data :: "bytes option"
  dbt_size :: nat
  dbt_ulen :: nat
  dbt_flags :: dbt_flags

datatype cursor_move = Db_first | Db_last | Db_next | Db_prev | Db_next_dup | Db_prev_dup | Db_set

record 'l bdb_lib =
  lib_env_create :: "'l \<Rightarrow> int \<times> 'l"
  lib_env_open :: "'l \<Rightarrow> string \<Rightarrow> int \<times> 'l"
  lib_env_close :: "'l \<Rightarrow> 'l"
  lib_txn_begin :: "'l \<Rightarrow> nat option \<Rightarrow> int \<times> nat option \<times> 'l"
  lib_txn_commit :: "'l \<Rightarrow> nat \<Rightarrow> int \<Rightarrow> int \<times> 'l"
  lib_txn_abort :: "'l \<Rightarrow> nat \<Rightarrow> int \<times> 'l"
  lib_txn_prepare :: "'l \<Rightarrow> nat \<Rightarrow> bytes \<Rightarrow> int \<times> 'l"
  lib_txn_discard :: "'l \<Rightarrow> nat \<Rightarrow> int \<times> 'l"
  lib_txn_set_name :: "'l \<Rightarrow> nat \<Rightarrow> string \<Rightarrow> int \<times> 'l"
  lib_txn_get_name :: "'l \<Rightarrow> nat \<Rightarrow> int \<times> string option"
  lib_db_create :: "'l \<Rightarrow> int \<times> nat option \<times> 'l"
  lib_db_open :: "'l \<Rightarrow> nat \<Rightarrow> nat option \<Rightarrow> string \<Rightarrow> int \<Rightarrow> bool \<Rightarrow> int \<times> 'l"
  lib_db_close :: "'l \<Rightarrow> nat \<Rightarrow> 'l"
  lib_associate :: "'l \<Rightarrow> nat \<Rightarrow> nat option \<Rightarrow> nat \<Rightarrow> int \<times> 'l"
  lib_get :: "'l \<Rightarrow> nat \<Rightarrow> nat option \<Rightarrow> dbt \<Rightarrow> dbt \<Rightarrow> int \<times> dbt \<times> 'l"
  lib_pget :: "'l \<Rightarrow> nat \<Rightarrow> nat option \<Rightarrow> dbt \<Rightarrow> dbt \<Rightarrow> dbt \<Rightarrow> int \<times> dbt \<times> dbt \<times> 'l"
  lib_put :: "'l \<Rightarrow> nat \<Rightarrow> nat option \<Rightarrow> dbt \<Rightarrow> dbt \<Rightarrow> bool \<Rightarrow> int \<times> 'l"
  lib_del :: "'l \<Rightarrow> nat \<Rightarrow> nat option \<Rightarrow> dbt \<Rightarrow> int \<times> 'l"
  lib_cursor :: "'l \<Rightarrow> nat \<Rightarrow> nat option \<Rightarrow> int \<times> nat option \<times> 'l"
  lib_cursor_get :: "'l \<Rightarrow> nat \<Rightarrow> dbt \<Rightarrow> dbt \<Rightarrow> cursor_move \<Rightarrow> int \<times> dbt \<times> dbt \<times> 'l"
  lib_cursor_pget :: "'l \<Rightarrow> nat \<Rightarrow> dbt \<Rightarrow> dbt \<Rightarrow> dbt \<Rightarrow> cursor_move \<Rightarrow> int \<times> dbt \<times> dbt \<times> dbt \<times> 'l"
  lib_cursor_put :: "'l \<Rightarrow> nat \<Rightarrow> dbt \<Rightarrow> int \<times> 'l"
  lib_cursor_del :: "'l \<Rightarrow> nat \<Rightarrow> int \<times> 'l"
  lib_cursor_close :: "'l \<Rightarrow> nat \<Rightarrow> 'l"

section \<open>The state\<close>

record db_record_data =
  rd_data :: "bytes option"
  rd_size :: int
  rd_flags :: int

definition record_data_zero :: db_record_data where
  "record_data_zero = \<lparr>rd_data = None, rd_size = 0, rd_flags = 0\<rparr>"

text \<open>The keys for a record in an index, none for a negative count.\<close>

type_synonym db_associate_callback = "bytes \<Rightarrow> bytes \<Rightarrow> bytes list"

record db_handle =
  dh_dbp :: nat
  dh_db_type :: int
  dh_associate :: "db_associate_callback option"
  dh_record_flags :: u32

abbreviation db_record_flags_no_overwrite :: u32 where "db_record_flags_no_overwrite \<equiv> 2"
abbreviation db_record_flags_multiple :: u32 where "db_record_flags_multiple \<equiv> 0x8000"

text \<open>A place in the array of databases: never written, a null pointer or a pointer.\<close>

datatype db_cell = Unset | Null | Ref nat

record db_engine_private =
  ep_env :: bool
  ep_home_dir :: string
  ep_max_size :: int
  ep_count :: nat
  ep_databases :: "db_cell list"
  ep_refs_count :: int

record 'l db_state =
  ds_lib :: 'l
  ds_handles :: "nat \<Rightarrow> db_handle option"
  ds_next :: nat
  ds_engine :: "db_engine_private option"

record db_engine_txn =
  txn_priv :: "nat option"

text \<open>Reporting an error goes through the environment of the engine.\<close>

definition db_engine_get_env :: "'l db_state \<Rightarrow> bool res" where
  "db_engine_get_env s = (case ds_engine s of None \<Rightarrow> Inl Undefined | Some p \<Rightarrow> Inr (ep_env p))"

definition db_check_error :: "'l db_state \<Rightarrow> int \<Rightarrow> unit res" where
  "db_check_error s rc =
     (if rc = 0 then Inr () else andThen (db_engine_get_env s) (\<lambda>env. if env then Inr () else Inl Abort))"

section \<open>Transactions\<close>

definition db_txn_get_handle :: "db_engine_txn option \<Rightarrow> nat option" where
  "db_txn_get_handle t = (case t of None \<Rightarrow> None | Some x \<Rightarrow> txn_priv x)"

definition txn_begin ::
    "'l bdb_lib \<Rightarrow> 'l db_state \<Rightarrow> db_engine_txn \<Rightarrow> db_engine_txn option \<Rightarrow> (int \<times> db_engine_txn \<times> 'l db_state) res" where
  "txn_begin B s t parent =
     (if txn_priv t \<noteq> None then Inl Abort
      else andThen (db_engine_get_env s) (\<lambda>env.
        if \<not> env then Inl Abort
        else case lib_txn_begin B (ds_lib s) (db_txn_get_handle parent) of (rc, h, l) \<Rightarrow>
          Inr (rc, t\<lparr>txn_priv := h\<rparr>, s\<lparr>ds_lib := l\<rparr>)))"

text \<open>Calls on the transaction of the library, when there is one; the last argument tells whether it is over then.\<close>

definition txn_call ::
    "'l db_state \<Rightarrow> db_engine_txn \<Rightarrow> (nat \<Rightarrow> int \<times> 'l) \<Rightarrow> bool \<Rightarrow> (int \<times> db_engine_txn \<times> 'l db_state) res" where
  "txn_call s t f over =
     (case txn_priv t of
        None \<Rightarrow> Inr (-1, t, s)
      | Some h \<Rightarrow> (case f h of (rc, l) \<Rightarrow>
          andThen (db_check_error s rc) (\<lambda>_. Inr (rc, if over then t\<lparr>txn_priv := None\<rparr> else t, s\<lparr>ds_lib := l\<rparr>))))"

definition txn_commit where "txn_commit B s t flags = txn_call s t (\<lambda>h. lib_txn_commit B (ds_lib s) h flags) True"
definition txn_abort where "txn_abort B s t = txn_call s t (lib_txn_abort B (ds_lib s)) True"
definition txn_prepare where "txn_prepare B s t gid = txn_call s t (\<lambda>h. lib_txn_prepare B (ds_lib s) h gid) False"
definition txn_discard where "txn_discard B s t = txn_call s t (lib_txn_discard B (ds_lib s)) True"
definition txn_set_name where "txn_set_name B s t name = txn_call s t (\<lambda>h. lib_txn_set_name B (ds_lib s) h name) False"

definition txn_get_name :: "'l bdb_lib \<Rightarrow> 'l db_state \<Rightarrow> db_engine_txn \<Rightarrow> string option res" where
  "txn_get_name B s t =
     (case txn_priv t of
        None \<Rightarrow> Inr None
      | Some h \<Rightarrow> (case lib_txn_get_name B (ds_lib s) h of (rc, name) \<Rightarrow>
          andThen (db_check_error s rc) (\<lambda>_. Inr (if rc = 0 then name else None))))"

text \<open>Memory of the caller keeps the transaction that is in it.\<close>

definition db_engine_txn_init :: "db_engine_txn option \<Rightarrow> db_engine_txn" where
  "db_engine_txn_init given = (case given of None \<Rightarrow> \<lparr>txn_priv = None\<rparr> | Some t \<Rightarrow> t)"

definition db_engine_txn_cleanup :: "'l bdb_lib \<Rightarrow> 'l db_state \<Rightarrow> db_engine_txn \<Rightarrow> db_engine_txn \<times> 'l db_state" where
  "db_engine_txn_cleanup B s t =
     (t\<lparr>txn_priv := None\<rparr>,
      case txn_priv t of None \<Rightarrow> s | Some h \<Rightarrow> s\<lparr>ds_lib := snd (lib_txn_discard B (ds_lib s) h)\<rparr>)"

section \<open>Databases\<close>

definition handle_at :: "'l db_state \<Rightarrow> nat \<Rightarrow> db_handle res" where
  "handle_at s a = (case ds_handles s a of None \<Rightarrow> Inl Undefined | Some h \<Rightarrow> Inr h)"

definition put_handle :: "'l db_state \<Rightarrow> nat \<Rightarrow> db_handle \<Rightarrow> 'l db_state" where
  "put_handle s a h = s\<lparr>ds_handles := (ds_handles s)(a \<mapsto> h)\<rparr>"

text \<open>The private part of a database, with the handle of the library; false when the library gives none.\<close>

definition db_private_new :: "'l bdb_lib \<Rightarrow> 'l db_state \<Rightarrow> nat \<Rightarrow> (bool \<times> 'l db_state) res" where
  "db_private_new B s a =
     andThen (db_engine_get_env s) (\<lambda>env.
       case lib_db_create B (ds_lib s) of (rc, h, l) \<Rightarrow>
         (case h of
            Some dbp \<Rightarrow>
              if rc = 0
              then Inr (True, (put_handle s a \<lparr>dh_dbp = dbp, dh_db_type = 0, dh_associate = None, dh_record_flags = 0\<rparr>)\<lparr>ds_lib := l\<rparr>)
              else if env then Inr (False, s\<lparr>ds_lib := l\<rparr>) else Inl Undefined
          | None \<Rightarrow> if env then Inr (False, s\<lparr>ds_lib := l\<rparr>) else Inl Undefined))"

definition db_private_free :: "'l bdb_lib \<Rightarrow> 'l db_state \<Rightarrow> nat \<Rightarrow> 'l db_state res" where
  "db_private_free B s a =
     andThen (handle_at s a) (\<lambda>h.
       Inr (s\<lparr>ds_handles := (ds_handles s)(a := None), ds_lib := lib_db_close B (ds_lib s) (dh_dbp h)\<rparr>))"

text \<open>A new database in new memory; its record flags are zero.\<close>

definition db_handle_init :: "'l bdb_lib \<Rightarrow> 'l db_state \<Rightarrow> (nat \<times> 'l db_state) res" where
  "db_handle_init B s =
     andThen (db_private_new B (s\<lparr>ds_next := ds_next s + 1\<rparr>) (ds_next s)) (\<lambda>(ok, s1).
       if ok then Inr (ds_next s, s1) else Inl Abort)"

text \<open>The private part is freed, the memory of the database only by the callers.\<close>

definition db_handle_cleanup :: "'l bdb_lib \<Rightarrow> 'l db_state \<Rightarrow> nat \<Rightarrow> 'l db_state res" where
  "db_handle_cleanup B s a = db_private_free B s a"

text \<open>The types \<open>DB_BTREE\<close> and \<open>DB_HASH\<close> of the library are 1 and 2, an unknown one 5.\<close>

definition db_open ::
    "'l bdb_lib \<Rightarrow> 'l db_state \<Rightarrow> nat \<Rightarrow> db_engine_txn option \<Rightarrow> string option \<Rightarrow> int \<Rightarrow> u32 \<Rightarrow> (int \<times> 'l db_state) res" where
  "db_open B s a t name db_type flags =
     (case name of
        None \<Rightarrow> Inl Abort
      | Some n \<Rightarrow>
          andThen (handle_at s a) (\<lambda>h.
            let ty = (if db_type = 0 then 1 else if db_type = 1 then 2 else 5 :: int); dup = (flags AND 1 \<noteq> 0)
            in if ty = 5 then Inl Abort
               else let h1 = h\<lparr>dh_db_type := ty,
                      dh_record_flags := (if dup then dh_record_flags h OR db_record_flags_multiple else dh_record_flags h)\<rparr>
               in case lib_db_open B (ds_lib s) (dh_dbp h) (db_txn_get_handle t) n ty dup of (rc, l) \<Rightarrow>
                 andThen (db_check_error s rc) (\<lambda>_. Inr (rc, (put_handle s a h1)\<lparr>ds_lib := l\<rparr>))))"

text \<open>A null pointer in the list stops at the assertion.\<close>

fun find_dbp :: "'l db_state \<Rightarrow> nat \<Rightarrow> nat \<Rightarrow> db_cell list \<Rightarrow> nat option res" where
  "find_dbp s dbp 0 cs = Inr None"
| "find_dbp s dbp (Suc k) [] = Inl Undefined"
| "find_dbp s dbp (Suc k) (Unset # cs) = Inl Undefined"
| "find_dbp s dbp (Suc k) (Null # cs) = Inl Abort"
| "find_dbp s dbp (Suc k) (Ref a # cs) =
     andThen (handle_at s a) (\<lambda>h. if dh_dbp h = dbp then Inr (Some a) else find_dbp s dbp k cs)"

definition db_engine_find_db :: "'l db_state \<Rightarrow> nat \<Rightarrow> nat option res" where
  "db_engine_find_db s dbp =
     (case ds_engine s of None \<Rightarrow> Inl Abort | Some p \<Rightarrow> find_dbp s dbp (ep_count p) (ep_databases p))"

text \<open>What the library calls for a record of a database with an index: the keys, or none for -1.\<close>

definition secondary_db_get_key :: "'l db_state \<Rightarrow> nat \<Rightarrow> bytes \<Rightarrow> bytes \<Rightarrow> bytes list option res" where
  "secondary_db_get_key s dbp key data =
     andThen (db_engine_find_db s dbp) (\<lambda>found.
       case found of None \<Rightarrow> Inl Abort | Some a \<Rightarrow>
         andThen (handle_at s a) (\<lambda>h.
           case dh_associate h of None \<Rightarrow> Inl Abort | Some f \<Rightarrow>
             Inr (if f key data = [] then None else Some (f key data))))"

definition db_associate ::
    "'l bdb_lib \<Rightarrow> 'l db_state \<Rightarrow> nat \<Rightarrow> db_engine_txn option \<Rightarrow> nat \<Rightarrow> db_associate_callback \<Rightarrow> (int \<times> 'l db_state) res" where
  "db_associate B s primary t secondary associated_by =
     andThen (handle_at s secondary) (\<lambda>h2.
       let s1 = put_handle s secondary (h2\<lparr>dh_associate := Some associated_by\<rparr>)
       in andThen (handle_at s1 primary) (\<lambda>h1.
         case lib_associate B (ds_lib s) (dh_dbp h1) (db_txn_get_handle t) (dh_dbp h2) of (rc, l) \<Rightarrow>
           Inr (rc, s1\<lparr>ds_lib := l\<rparr>)))"

definition db_close :: "'l db_state \<Rightarrow> nat \<Rightarrow> int" where "db_close s a = 0"

section \<open>Records\<close>

definition db_record_data_cleanup :: "db_record_data \<Rightarrow> db_record_data" where
  "db_record_data_cleanup r = (if rd_flags r = 1 then r\<lparr>rd_data := None, rd_flags := 0\<rparr> else r)"

text \<open>The record for the data of a result, in new memory or in that of a record of the same size.\<close>

definition db_record_data_set :: "db_record_data option \<Rightarrow> dbt \<Rightarrow> db_record_data res" where
  "db_record_data_set result v =
     (case dbt_data v of
        None \<Rightarrow> Inl Abort
      | Some d \<Rightarrow>
          if dbt_size v = 0 then Inl Abort
          else let r = (case result of None \<Rightarrow> record_data_zero | Some r \<Rightarrow> r);
                   n = dbt_size v;
                   r1 = (if rd_size r = 0 then r\<lparr>rd_size := int n\<rparr> else r)
          in if rd_size r1 \<noteq> int n then Inl Abort
             else andThen (mem_read n d) (\<lambda>x.
               case rd_data r1 of
                 None \<Rightarrow> Inr (r1\<lparr>rd_flags := 1, rd_data := Some x\<rparr>)
               | Some old \<Rightarrow> andThen (mem_write x old) (\<lambda>new. Inr (r1\<lparr>rd_data := Some new\<rparr>))))"

definition dbt_of :: "bytes \<Rightarrow> dbt" where
  "dbt_of d = \<lparr>dbt_data = Some d, dbt_size = length d, dbt_ulen = 0, dbt_flags = Dbt_plain\<rparr>"

definition dbt_empty :: "dbt_flags \<Rightarrow> dbt" where
  "dbt_empty f = \<lparr>dbt_data = None, dbt_size = 0, dbt_ulen = 0, dbt_flags = f\<rparr>"

text \<open>The results behind those found are in memory that has been cleared.\<close>

definition grow_records :: "db_record_data list \<Rightarrow> nat \<Rightarrow> db_record_data list" where
  "grow_records rs count =
     (if length rs \<le> count then rs @ replicate (length rs) record_data_zero else rs)"

definition max_records :: nat where "max_records = 1024"

text \<open>All records of one key, with a bound on their number.\<close>

fun find_loop ::
    "nat \<Rightarrow> 'l bdb_lib \<Rightarrow> 'l \<Rightarrow> nat \<Rightarrow> int \<Rightarrow> dbt \<Rightarrow> dbt \<Rightarrow> db_record_data list \<Rightarrow> nat \<Rightarrow> (db_record_data list \<times> nat \<times> 'l) res" where
  "find_loop 0 B l c rc key v rs count = (if rc \<noteq> 0 then Inr (rs, count, l) else Inl Unfinished)"
| "find_loop (Suc fuel) B l c rc key v rs count =
     (if rc \<noteq> 0 then Inr (rs, count, l)
      else let rs1 = grow_records rs count
      in andThen (db_record_data_set (Some (rs1 ! count)) v) (\<lambda>r.
        case lib_cursor_get B l c key (v\<lparr>dbt_data := None\<rparr>) Db_next_dup of (rc1, key1, v1, l1) \<Rightarrow>
          find_loop fuel B l1 c rc1 key1 v1 (rs1[count := r]) (count + 1)))"

text \<open>
  The count and the records behind the pointer of the caller: one record in the memory it points to,
  or for a database with several records of a key a new array.
\<close>

definition db_find ::
    "nat \<Rightarrow> 'l bdb_lib \<Rightarrow> 'l db_state \<Rightarrow> nat \<Rightarrow> db_engine_txn option \<Rightarrow> bytes \<Rightarrow> db_record_data option option
      \<Rightarrow> (int \<times> db_record_data list \<times> 'l db_state) res" where
  "db_find fuel B s a t key p_values =
     andThen (handle_at s a) (\<lambda>h.
       let txn = db_txn_get_handle t
       in if dh_record_flags h AND db_record_flags_multiple = 0
          then case p_values of
              None \<Rightarrow> Inr (1, [], s)
            | Some given \<Rightarrow>
                (case lib_get B (ds_lib s) (dh_dbp h) txn (dbt_of key) (dbt_empty Dbt_malloc) of (rc, v, l) \<Rightarrow>
                  andThen (db_check_error s rc) (\<lambda>_.
                    if rc \<noteq> 0 then Inr (1, case given of None \<Rightarrow> [] | Some r \<Rightarrow> [r], s\<lparr>ds_lib := l\<rparr>)
                    else andThen (db_record_data_set given v) (\<lambda>r. Inr (1, [r], s\<lparr>ds_lib := l\<rparr>))))
          else case p_values of
              None \<Rightarrow> Inl Abort
            | Some _ \<Rightarrow>
                (case lib_cursor B (ds_lib s) (dh_dbp h) txn of (rc, c, l) \<Rightarrow>
                  if rc \<noteq> 0 then Inl Abort
                  else case c of None \<Rightarrow> Inl Abort | Some c \<Rightarrow>
                    (case lib_cursor_get B l c (dbt_of key) (dbt_empty Dbt_malloc) Db_set of (rc, k, v, l1) \<Rightarrow>
                      andThen (db_check_error s rc) (\<lambda>_.
                        andThen (find_loop fuel B l1 c rc k v (replicate max_records record_data_zero) 0) (\<lambda>(rs, count, l2).
                          Inr (int count, take count rs, s\<lparr>ds_lib := lib_cursor_close B l2 c\<rparr>))))))"

fun find_secondary_loop ::
    "nat \<Rightarrow> 'l bdb_lib \<Rightarrow> 'l \<Rightarrow> nat \<Rightarrow> int \<Rightarrow> dbt \<Rightarrow> dbt \<Rightarrow> dbt \<Rightarrow> db_record_data list option \<Rightarrow> db_record_data list \<Rightarrow> nat
      \<Rightarrow> (db_record_data list option \<times> db_record_data list \<times> nat \<times> 'l) res" where
  "find_secondary_loop 0 B l c rc skey key v ks rs count = (if rc \<noteq> 0 then Inr (ks, rs, count, l) else Inl Unfinished)"
| "find_secondary_loop (Suc fuel) B l c rc skey key v ks rs count =
     (if rc \<noteq> 0 then Inr (ks, rs, count, l)
      else let ks1 = map_option (\<lambda>ks. grow_records ks count) ks; rs1 = grow_records rs count
      in andThen (case ks1 of None \<Rightarrow> Inr None
             | Some ks \<Rightarrow> andThen (db_record_data_set (Some (ks ! count)) key) (\<lambda>r. Inr (Some (ks[count := r])))) (\<lambda>ks2.
        andThen (db_record_data_set (Some (rs1 ! count)) v) (\<lambda>r.
          case lib_cursor_pget B l c skey (key\<lparr>dbt_data := None\<rparr>) (v\<lparr>dbt_data := None\<rparr>) Db_next_dup of (rc1, sk1, k1, v1, l1) \<Rightarrow>
            find_secondary_loop fuel B l1 c rc1 sk1 k1 v1 ks2 (rs1[count := r]) (count + 1))))"

text \<open>Keys of the primary database only when the caller has a place for them; nothing is written when nothing is found.\<close>

definition db_find_secondary ::
    "nat \<Rightarrow> 'l bdb_lib \<Rightarrow> 'l db_state \<Rightarrow> nat \<Rightarrow> db_engine_txn option \<Rightarrow> bytes \<Rightarrow> db_record_data option option
      \<Rightarrow> db_record_data option option \<Rightarrow> (int \<times> db_record_data list option \<times> db_record_data list option \<times> 'l db_state) res" where
  "db_find_secondary fuel B s a t skey p_keys p_values =
     andThen (handle_at s a) (\<lambda>h.
       let txn = db_txn_get_handle t
       in if dh_record_flags h AND db_record_flags_multiple = 0
          then case p_values of
              None \<Rightarrow> Inr (1, None, None, s)
            | Some given \<Rightarrow>
                (case lib_pget B (ds_lib s) (dh_dbp h) txn (dbt_of skey) (dbt_empty Dbt_malloc) (dbt_empty Dbt_malloc) of (rc, k, v, l) \<Rightarrow>
                  andThen (db_check_error s rc) (\<lambda>_.
                    if rc \<noteq> 0 then Inr (0, None, None, s\<lparr>ds_lib := l\<rparr>)
                    else andThen (case p_keys of None \<Rightarrow> Inr None
                           | Some g \<Rightarrow> andThen (db_record_data_set g k) (\<lambda>r. Inr (Some [r]))) (\<lambda>ks.
                      andThen (db_record_data_set given v) (\<lambda>r. Inr (1, ks, Some [r], s\<lparr>ds_lib := l\<rparr>)))))
          else case p_values of
              None \<Rightarrow> Inl Abort
            | Some _ \<Rightarrow>
                (case lib_cursor B (ds_lib s) (dh_dbp h) txn of (rc, c, l) \<Rightarrow>
                  if rc \<noteq> 0 then Inl Abort
                  else case c of None \<Rightarrow> Inl Abort | Some c \<Rightarrow>
                    (case lib_cursor_pget B l c (dbt_of skey) (dbt_empty Dbt_malloc) (dbt_empty Dbt_malloc) Db_set of (rc, sk, k, v, l1) \<Rightarrow>
                      andThen (db_check_error s rc) (\<lambda>_.
                        andThen (find_secondary_loop fuel B l1 c rc sk k v
                            (map_option (\<lambda>_. replicate max_records record_data_zero) p_keys)
                            (replicate max_records record_data_zero) 0) (\<lambda>(ks, rs, count, l2).
                          let s1 = s\<lparr>ds_lib := lib_cursor_close B l2 c\<rparr>
                          in if count = 0 then Inr (0, None, None, s1)
                             else Inr (int count, map_option (take count) ks, Some (take count rs), s1))))))"

definition db_insert ::
    "'l bdb_lib \<Rightarrow> 'l db_state \<Rightarrow> nat \<Rightarrow> db_engine_txn option \<Rightarrow> bytes \<Rightarrow> bytes \<Rightarrow> (int \<times> 'l db_state) res" where
  "db_insert B s a t key v =
     andThen (handle_at s a) (\<lambda>h.
       case lib_put B (ds_lib s) (dh_dbp h) (db_txn_get_handle t) (dbt_of key) (dbt_of v)
           (dh_record_flags h AND db_record_flags_no_overwrite \<noteq> 0) of (rc, l) \<Rightarrow>
         andThen (db_check_error s rc) (\<lambda>_. Inr (rc, s\<lparr>ds_lib := l\<rparr>)))"

text \<open>The old record is looked up without a flag for its memory; the flags of the key do not matter.\<close>

definition db_update ::
    "'l bdb_lib \<Rightarrow> 'l db_state \<Rightarrow> nat \<Rightarrow> db_engine_txn option \<Rightarrow> bytes \<Rightarrow> bytes \<Rightarrow> (int \<times> 'l db_state) res" where
  "db_update B s a t key v =
     andThen (handle_at s a) (\<lambda>h.
       case lib_cursor B (ds_lib s) (dh_dbp h) (db_txn_get_handle t) of (rc, c, l) \<Rightarrow>
         if rc \<noteq> 0 then Inl Abort
         else case c of None \<Rightarrow> Inl Abort | Some c \<Rightarrow>
           (case lib_cursor_get B l c (dbt_of key) (dbt_empty Dbt_plain) Db_set of (rc, k, old, l1) \<Rightarrow>
             andThen (db_check_error s rc) (\<lambda>_.
               case (if rc = 0 then lib_cursor_put B l1 c (old\<lparr>dbt_data := Some v, dbt_size := length v\<rparr>) else (rc, l1)) of (rc2, l2) \<Rightarrow>
                 Inr (rc2, s\<lparr>ds_lib := lib_cursor_close B l2 c\<rparr>))))"

definition db_del :: "'l bdb_lib \<Rightarrow> 'l db_state \<Rightarrow> nat \<Rightarrow> db_engine_txn option \<Rightarrow> bytes \<Rightarrow> (int \<times> 'l db_state) res" where
  "db_del B s a t key =
     andThen (handle_at s a) (\<lambda>h.
       case lib_del B (ds_lib s) (dh_dbp h) (db_txn_get_handle t) (dbt_of key) of (rc, l) \<Rightarrow>
         andThen (db_check_error s rc) (\<lambda>_. Inr (rc, s\<lparr>ds_lib := l\<rparr>)))"

section \<open>Cursors\<close>

record db_cursor_handle =
  cu_priv :: "nat option"
  cu_db :: nat
  cu_skey :: db_record_data
  cu_key :: db_record_data
  cu_value :: db_record_data

definition db_cursor_clear_data :: "db_cursor_handle \<Rightarrow> db_cursor_handle" where
  "db_cursor_clear_data cu =
     cu\<lparr>cu_skey := db_record_data_cleanup (cu_skey cu), cu_key := db_record_data_cleanup (cu_key cu),
        cu_value := db_record_data_cleanup (cu_value cu)\<rparr>"

text \<open>The memory of a record of the cursor, when it has some, is what the library returns data in.\<close>

definition record_dbt :: "db_record_data \<Rightarrow> dbt" where
  "record_dbt r =
     (case rd_data r of
        Some d \<Rightarrow> if 0 < rd_size r
          then \<lparr>dbt_data = Some d, dbt_size = 0, dbt_ulen = nat (rd_size r), dbt_flags = Dbt_usermem\<rparr> else dbt_empty Dbt_malloc
      | None \<Rightarrow> dbt_empty Dbt_malloc)"

text \<open>The record after the call: its memory as the library left it, or new data.\<close>

definition take_dbt :: "int \<Rightarrow> db_record_data \<Rightarrow> dbt \<Rightarrow> db_record_data res" where
  "take_dbt rc r v =
     (case dbt_flags v of
        Dbt_usermem \<Rightarrow> Inr (r\<lparr>rd_data := dbt_data v\<rparr>)
      | _ \<Rightarrow> if rc = 0 then db_record_data_set (Some r) v else Inr r)"

definition db_cursor_op ::
    "'l bdb_lib \<Rightarrow> 'l db_state \<Rightarrow> db_cursor_handle \<Rightarrow> cursor_move \<Rightarrow> (int \<times> db_cursor_handle \<times> 'l db_state) res" where
  "db_cursor_op B s cu move =
     (case cu_priv cu of None \<Rightarrow> Inl Undefined | Some c \<Rightarrow>
       andThen (handle_at s (cu_db cu)) (\<lambda>h.
         let dup = (dh_record_flags h AND db_record_flags_multiple \<noteq> 0);
             key = record_dbt (cu_key cu); v = record_dbt (cu_value cu)
         in case (if dup then lib_cursor_pget B (ds_lib s) c (record_dbt (cu_skey cu)) key v move
                  else (case lib_cursor_get B (ds_lib s) c key v move of (rc, k1, v1, l) \<Rightarrow> (rc, dbt_empty Dbt_plain, k1, v1, l)))
            of (rc, sk1, k1, v1, l) \<Rightarrow>
              andThen (db_check_error s rc) (\<lambda>_.
                andThen (if dup then take_dbt rc (cu_skey cu) sk1 else Inr (cu_skey cu)) (\<lambda>sk.
                  andThen (take_dbt rc (cu_key cu) k1) (\<lambda>k.
                    andThen (take_dbt rc (cu_value cu) v1) (\<lambda>r.
                      Inr (rc, cu\<lparr>cu_skey := sk, cu_key := k, cu_value := r\<rparr>, s\<lparr>ds_lib := l\<rparr>)))))))"

definition db_cursor_first where "db_cursor_first B s cu = db_cursor_op B s cu Db_first"
definition db_cursor_last where "db_cursor_last B s cu = db_cursor_op B s cu Db_last"
definition db_cursor_next where "db_cursor_next B s cu = db_cursor_op B s cu Db_next"
definition db_cursor_prev where "db_cursor_prev B s cu = db_cursor_op B s cu Db_prev"
definition db_cursor_next_dup where "db_cursor_next_dup B s cu = db_cursor_op B s cu Db_next_dup"
definition db_cursor_prev_dup where "db_cursor_prev_dup B s cu = db_cursor_op B s cu Db_prev_dup"

definition db_cursor_move_to ::
    "'l bdb_lib \<Rightarrow> 'l db_state \<Rightarrow> db_cursor_handle \<Rightarrow> bytes \<Rightarrow> (int \<times> db_cursor_handle \<times> 'l db_state) res" where
  "db_cursor_move_to B s cu key =
     andThen (handle_at s (cu_db cu)) (\<lambda>h.
       if dh_record_flags h AND db_record_flags_multiple \<noteq> 0
       then andThen (db_record_data_set (Some (cu_skey cu)) (dbt_of key)) (\<lambda>r. db_cursor_op B s (cu\<lparr>cu_skey := r\<rparr>) Db_set)
       else andThen (db_record_data_set (Some (cu_key cu)) (dbt_of key)) (\<lambda>r. db_cursor_op B s (cu\<lparr>cu_key := r\<rparr>) Db_set))"

definition db_cursor_set :: "'l bdb_lib \<Rightarrow> 'l db_state \<Rightarrow> db_cursor_handle \<Rightarrow> (int \<times> 'l db_state) res" where
  "db_cursor_set B s cu =
     (case cu_priv cu of None \<Rightarrow> Inl Abort | Some c \<Rightarrow>
       (case lib_cursor_put B (ds_lib s) c ((dbt_empty Dbt_plain)\<lparr>dbt_data := rd_data (cu_value cu), dbt_size := nat (rd_size (cu_value cu))\<rparr>)
        of (rc, l) \<Rightarrow> Inr (rc, s\<lparr>ds_lib := l\<rparr>)))"

definition db_cursor_del :: "'l bdb_lib \<Rightarrow> 'l db_state \<Rightarrow> db_cursor_handle \<Rightarrow> (int \<times> 'l db_state) res" where
  "db_cursor_del B s cu =
     (case cu_priv cu of None \<Rightarrow> Inl Abort | Some c \<Rightarrow>
       (case lib_cursor_del B (ds_lib s) c of (rc, l) \<Rightarrow> Inr (rc, s\<lparr>ds_lib := l\<rparr>)))"

text \<open>A new cursor, none when the library gives none; memory of the caller keeps its records.\<close>

definition db_cursor_init ::
    "'l bdb_lib \<Rightarrow> 'l db_state \<Rightarrow> db_cursor_handle option \<Rightarrow> nat \<Rightarrow> db_engine_txn option \<Rightarrow> (db_cursor_handle option \<times> 'l db_state) res" where
  "db_cursor_init B s given a t =
     andThen (handle_at s a) (\<lambda>h.
       case lib_cursor B (ds_lib s) (dh_dbp h) (db_txn_get_handle t) of (rc, c, l) \<Rightarrow>
         if rc \<noteq> 0 then Inr (None, s\<lparr>ds_lib := l\<rparr>)
         else let cu = (case given of None \<Rightarrow> \<lparr>cu_priv = None, cu_db = a, cu_skey = record_data_zero, cu_key = record_data_zero,
                          cu_value = record_data_zero\<rparr> | Some cu \<Rightarrow> cu)
         in Inr (Some (cu\<lparr>cu_priv := c, cu_db := a\<rparr>), s\<lparr>ds_lib := l\<rparr>))"

definition db_cursor_cleanup :: "'l bdb_lib \<Rightarrow> 'l db_state \<Rightarrow> db_cursor_handle \<Rightarrow> db_cursor_handle \<times> 'l db_state" where
  "db_cursor_cleanup B s cu =
     (case cu_priv cu of None \<Rightarrow> (cu, s) | Some c \<Rightarrow>
       (db_cursor_clear_data cu, s\<lparr>ds_lib := lib_cursor_close B (ds_lib s) c\<rparr>))"

section \<open>The engine\<close>

text \<open>The clearing after a growth starts at the first place, with as many places as there are new ones.\<close>

definition db_engine_resize :: "db_engine_private \<Rightarrow> int \<Rightarrow> db_engine_private" where
  "db_engine_resize p new_size =
     (let n = (if new_size \<le> 0 then 64 else (new_size + 63) div 64 * 64)
      in if n < ep_max_size p then p
         else let cs = ep_databases p @ replicate (nat (n - ep_max_size p)) Unset; k = nat (n - ep_max_size p)
         in p\<lparr>ep_databases := replicate k Null @ drop k cs, ep_max_size := n\<rparr>)"

definition db_engine_private_new :: "'l bdb_lib \<Rightarrow> 'l db_state \<Rightarrow> 'l db_state res" where
  "db_engine_private_new B s =
     (case lib_env_create B (ds_lib s) of (rc, l) \<Rightarrow>
       if rc \<noteq> 0 then Inl Abort
       else Inr (s\<lparr>ds_lib := l, ds_engine := Some (db_engine_resize
         \<lparr>ep_env = True, ep_home_dir = [], ep_max_size = 0, ep_count = 0, ep_databases = [], ep_refs_count = 0\<rparr> 0)\<rparr>))"

fun free_databases :: "'l bdb_lib \<Rightarrow> 'l db_state \<Rightarrow> nat \<Rightarrow> db_cell list \<Rightarrow> 'l db_state res" where
  "free_databases B s 0 cs = Inr s"
| "free_databases B s (Suc k) [] = Inl Undefined"
| "free_databases B s (Suc k) (Unset # cs) = Inl Undefined"
| "free_databases B s (Suc k) (Null # cs) = free_databases B s k cs"
| "free_databases B s (Suc k) (Ref a # cs) = andThen (db_handle_cleanup B s a) (\<lambda>s1. free_databases B s1 k cs)"

definition db_engine_private_free :: "'l bdb_lib \<Rightarrow> 'l db_state \<Rightarrow> db_engine_private \<Rightarrow> 'l db_state res" where
  "db_engine_private_free B s p =
     (if ep_env p
      then andThen (free_databases B s (ep_count p) (ep_databases p)) (\<lambda>s1. Inr (s1\<lparr>ds_lib := lib_env_close B (ds_lib s1)\<rparr>))
      else Inr s)"

definition engine_set_home :: "'l bdb_lib \<Rightarrow> 'l db_state \<Rightarrow> string option \<Rightarrow> 'l db_state res" where
  "engine_set_home B s home_dir =
     (let dir = (case home_dir of None \<Rightarrow> ''./data'' | Some d \<Rightarrow> d)
      in case ds_engine s of None \<Rightarrow> Inl Undefined | Some p \<Rightarrow>
        (case (if ep_env p then (0, ds_lib s) else lib_env_create B (ds_lib s)) of (rc0, l0) \<Rightarrow>
          if rc0 \<noteq> 0 then Inl Abort
          else case lib_env_open B l0 dir of (rc, l) \<Rightarrow>
            if rc \<noteq> 0 then Inl Abort
            else Inr (s\<lparr>ds_lib := l, ds_engine := Some (p\<lparr>ep_env := True, ep_home_dir := take 4096 dir\<rparr>)\<rparr>)))"

fun list_find :: "nat \<Rightarrow> nat \<Rightarrow> db_cell list \<Rightarrow> nat \<Rightarrow> nat option res" where
  "list_find i 0 cs a = Inr None"
| "list_find i (Suc k) [] a = Inl Undefined"
| "list_find i (Suc k) (c # cs) a =
     (if c = Unset then Inl Undefined else if c = Ref a then Inr (Some i) else list_find (i + 1) k cs a)"

definition engine_list_add :: "'l db_state \<Rightarrow> nat \<Rightarrow> (int \<times> 'l db_state) res" where
  "engine_list_add s a =
     (case ds_engine s of None \<Rightarrow> Inl Abort | Some p \<Rightarrow>
       andThen (list_find 0 (ep_count p) (ep_databases p) a) (\<lambda>found.
         case found of
           Some _ \<Rightarrow> Inr (-1, s)
         | None \<Rightarrow>
             let p1 = db_engine_resize p (int (ep_count p) + 1)
             in if length (ep_databases p1) \<le> ep_count p1 then Inl Undefined
                else Inr (0, s\<lparr>ds_engine := Some (p1\<lparr>ep_databases := (ep_databases p1)[ep_count p1 := Ref a],
                  ep_count := ep_count p1 + 1\<rparr>)\<rparr>)))"

definition engine_list_remove :: "'l db_state \<Rightarrow> nat \<Rightarrow> (int \<times> 'l db_state) res" where
  "engine_list_remove s a =
     (case ds_engine s of None \<Rightarrow> Inl Abort | Some p \<Rightarrow>
       andThen (list_find 0 (ep_count p) (ep_databases p) a) (\<lambda>found.
         case found of
           None \<Rightarrow> Inr (-1, s)
         | Some i \<Rightarrow>
             let n = ep_count p - 1
             in Inr (0, s\<lparr>ds_engine := Some (p\<lparr>ep_databases := (ep_databases p)[i := ep_databases p ! n, n := Null],
                  ep_count := n\<rparr>)\<rparr>)))"

definition engine_open_db ::
    "'l bdb_lib \<Rightarrow> 'l db_state \<Rightarrow> string option \<Rightarrow> int \<Rightarrow> u32 \<Rightarrow> (nat \<times> 'l db_state) res" where
  "engine_open_db B s name db_type flags =
     (if ds_engine s = None then Inl Abort
      else andThen (db_handle_init B s) (\<lambda>(a, s1).
        andThen (db_open B s1 a None name db_type flags) (\<lambda>(rc, s2).
          if rc \<noteq> 0 then Inl Abort
          else andThen (engine_list_add s2 a) (\<lambda>(rc2, s3). if rc2 \<noteq> 0 then Inl Abort else Inr (a, s3)))))"

definition engine_close_db :: "'l db_state \<Rightarrow> nat option \<Rightarrow> (int \<times> 'l db_state) res" where
  "engine_close_db s db =
     (case db of None \<Rightarrow> Inr (-1, s) | Some a \<Rightarrow>
       if ds_engine s = None then Inl Abort
       else andThen (handle_at s a) (\<lambda>_.
         let rc = db_close s a
         in andThen (db_check_error s rc) (\<lambda>_. andThen (engine_list_remove s a) (\<lambda>(_, s1). Inr (rc, s1)))))"

definition engine_txn_new ::
    "'l bdb_lib \<Rightarrow> 'l db_state \<Rightarrow> db_engine_txn option \<Rightarrow> (db_engine_txn option \<times> 'l db_state) res" where
  "engine_txn_new B s parent =
     andThen (txn_begin B s (db_engine_txn_init None) parent) (\<lambda>(rc, t, s1).
       if rc = 0 then Inr (Some t, s1)
       else andThen (db_check_error s1 rc) (\<lambda>_. Inr (None, snd (db_engine_txn_cleanup B s1 t))))"

definition engine_txn_free :: "'l bdb_lib \<Rightarrow> 'l db_state \<Rightarrow> db_engine_txn option \<Rightarrow> 'l db_state" where
  "engine_txn_free B s t = (case t of None \<Rightarrow> s | Some x \<Rightarrow> snd (db_engine_txn_cleanup B s x))"

definition db_engine_add_ref :: "'l db_state \<Rightarrow> bool \<times> 'l db_state" where
  "db_engine_add_ref s =
     (case ds_engine s of None \<Rightarrow> (False, s)
      | Some p \<Rightarrow> (True, s\<lparr>ds_engine := Some (p\<lparr>ep_refs_count := ep_refs_count p + 1\<rparr>)\<rparr>))"

definition db_engine_init :: "'l bdb_lib \<Rightarrow> 'l db_state \<Rightarrow> string option \<Rightarrow> 'l db_state res" where
  "db_engine_init B s home_dir =
     andThen (db_engine_private_new B s) (\<lambda>s1. andThen (engine_set_home B s1 home_dir) (\<lambda>s2. Inr (snd (db_engine_add_ref s2))))"

definition db_engine_cleanup :: "'l bdb_lib \<Rightarrow> 'l db_state \<Rightarrow> 'l db_state res" where
  "db_engine_cleanup B s =
     (case ds_engine s of None \<Rightarrow> Inr s | Some p \<Rightarrow>
       if ep_refs_count p = 0 then Inr s
       else let p1 = p\<lparr>ep_refs_count := ep_refs_count p - 1\<rparr>
       in if ep_refs_count p1 = 0
          then andThen (db_engine_private_free B s p1) (\<lambda>s1. Inr (s1\<lparr>ds_engine := None\<rparr>))
          else Inr (s\<lparr>ds_engine := Some p1\<rparr>))"

end
