(* ===== verification/DbLibrary.thy ===== *)
theory DbLibrary
  imports DbEngine "HOL-Library.List_Lexorder"
begin

text \<open>
  The library under the database engine: what it documents about the entries of a database and about
  cursors is the locale \<open>bdb_entries\<close>, on which the facts about searches and cursors rest. Databases kept
  as lists in memory show that it can be met.
\<close>

section \<open>What the library promises\<close>

text \<open>The place a cursor moves to among the entries of its database, from a place or from nowhere.\<close>

definition cursor_target :: "(bytes \<times> bytes) list \<Rightarrow> nat option \<Rightarrow> bytes \<Rightarrow> cursor_move \<Rightarrow> nat option" where
  "cursor_target es p k move =
     (let at = (\<lambda>i. if i < length es then Some i else None) in
      case move of
        Db_first \<Rightarrow> at 0
      | Db_last \<Rightarrow> (if es = [] then None else Some (length es - 1))
      | Db_next \<Rightarrow> (case p of None \<Rightarrow> at 0 | Some i \<Rightarrow> at (Suc i))
      | Db_prev \<Rightarrow> (case p of None \<Rightarrow> (if es = [] then None else Some (length es - 1))
          | Some i \<Rightarrow> (if i = 0 then None else at (i - 1)))
      | Db_next_dup \<Rightarrow> (case p of None \<Rightarrow> None
          | Some i \<Rightarrow> if Suc i < length es \<and> fst (es ! Suc i) = fst (es ! i) then Some (Suc i) else None)
      | Db_prev_dup \<Rightarrow> (case p of None \<Rightarrow> None
          | Some i \<Rightarrow> if 0 < i \<and> i < length es \<and> fst (es ! (i - 1)) = fst (es ! i) then Some (i - 1) else None)
      | Db_set \<Rightarrow> at (length (takeWhile (\<lambda>e. fst e \<noteq> k) es)))"

text \<open>Returned data: into the memory of the caller when it is long enough, or into new memory.\<close>

definition dbt_fits :: "dbt \<Rightarrow> bytes \<Rightarrow> bool" where
  "dbt_fits v d \<longleftrightarrow> (dbt_flags v = Dbt_usermem \<longrightarrow> length d \<le> dbt_ulen v)"

definition dbt_return :: "dbt \<Rightarrow> bytes \<Rightarrow> dbt" where
  "dbt_return v d = v\<lparr>dbt_data := Some (if dbt_flags v = Dbt_usermem then d @ drop (length d) (the (dbt_data v)) else d),
     dbt_size := length d\<rparr>"

text \<open>The key to search for is as long as the size says.\<close>

definition search_key :: "dbt \<Rightarrow> bytes" where
  "search_key k = take (dbt_size k) (case dbt_data k of None \<Rightarrow> [] | Some d \<Rightarrow> d)"

text \<open>What a call that found no room leaves in the memory of the caller is open; its size is not set by the caller.\<close>

definition same_room :: "dbt \<Rightarrow> dbt \<Rightarrow> bool" where
  "same_room v v' \<longleftrightarrow> dbt_flags v' = dbt_flags v
     \<and> (dbt_flags v = Dbt_usermem \<longrightarrow> map_option length (dbt_data v') = map_option length (dbt_data v))"

text \<open>
  The entries of a database in order, those of one key next to each other. A move gives the key and
  the data of the entry, the key not when it was searched for; a move that fails leaves the cursor in its
  place, and when there is no entry the records of the caller as they were.
\<close>

locale bdb_entries =
  fixes B :: "'l bdb_lib" and entries :: "'l \<Rightarrow> nat \<Rightarrow> (bytes \<times> bytes) list"
    and place :: "'l \<Rightarrow> nat \<Rightarrow> (nat \<times> nat option) option" and notfound :: int and too_small :: int
  assumes codes: "notfound \<noteq> 0" "too_small \<noteq> 0"
    and grouped: "\<exists>pre suf. entries l dbp = pre @ filter (\<lambda>e. fst e = k) (entries l dbp) @ suf"
    and new_cursor: "\<exists>c l'. lib_cursor B l dbp t = (0, Some c, l') \<and> entries l' = entries l \<and> place l' c = Some (dbp, None)"
    and close_cursor: "entries (lib_cursor_close B l c) = entries l"
    and moved: "place l c = Some (dbp, p) \<Longrightarrow> cursor_target (entries l dbp) p (search_key key) move = Some i \<Longrightarrow>
      dbt_fits v (snd (entries l dbp ! i)) \<Longrightarrow> move = Db_set \<or> dbt_fits key (fst (entries l dbp ! i)) \<Longrightarrow>
      \<exists>l'. lib_cursor_get B l c key v move = (0, if move = Db_set then key else dbt_return key (fst (entries l dbp ! i)),
          dbt_return v (snd (entries l dbp ! i)), l')
        \<and> entries l' = entries l \<and> place l' c = Some (dbp, Some i)"
    and no_room: "place l c = Some (dbp, p) \<Longrightarrow> cursor_target (entries l dbp) p (search_key key) move = Some i \<Longrightarrow>
      \<not> dbt_fits v (snd (entries l dbp ! i)) \<or> move \<noteq> Db_set \<and> \<not> dbt_fits key (fst (entries l dbp ! i)) \<Longrightarrow>
      \<exists>key' v' l'. lib_cursor_get B l c key v move = (too_small, key', v', l') \<and> same_room key key' \<and> same_room v v'
        \<and> entries l' = entries l \<and> place l' c = place l c"
    and stuck: "place l c = Some (dbp, p) \<Longrightarrow> cursor_target (entries l dbp) p (search_key key) move = None \<Longrightarrow>
      \<exists>l'. lib_cursor_get B l c key v move = (notfound, key, v, l') \<and> entries l' = entries l \<and> place l' c = place l c"
    and get: "dbt_flags v = Dbt_malloc \<Longrightarrow> \<exists>l'. lib_get B l dbp t key v = (case map_of (entries l dbp) (search_key key) of
        None \<Rightarrow> (notfound, v, l') | Some d \<Rightarrow> (0, dbt_return v d, l')) \<and> entries l' = entries l"

section \<open>Databases in memory\<close>

text \<open>
  A database has a mark for several records of a key and its records in the order of insertion, read
  sorted by their keys, those of one key by their data; a cursor has its database and its place. Closing a
  database gives up its mark and its records.
\<close>

record mem_store =
  ms_dbs :: "nat \<Rightarrow> bool \<times> (bytes \<times> bytes) list"
  ms_cursors :: "nat \<Rightarrow> (nat \<times> nat option) option"
  ms_next :: nat

definition mem_start :: mem_store where
  "mem_start = \<lparr>ms_dbs = (\<lambda>_. (False, [])), ms_cursors = (\<lambda>_. None), ms_next = 0\<rparr>"

abbreviation db_notfound :: int where "db_notfound \<equiv> -30988"
abbreviation db_buffer_small :: int where "db_buffer_small \<equiv> -30999"

definition mem_entries :: "mem_store \<Rightarrow> nat \<Rightarrow> (bytes \<times> bytes) list" where
  "mem_entries l dbp = sort_key fst (sort_key snd (remdups (snd (ms_dbs l dbp))))"

definition mem_get :: "mem_store \<Rightarrow> nat \<Rightarrow> dbt \<Rightarrow> dbt \<Rightarrow> int \<times> dbt \<times> mem_store" where
  "mem_get l dbp key v =
     (case map_of (mem_entries l dbp) (search_key key) of
        None \<Rightarrow> (db_notfound, v, l)
      | Some d \<Rightarrow> if dbt_fits v d then (0, dbt_return v d, l) else (db_buffer_small, v, l))"

definition mem_put :: "mem_store \<Rightarrow> nat \<Rightarrow> dbt \<Rightarrow> dbt \<Rightarrow> bool \<Rightarrow> int \<times> mem_store" where
  "mem_put l dbp key v no_overwrite =
     (let k = search_key key; (dup, es) = ms_dbs l dbp
      in if no_overwrite \<and> map_of es k \<noteq> None then (-30995, l)
         else (0, l\<lparr>ms_dbs := (ms_dbs l)(dbp := (dup, (if dup then es else filter (\<lambda>e. fst e \<noteq> k) es) @ [(k, search_key v)]))\<rparr>))"

definition mem_del :: "mem_store \<Rightarrow> nat \<Rightarrow> dbt \<Rightarrow> int \<times> mem_store" where
  "mem_del l dbp key =
     (let k = search_key key; (dup, es) = ms_dbs l dbp
      in if map_of es k = None then (db_notfound, l)
         else (0, l\<lparr>ms_dbs := (ms_dbs l)(dbp := (dup, filter (\<lambda>e. fst e \<noteq> k) es))\<rparr>))"

definition mem_cursor :: "mem_store \<Rightarrow> nat \<Rightarrow> int \<times> nat option \<times> mem_store" where
  "mem_cursor l dbp =
     (0, Some (ms_next l), l\<lparr>ms_cursors := (ms_cursors l)(ms_next l := Some (dbp, None)), ms_next := ms_next l + 1\<rparr>)"

definition mem_cursor_get :: "mem_store \<Rightarrow> nat \<Rightarrow> dbt \<Rightarrow> dbt \<Rightarrow> cursor_move \<Rightarrow> int \<times> dbt \<times> dbt \<times> mem_store" where
  "mem_cursor_get l c key v move =
     (case ms_cursors l c of
        None \<Rightarrow> (22, key, v, l)
      | Some (dbp, p) \<Rightarrow>
          (case cursor_target (mem_entries l dbp) p (search_key key) move of
             None \<Rightarrow> (db_notfound, key, v, l)
           | Some i \<Rightarrow>
               (case mem_entries l dbp ! i of (k, d) \<Rightarrow>
                 if dbt_fits v d \<and> (move = Db_set \<or> dbt_fits key k)
                 then (0, if move = Db_set then key else dbt_return key k, dbt_return v d,
                   l\<lparr>ms_cursors := (ms_cursors l)(c := Some (dbp, Some i))\<rparr>)
                 else (db_buffer_small, key, v, l))))"

text \<open>What a cursor changes is the entry of its place.\<close>

definition mem_cursor_change :: "mem_store \<Rightarrow> nat \<Rightarrow> ((bytes \<times> bytes) list \<Rightarrow> nat \<Rightarrow> (bytes \<times> bytes) list) \<Rightarrow> int \<times> mem_store" where
  "mem_cursor_change l c f =
     (case ms_cursors l c of
        Some (dbp, Some i) \<Rightarrow>
          if i < length (mem_entries l dbp)
          then (0, l\<lparr>ms_dbs := (ms_dbs l)(dbp := (fst (ms_dbs l dbp), f (mem_entries l dbp) i))\<rparr>) else (22, l)
      | _ \<Rightarrow> (22, l))"

definition mem_lib :: "mem_store bdb_lib" where
  "mem_lib = \<lparr>
     lib_env_create = (\<lambda>l. (0, l)), lib_env_open = (\<lambda>l _. (0, l)), lib_env_close = id,
     lib_txn_begin = (\<lambda>l _. (0, Some (ms_next l), l\<lparr>ms_next := ms_next l + 1\<rparr>)),
     lib_txn_commit = (\<lambda>l _ _. (0, l)), lib_txn_abort = (\<lambda>l _. (0, l)), lib_txn_prepare = (\<lambda>l _ _. (0, l)),
     lib_txn_discard = (\<lambda>l _. (0, l)), lib_txn_set_name = (\<lambda>l _ _. (0, l)), lib_txn_get_name = (\<lambda>l _. (0, None)),
     lib_db_create = (\<lambda>l. (0, Some (ms_next l), l\<lparr>ms_next := ms_next l + 1\<rparr>)),
     lib_db_open = (\<lambda>l dbp _ _ _ dup. (0, l\<lparr>ms_dbs := (ms_dbs l)(dbp := (dup, []))\<rparr>)),
     lib_db_close = (\<lambda>l dbp. l\<lparr>ms_dbs := (ms_dbs l)(dbp := (False, []))\<rparr>), lib_associate = (\<lambda>l _ _ _. (22, l)),
     lib_get = (\<lambda>l dbp _. mem_get l dbp), lib_pget = (\<lambda>l _ _ _ k v. (22, k, v, l)),
     lib_put = (\<lambda>l dbp _. mem_put l dbp), lib_del = (\<lambda>l dbp _. mem_del l dbp),
     lib_cursor = (\<lambda>l dbp _. mem_cursor l dbp), lib_cursor_get = mem_cursor_get,
     lib_cursor_pget = (\<lambda>l _ sk k v _. (22, sk, k, v, l)),
     lib_cursor_put = (\<lambda>l c v. mem_cursor_change l c (\<lambda>es i. es[i := (fst (es ! i), search_key v)])),
     lib_cursor_del = (\<lambda>l c. mem_cursor_change l c (\<lambda>es i. take i es @ drop (Suc i) es)),
     lib_cursor_close = (\<lambda>l c. l\<lparr>ms_cursors := (ms_cursors l)(c := None)\<rparr>)\<rparr>"

text \<open>In a sorted list the entries of one key are next to each other.\<close>

lemma sorted_grouped:
  "sorted (map fst es) \<Longrightarrow> \<exists>pre suf. es = pre @ filter (\<lambda>e. fst e = k) es @ suf" for es :: "(bytes \<times> bytes) list"
proof (induction es)
  case (Cons e es)
  then obtain pre suf where es: "es = pre @ filter (\<lambda>e. fst e = k) es @ suf" by auto
  show ?case
  proof (cases "fst e = k")
    case False
    then show ?thesis by (intro exI [of _ "e # pre"] exI [of _ suf]) (simp add: es [symmetric])
  next
    case True
    have "\<forall>x \<in> set es. k \<le> fst x" "sorted (map fst es)" using Cons.prems True by auto
    then have "filter (\<lambda>e. fst e = k) es = takeWhile (\<lambda>e. fst e = k) es"
    proof (induction es)
      case (Cons a es)
      show ?case
      proof (cases "fst a = k")
        case True
        then show ?thesis using Cons by simp
      next
        case False
        then have "\<forall>x \<in> set es. fst x \<noteq> k" using Cons.prems by force
        then show ?thesis using False by (simp add: filter_empty_conv)
      qed
    qed simp
    then have "es = filter (\<lambda>e. fst e = k) es @ dropWhile (\<lambda>e. fst e = k) es" by simp
    then show ?thesis using True by (intro exI [of _ "[]"] exI [of _ "dropWhile (\<lambda>e. fst e = k) es"]) simp
  qed
qed simp

interpretation mem: bdb_entries mem_lib mem_entries ms_cursors db_notfound db_buffer_small
proof (unfold_locales, goal_cases)
  case (3 l dbp k)
  then show ?case unfolding mem_entries_def by (rule sorted_grouped) simp
qed (auto simp: mem_lib_def mem_cursor_def mem_cursor_get_def mem_get_def mem_entries_def same_room_def
  dbt_fits_def fun_eq_iff
  split: option.splits prod.splits if_splits)

text \<open>The engine over such databases, and one of them filled by inserting records.\<close>

definition mem_state :: "mem_store db_state" where
  "mem_state = \<lparr>ds_lib = mem_start, ds_handles = Map.empty, ds_next = 0, ds_engine = None\<rparr>"

definition mem_engine :: "mem_store db_state" where
  "mem_engine = projr (db_engine_init mem_lib mem_state None)"

definition mem_filled :: "u32 \<Rightarrow> (bytes \<times> bytes) list \<Rightarrow> mem_store db_state" where
  "mem_filled flags es =
     (case engine_open_db mem_lib mem_engine (Some ''a'') 0 flags of
        Inl _ \<Rightarrow> mem_engine
      | Inr (a, s) \<Rightarrow> fold (\<lambda>(k, v) s. case db_insert mem_lib s a None k v of Inl _ \<Rightarrow> s | Inr (_, s1) \<Rightarrow> s1) es s)"

end
