(* ===== verification/DbRegistry.thy ===== *)
theory DbRegistry
  imports DbLibrary "HOL-Library.Multiset"
begin

text \<open>
  The databases of the engine (\<open>src/db_engine.c\<close>): a client opens and closes databases, and the array of
  the engine holds the open ones as long as there are at most 64; the 65th one wipes the array. What the
  last reference frees.
\<close>

section \<open>The list of databases\<close>

lemma list_find_refs:
  "k = length as \<Longrightarrow> list_find i k (map Ref as @ cs) a
    = Inr (if a \<in> set as then Some (i + length (takeWhile (\<lambda>x. x \<noteq> a) as)) else None)"
  by (induction as arbitrary: i k) auto

lemma find_dbp_refs:
  "k = length as \<Longrightarrow> \<forall>a \<in> set as. \<exists>h. ds_handles s a = Some h \<Longrightarrow>
    find_dbp s dbp k (map Ref as @ cs) = Inr (find (\<lambda>a. dh_dbp (the (ds_handles s a)) = dbp) as)"
  by (induction as arbitrary: k) (auto simp: handle_at_def)

text \<open>The engine, with one reference, has the databases \<open>as\<close> in its array of 64 places.\<close>

definition registry :: "'l db_state \<Rightarrow> nat list \<Rightarrow> bool" where
  "registry s as \<longleftrightarrow> (\<exists>p. ds_engine s = Some p \<and> ep_env p \<and> ep_refs_count p = 1 \<and> ep_max_size p = 64
     \<and> ep_count p = length as \<and> ep_databases p = map Ref as @ replicate (64 - length as) Null \<and> length as \<le> 64)
     \<and> distinct as \<and> (\<forall>a \<in> set as. \<exists>h. ds_handles s a = Some h) \<and> (\<forall>a. ds_handles s a \<noteq> None \<longrightarrow> a < ds_next s)"

lemma registry_lib [simp]: "registry (s\<lparr>ds_lib := l\<rparr>) as = registry s as"
  by (simp add: registry_def)

lemma registry_init:
  assumes "db_engine_init B s home = Inr s'" "ds_handles s = Map.empty"
  shows "registry s' []"
  using assms
  by (auto simp: db_engine_init_def db_engine_private_new_def engine_set_home_def db_engine_add_ref_def db_engine_resize_def
      res_simps registry_def Let_def split: prod.splits if_splits)

lemma private_new:
  assumes "db_private_new B s a = Inr (True, s1)"
  shows "\<exists>h. ds_handles s1 = (ds_handles s)(a \<mapsto> h)" "ds_engine s1 = ds_engine s" "ds_next s1 = ds_next s"
proof -
  obtain rc h l where "lib_db_create B (ds_lib s) = (rc, h, l)" by (cases "lib_db_create B (ds_lib s)") auto
  with assms have "\<exists>h. s1 = (put_handle s a h)\<lparr>ds_lib := l\<rparr>"
    by (cases h) (auto simp: db_private_new_def res_simps split: if_splits)
  then show "\<exists>h. ds_handles s1 = (ds_handles s)(a \<mapsto> h)" "ds_engine s1 = ds_engine s" "ds_next s1 = ds_next s"
    by (auto simp: put_handle_def)
qed

lemma open_handle:
  assumes "engine_open_db B s name ty flags = Inr (a, s')"
  shows "\<exists>s2. a = ds_next s \<and> engine_list_add s2 a = Inr (0, s') \<and> ds_engine s2 = ds_engine s
    \<and> (\<exists>h. ds_handles s2 = (ds_handles s)(a \<mapsto> h)) \<and> ds_next s2 = ds_next s + 1"
proof -
  obtain s1 s2 rc2 where 1: "db_handle_init B s = Inr (a, s1)" "db_open B s1 a None name ty flags = Inr (0, s2)"
      "engine_list_add s2 a = Inr (0, s')"
    using assms by (auto simp: engine_open_db_def res_simps split: if_splits)
  have new: "db_private_new B (s\<lparr>ds_next := ds_next s + 1\<rparr>) (ds_next s) = Inr (True, s1)" "a = ds_next s"
    using 1(1) by (auto simp: db_handle_init_def res_simps split: if_splits)
  have "a = ds_next s" "\<exists>h. ds_handles s1 = (ds_handles s)(a \<mapsto> h)" "ds_engine s1 = ds_engine s" "ds_next s1 = ds_next s + 1"
    using private_new [OF new(1)] new(2) by simp_all
  moreover have "\<exists>h. ds_handles s2 = (ds_handles s1)(a \<mapsto> h)" "ds_engine s2 = ds_engine s1" "ds_next s2 = ds_next s1"
    using 1(2) by (auto simp: db_open_def put_handle_def handle_at_def res_simps Let_def case_prod_beta' split: option.splits if_splits)
  ultimately show ?thesis using 1(3) by (intro exI [of _ s2]) auto
qed

lemma resize_same: "ep_max_size p = 64 \<Longrightarrow> 0 \<le> n \<Longrightarrow> n < 64 \<Longrightarrow> db_engine_resize p (n + 1) = p"
proof -
  assume p: "ep_max_size p = 64" and n: "0 \<le> n" "n < 64"
  have "(n + 64) div 64 * 64 = 64" using n by simp
  then show ?thesis using p n by (simp add: db_engine_resize_def Let_def)
qed

lemma registry_open:
  assumes "registry s as" "length as < 64" "engine_open_db B s name ty flags = Inr (a, s')"
  shows "registry s' (as @ [a])" "a \<notin> set as"
proof -
  obtain s2 h where s2: "a = ds_next s" "engine_list_add s2 a = Inr (0, s')" "ds_engine s2 = ds_engine s"
      "ds_handles s2 = (ds_handles s)(a \<mapsto> h)" "ds_next s2 = ds_next s + 1"
    using open_handle [OF assms(3)] by blast
  obtain p where p: "ds_engine s = Some p" "ep_env p" "ep_refs_count p = 1" "ep_max_size p = 64" "ep_count p = length as"
      "ep_databases p = map Ref as @ replicate (64 - length as) Null"
    and r: "distinct as" "\<forall>a \<in> set as. \<exists>h. ds_handles s a = Some h" "\<forall>a. ds_handles s a \<noteq> None \<longrightarrow> a < ds_next s"
    using assms(1) by (auto simp: registry_def)
  show new: "a \<notin> set as" using r(2,3) s2(1) by fastforce
  have same: "db_engine_resize p (int (length as) + 1) = p" by (rule resize_same [OF p(4)]) (use assms(2) in simp_all)
  have split: "replicate (64 - length as) Null = Null # replicate (64 - Suc (length as)) Null"
    using assms(2) by (metis Suc_diff_Suc replicate_Suc)
  have "s' = s2\<lparr>ds_engine := Some (p\<lparr>ep_databases := (ep_databases p)[length as := Ref a], ep_count := length as + 1\<rparr>)\<rparr>"
    using s2(2,3) p new assms(2) by (auto simp: engine_list_add_def list_find_refs same Let_def)
  moreover have "(ep_databases p)[length as := Ref a] = map Ref (as @ [a]) @ replicate (64 - Suc (length as)) Null"
    by (simp add: p(6) split list_update_append)
  ultimately show "registry s' (as @ [a])"
    using s2 p r new assms(2) by (auto simp: registry_def less_Suc_eq)
qed

lemma registry_close:
  assumes "registry s as" "engine_close_db s (Some a) = Inr (rc, s')"
  shows "\<exists>as'. registry s' as' \<and> mset as' = mset (remove1 a as)"
proof -
  obtain p where p: "ds_engine s = Some p" "ep_env p" "ep_refs_count p = 1" "ep_max_size p = 64" "ep_count p = length as"
      "ep_databases p = map Ref as @ replicate (64 - length as) Null" "length as \<le> 64"
    and r: "distinct as" "\<forall>a \<in> set as. \<exists>h. ds_handles s a = Some h" "\<forall>a. ds_handles s a \<noteq> None \<longrightarrow> a < ds_next s"
    using assms(1) by (auto simp: registry_def)
  obtain rc2 where rm: "engine_list_remove s a = Inr (rc2, s')"
    using assms(2) by (auto simp: engine_close_db_def res_simps Let_def split: if_splits)
  show ?thesis
  proof (cases "a \<in> set as")
    case False
    then have "s' = s" using rm p by (auto simp: engine_list_remove_def list_find_refs)
    then show ?thesis using assms(1) False by (auto simp: remove1_idem intro!: exI [of _ as])
  next
    case True
    define i where "i = length (takeWhile (\<lambda>x. x \<noteq> a) as)"
    obtain xs zs where "as = xs @ a # zs" "a \<notin> set xs" using split_list_first [OF True] by blast
    moreover from this have "takeWhile (\<lambda>x. x \<noteq> a) as = xs" by (auto simp: takeWhile_append)
    ultimately have i: "i < length as" "as ! i = a" by (simp_all add: i_def)
    obtain ys z where as: "as = ys @ [z]" using i(1) by (cases as rule: rev_cases) auto
    let ?as' = "butlast (as[i := z])"
    let ?n = "length as - 1"
    have s': "s' = s\<lparr>ds_engine := Some (p\<lparr>ep_databases := (ep_databases p)[i := ep_databases p ! ?n, ?n := Null], ep_count := ?n\<rparr>)\<rparr>"
      using rm p True by (auto simp: engine_list_remove_def list_find_refs Let_def i_def [symmetric])
    have last: "last (as[i := z]) = z" using i(1) by (cases "i = length ys") (auto simp: as list_update_append)
    have cells: "(ep_databases p)[i := ep_databases p ! ?n, ?n := Null] = map Ref ?as' @ replicate (64 - length ?as') Null"
    proof -
      have "(map Ref as)[i := Ref z] = map Ref ?as' @ [Ref z]"
        using last i(1) by (metis append_butlast_last_id length_0_conv length_list_update list.simps(8,9) map_append map_update not_less_zero)
      then have "(map Ref as @ r)[i := Ref z] = map Ref ?as' @ Ref z # r" for r
        using i(1) by (simp add: list_update_append)
      moreover have "length ?as' = ?n" by simp
      moreover have "ep_databases p ! ?n = Ref z" by (simp add: p(6) as nth_append)
      moreover have "Null # replicate (64 - length as) Null = replicate (64 - ?n) Null"
        using i(1) p(7) by (cases as) (simp_all add: Suc_diff_le replicate_Suc [symmetric] del: replicate_Suc)
      ultimately show ?thesis by (simp add: p(6) list_update_append)
    qed
    have ms: "mset ?as' = mset (remove1 a as)"
    proof -
      have "mset (as[i := z]) = add_mset z (mset as - {#a#})" using i by (simp add: mset_update)
      moreover have "as[i := z] = ?as' @ [z]" using last i(1) by (metis append_butlast_last_id length_0_conv length_list_update not_less_zero)
      ultimately show ?thesis by (metis add_mset_remove_trivial mset_append mset_remove1 mset_single_iff_right union_mset_add_mset_right add.right_neutral mset.simps(1))
    qed
    have "distinct ?as'" using mset_eq_imp_distinct_iff [OF ms] r(1) by simp
    moreover have "set ?as' \<subseteq> set as" using mset_eq_setD [OF ms] set_remove1_subset [of a as] by simp
    ultimately have "registry s' ?as'"
      using p r cells by (auto simp: registry_def s')
    then show ?thesis using ms by blast
  qed
qed

text \<open>A client that opens and closes databases, with at most 64 open at a time.\<close>

datatype db_call = Open_db "string option" int u32 | Close_db nat

fun run_db_calls :: "'l bdb_lib \<Rightarrow> 'l db_state \<Rightarrow> nat list \<Rightarrow> db_call list \<Rightarrow> (nat list \<times> 'l db_state) res" where
  "run_db_calls B s opened [] = Inr (opened, s)"
| "run_db_calls B s opened (Open_db name ty flags # calls) =
     (if 64 \<le> length opened then run_db_calls B s opened calls
      else andThen (engine_open_db B s name ty flags) (\<lambda>(a, s1). run_db_calls B s1 (opened @ [a]) calls))"
| "run_db_calls B s opened (Close_db a # calls) =
     andThen (engine_close_db s (Some a)) (\<lambda>(_, s1). run_db_calls B s1 (remove1 a opened) calls)"

lemma registry_calls:
  "registry s as \<Longrightarrow> mset as = mset opened \<Longrightarrow> run_db_calls B s opened calls = Inr (opened', s') \<Longrightarrow>
    \<exists>as'. registry s' as' \<and> mset as' = mset opened'"
proof (induction B s opened calls arbitrary: as rule: run_db_calls.induct)
  case (2 B s opened name ty flags calls)
  note len = mset_eq_length [OF 2(4)]
  show ?case
  proof (cases "64 \<le> length opened")
    case True
    then show ?thesis using 2(1) [OF True 2(3,4)] 2(5) by simp
  next
    case False
    then obtain a s1 where open1: "engine_open_db B s name ty flags = Inr (a, s1)" "run_db_calls B s1 (opened @ [a]) calls = Inr (opened', s')"
      using 2(5) by (auto simp: res_simps)
    have "length as < 64" using False len by simp
    from registry_open(1) [OF 2(3) this open1(1)] show ?thesis
      using 2(2) [OF False open1(1) refl _ _ open1(2)] 2(4) by simp
  qed
next
  case (3 B s opened a calls)
  then obtain rc s1 where close1: "engine_close_db s (Some a) = Inr (rc, s1)" "run_db_calls B s1 (remove1 a opened) calls = Inr (opened', s')"
    by (auto simp: res_simps)
  obtain as1 where "registry s1 as1" "mset as1 = mset (remove1 a as)" using registry_close [OF 3(2) close1(1)] by blast
  then show ?case using 3(1) [OF close1(1) refl _ _ close1(2)] 3(3) by simp
qed auto

text \<open>The 65th database.\<close>

lemma overflow_open:
  assumes "registry s as" "length as = 64" "engine_open_db B s name ty flags = Inr (a, s')"
  shows "\<exists>p. ds_engine s' = Some (p\<lparr>ep_count := 65\<rparr>) \<and> ep_env p \<and> ep_refs_count p = 1
    \<and> ds_engine s = Some (p\<lparr>ep_count := 64, ep_max_size := 64, ep_databases := map Ref as\<rparr>)
    \<and> ep_databases p = replicate 64 Null @ Ref a # replicate 63 Unset"
    "a \<notin> set as" "\<exists>h. ds_handles s' = (ds_handles s)(a \<mapsto> h)"
proof -
  obtain s2 h where s2: "a = ds_next s" "engine_list_add s2 a = Inr (0, s')" "ds_engine s2 = ds_engine s"
      "ds_handles s2 = (ds_handles s)(a \<mapsto> h)"
    using open_handle [OF assms(3)] by blast
  obtain p where p: "ds_engine s = Some p" "ep_env p" "ep_refs_count p = 1" "ep_max_size p = 64" "ep_count p = 64" "ep_databases p = map Ref as"
    and r: "\<forall>a \<in> set as. \<exists>h. ds_handles s a = Some h" "\<forall>a. ds_handles s a \<noteq> None \<longrightarrow> a < ds_next s"
    using assms(1,2) by (auto simp: registry_def)
  show new: "a \<notin> set as" using r s2(1) by fastforce
  let ?q = "p\<lparr>ep_databases := replicate 64 Null @ replicate 64 Unset, ep_max_size := 128\<rparr>"
  have grown: "db_engine_resize p 65 = ?q"
    using p(4,6) assms(2) by (simp add: db_engine_resize_def Let_def)
  have find: "list_find 0 64 (map Ref as) a = Inr None"
    using list_find_refs [of 64 as 0 "[]" a] assms(2) new by simp
  have cells: "(replicate 64 Null @ replicate 64 Unset)[64 := Ref a] = replicate 64 Null @ Ref a # replicate 63 Unset"
    using list_update_append [of "replicate 64 Null" "replicate 64 Unset" 64 "Ref a"] replicate_Suc [of 63 Unset] by simp
  have s': "s' = s2\<lparr>ds_engine := Some (?q\<lparr>ep_databases := (ep_databases ?q)[64 := Ref a], ep_count := 65\<rparr>)\<rparr>"
    using s2(2,3) p(1,5,6) grown find by (simp add: engine_list_add_def Let_def)
  show "\<exists>p. ds_engine s' = Some (p\<lparr>ep_count := 65\<rparr>) \<and> ep_env p \<and> ep_refs_count p = 1
    \<and> ds_engine s = Some (p\<lparr>ep_count := 64, ep_max_size := 64, ep_databases := map Ref as\<rparr>)
      \<and> ep_databases p = replicate 64 Null @ Ref a # replicate 63 Unset"
    using p by (intro exI [of _ "?q\<lparr>ep_databases := (ep_databases ?q)[64 := Ref a]\<rparr>"])
      (simp add: s' cells; cases p; simp)
  show "\<exists>h. ds_handles s' = (ds_handles s)(a \<mapsto> h)" using s2(4) by (auto simp: s')
qed

lemma free_nulls: "free_databases B s (k + j) (replicate k Null @ cs) = free_databases B s j cs"
  by (induction k) simp_all

text \<open>The library after the databases \<open>as\<close> have been closed in it, one after the other.\<close>

definition close_all :: "'l bdb_lib \<Rightarrow> (nat \<rightharpoonup> db_handle) \<Rightarrow> nat list \<Rightarrow> 'l \<Rightarrow> 'l" where
  "close_all B handles as l = foldl (\<lambda>l a. lib_db_close B l (dh_dbp (the (handles a)))) l as"

lemma close_all_simps [simp]:
  "close_all B handles [] l = l"
  "close_all B handles (a # as) l = close_all B handles as (lib_db_close B l (dh_dbp (the (handles a))))"
  by (simp_all add: close_all_def)

lemma close_all_other: "a \<notin> set as \<Longrightarrow> close_all B (handles(a := x)) as l = close_all B handles as l"
  by (induction as arbitrary: l) auto

lemma free_refs:
  "distinct as \<Longrightarrow> \<forall>a \<in> set as. \<exists>h. ds_handles s a = Some h \<Longrightarrow>
    free_databases B s (length as) (map Ref as @ cs)
      = Inr (s\<lparr>ds_handles := ds_handles s |` (- set as), ds_lib := close_all B (ds_handles s) as (ds_lib s)\<rparr>)"
proof (induction as arbitrary: s)
  case Nil
  then show ?case by (simp add: restrict_map_def fun_eq_iff)
next
  case (Cons a as)
  then obtain h where h: "ds_handles s a = Some h" by auto
  let ?s = "s\<lparr>ds_handles := (ds_handles s)(a := None), ds_lib := lib_db_close B (ds_lib s) (dh_dbp h)\<rparr>"
  have "distinct as" "\<forall>b \<in> set as. \<exists>h. ds_handles ?s b = Some h" using Cons.prems by auto
  from Cons.IH [OF this] have "free_databases B ?s (length as) (map Ref as @ cs)
      = Inr (?s\<lparr>ds_handles := ds_handles ?s |` (- set as), ds_lib := close_all B (ds_handles ?s) as (ds_lib ?s)\<rparr>)" .
  moreover have "(ds_handles s)(a := None) |` (- set as) = ds_handles s |` (- set (a # as))"
    by (auto simp: restrict_map_def fun_eq_iff)
  moreover have "a \<notin> set as" using Cons.prems(1) by simp
  ultimately show ?case by (simp add: db_handle_cleanup_def db_private_free_def handle_at_def h close_all_other)
qed

lemma find_null: "0 < k \<Longrightarrow> find_dbp s dbp k (Null # cs) = Inl Abort"
  by (cases k) simp_all

lemma registry_start:
  "db_engine_init B s home = Inr s0 \<Longrightarrow> ds_handles s = Map.empty \<Longrightarrow> run_db_calls B s0 [] calls = Inr (opened, s1) \<Longrightarrow>
    \<exists>as. registry s1 as \<and> mset as = mset opened"
  using registry_calls [OF registry_init refl] by metis

lemma find_registered:
  assumes "registry s as"
  shows "db_engine_find_db s dbp = Inr (find (\<lambda>a. dh_dbp (the (ds_handles s a)) = dbp) as)"
  using assms find_dbp_refs [of "length as" as s dbp] by (auto simp: registry_def db_engine_find_db_def)

lemma registry_find:
  assumes "registry s as"
  shows "\<exists>found. db_engine_find_db s dbp = Inr found
    \<and> (case found of None \<Rightarrow> \<forall>a \<in> set as. dh_dbp (the (ds_handles s a)) \<noteq> dbp
       | Some a \<Rightarrow> a \<in> set as \<and> dh_dbp (the (ds_handles s a)) = dbp)"
proof (cases "find (\<lambda>a. dh_dbp (the (ds_handles s a)) = dbp) as")
  case None
  then have "\<forall>a \<in> set as. dh_dbp (the (ds_handles s a)) \<noteq> dbp" by (simp add: find_None_iff)
  then show ?thesis using find_registered [OF assms, of dbp] None by simp
next
  case (Some a)
  then have "a \<in> set as" "dh_dbp (the (ds_handles s a)) = dbp" by (auto simp: find_Some_iff)
  then show ?thesis using find_registered [OF assms, of dbp] Some by simp
qed

lemma registry_cleanup:
  assumes "registry s1 as"
  shows "\<exists>s2. db_engine_cleanup B s1 = Inr s2 \<and> ds_engine s2 = None \<and> ds_handles s2 = ds_handles s1 |` (- set as)
    \<and> ds_lib s2 = lib_env_close B (close_all B (ds_handles s1) as (ds_lib s1))"
proof -
  obtain p where p: "ds_engine s1 = Some p" "ep_env p" "ep_refs_count p = 1" "ep_count p = length as"
      "ep_databases p = map Ref as @ replicate (64 - length as) Null" "distinct as" "\<forall>a \<in> set as. \<exists>h. ds_handles s1 a = Some h"
    using assms by (auto simp: registry_def)
  have "free_databases B s1 (length as) (ep_databases p)
      = Inr (s1\<lparr>ds_handles := ds_handles s1 |` (- set as), ds_lib := close_all B (ds_handles s1) as (ds_lib s1)\<rparr>)"
    using free_refs [OF p(6,7)] p(5) by metis
  then show ?thesis using p by (simp add: db_engine_cleanup_def db_engine_private_free_def)
qed

text \<open>With databases in memory every opening succeeds, the 65th included.\<close>

lemma list_add_ok:
  assumes "registry s as" "a \<notin> set as" "ds_engine s2 = ds_engine s"
  shows "\<exists>s'. engine_list_add s2 a = Inr (0, s')"
proof -
  obtain p where p: "ds_engine s = Some p" "ep_max_size p = 64" "ep_count p = length as"
      "ep_databases p = map Ref as @ replicate (64 - length as) Null" "length as \<le> 64"
    using assms(1) by (auto simp: registry_def)
  have "ep_count (db_engine_resize p (int (length as) + 1)) < length (ep_databases (db_engine_resize p (int (length as) + 1)))"
  proof (cases "length as = 64")
    case True
    then show ?thesis using p by (simp add: db_engine_resize_def Let_def)
  next
    case False
    then have "db_engine_resize p (int (length as) + 1) = p" using p(5) by (intro resize_same [OF p(2)]) simp_all
    then show ?thesis using p False by simp
  qed
  then show ?thesis using p assms(2,3) by (simp add: engine_list_add_def list_find_refs Let_def)
qed

lemma mem_open:
  assumes "registry s as"
  shows "\<exists>a s'. engine_open_db mem_lib s (Some n) 0 flags = Inr (a, s')"
proof -
  obtain p where p: "ds_engine s = Some p" using assms by (auto simp: registry_def)
  obtain s1 where s1: "db_handle_init mem_lib s = Inr (ds_next s, s1)" "ds_engine s1 = ds_engine s" "ds_handles s1 (ds_next s) \<noteq> None"
    using p by (simp add: db_handle_init_def db_private_new_def db_engine_get_env_def put_handle_def mem_lib_def)
  then obtain s2 where s2: "db_open mem_lib s1 (ds_next s) None (Some n) 0 flags = Inr (0, s2)" "ds_engine s2 = ds_engine s"
    by (auto simp: db_open_def put_handle_def handle_at_def db_check_error_def mem_lib_def Let_def)
  have "ds_next s \<notin> set as" using assms by (fastforce simp: registry_def)
  then obtain s' where "engine_list_add s2 (ds_next s) = Inr (0, s')" using list_add_ok [OF assms _ s2(2)] by blast
  then show ?thesis using s1(1) s2(1) p by (simp add: engine_open_db_def)
qed

lemma mem_opens:
  "registry s as \<Longrightarrow> length as = length opened \<Longrightarrow> length opened + n \<le> 64 \<Longrightarrow>
    \<exists>opened' s' as'. run_db_calls mem_lib s opened (replicate n (Open_db (Some name) 0 0)) = Inr (opened', s')
      \<and> length opened' = length opened + n \<and> registry s' as' \<and> length as' = length opened'"
proof (induction n arbitrary: s as opened)
  case (Suc n)
  obtain a s1 where open1: "engine_open_db mem_lib s (Some name) 0 0 = Inr (a, s1)" using mem_open [OF Suc.prems(1)] by blast
  have "registry s1 (as @ [a])" using registry_open(1) [OF Suc.prems(1) _ open1] Suc.prems by simp
  then show ?case using Suc.IH [of s1 "as @ [a]" "opened @ [a]"] Suc.prems by (simp add: open1)
qed (auto intro: exI)

lemma mem_init: "\<exists>s. db_engine_init mem_lib mem_state None = Inr s \<and> registry s [] \<and> ds_next s = 0"
proof -
  obtain s where s: "db_engine_init mem_lib mem_state None = Inr s" "ds_next s = 0"
    by (auto simp: db_engine_init_def db_engine_private_new_def db_engine_resize_def engine_set_home_def db_engine_add_ref_def
      mem_lib_def mem_state_def Let_def)
  then show ?thesis using registry_init [OF s(1)] by (auto simp: mem_state_def)
qed

definition mem_calls :: "db_call list" where
  "mem_calls = [Open_db (Some ''a'') 0 0, Open_db (Some ''b'') 0 1, Open_db (Some ''c'') 0 0, Close_db 0]"

lemma mem_engine_init: "db_engine_init mem_lib mem_state None = Inr mem_engine"
  using mem_init by (auto simp: mem_engine_def)

lemma mem_run: "\<exists>s1. run_db_calls mem_lib mem_engine [] mem_calls = Inr ([1, 2], s1)
    \<and> fst (ms_dbs (ds_lib s1) (dh_dbp (the (ds_handles s1 1))))"
proof -
  have "map_sum id (\<lambda>(opened, s1). (opened, fst (ms_dbs (ds_lib s1) (dh_dbp (the (ds_handles s1 1))))))
      (run_db_calls mem_lib mem_engine [] mem_calls) = Inr ([1, 2], True)" by code_simp
  then show ?thesis by (cases "run_db_calls mem_lib mem_engine [] mem_calls") (auto split: prod.splits)
qed

lemma mem_closed: "x \<in> set xs \<Longrightarrow> ms_dbs (foldl (lib_db_close mem_lib) l xs) x = (False, [])"
proof (induction xs rule: rev_induct)
  case (snoc y xs)
  then show ?case by (cases "x = y") (auto simp: mem_lib_def)
qed simp

text \<open>C27. A client that has initialised the engine and opens and closes databases in any order, with at most
  64 open at a time, always finds the array of the engine to be exactly the databases it has open, each
  once: the array has them in its first places in some order, and a look-up by the handle of the library
  gives an open database with that handle whenever there is one. Giving back the only reference then frees
  the engine and closes, through the library, exactly the databases that are open, each once in the order
  of the array, and then the environment: nothing else is done to the library. A database the client has
  closed stays as it is, since closing only takes it off the array.
\<close>
theorem engine_lists_open_databases:
  assumes "db_engine_init B s home = Inr s0" "ds_handles s = Map.empty" "run_db_calls B s0 [] calls = Inr (opened, s1)"
  shows "(\<exists>p as s2. ds_engine s1 = Some p \<and> ep_count p = length opened \<and> distinct opened
        \<and> mset as = mset opened \<and> take (ep_count p) (ep_databases p) = map Ref as
        \<and> db_engine_cleanup B s1 = Inr s2 \<and> ds_engine s2 = None \<and> ds_handles s2 = ds_handles s1 |` (- set opened)
        \<and> ds_lib s2 = lib_env_close B (foldl (lib_db_close B) (ds_lib s1) (map (\<lambda>a. dh_dbp (the (ds_handles s1 a))) as)))
    \<and> (\<exists>found. db_engine_find_db s1 dbp = Inr found
        \<and> (case found of None \<Rightarrow> \<forall>a \<in> set opened. dh_dbp (the (ds_handles s1 a)) \<noteq> dbp
           | Some a \<Rightarrow> a \<in> set opened \<and> dh_dbp (the (ds_handles s1 a)) = dbp))"
proof -
  obtain as where as: "registry s1 as" "mset as = mset opened" using registry_start [OF assms] by blast
  note same = mset_eq_length [OF as(2)] mset_eq_setD [OF as(2)] mset_eq_imp_distinct_iff [OF as(2)]
  obtain p where p: "ds_engine s1 = Some p" "ep_count p = length opened" "distinct opened"
      "take (ep_count p) (ep_databases p) = map Ref as"
    using as same by (auto simp: registry_def)
  obtain s2 where s2: "db_engine_cleanup B s1 = Inr s2" "ds_engine s2 = None" "ds_handles s2 = ds_handles s1 |` (- set opened)"
      "ds_lib s2 = lib_env_close B (close_all B (ds_handles s1) as (ds_lib s1))"
    using registry_cleanup [OF as(1), of B, unfolded same(2)] by blast
  have "ds_lib s2 = lib_env_close B (foldl (lib_db_close B) (ds_lib s1) (map (\<lambda>a. dh_dbp (the (ds_handles s1 a))) as))"
    using s2(4) by (simp add: close_all_def foldl_map)
  then show ?thesis using p s2(1-3) as(2) registry_find [OF as(1), of dbp, unfolded same(2)] by blast
qed

theorem engine_lists_open_databases_witness:
  "\<exists>s1 s2. run_db_calls mem_lib mem_engine [] mem_calls = Inr ([1, 2], s1)
    \<and> (\<exists>p. ds_engine s1 = Some p \<and> mset (take (ep_count p) (ep_databases p)) = {#Ref 1, Ref 2#})
    \<and> (\<exists>found. db_engine_find_db s1 (dh_dbp (the (ds_handles s1 2))) = Inr (Some found) \<and> found \<in> {1, 2})
    \<and> db_engine_cleanup mem_lib s1 = Inr s2 \<and> ds_handles s2 1 = None \<and> ds_handles s2 2 = None \<and> ds_handles s2 0 = ds_handles s1 0
    \<and> fst (ms_dbs (ds_lib s1) (dh_dbp (the (ds_handles s1 1)))) \<and> \<not> fst (ms_dbs (ds_lib s2) (dh_dbp (the (ds_handles s1 1))))"
proof -
  obtain s1 where run: "run_db_calls mem_lib mem_engine [] mem_calls = Inr ([1, 2], s1)"
      "fst (ms_dbs (ds_lib s1) (dh_dbp (the (ds_handles s1 1))))" using mem_run by blast
  note facts = engine_lists_open_databases [OF mem_engine_init _ run(1)]
  obtain p as s2 where p: "ds_engine s1 = Some p" "mset as = {#1, 2#}" "take (ep_count p) (ep_databases p) = map Ref as"
      "db_engine_cleanup mem_lib s1 = Inr s2" "ds_handles s2 = ds_handles s1 |` (- set [1, 2])"
      "ds_lib s2 = lib_env_close mem_lib (foldl (lib_db_close mem_lib) (ds_lib s1) (map (\<lambda>a. dh_dbp (the (ds_handles s1 a))) as))"
    using facts [of 0] by (auto simp: mem_state_def)
  have "\<exists>p. ds_engine s1 = Some p \<and> mset (take (ep_count p) (ep_databases p)) = {#Ref 1, Ref 2#}"
    using p(1-3) by simp
  moreover have "\<exists>found. db_engine_find_db s1 (dh_dbp (the (ds_handles s1 2))) = Inr (Some found) \<and> found \<in> {1, 2}"
    using facts [of "dh_dbp (the (ds_handles s1 2))"] by (auto simp: mem_state_def split: option.splits)
  moreover have "1 \<in> set as" using p(2) by (metis set_mset_mset union_single_eq_member)
  then have "\<not> fst (ms_dbs (ds_lib s2) (dh_dbp (the (ds_handles s1 1))))" using p(6) mem_closed by (auto simp: mem_lib_def)
  ultimately show ?thesis using run p(4,5) by (intro exI [of _ s1] exI [of _ s2]) simp
qed

text \<open>C30. The 65th open database breaks the engine. Opening it succeeds, but the array grows by clearing its
  first 64 places, so that from then on every look-up by a handle of the library stops at an assertion,
  and giving back the only reference closes the new database alone, and the environment: the 64 databases
  that were open before stay open. That the library lets the 65th database be opened is assumed.
\<close>
theorem database_65_wipes_the_list:
  assumes "db_engine_init B s home = Inr s0" "ds_handles s = Map.empty" "run_db_calls B s0 [] calls = Inr (opened, s1)"
    and "length opened = 64" "engine_open_db B s1 name ty flags = Inr (a, s2)"
  shows "db_engine_find_db s2 dbp = Inl Abort
    \<and> (\<exists>s3. db_engine_cleanup B s2 = Inr s3 \<and> ds_engine s3 = None \<and> ds_handles s3 = (ds_handles s2)(a := None)
        \<and> ds_lib s3 = lib_env_close B (lib_db_close B (ds_lib s2) (dh_dbp (the (ds_handles s2 a))))
        \<and> (\<forall>b \<in> set opened. ds_handles s3 b \<noteq> None))"
proof -
  obtain as where as: "registry s1 as" "mset as = mset opened" using registry_start [OF assms(1-3)] by blast
  have len: "length as = 64" using mset_eq_length [OF as(2)] assms(4) by simp
  obtain p h where p: "ds_engine s2 = Some (p\<lparr>ep_count := 65\<rparr>)" "ep_env p" "ep_refs_count p = 1"
      "ep_databases p = replicate 64 Null @ Ref a # replicate 63 Unset" and h: "ds_handles s2 = (ds_handles s1)(a \<mapsto> h)"
    and new: "a \<notin> set as"
    using overflow_open [OF as(1) len assms(5)] by blast
  have "replicate 64 Null = Null # replicate 63 Null" using replicate_Suc [of 63 Null] by simp
  then have "find_dbp s2 dbp 65 (ep_databases p) = Inl Abort" by (simp add: p(4) find_null)
  then have find: "db_engine_find_db s2 dbp = Inl Abort" using p(1) by (simp add: db_engine_find_db_def)
  have "free_databases B s2 65 (ep_databases p) = Inr (s2\<lparr>ds_handles := (ds_handles s2)(a := None),
      ds_lib := lib_db_close B (ds_lib s2) (dh_dbp h)\<rparr>)"
    using free_nulls [of B s2 64 1 "Ref a # replicate 63 Unset"] by (simp add: p(4) db_handle_cleanup_def db_private_free_def handle_at_def h)
  moreover have "\<forall>b \<in> set opened. ds_handles s1 b \<noteq> None \<and> b \<noteq> a"
    using as mset_eq_setD [OF as(2)] new by (auto simp: registry_def)
  ultimately have "\<exists>s3. db_engine_cleanup B s2 = Inr s3 \<and> ds_engine s3 = None \<and> ds_handles s3 = (ds_handles s2)(a := None)
      \<and> ds_lib s3 = lib_env_close B (lib_db_close B (ds_lib s2) (dh_dbp (the (ds_handles s2 a))))
      \<and> (\<forall>b \<in> set opened. ds_handles s3 b \<noteq> None)"
    using p by (auto simp: db_engine_cleanup_def db_engine_private_free_def h)
  with find show ?thesis by blast
qed

theorem database_65_wipes_the_list_witness:
  "\<exists>opened s1 a s2. run_db_calls mem_lib mem_engine [] (replicate 64 (Open_db (Some ''a'') 0 0)) = Inr (opened, s1)
    \<and> length opened = 64 \<and> engine_open_db mem_lib s1 (Some ''b'') 0 0 = Inr (a, s2) \<and> db_engine_find_db s2 7 = Inl Abort
    \<and> (\<exists>s3. db_engine_cleanup mem_lib s2 = Inr s3 \<and> (\<forall>b \<in> set opened. ds_handles s3 b \<noteq> None))"
proof -
  have "registry mem_engine []" using mem_init mem_engine_init by force
  from mem_opens [OF this, of "[]" 64 "''a''"] obtain opened s1 as where
      run: "run_db_calls mem_lib mem_engine [] (replicate 64 (Open_db (Some ''a'') 0 0)) = Inr (opened, s1)"
      and opened: "length opened = 64" "registry s1 as" by auto
  obtain a s2 where last: "engine_open_db mem_lib s1 (Some ''b'') 0 0 = Inr (a, s2)" using mem_open [OF opened(2)] by blast
  note facts = database_65_wipes_the_list [OF mem_engine_init _ run opened(1) last]
  have "db_engine_find_db s2 7 = Inl Abort" using facts [where dbp = 7] by (simp add: mem_state_def)
  moreover have "\<exists>s3. db_engine_cleanup mem_lib s2 = Inr s3 \<and> (\<forall>b \<in> set opened. ds_handles s3 b \<noteq> None)"
    using facts [where dbp = 7] by (auto simp: mem_state_def)
  ultimately show ?thesis using run opened(1) last by blast
qed

end
