(* ===== verification/DbAccess.thy ===== *)
theory DbAccess
  imports DbLibrary
begin

text \<open>
  Searches and cursors of the database engine (\<open>src/db_engine.c\<close>), over a library that
  keeps what the locale \<open>bdb_entries\<close> says.
\<close>

section \<open>Searches\<close>

text \<open>A record of the caller with data in memory of its own.\<close>

definition fresh_record :: "bytes \<Rightarrow> db_record_data" where
  "fresh_record d = \<lparr>rd_data = Some d, rd_size = int (length d), rd_flags = 1\<rparr>"

lemma record_set_fresh:
  assumes "d \<noteq> []" "dbt_data v = Some d" "dbt_size v = length d"
  shows "db_record_data_set (Some record_data_zero) v = Inr (fresh_record d)" "db_record_data_set None v = Inr (fresh_record d)"
  using assms by (simp_all add: db_record_data_set_def record_data_zero_def fresh_record_def mem_read_def Let_def)

lemma grow_room:
  assumes "rs = done_rs @ replicate k record_data_zero" "rs \<noteq> []"
  shows "\<exists>j. grow_records rs (length done_rs) = done_rs @ record_data_zero # replicate j record_data_zero"
proof (cases k)
  case 0
  then have "grow_records rs (length done_rs) = done_rs @ replicate (length done_rs) record_data_zero" using assms by (simp add: grow_records_def)
  moreover obtain j where "length done_rs = Suc j" using 0 assms by (cases done_rs) auto
  ultimately show ?thesis by auto
next
  case (Suc j)
  then show ?thesis using assms by (auto simp: grow_records_def intro: exI [of _ j])
qed

context bdb_entries
begin

lemma dups_found:
  "place l c = Some (dbp, Some i) \<Longrightarrow> entries l dbp = pre @ map (Pair k) ds @ suf \<Longrightarrow> (\<forall>e \<in> set suf. fst e \<noteq> k) \<Longrightarrow>
    i = length pre + length done_ds \<Longrightarrow> ds = done_ds @ d # rest \<Longrightarrow> [] \<notin> set ds \<Longrightarrow>
    rs = map fresh_record done_ds @ replicate z record_data_zero \<Longrightarrow> rs \<noteq> [] \<Longrightarrow>
    dbt_data v = Some d \<Longrightarrow> dbt_size v = length d \<Longrightarrow> dbt_flags v = Dbt_malloc \<Longrightarrow> dbt_flags key \<noteq> Dbt_usermem \<Longrightarrow> length rest < fuel \<Longrightarrow>
    \<exists>rs' l'. find_loop fuel B l c 0 key v rs (length done_ds) = Inr (rs', length ds, l') \<and> take (length ds) rs' = map fresh_record ds
      \<and> entries l' = entries l"
proof (induction fuel arbitrary: l i done_ds d rest rs z v key)
  case (Suc fuel)
  let ?es = "pre @ map (Pair k) ds @ suf"
  obtain j where grow: "grow_records rs (length done_ds) = map fresh_record done_ds @ record_data_zero # replicate j record_data_zero"
    using grow_room [OF Suc.prems(7,8)] by auto
  have at: "?es ! i = (k, d)" "i < length ?es"
    using Suc.prems(4,5) by (simp_all add: nth_append)
  have set: "db_record_data_set (Some (grow_records rs (length done_ds) ! length done_ds)) v = Inr (fresh_record d)"
    using record_set_fresh(1) [of d v] Suc.prems(5,6,9,10) grow by (auto simp: nth_append)
  let ?rs = "(grow_records rs (length done_ds))[length done_ds := fresh_record d]"
  have rs: "?rs = map fresh_record (done_ds @ [d]) @ replicate j record_data_zero"
    by (simp add: grow list_update_append)
  have ne: "?rs \<noteq> []" by (simp add: grow)
  let ?v = "v\<lparr>dbt_data := None\<rparr>"
  show ?case
  proof (cases rest)
    case Nil
    have "cursor_target (entries l dbp) (Some i) (search_key key) Db_next_dup = None"
    proof (cases "Suc i < length ?es")
      case True
      then have "?es ! Suc i \<in> set suf" using Suc.prems(4,5) Nil by (auto simp: nth_append)
      then show ?thesis using Suc.prems(2,3) at by (auto simp: cursor_target_def Let_def)
    qed (use Suc.prems(2) in \<open>simp add: cursor_target_def Let_def\<close>)
    from stuck [OF Suc.prems(1) this, of ?v] obtain l' where
        "lib_cursor_get B l c key ?v Db_next_dup = (notfound, key, ?v, l')" "entries l' = entries l" by blast
    moreover have "find_loop fuel B l' c notfound key ?v ?rs (Suc (length done_ds)) = Inr (?rs, Suc (length done_ds), l')"
      using codes(1) by (cases fuel) simp_all
    ultimately show ?thesis
      using set Nil Suc.prems(5) by (intro exI [of _ ?rs] exI [of _ l']) (simp add: Let_def rs)
  next
    case (Cons d' rest')
    have next': "?es ! Suc i = (k, d')" "Suc i < length ?es" using Suc.prems(4,5) Cons by (simp_all add: nth_append)
    then have target: "cursor_target (entries l dbp) (Some i) (search_key key) Db_next_dup = Some (Suc i)"
      using Suc.prems(2) at by (simp add: cursor_target_def Let_def)
    have fits: "dbt_fits ?v x" "dbt_fits key x" for x using Suc.prems(11,12) by (simp_all add: dbt_fits_def)
    from moved [OF Suc.prems(1) target fits(1)] fits(2) obtain l' where l':
        "lib_cursor_get B l c key ?v Db_next_dup = (0, dbt_return key k, dbt_return ?v d', l')" "entries l' = entries l"
        "place l' c = Some (dbp, Some (Suc i))"
      using next' Suc.prems(2) by auto
    have "\<exists>rs' l2. find_loop fuel B l' c 0 (dbt_return key k) (dbt_return ?v d') ?rs (length (done_ds @ [d])) = Inr (rs', length ds, l2)
        \<and> take (length ds) rs' = map fresh_record ds \<and> entries l2 = entries l'"
      by (rule Suc.IH [OF l'(3) _ Suc.prems(3) _ _ Suc.prems(6) rs ne])
        (use l'(2) Suc.prems Cons in \<open>simp_all add: rs dbt_return_def\<close>)
    then show ?thesis using l'(1,2) set by (simp add: Let_def)
  qed
qed simp

lemma key_block:
  obtains pre suf where "entries l dbp = pre @ filter (\<lambda>e. fst e = k) (entries l dbp) @ suf"
    "\<forall>e \<in> set pre. fst e \<noteq> k" "\<forall>e \<in> set suf. fst e \<noteq> k"
proof -
  let ?f = "filter (\<lambda>e. fst e = k)"
  obtain pre suf where es: "entries l dbp = pre @ ?f (entries l dbp) @ suf" using grouped by blast
  have "length (?f (entries l dbp)) = length (?f pre) + (length (?f (entries l dbp)) + length (?f suf))"
    using arg_cong [OF es, of "\<lambda>xs. length (?f xs)"] by simp
  then have "?f pre = []" "?f suf = []" by simp_all
  then show thesis by (intro that [OF es]) (simp_all add: filter_empty_conv)
qed

lemma all_found:
  assumes "ds_handles s a = Some h" "dh_record_flags h AND db_record_flags_multiple \<noteq> 0" "ds_engine s = Some p" "ep_env p"
    and "map snd (filter (\<lambda>e. fst e = key) (entries (ds_lib s) (dh_dbp h))) = ds" "[] \<notin> set ds" "length ds < fuel"
  shows "\<exists>s'. db_find fuel B s a t key (Some given) = Inr (int (length ds), map fresh_record ds, s')
    \<and> entries (ds_lib s') = entries (ds_lib s)"
proof -
  let ?es = "entries (ds_lib s) (dh_dbp h)"
  obtain pre suf where es: "?es = pre @ map (Pair key) ds @ suf" "\<forall>e \<in> set pre. fst e \<noteq> key" "\<forall>e \<in> set suf. fst e \<noteq> key"
  proof (rule key_block [of "ds_lib s" "dh_dbp h" key])
    fix pre suf assume *: "?es = pre @ filter (\<lambda>e. fst e = key) ?es @ suf" "\<forall>e \<in> set pre. fst e \<noteq> key" "\<forall>e \<in> set suf. fst e \<noteq> key"
    have "map (Pair key) (map snd (filter (\<lambda>e. fst e = key) es)) = filter (\<lambda>e. fst e = key) es" for es :: "(bytes \<times> bytes) list"
      by (induction es) auto
    then have "filter (\<lambda>e. fst e = key) ?es = map (Pair key) ds" unfolding assms(5) [symmetric] by simp
    then show thesis using * that by metis
  qed
  obtain c l where c: "lib_cursor B (ds_lib s) (dh_dbp h) (db_txn_get_handle t) = (0, Some c, l)" "entries l = entries (ds_lib s)"
      "place l c = Some (dh_dbp h, None)"
    using new_cursor by blast
  have sk: "search_key (dbt_of key) = key" by (simp add: search_key_def dbt_of_def)
  have all: "takeWhile (\<lambda>e. fst e \<noteq> key) suf = suf" using es(3) by simp
  have tw: "length (takeWhile (\<lambda>e. fst e \<noteq> key) ?es) = length pre + (if ds = [] then length suf else 0)"
    using es by (cases ds) (simp_all add: takeWhile_append all)
  let ?v = "dbt_empty Dbt_malloc"
  let ?rs = "replicate max_records record_data_zero"
  have "\<exists>rc k v l1. lib_cursor_get B l c (dbt_of key) ?v Db_set = (rc, k, v, l1)
      \<and> (\<exists>rs l2. find_loop fuel B l1 c rc k v ?rs 0 = Inr (rs, length ds, l2) \<and> take (length ds) rs = map fresh_record ds
          \<and> entries l2 = entries l)"
  proof (cases ds)
    case Nil
    have "cursor_target (entries l (dh_dbp h)) None (search_key (dbt_of key)) Db_set = None"
      using tw Nil c(2) es(1) by (simp add: cursor_target_def sk Let_def)
    from stuck [OF c(3) this, of ?v] obtain l1 where "lib_cursor_get B l c (dbt_of key) ?v Db_set = (notfound, dbt_of key, ?v, l1)"
        "entries l1 = entries l" by blast
    moreover have "find_loop fuel B l1 c notfound (dbt_of key) ?v ?rs 0 = Inr (?rs, 0, l1)" using codes(1) by (cases fuel) simp_all
    ultimately show ?thesis using Nil by auto
  next
    case (Cons d rest)
    have target: "cursor_target (entries l (dh_dbp h)) None (search_key (dbt_of key)) Db_set = Some (length pre)"
      using tw Cons c(2) es(1) by (simp add: cursor_target_def sk Let_def)
    have at: "entries l (dh_dbp h) ! length pre = (key, d)" using c(2) es(1) Cons by (simp add: nth_append)
    have "dbt_fits ?v x" for x by (simp add: dbt_fits_def dbt_empty_def)
    from moved [OF c(3) target this] obtain l1 where l1: "lib_cursor_get B l c (dbt_of key) ?v Db_set = (0, dbt_of key, dbt_return ?v d, l1)"
        "entries l1 = entries l" "place l1 c = Some (dh_dbp h, Some (length pre))"
      using at by auto
    have "\<exists>rs' l'. find_loop fuel B l1 c 0 (dbt_of key) (dbt_return ?v d) ?rs (length ([] :: bytes list)) = Inr (rs', length ds, l')
        \<and> take (length ds) rs' = map fresh_record ds \<and> entries l' = entries l1"
      by (rule dups_found [OF l1(3), where k = key and suf = suf and pre = pre and d = d and rest = rest and z = max_records])
        (use es c(2) l1(2) Cons assms(6,7) in \<open>simp_all add: dbt_return_def dbt_empty_def dbt_of_def max_records_def\<close>)
    then show ?thesis using l1 by auto
  qed
  then obtain rc k v l1 rs l2 where call: "lib_cursor_get B l c (dbt_of key) ?v Db_set = (rc, k, v, l1)"
      "find_loop fuel B l1 c rc k v ?rs 0 = Inr (rs, length ds, l2)" "take (length ds) rs = map fresh_record ds" "entries l2 = entries l"
    by blast
  have "db_check_error s rc = Inr ()" using assms(3,4) by (simp add: db_check_error_def db_engine_get_env_def)
  then show ?thesis
    using assms(1,2) c call close_cursor by (simp add: db_find_def handle_at_def Let_def)
qed

lemma one_found:
  assumes "ds_handles s a = Some h" "dh_record_flags h AND db_record_flags_multiple = 0" "ds_engine s = Some p" "ep_env p"
    and "map_of (entries (ds_lib s) (dh_dbp h)) key = d" "d \<noteq> Some []"
  shows "\<exists>s'. db_find fuel B s a t key (Some None) = Inr (1, case d of None \<Rightarrow> [] | Some x \<Rightarrow> [fresh_record x], s')
    \<and> entries (ds_lib s') = entries (ds_lib s)"
proof -
  have chk: "db_check_error s rc = Inr ()" for rc using assms(3,4) by (simp add: db_check_error_def db_engine_get_env_def)
  have m: "dbt_flags (dbt_empty Dbt_malloc) = Dbt_malloc" by (simp add: dbt_empty_def)
  have sk: "search_key (dbt_of key) = key" by (simp add: search_key_def dbt_of_def)
  have "\<exists>l. lib_get B (ds_lib s) (dh_dbp h) (db_txn_get_handle t) (dbt_of key) (dbt_empty Dbt_malloc)
      = (case d of None \<Rightarrow> (notfound, dbt_empty Dbt_malloc, l) | Some x \<Rightarrow> (0, dbt_return (dbt_empty Dbt_malloc) x, l))
      \<and> entries l = entries (ds_lib s)"
    using get [OF m, of "ds_lib s" "dh_dbp h" "db_txn_get_handle t" "dbt_of key"] assms(5) by (cases d) (auto simp: sk)
  then obtain l where "lib_get B (ds_lib s) (dh_dbp h) (db_txn_get_handle t) (dbt_of key) (dbt_empty Dbt_malloc)
      = (case d of None \<Rightarrow> (notfound, dbt_empty Dbt_malloc, l) | Some x \<Rightarrow> (0, dbt_return (dbt_empty Dbt_malloc) x, l))"
    "entries l = entries (ds_lib s)" by blast
  moreover have "x \<noteq> [] \<Longrightarrow> db_record_data_set None (dbt_return (dbt_empty Dbt_malloc) x) = Inr (fresh_record x)" for x
    by (rule record_set_fresh(2)) (simp_all add: dbt_return_def dbt_empty_def)
  ultimately show ?thesis using assms(1,2,6) chk codes(1) by (cases d) (simp_all add: db_find_def handle_at_def Let_def)
qed

end

text \<open>C28. In a database with several records of a key a search gives all the records of the key, in the order
  of the library, each in new memory with its size, and their number; however many there are, since the
  array of the results doubles when it is full. Without a record of the key the number is 0. No record of
  the key is empty: the copy of the data asserts that its size is positive, so an empty record stops the program.
\<close>
theorem find_gives_all_records:
  assumes "bdb_entries B entries place notfound too_small"
    and "ds_handles s a = Some h" "dh_record_flags h AND db_record_flags_multiple \<noteq> 0" "ds_engine s = Some p" "ep_env p"
    and "map snd (filter (\<lambda>e. fst e = key) (entries (ds_lib s) (dh_dbp h))) = ds" "[] \<notin> set ds" "length ds < fuel"
  shows "\<exists>s'. db_find fuel B s a t key (Some given) = Inr (int (length ds), map fresh_record ds, s')
    \<and> entries (ds_lib s') = entries (ds_lib s)"
  using assms by (rule bdb_entries.all_found)

text \<open>
  In a database with one record of a key a search answers 1 whether or not the key is there: the
  caller can only tell from the record, which is left unset when nothing is found.
\<close>
theorem find_answers_one_for_a_missing_key:
  assumes "bdb_entries B entries place notfound too_small"
    and "ds_handles s a = Some h" "dh_record_flags h AND db_record_flags_multiple = 0" "ds_engine s = Some p" "ep_env p"
    and "map_of (entries (ds_lib s) (dh_dbp h)) key = d" "d \<noteq> Some []"
  shows "\<exists>s'. db_find fuel B s a t key (Some None) = Inr (1, case d of None \<Rightarrow> [] | Some x \<Rightarrow> [fresh_record x], s')
    \<and> entries (ds_lib s') = entries (ds_lib s)"
  using assms by (rule bdb_entries.one_found)


section \<open>Cursors\<close>

text \<open>A record of a cursor is blank or has memory of its own, as long as the first data it took.\<close>

definition record_ok :: "db_record_data \<Rightarrow> bool" where
  "record_ok r \<longleftrightarrow> r = record_data_zero \<or> (\<exists>d. d \<noteq> [] \<and> r = fresh_record d)"

definition record_fits :: "db_record_data \<Rightarrow> bytes \<Rightarrow> bool" where
  "record_fits r d \<longleftrightarrow> (case rd_data r of None \<Rightarrow> True | Some old \<Rightarrow> length d \<le> length old)"

text \<open>Data read into a record: shorter data leave the end of the old data behind.\<close>

definition read_into :: "db_record_data \<Rightarrow> bytes \<Rightarrow> db_record_data" where
  "read_into r d = (case rd_data r of None \<Rightarrow> fresh_record d | Some old \<Rightarrow> fresh_record (d @ drop (length d) old))"

lemma record_ok_cases:
  assumes "record_ok r"
  obtains "r = record_data_zero" | d where "d \<noteq> []" "r = fresh_record d"
  using assms by (auto simp: record_ok_def)

lemma record_ok_read: "record_ok r \<Longrightarrow> d \<noteq> [] \<Longrightarrow> record_ok (read_into r d)"
  by (auto simp: record_ok_def read_into_def fresh_record_def split: option.splits)

lemma fits_record: "record_ok r \<Longrightarrow> dbt_fits (record_dbt r) d = record_fits r d"
  by (erule record_ok_cases) (auto simp: dbt_fits_def record_dbt_def record_fits_def fresh_record_def record_data_zero_def dbt_empty_def)

lemma take_read:
  assumes "record_ok r" "d \<noteq> []" "record_fits r d"
  shows "take_dbt 0 r (dbt_return (record_dbt r) d) = Inr (read_into r d)"
  using assms(1)
proof (cases rule: record_ok_cases)
  case 1
  then show ?thesis using assms(2) record_set_fresh(1) [of d "dbt_return (record_dbt r) d"]
    by (simp add: take_dbt_def record_dbt_def dbt_return_def dbt_empty_def read_into_def record_data_zero_def)
next
  case (2 old)
  then show ?thesis using assms(3)
    by (simp add: take_dbt_def record_dbt_def dbt_return_def read_into_def record_fits_def fresh_record_def)
qed

lemma take_kept: "record_ok r \<Longrightarrow> rc \<noteq> 0 \<Longrightarrow> take_dbt rc r (record_dbt r) = Inr r"
  by (erule record_ok_cases) (auto simp: take_dbt_def record_dbt_def fresh_record_def record_data_zero_def dbt_empty_def)

lemma take_room:
  assumes "record_ok r" "rc \<noteq> 0" "same_room (record_dbt r) v"
  shows "\<exists>r'. take_dbt rc r v = Inr r' \<and> record_ok r' \<and> record_fits r' = record_fits r"
  using assms(1)
proof (cases rule: record_ok_cases)
  case 1
  then show ?thesis using assms by (simp add: take_dbt_def same_room_def record_dbt_def record_data_zero_def dbt_empty_def)
next
  case (2 d)
  then obtain d' where "dbt_data v = Some d'" "length d' = length d" "dbt_flags v = Dbt_usermem"
    using assms(3) by (auto simp: same_room_def record_dbt_def fresh_record_def)
  then show ?thesis using 2 by (auto simp: take_dbt_def record_ok_def record_fits_def fresh_record_def fun_eq_iff)
qed

text \<open>An open cursor of a database with one record of a key, and its place among the entries.\<close>

definition cursor_at ::
    "('l \<Rightarrow> nat \<Rightarrow> (nat \<times> nat option) option) \<Rightarrow> 'l db_state \<Rightarrow> db_cursor_handle \<Rightarrow> nat \<Rightarrow> nat option \<Rightarrow> bool" where
  "cursor_at place s cu dbp p \<longleftrightarrow>
     (\<exists>c. cu_priv cu = Some c \<and> place (ds_lib s) c = Some (dbp, p))
     \<and> (\<exists>h. ds_handles s (cu_db cu) = Some h \<and> dh_dbp h = dbp \<and> dh_record_flags h AND db_record_flags_multiple = 0)
     \<and> (\<exists>e. ds_engine s = Some e \<and> ep_env e) \<and> record_ok (cu_key cu) \<and> record_ok (cu_value cu)"

context bdb_entries
begin

lemma op_moved:
  assumes "cursor_at place s cu dbp p" "cursor_target (entries (ds_lib s) dbp) p (search_key (record_dbt (cu_key cu))) move = Some i"
    and "move \<noteq> Db_set" "entries (ds_lib s) dbp ! i = (k, d)" "k \<noteq> []" "d \<noteq> []"
    and "record_fits (cu_key cu) k" "record_fits (cu_value cu) d"
  defines "cu' \<equiv> cu\<lparr>cu_key := read_into (cu_key cu) k, cu_value := read_into (cu_value cu) d\<rparr>"
  shows "\<exists>s'. db_cursor_op B s cu move = Inr (0, cu', s') \<and> cursor_at place s' cu' dbp (Some i) \<and> entries (ds_lib s') = entries (ds_lib s)"
proof -
  obtain c h e where at: "cu_priv cu = Some c" "place (ds_lib s) c = Some (dbp, p)" "ds_handles s (cu_db cu) = Some h" "dh_dbp h = dbp"
      "dh_record_flags h AND db_record_flags_multiple = 0" "ds_engine s = Some e" "ep_env e" "record_ok (cu_key cu)" "record_ok (cu_value cu)"
    using assms(1) by (auto simp: cursor_at_def)
  have "dbt_fits (record_dbt (cu_value cu)) (snd (entries (ds_lib s) dbp ! i))"
      "move = Db_set \<or> dbt_fits (record_dbt (cu_key cu)) (fst (entries (ds_lib s) dbp ! i))"
    using assms(4,7,8) at(8,9) by (simp_all add: fits_record)
  from moved [OF at(2) assms(2) this] obtain l where l:
      "lib_cursor_get B (ds_lib s) c (record_dbt (cu_key cu)) (record_dbt (cu_value cu)) move
        = (0, dbt_return (record_dbt (cu_key cu)) k, dbt_return (record_dbt (cu_value cu)) d, l)"
      "entries l = entries (ds_lib s)" "place l c = Some (dbp, Some i)"
    using assms(3,4) by auto
  have "db_cursor_op B s cu move = Inr (0, cu', s\<lparr>ds_lib := l\<rparr>)"
    using at l(1) assms(5-8) by (simp add: db_cursor_op_def handle_at_def db_check_error_def Let_def take_read cu'_def)
  then show ?thesis using at l assms(5,6) by (auto simp: cursor_at_def cu'_def record_ok_read)
qed

lemma op_stuck:
  assumes "cursor_at place s cu dbp p"
    and "cursor_target (entries (ds_lib s) dbp) p (search_key (record_dbt (cu_key cu))) move = None"
  shows "\<exists>s'. db_cursor_op B s cu move = Inr (notfound, cu, s') \<and> cursor_at place s' cu dbp p \<and> entries (ds_lib s') = entries (ds_lib s)"
proof -
  obtain c h e where at: "cu_priv cu = Some c" "place (ds_lib s) c = Some (dbp, p)" "ds_handles s (cu_db cu) = Some h" "dh_dbp h = dbp"
      "dh_record_flags h AND db_record_flags_multiple = 0" "ds_engine s = Some e" "ep_env e" "record_ok (cu_key cu)" "record_ok (cu_value cu)"
    using assms(1) by (auto simp: cursor_at_def)
  obtain l where l: "lib_cursor_get B (ds_lib s) c (record_dbt (cu_key cu)) (record_dbt (cu_value cu)) move
        = (notfound, record_dbt (cu_key cu), record_dbt (cu_value cu), l)"
      "entries l = entries (ds_lib s)" "place l c = place (ds_lib s) c"
    using stuck [OF at(2) assms(2)] by blast
  have "db_cursor_op B s cu move = Inr (notfound, cu, s\<lparr>ds_lib := l\<rparr>)"
    using at l(1) codes(1) by (simp add: db_cursor_op_def handle_at_def db_check_error_def db_engine_get_env_def Let_def take_kept)
  then show ?thesis using at l by (auto simp: cursor_at_def)
qed

lemma op_no_room:
  assumes "cursor_at place s cu dbp p"
    and "cursor_target (entries (ds_lib s) dbp) p (search_key (record_dbt (cu_key cu))) move = Some i"
    and "entries (ds_lib s) dbp ! i = (k, d)" "\<not> record_fits (cu_value cu) d \<or> move \<noteq> Db_set \<and> \<not> record_fits (cu_key cu) k"
  shows "\<exists>cu' s'. db_cursor_op B s cu move = Inr (too_small, cu', s') \<and> cursor_at place s' cu' dbp p \<and> entries (ds_lib s') = entries (ds_lib s)
    \<and> record_fits (cu_key cu') = record_fits (cu_key cu) \<and> record_fits (cu_value cu') = record_fits (cu_value cu)"
proof -
  obtain c h e where at: "cu_priv cu = Some c" "place (ds_lib s) c = Some (dbp, p)" "ds_handles s (cu_db cu) = Some h" "dh_dbp h = dbp"
      "dh_record_flags h AND db_record_flags_multiple = 0" "ds_engine s = Some e" "ep_env e" "record_ok (cu_key cu)" "record_ok (cu_value cu)"
    using assms(1) by (auto simp: cursor_at_def)
  have "\<not> dbt_fits (record_dbt (cu_value cu)) (snd (entries (ds_lib s) dbp ! i))
      \<or> move \<noteq> Db_set \<and> \<not> dbt_fits (record_dbt (cu_key cu)) (fst (entries (ds_lib s) dbp ! i))"
    using assms(3,4) at(8,9) by (simp add: fits_record)
  from no_room [OF at(2) assms(2) this] obtain k' v' l where
      l: "lib_cursor_get B (ds_lib s) c (record_dbt (cu_key cu)) (record_dbt (cu_value cu)) move = (too_small, k', v', l)"
      "same_room (record_dbt (cu_key cu)) k'" "same_room (record_dbt (cu_value cu)) v'"
      "entries l = entries (ds_lib s)" "place l c = place (ds_lib s) c" by blast
  obtain rk where rk: "take_dbt too_small (cu_key cu) k' = Inr rk" "record_ok rk" "record_fits rk = record_fits (cu_key cu)"
    using take_room [OF at(8) codes(2) l(2)] by blast
  obtain rv where rv: "take_dbt too_small (cu_value cu) v' = Inr rv" "record_ok rv" "record_fits rv = record_fits (cu_value cu)"
    using take_room [OF at(9) codes(2) l(3)] by blast
  have "db_cursor_op B s cu move = Inr (too_small, cu\<lparr>cu_key := rk, cu_value := rv\<rparr>, s\<lparr>ds_lib := l\<rparr>)"
    using at l(1) codes(2) rk(1) rv(1) by (simp add: db_cursor_op_def handle_at_def db_check_error_def db_engine_get_env_def Let_def)
  then show ?thesis using at l rk rv
    by (intro exI [of _ "cu\<lparr>cu_key := rk, cu_value := rv\<rparr>"] exI [of _ "s\<lparr>ds_lib := l\<rparr>"]) (simp add: cursor_at_def)
qed

lemma opened:
  assumes "db_cursor_init B s None a t = Inr (Some cu, s')" "ds_handles s a = Some h" "dh_record_flags h AND db_record_flags_multiple = 0"
    and "ds_engine s = Some e" "ep_env e"
  shows "cursor_at place s' cu (dh_dbp h) None" "entries (ds_lib s') = entries (ds_lib s)"
    "cu_key cu = record_data_zero" "cu_value cu = record_data_zero"
proof -
  obtain c l where "lib_cursor B (ds_lib s) (dh_dbp h) (db_txn_get_handle t) = (0, Some c, l)" "entries l = entries (ds_lib s)"
      "place l c = Some (dh_dbp h, None)"
    using new_cursor by blast
  then have "cursor_at place s' cu (dh_dbp h) None \<and> entries (ds_lib s') = entries (ds_lib s)
    \<and> cu_key cu = record_data_zero \<and> cu_value cu = record_data_zero"
    using assms by (auto simp: db_cursor_init_def handle_at_def cursor_at_def record_ok_def Let_def)
  then show "cursor_at place s' cu (dh_dbp h) None" "entries (ds_lib s') = entries (ds_lib s)"
    "cu_key cu = record_data_zero" "cu_value cu = record_data_zero" by simp_all
qed

end

text \<open>What a client reads that goes through a database: the memory of the records after each successful move.\<close>

fun cursor_reads :: "nat \<Rightarrow> 'l bdb_lib \<Rightarrow> 'l db_state \<Rightarrow> db_cursor_handle \<Rightarrow> ((bytes option \<times> bytes option) list \<times> int) res" where
  "cursor_reads 0 B s cu = Inl Unfinished"
| "cursor_reads (Suc n) B s cu =
     andThen (db_cursor_next B s cu) (\<lambda>(rc, cu1, s1).
       if rc \<noteq> 0 then Inr ([], rc)
       else andThen (cursor_reads n B s1 cu1) (\<lambda>(xs, rc). Inr ((rd_data (cu_key cu1), rd_data (cu_value cu1)) # xs, rc)))"

text \<open>The same over the entries that are left, with the records as they are.\<close>

fun reads_left :: "int \<Rightarrow> int \<Rightarrow> db_record_data \<Rightarrow> db_record_data \<Rightarrow> (bytes \<times> bytes) list \<Rightarrow> (bytes option \<times> bytes option) list \<times> int" where
  "reads_left notfound too_small rk rv [] = ([], notfound)"
| "reads_left notfound too_small rk rv ((k, d) # es) =
     (if record_fits rk k \<and> record_fits rv d
      then let rk1 = read_into rk k; rv1 = read_into rv d; (xs, rc) = reads_left notfound too_small rk1 rv1 es
        in ((rd_data rk1, rd_data rv1) # xs, rc)
      else ([], too_small))"

definition left_at :: "(bytes \<times> bytes) list \<Rightarrow> nat option \<Rightarrow> (bytes \<times> bytes) list" where
  "left_at es p = (case p of None \<Rightarrow> es | Some i \<Rightarrow> drop (Suc i) es)"

lemma next_target:
  "cursor_target es p k Db_next = (if left_at es p = [] then None else Some (length es - length (left_at es p)))"
  "e # rest = left_at es p \<Longrightarrow> es ! (length es - length (left_at es p)) = e
    \<and> left_at es (Some (length es - length (left_at es p))) = rest"
proof -
  have split: "\<exists>xs. es = xs @ left_at es p"
    by (cases p) (simp_all add: left_at_def, metis append_take_drop_id)
  show "e # rest = left_at es p \<Longrightarrow> es ! (length es - length (left_at es p)) = e
    \<and> left_at es (Some (length es - length (left_at es p))) = rest"
  proof -
    assume *: "e # rest = left_at es p"
    obtain xs where xs: "es = xs @ e # rest" using split * by metis
    have "length (left_at es p) = Suc (length rest)" using * by (metis length_Cons)
    then have "length es - length (left_at es p) = length xs" using xs by simp
    then show ?thesis by (simp add: xs left_at_def)
  qed
  show "cursor_target es p k Db_next = (if left_at es p = [] then None else Some (length es - length (left_at es p)))"
    by (auto simp: cursor_target_def left_at_def Let_def split: option.splits)
qed

context bdb_entries
begin

lemma cursor_reads_entries:
  "cursor_at place s cu dbp p \<Longrightarrow> left_at (entries (ds_lib s) dbp) p = es \<Longrightarrow> [] \<notin> fst ` set es \<union> snd ` set es \<Longrightarrow> length es < n \<Longrightarrow>
    cursor_reads n B s cu = Inr (reads_left notfound too_small (cu_key cu) (cu_value cu) es)"
proof (induction n arbitrary: s cu p es)
  case (Suc n)
  note target = next_target(1) [of "entries (ds_lib s) dbp" p "search_key (record_dbt (cu_key cu))"]
  show ?case
  proof (cases es)
    case Nil
    with op_stuck [OF Suc.prems(1), of Db_next] target show ?thesis
      using codes(1) Suc.prems(2) by (auto simp: db_cursor_next_def)
  next
    case (Cons e rest)
    obtain k d where e: "e = (k, d)" by fastforce
    let ?i = "length (entries (ds_lib s) dbp) - length (left_at (entries (ds_lib s) dbp) p)"
    have at: "entries (ds_lib s) dbp ! ?i = (k, d)" "left_at (entries (ds_lib s) dbp) (Some ?i) = rest"
      using next_target(2) [of e rest "entries (ds_lib s) dbp" p] Suc.prems(2) Cons e by auto
    have t: "cursor_target (entries (ds_lib s) dbp) p (search_key (record_dbt (cu_key cu))) Db_next = Some ?i"
      using target Suc.prems(2) Cons by simp
    show ?thesis
    proof (cases "record_fits (cu_key cu) k \<and> record_fits (cu_value cu) d")
      case False
      with op_no_room [OF Suc.prems(1) t at(1)] show ?thesis using codes(2) by (auto simp: db_cursor_next_def Cons e)
    next
      case True
      have ne: "k \<noteq> []" "d \<noteq> []" using Suc.prems(3) by (auto simp: Cons e)
      let ?cu = "cu\<lparr>cu_key := read_into (cu_key cu) k, cu_value := read_into (cu_value cu) d\<rparr>"
      obtain s' where s': "db_cursor_op B s cu Db_next = Inr (0, ?cu, s')" "cursor_at place s' ?cu dbp (Some ?i)"
          "entries (ds_lib s') = entries (ds_lib s)"
        using op_moved [OF Suc.prems(1) t _ at(1) ne] True by auto
      have "left_at (entries (ds_lib s') dbp) (Some ?i) = rest" using at(2) s'(3) by simp
      from Suc.IH [OF s'(2) this] have "cursor_reads n B s' ?cu
          = Inr (reads_left notfound too_small (cu_key ?cu) (cu_value ?cu) rest)"
        using Suc.prems(3,4) by (simp add: Cons)
      then show ?thesis using True by (simp add: db_cursor_next_def s'(1) Cons e Let_def case_prod_beta')
    qed
  qed
qed simp

end

text \<open>Entries of equal lengths are read as they are.\<close>

lemma reads_equal_lengths:
  "\<forall>(k, d) \<in> set es. length k = m \<and> length d = n \<Longrightarrow>
    \<forall>x. rd_data rk = Some x \<longrightarrow> length x = m \<Longrightarrow> \<forall>x. rd_data rv = Some x \<longrightarrow> length x = n \<Longrightarrow>
    reads_left notfound too_small rk rv (es @ fs)
      = (let end_k = (if es = [] then rk else fresh_record (fst (last es))); end_v = (if es = [] then rv else fresh_record (snd (last es)));
             (xs, rc) = reads_left notfound too_small end_k end_v fs
         in (map (map_prod Some Some) es @ xs, rc))"
proof (induction es arbitrary: rk rv)
  case (Cons e es)
  obtain k d where e: "e = (k, d)" by fastforce
  have len: "length k = m" "length d = n" using Cons.prems(1) by (auto simp: e)
  have fits: "record_fits rk k" "record_fits rv d" using Cons.prems(2,3) len by (auto simp: record_fits_def split: option.splits)
  have reads: "read_into rk k = fresh_record k" "read_into rv d = fresh_record d"
    using Cons.prems(2,3) len by (auto simp: read_into_def split: option.splits)
  show ?case using Cons.IH [of "fresh_record k" "fresh_record d"] Cons.prems(1) len
    by (simp add: e fits reads Let_def case_prod_beta' fresh_record_def)
qed (simp add: Let_def case_prod_beta')

context bdb_entries
begin

lemma move_to_stuck:
  assumes "cursor_at place s cu dbp p" "key \<noteq> []" "[] \<notin> fst ` set (entries (ds_lib s) dbp)"
    and "cu_key cu = record_data_zero \<or> (\<exists>d. cu_key cu = fresh_record d \<and> length d = length key)"
  shows "\<exists>s'. db_cursor_move_to B s cu key = Inr (notfound, cu\<lparr>cu_key := fresh_record key\<rparr>, s')
    \<and> cursor_at place s' (cu\<lparr>cu_key := fresh_record key\<rparr>) dbp p \<and> entries (ds_lib s') = entries (ds_lib s)"
proof -
  let ?cu = "cu\<lparr>cu_key := fresh_record key\<rparr>"
  have at: "cursor_at place s ?cu dbp p" using assms(1,2) by (auto simp: cursor_at_def record_ok_def)
  have copied: "db_record_data_set (Some (cu_key cu)) (dbt_of key) = Inr (fresh_record key)"
    using assms(2,4) by (auto simp: db_record_data_set_def dbt_of_def record_data_zero_def fresh_record_def mem_read_def mem_write_def Let_def)
  have "search_key (record_dbt (cu_key ?cu)) = []"
    using assms(2) by (simp add: search_key_def record_dbt_def fresh_record_def)
  moreover have "length (takeWhile (\<lambda>e. fst e \<noteq> []) (entries (ds_lib s) dbp)) = length (entries (ds_lib s) dbp)"
    using assms(3) by (intro arg_cong [where f = length]) (force simp: takeWhile_eq_all_conv image_iff)
  ultimately have "cursor_target (entries (ds_lib s) dbp) p (search_key (record_dbt (cu_key ?cu))) Db_set = None"
    by (simp add: cursor_target_def Let_def)
  from op_stuck [OF at this] show ?thesis
    using at copied by (auto simp: cursor_at_def db_cursor_move_to_def handle_at_def)
qed

end

text \<open>Moving a cursor to a key never finds anything in a database with one record of a key, also when the
  key is there: the key is handed to the library in the memory that is meant for results, whose size is
  left 0, so the library looks for the empty key. The cursor stays where it was.
\<close>
theorem cursor_move_to_never_finds:
  assumes "bdb_entries B entries place notfound too_small"
    and "db_cursor_init B s None a t = Inr (Some cu, s1)" "ds_handles s a = Some h" "dh_record_flags h AND db_record_flags_multiple = 0"
    and "ds_engine s = Some e" "ep_env e" "key \<noteq> []" "[] \<notin> fst ` set (entries (ds_lib s) (dh_dbp h))"
  shows "\<exists>cu2 s2. db_cursor_move_to B s1 cu key = Inr (notfound, cu2, s2)
    \<and> cursor_at place s2 cu2 (dh_dbp h) None \<and> entries (ds_lib s2) = entries (ds_lib s)"
proof -
  note new = bdb_entries.opened [OF assms(1-6)]
  have "[] \<notin> fst ` set (entries (ds_lib s1) (dh_dbp h))" using assms(8) new(2) by simp
  from bdb_entries.move_to_stuck [OF assms(1) new(1) assms(7) this] new(3)
  obtain s2 where "db_cursor_move_to B s1 cu key = Inr (notfound, cu\<lparr>cu_key := fresh_record key\<rparr>, s2)"
    "cursor_at place s2 (cu\<lparr>cu_key := fresh_record key\<rparr>) (dh_dbp h) None" "entries (ds_lib s2) = entries (ds_lib s1)" by blast
  then show ?thesis using new(2) by (intro exI [of _ "cu\<lparr>cu_key := fresh_record key\<rparr>"] exI [of _ s2]) simp
qed

text \<open>C29. A new cursor that is moved on until a move fails reads all entries in the order of the library as
  long as the keys all have one length and the data all have one length. At the first entry with a longer
  key or longer data the run ends with the error for too little memory, since the records keep the memory
  of the first entry, and the entries from there on are not seen. No key and no data are empty, since the
  copy of a record asserts that its size is positive.
\<close>
theorem cursor_reads_up_to_longer_entry:
  assumes "bdb_entries B entries place notfound too_small"
    and "db_cursor_init B s None a t = Inr (Some cu, s1)" "ds_handles s a = Some h" "dh_record_flags h AND db_record_flags_multiple = 0"
    and "ds_engine s = Some e" "ep_env e" "entries (ds_lib s) (dh_dbp h) = es @ fs" "\<forall>(k, d) \<in> set es. length k = m \<and> length d = n"
    and "fs = [] \<or> es \<noteq> [] \<and> (m < length (fst (hd fs)) \<or> n < length (snd (hd fs)))"
    and "[] \<notin> fst ` set (es @ fs) \<union> snd ` set (es @ fs)" "length (es @ fs) < fuel"
  shows "cursor_reads fuel B s1 cu = Inr (map (map_prod Some Some) es, if fs = [] then notfound else too_small)"
proof -
  note new = bdb_entries.opened [OF assms(1-6)]
  have "left_at (entries (ds_lib s1) (dh_dbp h)) None = es @ fs" using assms(7) new(2) by (simp add: left_at_def)
  from bdb_entries.cursor_reads_entries [OF assms(1) new(1) this assms(10,11)]
  have "cursor_reads fuel B s1 cu = Inr (reads_left notfound too_small record_data_zero record_data_zero (es @ fs))"
    by (simp only: new(3,4))
  moreover have "reads_left notfound too_small record_data_zero record_data_zero (es @ fs)
      = (map (map_prod Some Some) es, if fs = [] then notfound else too_small)"
  proof (cases fs)
    case Nil
    with reads_equal_lengths [OF assms(8), of record_data_zero record_data_zero notfound too_small "[]"] show ?thesis
      by (simp add: record_data_zero_def Let_def)
  next
    case (Cons f rest)
    then obtain k d where f: "f = (k, d)" "es \<noteq> []" "m < length k \<or> n < length d" using assms(9) by (cases f) auto
    have "last es \<in> set es" using f(2) by simp
    then have "length (fst (last es)) = m" "length (snd (last es)) = n" using assms(8) by (auto simp: case_prod_beta')
    then have "\<not> (record_fits (fresh_record (fst (last es))) k \<and> record_fits (fresh_record (snd (last es))) d)"
      using f(3) by (auto simp: record_fits_def fresh_record_def)
    then have "reads_left notfound too_small (fresh_record (fst (last es))) (fresh_record (snd (last es))) fs = ([], too_small)"
      using Cons f(1) by auto
    with reads_equal_lengths [OF assms(8), of record_data_zero record_data_zero notfound too_small fs] show ?thesis
      using f(2) Cons by (simp add: record_data_zero_def Let_def)
  qed
  ultimately show ?thesis by simp
qed

section \<open>Examples\<close>

definition mem_dups :: "mem_store db_state" where
  "mem_dups = mem_filled 1 [([1], [9, 9, 9]), ([2], [8, 8]), ([1], [7])]"

definition mem_singles :: "mem_store db_state" where
  "mem_singles = mem_filled 0 [([2], [8]), ([1], [7]), ([3], [9, 9])]"

lemma mem_dups_facts:
  "\<exists>h. ds_handles mem_dups 0 = Some h \<and> dh_record_flags h = 0x8000 \<and> dh_dbp h = 0"
  "\<exists>p. ds_engine mem_dups = Some p \<and> ep_env p"
  "mem_entries (ds_lib mem_dups) 0 = [([1], [7]), ([1], [9, 9, 9]), ([2], [8, 8])]"
proof -
  have "map_option (\<lambda>h. (dh_record_flags h, dh_dbp h)) (ds_handles mem_dups 0) = Some (0x8000, 0)" by code_simp
  then show "\<exists>h. ds_handles mem_dups 0 = Some h \<and> dh_record_flags h = 0x8000 \<and> dh_dbp h = 0" by auto
  have "map_option ep_env (ds_engine mem_dups) = Some True" by code_simp
  then show "\<exists>p. ds_engine mem_dups = Some p \<and> ep_env p" by auto
  show "mem_entries (ds_lib mem_dups) 0 = [([1], [7]), ([1], [9, 9, 9]), ([2], [8, 8])]" by code_simp
qed

lemma mem_singles_facts:
  "\<exists>h. ds_handles mem_singles 0 = Some h \<and> dh_record_flags h = 0 \<and> dh_dbp h = 0"
  "\<exists>p. ds_engine mem_singles = Some p \<and> ep_env p"
  "mem_entries (ds_lib mem_singles) 0 = [([1], [7]), ([2], [8]), ([3], [9, 9])]"
  "\<exists>cu s. db_cursor_init mem_lib mem_singles None 0 None = Inr (Some cu, s)"
proof -
  have "map_option (\<lambda>h. (dh_record_flags h, dh_dbp h)) (ds_handles mem_singles 0) = Some (0, 0)" by code_simp
  then show h: "\<exists>h. ds_handles mem_singles 0 = Some h \<and> dh_record_flags h = 0 \<and> dh_dbp h = 0" by auto
  have "map_option ep_env (ds_engine mem_singles) = Some True" by code_simp
  then show "\<exists>p. ds_engine mem_singles = Some p \<and> ep_env p" by auto
  show "mem_entries (ds_lib mem_singles) 0 = [([1], [7]), ([2], [8]), ([3], [9, 9])]" by code_simp
  show "\<exists>cu s. db_cursor_init mem_lib mem_singles None 0 None = Inr (Some cu, s)"
    using h by (auto simp: db_cursor_init_def handle_at_def mem_lib_def mem_cursor_def Let_def)
qed

theorem find_gives_all_records_witness:
  "\<exists>s'. db_find 3 mem_lib mem_dups 0 None [1] (Some None) = Inr (2, [fresh_record [7], fresh_record [9, 9, 9]], s')"
proof -
  obtain h p where h: "ds_handles mem_dups 0 = Some h" "dh_record_flags h = 0x8000" "dh_dbp h = 0"
    and p: "ds_engine mem_dups = Some p" "ep_env p" using mem_dups_facts(1,2) by blast
  have "map snd (filter (\<lambda>e. fst e = [1]) (mem_entries (ds_lib mem_dups) (dh_dbp h))) = [[7], [9, 9, 9]]"
    by (simp add: h(3) mem_dups_facts(3))
  from find_gives_all_records [OF mem.bdb_entries_axioms h(1) _ p this, where fuel = 3 and t = None and given = None] show ?thesis by (auto simp: h(2))
qed

theorem find_answers_one_for_a_missing_key_witness:
  "(\<exists>s'. db_find 0 mem_lib mem_singles 0 None [5] (Some None) = Inr (1, [], s'))
    \<and> (\<exists>s'. db_find 0 mem_lib mem_singles 0 None [2] (Some None) = Inr (1, [fresh_record [8]], s'))"
proof -
  obtain h p where h: "ds_handles mem_singles 0 = Some h" "dh_record_flags h = 0" "dh_dbp h = 0"
    and p: "ds_engine mem_singles = Some p" "ep_env p" using mem_singles_facts(1,2) by blast
  have "map_of (mem_entries (ds_lib mem_singles) (dh_dbp h)) [5] = None"
    "map_of (mem_entries (ds_lib mem_singles) (dh_dbp h)) [2] = Some [8]" by (simp_all add: h(3) mem_singles_facts(3))
  note found = find_answers_one_for_a_missing_key [OF mem.bdb_entries_axioms h(1) _ p this(1)]
    find_answers_one_for_a_missing_key [OF mem.bdb_entries_axioms h(1) _ p this(2)]
  show ?thesis using found(1) [where fuel = 0 and t = None] found(2) [where fuel = 0 and t = None] by (auto simp: h(2))
qed

theorem cursor_move_to_never_finds_witness:
  "\<exists>cu s1 cu2 s2. db_cursor_init mem_lib mem_singles None 0 None = Inr (Some cu, s1)
    \<and> ([2], [8]) \<in> set (mem_entries (ds_lib mem_singles) 0) \<and> db_cursor_move_to mem_lib s1 cu [2] = Inr (db_notfound, cu2, s2)"
proof -
  obtain h p cu s1 where h: "ds_handles mem_singles 0 = Some h" "dh_record_flags h = 0" "dh_dbp h = 0"
    and p: "ds_engine mem_singles = Some p" "ep_env p" and cu: "db_cursor_init mem_lib mem_singles None 0 None = Inr (Some cu, s1)"
    using mem_singles_facts(1,2,4) by blast
  from cursor_move_to_never_finds [OF mem.bdb_entries_axioms cu h(1) _ p, of "[2]"] obtain cu2 s2 where
    "db_cursor_move_to mem_lib s1 cu [2] = Inr (db_notfound, cu2, s2)" by (auto simp: h(2,3) mem_singles_facts(3))
  then show ?thesis using cu by (auto simp: mem_singles_facts(3))
qed

theorem cursor_reads_up_to_longer_entry_witness:
  "\<exists>cu s1. db_cursor_init mem_lib mem_singles None 0 None = Inr (Some cu, s1)
    \<and> cursor_reads 4 mem_lib s1 cu = Inr ([(Some [1], Some [7]), (Some [2], Some [8])], db_buffer_small)"
proof -
  obtain h p cu s1 where h: "ds_handles mem_singles 0 = Some h" "dh_record_flags h = 0" "dh_dbp h = 0"
    and p: "ds_engine mem_singles = Some p" "ep_env p" and cu: "db_cursor_init mem_lib mem_singles None 0 None = Inr (Some cu, s1)"
    using mem_singles_facts(1,2,4) by blast
  have es: "mem_entries (ds_lib mem_singles) (dh_dbp h) = [([1], [7]), ([2], [8])] @ [([3], [9, 9])]"
    by (simp add: h(3) mem_singles_facts(3))
  from cursor_reads_up_to_longer_entry [OF mem.bdb_entries_axioms cu h(1) _ p es, of 1 1 4] cu show ?thesis
    by (auto simp: h(2))
qed

end
