(* ===== verification/DbHelper.thy ===== *)
theory DbHelper
  imports DbEngine
begin

text \<open>
  The older helper for databases (\<open>src/db/db-helpler.c\<close>): one environment of the library for a home
  directory and an array of databases that its users fill. The calls on environments are the parameter
  \<open>env_lib\<close>, with what is documented about them in the locale \<open>env_provider\<close>; it is shown to hold of a record of
  the open environments.
\<close>

record 'l env_lib =
  le_create :: "'l \<Rightarrow> int \<times> nat option \<times> 'l"
  le_open :: "'l \<Rightarrow> nat \<Rightarrow> string \<Rightarrow> int \<times> 'l"
  le_close :: "'l \<Rightarrow> nat \<Rightarrow> 'l"

record db_helpler =
  hp_home_dir :: "string option"
  hp_env :: "nat option"
  hp_max_size :: u64
  hp_dbs :: "db_cell list"

definition s_db_helpler :: db_helpler where
  "s_db_helpler = \<lparr>hp_home_dir = None, hp_env = None, hp_max_size = 0, hp_dbs = []\<rparr>"

text \<open>The size is rounded up to a multiple of 64; the new places are cleared.\<close>

definition db_helpler_resize :: "db_helpler \<Rightarrow> u64 \<Rightarrow> db_helpler" where
  "db_helpler_resize db new_size =
     (let n = (if new_size = 0 then 64 else (new_size + 63) div 64 * 64)
      in if n \<le> hp_max_size db then db
         else db\<lparr>hp_dbs := hp_dbs db @ replicate (unat (n - hp_max_size db)) Null, hp_max_size := n\<rparr>)"

definition helper_dir :: "string option \<Rightarrow> string" where
  "helper_dir home_dir = (case home_dir of None \<Rightarrow> ''data'' | Some d \<Rightarrow> d)"

text \<open>
  The helper is that of the caller or the static one, which comes back changed either way; the result is
  false when the environment cannot be opened.
\<close>

definition db_helpler_init ::
    "'l env_lib \<Rightarrow> 'l \<Rightarrow> db_helpler \<Rightarrow> string option \<Rightarrow> u64 \<Rightarrow> (bool \<times> db_helpler \<times> 'l) res" where
  "db_helpler_init E l db home_dir max_size =
     (let dir = helper_dir home_dir
      in if hp_env db \<noteq> None \<and> hp_home_dir db = Some dir then Inr (True, db_helpler_resize db max_size, l)
         else let db1 = db\<lparr>hp_env := None, hp_home_dir := Some dir\<rparr>;
                  l1 = (case hp_env db of None \<Rightarrow> l | Some env \<Rightarrow> le_close E l env)
         in case le_create E l1 of (rc, e, l2) \<Rightarrow>
           (case e of None \<Rightarrow> Inl Abort | Some env \<Rightarrow>
             if rc \<noteq> 0 then Inl Abort
             else case le_open E l2 env dir of (rc2, l3) \<Rightarrow>
               if rc2 \<noteq> 0 then Inr (False, db1, le_close E l3 env)
               else Inr (True, db_helpler_resize (db1\<lparr>hp_env := Some env\<rparr>) max_size, l3)))"

text \<open>
  The clean-up runs the function of the helper, if there is one, and frees a helper that is not the static
  one; the environment stays open unless that function closes it.
\<close>

definition db_helpler_cleanup :: "(db_helpler \<Rightarrow> db_helpler) option \<Rightarrow> bool \<Rightarrow> db_helpler \<Rightarrow> db_helpler option" where
  "db_helpler_cleanup on_cleanup static db =
     (let db1 = (case on_cleanup of None \<Rightarrow> db | Some f \<Rightarrow> f db) in if static then Some db1 else None)"

text \<open>Calls of the initialisation, one after the other, with what they return.\<close>

fun helper_calls ::
    "'l env_lib \<Rightarrow> 'l \<Rightarrow> db_helpler \<Rightarrow> (string option \<times> u64) list \<Rightarrow> (bool list \<times> db_helpler \<times> 'l) res" where
  "helper_calls E l db [] = Inr ([], db, l)"
| "helper_calls E l db ((home_dir, n) # calls) =
     andThen (db_helpler_init E l db home_dir n) (\<lambda>(ok, db1, l1).
       andThen (helper_calls E l1 db1 calls) (\<lambda>(oks, db2, l2). Inr (ok # oks, db2, l2)))"

section \<open>One environment, for the last directory\<close>

text \<open>The environments that exist, each with its directory once it is open.\<close>

locale env_provider =
  fixes E :: "'l env_lib" and envs :: "'l \<Rightarrow> nat \<Rightarrow> string option option"
  assumes created: "\<exists>env l'. le_create E l = (0, Some env, l') \<and> envs l env = None \<and> envs l' = (envs l)(env \<mapsto> None)"
    and opened: "le_open E l env dir = (rc, l') \<Longrightarrow> envs l env = Some None \<Longrightarrow>
      envs l' = (if rc = 0 then (envs l)(env \<mapsto> Some dir) else envs l)"
    and closed: "envs (le_close E l env) = (envs l)(env := None)"

definition helper_ok :: "('l \<Rightarrow> nat \<Rightarrow> string option option) \<Rightarrow> 'l \<Rightarrow> db_helpler \<Rightarrow> bool" where
  "helper_ok envs l db \<longleftrightarrow> envs l = (case hp_env db of None \<Rightarrow> Map.empty | Some env \<Rightarrow> [env \<mapsto> hp_home_dir db])
     \<and> (hp_env db \<noteq> None \<longrightarrow> hp_home_dir db \<noteq> None) \<and> length (hp_dbs db) = unat (hp_max_size db)"

lemma resize_keeps: "hp_env (db_helpler_resize db n) = hp_env db" "hp_home_dir (db_helpler_resize db n) = hp_home_dir db"
  by (simp_all add: db_helpler_resize_def Let_def)

lemma resize_cases:
  "db_helpler_resize db n = db \<or> (\<exists>m. hp_max_size db < m \<and> db_helpler_resize db n
    = db\<lparr>hp_dbs := hp_dbs db @ replicate (unat (m - hp_max_size db)) Null, hp_max_size := m\<rparr>)"
proof -
  let ?m = "if n = 0 then 64 else (n + 63) div 64 * 64"
  show ?thesis
  proof (cases "?m \<le> hp_max_size db")
    case True
    then show ?thesis unfolding db_helpler_resize_def Let_def by (simp only: if_True simp_thms)
  next
    case False
    then have "db_helpler_resize db n = db\<lparr>hp_dbs := hp_dbs db @ replicate (unat (?m - hp_max_size db)) Null, hp_max_size := ?m\<rparr>"
      unfolding db_helpler_resize_def Let_def by (rule if_not_P)
    then show ?thesis using False unfolding not_le by blast
  qed
qed

lemma resize_length:
  assumes "length (hp_dbs db) = unat (hp_max_size db)"
  shows "length (hp_dbs (db_helpler_resize db n)) = unat (hp_max_size (db_helpler_resize db n))"
  using resize_cases [of db n]
proof (elim disjE exE conjE)
  fix m assume *: "hp_max_size db < m" "db_helpler_resize db n
    = db\<lparr>hp_dbs := hp_dbs db @ replicate (unat (m - hp_max_size db)) Null, hp_max_size := m\<rparr>"
  have "unat (m - hp_max_size db) = unat m - unat (hp_max_size db)" "unat (hp_max_size db) < unat m"
    using *(1) unat_sub [of "hp_max_size db" m] by (simp_all add: less_imp_le word_less_nat_alt [symmetric])
  then show ?thesis using *(2) assms by simp
qed (use assms in simp)

text \<open>The array has room for the size asked for, unless rounding up wraps around.\<close>

lemma helper_room:
  assumes "unat n < 2 ^ 64 - 63"
  shows "n \<le> hp_max_size (db_helpler_resize db n)"
proof -
  have "unat (n + 63) = unat n + 63" using assms unat_add_lem [of n 63] by simp
  then have "unat ((n + 63) div 64) = (unat n + 63) div 64" by (simp add: unat_div)
  moreover have "(unat n + 63) div 64 < 288230376151711744" using assms by (simp add: less_mult_imp_div_less)
  ultimately have "unat ((n + 63) div 64 * 64) = (unat n + 63) div 64 * 64"
    using unat_mult_lem [of "(n + 63) div 64" 64] by simp
  moreover have "unat n \<le> (unat n + 63) div 64 * 64" by presburger
  ultimately have "n \<le> (n + 63) div 64 * 64" by (simp add: word_le_nat_alt)
  then show ?thesis by (auto simp: db_helpler_resize_def Let_def)
qed

context env_provider
begin

lemma init_keeps:
  assumes "helper_ok envs l db" "db_helpler_init E l db home_dir n = Inr (ok, db', l')"
  shows "helper_ok envs l' db'" "hp_home_dir db' = Some (helper_dir home_dir)" "ok \<longleftrightarrow> hp_env db' \<noteq> None"
proof -
  let ?dir = "helper_dir home_dir"
  have "helper_ok envs l' db' \<and> hp_home_dir db' = Some ?dir \<and> (ok \<longleftrightarrow> hp_env db' \<noteq> None)"
  proof (cases "hp_env db \<noteq> None \<and> hp_home_dir db = Some ?dir")
    case True
    then show ?thesis using assms by (auto simp: db_helpler_init_def helper_ok_def resize_keeps resize_length)
  next
    case False
    let ?l1 = "case hp_env db of None \<Rightarrow> l | Some env \<Rightarrow> le_close E l env"
    have none: "envs ?l1 = Map.empty" using assms(1) by (auto simp: helper_ok_def closed split: option.splits)
    obtain env l2 where l2: "le_create E ?l1 = (0, Some env, l2)" "envs l2 = [env \<mapsto> None]" using created [of ?l1] none by auto
    obtain rc l3 where l3: "le_open E l2 env ?dir = (rc, l3)" by fastforce
    have "envs l3 = (if rc = 0 then [env \<mapsto> Some ?dir] else [env \<mapsto> None])" using opened [OF l3] l2(2) by auto
    then show ?thesis using assms False l2 l3
      by (auto simp: db_helpler_init_def helper_ok_def resize_keeps resize_length closed Let_def split: if_splits)
  qed
  then show "helper_ok envs l' db'" "hp_home_dir db' = Some ?dir" "ok \<longleftrightarrow> hp_env db' \<noteq> None" by simp_all
qed

lemma calls_keep:
  "helper_ok envs l db \<Longrightarrow> helper_calls E l db calls = Inr (oks, db', l') \<Longrightarrow>
    helper_ok envs l' db' \<and> (calls \<noteq> [] \<longrightarrow> oks \<noteq> [] \<and> hp_home_dir db' = Some (helper_dir (fst (last calls)))
      \<and> (last oks \<longleftrightarrow> hp_env db' \<noteq> None))"
proof (induction calls arbitrary: l db oks)
  case (Cons call calls)
  obtain home_dir n where call: "call = (home_dir, n)" by fastforce
  obtain ok db1 l1 oks1 where 1: "db_helpler_init E l db home_dir n = Inr (ok, db1, l1)"
      "helper_calls E l1 db1 calls = Inr (oks1, db', l')" "oks = ok # oks1"
    using Cons.prems(2) by (auto simp: call res_simps)
  note kept = init_keeps [OF Cons.prems(1) 1(1)]
  show ?case using Cons.IH [OF kept(1) 1(2)] kept 1(2,3) by (cases calls) (auto simp: call)
qed simp

end

text \<open>A list of the environments that exist or existed; a directory without a name cannot be opened.\<close>

definition list_env :: "string option option list \<Rightarrow> nat \<Rightarrow> string option option" where
  "list_env l env = (if env < length l then l ! env else None)"

definition list_envs :: "string option option list env_lib" where
  "list_envs = \<lparr>
     le_create = (\<lambda>l. (0, Some (length l), l @ [Some None])),
     le_open = (\<lambda>l env dir. if dir = [] then (2, l) else (0, l[env := Some (Some dir)])),
     le_close = (\<lambda>l env. l[env := None])\<rparr>"

interpretation list: env_provider list_envs list_env
  by unfold_locales (auto simp: list_envs_def list_env_def fun_eq_iff nth_append nth_list_update split: if_splits)

text \<open>
  However a program initialises the helper again and again, with any directories and sizes and whether
  or not the calls succeed, there is never more than one environment: none after a call that failed, and
  after one that succeeded the one of the directory asked for last, whose array has as many places as its
  size says.
\<close>
theorem helper_has_one_environment:
  assumes "env_provider E envs" "envs l = Map.empty" "helper_calls E l s_db_helpler calls = Inr (oks, db, l')"
  shows "length (hp_dbs db) = unat (hp_max_size db)"
    and "calls \<noteq> [] \<Longrightarrow> envs l' = (if last oks then [the (hp_env db) \<mapsto> Some (helper_dir (fst (last calls)))] else Map.empty)"
proof -
  have "helper_ok envs l s_db_helpler" using assms(2) by (simp add: helper_ok_def s_db_helpler_def)
  note kept = env_provider.calls_keep [OF assms(1) this assms(3)]
  show "length (hp_dbs db) = unat (hp_max_size db)" using kept by (simp add: helper_ok_def)
  show "calls \<noteq> [] \<Longrightarrow> envs l' = (if last oks then [the (hp_env db) \<mapsto> Some (helper_dir (fst (last calls)))] else Map.empty)"
    using kept by (auto simp: helper_ok_def)
qed

theorem helper_has_one_environment_witness:
  "\<exists>db l. helper_calls list_envs [] s_db_helpler [(None, 0), (Some ''other'', 65), (Some ''other'', 3)] = Inr ([True, True, True], db, l)
    \<and> list_env l = [1 \<mapsto> Some ''other''] \<and> length (hp_dbs db) = 128"
proof -
  have "map_sum id (\<lambda>(oks, db, l). (oks, hp_env db, hp_max_size db)) (helper_calls list_envs [] s_db_helpler
      [(None, 0), (Some ''other'', 65), (Some ''other'', 3)]) = Inr ([True, True, True], Some 1, 128)" by code_simp
  then obtain db l where run: "helper_calls list_envs [] s_db_helpler [(None, 0), (Some ''other'', 65), (Some ''other'', 3)]
      = Inr ([True, True, True], db, l)" "hp_env db = Some 1" "hp_max_size db = 128"
    by (cases "helper_calls list_envs [] s_db_helpler [(None, 0), (Some ''other'', 65), (Some ''other'', 3)]") auto
  have "list_env [] = Map.empty" by (simp add: list_env_def fun_eq_iff)
  note facts = helper_has_one_environment [OF list.env_provider_axioms this run(1)]
  show ?thesis using facts run by (auto simp: helper_dir_def)
qed
end
