(* ===== verification/Jwt.thy ===== *)
theory Jwt
  imports Encodings "HOL-Library.AList"
begin

text \<open>
  JSON web tokens (\<open>utils/json-web-token.c\<close>): header and claims are JSON objects with strings as members, in the
  order in which they were added; signing packs both into base64 without padding and signs the two. Keys and
  values are C strings, without a zero byte. The signature comes from GnuTLS, a parameter.
\<close>

section \<open>Tokens\<close>

record 'k json_web_token =
  jw_header :: "(bytes \<times> bytes) list"
  jw_claims :: "(bytes \<times> bytes) list"
  jw_privkey :: 'k
  jw_signature :: "bytes option"
  jw_b64_data :: bytes
  jw_cb_data :: nat

definition jwt_max_buffer :: nat where "jwt_max_buffer = 65536"

text \<open>The new key of GnuTLS is an argument; the text of the token is empty.\<close>

definition json_web_token_init :: "'k \<Rightarrow> 'k json_web_token" where
  "json_web_token_init key =
     \<lparr>jw_header = [(ascii ''alg'', ascii ''RS256''), (ascii ''typ'', ascii ''JWT'')], jw_claims = [], jw_privkey = key,
      jw_signature = None, jw_b64_data = [], jw_cb_data = 0\<rparr>"

text \<open>A value is replaced in its place when the key is there already; no value is the empty string.\<close>

fun jwt_add_claims :: "'k json_web_token \<Rightarrow> (bytes \<times> bytes option) list \<Rightarrow> 'k json_web_token" where
  "jwt_add_claims j [] = j"
| "jwt_add_claims j ((key, val) # args) =
     jwt_add_claims (j\<lparr>jw_claims := AList.update key (case val of None \<Rightarrow> [] | Some v \<Rightarrow> v) (jw_claims j)\<rparr>) args"

text \<open>Operations that are not written yet.\<close>

definition jwt_set_algorithm :: "'k json_web_token \<Rightarrow> bytes \<Rightarrow> int \<times> 'k json_web_token" where "jwt_set_algorithm j algo = (-1, j)"
definition jwt_set_secret :: "'k json_web_token \<Rightarrow> bytes \<Rightarrow> int \<times> 'k json_web_token" where "jwt_set_secret j secret = (-1, j)"
definition jwt_set_pubkey :: "'k json_web_token \<Rightarrow> bytes \<Rightarrow> int \<times> 'k json_web_token" where "jwt_set_pubkey j pem = (-1, j)"
definition jwt_verify :: "'k json_web_token \<Rightarrow> int" where "jwt_verify j = -1"
definition jwt_serialize :: "'k json_web_token \<Rightarrow> int \<times> bytes option" where "jwt_serialize j = (0, None)"

definition jwt_set_privkey :: "('k \<Rightarrow> bytes \<Rightarrow> int \<times> 'k) \<Rightarrow> 'k json_web_token \<Rightarrow> bytes \<Rightarrow> int \<times> 'k json_web_token" where
  "jwt_set_privkey import j pem = (case import (jw_privkey j) pem of (rc, key) \<Rightarrow> (rc, j\<lparr>jw_privkey := key\<rparr>))"

definition json_web_token_cleanup :: "'k json_web_token \<Rightarrow> 'k json_web_token" where
  "json_web_token_cleanup j = j\<lparr>jw_header := [], jw_claims := [], jw_signature := None\<rparr>"

section \<open>Packing and signing\<close>

abbreviation quote :: byte where "quote \<equiv> of_char (CHR ''\"'')"
abbreviation colon :: byte where "colon \<equiv> of_char (CHR '':'')"
abbreviation comma :: byte where "comma \<equiv> of_char (CHR '','')"
abbreviation brace_open :: byte where "brace_open \<equiv> of_char (CHR ''{'')"
abbreviation brace_close :: byte where "brace_close \<equiv> of_char (CHR ''}'')"
abbreviation dot :: byte where "dot \<equiv> of_char (CHR ''.'')"
abbreviation equals :: byte where "equals \<equiv> of_char (CHR ''='')"

text \<open>One member after the other behind what is in the buffer, with a comma unless the buffer ends in a brace.\<close>

fun pack_members :: "bytes \<Rightarrow> (bytes \<times> bytes) list \<Rightarrow> bytes res" where
  "pack_members buf [] = Inr buf"
| "pack_members buf ((key, val) # ms) =
     (if key = [] then Inl Abort
      else let buf1 = (if last buf \<noteq> brace_open then buf @ [comma] else buf)
      in if jwt_max_buffer \<le> length buf1 + 3 + length key + 2 + length val then Inl Abort
         else pack_members (buf1 @ [quote] @ key @ [quote, colon, quote] @ val @ [quote]) ms)"

definition strip_padding :: "bytes \<Rightarrow> bytes" where
  "strip_padding s = rev (dropWhile (\<lambda>c. c = equals) (rev s))"

text \<open>Base64 is written with its padding and a zero byte behind it into the room that is left.\<close>

definition encode_into :: "nat \<Rightarrow> bytes \<Rightarrow> bytes res" where
  "encode_into room data =
     (let e = base64_urlencode data
      in if e = [] then Inl Abort else if room < length e + 1 then Inl Undefined else Inr (strip_padding e))"

definition pack_json_object_base64 :: "nat \<Rightarrow> (bytes \<times> bytes) list \<Rightarrow> bytes res" where
  "pack_json_object_base64 room ms =
     andThen (pack_members [brace_open] ms) (\<lambda>text. encode_into room (text @ [brace_close]))"

definition jwt_sign :: "('k \<Rightarrow> bytes \<Rightarrow> bytes option) \<Rightarrow> 'k json_web_token \<Rightarrow> 'k json_web_token res" where
  "jwt_sign sign j =
     andThen (pack_json_object_base64 jwt_max_buffer (jw_header j)) (\<lambda>h.
       if jwt_max_buffer \<le> length h + 1 then Inl Abort
       else andThen (pack_json_object_base64 (jwt_max_buffer - (length h + 1)) (jw_claims j)) (\<lambda>c.
         let data = h @ [dot] @ c
         in if jwt_max_buffer < length data + 1 then Inl Abort
            else case sign (jw_privkey j) data of
                None \<Rightarrow> Inl Abort
              | Some sig \<Rightarrow> andThen (encode_into (jwt_max_buffer - (length data + 1)) sig) (\<lambda>s.
                  let out = data @ [dot] @ s
                  in if jwt_max_buffer \<le> length out then Inl Abort
                     else Inr (j\<lparr>jw_signature := Some sig, jw_b64_data := out, jw_cb_data := length out\<rparr>))))"

section \<open>The text of an object\<close>

definition member_text :: "bytes \<times> bytes \<Rightarrow> bytes" where
  "member_text m = [quote] @ fst m @ [quote, colon, quote] @ snd m @ [quote]"

fun members_text :: "(bytes \<times> bytes) list \<Rightarrow> bytes" where
  "members_text [] = []"
| "members_text [m] = member_text m"
| "members_text (m # ms) = member_text m @ [comma] @ members_text ms"

definition object_text :: "(bytes \<times> bytes) list \<Rightarrow> bytes" where
  "object_text ms = [brace_open] @ members_text ms @ [brace_close]"

lemma char_codes: "quote \<noteq> brace_open" "comma \<noteq> brace_open" "quote \<noteq> comma" "quote \<noteq> brace_close" "comma \<noteq> brace_close"
  by code_simp+

lemma member_last: "last (b @ member_text m) = quote"
  by (simp add: member_text_def)

lemma pack_more:
  "last buf = quote \<Longrightarrow> [] \<notin> fst ` set (m # ms) \<Longrightarrow> length buf + length (members_text (m # ms)) + 1 < jwt_max_buffer \<Longrightarrow>
    pack_members buf (m # ms) = Inr (buf @ [comma] @ members_text (m # ms))"
proof (induction ms arbitrary: buf m)
  case Nil
  then show ?case using char_codes(1) by (cases m) (simp add: member_text_def Let_def)
next
  case (Cons m2 ms)
  obtain k v where m: "m = (k, v)" by fastforce
  let ?buf = "buf @ [comma] @ member_text m"
  have "pack_members ?buf (m2 # ms) = Inr (?buf @ [comma] @ members_text (m2 # ms))"
    by (rule Cons.IH) (use Cons.prems in \<open>simp_all add: member_text_def\<close>)
  moreover have "pack_members buf (m # m2 # ms) = pack_members ?buf (m2 # ms)"
    using Cons.prems char_codes(1) by (cases "k = []") (simp_all add: m member_text_def Let_def)
  ultimately show ?case by simp
qed

lemma pack_text:
  assumes "[] \<notin> fst ` set ms" "length (object_text ms) < jwt_max_buffer"
  shows "pack_members [brace_open] ms = Inr ([brace_open] @ members_text ms)"
proof (cases ms)
  case (Cons m rest)
  obtain k v where m: "m = (k, v)" by fastforce
  let ?buf = "[brace_open] @ member_text m"
  have first: "pack_members [brace_open] (m # rest) = pack_members ?buf rest"
    using assms by (cases rest; cases "k = []") (simp_all add: m Cons member_text_def object_text_def Let_def)
  show ?thesis
  proof (cases rest)
    case Nil
    then show ?thesis using first Cons by simp
  next
    case (Cons m2 ms2)
    have "pack_members ?buf (m2 # ms2) = Inr (?buf @ [comma] @ members_text (m2 # ms2))"
      by (rule pack_more) (use assms Cons \<open>ms = m # rest\<close> in \<open>simp_all add: member_text_def object_text_def\<close>)
    then show ?thesis using first Cons \<open>ms = m # rest\<close> by simp
  qed
qed simp

lemma length_urlencode: "length (base64_urlencode d) = 4 * ((length d + 2) div 3)"
proof -
  have "length (b64_encode_loop t d) = 4 * ((length d + 2) div 3)" for t
  proof (induction t d rule: b64_encode_loop.induct)
    case (1 t a b c r)
    have "(length r + 5) div 3 = (length r + 2) div 3 + 1" by simp
    then show ?case using 1 by (simp add: add.commute)
  qed simp_all
  then show ?thesis by (simp add: base64_urlencode_def)
qed

lemma encode_room:
  assumes "data \<noteq> []" "4 * ((length data + 2) div 3) < room"
  shows "encode_into room data = Inr (strip_padding (base64_urlencode data))"
proof -
  have "0 < length (base64_urlencode data)" using assms(1) by (cases data) (simp_all add: length_urlencode)
  then have "base64_urlencode data \<noteq> []" by blast
  then show ?thesis using assms(2) by (auto simp: encode_into_def length_urlencode Let_def)
qed

lemma strip_shorter: "length (strip_padding e) \<le> length e"
  by (simp add: strip_padding_def) (metis length_dropWhile_le length_rev)

abbreviation jwt_part :: "bytes \<Rightarrow> bytes" where "jwt_part d \<equiv> strip_padding (base64_urlencode d)"

lemma part_bound: "length (jwt_part d) \<le> 4 * ((length d + 2) div 3)"
  using strip_shorter [of "base64_urlencode d"] by (simp add: length_urlencode)

lemma pack_object:
  assumes "[] \<notin> fst ` set ms" "length (object_text ms) < jwt_max_buffer" "4 * ((length (object_text ms) + 2) div 3) < room"
  shows "pack_json_object_base64 room ms = Inr (jwt_part (object_text ms))"
  using pack_text [OF assms(1,2)] encode_room [OF _ assms(3)] by (simp add: pack_json_object_base64_def object_text_def)

text \<open>C34. Signing a token whose texts and signature have at most 49000 bytes together succeeds. The result is
  the base64 of the text of the header, a dot, the base64 of the text of the claims, a dot and the base64 of
  the signature, without padding, and the signature is the one of what stands before the second dot. The members of the header
  and the claims have names that are not empty: the code asserts this of every name it writes.\<close>
theorem jwt_sign_layout:
  assumes "[] \<notin> fst ` set (jw_header j)" "[] \<notin> fst ` set (jw_claims j)"
    and "data = jwt_part (object_text (jw_header j)) @ [dot] @ jwt_part (object_text (jw_claims j))"
    and "sign (jw_privkey j) data = Some sig" "sig \<noteq> []"
    and "length (object_text (jw_header j)) + length (object_text (jw_claims j)) + length sig \<le> 49000"
  shows "\<exists>j'. jwt_sign sign j = Inr j' \<and> jw_b64_data j' = data @ [dot] @ jwt_part sig \<and> jw_cb_data j' = length (jw_b64_data j')
    \<and> jw_signature j' = Some sig \<and> jw_header j' = jw_header j \<and> jw_claims j' = jw_claims j"
proof -
  let ?h = "object_text (jw_header j)" and ?c = "object_text (jw_claims j)"
  have b: "4 * ((n + 2) div 3) \<le> (4 * n + 8) div 3" for n :: nat by presburger
  have lens: "3 * length (jwt_part ?h) \<le> 4 * length ?h + 8" "3 * length (jwt_part ?c) \<le> 4 * length ?c + 8"
      "3 * length (jwt_part sig) \<le> 4 * length sig + 8"
    using part_bound [of ?h] part_bound [of ?c] part_bound [of sig] by linarith+
  have h: "pack_json_object_base64 jwt_max_buffer (jw_header j) = Inr (jwt_part ?h)"
    using assms(6) by (intro pack_object assms(1)) (auto simp: jwt_max_buffer_def)
  have c: "pack_json_object_base64 (jwt_max_buffer - (length (jwt_part ?h) + 1)) (jw_claims j) = Inr (jwt_part ?c)"
    using assms(6) lens by (intro pack_object assms(2)) (auto simp: jwt_max_buffer_def)
  have s: "encode_into (jwt_max_buffer - (length data + 1)) sig = Inr (jwt_part sig)"
    using assms(6) lens by (intro encode_room assms(5)) (auto simp: jwt_max_buffer_def assms(3))
  have sizes: "\<not> jwt_max_buffer \<le> length (jwt_part ?h) + 1" "\<not> jwt_max_buffer < length data + 1"
      "\<not> jwt_max_buffer \<le> length (data @ [dot] @ jwt_part sig)"
    using assms(6) lens by (auto simp: jwt_max_buffer_def assms(3))
  have "jwt_sign sign j = (if jwt_max_buffer < length data + 1 then Inl Abort
      else case sign (jw_privkey j) data of None \<Rightarrow> Inl Abort
        | Some sig \<Rightarrow> andThen (encode_into (jwt_max_buffer - (length data + 1)) sig) (\<lambda>s.
            let out = data @ [dot] @ s in if jwt_max_buffer \<le> length out then Inl Abort
              else Inr (j\<lparr>jw_signature := Some sig, jw_b64_data := out, jw_cb_data := length out\<rparr>)))"
    unfolding jwt_sign_def h andThen_simps if_not_P [OF sizes(1)] c Let_def assms(3) ..
  then have "jwt_sign sign j = Inr (j\<lparr>jw_signature := Some sig, jw_b64_data := data @ [dot] @ jwt_part sig,
      jw_cb_data := length (data @ [dot] @ jwt_part sig)\<rparr>)"
    by (simp only: if_not_P [OF sizes(2)] assms(4) option.case s andThen_simps Let_def if_not_P [OF sizes(3)])
  then show ?thesis by simp
qed

text \<open>A buffer that has to hold more than 65535 characters of base64 is overrun before its length is checked.\<close>

lemma jwt_claims_overrun:
  assumes "[] \<notin> fst ` set (jw_header j)" "[] \<notin> fst ` set (jw_claims j)" "length (object_text (jw_header j)) < 49000"
    and "49152 \<le> length (object_text (jw_claims j))" "length (object_text (jw_claims j)) < jwt_max_buffer"
  shows "jwt_sign sign j = Inl Undefined"
proof -
  let ?h = "object_text (jw_header j)" and ?c = "object_text (jw_claims j)"
  have h: "pack_json_object_base64 jwt_max_buffer (jw_header j) = Inr (jwt_part ?h)"
    using assms(3) by (intro pack_object assms(1)) (auto simp: jwt_max_buffer_def)
  have small: "\<not> jwt_max_buffer \<le> length (jwt_part ?h) + 1"
    using part_bound [of ?h] assms(3) by (auto simp: jwt_max_buffer_def)
  have "65536 \<le> 4 * ((length ?c + 2) div 3)" using assms(4) by presburger
  moreover from this have "base64_urlencode ?c \<noteq> []" by (auto simp: length_urlencode dest: arg_cong [of _ _ length])
  ultimately have "encode_into (jwt_max_buffer - (length (jwt_part ?h) + 1)) ?c = Inl Undefined"
    by (auto simp: encode_into_def length_urlencode Let_def jwt_max_buffer_def)
  then have "pack_json_object_base64 (jwt_max_buffer - (length (jwt_part ?h) + 1)) (jw_claims j) = Inl Undefined"
    using pack_text [OF assms(2,5)] by (simp add: pack_json_object_base64_def object_text_def)
  then show ?thesis unfolding jwt_sign_def h andThen_simps if_not_P [OF small] by simp
qed

section \<open>What the text says\<close>

lemma split_quote:
  assumes "k @ quote # x = k' @ quote # x'" "quote \<notin> set k" "quote \<notin> set k'"
  shows "k = k'" "x = x'"
proof -
  have "takeWhile (\<lambda>c. c \<noteq> quote) (k @ quote # x) = k" "takeWhile (\<lambda>c. c \<noteq> quote) (k' @ quote # x') = k'"
    using assms(2,3) by (simp_all add: takeWhile_append takeWhile_eq_all_conv)
  then show "k = k'" using assms(1) by metis
  then show "x = x'" using assms(1) by simp
qed

lemma members_text_Cons: "members_text (m # ms) = member_text m @ (if ms = [] then [] else comma # members_text ms)"
  by (cases ms) simp_all

lemma members_text_nil: "members_text ms = [] \<longleftrightarrow> ms = []"
  by (cases ms) (simp_all add: members_text_Cons member_text_def)

lemma members_text_inj:
  "members_text ms @ [brace_close] = members_text ns @ [brace_close] \<Longrightarrow>
    \<forall>(k, v) \<in> set ms \<union> set ns. quote \<notin> set k \<and> quote \<notin> set v \<Longrightarrow> ms = ns"
proof (induction ms arbitrary: ns)
  case Nil
  then show ?case by (simp add: members_text_nil)
next
  case (Cons m ms)
  obtain k v where m: "m = (k, v)" by fastforce
  obtain n ns' where ns: "ns = n # ns'" using Cons.prems(1) by (cases ns) (auto simp: members_text_Cons member_text_def)
  obtain k' v' where n: "n = (k', v')" by fastforce
  let ?tail = "\<lambda>xs. if xs = [] then [] else comma # members_text xs"
  have "k @ quote # ([colon, quote] @ v @ [quote] @ ?tail ms) = k' @ quote # ([colon, quote] @ v' @ [quote] @ ?tail ns')"
    using Cons.prems(1) by (simp add: m n ns members_text_Cons member_text_def)
  from split_quote [OF this] have k: "k = k'" and "v @ quote # ?tail ms = v' @ quote # ?tail ns'"
    using Cons.prems(2) by (auto simp: m n ns)
  from split_quote [OF this(2)] have v: "v = v'" and "?tail ms = ?tail ns'"
    using Cons.prems(2) by (auto simp: m n ns)
  then have "members_text ms = members_text ns'" by (auto simp: members_text_nil split: if_splits)
  then have "ms = ns'" using Cons.IH Cons.prems(2) by (auto simp: ns)
  then show ?case using k v by (simp add: m n ns)
qed

lemma map_andThen: "map_sum id f (andThen m g) = andThen m (\<lambda>x. map_sum id f (g x))"
  by (cases m) simp_all

lemma sign_depends:
  assumes "jw_header j = jw_header i" "jw_privkey j = jw_privkey i"
    and "\<And>room. pack_json_object_base64 room (jw_claims j) = pack_json_object_base64 room (jw_claims i)"
  shows "map_sum id jw_b64_data (jwt_sign sign j) = map_sum id jw_b64_data (jwt_sign sign i)"
  unfolding jwt_sign_def Let_def assms map_andThen
  by (simp add: map_andThen if_distrib [of "map_sum id jw_b64_data"] option.case_distrib [of "map_sum id jw_b64_data"]
    cong: if_cong option.case_cong)

lemma members_text_merge:
  "members_text (pre @ [(k, v), (k2, v2)] @ suf) = members_text (pre @ [(k, v @ [quote, comma, quote] @ k2 @ [quote, colon, quote] @ v2)] @ suf)"
  by (induction pre) (simp_all add: members_text_Cons member_text_def)

lemma object_text_inj:
  "object_text ms = object_text ns \<Longrightarrow> \<forall>(k, v) \<in> set ms \<union> set ns. quote \<notin> set k \<and> quote \<notin> set v \<Longrightarrow> ms = ns"
  by (rule members_text_inj) (simp_all add: object_text_def)

lemma pack_by_text:
  assumes "[] \<notin> fst ` set ms" "[] \<notin> fst ` set ns" "object_text ms = object_text ns" "length (object_text ms) < jwt_max_buffer"
  shows "pack_json_object_base64 room ms = pack_json_object_base64 room ns"
  using pack_text [OF assms(1,4)] pack_text [OF assms(2)] assms(3,4) by (simp add: pack_json_object_base64_def object_text_def)

text \<open>The text that is signed does not say what the claims are when they come from outside. Without quotation
  marks in keys and values different claims have different texts; but values are written as they are, so that
  one claim whose value holds a quotation mark, a comma and so on has the text of two claims, and signing either
  gives the same token.\<close>
theorem jwt_claims_not_escaped:
  "(\<forall>ms ns. (\<forall>(k, v) \<in> set ms \<union> set ns. quote \<notin> set k \<and> quote \<notin> set v) \<and> object_text ms = object_text ns \<longrightarrow> ms = ns)
   \<and> (\<forall>sign pre suf k v k2 v2. k \<noteq> [] \<and> k2 \<noteq> [] \<and> [] \<notin> fst ` set (pre @ suf)
       \<and> length (object_text (pre @ [(k, v), (k2, v2)] @ suf)) < jwt_max_buffer \<longrightarrow>
     map_sum id jw_b64_data (jwt_sign sign (j\<lparr>jw_claims := pre @ [(k, v), (k2, v2)] @ suf\<rparr>))
       = map_sum id jw_b64_data (jwt_sign sign (j\<lparr>jw_claims := pre @ [(k, v @ [quote, comma, quote] @ k2 @ [quote, colon, quote] @ v2)] @ suf\<rparr>)))"
proof (intro conjI allI impI)
  fix ms ns assume "(\<forall>(k, v) \<in> set ms \<union> set ns. quote \<notin> set k \<and> quote \<notin> set v) \<and> object_text ms = object_text ns"
  then show "ms = ns" by (intro object_text_inj) blast+
next
  fix sign pre suf k v k2 v2
  assume *: "k \<noteq> [] \<and> k2 \<noteq> [] \<and> [] \<notin> fst ` set (pre @ suf) \<and> length (object_text (pre @ [(k, v), (k2, v2)] @ suf)) < jwt_max_buffer"
  have "object_text (pre @ [(k, v), (k2, v2)] @ suf) = object_text (pre @ [(k, v @ [quote, comma, quote] @ k2 @ [quote, colon, quote] @ v2)] @ suf)"
    unfolding object_text_def members_text_merge ..
  then have "pack_json_object_base64 room (pre @ [(k, v), (k2, v2)] @ suf)
      = pack_json_object_base64 room (pre @ [(k, v @ [quote, comma, quote] @ k2 @ [quote, colon, quote] @ v2)] @ suf)" for room
    using * by (intro pack_by_text) auto
  then show "map_sum id jw_b64_data (jwt_sign sign (j\<lparr>jw_claims := pre @ [(k, v), (k2, v2)] @ suf\<rparr>))
      = map_sum id jw_b64_data (jwt_sign sign (j\<lparr>jw_claims := pre @ [(k, v @ [quote, comma, quote] @ k2 @ [quote, colon, quote] @ v2)] @ suf\<rparr>))"
    by (intro sign_depends) simp_all
qed

text \<open>A token for a user \<open>u\<close>, and one for the user \<open>u","r":"a\<close>.\<close>

definition toy_sign :: "nat \<Rightarrow> bytes \<Rightarrow> bytes option" where
  "toy_sign key data = Some (take 4 data)"

definition toy_token :: "nat json_web_token" where
  "toy_token = jwt_add_claims (json_web_token_init 0) [(ascii ''n'', Some (ascii ''u'')), (ascii ''r'', Some (ascii ''a''))]"

lemma toy_token_facts:
  "jw_header toy_token = [(ascii ''alg'', ascii ''RS256''), (ascii ''typ'', ascii ''JWT'')]"
  "jw_claims toy_token = [(ascii ''n'', ascii ''u''), (ascii ''r'', ascii ''a'')]"
  by (code_simp, code_simp)

theorem jwt_sign_layout_witness:
  "\<exists>j'. jwt_sign toy_sign toy_token = Inr j'
    \<and> jw_b64_data j' = ascii ''eyJhbGciOiJSUzI1NiIsInR5cCI6IkpXVCJ9.eyJuIjoidSIsInIiOiJhIn0.ZXlKaA''"
proof -
  define data where "data = jwt_part (object_text (jw_header toy_token)) @ [dot] @ jwt_part (object_text (jw_claims toy_token))"
  have "data = ascii ''eyJhbGciOiJSUzI1NiIsInR5cCI6IkpXVCJ9.eyJuIjoidSIsInIiOiJhIn0''" unfolding data_def by code_simp
  moreover have "ascii ''eyJhbGciOiJSUzI1NiIsInR5cCI6IkpXVCJ9.eyJuIjoidSIsInIiOiJhIn0'' @ [dot] @ jwt_part (ascii ''eyJh'')
      = ascii ''eyJhbGciOiJSUzI1NiIsInR5cCI6IkpXVCJ9.eyJuIjoidSIsInIiOiJhIn0.ZXlKaA''" by code_simp
  moreover have "toy_sign (jw_privkey toy_token) data = Some (ascii ''eyJh'')" unfolding data_def by code_simp
  moreover have "length (object_text (jw_header toy_token)) + length (object_text (jw_claims toy_token)) + length (ascii ''eyJh'') \<le> 49000"
    "[] \<notin> fst ` set (jw_header toy_token)" "[] \<notin> fst ` set (jw_claims toy_token)" "ascii ''eyJh'' \<noteq> []"
    by (simp_all add: toy_token_facts object_text_def member_text_def ascii_def)
  ultimately show ?thesis using jwt_sign_layout [of toy_token data toy_sign "ascii ''eyJh''"] data_def by auto
qed

theorem jwt_claims_not_escaped_witness:
  "object_text [(ascii ''n'', ascii ''u'')] \<noteq> object_text [(ascii ''n'', ascii ''v'')]
   \<and> map_sum id jw_b64_data (jwt_sign toy_sign toy_token)
     = map_sum id jw_b64_data (jwt_sign toy_sign (toy_token\<lparr>jw_claims := [(ascii ''n'', ascii ''u\",\"r\":\"a'')]\<rparr>))"
proof -
  let ?n = "ascii ''n''" and ?r = "ascii ''r''"
  have plain: "\<forall>(k, v) \<in> set [(?n, ascii ''u'')] \<union> set [(?n, ascii ''v'')]. quote \<notin> set k \<and> quote \<notin> set v" by code_simp
  have differ: "[(?n, ascii ''u'')] \<noteq> [(?n, ascii ''v'')]" by code_simp
  have size: "?n \<noteq> [] \<and> ?r \<noteq> [] \<and> [] \<notin> fst ` set ([] @ [] :: (bytes \<times> bytes) list)
      \<and> length (object_text ([] @ [(?n, ascii ''u''), (?r, ascii ''a'')] @ [])) < jwt_max_buffer"
    by (simp add: object_text_def member_text_def ascii_def jwt_max_buffer_def)
  have merged: "ascii ''u'' @ [quote, comma, quote] @ ?r @ [quote, colon, quote] @ ascii ''a'' = ascii ''u\",\"r\":\"a''" by code_simp
  have self: "toy_token\<lparr>jw_claims := [] @ [(?n, ascii ''u''), (?r, ascii ''a'')] @ []\<rparr> = toy_token"
    using toy_token_facts(2) by (cases toy_token) simp
  note both = jwt_claims_not_escaped [of toy_token]
  have "object_text [(?n, ascii ''u'')] \<noteq> object_text [(?n, ascii ''v'')]"
  proof
    assume "object_text [(?n, ascii ''u'')] = object_text [(?n, ascii ''v'')]"
    from mp [OF spec [OF spec [OF conjunct1 [OF both]]] conjI [OF plain this]] differ show False by contradiction
  qed
  moreover from conjunct2 [OF both, THEN spec, of toy_sign, THEN spec, of "[]", THEN spec, of "[]", THEN spec, of ?n, THEN spec, of "ascii ''u''",
      THEN spec, of ?r, THEN spec, of "ascii ''a''", THEN mp, OF size, unfolded self merged]
  have "map_sum id jw_b64_data (jwt_sign toy_sign toy_token)
     = map_sum id jw_b64_data (jwt_sign toy_sign (toy_token\<lparr>jw_claims := [] @ [(?n, ascii ''u\",\"r\":\"a'')] @ []\<rparr>))" .
  ultimately show ?thesis by (simp only: append_Nil append_Nil2 simp_thms)
qed

end
