(* ===== verification/JsonRpc.thy ===== *)
theory JsonRpc
  imports Encodings
begin

text \<open>
  The client for JSON-RPC (\<open>src/rpc/json-rpc.c\<close>): requests with their history, the request that goes out and
  the response that is parsed as it comes in. JSON objects are nodes with a count of references in an explicit
  store. What json-c parses is the parameter \<open>json_tokener\<close>; what libcurl delivers for a request, its blocks
  and its result, is an argument of the request, as is the identifier that a request without one gets. Options are
  accepted by libcurl. Strings are C strings, without a zero byte.
\<close>

section \<open>JSON objects\<close>

type_synonym 'v json_heap = "nat \<Rightarrow> ('v \<times> nat) option"

definition json_object_get :: "'v json_heap \<Rightarrow> nat \<Rightarrow> 'v json_heap res" where
  "json_object_get js a = (case js a of None \<Rightarrow> Inl Undefined | Some (v, n) \<Rightarrow> Inr (js(a \<mapsto> (v, n + 1))))"

definition json_object_put :: "'v json_heap \<Rightarrow> nat \<Rightarrow> 'v json_heap res" where
  "json_object_put js a =
     (case js a of None \<Rightarrow> Inl Undefined | Some (v, n) \<Rightarrow> Inr (js(a := if n \<le> 1 then None else Some (v, n - 1))))"

text \<open>A null pointer is passed over.\<close>

definition json_put :: "'v json_heap \<Rightarrow> nat option \<Rightarrow> 'v json_heap res" where
  "json_put js p = (case p of None \<Rightarrow> Inr js | Some a \<Rightarrow> json_object_put js a)"

definition json_get :: "'v json_heap \<Rightarrow> nat option \<Rightarrow> 'v json_heap res" where
  "json_get js p = (case p of None \<Rightarrow> Inr js | Some a \<Rightarrow> json_object_get js a)"

definition json_value :: "'v json_heap \<Rightarrow> nat option \<Rightarrow> 'v option res" where
  "json_value js p =
     (case p of None \<Rightarrow> Inr None | Some a \<Rightarrow> (case js a of None \<Rightarrow> Inl Undefined | Some (v, _) \<Rightarrow> Inr (Some v)))"

datatype json_err = Json_success | Json_continue | Json_failed

record ('k, 'v) json_tokener =
  jt_new :: 'k
  jt_parse :: "'k \<Rightarrow> bytes \<Rightarrow> 'v option \<times> json_err \<times> 'k"

text \<open>
  What json-c documents of its tokener for a text with one document, parsed in pieces: it asks for more after a proper
  part of the text, and gives the document with the last piece. \<open>after\<close> is its state after a part of the text.
\<close>

definition takes_text :: "('k, 'v) json_tokener \<Rightarrow> (bytes \<Rightarrow> 'k) \<Rightarrow> bytes \<Rightarrow> 'v \<Rightarrow> bool" where
  "takes_text T after txt doc \<longleftrightarrow> after [] = jt_new T
     \<and> (\<forall>p b r. b \<noteq> [] \<and> r \<noteq> [] \<and> p @ b @ r = txt \<longrightarrow> jt_parse T (after p) b = (None, Json_continue, after (p @ b)))
     \<and> (\<forall>p b. b \<noteq> [] \<and> p @ b = txt \<longrightarrow> (\<exists>k. jt_parse T (after p) b = (Some doc, Json_success, k)))"

text \<open>A tokener that takes a document \<open>[...]\<close> of flat text: an array ends at the bracket that closes it.\<close>

definition flat_array :: "(bytes, bytes) json_tokener" where
  "flat_array = \<lparr>jt_new = [], jt_parse = (\<lambda>k b. if k @ b \<noteq> [] \<and> hd (k @ b) \<noteq> 91 then (None, Json_failed, k @ b)
     else if 93 \<in> set b then (Some (takeWhile (\<lambda>x. x \<noteq> 93) (tl (k @ b))), Json_success, k @ b) else (None, Json_continue, k @ b))\<rparr>"

lemma flat_array_takes:
  assumes "93 \<notin> set xs"
  shows "takes_text flat_array (\<lambda>p. p) (91 # xs @ [93]) xs"
proof -
  have hd: "p @ q = 91 # xs @ [93] \<Longrightarrow> p \<noteq> [] \<Longrightarrow> hd p = 91" for p q by (auto simp: append_eq_Cons_conv)
  have tail: "93 \<notin> set p \<and> 93 \<in> set q \<and> tl (p @ q) = xs @ [93]" if "p @ q = 91 # xs @ [93]" "q \<noteq> []" for p q
  proof -
    note q = that
    have "(p @ butlast q) @ [last q] = (91 # xs) @ [93]" using that by simp
    then have "p @ butlast q = 91 # xs \<and> last q = 93" by (simp only: append1_eq_conv)
    then obtain q' where q': "q = q' @ [93]" "p @ q' = 91 # xs" using q(2) by (metis append_butlast_last_id)
    then have "set p \<subseteq> set (91 # xs)" by (metis Un_upper1 set_append)
    moreover have "tl (p @ q) = xs @ [93]" unfolding q(1) by simp
    ultimately show ?thesis using q' assms by auto
  qed
  show ?thesis
    unfolding takes_text_def
  proof (intro conjI allI impI)
    fix p b r :: bytes
    assume "b \<noteq> [] \<and> r \<noteq> [] \<and> p @ b @ r = 91 # xs @ [93]"
    then show "jt_parse flat_array p b = (None, Json_continue, p @ b)"
      using tail [of "p @ b" r] hd [of "p @ b" r] by (auto simp: flat_array_def)
  next
    fix p b :: bytes
    assume pb: "b \<noteq> [] \<and> p @ b = 91 # xs @ [93]"
    have "takeWhile (\<lambda>x. x \<noteq> 93) (xs @ [93]) = xs" using assms by (induction xs) auto
    then show "\<exists>k. jt_parse flat_array p b = (Some xs, Json_success, k)"
      using tail [of p b] pb by (simp add: flat_array_def)
  qed (simp add: flat_array_def)
qed

section \<open>The context\<close>

record rpc_request =
  rq_id :: bytes
  rq_command :: bytes
  rq_jparams :: "nat option"
  rq_sequence :: nat
  rq_index :: nat

datatype 'v rpc_field = F_string bytes | F_object 'v

text \<open>
  The tree of requests is the list of its pointers; requests and objects are in stores, with the next new
  address. What was sent, where to and for whom, and the responses that were handed on are kept.
\<close>

record ('k, 'v) rpc_cli =
  rc_url :: bytes
  rc_version :: bytes
  rc_async_mode :: bool
  rc_username :: bytes
  rc_password :: bytes
  rc_jtok :: 'k
  rc_jerr :: json_err
  rc_jresponse :: "nat option"
  rc_tree :: "nat list"
  rc_requests :: "nat \<Rightarrow> rpc_request option"
  rc_history :: "nat option list"
  rc_max_history :: nat
  rc_count :: nat
  rc_sequence :: nat
  rc_objects :: "'v json_heap"
  rc_next :: nat
  rc_sent :: "(bytes \<times> bytes \<times> bytes \<times> (bytes \<times> 'v rpc_field) list) list"
  rc_responses :: "'v option list"

definition json_rpc_requests_max_history :: nat where "json_rpc_requests_max_history = 100"

definition bitcoin_cli_context_private_new :: "('k, 'v) json_tokener \<Rightarrow> bytes \<Rightarrow> bool \<Rightarrow> 'v json_heap \<Rightarrow> nat \<Rightarrow> ('k, 'v) rpc_cli" where
  "bitcoin_cli_context_private_new T version async_mode objects new_address =
     \<lparr>rc_url = [], rc_version = version, rc_async_mode = async_mode, rc_username = [], rc_password = [],
      rc_jtok = jt_new T, rc_jerr = Json_success, rc_jresponse = None, rc_tree = [], rc_requests = (\<lambda>_. None),
      rc_history = replicate json_rpc_requests_max_history None, rc_max_history = 0, rc_count = 0, rc_sequence = 0,
      rc_objects = objects, rc_next = new_address, rc_sent = [], rc_responses = []\<rparr>"

text \<open>The objects of the caller and the next new address are arguments.\<close>

definition bitcoin_cli_context_new ::
    "('k, 'v) json_tokener \<Rightarrow> bytes option \<Rightarrow> bool \<Rightarrow> 'v json_heap \<Rightarrow> nat \<Rightarrow> ('k, 'v) rpc_cli" where
  "bitcoin_cli_context_new T version async_mode objects new_address =
     bitcoin_cli_context_private_new T (case version of None \<Rightarrow> ascii ''1.0'' | Some v \<Rightarrow> v) async_mode objects new_address"

definition set_userpass :: "('k, 'v) rpc_cli \<Rightarrow> bytes option \<Rightarrow> bytes option \<Rightarrow> ('k, 'v) rpc_cli" where
  "set_userpass s username password =
     s\<lparr>rc_username := (case username of None \<Rightarrow> rc_username s | Some u \<Rightarrow> take 4095 u),
       rc_password := (case password of None \<Rightarrow> rc_password s | Some p \<Rightarrow> take 4095 p)\<rparr>"

text \<open>The second argument tells whether libcurl takes the address.\<close>

definition set_url :: "('k, 'v) rpc_cli \<Rightarrow> bool \<Rightarrow> bytes option \<Rightarrow> int \<times> ('k, 'v) rpc_cli" where
  "set_url s accepted url =
     (case url of None \<Rightarrow> (-1, s) | Some u \<Rightarrow> if accepted then (0, s\<lparr>rc_url := take 4095 u\<rparr>) else (-1, s))"

section \<open>Requests\<close>

text \<open>Identifiers are compared without regard to case, up to their 100 bytes.\<close>

definition c_tolower :: "byte \<Rightarrow> byte" where
  "c_tolower b = (if 65 \<le> b \<and> b \<le> 90 then b + 32 else b)"

definition id_key :: "bytes \<Rightarrow> bytes" where "id_key i = map c_tolower (take 100 i)"

definition json_rpc_request_data_compare :: "bytes \<Rightarrow> bytes \<Rightarrow> bool" where
  "json_rpc_request_data_compare a b = (id_key a = id_key b)"

text \<open>A search in a tree that holds a freed request is undefined, as the comparisons may follow any of its pointers.\<close>

definition rpc_tsearch :: "('k, 'v) rpc_cli \<Rightarrow> bytes \<Rightarrow> nat option res" where
  "rpc_tsearch s i =
     (if \<exists>a \<in> set (rc_tree s). rc_requests s a = None then Inl Undefined
      else Inr (find (\<lambda>a. json_rpc_request_data_compare (rq_id (the (rc_requests s a))) i) (rc_tree s)))"

definition json_rpc_request_data_free :: "('k, 'v) rpc_cli \<Rightarrow> nat \<Rightarrow> ('k, 'v) rpc_cli res" where
  "json_rpc_request_data_free s a =
     (case rc_requests s a of
        None \<Rightarrow> Inl Undefined
      | Some r \<Rightarrow> andThen (json_put (rc_objects s) (rq_jparams r)) (\<lambda>js.
          Inr (s\<lparr>rc_objects := js, rc_requests := (rc_requests s)(a := None)\<rparr>)))"

text \<open>The entry of a new request in the history, over the one that is there.\<close>

definition enter_history :: "('k, 'v) rpc_cli \<Rightarrow> nat \<Rightarrow> bytes \<Rightarrow> ('k, 'v) rpc_cli res" where
  "enter_history s a i =
     (let m = (if rc_max_history s = 0 then json_rpc_requests_max_history else rc_max_history s);
          index = (rc_count s + 1) mod m;
          s1 = s\<lparr>rc_tree := rc_tree s @ [a],
                rc_requests := (rc_requests s)(a \<mapsto> \<lparr>rq_id = i, rq_command = [], rq_jparams = None, rq_sequence = 0, rq_index = index\<rparr>),
                rc_max_history := m, rc_count := rc_count s + 1\<rparr>
      in andThen (case rc_history s ! index of None \<Rightarrow> Inr s1 | Some old \<Rightarrow> json_rpc_request_data_free s1 old) (\<lambda>s2.
           Inr (s2\<lparr>rc_history := (rc_history s2)[index := Some a]\<rparr>)))"

text \<open>The request of the identifier: a new one or the one in the tree. The identifier made up is an argument.\<close>

definition json_rpc_request_data_new ::
    "('k, 'v) rpc_cli \<Rightarrow> bytes option \<Rightarrow> bytes \<Rightarrow> bytes \<Rightarrow> nat option \<Rightarrow> (nat \<times> ('k, 'v) rpc_cli) res" where
  "json_rpc_request_data_new s id_given uuid command jparams =
     (let i = (case id_given of None \<Rightarrow> uuid | Some g \<Rightarrow> if g = [] then uuid else take 100 g); new = rc_next s;
          s0 = s\<lparr>rc_next := rc_next s + 1\<rparr>
      in andThen (rpc_tsearch s0 i) (\<lambda>found.
         andThen (case found of Some a \<Rightarrow> Inr (a, s0) | None \<Rightarrow> andThen (enter_history s0 new i) (\<lambda>s1. Inr (new, s1))) (\<lambda>(a, s1).
         case rc_requests s1 a of
           None \<Rightarrow> Inl Undefined
         | Some r \<Rightarrow>
             andThen (json_get (rc_objects s1) jparams) (\<lambda>js.
               let r1 = r\<lparr>rq_sequence := rc_sequence s1 + 1, rq_command := take 200 command,
                     rq_jparams := (case jparams of None \<Rightarrow> rq_jparams r | Some p \<Rightarrow> Some p)\<rparr>
               in Inr (a, s1\<lparr>rc_sequence := rc_sequence s1 + 1, rc_requests := (rc_requests s1)(a \<mapsto> r1), rc_objects := js\<rparr>)))))"

section \<open>Responses\<close>

text \<open>A block of the response; the number of bytes that were taken, fewer than there are being an error for libcurl.\<close>

definition on_write_data :: "('k, 'v) json_tokener \<Rightarrow> ('k, 'v) rpc_cli \<Rightarrow> bytes \<Rightarrow> (nat \<times> ('k, 'v) rpc_cli) res" where
  "on_write_data T s block =
     (if block = [] then Inr (0, s)
      else case jt_parse T (rc_jtok s) block of (v, err, k) \<Rightarrow>
        let new = (case v of None \<Rightarrow> None | Some _ \<Rightarrow> Some (rc_next s));
            s1 = (case v of None \<Rightarrow> s\<lparr>rc_jerr := err\<rparr>
              | Some x \<Rightarrow> s\<lparr>rc_jerr := err, rc_objects := (rc_objects s)(rc_next s \<mapsto> (x, 1)), rc_next := rc_next s + 1\<rparr>)
        in case err of
             Json_continue \<Rightarrow> Inr (length block, s1\<lparr>rc_jtok := k\<rparr>)
           | Json_success \<Rightarrow>
               andThen (json_put (rc_objects s1) (rc_jresponse s1)) (\<lambda>js.
                 Inr (length block, s1\<lparr>rc_objects := js, rc_jresponse := new, rc_jtok := jt_new T,
                   rc_responses := (if rc_async_mode s1 then rc_responses s1 @ [v] else rc_responses s1)\<rparr>))
           | Json_failed \<Rightarrow>
               andThen (json_put (rc_objects s1) new) (\<lambda>js. Inr (0, s1\<lparr>rc_objects := js, rc_jtok := jt_new T\<rparr>)))"

text \<open>The blocks in their order; libcurl stops with the error 23 at a block that is not taken.\<close>

fun curl_perform :: "('k, 'v) json_tokener \<Rightarrow> ('k, 'v) rpc_cli \<Rightarrow> bytes list \<Rightarrow> int \<Rightarrow> (int \<times> ('k, 'v) rpc_cli) res" where
  "curl_perform T s [] code = Inr (code, s)"
| "curl_perform T s (block # blocks) code =
     andThen (on_write_data T s block) (\<lambda>(n, s1). if n \<noteq> length block then Inr (23, s1) else curl_perform T s1 blocks code)"

section \<open>A call\<close>

text \<open>
  The object of the request holds the reference to the parameters and is freed at the end, with it the
  reference. The last argument tells whether the caller has a place for the response; then the result has its
  pointer, with a reference of the caller. Reading an identifier or a command that fills its field is undefined.
\<close>

definition rpc_fields :: "('k, 'v) rpc_cli \<Rightarrow> rpc_request \<Rightarrow> (bytes \<times> 'v rpc_field) list res" where
  "rpc_fields s r =
     (if 100 \<le> length (rq_id r) \<or> 200 \<le> length (rq_command r) then Inl Undefined
      else andThen (json_value (rc_objects s) (rq_jparams r)) (\<lambda>params.
        Inr ([(ascii ''jsonrpc'', F_string (rc_version s)), (ascii ''id'', F_string (rq_id r)), (ascii ''method'', F_string (rq_command r))]
          @ (case params of None \<Rightarrow> [] | Some v \<Rightarrow> [(ascii ''params'', F_object v)]))))"

definition rpc_call ::
    "('k, 'v) json_tokener \<Rightarrow> ('k, 'v) rpc_cli \<Rightarrow> bytes option \<Rightarrow> bytes \<Rightarrow> bytes option \<Rightarrow> nat option \<Rightarrow> bytes list \<times> int \<Rightarrow> bool
      \<Rightarrow> (int \<times> nat option \<times> ('k, 'v) rpc_cli) res" where
  "rpc_call T s id_given uuid command jparams delivered wanted =
     andThen (json_rpc_request_data_new s id_given uuid (case command of None \<Rightarrow> ascii ''help'' | Some c \<Rightarrow> c) jparams) (\<lambda>(a, s1).
       let r = the (rc_requests s1 a); url = (if rc_url s1 = [] then ascii ''http://127.0.0.1:18332'' else rc_url s1)
       in andThen (rpc_fields s1 r) (\<lambda>fields.
          andThen (json_put (rc_objects s1) (rc_jresponse s1)) (\<lambda>js.
          andThen (curl_perform T (s1\<lparr>rc_sent := rc_sent s1 @ [(url, rc_username s1, rc_password s1, fields)], rc_jtok := jt_new T,
              rc_objects := js, rc_jresponse := None\<rparr>) (fst delivered) (snd delivered)) (\<lambda>(code, s2).
          andThen (json_put (rc_objects s2) (rq_jparams r)) (\<lambda>js2.
            let s3 = s2\<lparr>rc_objects := js2\<rparr>
            in if code \<noteq> 0 then Inr (-1, None, s3)
               else if wanted then andThen (json_get js2 (rc_jresponse s3)) (\<lambda>js3. Inr (0, rc_jresponse s3, s3\<lparr>rc_objects := js3\<rparr>))
               else if rc_async_mode s3 then Inr (0, None, s3)
               else andThen (json_value js2 (rc_jresponse s3)) (\<lambda>v. Inr (0, None, s3\<lparr>rc_responses := rc_responses s3 @ [v]\<rparr>)))))))"

text \<open>
  The end of the context frees what is in the tree and then the response in hand. What is left are the objects of the
  caller, and the requests that were not freed.
\<close>

fun free_requests :: "('k, 'v) rpc_cli \<Rightarrow> nat list \<Rightarrow> ('k, 'v) rpc_cli res" where
  "free_requests s [] = Inr s"
| "free_requests s (a # as) = andThen (json_rpc_request_data_free s a) (\<lambda>s1. free_requests s1 as)"

definition bitcoin_cli_context_private_free :: "('k, 'v) rpc_cli \<Rightarrow> ('v json_heap \<times> (nat \<Rightarrow> rpc_request option)) res" where
  "bitcoin_cli_context_private_free s =
     andThen (free_requests s (rc_tree s)) (\<lambda>s1.
       andThen (json_put (rc_objects s1) (rc_jresponse s1)) (\<lambda>js. Inr (js, rc_requests s1)))"

definition bitcoin_cli_context_free :: "('k, 'v) rpc_cli \<Rightarrow> ('v json_heap \<times> (nat \<Rightarrow> rpc_request option)) res" where
  "bitcoin_cli_context_free s = bitcoin_cli_context_private_free s"

end
