(* ===== verification/JsonRpcProps.thy ===== *)
theory JsonRpcProps
  imports JsonRpc
begin

text \<open>
  What the client for JSON-RPC does: up to 100 identifiers are remembered with their last call, the 101st
  leaves a freed request in the tree; a response is the same in any blocks; and the context ends by giving back
  references that it does not have.
\<close>

section \<open>Objects\<close>

text \<open>The response in hand is an object that is there, apart from an object \<open>p\<close> of the caller with its references.\<close>

definition objects_ok :: "(nat \<times> 'v \<times> nat) option \<Rightarrow> ('k, 'v) rpc_cli \<Rightarrow> bool" where
  "objects_ok mine s \<longleftrightarrow>
     (case rc_jresponse s of None \<Rightarrow> True | Some q \<Rightarrow> q < rc_next s \<and> rc_objects s q \<noteq> None \<and> map_option fst mine \<noteq> Some q)
     \<and> (case mine of None \<Rightarrow> True | Some (p, e) \<Rightarrow> p < rc_next s \<and> rc_objects s p = Some e)"

text \<open>The part of the context that responses leave alone.\<close>

definition request_part :: "('k, 'v) rpc_cli \<Rightarrow> nat list \<times> (nat \<Rightarrow> rpc_request option) \<times> nat option list \<times> nat \<times> nat \<times> nat" where
  "request_part s = (rc_tree s, rc_requests s, rc_history s, rc_max_history s, rc_count s, rc_sequence s)"

lemma put_live: "js a \<noteq> None \<Longrightarrow> \<exists>js'. json_object_put js a = Inr js' \<and> (\<forall>b. b \<noteq> a \<longrightarrow> js' b = js b)"
  by (auto simp: json_object_put_def)

lemma write_keeps:
  assumes "objects_ok mine s"
  shows "\<exists>n s'. on_write_data T s block = Inr (n, s') \<and> objects_ok mine s' \<and> request_part s' = request_part s \<and> rc_next s \<le> rc_next s'"
proof (cases "block = []")
  case True
  then show ?thesis using assms by (simp add: on_write_data_def)
next
  case False
  obtain v err k where p: "jt_parse T (rc_jtok s) block = (v, err, k)" by (cases "jt_parse T (rc_jtok s) block") auto
  let ?new = "case v of None \<Rightarrow> None | Some _ \<Rightarrow> Some (rc_next s)"
  define s1 where "s1 = (case v of None \<Rightarrow> s\<lparr>rc_jerr := err\<rparr>
    | Some x \<Rightarrow> s\<lparr>rc_jerr := err, rc_objects := (rc_objects s)(rc_next s \<mapsto> (x, 1)), rc_next := rc_next s + 1\<rparr>)"
  have s1: "objects_ok mine s1" "request_part s1 = request_part s" "rc_next s \<le> rc_next s1" "rc_jresponse s1 = rc_jresponse s"
    using assms by (auto simp: s1_def objects_ok_def request_part_def split: option.splits)
  have new: "q < rc_next s1 \<and> rc_objects s1 q \<noteq> None \<and> rc_jresponse s \<noteq> Some q \<and> map_option fst mine \<noteq> Some q"
    if "?new = Some q" for q
    using that assms by (auto simp: s1_def objects_ok_def split: option.splits)
  have eq: "on_write_data T s block = (case err of
       Json_continue \<Rightarrow> Inr (length block, s1\<lparr>rc_jtok := k\<rparr>)
     | Json_success \<Rightarrow> andThen (json_put (rc_objects s1) (rc_jresponse s1)) (\<lambda>js.
         Inr (length block, s1\<lparr>rc_objects := js, rc_jresponse := ?new, rc_jtok := jt_new T,
           rc_responses := (if rc_async_mode s1 then rc_responses s1 @ [v] else rc_responses s1)\<rparr>))
     | Json_failed \<Rightarrow> andThen (json_put (rc_objects s1) ?new) (\<lambda>js. Inr (0, s1\<lparr>rc_objects := js, rc_jtok := jt_new T\<rparr>)))"
    unfolding on_write_data_def if_not_P [OF False] p prod.case Let_def s1_def ..
  show ?thesis
  proof (cases err)
    case Json_continue
    have "objects_ok mine (s1\<lparr>rc_jtok := k\<rparr>) = objects_ok mine s1" "request_part (s1\<lparr>rc_jtok := k\<rparr>) = request_part s1"
      by (auto simp: objects_ok_def request_part_def split: option.split)
    moreover have "on_write_data T s block = Inr (length block, s1\<lparr>rc_jtok := k\<rparr>)" by (simp add: eq Json_continue)
    moreover have "rc_next s \<le> rc_next (s1\<lparr>rc_jtok := k\<rparr>)" using s1(3) by simp
    ultimately show ?thesis using s1(1,2) by metis
  next
    case Json_success
    obtain js where js: "json_put (rc_objects s1) (rc_jresponse s1) = Inr js" "\<forall>b. rc_jresponse s1 \<noteq> Some b \<longrightarrow> js b = rc_objects s1 b"
    proof (cases "rc_jresponse s1")
      case None
      then show ?thesis using that by (auto simp: json_put_def)
    next
      case (Some q)
      then have "rc_objects s1 q \<noteq> None" using s1(1) by (simp add: objects_ok_def)
      with put_live [of "rc_objects s1" q] Some show ?thesis using that by (auto simp: json_put_def)
    qed
    let ?s = "s1\<lparr>rc_objects := js, rc_jresponse := ?new, rc_jtok := jt_new T,
        rc_responses := (if rc_async_mode s1 then rc_responses s1 @ [v] else rc_responses s1)\<rparr>"
    have "on_write_data T s block = Inr (length block, ?s)" by (simp only: eq Json_success json_err.case js(1) andThen_simps)
    moreover have "objects_ok mine ?s"
      using s1(1,4) js(2) new by (auto simp: objects_ok_def split: option.splits)
    moreover have "request_part ?s = request_part s" "rc_next s \<le> rc_next ?s" using s1(2,3) by (simp_all add: request_part_def)
    ultimately show ?thesis by blast
  next
    case Json_failed
    obtain js where js: "json_put (rc_objects s1) ?new = Inr js" "\<forall>b. ?new \<noteq> Some b \<longrightarrow> js b = rc_objects s1 b"
    proof (cases ?new)
      case None
      then show ?thesis using that by (auto simp: json_put_def)
    next
      case (Some q)
      from put_live [of "rc_objects s1" q] new [OF Some] Some show ?thesis using that by (auto simp: json_put_def)
    qed
    let ?s = "s1\<lparr>rc_objects := js, rc_jtok := jt_new T\<rparr>"
    have "on_write_data T s block = Inr (0, ?s)" by (simp only: eq Json_failed json_err.case js(1) andThen_simps)
    moreover have "\<forall>q. rc_jresponse s1 = Some q \<longrightarrow> ?new \<noteq> Some q" using new s1(4) by metis
    then have "objects_ok mine ?s" using s1(1) js(2) new by (auto simp: objects_ok_def split: option.splits)
    moreover have "request_part ?s = request_part s" "rc_next s \<le> rc_next ?s" using s1(2,3) by (simp_all add: request_part_def)
    ultimately show ?thesis by blast
  qed
qed

lemma perform_keeps:
  "objects_ok mine s \<Longrightarrow>
    \<exists>rc s'. curl_perform T s blocks code = Inr (rc, s') \<and> objects_ok mine s' \<and> request_part s' = request_part s \<and> rc_next s \<le> rc_next s'"
proof (induction blocks arbitrary: s)
  case (Cons block blocks)
  obtain n s1 where s1: "on_write_data T s block = Inr (n, s1)" "objects_ok mine s1" "request_part s1 = request_part s" "rc_next s \<le> rc_next s1"
    using write_keeps [OF Cons.prems] by metis
  show ?case
  proof (cases "n = length block")
    case True
    obtain rc s' where "curl_perform T s1 blocks code = Inr (rc, s')" "objects_ok mine s'" "request_part s' = request_part s1" "rc_next s1 \<le> rc_next s'"
      using Cons.IH [OF s1(2)] by metis
    then show ?thesis using s1 True by auto
  qed (use s1 in auto)
qed auto


section \<open>The history of requests\<close>

definition key_at :: "('k, 'v) rpc_cli \<Rightarrow> nat \<Rightarrow> bytes" where
  "key_at s a = id_key (rq_id (the (rc_requests s a)))"

definition call_at :: "('k, 'v) rpc_cli \<Rightarrow> nat \<Rightarrow> bytes \<times> nat \<times> bytes" where
  "call_at s a = (let r = the (rc_requests s a) in (id_key (rq_id r), rq_sequence r, rq_command r))"

text \<open>The number and the command of the last call with an identifier, as the requests in the tree have them.\<close>

definition remembered :: "('k, 'v) rpc_cli \<Rightarrow> bytes \<Rightarrow> (nat \<times> bytes) option" where
  "remembered s = map_of (map (call_at s) (rc_tree s))"

definition history_at :: "nat list \<Rightarrow> nat \<Rightarrow> nat option" where
  "history_at as i = (if i = 0 then (if length as = 100 then Some (as ! 99) else None) else if i \<le> length as then Some (as ! (i - 1)) else None)"

definition request_ok :: "rpc_request \<Rightarrow> bool" where
  "request_ok r \<longleftrightarrow> length (rq_id r) < 100 \<and> length (rq_command r) < 200 \<and> rq_jparams r = None"

definition requests_ok :: "('k, 'v) rpc_cli \<Rightarrow> bool" where
  "requests_ok s \<longleftrightarrow> length (rc_tree s) = rc_count s \<and> rc_count s \<le> 100
     \<and> (rc_max_history s = 100 \<or> rc_max_history s = 0 \<and> rc_count s = 0)
     \<and> distinct (map (key_at s) (rc_tree s))
     \<and> (\<forall>a \<in> set (rc_tree s). a < rc_next s \<and> (\<exists>r. rc_requests s a = Some r \<and> request_ok r))
     \<and> (\<forall>a. rc_requests s a \<noteq> None \<longrightarrow> a \<in> set (rc_tree s))
     \<and> length (rc_history s) = 100 \<and> (\<forall>i < 100. rc_history s ! i = history_at (rc_tree s) i)"

lemma remembered_dom: "dom (remembered s) = key_at s ` set (rc_tree s)"
  by (force simp: remembered_def dom_map_of_conv_image_fst call_at_def key_at_def Let_def image_image)

lemma remembered_count: "requests_ok s \<Longrightarrow> card (dom (remembered s)) = rc_count s"
  using distinct_card [of "map (key_at s) (rc_tree s)"] by (simp add: requests_ok_def remembered_dom)

lemma search_found:
  assumes "requests_ok s"
  shows "rpc_tsearch s i = Inr (find (\<lambda>a. key_at s a = id_key i) (rc_tree s))"
  using assms by (auto simp: rpc_tsearch_def requests_ok_def json_rpc_request_data_compare_def key_at_def)

lemma map_of_change:
  assumes "distinct (map fst xs)" "i < length xs"
  shows "map_of (xs[i := (fst (xs ! i), y)]) = (map_of xs)(fst (xs ! i) \<mapsto> y)"
  using assms
proof (induction xs arbitrary: i)
  case (Cons x xs)
  show ?case
  proof (cases i)
    case 0
    then show ?thesis by (cases x) (simp add: fun_eq_iff)
  next
    case (Suc j)
    have "map_of (xs[j := (fst (xs ! j), y)]) = (map_of xs)(fst (xs ! j) \<mapsto> y)" by (rule Cons.IH) (use Cons.prems Suc in simp_all)
    moreover have "fst x \<noteq> fst (xs ! j)" using Cons.prems Suc by (metis distinct.simps(2) length_map list.simps(9) nth_map nth_mem Suc_less_eq length_Cons)
    ultimately show ?thesis using Suc by (cases x) (auto simp: fun_eq_iff fun_upd_def)
  qed
qed simp

text \<open>Writing the call to a request changes what is remembered for its identifier.\<close>

lemma remembered_update:
  assumes "distinct (map (key_at s) (rc_tree s))" "a \<in> set (rc_tree s)" "rc_requests s a = Some r"
    and "s' = s\<lparr>rc_sequence := m, rc_requests := (rc_requests s)(a \<mapsto> r\<lparr>rq_sequence := n, rq_command := c, rq_jparams := p\<rparr>), rc_objects := js\<rparr>"
  shows "remembered s' = (remembered s)(key_at s a \<mapsto> (n, c))" "map (key_at s') (rc_tree s') = map (key_at s) (rc_tree s)"
proof -
  obtain i where i: "i < length (rc_tree s)" "rc_tree s ! i = a" using assms(2) by (metis in_set_conv_nth)
  have dist: "distinct (rc_tree s)" using assms(1) by (simp add: distinct_map)
  have keys: "map fst (map (call_at s) (rc_tree s)) = map (key_at s) (rc_tree s)" by (simp add: call_at_def key_at_def Let_def)
  have "map (call_at s') (rc_tree s) = (map (call_at s) (rc_tree s))[i := (key_at s a, n, c)]"
    using i dist assms(3) by (intro nth_equalityI) (auto simp: assms(4) call_at_def key_at_def Let_def nth_list_update nth_eq_iff_index_eq)
  moreover have "fst (map (call_at s) (rc_tree s) ! i) = key_at s a" using i by (simp add: call_at_def key_at_def Let_def)
  ultimately show "remembered s' = (remembered s)(key_at s a \<mapsto> (n, c))"
    using map_of_change [of "map (call_at s) (rc_tree s)" i "(n, c)"] i(1) assms(1) unfolding keys by (simp add: remembered_def assms(4))
  show "map (key_at s') (rc_tree s') = map (key_at s) (rc_tree s)" using assms(3) by (simp add: assms(4) key_at_def)
qed

lemma history_room:
  assumes "length as < 100"
  shows "history_at as ((length as + 1) mod 100) = None"
    "i < 100 \<Longrightarrow> history_at (as @ [a]) i = (if i = (length as + 1) mod 100 then Some a else history_at as i)"
proof -
  have "length as = 99 \<or> length as < 99" using assms by linarith
  then show "history_at as ((length as + 1) mod 100) = None" by (auto simp: history_at_def)
  show "i < 100 \<Longrightarrow> history_at (as @ [a]) i = (if i = (length as + 1) mod 100 then Some a else history_at as i)"
    using \<open>length as = 99 \<or> length as < 99\<close> by (auto simp: history_at_def nth_append)
qed

lemma enter_ok:
  assumes "requests_ok s" "rc_count s < 100" "rc_next s = a + 1" "a \<notin> set (rc_tree s)" "length i < 100" "id_key i \<notin> key_at s ` set (rc_tree s)"
  shows "\<exists>s1. enter_history s a i = Inr s1 \<and> requests_ok s1 \<and> rc_tree s1 = rc_tree s @ [a]
    \<and> (\<exists>r. rc_requests s1 a = Some r \<and> rq_id r = i \<and> rq_jparams r = None) \<and> (\<forall>b \<in> set (rc_tree s). call_at s1 b = call_at s b)
    \<and> rc_objects s1 = rc_objects s \<and> rc_jresponse s1 = rc_jresponse s \<and> rc_next s1 = rc_next s \<and> rc_sequence s1 = rc_sequence s"
proof -
  let ?r = "\<lparr>rq_id = i, rq_command = [], rq_jparams = None, rq_sequence = 0, rq_index = (rc_count s + 1) mod 100\<rparr>"
  define s1 where "s1 = s\<lparr>rc_tree := rc_tree s @ [a], rc_requests := (rc_requests s)(a \<mapsto> ?r),
    rc_max_history := 100, rc_count := rc_count s + 1, rc_history := (rc_history s)[(rc_count s + 1) mod 100 := Some a]\<rparr>"
  have len: "length (rc_tree s) = rc_count s" and max: "rc_max_history s = 100 \<or> rc_max_history s = 0"
    and hist: "length (rc_history s) = 100" "\<forall>i < 100. rc_history s ! i = history_at (rc_tree s) i"
    using assms(1) by (auto simp: requests_ok_def)
  have "rc_history s ! ((rc_count s + 1) mod 100) = None" using hist(2) history_room(1) [of "rc_tree s"] assms(2) by (simp add: len)
  then have "enter_history s a i = Inr s1"
    using max by (auto simp: enter_history_def json_rpc_requests_max_history_def s1_def Let_def)
  moreover have keys: "map (key_at s1) (rc_tree s) = map (key_at s) (rc_tree s)" using assms(4) by (auto simp: s1_def key_at_def)
  have tree: "rc_tree s1 = rc_tree s @ [a]" and new: "key_at s1 a = id_key i" by (simp_all add: s1_def key_at_def)
  have "requests_ok s1"
    unfolding requests_ok_def
  proof (intro conjI ballI allI impI)
    show "distinct (map (key_at s1) (rc_tree s1))"
    proof -
      have "map (key_at s1) (rc_tree s1) = map (key_at s) (rc_tree s) @ [id_key i]"
        unfolding tree map_append keys by (simp add: new)
      then show ?thesis using assms(1,6) by (simp add: requests_ok_def)
    qed
    show "rc_history s1 ! j = history_at (rc_tree s1) j" if "j < 100" for j
      using that hist history_room(2) [of "rc_tree s" j a] assms(2) by (auto simp: s1_def len nth_list_update)
  qed (use assms len hist in \<open>auto simp: s1_def requests_ok_def request_ok_def\<close>)
  moreover have "\<forall>b \<in> set (rc_tree s). call_at s1 b = call_at s b" using assms(4) by (auto simp: s1_def call_at_def)
  ultimately show ?thesis by (intro exI [of _ s1]) (simp add: s1_def)
qed

lemma next_address [simp]:
  "key_at (s\<lparr>rc_next := n\<rparr>) = key_at s" "remembered (s\<lparr>rc_next := n\<rparr>) = remembered s"
proof -
  have "call_at (s\<lparr>rc_next := n\<rparr>) = call_at s" by (simp add: call_at_def fun_eq_iff)
  then show "remembered (s\<lparr>rc_next := n\<rparr>) = remembered s" by (simp add: remembered_def)
qed (simp add: key_at_def fun_eq_iff)

text \<open>The call of one identifier without parameters: it is remembered, and nothing else changes.\<close>

lemma data_new_ok:
  assumes "requests_ok s" "length i < 100" "length command < 200" "i = (case given of None \<Rightarrow> uuid | Some g \<Rightarrow> if g = [] then uuid else g)"
    and "id_key i \<in> dom (remembered s) \<or> rc_count s < 100"
  shows "\<exists>a s1. json_rpc_request_data_new s given uuid command None = Inr (a, s1) \<and> requests_ok s1 \<and> rc_sequence s1 = rc_sequence s + 1
    \<and> remembered s1 = (remembered s)(id_key i \<mapsto> (rc_sequence s + 1, command))
    \<and> (\<exists>r. rc_requests s1 a = Some r \<and> request_ok r)
    \<and> rc_objects s1 = rc_objects s \<and> rc_jresponse s1 = rc_jresponse s \<and> rc_next s1 = rc_next s + 1"
proof -
  let ?new = "rc_next s"
  let ?s0 = "s\<lparr>rc_next := rc_next s + 1\<rparr>"
  have i: "i = (case given of None \<Rightarrow> uuid | Some g \<Rightarrow> if g = [] then uuid else take 100 g)"
    using assms(2,4) by (auto split: option.splits)
  have ok0: "requests_ok ?s0" using assms(1) by (auto simp: requests_ok_def)
  have same0: "remembered ?s0 = remembered s" "key_at ?s0 = key_at s" by simp_all
  have "\<exists>a s1 r. (case find (\<lambda>a. key_at ?s0 a = id_key i) (rc_tree ?s0) of
        Some a \<Rightarrow> Inr (a, ?s0) | None \<Rightarrow> andThen (enter_history ?s0 ?new i) (\<lambda>s1. Inr (?new, s1))) = Inr (a, s1)
      \<and> requests_ok s1 \<and> a \<in> set (rc_tree s1) \<and> rc_requests s1 a = Some r \<and> length (rq_id r) < 100 \<and> rq_jparams r = None
      \<and> key_at s1 a = id_key i \<and> (\<forall>v. (remembered s1)(id_key i \<mapsto> v) = (remembered s)(id_key i \<mapsto> v))
      \<and> rc_objects s1 = rc_objects s \<and> rc_jresponse s1 = rc_jresponse s \<and> rc_next s1 = rc_next s + 1 \<and> rc_sequence s1 = rc_sequence s"
  proof (cases "find (\<lambda>a. key_at ?s0 a = id_key i) (rc_tree ?s0)")
    case (Some a)
    then have a: "a \<in> set (rc_tree s)" "key_at s a = id_key i" by (auto simp: find_Some_iff key_at_def)
    then obtain r where "rc_requests s a = Some r" "request_ok r" using assms(1) by (auto simp: requests_ok_def)
    then show ?thesis using Some ok0 a same0 by (intro exI [of _ a] exI [of _ ?s0] exI [of _ r]) (simp add: request_ok_def)
  next
    case None
    then have fresh: "id_key i \<notin> key_at ?s0 ` set (rc_tree ?s0)" by (auto simp: find_None_iff)
    then have "id_key i \<notin> dom (remembered s)" by (simp add: remembered_dom same0(2))
    then have "rc_count ?s0 < 100" using assms(5) by simp
    moreover have "?new \<notin> set (rc_tree ?s0)" using assms(1) by (auto simp: requests_ok_def)
    ultimately obtain s1 r where s1: "enter_history ?s0 ?new i = Inr s1" "requests_ok s1" "rc_tree s1 = rc_tree ?s0 @ [?new]"
        "rc_requests s1 ?new = Some r" "rq_id r = i" "rq_jparams r = None" "\<forall>b \<in> set (rc_tree ?s0). call_at s1 b = call_at ?s0 b"
        "rc_objects s1 = rc_objects ?s0" "rc_jresponse s1 = rc_jresponse ?s0" "rc_next s1 = rc_next ?s0" "rc_sequence s1 = rc_sequence ?s0"
      using enter_ok [OF ok0 _ _ _ assms(2) fresh, of ?new] by auto
    have "map (call_at s1) (rc_tree s) = map (call_at s) (rc_tree s)" using s1(7) by (simp add: call_at_def)
    moreover have "rc_tree s1 = rc_tree s @ [?new]" using s1(3) by simp
    ultimately have "remembered s1 = map_of (map (call_at s) (rc_tree s) @ [call_at s1 ?new])"
      unfolding remembered_def by (simp only: map_append list.map)
    then have "(remembered s1)(id_key i \<mapsto> v) = (remembered s)(id_key i \<mapsto> v)" for v
      using s1(4,5) by (auto simp: remembered_def call_at_def Let_def fun_eq_iff map_add_def split: option.splits)
    then show ?thesis using None s1 assms(2) by (intro exI [of _ ?new] exI [of _ s1] exI [of _ r]) (simp add: key_at_def)
  qed
  then obtain a s1 r where 1: "(case find (\<lambda>a. key_at ?s0 a = id_key i) (rc_tree ?s0) of
        Some a \<Rightarrow> Inr (a, ?s0) | None \<Rightarrow> andThen (enter_history ?s0 ?new i) (\<lambda>s1. Inr (?new, s1))) = Inr (a, s1)"
      and ok1: "requests_ok s1" and a: "a \<in> set (rc_tree s1)" "rc_requests s1 a = Some r" "length (rq_id r) < 100" "rq_jparams r = None" "key_at s1 a = id_key i"
      and m: "\<forall>v. (remembered s1)(id_key i \<mapsto> v) = (remembered s)(id_key i \<mapsto> v)"
      and rest: "rc_objects s1 = rc_objects s" "rc_jresponse s1 = rc_jresponse s" "rc_next s1 = rc_next s + 1" "rc_sequence s1 = rc_sequence s"
    by metis
  let ?r = "r\<lparr>rq_sequence := rc_sequence s + 1, rq_command := command, rq_jparams := None\<rparr>"
  let ?s = "s1\<lparr>rc_sequence := rc_sequence s + 1, rc_requests := (rc_requests s1)(a \<mapsto> ?r), rc_objects := rc_objects s\<rparr>"
  have "r\<lparr>rq_jparams := None\<rparr> = r" using a(4) by simp
  then have "json_rpc_request_data_new s given uuid command None = Inr (a, ?s)"
    unfolding json_rpc_request_data_new_def Let_def i [symmetric] search_found [OF ok0] andThen_simps 1 prod.case a(2) option.case
    using a(4) rest(1,4) assms(3) by (simp add: json_get_def)
  moreover have dist: "distinct (map (key_at s1) (rc_tree s1))" using ok1 by (simp add: requests_ok_def)
  note upd = remembered_update [OF dist a(1,2) refl, where m = "rc_sequence s + 1" and n = "rc_sequence s + 1" and c = command
    and p = None and js = "rc_objects s"]
  have "request_ok ?r" using a(3) assms(3) by (simp add: request_ok_def)
  moreover have "requests_ok ?s"
    unfolding requests_ok_def upd(2) using ok1 a(1-3) assms(3) by (auto simp: requests_ok_def request_ok_def)
  ultimately show ?thesis using upd(1) m a(5) rest by (intro exI [of _ a] exI [of _ ?s]) simp
qed


section \<open>Calls\<close>

lemma part_kept:
  assumes "request_part s' = request_part s" "rc_next s \<le> rc_next s'"
  shows "requests_ok s \<Longrightarrow> requests_ok s'" "remembered s' = remembered s" "rc_sequence s' = rc_sequence s" "rc_count s' = rc_count s"
    "rc_tree s' = rc_tree s" "rc_requests s' = rc_requests s"
proof -
  have f: "rc_tree s' = rc_tree s" "rc_requests s' = rc_requests s" "rc_history s' = rc_history s" "rc_max_history s' = rc_max_history s"
      "rc_count s' = rc_count s" "rc_sequence s' = rc_sequence s"
    using assms(1) by (simp_all add: request_part_def)
  have k: "key_at s' = key_at s" "call_at s' = call_at s" by (simp_all add: fun_eq_iff key_at_def call_at_def f(2))
  show "requests_ok s \<Longrightarrow> requests_ok s'" using assms(2) unfolding requests_ok_def f k by fastforce
  show "remembered s' = remembered s" by (simp add: remembered_def f k)
qed (use assms in \<open>simp_all add: request_part_def\<close>)

text \<open>The end of a call, from what libcurl reports.\<close>

definition call_end :: "bool \<Rightarrow> nat option \<Rightarrow> int \<times> ('k, 'v) rpc_cli \<Rightarrow> (int \<times> nat option \<times> ('k, 'v) rpc_cli) res" where
  "call_end wanted params = (\<lambda>(code, s2).
     andThen (json_put (rc_objects s2) params) (\<lambda>js2.
       let s3 = s2\<lparr>rc_objects := js2\<rparr>
       in if code \<noteq> 0 then Inr (-1, None, s3)
          else if wanted then andThen (json_get js2 (rc_jresponse s3)) (\<lambda>js3. Inr (0, rc_jresponse s3, s3\<lparr>rc_objects := js3\<rparr>))
          else if rc_async_mode s3 then Inr (0, None, s3)
          else andThen (json_value js2 (rc_jresponse s3)) (\<lambda>v. Inr (0, None, s3\<lparr>rc_responses := rc_responses s3 @ [v]\<rparr>))))"

text \<open>What comes after the request has been entered, with its parameters or without.\<close>

lemma call_sent:
  assumes "json_rpc_request_data_new s given uuid (case command of None \<Rightarrow> ascii ''help'' | Some c \<Rightarrow> c) jparams = Inr (a, s1)"
    and "rc_requests s1 a = Some r" "length (rq_id r) < 100" "length (rq_command r) < 200"
    and "case rq_jparams r of None \<Rightarrow> True | Some p \<Rightarrow> \<exists>v n. mine = Some (p, v, n)" "objects_ok mine s1"
  shows "\<exists>t. rpc_call T s given uuid command jparams delivered wanted
      = andThen (curl_perform T t (fst delivered) (snd delivered)) (call_end wanted (rq_jparams r))
    \<and> objects_ok mine t \<and> request_part t = request_part s1 \<and> rc_next t = rc_next s1
    \<and> rc_jtok t = jt_new T \<and> rc_jresponse t = None \<and> rc_async_mode t = rc_async_mode s1 \<and> rc_responses t = rc_responses s1"
proof -
  have "\<exists>x. json_value (rc_objects s1) (rq_jparams r) = Inr x"
    using assms(5,6) by (auto simp: json_value_def objects_ok_def split: option.splits)
  then obtain fields where fields: "rpc_fields s1 r = Inr fields" using assms(3,4) by (auto simp: rpc_fields_def)
  let ?url = "if rc_url s1 = [] then ascii ''http://127.0.0.1:18332'' else rc_url s1"
  obtain js where js: "json_put (rc_objects s1) (rc_jresponse s1) = Inr js" "\<forall>b. rc_jresponse s1 \<noteq> Some b \<longrightarrow> js b = rc_objects s1 b"
  proof (cases "rc_jresponse s1")
    case None
    then show ?thesis using that by (auto simp: json_put_def)
  next
    case (Some q)
    then have "rc_objects s1 q \<noteq> None" using assms(6) by (simp add: objects_ok_def)
    with put_live [of "rc_objects s1" q] Some show ?thesis using that by (auto simp: json_put_def)
  qed
  define t where "t = s1\<lparr>rc_sent := rc_sent s1 @ [(?url, rc_username s1, rc_password s1, fields)], rc_jtok := jt_new T,
    rc_objects := js, rc_jresponse := None\<rparr>"
  have "rpc_call T s given uuid command jparams delivered wanted
      = andThen (curl_perform T t (fst delivered) (snd delivered)) (call_end wanted (rq_jparams r))"
    unfolding rpc_call_def assms(1) andThen_simps prod.case Let_def assms(2) option.sel fields js(1) t_def [symmetric] call_end_def ..
  moreover have "objects_ok mine t" "request_part t = request_part s1" "rc_next t = rc_next s1"
    using assms(6) js(2) by (auto simp: t_def objects_ok_def request_part_def split: option.splits)
  ultimately show ?thesis by (intro exI [of _ t]) (simp add: t_def)
qed

lemma call_rest:
  assumes "json_rpc_request_data_new s given uuid (case command of None \<Rightarrow> ascii ''help'' | Some c \<Rightarrow> c) jparams = Inr (a, s1)"
    and "rc_requests s1 a = Some r" "length (rq_id r) < 100" "length (rq_command r) < 200"
    and "case rq_jparams r of None \<Rightarrow> mine = None | Some p \<Rightarrow> \<exists>v n. mine = Some (p, v, n + 1) \<and> 0 < n" "objects_ok mine s1"
  shows "\<exists>rc p s2. rpc_call T s given uuid command jparams delivered wanted = Inr (rc, p, s2) \<and> request_part s2 = request_part s1
    \<and> rc_next s1 \<le> rc_next s2 \<and> objects_ok (map_option (\<lambda>(p, v, n). (p, v, n - 1)) mine) s2"
proof -
  obtain t where t: "objects_ok mine t" "request_part t = request_part s1" "rc_next t = rc_next s1"
      "rpc_call T s given uuid command jparams delivered wanted
        = andThen (curl_perform T t (fst delivered) (snd delivered)) (call_end wanted (rq_jparams r))"
    using call_sent [OF assms(1-4) _ assms(6)] assms(5) by (fastforce split: option.splits)
  obtain code s2 where s2: "curl_perform T t (fst delivered) (snd delivered) = Inr (code, s2)" "objects_ok mine s2"
      "request_part s2 = request_part t" "rc_next t \<le> rc_next s2"
    using perform_keeps [OF t(1)] by metis
  obtain js2 where js2: "json_put (rc_objects s2) (rq_jparams r) = Inr js2"
      "objects_ok (map_option (\<lambda>(p, v, n). (p, v, n - 1)) mine) (s2\<lparr>rc_objects := js2\<rparr>)"
    using assms(5) s2(2) that by (cases "rq_jparams r") (auto simp: json_put_def json_object_put_def objects_ok_def split: option.splits)
  let ?mine = "map_option (\<lambda>(p, v, n). (p, v, n - 1)) mine"
  have live: "\<exists>js3. json_get js2 (rc_jresponse s2) = Inr js3 \<and> objects_ok ?mine (s2\<lparr>rc_objects := js3\<rparr>)"
      "\<exists>v. json_value js2 (rc_jresponse s2) = Inr v"
    using js2(2) by (auto simp: json_get_def json_object_get_def json_value_def objects_ok_def split: option.splits)
  have parts: "request_part (s2\<lparr>rc_objects := x\<rparr>) = request_part s1" "rc_next s1 \<le> rc_next s2" for x
    using s2(3,4) t(2,3) by (simp_all add: request_part_def)
  have resp: "objects_ok ?mine (x\<lparr>rc_responses := y\<rparr>) = objects_ok ?mine x" "request_part (x\<lparr>rc_responses := y\<rparr>) = request_part x" for x :: "('a, 'b) rpc_cli" and y
    by (auto simp: objects_ok_def request_part_def split: option.split)
  obtain js3 v where "json_get js2 (rc_jresponse s2) = Inr js3" "objects_ok ?mine (s2\<lparr>rc_objects := js3\<rparr>)" "json_value js2 (rc_jresponse s2) = Inr v"
    using live by blast
  then show ?thesis using parts js2(2) resp by (simp add: t(4) s2(1) call_end_def js2(1) Let_def)
qed


text \<open>A call without parameters: the request is remembered, whatever is delivered.\<close>

definition call_id :: "bytes option \<times> bytes \<times> bytes option \<times> bytes list \<times> int \<times> bool \<Rightarrow> bytes" where
  "call_id = (\<lambda>(given, uuid, _). case given of None \<Rightarrow> uuid | Some g \<Rightarrow> if g = [] then uuid else g)"

definition call_command :: "bytes option \<times> bytes \<times> bytes option \<times> bytes list \<times> int \<times> bool \<Rightarrow> bytes" where
  "call_command = (\<lambda>(_, _, command, _). case command of None \<Rightarrow> ascii ''help'' | Some c \<Rightarrow> c)"

fun rpc_calls ::
    "('k, 'v) json_tokener \<Rightarrow> ('k, 'v) rpc_cli \<Rightarrow> (bytes option \<times> bytes \<times> bytes option \<times> bytes list \<times> int \<times> bool) list
      \<Rightarrow> ('k, 'v) rpc_cli res" where
  "rpc_calls T s [] = Inr s"
| "rpc_calls T s ((given, uuid, command, blocks, code, wanted) # cs) =
     andThen (rpc_call T s given uuid command None (blocks, code) wanted) (\<lambda>(_, _, s1). rpc_calls T s1 cs)"

lemma call_ok:
  assumes "requests_ok s" "objects_ok None s" "length (call_id c) < 100" "length (call_command c) < 200"
    and "id_key (call_id c) \<in> dom (remembered s) \<or> rc_count s < 100" "c = (given, uuid, command, blocks, code, wanted)"
  shows "\<exists>rc p s2. rpc_call T s given uuid command None (blocks, code) wanted = Inr (rc, p, s2) \<and> requests_ok s2 \<and> objects_ok None s2
    \<and> rc_sequence s2 = rc_sequence s + 1 \<and> remembered s2 = (remembered s)(id_key (call_id c) \<mapsto> (rc_sequence s + 1, call_command c))"
proof -
  let ?command = "case command of None \<Rightarrow> ascii ''help'' | Some c \<Rightarrow> c"
  have c: "call_id c = (case given of None \<Rightarrow> uuid | Some g \<Rightarrow> if g = [] then uuid else g)" "call_command c = ?command"
    by (simp_all add: call_id_def call_command_def assms(6))
  obtain a s1 r where s1: "json_rpc_request_data_new s given uuid ?command None = Inr (a, s1)" "requests_ok s1"
      "rc_sequence s1 = rc_sequence s + 1" "remembered s1 = (remembered s)(id_key (call_id c) \<mapsto> (rc_sequence s + 1, call_command c))"
      "rc_requests s1 a = Some r" "request_ok r" "rc_objects s1 = rc_objects s" "rc_jresponse s1 = rc_jresponse s" "rc_next s1 = rc_next s + 1"
    using data_new_ok [OF assms(1,3,4) c(1) assms(5)] unfolding c(2) by metis
  have "objects_ok None s1" using assms(2) by (auto simp: objects_ok_def s1(7-9) split: option.splits)
  then obtain rc p s2 where "rpc_call T s given uuid command None (blocks, code) wanted = Inr (rc, p, s2)" "request_part s2 = request_part s1"
      "rc_next s1 \<le> rc_next s2" "objects_ok None s2"
    using call_rest [OF s1(1) s1(5), of None T "(blocks, code)" wanted] s1(6) by (auto simp: request_ok_def)
  with part_kept [of s2 s1] s1 show ?thesis by metis
qed

lemma calls_ok:
  assumes "requests_ok s" "objects_ok None s" "\<forall>c \<in> set cs. length (call_id c) < 100 \<and> length (call_command c) < 200"
    and "card (dom (remembered s) \<union> (id_key \<circ> call_id) ` set cs) \<le> 100"
  shows "\<exists>s2. rpc_calls T s cs = Inr s2 \<and> requests_ok s2 \<and> objects_ok None s2 \<and> rc_sequence s2 = rc_sequence s + length cs
    \<and> remembered s2 = remembered s ++ map_of (rev (map (\<lambda>(n, c). (id_key (call_id c), n, call_command c)) (enumerate (rc_sequence s + 1) cs)))"
  using assms
proof (induction cs arbitrary: s)
  case (Cons c cs)
  obtain given uuid command blocks code wanted where c: "c = (given, uuid, command, blocks, code, wanted)" by (cases c) auto
  let ?k = "id_key (call_id c)"
  have fin: "finite (dom (remembered s))" by (simp add: remembered_dom)
  have "?k \<in> dom (remembered s) \<or> rc_count s < 100"
  proof (rule disjCI)
    assume "\<not> rc_count s < 100"
    then have "100 \<le> card (dom (remembered s))" using remembered_count [OF Cons.prems(1)] by simp
    then have "dom (remembered s) = dom (remembered s) \<union> (id_key \<circ> call_id) ` set (c # cs)"
      using Cons.prems(4) fin by (intro card_seteq) auto
    then show "?k \<in> dom (remembered s)" by auto
  qed
  then obtain rc p s1 where s1: "rpc_call T s given uuid command None (blocks, code) wanted = Inr (rc, p, s1)" "requests_ok s1" "objects_ok None s1"
      "rc_sequence s1 = rc_sequence s + 1" "remembered s1 = (remembered s)(?k \<mapsto> (rc_sequence s + 1, call_command c))"
    using call_ok [OF Cons.prems(1,2) _ _ _ c, where T = T] Cons.prems(3) by (metis list.set_intros(1))
  have "dom (remembered s1) \<union> (id_key \<circ> call_id) ` set cs = dom (remembered s) \<union> (id_key \<circ> call_id) ` set (c # cs)"
    by (auto simp: s1(5))
  then obtain s2 where "rpc_calls T s1 cs = Inr s2" "requests_ok s2" "objects_ok None s2" "rc_sequence s2 = rc_sequence s1 + length cs"
      "remembered s2 = remembered s1 ++ map_of (rev (map (\<lambda>(n, c). (id_key (call_id c), n, call_command c)) (enumerate (rc_sequence s1 + 1) cs)))"
    using Cons.IH [OF s1(2,3)] Cons.prems(3,4) by auto
  then show ?case using s1 by (simp add: c map_add_upd_left map_add_def fun_eq_iff split: option.split)
qed simp

lemma requests_end:
  "requests_ok s \<Longrightarrow> distinct (rc_tree s) \<and> (\<forall>a \<in> set (rc_tree s). \<exists>r. rc_requests s a = Some r \<and> rq_jparams r = None)"
  by (auto simp: requests_ok_def request_ok_def distinct_map)

lemma free_requests_ok:
  assumes "distinct as" "\<forall>a \<in> set as. \<exists>r. rc_requests s a = Some r \<and> rq_jparams r = None"
  shows "\<exists>s2. free_requests s as = Inr s2 \<and> rc_objects s2 = rc_objects s \<and> rc_jresponse s2 = rc_jresponse s
    \<and> rc_requests s2 = rc_requests s |` (- set as)"
  using assms
proof (induction as arbitrary: s)
  case (Cons a as)
  obtain r where r: "rc_requests s a = Some r" "rq_jparams r = None" using Cons.prems(2) by auto
  let ?s = "s\<lparr>rc_objects := rc_objects s, rc_requests := (rc_requests s)(a := None)\<rparr>"
  have "\<forall>b \<in> set as. \<exists>r. rc_requests ?s b = Some r \<and> rq_jparams r = None" "distinct as" using Cons.prems by auto
  then obtain s2 where s2: "free_requests ?s as = Inr s2" "rc_objects s2 = rc_objects s" "rc_jresponse s2 = rc_jresponse s"
      "rc_requests s2 = (rc_requests s)(a := None) |` (- set as)"
    using Cons.IH [of ?s] by (auto simp del: fun_upd_apply)
  have "(rc_requests s)(a := None) |` (- set as) = rc_requests s |` (- set (a # as))"
    by (auto simp: restrict_map_def fun_eq_iff)
  moreover have "free_requests s (a # as) = free_requests ?s as" using r by (simp add: json_rpc_request_data_free_def json_put_def)
  ultimately show ?case using s2 by simp
qed (simp add: restrict_map_def fun_eq_iff)


section \<open>What the client promises\<close>

text \<open>The last of the calls with an identifier: its number and its command.\<close>

definition last_call :: "(bytes option \<times> bytes \<times> bytes option \<times> bytes list \<times> int \<times> bool) list \<Rightarrow> bytes \<Rightarrow> (nat \<times> bytes) option" where
  "last_call cs i = map_option (\<lambda>(n, c). (n, call_command c))
     (find (\<lambda>(n, c). json_rpc_request_data_compare (call_id c) i) (rev (enumerate 1 cs)))"

definition short_calls :: "(bytes option \<times> bytes \<times> bytes option \<times> bytes list \<times> int \<times> bool) list \<Rightarrow> bool" where
  "short_calls cs \<longleftrightarrow> (\<forall>c \<in> set cs. length (call_id c) < 100 \<and> length (call_command c) < 200)"

definition call_ids :: "(bytes option \<times> bytes \<times> bytes option \<times> bytes list \<times> int \<times> bool) list \<Rightarrow> bytes set" where
  "call_ids cs = (id_key \<circ> call_id) ` set cs"

lemma map_of_find: "map_of (map (\<lambda>x. (k x, v x)) xs) i = map_option v (find (\<lambda>x. k x = i) xs)"
  by (induction xs) auto

lemma new_context_ok:
  "requests_ok (bitcoin_cli_context_new T version async_mode js n)" "objects_ok None (bitcoin_cli_context_new T version async_mode js n)"
  "remembered (bitcoin_cli_context_new T version async_mode js n) = (\<lambda>_. None)" "rc_sequence (bitcoin_cli_context_new T version async_mode js n) = 0"
  "rc_tree (bitcoin_cli_context_new T version async_mode js n) = []"
  by (simp_all add: bitcoin_cli_context_new_def bitcoin_cli_context_private_new_def requests_ok_def objects_ok_def remembered_def
      history_at_def json_rpc_requests_max_history_def)

lemma calls_from_new:
  assumes "short_calls cs" "card (call_ids cs) \<le> 100"
  shows "\<exists>s. rpc_calls T (bitcoin_cli_context_new T version async_mode js n) cs = Inr s \<and> requests_ok s \<and> objects_ok None s
    \<and> rc_sequence s = length cs \<and> (\<forall>i. remembered s (id_key i) = last_call cs i) \<and> dom (remembered s) = call_ids cs"
proof -
  let ?s = "bitcoin_cli_context_new T version async_mode js n"
  let ?m = "map_of (rev (map (\<lambda>(n, c). (id_key (call_id c), n, call_command c)) (enumerate 1 cs)))"
  have "\<exists>s. rpc_calls T ?s cs = Inr s \<and> requests_ok s \<and> objects_ok None s \<and> rc_sequence s = rc_sequence ?s + length cs
      \<and> remembered s = remembered ?s ++ map_of (rev (map (\<lambda>(n, c). (id_key (call_id c), n, call_command c)) (enumerate (rc_sequence ?s + 1) cs)))"
    by (rule calls_ok [OF new_context_ok(1,2)]) (use assms in \<open>simp_all add: short_calls_def call_ids_def new_context_ok(3)\<close>)
  then obtain s where s: "rpc_calls T ?s cs = Inr s" "requests_ok s" "objects_ok None s" "rc_sequence s = length cs" "remembered s = ?m"
    unfolding new_context_ok(3,4) by auto
  have m: "?m i = map_option (\<lambda>(n, c). (n, call_command c)) (find (\<lambda>(n, c). id_key (call_id c) = i) (rev (enumerate 1 cs)))" for i
    using map_of_find [of "\<lambda>(n, c). id_key (call_id c)" "\<lambda>(n, c). (n, call_command c)" "rev (enumerate 1 cs)" i]
    by (simp add: rev_map case_prod_beta')
  have "fst ` set (rev (map (\<lambda>(n, c). (id_key (call_id c), n, call_command c)) (enumerate 1 cs))) = (id_key \<circ> call_id) ` snd ` set (enumerate 1 cs)"
    by (simp add: image_image case_prod_beta')
  also have "snd ` set (enumerate 1 cs) = set cs" by (metis map_snd_enumerate set_map)
  finally have "dom ?m = call_ids cs" by (simp add: dom_map_of_conv_image_fst call_ids_def)
  moreover have "\<forall>i. ?m (id_key i) = last_call cs i" unfolding m last_call_def json_rpc_request_data_compare_def by simp
  ultimately show ?thesis using s by auto
qed


text \<open>C31. Calls without parameters, with up to 100 different identifiers in all, in any order and as often as wanted,
  whatever the server delivers: no call is undefined, and each is remembered, also one that returns -1 for an error of libcurl or for a text
  that is not JSON. A search in the tree of requests then finds for an identifier, whatever the case of
  its letters, the number and the command of the last call with it, and nothing when there is none. The end of the
  context frees every request, each once. The identifiers are shorter than 100 bytes and the commands shorter
  than 200, since longer ones are read past the end of their field.\<close>

theorem rpc_requests_remembered:
  assumes "short_calls cs" "card (call_ids cs) \<le> 100"
  shows "\<exists>s. rpc_calls T (bitcoin_cli_context_new T version async_mode js n) cs = Inr s \<and> rc_sequence s = length cs
    \<and> (\<forall>i. \<exists>found. rpc_tsearch s i = Inr found \<and>
        map_option (\<lambda>a. (rq_sequence (the (rc_requests s a)), rq_command (the (rc_requests s a)))) found = last_call cs i)
    \<and> (\<exists>js2. bitcoin_cli_context_free s = Inr (js2, \<lambda>_. None))"
proof -
  obtain s where s: "rpc_calls T (bitcoin_cli_context_new T version async_mode js n) cs = Inr s" "requests_ok s" "objects_ok None s"
      "rc_sequence s = length cs" "\<forall>i. remembered s (id_key i) = last_call cs i"
    using calls_from_new [OF assms, of T version async_mode js n] by auto
  have call_at: "call_at s = (\<lambda>a. (id_key (rq_id (the (rc_requests s a))), rq_sequence (the (rc_requests s a)), rq_command (the (rc_requests s a))))"
    by (simp add: fun_eq_iff call_at_def Let_def)
  have "map_option (\<lambda>a. (rq_sequence (the (rc_requests s a)), rq_command (the (rc_requests s a)))) (find (\<lambda>a. key_at s a = id_key i) (rc_tree s))
      = last_call cs i" for i
    using s(5) map_of_find [of "key_at s" "\<lambda>a. snd (call_at s a)" "rc_tree s" "id_key i"]
    unfolding remembered_def call_at by (simp add: key_at_def)
  then have found: "\<exists>found. rpc_tsearch s i = Inr found \<and>
        map_option (\<lambda>a. (rq_sequence (the (rc_requests s a)), rq_command (the (rc_requests s a)))) found = last_call cs i" for i
    using search_found [OF s(2)] by blast
  obtain s2 where s2: "free_requests s (rc_tree s) = Inr s2" "rc_objects s2 = rc_objects s" "rc_jresponse s2 = rc_jresponse s"
      "rc_requests s2 = rc_requests s |` (- set (rc_tree s))"
    using free_requests_ok [of "rc_tree s" s] requests_end [OF s(2)] by auto
  have "rc_requests s2 = (\<lambda>_. None)"
    unfolding s2(4) using s(2) by (auto simp: requests_ok_def restrict_map_def fun_eq_iff)
  with s2 have "\<exists>js2. bitcoin_cli_context_free s = Inr (js2, \<lambda>_. None)"
    using s(3) by (auto simp: bitcoin_cli_context_free_def bitcoin_cli_context_private_free_def json_put_def json_object_put_def objects_ok_def
        split: option.splits)
  then show ?thesis using s(1,4) found by blast
qed

definition three_calls :: "(bytes option \<times> bytes \<times> bytes option \<times> bytes list \<times> int \<times> bool) list" where
  "three_calls = [(Some [65], [], None, [[91], [93]], 0, True), (None, [7], Some [1], [[9]], 0, False), (Some [97], [], Some [2], [], 7, False)]"

theorem rpc_requests_remembered_witness:
  "\<exists>s. rpc_calls flat_array (bitcoin_cli_context_new flat_array None False (\<lambda>_. None) 0) three_calls = Inr s \<and> rc_sequence s = length three_calls
    \<and> (\<forall>i. \<exists>found. rpc_tsearch s i = Inr found \<and>
        map_option (\<lambda>a. (rq_sequence (the (rc_requests s a)), rq_command (the (rc_requests s a)))) found = last_call three_calls i)
    \<and> (\<exists>js2. bitcoin_cli_context_free s = Inr (js2, \<lambda>_. None))"
proof (rule rpc_requests_remembered)
  show "short_calls three_calls"
    by (simp add: three_calls_def short_calls_def call_id_def call_command_def ascii_def)
  show "card (call_ids three_calls) \<le> 100"
    by (simp add: three_calls_def call_ids_def call_id_def card_insert_if)
qed

lemma calls_append: "rpc_calls T s (cs @ ds) = andThen (rpc_calls T s cs) (\<lambda>s1. rpc_calls T s1 ds)"
  by (induction cs arbitrary: s) (auto split: prod.splits sum.splits simp: andThen_def)

text \<open>The request of the 101st identifier takes the place of the first one in the history, which is freed and stays in the tree.\<close>

lemma full_history:
  assumes "requests_ok s" "rc_count s = 100" "id_key i \<notin> dom (remembered s)" "length i < 100" "length command < 200"
    and "i = (case given of None \<Rightarrow> uuid | Some g \<Rightarrow> if g = [] then uuid else g)"
  shows "\<exists>s1 r. json_rpc_request_data_new s given uuid command None = Inr (rc_next s, s1) \<and> rc_requests s1 (rc_next s) = Some r \<and> request_ok r
    \<and> rc_objects s1 = rc_objects s \<and> rc_jresponse s1 = rc_jresponse s \<and> rc_next s1 = rc_next s + 1
    \<and> rc_tree s1 = rc_tree s @ [rc_next s] \<and> rc_requests s1 (hd (rc_tree s)) = None \<and> rc_tree s \<noteq> []"
proof -
  let ?s0 = "s\<lparr>rc_next := rc_next s + 1\<rparr>"
  have i: "i = (case given of None \<Rightarrow> uuid | Some g \<Rightarrow> if g = [] then uuid else take 100 g)"
    using assms(4,6) by (auto split: option.splits)
  have ok0: "requests_ok ?s0" using assms(1) by (auto simp: requests_ok_def)
  have len: "length (rc_tree s) = 100" and max: "rc_max_history s = 100" and hist: "\<forall>i < 100. rc_history s ! i = history_at (rc_tree s) i"
    using assms(1,2) by (auto simp: requests_ok_def)
  have tree: "rc_tree s \<noteq> []" using len by auto
  then have first: "hd (rc_tree s) \<in> set (rc_tree s)" "rc_history s ! 1 = Some (hd (rc_tree s))"
    using hist [rule_format, of 1] len by (simp_all add: history_at_def hd_conv_nth)
  obtain r where r: "rc_requests s (hd (rc_tree s)) = Some r" "rq_jparams r = None" "hd (rc_tree s) \<noteq> rc_next s"
    using assms(1) first(1) by (fastforce simp: requests_ok_def request_ok_def)
  have "find (\<lambda>a. key_at ?s0 a = id_key i) (rc_tree ?s0) = None"
    using assms(3) unfolding remembered_dom by (simp add: find_None_iff) (metis image_eqI)
  note search = search_found [OF ok0, of i, unfolded this]
  show ?thesis
    unfolding json_rpc_request_data_new_def Let_def i [symmetric] search
    using r first(2) tree max assms(2,4,5)
    by (simp add: enter_history_def Let_def json_rpc_request_data_free_def json_put_def json_get_def request_ok_def)
qed


text \<open>The 101st identifier: its call succeeds like the others, but the first request is freed and stays in the tree
  of requests. A further call with the first identifier, which has to compare with it, is undefined, and so is the
  end of the context, which frees it again.\<close>

theorem rpc_history_overflow:
  assumes "short_calls (cs @ [c])" "card (call_ids cs) = 100" "id_key (call_id c) \<notin> call_ids cs" "call_id again = call_id (hd cs)"
  shows "\<exists>s. rpc_calls T (bitcoin_cli_context_new T version async_mode js n) (cs @ [c]) = Inr s
    \<and> rpc_calls T s [again] = Inl Undefined \<and> bitcoin_cli_context_free s = Inl Undefined"
proof -
  let ?s = "bitcoin_cli_context_new T version async_mode js n"
  obtain s where s: "rpc_calls T ?s cs = Inr s" "requests_ok s" "objects_ok None s" "dom (remembered s) = call_ids cs"
    using calls_from_new [of cs T version async_mode js n] assms by (auto simp: short_calls_def)
  have count: "rc_count s = 100" using remembered_count [OF s(2)] s(4) assms(2) by simp
  obtain given uuid command blocks code wanted where c: "c = (given, uuid, command, blocks, code, wanted)" by (cases c) auto
  have id: "call_id c = (case given of None \<Rightarrow> uuid | Some g \<Rightarrow> if g = [] then uuid else g)"
      "call_command c = (case command of None \<Rightarrow> ascii ''help'' | Some c \<Rightarrow> c)" by (simp_all add: call_id_def call_command_def c)
  have new: "id_key (call_id c) \<notin> dom (remembered s)" using assms(3) s(4) by simp
  have short: "length (call_id c) < 100" "length (call_command c) < 200" using assms(1) by (simp_all add: short_calls_def)
  obtain s1 r where s1: "json_rpc_request_data_new s given uuid (case command of None \<Rightarrow> ascii ''help'' | Some c \<Rightarrow> c) None = Inr (rc_next s, s1)"
      "rc_requests s1 (rc_next s) = Some r" "request_ok r" "rc_objects s1 = rc_objects s" "rc_jresponse s1 = rc_jresponse s" "rc_next s1 = rc_next s + 1"
      "rc_tree s1 = rc_tree s @ [rc_next s]" "rc_requests s1 (hd (rc_tree s)) = None" "rc_tree s \<noteq> []"
    using full_history [OF s(2) count new short id(1)] unfolding id(2) by blast
  have "objects_ok None s1" using s(3) by (auto simp: objects_ok_def s1(4-6) split: option.splits)
  then obtain rc p s2 where s2: "rpc_call T s given uuid command None (blocks, code) wanted = Inr (rc, p, s2)" "request_part s2 = request_part s1"
    using call_rest [OF s1(1,2), of None T "(blocks, code)" wanted] s1(3) by (auto simp: request_ok_def)
  have freed: "rc_tree s2 = hd (rc_tree s) # tl (rc_tree s) @ [rc_next s]" "rc_requests s2 (hd (rc_tree s)) = None"
    using s2(2) s1(7-9) by (simp_all add: request_part_def)
  have "rpc_calls T ?s (cs @ [c]) = Inr s2" by (simp add: calls_append s(1) c s2(1))
  moreover have "rpc_calls T s2 [again] = Inl Undefined"
    using freed by (cases again) (auto simp: rpc_call_def json_rpc_request_data_new_def rpc_tsearch_def Let_def)
  moreover have "bitcoin_cli_context_free s2 = Inl Undefined"
    using freed by (simp add: bitcoin_cli_context_free_def bitcoin_cli_context_private_free_def json_rpc_request_data_free_def)
  ultimately show ?thesis by blast
qed

theorem rpc_history_overflow_witness:
  "\<exists>s. rpc_calls flat_array (bitcoin_cli_context_new flat_array None False (\<lambda>_. None) 0)
      (map (\<lambda>k. (Some [word_of_nat k], [], None, [], 0, False)) [100..<200] @ [(Some [200], [], None, [], 0, False)]) = Inr s
    \<and> rpc_calls flat_array s [(Some [100], [], None, [], 0, False)] = Inl Undefined \<and> bitcoin_cli_context_free s = Inl Undefined"
proof -
  let ?c = "\<lambda>k. (Some [word_of_nat k], [], None, [], 0, False)"
  have key: "(id_key \<circ> call_id) (?c k) = [word_of_nat k]" if "k \<in> {100..<200}" for k
  proof -
    have "unat (word_of_nat k :: byte) = k" using that by (simp add: unat_of_nat)
    then have "\<not> (word_of_nat k :: byte) \<le> 90" using that by (simp add: word_le_nat_alt)
    then show ?thesis by (simp add: call_id_def id_key_def c_tolower_def)
  qed
  have "call_ids (map ?c [100..<200]) = (\<lambda>k. [word_of_nat k]) ` {100..<200}"
    unfolding call_ids_def set_map set_upt image_image by (rule image_cong [OF refl key])
  note ids = this
  have inj: "inj_on (\<lambda>k. [word_of_nat k :: byte]) {100..<201}"
    by (rule inj_on_inverseI [where g = "\<lambda>l. unat (hd l)"]) (simp add: unat_of_nat)
  have "card (call_ids (map ?c [100..<200])) = 100"
    unfolding ids using card_image [OF inj_on_subset [OF inj, of "{100..<200}"]] by simp
  moreover have "[200] \<notin> call_ids (map ?c [100..<200])"
    unfolding ids using inj_on_image_mem_iff [OF inj, of 200 "{100..<200}"] by simp
  ultimately show ?thesis
    by (intro rpc_history_overflow) (auto simp: short_calls_def call_id_def call_command_def ascii_def id_key_def c_tolower_def upt_conv_Cons)
qed


text \<open>A new request leaves the mode and the responses alone.\<close>

lemma data_new_frame:
  assumes "json_rpc_request_data_new s given uuid command p = Inr (a, s1)"
  shows "rc_async_mode s1 = rc_async_mode s \<and> rc_responses s1 = rc_responses s"
proof -
  have free: "json_rpc_request_data_free x b = Inr y \<Longrightarrow> rc_async_mode y = rc_async_mode x \<and> rc_responses y = rc_responses x" for x y b
    by (auto simp: json_rpc_request_data_free_def andThen_def split: option.splits sum.splits)
  have enter: "enter_history x b i = Inr y \<Longrightarrow> rc_async_mode y = rc_async_mode x \<and> rc_responses y = rc_responses x" for x y b i
    by (auto simp: enter_history_def Let_def andThen_def dest!: free split: option.splits sum.splits if_splits)
  show ?thesis
    using assms unfolding json_rpc_request_data_new_def Let_def
    by (auto simp: andThen_def dest!: enter split: option.splits sum.splits)
qed


section \<open>Responses\<close>

lemma perform_text:
  assumes "takes_text T after txt doc" "p @ concat blocks = txt" "[] \<notin> set blocks" "blocks \<noteq> []"
    and "rc_jtok t = after p" "rc_jresponse t = None"
  shows "\<exists>t2. curl_perform T t blocks code = Inr (code, t2) \<and> rc_jresponse t2 = Some (rc_next t)
    \<and> rc_objects t2 = (rc_objects t)(rc_next t \<mapsto> (doc, 1)) \<and> rc_async_mode t2 = rc_async_mode t
    \<and> rc_responses t2 = rc_responses t @ (if rc_async_mode t then [Some doc] else [])"
  using assms(2-)
proof (induction blocks arbitrary: p t)
  case (Cons b bs)
  have b: "b \<noteq> []" using Cons.prems(2) by auto
  show ?case
  proof (cases "bs = []")
    case True
    then have "b \<noteq> [] \<and> p @ b = txt" using b Cons.prems(1) by simp
    then obtain k where "jt_parse T (after p) b = (Some doc, Json_success, k)"
      using assms(1) unfolding takes_text_def by blast
    then show ?thesis using True b Cons.prems(4,5) by (simp add: on_write_data_def json_put_def fun_upd_def)
  next
    case False
    then have r: "concat bs \<noteq> []" using Cons.prems(2) by (cases bs) auto
    have "p @ b @ concat bs = txt" using Cons.prems(1) by simp
    with b r have "jt_parse T (after p) b = (None, Json_continue, after (p @ b))"
      using assms(1) unfolding takes_text_def by blast
    then have "on_write_data T t b = Inr (length b, t\<lparr>rc_jerr := Json_continue, rc_jtok := after (p @ b)\<rparr>)"
      using b Cons.prems(4) by (simp add: on_write_data_def)
    moreover have "(p @ b) @ concat bs = txt" "[] \<notin> set bs" using Cons.prems(1,2) by simp_all
    note Cons.IH [OF this False, of "t\<lparr>rc_jerr := Json_continue, rc_jtok := after (p @ b)\<rparr>"]
    ultimately show ?thesis using Cons.prems(5) by simp
  qed
qed simp

text \<open>C32. A response whose text is one document is the same in whatever blocks libcurl delivers it: the
  call returns 0 and the response is the document, handed to the caller with a reference of its own
  besides that of the context when there is a place for it. Without one, or in async mode, the document goes once
  to the handler of responses. This holds for a call without parameters after any such calls, whatever they delivered, as
  long as they have at most 100 different identifiers in all, identifiers shorter than 100 bytes and commands shorter
  than 200; after the 101st identifier the use of the context is undefined.\<close>

theorem rpc_response_any_blocks:
  assumes "short_calls (cs @ [(given, uuid, command, blocks, 0, wanted)])" "card (call_ids (cs @ [(given, uuid, command, blocks, 0, wanted)])) \<le> 100"
    and "takes_text T after (concat blocks) doc" "[] \<notin> set blocks" "blocks \<noteq> []"
  shows "\<exists>s s2 p. rpc_calls T (bitcoin_cli_context_new T version async_mode js n) cs = Inr s
    \<and> rpc_call T s given uuid command None (blocks, 0) wanted = Inr (0, if wanted then Some p else None, s2)
    \<and> rc_jresponse s2 = Some p \<and> rc_objects s2 p = Some (doc, if wanted then 2 else 1)
    \<and> rc_responses s2 = rc_responses s @ (if wanted \<and> \<not> rc_async_mode s then [] else [Some doc])"
proof -
  let ?s = "bitcoin_cli_context_new T version async_mode js n"
  let ?c = "(given, uuid, command, blocks, 0, wanted)"
  have fin: "finite (call_ids (cs @ [?c]))" by (simp add: call_ids_def)
  have sub: "call_ids cs \<subseteq> call_ids (cs @ [?c])" "id_key (call_id ?c) \<in> call_ids (cs @ [?c])" by (auto simp: call_ids_def)
  have "card (call_ids cs) \<le> 100" using card_mono [OF fin sub(1)] assms(2) by simp
  then obtain s where s: "rpc_calls T ?s cs = Inr s" "requests_ok s" "objects_ok None s" "dom (remembered s) = call_ids cs"
    using calls_from_new [of cs T version async_mode js n] assms(1) by (auto simp: short_calls_def)
  have id: "call_id ?c = (case given of None \<Rightarrow> uuid | Some g \<Rightarrow> if g = [] then uuid else g)"
      "call_command ?c = (case command of None \<Rightarrow> ascii ''help'' | Some c \<Rightarrow> c)" by (simp_all add: call_id_def call_command_def)
  have short: "length (call_id ?c) < 100" "length (call_command ?c) < 200" using assms(1) by (simp_all add: short_calls_def)
  have room: "id_key (call_id ?c) \<in> dom (remembered s) \<or> rc_count s < 100"
  proof (rule disjCI)
    assume "\<not> rc_count s < 100"
    then have "card (call_ids (cs @ [?c])) \<le> card (call_ids cs)" using remembered_count [OF s(2)] s(4) assms(2) by simp
    then show "id_key (call_id ?c) \<in> dom (remembered s)" using card_seteq [OF fin sub(1)] sub(2) s(4) by simp
  qed
  obtain a s1 r where s1: "json_rpc_request_data_new s given uuid (case command of None \<Rightarrow> ascii ''help'' | Some c \<Rightarrow> c) None = Inr (a, s1)"
      "rc_requests s1 a = Some r" "request_ok r" "rc_objects s1 = rc_objects s" "rc_jresponse s1 = rc_jresponse s" "rc_next s1 = rc_next s + 1"
      "rc_async_mode s1 = rc_async_mode s" "rc_responses s1 = rc_responses s"
    using data_new_ok [OF s(2) short id(1) room] data_new_frame unfolding id(2) by metis
  have "objects_ok None s1" using s(3) by (auto simp: objects_ok_def s1(4-6) split: option.splits)
  then obtain t where t: "rpc_call T s given uuid command None (blocks, 0) wanted = andThen (curl_perform T t blocks 0) (call_end wanted None)"
      "rc_jtok t = jt_new T" "rc_jresponse t = None" "rc_async_mode t = rc_async_mode s" "rc_responses t = rc_responses s"
    using call_sent [OF s1(1,2), of None T "(blocks, 0)" wanted] s1(3,7,8) by (auto simp: request_ok_def)
  have "rc_jtok t = after []" using assms(3) t(2) by (simp add: takes_text_def)
  then obtain t2 where t2: "curl_perform T t blocks 0 = Inr (0, t2)" "rc_jresponse t2 = Some (rc_next t)"
      "rc_objects t2 = (rc_objects t)(rc_next t \<mapsto> (doc, 1))" "rc_async_mode t2 = rc_async_mode s"
      "rc_responses t2 = rc_responses s @ (if rc_async_mode s then [Some doc] else [])"
    using perform_text [OF assms(3) _ assms(4,5) _ t(3), of "[]" 0] t(4,5) by auto
  have "\<exists>s2. call_end wanted None (0, t2) = Inr (0, if wanted then Some (rc_next t) else None, s2) \<and> rc_jresponse s2 = Some (rc_next t)
      \<and> rc_objects s2 (rc_next t) = Some (doc, if wanted then 2 else 1)
      \<and> rc_responses s2 = rc_responses s @ (if wanted \<and> \<not> rc_async_mode s then [] else [Some doc])"
    using t2(2-5) by (simp add: call_end_def json_put_def json_get_def json_object_get_def json_value_def Let_def)
  then show ?thesis using s(1) t(1) t2(1) by fastforce
qed

theorem rpc_response_any_blocks_witness:
  "\<exists>s s2 p. rpc_calls flat_array (bitcoin_cli_context_new flat_array None False (\<lambda>_. None) 0) three_calls = Inr s
    \<and> rpc_call flat_array s None [7] None None ([[91], [1, 2], [3, 93]], 0) True = Inr (0, if True then Some p else None, s2)
    \<and> rc_jresponse s2 = Some p \<and> rc_objects s2 p = Some ([1, 2, 3], if True then 2 else 1)
    \<and> rc_responses s2 = rc_responses s @ (if True \<and> \<not> rc_async_mode s then [] else [Some [1, 2, 3]])"
proof (rule rpc_response_any_blocks [where after = "\<lambda>p. p"])
  let ?cs = "three_calls @ [(None, [7], None, [[91], [1, 2], [3, 93]], 0, True)]"
  show "short_calls ?cs"
    by (simp add: three_calls_def short_calls_def call_id_def call_command_def ascii_def)
  show "card (call_ids ?cs) \<le> 100"
    by (simp add: three_calls_def call_ids_def call_id_def card_insert_if)
  show "takes_text flat_array (\<lambda>p. p) (concat [[91], [1, 2], [3, 93]]) [1, 2, 3]"
    using flat_array_takes [of "[1, 2, 3]"] by simp
qed simp_all

section \<open>Parameters\<close>

text \<open>C35. A call with parameters takes one reference to them and gives two back: the request that goes out has the reference that
  was taken and is freed with it, and the end of the context gives back the reference of the remembered request.
  The caller's object, with k references, is as before the call after it, and has lost one of the caller's after the end
  of the context: it is gone when the caller had one.\<close>

theorem rpc_params_given_back_twice:
  assumes "js p = Some (v, k)" "0 < k" "p < n" "length (call_id (given, uuid, command, blocks, code, wanted)) < 100"
    and "length (call_command (given, uuid, command, blocks, code, wanted)) < 200"
  shows "\<exists>rc q s2 js2 rs. rpc_call T (bitcoin_cli_context_new T version async_mode js n) given uuid command (Some p) (blocks, code) wanted = Inr (rc, q, s2)
    \<and> rc_objects s2 p = Some (v, k) \<and> bitcoin_cli_context_free s2 = Inr (js2, rs)
    \<and> js2 p = (if k = 1 then None else Some (v, k - 1))"
proof -
  let ?s = "bitcoin_cli_context_new T version async_mode js n"
  let ?c = "(given, uuid, command, blocks, code, wanted)"
  let ?command = "case command of None \<Rightarrow> ascii ''help'' | Some c \<Rightarrow> c"
  have id: "call_id ?c = (case given of None \<Rightarrow> uuid | Some g \<Rightarrow> if g = [] then uuid else take 100 g)" "call_command ?c = ?command"
    using assms(4) by (auto simp: call_id_def call_command_def split: option.splits)
  let ?r = "\<lparr>rq_id = call_id ?c, rq_command = call_command ?c, rq_jparams = Some p, rq_sequence = 1, rq_index = 1\<rparr>"
  have "\<exists>s1. json_rpc_request_data_new ?s given uuid ?command (Some p) = Inr (n, s1) \<and> rc_requests s1 n = Some ?r \<and> rc_tree s1 = [n]
      \<and> rc_objects s1 = js(p \<mapsto> (v, k + 1)) \<and> rc_jresponse s1 = None \<and> rc_next s1 = n + 1"
    using assms(1,5) unfolding json_rpc_request_data_new_def Let_def id(1) [symmetric] id(2) [symmetric]
    by (simp add: bitcoin_cli_context_new_def bitcoin_cli_context_private_new_def rpc_tsearch_def enter_history_def Let_def
        json_rpc_requests_max_history_def json_get_def json_object_get_def)
  then obtain s1 where s1: "json_rpc_request_data_new ?s given uuid ?command (Some p) = Inr (n, s1)" "rc_requests s1 n = Some ?r" "rc_tree s1 = [n]"
      "rc_objects s1 = js(p \<mapsto> (v, k + 1))" "rc_jresponse s1 = None" "rc_next s1 = n + 1" by blast
  have "objects_ok (Some (p, v, k + 1)) s1" using assms(3) s1(4-6) by (simp add: objects_ok_def)
  then obtain rc q s2 where s2: "rpc_call T ?s given uuid command (Some p) (blocks, code) wanted = Inr (rc, q, s2)"
      "request_part s2 = request_part s1" "objects_ok (Some (p, v, k)) s2"
    using call_rest [OF s1(1,2), of "Some (p, v, k + 1)" T "(blocks, code)" wanted] assms(2,4,5) by auto
  have req: "rc_tree s2 = [n]" "rc_requests s2 n = Some ?r" using s2(2) s1(2,3) by (simp_all add: request_part_def)
  have "\<exists>js2 rs. bitcoin_cli_context_free s2 = Inr (js2, rs) \<and> js2 p = (if k = 1 then None else Some (v, k - 1))"
    using s2(3) assms(2) req
    by (auto simp: bitcoin_cli_context_free_def bitcoin_cli_context_private_free_def json_rpc_request_data_free_def json_put_def
        json_object_put_def objects_ok_def split: option.splits)
  then show ?thesis using s2(1,3) by (auto simp: objects_ok_def)
qed

theorem rpc_params_given_back_twice_witness:
  "\<exists>rc q s2 js2 rs. rpc_call flat_array (bitcoin_cli_context_new flat_array None False [0 \<mapsto> ([5], 1)] 1) (Some [65]) [] None (Some 0) ([[91, 93]], 0) True
      = Inr (rc, q, s2)
    \<and> rc_objects s2 0 = Some ([5], 1) \<and> bitcoin_cli_context_free s2 = Inr (js2, rs) \<and> js2 0 = (if (1 :: nat) = 1 then None else Some ([5], 1 - 1))"
  by (rule rpc_params_given_back_twice) (simp_all add: call_id_def call_command_def ascii_def)

end
