(* ===== verification/HttpJson.thy ===== *)
theory HttpJson
  imports JsonRpc Buffer
begin

text \<open>
  The client for documents over HTTP (\<open>utils/json-response.c\<close>): a handle of libcurl whose options stay from one
  request to the next, the headers for the next request, and the response with its buffer and its parsed document.
  The objects, the tokener and what libcurl delivers are as in \<open>JsonRpc\<close>; lists of headers are in a store, as the
  handle keeps a pointer to one. A body is the memory of the caller, which is taken to be there as long as the
  handle refers to it. The handler of responses is the default one.
\<close>

section \<open>The handle of libcurl\<close>

text \<open>Setting a body makes the request a post; a method of its own goes before that.\<close>

record curl_handle =
  co_url :: bytes
  co_post :: bool
  co_custom :: "bytes option"
  co_fields :: "bytes option"
  co_fieldsize :: "nat option"
  co_headers :: "nat option"

definition curl_easy_reset :: curl_handle where
  "curl_easy_reset = \<lparr>co_url = [], co_post = False, co_custom = None, co_fields = None, co_fieldsize = None, co_headers = None\<rparr>"

type_synonym http_request = "bytes \<times> bytes \<times> bytes list \<times> bytes option"

text \<open>What goes out: method, address, headers and body. A body without a size ends at its first zero.\<close>

definition curl_request :: "curl_handle \<Rightarrow> (nat \<Rightarrow> bytes list option) \<Rightarrow> http_request res" where
  "curl_request c stored =
     andThen (case co_headers c of None \<Rightarrow> Inr [] | Some a \<Rightarrow> (case stored a of None \<Rightarrow> Inl Undefined | Some hs \<Rightarrow> Inr hs)) (\<lambda>hs.
     andThen (case co_fields c of None \<Rightarrow> Inr None
              | Some m \<Rightarrow> andThen (case co_fieldsize c of None \<Rightarrow> c_strlen m | Some n \<Rightarrow> Inr n) (\<lambda>n.
                  andThen (mem_read n m) (\<lambda>b. Inr (Some b)))) (\<lambda>body.
       Inr (case co_custom c of Some x \<Rightarrow> x | None \<Rightarrow> if co_post c then ascii ''POST'' else ascii ''GET'', co_url c, hs,
         if co_post c then body else None)))"

section \<open>The response\<close>

record 'k json_response_context =
  jr_buf :: auto_buffer
  jr_jresponse :: "nat option"
  jr_auto_parse :: bool
  jr_err_code :: int
  jr_response_code :: int
  jr_jtok :: "'k option"
  jr_jerr :: json_err

definition json_response_context_init :: "('k, 'v) json_tokener \<Rightarrow> bool \<Rightarrow> 'k json_response_context" where
  "json_response_context_init T auto_parse =
     \<lparr>jr_buf = auto_buffer_init 0, jr_jresponse = None, jr_auto_parse = auto_parse, jr_err_code = 0, jr_response_code = 0,
      jr_jtok = (if auto_parse then Some (jt_new T) else None), jr_jerr = Json_success\<rparr>"

text \<open>Without automatic parsing there is no tokener; json-c passes over the null pointer in a reset.\<close>

definition json_response_context_clear ::
    "('k, 'v) json_tokener \<Rightarrow> 'k json_response_context \<Rightarrow> 'v json_heap \<Rightarrow> ('k json_response_context \<times> 'v json_heap) res" where
  "json_response_context_clear T r js =
     andThen (json_put js (jr_jresponse r)) (\<lambda>js1.
       Inr (r\<lparr>jr_jresponse := None, jr_jtok := map_option (\<lambda>_. jt_new T) (jr_jtok r), jr_jerr := Json_success,
           jr_buf := (if ab_data (jr_buf r) \<noteq> [] then (jr_buf r)\<lparr>ab_length := 0, ab_start_pos := 0\<rparr> else jr_buf r)\<rparr>, js1))"

definition json_response_context_cleanup ::
    "('k, 'v) json_tokener \<Rightarrow> 'k json_response_context \<Rightarrow> 'v json_heap \<Rightarrow> ('k json_response_context \<times> 'v json_heap) res" where
  "json_response_context_cleanup T r js =
     andThen (json_response_context_clear T (r\<lparr>jr_buf := auto_buffer_cleanup (jr_buf r)\<rparr>) js) (\<lambda>(r1, js1). Inr (r1\<lparr>jr_jtok := None\<rparr>, js1))"

section \<open>The client\<close>

record ('k, 'v) http_json =
  hj_headers :: "nat option"
  hj_response :: "'k json_response_context"
  hj_curl :: curl_handle
  hj_lists :: "nat \<Rightarrow> bytes list option"
  hj_objects :: "'v json_heap"
  hj_next :: nat
  hj_sent :: "http_request list"

definition http_json_context_init :: "('k, 'v) json_tokener \<Rightarrow> 'v json_heap \<Rightarrow> nat \<Rightarrow> ('k, 'v) http_json" where
  "http_json_context_init T objects new_address =
     \<lparr>hj_headers = None, hj_response = json_response_context_init T True, hj_curl = curl_easy_reset, hj_lists = (\<lambda>_. None),
      hj_objects = objects, hj_next = new_address, hj_sent = []\<rparr>"

text \<open>A list of headers is freed; the options of the handle stay as they are.\<close>

definition http_clear_headers :: "('k, 'v) http_json \<Rightarrow> ('k, 'v) http_json" where
  "http_clear_headers h = (case hj_headers h of None \<Rightarrow> h | Some a \<Rightarrow> h\<lparr>hj_lists := (hj_lists h)(a := None), hj_headers := None\<rparr>)"

definition http_json_context_cleanup :: "('k, 'v) json_tokener \<Rightarrow> ('k, 'v) http_json \<Rightarrow> ('k, 'v) http_json res" where
  "http_json_context_cleanup T h =
     andThen (json_response_context_cleanup T (hj_response h) (hj_objects h)) (\<lambda>(r, js).
       Inr (http_clear_headers (h\<lparr>hj_response := r, hj_objects := js, hj_curl := curl_easy_reset\<rparr>)))"

text \<open>The header is cut to the size that is given for the value, if any.\<close>

definition http_add_header :: "('k, 'v) http_json \<Rightarrow> bytes \<Rightarrow> bytes option \<Rightarrow> int \<Rightarrow> ('k, 'v) http_json res" where
  "http_add_header h key value cb_value =
     (let cb_value = (case value of Some v \<Rightarrow> if cb_value \<le> 0 then int (length v) else cb_value | None \<Rightarrow> cb_value);
          cb = length key + 2 + (if 0 < cb_value then nat cb_value else 0);
          header = take cb (key @ ascii '': '' @ (case value of None \<Rightarrow> [] | Some v \<Rightarrow> v))
      in if key = [] then Inl Abort
         else case hj_headers h of
             None \<Rightarrow> Inr (h\<lparr>hj_lists := (hj_lists h)(hj_next h \<mapsto> [header]), hj_headers := Some (hj_next h), hj_next := hj_next h + 1\<rparr>)
           | Some a \<Rightarrow> (case hj_lists h a of
               None \<Rightarrow> Inl Undefined
             | Some hs \<Rightarrow> Inr (h\<lparr>hj_lists := (hj_lists h)(a \<mapsto> hs @ [header])\<rparr>)))"

text \<open>Printing the buffer as a string reads it up to a zero byte.\<close>

definition cells_print :: "byte option list \<Rightarrow> unit res" where
  "cells_print cs = (if Some 0 \<in> set (takeWhile (\<lambda>c. c \<noteq> None) cs) then Inr () else Inl Undefined)"

definition http_on_response_default :: "('k, 'v) json_tokener \<Rightarrow> ('k, 'v) http_json \<Rightarrow> bytes \<Rightarrow> (nat \<times> ('k, 'v) http_json) res" where
  "http_on_response_default T h block =
     (if block = [] then Inr (0, h)
      else andThen (auto_buffer_push (jr_buf (hj_response h)) (Some block) (length block)) (\<lambda>(b, _).
        let r = (hj_response h)\<lparr>jr_buf := b\<rparr>
        in if \<not> jr_auto_parse r then Inr (length block, h\<lparr>hj_response := r\<rparr>)
           else case jr_jtok r of
               None \<Rightarrow> Inr (0, h\<lparr>hj_response := r\<rparr>)
             | Some k \<Rightarrow> (case jt_parse T k block of (v, err, k1) \<Rightarrow>
                 let new = (case v of None \<Rightarrow> None | Some _ \<Rightarrow> Some (hj_next h)); r1 = r\<lparr>jr_jtok := Some k1, jr_jerr := err\<rparr>;
                     h1 = (case v of None \<Rightarrow> h | Some x \<Rightarrow> h\<lparr>hj_objects := (hj_objects h)(hj_next h \<mapsto> (x, 1)), hj_next := hj_next h + 1\<rparr>)
                 in case err of
                      Json_continue \<Rightarrow> Inr (length block, h1\<lparr>hj_response := r1\<rparr>)
                    | Json_failed \<Rightarrow> andThen (cells_print (ab_data b)) (\<lambda>_. Inr (0, h1\<lparr>hj_response := r1\<rparr>))
                    | Json_success \<Rightarrow> Inr (length block, h1\<lparr>hj_response := r1\<lparr>jr_jresponse := new\<rparr>\<rparr>))))"

fun http_deliver :: "('k, 'v) json_tokener \<Rightarrow> ('k, 'v) http_json \<Rightarrow> bytes list \<Rightarrow> int \<Rightarrow> (int \<times> ('k, 'v) http_json) res" where
  "http_deliver T h [] code = Inr (code, h)"
| "http_deliver T h (block # blocks) code =
     andThen (http_on_response_default T h block) (\<lambda>(n, h1). if n \<noteq> length block then Inr (23, h1) else http_deliver T h1 blocks code)"

section \<open>Requests\<close>

text \<open>
  What the three kinds of request have in common after the options: the request goes out, its blocks come in, and
  the headers are given up when all went well. What is delivered are the blocks, the result of libcurl, the result of
  the question for the status and the status.
\<close>

definition http_perform ::
    "('k, 'v) json_tokener \<Rightarrow> ('k, 'v) http_json \<Rightarrow> bytes list \<times> int \<times> int \<times> int \<Rightarrow> (nat option \<times> ('k, 'v) http_json) res" where
  "http_perform T h = (\<lambda>(blocks, code, info, status).
     andThen (curl_request (hj_curl h) (hj_lists h)) (\<lambda>request.
     andThen (http_deliver T (h\<lparr>hj_sent := hj_sent h @ [request]\<rparr>) blocks code) (\<lambda>(ret, h1).
       let r = (hj_response h1)\<lparr>jr_err_code := ret\<rparr>
       in if ret \<noteq> 0 then Inr (None, h1\<lparr>hj_response := r\<rparr>)
          else if info \<noteq> 0 then Inr (None, h1\<lparr>hj_response := r\<lparr>jr_err_code := info\<rparr>\<rparr>)
          else let h2 = http_clear_headers (h1\<lparr>hj_response := r\<lparr>jr_err_code := info, jr_response_code := status\<rparr>\<rparr>)
               in andThen (json_get (hj_objects h2) (jr_jresponse r)) (\<lambda>js. Inr (jr_jresponse r, h2\<lparr>hj_objects := js\<rparr>)))))"

text \<open>The options for headers and body of a request.\<close>

definition set_headers :: "nat option \<Rightarrow> curl_handle \<Rightarrow> curl_handle" where
  "set_headers headers c = (case headers of None \<Rightarrow> c | Some a \<Rightarrow> c\<lparr>co_headers := Some a\<rparr>)"

definition set_body :: "bytes option \<Rightarrow> int \<Rightarrow> curl_handle \<Rightarrow> curl_handle" where
  "set_body body sz c =
     (case body of None \<Rightarrow> c
      | Some m \<Rightarrow> c\<lparr>co_post := True, co_fields := Some m, co_fieldsize := (if 0 < sz then Some (nat sz) else co_fieldsize c)\<rparr>)"

definition http_get ::
    "('k, 'v) json_tokener \<Rightarrow> ('k, 'v) http_json \<Rightarrow> bytes \<Rightarrow> bytes list \<times> int \<times> int \<times> int \<Rightarrow> (nat option \<times> ('k, 'v) http_json) res" where
  "http_get T h url delivered =
     andThen (json_response_context_clear T (hj_response h) (hj_objects h)) (\<lambda>(r, js).
       http_perform T (h\<lparr>hj_response := r, hj_objects := js, hj_curl := set_headers (hj_headers h) (curl_easy_reset\<lparr>co_url := url\<rparr>)\<rparr>) delivered)"

text \<open>A post starts with the options that the handle has, and resets them only when it went well.\<close>

definition http_post ::
    "('k, 'v) json_tokener \<Rightarrow> ('k, 'v) http_json \<Rightarrow> bytes \<Rightarrow> bytes option \<Rightarrow> int \<Rightarrow> bytes list \<times> int \<times> int \<times> int
      \<Rightarrow> (nat option \<times> ('k, 'v) http_json) res" where
  "http_post T h url body sz delivered =
     andThen (json_response_context_clear T (hj_response h) (hj_objects h)) (\<lambda>(r, js).
     andThen (http_perform T (h\<lparr>hj_response := r, hj_objects := js,
         hj_curl := set_headers (hj_headers h) (set_body body sz ((hj_curl h)\<lparr>co_post := True, co_url := url\<rparr>))\<rparr>) delivered) (\<lambda>(p, h1).
       Inr (p, if jr_err_code (hj_response h1) = 0 then h1\<lparr>hj_curl := curl_easy_reset\<rparr> else h1)))"

definition http_delete ::
    "('k, 'v) json_tokener \<Rightarrow> ('k, 'v) http_json \<Rightarrow> bytes \<Rightarrow> bytes option \<Rightarrow> int \<Rightarrow> bytes list \<times> int \<times> int \<times> int
      \<Rightarrow> (nat option \<times> ('k, 'v) http_json) res" where
  "http_delete T h url body sz delivered =
     andThen (json_response_context_clear T (hj_response h) (hj_objects h)) (\<lambda>(r, js).
       http_perform T (h\<lparr>hj_response := r, hj_objects := js,
         hj_curl := set_headers (hj_headers h) (set_body body sz (curl_easy_reset\<lparr>co_custom := Some (ascii ''DELETE''), co_url := url\<rparr>))\<rparr>) delivered)"

definition http_send ::
    "('k, 'v) json_tokener \<Rightarrow> ('k, 'v) http_json \<Rightarrow> bytes \<Rightarrow> bytes \<Rightarrow> bytes option \<Rightarrow> int \<Rightarrow> bytes list \<times> int \<times> int \<times> int
      \<Rightarrow> (nat option \<times> ('k, 'v) http_json) res" where
  "http_send T h verb url body sz delivered =
     (let is = (\<lambda>name. map c_tolower verb = map c_tolower (ascii name))
      in if is ''GET'' then http_get T h url delivered
         else if is ''POST'' then http_post T h url body sz delivered
         else if is ''DELETE'' then http_delete T h url body sz delivered
         else Inr (None, h\<lparr>hj_response := (hj_response h)\<lparr>jr_err_code := 1, jr_response_code := 501\<rparr>\<rparr>))"


section \<open>What the client does\<close>

text \<open>The response in hand, the list of headers and the buffer are there.\<close>

definition http_ok :: "('k, 'v) http_json \<Rightarrow> bool" where
  "http_ok h \<longleftrightarrow> ab_wf (jr_buf (hj_response h))
     \<and> (case jr_jresponse (hj_response h) of None \<Rightarrow> True | Some q \<Rightarrow> q < hj_next h \<and> hj_objects h q \<noteq> None)
     \<and> (case hj_headers h of None \<Rightarrow> True | Some a \<Rightarrow> a < hj_next h \<and> hj_lists h a \<noteq> None)"

definition header_lines :: "('k, 'v) http_json \<Rightarrow> bytes list" where
  "header_lines h = (case hj_headers h of None \<Rightarrow> [] | Some a \<Rightarrow> the (hj_lists h a))"

lemma clear_ok:
  assumes "http_ok h"
  shows "\<exists>r js. json_response_context_clear T (hj_response h) (hj_objects h) = Inr (r, js) \<and> ab_room (jr_buf r) (2 ^ 63 - 1) \<and> ab_wf (jr_buf r) \<and> ab_content (jr_buf r) = []
    \<and> jr_jresponse r = None \<and> jr_auto_parse r = jr_auto_parse (hj_response h) \<and> jr_jtok r = map_option (\<lambda>_. jt_new T) (jr_jtok (hj_response h))"
proof -
  have "\<exists>js. json_put (hj_objects h) (jr_jresponse (hj_response h)) = Inr js"
    using assms by (auto simp: http_ok_def json_put_def json_object_put_def split: option.splits)
  moreover have "ab_data b = [] \<Longrightarrow> ab_wf b \<Longrightarrow> ab_start_pos b = 0 \<and> ab_length b = 0" for b by (simp add: ab_wf_def)
  ultimately show ?thesis
    using assms by (auto simp: json_response_context_clear_def http_ok_def ab_room_def ab_wf_def ab_content_def)
qed

text \<open>A document in any blocks: it is the response, and the buffer has its text.\<close>

lemma deliver_text:
  assumes "takes_text T after txt doc" "p @ concat blocks = txt" "[] \<notin> set blocks" "blocks \<noteq> []"
    and "jr_jtok (hj_response h) = Some (after p)" "jr_auto_parse (hj_response h)" "ab_room (jr_buf (hj_response h)) (length (concat blocks) + n)" "ab_wf (jr_buf (hj_response h))"
  shows "\<exists>h2. http_deliver T h blocks code = Inr (code, h2) \<and> jr_jresponse (hj_response h2) = Some (hj_next h)
    \<and> hj_objects h2 = (hj_objects h)(hj_next h \<mapsto> (doc, 1)) \<and> hj_next h2 = hj_next h + 1
    \<and> ab_wf (jr_buf (hj_response h2)) \<and> ab_content (jr_buf (hj_response h2)) = ab_content (jr_buf (hj_response h)) @ concat blocks
    \<and> hj_headers h2 = hj_headers h \<and> hj_lists h2 = hj_lists h \<and> hj_sent h2 = hj_sent h \<and> hj_curl h2 = hj_curl h"
  using assms(2-)
proof (induction blocks arbitrary: p h)
  case (Cons b bs)
  let ?r = "hj_response h"
  have b: "b \<noteq> []" using Cons.prems(2) by auto
  have "ab_room (jr_buf ?r) (length b + (length (concat bs) + n))" using Cons.prems(6) by (simp add: add.assoc)
  then obtain buf where "push_all (jr_buf ?r) b = Inr buf" "ab_room buf (length (concat bs) + n)" "ab_content buf = ab_content (jr_buf ?r) @ b"
    using abuf.push_content by blast
  then obtain ok where buf: "auto_buffer_push (jr_buf ?r) (Some b) (length b) = Inr (buf, ok)" "ab_room buf (length (concat bs) + n)"
      "ab_content buf = ab_content (jr_buf ?r) @ b"
    by (auto simp: push_all_def andThen_def split: sum.splits if_splits)
  have wf: "ab_wf buf" using push_wf(1) [OF Cons.prems(7) buf(1)] .
  let ?h = "h\<lparr>hj_response := ?r\<lparr>jr_buf := buf, jr_jtok := Some (after (p @ b)), jr_jerr := Json_continue\<rparr>\<rparr>"
  show ?case
  proof (cases "bs = []")
    case True
    then have "b \<noteq> [] \<and> p @ b = txt" using b Cons.prems(1) by simp
    then obtain k where "jt_parse T (after p) b = (Some doc, Json_success, k)"
      using assms(1) unfolding takes_text_def by blast
    then show ?thesis using True b buf wf Cons.prems(4,5) by (simp add: http_on_response_default_def Let_def fun_upd_def)
  next
    case False
    then have r: "concat bs \<noteq> []" using Cons.prems(2) by (cases bs) auto
    have "p @ b @ concat bs = txt" using Cons.prems(1) by simp
    with b r have "jt_parse T (after p) b = (None, Json_continue, after (p @ b))"
      using assms(1) unfolding takes_text_def by blast
    then have "http_on_response_default T h b = Inr (length b, ?h)"
      using b buf(1) Cons.prems(4,5) by (simp add: http_on_response_default_def Let_def)
    moreover have "(p @ b) @ concat bs = txt" "[] \<notin> set bs" using Cons.prems(1,2) by simp_all
    note Cons.IH [OF this False, of ?h]
    ultimately show ?thesis using Cons.prems(5) buf(2,3) wf by simp
  qed
qed simp

lemma http_get_runs:
  assumes "http_ok h" "jr_auto_parse (hj_response h)" "jr_jtok (hj_response h) \<noteq> None"
    and "takes_text T after (concat blocks) doc" "[] \<notin> set blocks" "blocks \<noteq> []" "length (concat blocks) < 2 ^ 63"
  shows "\<exists>p h2. http_get T h url (blocks, 0, 0, status) = Inr (Some p, h2) \<and> hj_objects h2 p = Some (doc, 2)
    \<and> hj_sent h2 = hj_sent h @ [(ascii ''GET'', url, header_lines h, None)] \<and> jr_response_code (hj_response h2) = status
    \<and> ab_content (jr_buf (hj_response h2)) = concat blocks \<and> hj_headers h2 = None \<and> jr_err_code (hj_response h2) = 0 \<and> http_ok h2"
proof -
  obtain r js where r: "json_response_context_clear T (hj_response h) (hj_objects h) = Inr (r, js)" "ab_room (jr_buf r) (2 ^ 63 - 1)" "ab_wf (jr_buf r)"
      "ab_content (jr_buf r) = []" "jr_jresponse r = None" "jr_auto_parse r" "jr_jtok r = Some (jt_new T)"
    using clear_ok [OF assms(1), of T] assms(2,3) by auto
  let ?c = "set_headers (hj_headers h) (curl_easy_reset\<lparr>co_url := url\<rparr>)"
  let ?h = "h\<lparr>hj_response := r, hj_objects := js, hj_curl := ?c\<rparr>"
  let ?sent = "hj_sent h @ [(ascii ''GET'', url, header_lines h, None)]"
  have req: "curl_request ?c (hj_lists h) = Inr (ascii ''GET'', url, header_lines h, None)"
    using assms(1) by (auto simp: curl_request_def set_headers_def curl_easy_reset_def header_lines_def http_ok_def split: option.splits)
  have "jr_jtok r = Some (after [])" using r(7) assms(4) by (simp add: takes_text_def)
  moreover have "ab_room (jr_buf r) (length (concat blocks) + 0)" using r(2) assms(7) unfolding ab_room_def by linarith
  ultimately obtain h2 where h2: "http_deliver T (?h\<lparr>hj_sent := ?sent\<rparr>) blocks 0 = Inr (0, h2)"
      "jr_jresponse (hj_response h2) = Some (hj_next h)" "hj_objects h2 = js(hj_next h \<mapsto> (doc, 1))" "hj_next h2 = hj_next h + 1"
      "ab_wf (jr_buf (hj_response h2))" "ab_content (jr_buf (hj_response h2)) = concat blocks" "hj_headers h2 = hj_headers h" "hj_sent h2 = ?sent"
    using deliver_text [OF assms(4) _ assms(5,6), of "[]" "?h\<lparr>hj_sent := ?sent\<rparr>" 0 0] r(3,4,6) by auto
  have "http_get T h url (blocks, 0, 0, status) = http_perform T ?h (blocks, 0, 0, status)" by (simp add: http_get_def r(1))
  then show ?thesis
    using req h2 by (cases "hj_headers h")
      (simp_all add: http_perform_def Let_def http_clear_headers_def json_get_def json_object_get_def http_ok_def)
qed

text \<open>C33. A get, in whatever case it is asked for: the request that goes out has the address, the headers that were added and no body, whatever
  was sent before; a document that comes back, in any blocks, is the result, with a reference of
  the caller's besides that of the context, its text is in the buffer, and the headers are used up.\<close>

theorem http_get_answered:
  assumes "http_ok h" "jr_auto_parse (hj_response h)" "jr_jtok (hj_response h) \<noteq> None" "map c_tolower verb = ascii ''get''"
    and "takes_text T after (concat blocks) doc" "[] \<notin> set blocks" "blocks \<noteq> []" "length (concat blocks) < 2 ^ 63"
  shows "\<exists>p h2. http_send T h verb url body sz (blocks, 0, 0, status) = Inr (Some p, h2) \<and> hj_objects h2 p = Some (doc, 2)
    \<and> hj_sent h2 = hj_sent h @ [(ascii ''GET'', url, header_lines h, None)] \<and> jr_response_code (hj_response h2) = status
    \<and> ab_content (jr_buf (hj_response h2)) = concat blocks \<and> hj_headers h2 = None \<and> http_ok h2"
proof -
  have "map c_tolower (ascii ''GET'') = ascii ''get''" by (simp add: ascii_def c_tolower_def)
  then have "http_send T h verb url body sz (blocks, 0, 0, status) = http_get T h url (blocks, 0, 0, status)"
    by (simp add: http_send_def assms(4))
  then show ?thesis using http_get_runs [OF assms(1-3,5-8), of url status] by auto
qed


lemma http_ok_alt:
  "http_ok h \<longleftrightarrow> ab_wf (jr_buf (hj_response h))
     \<and> (\<forall>q. jr_jresponse (hj_response h) = Some q \<longrightarrow> q < hj_next h \<and> hj_objects h q \<noteq> None)
     \<and> (\<forall>a. hj_headers h = Some a \<longrightarrow> a < hj_next h \<and> hj_lists h a \<noteq> None)"
  by (simp add: http_ok_def split: option.split)

text \<open>Whatever is delivered, the context stays in order, and only a request that went well uses the headers up.\<close>

lemma respond_ok:
  assumes "http_on_response_default T h b = Inr (n, h1)" "http_ok h"
  shows "http_ok h1 \<and> hj_headers h1 = hj_headers h \<and> hj_lists h1 = hj_lists h \<and> hj_curl h1 = hj_curl h \<and> hj_sent h1 = hj_sent h"
proof (cases "b = []")
  case False
  obtain buf ok where push: "auto_buffer_push (jr_buf (hj_response h)) (Some b) (length b) = Inr (buf, ok)"
    using assms(1) False by (auto simp: http_on_response_default_def andThen_def split: sum.splits)
  have "ab_wf buf" using push_wf(1) [OF _ push] assms(2) by (simp add: http_ok_def)
  then show ?thesis
    using assms False by (auto simp: http_on_response_default_def push Let_def http_ok_alt res_simps less_Suc_eq
        split: if_splits option.splits prod.splits json_err.splits)
qed (use assms in \<open>simp add: http_on_response_default_def\<close>)

lemma deliver_ok:
  "http_deliver T h blocks code = Inr (ret, h1) \<Longrightarrow> http_ok h \<Longrightarrow>
    http_ok h1 \<and> hj_headers h1 = hj_headers h \<and> hj_lists h1 = hj_lists h \<and> hj_curl h1 = hj_curl h \<and> hj_sent h1 = hj_sent h"
proof (induction blocks arbitrary: h)
  case (Cons b bs)
  obtain n h2 where step: "http_on_response_default T h b = Inr (n, h2)" using Cons.prems(1) by (auto simp: andThen_def split: sum.splits)
  note ok = respond_ok [OF step Cons.prems(2)]
  show ?case using Cons.prems(1) Cons.IH [of h2] ok by (simp add: step split: if_splits)
qed auto

lemma perform_ok:
  assumes "http_perform T h (blocks, code, info, status) = Inr (q, h1)" "http_ok h"
  shows "http_ok h1 \<and> hj_curl h1 = hj_curl h \<and> (\<exists>x. hj_sent h1 = hj_sent h @ [x])
    \<and> (if jr_err_code (hj_response h1) = 0 then hj_headers h1 = None \<and> (case hj_headers h of None \<Rightarrow> True | Some a \<Rightarrow> hj_lists h1 a = None)
       else hj_headers h1 = hj_headers h)"
proof -
  obtain x where x: "curl_request (hj_curl h) (hj_lists h) = Inr x" using assms(1) by (auto simp: http_perform_def andThen_def split: sum.splits)
  obtain ret h2 where h2: "http_deliver T (h\<lparr>hj_sent := hj_sent h @ [x]\<rparr>) blocks code = Inr (ret, h2)"
    using assms(1) by (auto simp: http_perform_def x andThen_def split: sum.splits)
  have "http_ok (h\<lparr>hj_sent := hj_sent h @ [x]\<rparr>)" using assms(2) by (simp add: http_ok_alt)
  note ok = deliver_ok [OF h2 this]
  let ?r = "(hj_response h2)\<lparr>jr_err_code := ret\<rparr>"
  consider "ret \<noteq> 0 \<and> h1 = h2\<lparr>hj_response := ?r\<rparr>"
    | "ret = 0 \<and> info \<noteq> 0 \<and> h1 = h2\<lparr>hj_response := ?r\<lparr>jr_err_code := info\<rparr>\<rparr>"
    | "\<exists>js. json_get (hj_objects h2) (jr_jresponse (hj_response h2)) = Inr js \<and> ret = 0
        \<and> h1 = (http_clear_headers (h2\<lparr>hj_response := ?r\<lparr>jr_err_code := 0, jr_response_code := status\<rparr>\<rparr>))\<lparr>hj_objects := js\<rparr>"
    using assms(1) by (auto simp: http_perform_def x h2 Let_def res_simps http_clear_headers_def split: if_splits option.splits)
  then show ?thesis
  proof cases
    case 3
    then obtain js where js: "json_get (hj_objects h2) (jr_jresponse (hj_response h2)) = Inr js"
        "h1 = (http_clear_headers (h2\<lparr>hj_response := ?r\<lparr>jr_err_code := 0, jr_response_code := status\<rparr>\<rparr>))\<lparr>hj_objects := js\<rparr>" by blast
    have "js q \<noteq> None" if "jr_jresponse (hj_response h2) = Some q" for q
      using js(1) that by (auto simp: json_get_def json_object_get_def split: option.splits)
    then show ?thesis using ok by (cases x) (simp add: js(2) http_ok_alt http_clear_headers_def split: option.split)
  qed (use ok in \<open>cases x; simp add: http_ok_alt\<close>)+
qed

lemma clear_start:
  assumes "json_response_context_clear T (hj_response h) (hj_objects h) = Inr (r, js)" "http_ok h"
  shows "http_ok (h\<lparr>hj_response := r, hj_objects := js, hj_curl := c\<rparr>)"
  using clear_ok [OF assms(2), of T] assms by (simp add: http_ok_alt)

lemma http_init_ok: "http_ok (http_json_context_init T js n)"
  by (simp add: http_ok_def http_json_context_init_def json_response_context_init_def ab_wf_def auto_buffer_init_def auto_buffer_resize_def
      auto_buffer_zero_def AUTO_BUFFER_ALLOC_SIZE_def)

lemma http_add_header_ok:
  "http_ok h \<Longrightarrow> key \<noteq> [] \<Longrightarrow> \<exists>h1. http_add_header h key value cb = Inr h1 \<and> http_ok h1 \<and> hj_headers h1 \<noteq> None \<and> hj_response h1 = hj_response h
    \<and> (\<exists>x. header_lines h1 = header_lines h @ [x])"
  by (auto simp: http_add_header_def http_ok_def header_lines_def Let_def split: option.splits)

text \<open>C36. A post starts from the options of the request before. After a get with headers that went well it refers to the
  headers, which are freed: a post without headers of its own is undefined. After a delete it goes out as a delete.\<close>

theorem http_post_keeps_options:
  assumes "http_ok h" "hj_headers h \<noteq> None" "http_get T h url (blocks, 0, 0, status) = Inr (q, h1)" "jr_err_code (hj_response h1) = 0"
    and "http_ok g" "hj_headers g = None" "http_delete T g url None 0 (blocks2, code2, info2, status2) = Inr (q2, g1)" "body \<noteq> []"
  shows "http_post T h1 url3 b sz d = Inl Undefined
    \<and> (\<exists>g2. http_post T g1 url3 (Some body) (int (length body)) ([], 0, 0, 200) = Inr (None, g2)
        \<and> hj_sent g2 = hj_sent g1 @ [(ascii ''DELETE'', url3, [], Some body)])"
proof
  obtain r js where r: "json_response_context_clear T (hj_response h) (hj_objects h) = Inr (r, js)" using clear_ok [OF assms(1)] by blast
  obtain a where a: "hj_headers h = Some a" using assms(2) by auto
  have get: "http_perform T (h\<lparr>hj_response := r, hj_objects := js, hj_curl := set_headers (Some a) (curl_easy_reset\<lparr>co_url := url\<rparr>)\<rparr>) (blocks, 0, 0, status)
      = Inr (q, h1)" using assms(3) by (simp add: http_get_def r a)
  note ok = perform_ok [OF get clear_start [OF r assms(1)]]
  then have "http_ok h1" "hj_headers h1 = None" "hj_lists h1 a = None" "co_headers (hj_curl h1) = Some a"
    using assms(4) a by (simp_all add: set_headers_def)
  moreover obtain r1 js1 where "json_response_context_clear T (hj_response h1) (hj_objects h1) = Inr (r1, js1)" using clear_ok [OF \<open>http_ok h1\<close>] by blast
  ultimately show "http_post T h1 url3 b sz d = Inl Undefined"
    by (cases d) (simp add: http_post_def http_perform_def curl_request_def set_headers_def set_body_def split: option.split)
next
  obtain r js where r: "json_response_context_clear T (hj_response g) (hj_objects g) = Inr (r, js)" using clear_ok [OF assms(5)] by blast
  have del: "http_perform T (g\<lparr>hj_response := r, hj_objects := js, hj_curl := curl_easy_reset\<lparr>co_custom := Some (ascii ''DELETE''), co_url := url\<rparr>\<rparr>)
      (blocks2, code2, info2, status2) = Inr (q2, g1)"
    using assms(6,7) by (simp add: http_delete_def r set_headers_def set_body_def)
  note ok = perform_ok [OF del clear_start [OF r assms(5)]]
  then have g1: "http_ok g1" "hj_headers g1 = None" "hj_curl g1 = curl_easy_reset\<lparr>co_custom := Some (ascii ''DELETE''), co_url := url\<rparr>"
    using assms(6) by (simp_all split: if_splits)
  obtain r1 js1 where r1: "json_response_context_clear T (hj_response g1) (hj_objects g1) = Inr (r1, js1)" "jr_jresponse r1 = None"
    using clear_ok [OF g1(1)] by blast
  show "\<exists>g2. http_post T g1 url3 (Some body) (int (length body)) ([], 0, 0, 200) = Inr (None, g2)
        \<and> hj_sent g2 = hj_sent g1 @ [(ascii ''DELETE'', url3, [], Some body)]"
    using assms(8) g1(2,3) by (simp add: http_post_def r1 http_perform_def curl_request_def set_headers_def set_body_def curl_easy_reset_def
        mem_read_def Let_def http_clear_headers_def json_get_def)
qed

text \<open>A response that is not JSON, without a zero byte in it, is printed past its end.\<close>

theorem http_not_json_read_past_end:
  assumes "jr_auto_parse (hj_response h)" "jr_jtok (hj_response h) = Some k" "jr_buf (hj_response h) = auto_buffer_init 0"
    and "jt_parse T k block = (v, Json_failed, k1)" "block \<noteq> []" "0 \<notin> set block" "length block < 2 ^ 63"
  shows "http_on_response_default T h block = Inl Undefined"
proof -
  have "ab_room (auto_buffer_init 0) (length block + 0)" using buffer_init(1) [of "length block"] assms(7) by simp
  then obtain b where "push_all (auto_buffer_init 0) block = Inr b" "ab_room b 0" "ab_content b = block"
    using abuf.push_content buffer_init(2) by fastforce
  then obtain ok where push: "auto_buffer_push (auto_buffer_init 0) (Some block) (length block) = Inr (b, ok)"
    by (auto simp: push_all_def andThen_def split: sum.splits if_splits)
  have cells: "\<exists>x. ab_data b = map Some block @ replicate x None"
    using push assms(5,7) by (auto simp: auto_buffer_push_def auto_buffer_init_def auto_buffer_resize_def auto_buffer_zero_def
        AUTO_BUFFER_ALLOC_SIZE_def Let_def size_add_def cells_write_def mem_read_def res_simps split: if_splits)
  have "takeWhile (\<lambda>c. c \<noteq> None) (map Some block @ replicate x None) = map Some block" for x
    by (induction block) auto
  then have "cells_print (ab_data b) = Inl Undefined" using cells assms(6) by (auto simp: cells_print_def)
  then show ?thesis using assms(1,2,4,5) by (simp add: http_on_response_default_def assms(3) push Let_def)
qed

section \<open>Concrete uses\<close>

definition http_started :: "(bytes, bytes) http_json" where
  "http_started = (case http_add_header (http_json_context_init flat_array (\<lambda>_. None) 0) [65] (Some [66]) 0 of
     Inl _ \<Rightarrow> http_json_context_init flat_array (\<lambda>_. None) 0 | Inr h \<Rightarrow> h)"

lemma http_started_ok:
  "http_ok http_started" "hj_headers http_started \<noteq> None" "jr_auto_parse (hj_response http_started)" "jr_jtok (hj_response http_started) \<noteq> None"
proof -
  obtain h where "http_add_header (http_json_context_init flat_array (\<lambda>_. None) 0) [65] (Some [66]) 0 = Inr h" "http_ok h" "hj_headers h \<noteq> None"
      "hj_response h = hj_response (http_json_context_init flat_array (\<lambda>_. None) 0)"
    using http_add_header_ok [OF http_init_ok [of flat_array "\<lambda>_. None" 0], of "[65]" "Some [66]" 0] by auto
  then show "http_ok http_started" "hj_headers http_started \<noteq> None" "jr_auto_parse (hj_response http_started)"
      "jr_jtok (hj_response http_started) \<noteq> None"
    by (simp_all add: http_started_def http_json_context_init_def json_response_context_init_def)
qed

theorem http_get_answered_witness:
  "\<exists>p h2. http_send flat_array http_started [71, 101, 84] [1] None 0 ([[91], [1, 2, 93]], 0, 0, 200) = Inr (Some p, h2)
    \<and> hj_objects h2 p = Some ([1, 2], 2) \<and> hj_sent h2 = hj_sent http_started @ [(ascii ''GET'', [1], header_lines http_started, None)]
    \<and> jr_response_code (hj_response h2) = 200 \<and> ab_content (jr_buf (hj_response h2)) = concat [[91], [1, 2, 93]] \<and> hj_headers h2 = None
    \<and> http_ok h2"
  by (rule http_get_answered [where after = "\<lambda>p. p"])
    (use http_started_ok flat_array_takes [of "[1, 2]"] in \<open>simp_all add: ascii_def c_tolower_def\<close>)

theorem http_post_keeps_options_witness:
  "\<exists>h1 g1. (\<exists>q. http_get flat_array http_started [1] ([[91], [1, 2, 93]], 0, 0, 200) = Inr (q, h1))
    \<and> (\<exists>q. http_delete flat_array (http_json_context_init flat_array (\<lambda>_. None) 0) [1] None 0 ([], 0, 0, 200) = Inr (q, g1))
    \<and> http_post flat_array h1 [2] (Some [7, 8]) 2 ([], 0, 0, 200) = Inl Undefined
    \<and> (\<exists>g2. http_post flat_array g1 [2] (Some [7, 8]) (int (length [7, 8 :: byte])) ([], 0, 0, 200) = Inr (None, g2)
        \<and> hj_sent g2 = hj_sent g1 @ [(ascii ''DELETE'', [2], [], Some [7, 8])])"
proof -
  let ?g = "http_json_context_init flat_array (\<lambda>_. None) 0"
  obtain p h1 where get: "http_get flat_array http_started [1] ([[91], [1, 2, 93]], 0, 0, 200) = Inr (Some p, h1)" "jr_err_code (hj_response h1) = 0"
    using http_get_runs [OF http_started_ok(1,3,4), of flat_array "\<lambda>p. p" "[[91], [1, 2, 93]]" "[1, 2]" "[1]" 200] flat_array_takes [of "[1, 2]"] by auto
  have del: "\<exists>q g1. http_delete flat_array ?g [1] None 0 ([], 0, 0, 200) = Inr (q, g1)"
    by (simp add: http_delete_def http_json_context_init_def json_response_context_init_def json_response_context_clear_def json_put_def
        http_perform_def curl_request_def set_headers_def set_body_def curl_easy_reset_def http_clear_headers_def json_get_def Let_def)
  then obtain q g1 where del: "http_delete flat_array ?g [1] None 0 ([], 0, 0, 200) = Inr (q, g1)" by blast
  have "hj_headers ?g = None" by (simp add: http_json_context_init_def)
  then show ?thesis
    using http_post_keeps_options [OF http_started_ok(1,2) get http_init_ok _ del, of "[7, 8]" "[2]" "Some [7, 8]" 2 "([], 0, 0, 200)"] get(1) del by blast
qed

end
