(* ===== verification/Spec2Isabelle.thy ===== *)
theory Spec2Isabelle
  imports Prelude Varint Hashing Encodings Crypto Tx Uint256 Merkle Block Sighash ScriptData ScriptOps Script ScriptProps ScriptControl ScriptSession ScriptFlow Buffer Queues AVL Message Chains ChainProps ChainRuns HeadersDb SpvNode SpvProps SpvRead SpvLife SpvSync DbEngine DbLibrary DbRegistry DbAccess DbHelper Jwt JsonRpc JsonRpcProps HttpJson
begin

text \<open>
  A model of the library bitcoin-clib: bytes and text encodings, transactions, signature digests, Merkle
  trees and blocks, the script interpreter, the chain of blocks, network messages and the containers they
  use, with the clients for databases, RPC and HTTP. Each definition is a translation of one function, or of a marked part of one, of the C sources;
  files are named relative to the directory that holds \<open>src\<close>, \<open>include\<close> and \<open>utils\<close>.

  Reading the models. Memory behind a pointer is a list of bytes, structures are records, integers keep
  their width as words where arithmetic on them can wrap. The result of an operation is \<open>fault + value\<close>:
  \<open>Reject\<close> is the documented error return, \<open>Abort\<close> a failing assertion, \<open>Undefined\<close> an access that C
  does not define (past the end of a buffer, through a null or freed pointer, of memory never written), and
  \<open>Unfinished\<close> a walk that has used up the bound on its steps. Theorems about correct use show that none
  of these comes out; theorems marked as error behaviour show when one does. Allocation succeeds.

  Theories, in the order of their use:
  \<^item> \<open>Prelude\<close>: outcomes and how they compose, memory slices, little-endian integers, counted loops over a
    buffer, the predicate \<open>post\<close> on outcomes.
  \<^item> \<open>Varint\<close> (\<open>src/satoshi-types.c\<close>): variable length integers and strings on raw buffers; round trips.
  \<^item> \<open>Hashing\<close> (\<open>utils/utils.c\<close>): \<open>hash256\<close>, \<open>hash160\<close> over the incremental interface of the hash
    library, the parameter \<open>hash_ops\<close> with its laws in the locale \<open>hash_provider\<close>, interpreted on contexts
    that record the message.
  \<^item> \<open>Encodings\<close> (\<open>utils/utils.c\<close>, \<open>utils/base64.c\<close>, \<open>src/base58.c\<close>): hex, base64 and base58; round trips
    and the inputs for which they fail.
  \<^item> \<open>Crypto\<close> (\<open>src/crypto.c\<close>): keys and signatures around libsecp256k1, the parameter \<open>secp256k1_ops\<close>;
    what is signed verifies.
  \<^item> \<open>Tx\<close> (\<open>src/satoshi-types.c\<close>, \<open>src/satoshi-tx.c\<close>): inputs, outputs, witnesses, transactions; the
    parser accepts exactly the documented layout, and serialization and parsing are inverse.
  \<^item> \<open>Uint256\<close> (\<open>src/compact_int.c\<close>): 256-bit integers and compact targets.
  \<^item> \<open>Merkle\<close> (\<open>src/merkle_tree.c\<close>): the tree over its layers of buffers refines the recursive Merkle
    root; roots commit to the leaves up to collisions, and the known exception of repeated leaves. The layers
    are counted with an \<open>int\<close>, so this holds for up to \<open>2 ^ 31 - 2\<close> leaves, and is undefined from there on.
  \<^item> \<open>Block\<close> (\<open>src/satoshi-block.c\<close>): header check, parser and serializer; an accepted block has the
    Merkle root of its transactions.
  \<^item> \<open>Sighash\<close> (\<open>src/satoshi-tx.c\<close>, \<open>src/segwit-tx.c\<close>): prepared contexts and digests; the witness digest
    is the one of BIP 143, the two implementations agree, the second legacy digest does not.
  \<^item> \<open>ScriptData\<close>, \<open>ScriptOps\<close>, \<open>Script\<close> (\<open>src/satoshi-script.c\<close>): stack items and stacks, opcodes and
    conditionals with the interpreter loop, then sessions over the input script, output script, script hash
    and witness programs. The loop consumes a byte each step and terminates without a bound.
  \<^item> \<open>ScriptProps\<close>, \<open>ScriptControl\<close>, \<open>ScriptSession\<close>, \<open>ScriptFlow\<close>: what sessions decide (payment to a key
    hash, multiple signatures), what every operation keeps, what an input script can do, how balanced
    conditionals run; and the spends that are accepted without a valid signature.
  \<^item> \<open>Buffer\<close> (\<open>utils/auto_buffer.c\<close>), \<open>Queues\<close> (\<open>utils/clib-stack.c\<close> and the ring buffer of
    \<open>src/chains.c\<close>), \<open>AVL\<close> (\<open>utils/avl_tree.c\<close>): containers. The contracts are locales (\<open>byte_pipe\<close>,
    \<open>container\<close> with \<open>fifo\<close> and \<open>pile\<close>, \<open>search_tree\<close>), each interpreted on the models; the claims are
    refinements of byte strings, lists and sets of keys by any sequence of calls.
  \<^item> \<open>Message\<close> (\<open>src/bitcoin-message.c\<close>): envelope of the network messages around the parameter
    \<open>payload_ops\<close>; round trip and soundness of the parser.
  \<^item> \<open>Chains\<close>, \<open>ChainProps\<close>, \<open>ChainRuns\<close> (\<open>src/chains.c\<close>): the verified chain of heirs and the candidate
    chains in an explicit store of linked nodes, with the work as the parameter \<open>work_ops\<close>. Additions in
    any order, reorganisations included, keep the heirs linked and the call-backs consistent; blocks in
    order extend the chain at once; two blocks that wait for one parent block its arrival.

  \<^item> \<open>HeadersDb\<close> (\<open>src/block_hdrs-db.c\<close>): the database of block headers, with the Berkeley DB library as the
    parameter \<open>bdb_ops\<close> and its documented behaviour in the locale \<open>header_index\<close>, interpreted on a list of
    records; what is found after a put or a deletion, and which pages the moves show.
  \<^item> \<open>SpvNode\<close> (\<open>src/spv-node.c\<close>, \<open>src/spv_node_message_handlers.c\<close>, \<open>src/spv_node_app.c\<close>,
    \<open>src/bitcoin-params.c\<close>): the node program on top of the buffers, messages, chain, address tree and header
    database: handlers, reading, writing, start and network loop, with what the sockets deliver as an argument.
    \<open>SpvProps\<close>: the address book. \<open>SpvRead\<close>: reading a stream in any blocks is handling its messages one
    after the other, except where the header is read too early. \<open>SpvLife\<close>: what every handler keeps holds for
    the whole life of the node (locale \<open>node_invariant\<close>, interpreted for the types of the state and, in
    \<open>SpvSync\<close>, for the database); answers, writing, and the messages that end the program. \<open>SpvSync\<close>: the
    database mirrors the chain, headers in order make progress, and what is loaded when the program starts. The
    codec of \<open>getheaders\<close> is taken to write the bytes the protocol documents.
  \<^item> \<open>DbEngine\<close> (\<open>src/db_engine.c\<close>): the general database engine over the parameter \<open>bdb_lib\<close>: transactions,
    databases, records, cursors, and the engine with its list of databases. \<open>DbLibrary\<close>: what the library
    documents about entries and cursors (locale \<open>bdb_entries\<close>), interpreted on databases in memory.
    \<open>DbRegistry\<close>: the list holds exactly the open databases up to 64 of them, the end of the engine closes these
    in the library, and the 65th wipes the list.
    \<open>DbAccess\<close>: what searches give and what a cursor reads, and that it never finds a key. \<open>DbHelper\<close>
    (\<open>src/db/db-helpler.c\<close>): the older helper has one environment, that of the last directory.
  \<^item> \<open>Jwt\<close> (\<open>utils/json-web-token.c\<close>): JSON web tokens and their signing over the encoders of \<open>Encodings\<close>;
    the layout of what is signed, claims that change its meaning, and claims that overrun the buffer.
  \<^item> \<open>JsonRpc\<close> (\<open>src/rpc/json-rpc.c\<close>): the RPC client with its history of requests, over an explicit store of
    counted objects and the parameter \<open>json_tokener\<close>. \<open>JsonRpcProps\<close>: up to 100 identifiers are
    remembered with their last call and freed at the end, the 101st leaves a freed request behind; responses are the same in any
    blocks; parameters are given back twice.
  \<^item> \<open>HttpJson\<close> (\<open>utils/json-response.c\<close>): the HTTP client with the options of its handle, over the buffers of
    \<open>Buffer\<close>; what a get does in any context, and what a post takes over from the request before.

  How they interact: a block is parsed by the parsers of transactions and checked by the Merkle tree and the
  compact comparison; a script session takes its digests from the context of a transaction and its
  signatures from the library; the chain takes headers with the hash of \<open>Hashing\<close>, and its tree walks use
  the ring buffer of \<open>Queues\<close>. The node reads bytes into a buffer, cuts them into messages, and its handlers
  extend the chain, whose call-backs write the database of headers, from which the chain is built up again.

  Bounds. Walks along pointers in \<open>Chains\<close> have a bound on their steps because pointers may form cycles, and
  do in one case; three steps are enough for blocks in order. Addresses of nodes are never reused, so a
  pointer to a freed node is always seen as such; a search tree that holds one must not be accessed. All
  other recursions are total. The array of heirs has room for 5256000 blocks; when it moves, pointers into
  it are stale.

  Not modelled: \<open>utxoes_db.c\<close>, which is empty; of the node program the command line, signals and the sockets themselves;
  json-c, libcurl, OpenSSL and GnuTLS, which are parameters; the floating-point
  difficulties of \<open>compact_int.c\<close>; the payload codecs of messages, which are not in the repository; printing,
  tests and the demo panel; locks, as one thread runs.
\<close>

end
